(* ===== verification/Neoth_Prelude.thy ===== *)
theory Neoth_Prelude
  imports Main "HOL-Library.Word" "HOL-Library.Char_ord" "HOL-Library.List_Lexorder"
begin

text \<open>
  Shared vocabulary of the development: Rust's fixed-width integers and byte
  buffers, \<open>Result\<close>, checked and saturating arithmetic, little-endian
  encoding, slices and in-place buffer writes, IEEE \<open>f32\<close> values as bit
  patterns, UTF-8 strings, the ordered map behind \<open>BTreeMap\<close>, and the locale of
  invariants over transition systems. Everything here is part of the language or of
  its standard library as the sources under \<open>src/SRC\<close> use it; no definition of
  this theory models a component by itself.
\<close>

unbundle bit_operations_syntax

named_theorems codec_simps \<open>lengths and slices of encoded fields\<close>
named_theorems buf_simps \<open>buffer writes and the slices read back from them\<close>
named_theorems step_intros \<open>one-step preservation lemmas\<close>

section \<open>Machine integers and results\<close>

type_synonym u8 = "8 word"
type_synonym u16 = "16 word"
type_synonym u32 = "32 word"
type_synonym u64 = "64 word"
type_synonym bytes = "u8 list"

text \<open>\<open>Result<T, E>\<close>: \<open>Err\<close> is the left injection, \<open>Ok\<close> the right one.\<close>

abbreviation Ok :: "'a \<Rightarrow> 'e + 'a" where "Ok \<equiv> Inr"
abbreviation Err :: "'e \<Rightarrow> 'e + 'a" where "Err \<equiv> Inl"

definition is_ok :: "'e + 'a \<Rightarrow> bool" where
  "is_ok r = (case r of Inl _ \<Rightarrow> False | Inr _ \<Rightarrow> True)"

lemma is_ok_simps [simp]: "is_ok (Ok x)" "\<not> is_ok (Err e)"
  by (simp_all add: is_ok_def)

lemma is_ok_iff: "is_ok r \<longleftrightarrow> (\<exists>x. r = Ok x)"
  by (cases r) (auto simp: is_ok_def)

text \<open>A sequence of checks joined by the question mark operator: the first error is returned.\<close>

fun first_error :: "('e + unit) list \<Rightarrow> 'e + unit" where
  "first_error [] = Ok ()"
| "first_error (Inl e # rs) = Err e"
| "first_error (Inr _ # rs) = first_error rs"

lemma first_error_Ok: "first_error rs = Ok () \<longleftrightarrow> (\<forall>r \<in> set rs. r = Ok ())"
proof (induction rs)
  case (Cons r rs)
  then show ?case by (cases r) auto
qed simp

definition ensure :: "bool \<Rightarrow> 'e \<Rightarrow> 'e + unit" where
  "ensure c e = (if c then Ok () else Err e)"

lemma ensure_Ok [simp]: "ensure c e = Ok () \<longleftrightarrow> c" "Ok () = ensure c e \<longleftrightarrow> c"
  by (auto simp: ensure_def)

text \<open>\<open>checked_add\<close> and \<open>saturating_add\<close> of unsigned integers.\<close>

definition checked_add :: "'a::len word \<Rightarrow> 'a word \<Rightarrow> 'a word option" where
  "checked_add a b = (if unat a + unat b < 2 ^ LENGTH('a) then Some (a + b) else None)"

definition saturating_add :: "'a::len word \<Rightarrow> 'a word \<Rightarrow> 'a word" where
  "saturating_add a b = (if unat a + unat b < 2 ^ LENGTH('a) then a + b else - 1)"

lemma checked_add_Some:
  "checked_add a b = Some c \<longleftrightarrow> unat a + unat b < 2 ^ LENGTH('a) \<and> unat c = unat a + unat b"
  for a b c :: "'a::len word"
proof -
  have "unat (a + b) = unat a + unat b" if "unat a + unat b < 2 ^ LENGTH('a)"
    using that by (simp add: unat_word_ariths)
  then show ?thesis
    by (auto simp: checked_add_def word_unat_eq_iff)
qed

lemma checked_add_None:
  "checked_add a b = None \<longleftrightarrow> 2 ^ LENGTH('a) \<le> unat a + unat b" for a b :: "'a::len word"
  by (auto simp: checked_add_def)

lemma unat_saturating_add:
  "unat (saturating_add a b) = min (unat a + unat b) (2 ^ LENGTH('a) - 1)" for a b :: "'a::len word"
  by (auto simp: saturating_add_def unat_word_ariths unsigned_minus_1_eq_mask mask_eq_exp_minus_1 min_def)

text \<open>\<open>i64::saturating_add\<close>, on the integers of the 64-bit range.\<close>

definition i64_max :: int where "i64_max = 2 ^ 63 - 1"
definition i64_min :: int where "i64_min = - (2 ^ 63)"

definition i64_saturating_add :: "int \<Rightarrow> int \<Rightarrow> int" where
  "i64_saturating_add a b = max i64_min (min i64_max (a + b))"

definition is_i64 :: "int \<Rightarrow> bool" where
  "is_i64 n \<longleftrightarrow> i64_min \<le> n \<and> n \<le> i64_max"

lemma is_i64_saturating_add [simp]: "is_i64 (i64_saturating_add a b)"
  by (auto simp: is_i64_def i64_saturating_add_def i64_min_def i64_max_def)

section \<open>Little-endian integers\<close>

lemma unat_bounds:
  fixes b :: u8 and h :: u16 and w :: u32 and d :: u64
  shows "unat b < 256" "unat h < 65536" "unat w < 4294967296" "unat d < 18446744073709551616"
proof -
  have "unat b < 2 ^ LENGTH(8)" "unat h < 2 ^ LENGTH(16)" "unat w < 2 ^ LENGTH(32)"
    "unat d < 2 ^ LENGTH(64)"
    by (rule unsigned_less)+
  then show "unat b < 256" "unat h < 65536" "unat w < 4294967296"
    "unat d < 18446744073709551616"
    by simp_all
qed

text \<open>\<open>to_le_bytes\<close> and \<open>from_le_bytes\<close>, through the value of the integer.\<close>

primrec nat_to_le :: "nat \<Rightarrow> nat \<Rightarrow> bytes" where
  "nat_to_le 0 k = []"
| "nat_to_le (Suc n) k = word_of_nat (k mod 256) # nat_to_le n (k div 256)"

fun le_to_nat :: "bytes \<Rightarrow> nat" where
  "le_to_nat [] = 0"
| "le_to_nat (b # bs) = unat b + 256 * le_to_nat bs"

definition u16_to_le :: "u16 \<Rightarrow> bytes" where "u16_to_le w = nat_to_le 2 (unat w)"
definition u32_to_le :: "u32 \<Rightarrow> bytes" where "u32_to_le w = nat_to_le 4 (unat w)"
definition u64_to_le :: "u64 \<Rightarrow> bytes" where "u64_to_le w = nat_to_le 8 (unat w)"
definition u16_of_le :: "bytes \<Rightarrow> u16" where "u16_of_le bs = word_of_nat (le_to_nat bs)"
definition u32_of_le :: "bytes \<Rightarrow> u32" where "u32_of_le bs = word_of_nat (le_to_nat bs)"
definition u64_of_le :: "bytes \<Rightarrow> u64" where "u64_of_le bs = word_of_nat (le_to_nat bs)"

lemma length_nat_to_le [simp]: "length (nat_to_le n k) = n"
  by (induction n arbitrary: k) auto

lemma le_to_nat_bound: "le_to_nat bs < 256 ^ length bs"
proof (induction bs)
  case (Cons b bs)
  with unat_bounds(1) [of b] show ?case by simp
qed simp

lemma le_to_nat_to_le: "le_to_nat (nat_to_le n k) = k mod 256 ^ n"
proof (induction n arbitrary: k)
  case (Suc n)
  then show ?case
    by (simp add: unat_of_nat mod_mult2_eq add.commute)
qed simp

lemma nat_to_le_to_nat: "nat_to_le (length bs) (le_to_nat bs) = bs"
proof (induction bs)
  case (Cons b bs)
  with unat_bounds(1) [of b] show ?case by simp
qed simp

lemma le_lengths [simp, codec_simps]:
  "length (u16_to_le h) = 2" "length (u32_to_le w) = 4" "length (u64_to_le d) = 8"
  by (simp_all add: u16_to_le_def u32_to_le_def u64_to_le_def)

lemma of_le_to_le [simp, codec_simps]:
  "u16_of_le (u16_to_le h) = h" "u32_of_le (u32_to_le w) = w" "u64_of_le (u64_to_le d) = d"
  using unat_bounds(2) [of h] unat_bounds(3) [of w] unat_bounds(4) [of d]
  by (simp_all add: u16_of_le_def u16_to_le_def u32_of_le_def u32_to_le_def
      u64_of_le_def u64_to_le_def le_to_nat_to_le)

lemma to_le_of_le:
  "length bs = 2 \<Longrightarrow> u16_to_le (u16_of_le bs) = bs"
  "length bs = 4 \<Longrightarrow> u32_to_le (u32_of_le bs) = bs"
  "length bs = 8 \<Longrightarrow> u64_to_le (u64_of_le bs) = bs"
  using le_to_nat_bound [of bs] nat_to_le_to_nat [of bs]
  by (auto simp: u16_of_le_def u16_to_le_def u32_of_le_def u32_to_le_def
      u64_of_le_def u64_to_le_def unat_of_nat)

text \<open>\<open>u64::to_be_bytes\<close>.\<close>

definition u64_to_be :: "u64 \<Rightarrow> bytes" where "u64_to_be w = rev (u64_to_le w)"

lemma length_u64_to_be [simp]: "length (u64_to_be w) = 8"
  by (simp add: u64_to_be_def)

lemma u64_to_be_inj [simp]: "u64_to_be v = u64_to_be w \<longleftrightarrow> v = w"
  by (metis of_le_to_le(3) rev_rev_ident u64_to_be_def)

text \<open>\<open>len as u64\<close> of an in-memory collection.\<close>

lemma u64_len_inj: "m < 2 ^ 64 \<Longrightarrow> n < 2 ^ 64 \<Longrightarrow> (word_of_nat m :: u64) = word_of_nat n \<longleftrightarrow> m = n"
  by (simp add: word_unat_eq_iff unat_of_nat)

section \<open>Slices and buffer writes\<close>

text \<open>
  \<open>subslice a b xs\<close> is Rust's \<open>&xs[a..b]\<close> for \<open>a \<le> b \<le> xs.len()\<close>, and
  \<open>put off src buf\<close> is \<open>buf[off..off + src.len()].copy_from_slice(src)\<close>.
\<close>

definition subslice :: "nat \<Rightarrow> nat \<Rightarrow> 'a list \<Rightarrow> 'a list" where
  "subslice a b xs = take (b - a) (drop a xs)"

definition put :: "nat \<Rightarrow> 'a list \<Rightarrow> 'a list \<Rightarrow> 'a list" where
  "put off src buf = take off buf @ src @ drop (off + length src) buf"

lemma length_subslice [simp]: "length (subslice a b xs) = min (b - a) (length xs - a)"
  by (simp add: subslice_def min.commute)

lemma length_put [buf_simps]:
  "off + length src \<le> length buf \<Longrightarrow> length (put off src buf) = length buf"
  by (simp add: put_def)

lemma subslice_put_same [buf_simps]:
  "off \<le> length buf \<Longrightarrow> b = off + length src \<Longrightarrow> subslice off b (put off src buf) = src"
  by (simp add: subslice_def put_def)

lemma subslice_put_before [buf_simps]:
  "b \<le> off \<Longrightarrow> off \<le> length buf \<Longrightarrow> subslice a b (put off src buf) = subslice a b buf"
  by (cases "a \<le> b") (simp_all add: subslice_def put_def drop_take)

lemma subslice_put_after [buf_simps]:
  "off + length src \<le> a \<Longrightarrow> off + length src \<le> length buf \<Longrightarrow>
   subslice a b (put off src buf) = subslice a b buf"
  by (simp add: subslice_def put_def min_def)

lemma nth_put_same [buf_simps]: "off < length buf \<Longrightarrow> put off [x] buf ! off = x"
  by (simp add: put_def nth_append)

lemma nth_put_other [buf_simps]:
  "i < off \<or> off + length src \<le> i \<Longrightarrow> off + length src \<le> length buf \<Longrightarrow>
   put off src buf ! i = buf ! i"
  by (auto simp: put_def nth_append)

text \<open>Filling a zeroed buffer from the left leaves the concatenation of the fields.\<close>

lemma put_fill:
  "off = length xs \<Longrightarrow> length src \<le> m \<Longrightarrow>
   put off src (xs @ replicate m z) = (xs @ src) @ replicate (m - length src) z"
  by (simp add: put_def)

lemma put_fill_start:
  "length src \<le> m \<Longrightarrow> put 0 src (replicate m z) = src @ replicate (m - length src) z"
  by (simp add: put_def)

lemma subslice_split: "a \<le> b \<Longrightarrow> b \<le> c \<Longrightarrow> subslice a c xs = subslice a b xs @ subslice b c xs"
proof -
  assume "a \<le> b" "b \<le> c"
  then have "c - a = (b - a) + (c - b)" by simp
  then have "subslice a c xs = take (b - a) (drop a xs) @ take (c - b) (drop (b - a) (drop a xs))"
    unfolding subslice_def by (simp only: take_add)
  with \<open>a \<le> b\<close> show ?thesis by (simp add: subslice_def)
qed

text \<open>Cutting a buffer at increasing offsets loses nothing.\<close>

fun cut_at :: "nat list \<Rightarrow> 'a list \<Rightarrow> 'a list list" where
  "cut_at (a # b # cs) xs = subslice a b xs # cut_at (b # cs) xs"
| "cut_at _ xs = []"

lemma concat_cut_at: "sorted (a # cs) \<Longrightarrow> concat (cut_at (a # cs) xs) = subslice a (last (a # cs)) xs"
proof (induction cs arbitrary: a)
  case Nil
  then show ?case by (simp add: subslice_def)
next
  case (Cons b cs)
  then have "b \<le> last (b # cs)"
    by (metis last_in_set list.distinct(1) set_ConsD sorted_simps(2) order_refl)
  with Cons show ?case
    using subslice_split [of a b "last (b # cs)" xs] by simp
qed

lemma subslice_full: "length xs = n \<Longrightarrow> subslice 0 n xs = xs"
  by (simp add: subslice_def)

lemma subslice_nth: "a < length xs \<Longrightarrow> b = Suc a \<Longrightarrow> subslice a b xs = [xs ! a]"
  by (simp add: subslice_def take_Suc hd_drop_conv_nth)

lemma subslice_append_left: "b \<le> length xs \<Longrightarrow> subslice a b (xs @ ys) = subslice a b xs"
  by (cases "a \<le> b") (simp_all add: subslice_def flip: take_drop)

lemma take_append_left: "n \<le> length xs \<Longrightarrow> take n (xs @ ys) = take n xs"
  by simp

section \<open>IEEE 754 single precision\<close>

text \<open>
  An \<open>f32\<close> is its bit pattern. The comparison key orders the values that are not
  NaN: both zeros have key 0, and a set sign bit negates the magnitude.
\<close>

type_synonym f32 = u32

definition f32_neg :: "f32 \<Rightarrow> bool" where "f32_neg v \<longleftrightarrow> 2 ^ 31 \<le> unat v"
definition f32_mag :: "f32 \<Rightarrow> nat" where "f32_mag v = unat v mod 2 ^ 31"
definition f32_is_nan :: "f32 \<Rightarrow> bool" where "f32_is_nan v \<longleftrightarrow> 0x7F800000 < f32_mag v"
definition f32_is_finite :: "f32 \<Rightarrow> bool" where "f32_is_finite v \<longleftrightarrow> f32_mag v < 0x7F800000"

definition f32_key :: "f32 \<Rightarrow> int" where
  "f32_key v = (if f32_neg v then - int (f32_mag v) else int (f32_mag v))"

definition f32_le :: "f32 \<Rightarrow> f32 \<Rightarrow> bool" where
  "f32_le a b \<longleftrightarrow> \<not> f32_is_nan a \<and> \<not> f32_is_nan b \<and> f32_key a \<le> f32_key b"

definition f32_lt :: "f32 \<Rightarrow> f32 \<Rightarrow> bool" where
  "f32_lt a b \<longleftrightarrow> \<not> f32_is_nan a \<and> \<not> f32_is_nan b \<and> f32_key a < f32_key b"

lemma f32_finite_not_nan: "f32_is_finite v \<Longrightarrow> \<not> f32_is_nan v"
  by (simp add: f32_is_finite_def f32_is_nan_def)

section \<open>Strings\<close>

text \<open>
  A Rust \<open>str\<close> is the list of its UTF-8 bytes, one \<open>char\<close> per byte, so that
  \<open>length\<close> is \<open>str::len\<close>. \<open>utf8_chunks\<close> cuts it at the code-point
  boundaries, for the operations that look at Unicode scalar values.
\<close>

definition code_of :: "char \<Rightarrow> nat" where "code_of c = of_char c"

definition str_bytes :: "string \<Rightarrow> bytes" where "str_bytes s = map of_char s"

definition is_ascii_digit :: "char \<Rightarrow> bool" where
  "is_ascii_digit c \<longleftrightarrow> 48 \<le> code_of c \<and> code_of c \<le> 57"
definition is_ascii_lowercase :: "char \<Rightarrow> bool" where
  "is_ascii_lowercase c \<longleftrightarrow> 97 \<le> code_of c \<and> code_of c \<le> 122"
definition is_ascii_uppercase :: "char \<Rightarrow> bool" where
  "is_ascii_uppercase c \<longleftrightarrow> 65 \<le> code_of c \<and> code_of c \<le> 90"
definition is_ascii_hexdigit :: "char \<Rightarrow> bool" where
  "is_ascii_hexdigit c \<longleftrightarrow> is_ascii_digit c \<or> (97 \<le> code_of c \<and> code_of c \<le> 102)
     \<or> (65 \<le> code_of c \<and> code_of c \<le> 70)"
definition is_ascii_whitespace :: "char \<Rightarrow> bool" where
  "is_ascii_whitespace c \<longleftrightarrow> code_of c \<in> {32, 9, 10, 12, 13}"
definition ascii_lower :: "char \<Rightarrow> char" where
  "ascii_lower c = (if is_ascii_uppercase c then char_of (code_of c + 32) else c)"
definition to_ascii_lowercase :: "string \<Rightarrow> string" where
  "to_ascii_lowercase s = map ascii_lower s"

definition utf8_len :: "char \<Rightarrow> nat" where
  "utf8_len c = (if code_of c < 128 then 1 else if code_of c < 224 then 2
     else if code_of c < 240 then 3 else 4)"

fun utf8_chunks :: "string \<Rightarrow> string list" where
  "utf8_chunks [] = []"
| "utf8_chunks (c # cs) = (c # take (utf8_len c - 1) cs) # utf8_chunks (drop (utf8_len c - 1) cs)"

fun scalar_of :: "string \<Rightarrow> nat" where
  "scalar_of [a, b] = (code_of a - 192) * 64 + (code_of b - 128)"
| "scalar_of [a, b, c] = ((code_of a - 224) * 64 + (code_of b - 128)) * 64 + (code_of c - 128)"
| "scalar_of [a, b, c, d] = (((code_of a - 240) * 64 + (code_of b - 128)) * 64
     + (code_of c - 128)) * 64 + (code_of d - 128)"
| "scalar_of (a # _) = code_of a"
| "scalar_of [] = 0"

definition is_control :: "nat \<Rightarrow> bool" where
  "is_control u \<longleftrightarrow> u < 32 \<or> 127 \<le> u \<and> u \<le> 159"

definition is_whitespace :: "nat \<Rightarrow> bool" where
  "is_whitespace u \<longleftrightarrow> 9 \<le> u \<and> u \<le> 13 \<or> 0x2000 \<le> u \<and> u \<le> 0x200A
     \<or> u \<in> {32, 0x85, 0xA0, 0x1680, 0x2028, 0x2029, 0x202F, 0x205F, 0x3000}"

definition trim :: "string \<Rightarrow> string" where
  "trim s = (let ws = (\<lambda>ch. is_whitespace (scalar_of ch)) in
     concat (rev (dropWhile ws (rev (dropWhile ws (utf8_chunks s))))))"

definition starts_with :: "string \<Rightarrow> string \<Rightarrow> bool" where
  "starts_with s p \<longleftrightarrow> take (length p) s = p"

definition strip_suffix :: "string \<Rightarrow> string \<Rightarrow> string option" where
  "strip_suffix s p = (if length p \<le> length s \<and> drop (length s - length p) s = p
     then Some (take (length s - length p) s) else None)"

definition strip_prefix :: "string \<Rightarrow> string \<Rightarrow> string option" where
  "strip_prefix s p = (if starts_with s p then Some (drop (length p) s) else None)"

lemma strip_prefix_Some: "strip_prefix s p = Some r \<longleftrightarrow> s = p @ r"
  by (auto simp: strip_prefix_def starts_with_def) (metis append_take_drop_id)

text \<open>\<open>Display\<close> of an unsigned integer.\<close>

fun nat_dec :: "nat \<Rightarrow> string" where
  "nat_dec n = (if n < 10 then [char_of (48 + n)] else nat_dec (n div 10) @ [char_of (48 + n mod 10)])"

declare nat_dec.simps [simp del]

text \<open>\<open>Iterator::position\<close>.\<close>

fun position :: "('a \<Rightarrow> bool) \<Rightarrow> 'a list \<Rightarrow> nat option" where
  "position P [] = None"
| "position P (x # xs) = (if P x then Some 0 else map_option Suc (position P xs))"

lemma position_Some:
  "position P xs = Some i \<Longrightarrow> i < length xs \<and> P (xs ! i) \<and> (\<forall>j < i. \<not> P (xs ! j))"
proof (induction xs arbitrary: i)
  case (Cons x xs)
  then show ?case by (cases i) (auto split: if_splits simp: less_Suc_eq_0_disj)
qed simp

lemma position_None: "position P xs = None \<longleftrightarrow> (\<forall>x \<in> set xs. \<not> P x)"
  by (induction xs) auto

lemma filter_unique:
  assumes "distinct (map f xs)" "x \<in> set xs" "f x = k"
  shows "filter (\<lambda>y. f y = k) xs = [x]"
proof -
  obtain us vs where xs: "xs = us @ x # vs" using assms(2) by (auto simp: in_set_conv_decomp)
  have "f y \<noteq> k" if "y \<in> set us \<union> set vs" for y
    using that assms(1,3) by (auto simp: xs image_iff)
  then show ?thesis using assms(3) by (simp add: xs filter_empty_conv)
qed

text \<open>\<open>Vec::remove\<close> at a valid index.\<close>

definition remove_at :: "nat \<Rightarrow> 'a list \<Rightarrow> 'a list" where
  "remove_at i xs = take i xs @ drop (Suc i) xs"

lemma byte_of_char_inj: "(of_char c :: u8) = of_char d \<longleftrightarrow> c = d"
proof
  assume "(of_char c :: u8) = of_char d"
  then have "(word_of_nat (of_char c) :: u8) = word_of_nat (of_char d)"
    by (simp add: of_nat_of_char)
  then have "(of_char c :: nat) = of_char d" by (simp add: word_unat_eq_iff unat_of_nat)
  then show "c = d" by simp
qed simp

lemma str_bytes_inj [simp]: "str_bytes s = str_bytes t \<longleftrightarrow> s = t"
  unfolding str_bytes_def by (rule inj_map_eq_map) (simp add: inj_def byte_of_char_inj)

lemma length_str_bytes [simp]: "length (str_bytes s) = length s"
  by (simp add: str_bytes_def)

lemma utf8_chunks_ascii: "list_all (\<lambda>c. code_of c < 128) s \<Longrightarrow> utf8_chunks s = map (\<lambda>c. [c]) s"
  by (induction s) (simp_all add: utf8_len_def)

lemma trim_ascii:
  assumes "list_all (\<lambda>c. code_of c < 128 \<and> \<not> is_whitespace (code_of c)) s"
  shows "trim s = s"
proof -
  have "utf8_chunks s = map (\<lambda>c. [c]) s"
    using assms by (intro utf8_chunks_ascii) (simp add: list_all_iff)
  moreover have dw: "dropWhile (\<lambda>ch. is_whitespace (scalar_of ch)) (map (\<lambda>c. [c]) t) = map (\<lambda>c. [c]) t"
    if "set t \<subseteq> set s" for t
    using assms that by (cases t) (auto simp: list_all_iff)
  moreover have "concat (map (\<lambda>c. [c]) s) = s" by simp
  ultimately show ?thesis
    using dw [of s] dw [of "rev s"] by (simp add: trim_def Let_def rev_map)
qed

lemma printable_ascii: "list_all (\<lambda>c. 32 < code_of c \<and> code_of c < 127) s \<Longrightarrow> trim s = s"
  "list_all (\<lambda>c. 32 < code_of c \<and> code_of c < 127) s \<Longrightarrow> \<not> list_ex (\<lambda>ch. is_control (scalar_of ch)) (utf8_chunks s)"
proof -
  assume a: "list_all (\<lambda>c. 32 < code_of c \<and> code_of c < 127) s"
  then have "list_all (\<lambda>c. code_of c < 128 \<and> \<not> is_whitespace (code_of c)) s"
    by (auto simp: list_all_iff is_whitespace_def)
  then show "trim s = s" by (rule trim_ascii)
  have "list_all (\<lambda>c. code_of c < 128) s" using a by (auto simp: list_all_iff)
  from utf8_chunks_ascii [OF this] a show "\<not> list_ex (\<lambda>ch. is_control (scalar_of ch)) (utf8_chunks s)"
    by (auto simp: list_ex_iff list_all_iff is_control_def)
qed

lemma starts_with_append [simp]: "starts_with (p @ s) p"
  by (simp add: starts_with_def)

lemma starts_with_iff: "starts_with s p \<longleftrightarrow> (\<exists>r. s = p @ r)"
  by (metis append_eq_conv_conj starts_with_def append_take_drop_id)

lemma strip_suffix_append [simp]: "strip_suffix (s @ p) p = Some s"
  by (simp add: strip_suffix_def)

lemma strip_suffix_Some: "strip_suffix s p = Some r \<longleftrightarrow> s = r @ p"
  by (auto simp: strip_suffix_def split: if_splits) (metis append_take_drop_id)

section \<open>Fixed-length codecs\<close>

text \<open>
  The contract of a fixed-length wire format: encoding a valid value and decoding it gives
  the value back, and every accepted buffer of the right length is an encoding.
\<close>

locale byte_codec =
  fixes enc :: "'a \<Rightarrow> bytes" and dec :: "bytes \<Rightarrow> 'e + 'a" and valid :: "'a \<Rightarrow> bool" and n :: nat
  assumes dec_enc: "valid x \<Longrightarrow> dec (enc x) = Ok x"
    and enc_length: "valid x \<Longrightarrow> length (enc x) = n"
    and dec_valid: "length b = n \<Longrightarrow> dec b = Ok x \<Longrightarrow> valid x"
    and enc_dec: "length b = n \<Longrightarrow> dec b = Ok x \<Longrightarrow> enc x = b"
begin

lemma enc_inj: "valid x \<Longrightarrow> valid y \<Longrightarrow> enc x = enc y \<Longrightarrow> x = y"
  using dec_enc by (metis Inr_inject)

lemma dec_inj: "length b = n \<Longrightarrow> length c = n \<Longrightarrow> dec b = Ok x \<Longrightarrow> dec c = Ok x \<Longrightarrow> b = c"
  using enc_dec by metis

lemma accepts_iff: "length b = n \<Longrightarrow> is_ok (dec b) \<longleftrightarrow> (\<exists>x. valid x \<and> enc x = b)"
  using dec_enc dec_valid enc_dec unfolding is_ok_iff by metis

end

section \<open>Ordered maps\<close>

text \<open>
  The interface of \<open>BTreeMap\<close> that the components use: lookup, insertion, and
  iteration in key order (\<open>entries\<close>).
\<close>

locale ordered_map =
  fixes get :: "'m \<Rightarrow> 'k::linorder \<Rightarrow> 'v option"
    and ins :: "'k \<Rightarrow> 'v \<Rightarrow> 'm \<Rightarrow> 'm"
    and entries :: "'m \<Rightarrow> ('k \<times> 'v) list"
    and invar :: "'m \<Rightarrow> bool"
  assumes get_entries: "invar m \<Longrightarrow> get m k = Some v \<longleftrightarrow> (k, v) \<in> set (entries m)"
    and get_ins: "invar m \<Longrightarrow> get (ins k v m) k' = (if k' = k then Some v else get m k')"
    and invar_ins: "invar m \<Longrightarrow> invar (ins k v m)"
    and entries_sorted: "invar m \<Longrightarrow> sorted_wrt (<) (map fst (entries m))"
begin

lemma distinct_entries: "invar m \<Longrightarrow> distinct (map fst (entries m))"
  using entries_sorted strict_sorted_iff by blast

lemma distinct_pairs: "invar m \<Longrightarrow> distinct (entries m)"
  using distinct_entries distinct_map by blast

lemma entries_ins:
  assumes "invar m"
  shows "set (entries (ins k v m)) = insert (k, v) {e \<in> set (entries m). fst e \<noteq> k}"
proof (rule set_eqI)
  fix e :: "'k \<times> 'v"
  obtain k' v' where e: "e = (k', v')" by (cases e)
  have "e \<in> set (entries (ins k v m)) \<longleftrightarrow> get (ins k v m) k' = Some v'"
    using assms by (simp add: e get_entries invar_ins)
  also have "\<dots> \<longleftrightarrow> (if k' = k then v' = v else (k', v') \<in> set (entries m))"
    using assms by (auto simp: get_ins get_entries)
  finally show "e \<in> set (entries (ins k v m)) \<longleftrightarrow>
      e \<in> insert (k, v) {e \<in> set (entries m). fst e \<noteq> k}"
    by (auto simp: e)
qed

text \<open>A sum over the entries grows by the inserted value when the key is new.\<close>

lemma sum_entries_fresh:
  fixes f :: "'v \<Rightarrow> nat"
  assumes "invar m" and "get m k = None"
  shows "(\<Sum>e \<leftarrow> entries (ins k v m). f (snd e)) = f v + (\<Sum>e \<leftarrow> entries m. f (snd e))"
proof -
  have dist: "distinct (entries (ins k v m))" "distinct (entries m)"
    using assms(1) by (simp_all add: distinct_pairs invar_ins)
  have fresh: "\<forall>e \<in> set (entries m). fst e \<noteq> k"
    using assms by (auto simp flip: get_entries)
  have "set (entries (ins k v m)) = insert (k, v) (set (entries m))"
    using entries_ins [OF assms(1)] fresh by auto
  moreover have "(k, v) \<notin> set (entries m)"
    using fresh by force
  ultimately show ?thesis
    using dist by (simp add: sum_list_distinct_conv_sum_set)
qed

text \<open>It changes by the difference when an entry is replaced.\<close>

lemma sum_entries_replace:
  fixes f :: "'v \<Rightarrow> nat"
  assumes "invar m" and "get m k = Some w" and "f v = f w"
  shows "(\<Sum>e \<leftarrow> entries (ins k v m). f (snd e)) = (\<Sum>e \<leftarrow> entries m. f (snd e))"
proof -
  let ?R = "{e \<in> set (entries m). fst e \<noteq> k}"
  have dist: "distinct (entries (ins k v m))" "distinct (entries m)"
    using assms(1) by (simp_all add: distinct_pairs invar_ins)
  have "e = (k, w)" if "e \<in> set (entries m)" "fst e = k" for e
    using that assms(1,2) get_entries [of m k "snd e"] by (cases e) auto
  moreover have "(k, w) \<in> set (entries m)"
    using assms(1,2) get_entries by blast
  ultimately have old: "set (entries m) = insert (k, w) ?R"
    by blast
  have "(\<Sum>e \<leftarrow> entries (ins k v m). f (snd e)) = f v + (\<Sum>e \<in> ?R. f (snd e))"
    using dist(1) entries_ins [OF assms(1)] by (simp add: sum_list_distinct_conv_sum_set)
  moreover have "(\<Sum>e \<leftarrow> entries m. f (snd e)) = f w + (\<Sum>e \<in> ?R. f (snd e))"
  proof -
    have "(\<Sum>e \<in> set (entries m). f (snd e)) = (\<Sum>e \<in> insert (k, w) ?R. f (snd e))"
      using old by simp
    also have "\<dots> = f w + (\<Sum>e \<in> ?R. f (snd e))" by simp
    finally show ?thesis using dist(2) by (simp add: sum_list_distinct_conv_sum_set)
  qed
  ultimately show ?thesis using assms(3) by simp
qed

end

text \<open>\<open>BTreeMap<K, V>\<close> as the list of its entries in increasing key order.\<close>

type_synonym ('k, 'v) btree = "('k \<times> 'v) list"

fun btree_get :: "('k, 'v) btree \<Rightarrow> 'k \<Rightarrow> 'v option" where
  "btree_get [] k = None"
| "btree_get ((a, b) # ps) k = (if k = a then Some b else btree_get ps k)"

fun btree_insert :: "'k::linorder \<Rightarrow> 'v \<Rightarrow> ('k, 'v) btree \<Rightarrow> ('k, 'v) btree" where
  "btree_insert k v [] = [(k, v)]"
| "btree_insert k v ((a, b) # ps) =
     (if k < a then (k, v) # (a, b) # ps
      else if k = a then (k, v) # ps
      else (a, b) # btree_insert k v ps)"

definition btree_ok :: "('k::linorder, 'v) btree \<Rightarrow> bool" where
  "btree_ok m \<longleftrightarrow> sorted_wrt (<) (map fst m)"

lemma btree_ok_simps [simp]:
  "btree_ok []" "btree_ok (p # m) \<longleftrightarrow> (\<forall>q \<in> set m. fst p < fst q) \<and> btree_ok m"
  by (auto simp: btree_ok_def)

lemma set_btree_insert:
  "fst ` set (btree_insert k v m) = insert k (fst ` set m)"
  by (induction m rule: btree_insert.induct) auto

lemma btree_ok_insert: "btree_ok m \<Longrightarrow> btree_ok (btree_insert k v m)"
proof (induction k v m rule: btree_insert.induct)
  case (2 k v a b ps)
  show ?case
  proof (cases "k < a \<or> k = a")
    case True
    with "2.prems" show ?thesis by (auto dest: less_trans)
  next
    case False
    have "\<forall>q \<in> set (btree_insert k v ps). a < fst q"
    proof
      fix q assume "q \<in> set (btree_insert k v ps)"
      then have "fst q \<in> insert k (fst ` set ps)"
        using set_btree_insert [of k v ps] by (metis image_eqI)
      with False "2.prems" show "a < fst q" by auto
    qed
    with False "2" show ?thesis by auto
  qed
qed simp

lemma btree_get_entries:
  "btree_ok m \<Longrightarrow> btree_get m k = Some v \<longleftrightarrow> (k, v) \<in> set m"
  by (induction m k rule: btree_get.induct) force+

lemma btree_get_mem: "btree_get m k = Some v \<Longrightarrow> (k, v) \<in> set m"
  by (induction m k rule: btree_get.induct) (auto split: if_splits)

lemma btree_get_insert: "btree_get (btree_insert k v m) k' = (if k' = k then Some v else btree_get m k')"
  by (induction k v m rule: btree_insert.induct) auto

text \<open>\<open>BTreeMap::remove\<close> and \<open>BTreeMap::retain\<close>.\<close>

definition btree_remove :: "'k \<Rightarrow> ('k, 'v) btree \<Rightarrow> ('k, 'v) btree" where
  "btree_remove k m = filter (\<lambda>e. fst e \<noteq> k) m"

definition btree_retain :: "('v \<Rightarrow> bool) \<Rightarrow> ('k, 'v) btree \<Rightarrow> ('k, 'v) btree" where
  "btree_retain P m = filter (\<lambda>e. P (snd e)) m"

lemma btree_ok_filter: "btree_ok m \<Longrightarrow> btree_ok (filter P m)"
  by (auto simp: btree_ok_def sorted_wrt_map intro: sorted_wrt_filter)

lemma btree_ok_remove [simp]: "btree_ok m \<Longrightarrow> btree_ok (btree_remove k m)"
  by (simp add: btree_remove_def btree_ok_filter)

lemma btree_ok_retain [simp]: "btree_ok m \<Longrightarrow> btree_ok (btree_retain P m)"
  by (simp add: btree_retain_def btree_ok_filter)

lemma btree_get_remove [simp]:
  "btree_get (btree_remove k m) k' = (if k' = k then None else btree_get m k')"
  unfolding btree_remove_def by (induction m) auto

lemma btree_get_retain:
  assumes "btree_ok m"
  shows "btree_get (btree_retain P m) k = Some v \<longleftrightarrow> btree_get m k = Some v \<and> P v"
  using assms by (auto simp: btree_get_entries) (auto simp: btree_retain_def)

interpretation bt: ordered_map btree_get btree_insert "\<lambda>m. m" btree_ok
  by unfold_locales
    (auto simp: btree_get_entries btree_get_insert btree_ok_insert simp flip: btree_ok_def)

section \<open>Rounding of double-precision products\<close>

fun bit_length :: "nat \<Rightarrow> nat" where
  "bit_length n = (if n = 0 then 0 else Suc (bit_length (n div 2)))"

declare bit_length.simps [simp del]

definition round_half_even :: "nat \<Rightarrow> nat \<Rightarrow> nat" where
  "round_half_even n k =
     (let q = n div 2 ^ k; rest = n mod 2 ^ k
      in if 2 * rest > 2 ^ k \<or> 2 * rest = 2 ^ k \<and> odd q then Suc q else q)"

lemma bit_length_eq: "2 ^ k \<le> n \<Longrightarrow> n < 2 ^ Suc k \<Longrightarrow> bit_length n = Suc k"
proof (induction k arbitrary: n)
  case 0
  then have "n = 1" by simp
  then show ?case by (simp add: bit_length.simps [of "Suc 0"] bit_length.simps [of 0])
next
  case (Suc k)
  then have "2 ^ k \<le> n div 2" "n div 2 < 2 ^ Suc k" by auto
  from Suc.IH [OF this] show ?case using Suc.prems by (subst bit_length.simps) auto
qed

section \<open>Invariants of transition systems\<close>

inductive reachable :: "('s \<Rightarrow> bool) \<Rightarrow> ('s \<Rightarrow> 's \<Rightarrow> bool) \<Rightarrow> 's \<Rightarrow> bool" for init step where
  reachable_init: "init s \<Longrightarrow> reachable init step s"
| reachable_step: "reachable init step s \<Longrightarrow> step s t \<Longrightarrow> reachable init step t"

locale invariant_system =
  fixes init :: "'s \<Rightarrow> bool" and step :: "'s \<Rightarrow> 's \<Rightarrow> bool" and inv :: "'s \<Rightarrow> bool"
  assumes inv_init: "init s \<Longrightarrow> inv s"
    and inv_step: "inv s \<Longrightarrow> step s t \<Longrightarrow> inv t"
begin

lemma reachable_inv: "reachable init step s \<Longrightarrow> inv s"
  by (induction rule: reachable.induct) (auto intro: inv_init inv_step)

lemma steps_inv: "step\<^sup>*\<^sup>* s t \<Longrightarrow> inv s \<Longrightarrow> inv t"
  by (induction rule: rtranclp_induct) (auto intro: inv_step)

end

end
