(* ===== verification/Wal_Types.thy ===== *)
theory Wal_Types
  imports Neoth_Prelude
begin

text \<open>
  The WAL newtypes and error trees (\<open>wal/types.rs\<close>, \<open>wal/error.rs\<close>).
  Fixed-size arrays are byte lists; the predicate \<open>id16\<close> states their length.
  HMAC-SHA256 and the \<open>hex\<close> crate are parameters of the operations that use them.
\<close>

section \<open>Identifiers\<close>

type_synonym event_id = u64
type_synonym wal_scope = u32
type_synonym wal_category = u32
type_synonym session_id = bytes
type_synonym node_id = bytes

definition id16 :: "bytes \<Rightarrow> bool" where "id16 b \<longleftrightarrow> length b = 16"

definition EventId_NONE :: event_id where "EventId_NONE = 0"
definition WalScope_UNSET :: wal_scope where "WalScope_UNSET = 0"
definition WalCategory_UNSET :: wal_category where "WalCategory_UNSET = 0"
definition SessionId_ZERO :: session_id where "SessionId_ZERO = replicate 16 0"
definition NodeId_ZERO :: node_id where "NodeId_ZERO = replicate 16 0"

definition SessionId_is_zero :: "session_id \<Rightarrow> bool" where
  "SessionId_is_zero s \<longleftrightarrow> s = SessionId_ZERO"

section \<open>Errors\<close>

datatype hlc_error =
    PostEpochLogicalWithoutPhysical u32
  | LogicalOverflow "node_id option"

datatype header_parse_error =
    InvalidMagic bytes
  | UnknownWalFormat u8
  | UnknownSchema u8
  | InvalidHeaderLen u16
  | InconsistentTotalLen u32 u32 u16 nat
  | NonzeroReserved bytes
  | InvalidRegionTag u8
  | InvalidOriginator u8
  | InvalidImportance f32
  | InvalidFlagBits u8
  | BufferTooShort nat nat
  | CrcMismatch u32 u32
  | HlcErr hlc_error

text \<open>The kinds of \<open>std::io::Error\<close> that the modelled code tells apart.\<close>

datatype io_error_kind = NotFound | AlreadyExists | OtherIo

datatype wal_error =
    WalHeader header_parse_error
  | WalIo io_error_kind
  | WalHlc hlc_error
  | UnknownFormat u8
  | PayloadTooLarge nat nat
  | WriterClosed
  | WriterBackpressured nat
  | QuotaExceeded u64 u64
  | SegmentHeaderCorrupt u64 u32 u32
  | Compress string
  | Decompress string
  | CompactionAuthFailed string
  | CompactionStateUnavailable string
  | PolicyNotImplemented string

section \<open>Session identities and reader partitions\<close>

text \<open>
  \<open>hexe\<close> and \<open>hexd\<close> are \<open>hex::encode\<close> and \<open>hex::decode_to_slice\<close>
  of the external \<open>hex\<close> crate; \<open>hexd\<close> returns \<open>None\<close> for a decode error.
\<close>

datatype session_id_text_error = WrongLength | InvalidLowerHex

definition opaque_hex :: "(bytes \<Rightarrow> string) \<Rightarrow> session_id \<Rightarrow> string" where
  "opaque_hex hexe s = hexe s"

definition is_lower_hex_byte :: "char \<Rightarrow> bool" where
  "is_lower_hex_byte c \<longleftrightarrow> is_ascii_digit c \<or> is_ascii_lowercase c \<and> is_ascii_hexdigit c"

definition from_opaque_hex ::
    "(string \<Rightarrow> bytes option) \<Rightarrow> string \<Rightarrow> session_id_text_error + session_id" where
  "from_opaque_hex hexd value =
     (if length value \<noteq> 32 then Err WrongLength
      else if \<not> list_all is_lower_hex_byte value then Err InvalidLowerHex
      else case hexd value of None \<Rightarrow> Err InvalidLowerHex | Some bs \<Rightarrow> Ok bs)"

datatype session_partition = Any | Exact session_id | Unattributed

datatype session_partition_error = InvalidId session_id_text_error | ZeroMustBeUnattributed

definition partition_exact :: "session_id \<Rightarrow> session_partition_error + session_partition" where
  "partition_exact s =
     (if SessionId_is_zero s then Err ZeroMustBeUnattributed else Ok (Exact s))"

definition partition_from_filter ::
    "(string \<Rightarrow> bytes option) \<Rightarrow> string \<Rightarrow> session_partition_error + session_partition" where
  "partition_from_filter hexd value =
     (if value = ''unattributed'' then Ok Unattributed
      else case from_opaque_hex hexd value of
             Inl e \<Rightarrow> Err (InvalidId e)
           | Inr s \<Rightarrow> partition_exact s)"

fun partition_exact_id :: "session_partition \<Rightarrow> session_id option" where
  "partition_exact_id (Exact s) = Some s"
| "partition_exact_id Any = None"
| "partition_exact_id Unattributed = None"

fun partition_matches :: "session_partition \<Rightarrow> session_id \<Rightarrow> bool" where
  "partition_matches Any s = True"
| "partition_matches (Exact e) s = (e = s)"
| "partition_matches Unattributed s = SessionId_is_zero s"

text \<open>
  \<open>WalSessionContext::from_admitted_identity\<close>: \<open>key\<close> is what
  \<open>load_existing_home_key\<close> returned and \<open>hmac\<close> is HMAC-SHA256.
\<close>

datatype session_context_error =
    EmptyIdentity | IdentityTooLong | KeyUnavailable | ZeroDerivedIdentity

definition MAX_ADMITTED_IDENTITY_BYTES :: nat where "MAX_ADMITTED_IDENTITY_BYTES = 4096"

definition WAL_SESSION_ID_DOMAIN :: bytes where
  "WAL_SESSION_ID_DOMAIN = str_bytes ''neoth/wal/session-id/v1'' @ [0]"

definition from_admitted_identity ::
    "(bytes \<Rightarrow> bytes \<Rightarrow> bytes) \<Rightarrow> bytes option \<Rightarrow> bytes \<Rightarrow> session_context_error + session_id" where
  "from_admitted_identity hmac key ident =
     (if ident = [] then Err EmptyIdentity
      else if length ident > MAX_ADMITTED_IDENTITY_BYTES then Err IdentityTooLong
      else case key of
             None \<Rightarrow> Err KeyUnavailable
           | Some k \<Rightarrow>
               (let digest = hmac k (WAL_SESSION_ID_DOMAIN
                      @ u64_to_be (word_of_nat (length ident)) @ ident);
                    sid = take 16 digest
                in if SessionId_is_zero sid then Err ZeroDerivedIdentity else Ok sid))"

section \<open>Importance\<close>

text \<open>The bit patterns of \<open>0.0\<close>, \<open>1.0\<close>, \<open>0.75\<close> and \<open>0.5\<close>.\<close>

definition Importance_ZERO :: f32 where "Importance_ZERO = 0"
definition Importance_MAX :: f32 where "Importance_MAX = 0x3F800000"
definition Importance_PROMOTION_THRESHOLD :: f32 where
  "Importance_PROMOTION_THRESHOLD = 0x3F400000"

definition Importance_new :: "f32 \<Rightarrow> header_parse_error + f32" where
  "Importance_new v =
     (if f32_is_nan v \<or> \<not> (f32_le Importance_ZERO v \<and> f32_le v Importance_MAX)
      then Err (InvalidImportance v) else Ok v)"

definition importance_valid :: "f32 \<Rightarrow> bool" where
  "importance_valid v \<longleftrightarrow> Importance_new v = Ok v"

lemma Importance_new_Ok: "Importance_new v = Ok w \<longleftrightarrow> w = v \<and> importance_valid v"
  by (auto simp: Importance_new_def importance_valid_def)

text \<open>The accepted patterns are the non-negative ones up to \<open>1.0\<close>, and negative zero.\<close>

lemma importance_valid_iff: "importance_valid v \<longleftrightarrow> unat v \<le> 0x3F800000 \<or> unat v = 0x80000000"
proof -
  have "unat v < 4294967296" by (rule unat_bounds)
  then have m: "f32_mag v = (if f32_neg v then unat v - 2147483648 else unat v)"
    by (simp add: f32_mag_def f32_neg_def le_mod_geq)
  have "importance_valid v \<longleftrightarrow> f32_mag v \<le> 2139095040 \<and> 0 \<le> f32_key v \<and> f32_key v \<le> 0x3F800000"
    by (auto simp: importance_valid_def Importance_new_def f32_is_nan_def f32_le_def f32_key_def
        f32_neg_def f32_mag_def Importance_ZERO_def Importance_MAX_def)
  also have "\<dots> \<longleftrightarrow> (if f32_neg v then f32_mag v = 0 else f32_mag v \<le> 0x3F800000)"
    by (simp add: f32_key_def) linarith
  finally show ?thesis
    using m by (auto simp: f32_neg_def)
qed

section \<open>Flags\<close>

type_synonym event_flags = u8

definition FLAG_TOMBSTONE :: event_flags where "FLAG_TOMBSTONE = 0x01"
definition FLAG_SUPERSEDED :: event_flags where "FLAG_SUPERSEDED = 0x02"
definition FLAG_SYNTHETIC :: event_flags where "FLAG_SYNTHETIC = 0x04"
definition FLAG_REDACTED :: event_flags where "FLAG_REDACTED = 0x08"
definition FLAG_STREAM_PARTIAL :: event_flags where "FLAG_STREAM_PARTIAL = 0x10"

text \<open>\<open>EventFlags::from_bits\<close>: only the five declared bits are known.\<close>

definition flags_from_bits :: "u8 \<Rightarrow> event_flags option" where
  "flags_from_bits b =
     (if b AND NOT (FLAG_TOMBSTONE OR FLAG_SUPERSEDED OR FLAG_SYNTHETIC OR FLAG_REDACTED
        OR FLAG_STREAM_PARTIAL) = 0 then Some b else None)"

lemma flags_from_bits_iff: "flags_from_bits b = Some f \<longleftrightarrow> f = b \<and> b AND 0xE0 = 0"
proof -
  have "NOT (FLAG_TOMBSTONE OR FLAG_SUPERSEDED OR FLAG_SYNTHETIC OR FLAG_REDACTED
      OR FLAG_STREAM_PARTIAL) = (0xE0 :: u8)"
    by (simp add: FLAG_TOMBSTONE_def FLAG_SUPERSEDED_def FLAG_SYNTHETIC_def
        FLAG_REDACTED_def FLAG_STREAM_PARTIAL_def)
  then show ?thesis by (auto simp: flags_from_bits_def)
qed

end
