(* ===== verification/Wal_Hlc.thy ===== *)
theory Wal_Hlc
  imports Wal_Types
begin

text \<open>
  The hybrid logical clock of \<open>wal/hlc.rs\<close> and the process-global clock cell that
  \<open>wal/builder.rs\<close> and the cluster receive path tick. The two \<open>tick\<close> functions
  of the source update their argument in place and may fail half way, so the model returns
  the clock that is left in the cell together with the \<open>Result\<close>.
\<close>

section \<open>The clock value\<close>

datatype hlc = Hlc (physical_ns: u64) (logical: u32)

definition Hlc_EPOCH :: hlc where "Hlc_EPOCH = Hlc 0 0"

definition Hlc_new :: "u64 \<Rightarrow> u32 \<Rightarrow> hlc_error + hlc" where
  "Hlc_new p l = (if p = 0 \<and> l \<noteq> 0 then Err (PostEpochLogicalWithoutPhysical l) else Ok (Hlc p l))"

text \<open>\<open>impl Ord for Hlc\<close>: physical time first, then the logical counter.\<close>

datatype ordering = Less | Equal | Greater

definition cmp :: "'a::linorder \<Rightarrow> 'a \<Rightarrow> ordering" where
  "cmp a b = (if a < b then Less else if a = b then Equal else Greater)"

fun then_with :: "ordering \<Rightarrow> ordering \<Rightarrow> ordering" where
  "then_with Equal o2 = o2"
| "then_with o1 o2 = o1"

fun reverse :: "ordering \<Rightarrow> ordering" where
  "reverse Less = Greater"
| "reverse Equal = Equal"
| "reverse Greater = Less"

definition hlc_cmp :: "hlc \<Rightarrow> hlc \<Rightarrow> ordering" where
  "hlc_cmp a b = then_with (cmp (physical_ns a) (physical_ns b)) (cmp (logical a) (logical b))"

lemma cmp_simps [simp]:
  "cmp a b = Less \<longleftrightarrow> a < b" "cmp a b = Equal \<longleftrightarrow> a = b" "cmp a b = Greater \<longleftrightarrow> b < a"
  by (auto simp: cmp_def)

lemma then_with_eq [simp]:
  "then_with p q = Equal \<longleftrightarrow> p = Equal \<and> q = Equal"
  "then_with p q = Less \<longleftrightarrow> p = Less \<or> p = Equal \<and> q = Less"
  "then_with p q = Greater \<longleftrightarrow> p = Greater \<or> p = Equal \<and> q = Greater"
  by (cases p; simp)+

lemma reverse_cmp: "reverse (cmp a b) = cmp b a"
  by (auto simp: cmp_def)

lemma reverse_then_with: "reverse (then_with p q) = then_with (reverse p) (reverse q)"
  by (cases p) auto

instantiation hlc :: linorder
begin

definition less_hlc :: "hlc \<Rightarrow> hlc \<Rightarrow> bool" where
  "a < b \<longleftrightarrow> hlc_cmp a b = Less"

definition less_eq_hlc :: "hlc \<Rightarrow> hlc \<Rightarrow> bool" where
  "a \<le> b \<longleftrightarrow> hlc_cmp a b \<noteq> Greater"

instance
proof
  fix x y z :: hlc
  show "(x < y) = (x \<le> y \<and> \<not> y \<le> x)"
    by (auto simp: less_hlc_def less_eq_hlc_def hlc_cmp_def)
  show "x \<le> x" by (simp add: less_eq_hlc_def hlc_cmp_def)
  show "x \<le> y \<Longrightarrow> y \<le> z \<Longrightarrow> x \<le> z"
    by (auto simp: less_eq_hlc_def hlc_cmp_def)
  show "x \<le> y \<Longrightarrow> y \<le> x \<Longrightarrow> x = y"
    by (auto simp: less_eq_hlc_def hlc_cmp_def hlc.expand)
  show "x \<le> y \<or> y \<le> x"
    by (auto simp: less_eq_hlc_def hlc_cmp_def)
qed

end

lemma hlc_less_iff:
  "a < b \<longleftrightarrow> physical_ns a < physical_ns b
     \<or> physical_ns a = physical_ns b \<and> logical a < logical b" for a b :: hlc
  by (auto simp: less_hlc_def hlc_cmp_def)

lemma hlc_cmp_eq_cmp: "hlc_cmp a b = cmp a b"
proof (cases "hlc_cmp a b")
  case Equal
  then have "a = b" by (simp add: hlc_cmp_def hlc.expand)
  with Equal show ?thesis by (auto simp: cmp_def)
next
  case Less
  then have "a < b" by (simp add: less_hlc_def)
  with Less show ?thesis by (auto simp: cmp_def)
next
  case Greater
  then have "b < a" by (auto simp: hlc_cmp_def hlc_less_iff)
  with Greater show ?thesis by (auto simp: cmp_def)
qed

definition hlc_valid :: "hlc \<Rightarrow> bool" where
  "hlc_valid h \<longleftrightarrow> (physical_ns h = 0 \<longrightarrow> logical h = 0)"

lemma Hlc_new_Ok: "Hlc_new p l = Ok h \<longleftrightarrow> h = Hlc p l \<and> hlc_valid h"
  by (auto simp: Hlc_new_def hlc_valid_def)

section \<open>Ticks\<close>

text \<open>\<open>current\<close> after the call, and the \<open>Result\<close>.\<close>

definition hlc_tick_local :: "hlc \<Rightarrow> u64 \<Rightarrow> hlc \<times> (hlc_error + unit)" where
  "hlc_tick_local current now_ns =
     (if now_ns > physical_ns current then (Hlc now_ns 0, Ok ())
      else case checked_add (logical current) 1 of
             Some l \<Rightarrow> (Hlc (physical_ns current) l, Ok ())
           | None \<Rightarrow> (current, Err (LogicalOverflow None)))"

definition hlc_tick_receive ::
    "hlc \<Rightarrow> u64 \<Rightarrow> hlc \<Rightarrow> node_id \<Rightarrow> hlc \<times> (hlc_error + unit)" where
  "hlc_tick_receive current now_ns peer peer_node =
     (let max_phys = max (max (physical_ns current) (physical_ns peer)) now_ns;
          overflow = Err (LogicalOverflow (Some peer_node))
      in if max_phys = physical_ns current \<and> max_phys = physical_ns peer then
           (case checked_add (max (logical current) (logical peer)) 1 of
              Some l \<Rightarrow> (Hlc (physical_ns current) l, Ok ())
            | None \<Rightarrow> (current, overflow))
         else if max_phys = physical_ns current then
           (case checked_add (logical current) 1 of
              Some l \<Rightarrow> (Hlc (physical_ns current) l, Ok ())
            | None \<Rightarrow> (current, overflow))
         else if max_phys = physical_ns peer then
           (case checked_add (logical peer) 1 of
              Some l \<Rightarrow> (Hlc (physical_ns peer) l, Ok ())
            | None \<Rightarrow> (Hlc (physical_ns peer) (logical current), overflow))
         else (Hlc max_phys 0, Ok ()))"

text \<open>
  \<open>merge_global_hlc_after_authenticated_receive\<close>: the candidate is stored only when
  the whole transition succeeded.
\<close>

definition merge_global_hlc :: "hlc \<Rightarrow> u64 \<Rightarrow> hlc \<Rightarrow> node_id \<Rightarrow> hlc \<times> (hlc_error + unit)" where
  "merge_global_hlc global now_ns peer peer_node =
     (case hlc_tick_receive global now_ns peer peer_node of
        (candidate, Inr u) \<Rightarrow> (candidate, Ok u)
      | (candidate, Inl e) \<Rightarrow> (global, Err e))"

text \<open>\<open>tick_global_hlc\<close>: a logical overflow rebases the clock one nanosecond ahead.\<close>

definition tick_global_hlc :: "hlc \<Rightarrow> u64 \<Rightarrow> hlc" where
  "tick_global_hlc guard now_ns =
     (case hlc_tick_local guard now_ns of
        (g, Inr _) \<Rightarrow> g
      | (g, Inl _) \<Rightarrow>
          (let recovery = max (saturating_add now_ns 1) (saturating_add (physical_ns g) 1)
           in case Hlc_new recovery 0 of Inr h \<Rightarrow> h | Inl _ \<Rightarrow> Hlc_EPOCH))"

section \<open>Monotonicity\<close>

lemma checked_add_1_less: "checked_add l 1 = Some m \<Longrightarrow> l < m" for l m :: "'a::len word"
  by (simp add: checked_add_Some word_less_nat_alt)

lemma hlc_tick_local_less:
  "hlc_tick_local c now = (c', Ok ()) \<Longrightarrow> c < c' \<and> now \<le> physical_ns c'"
  by (auto simp: hlc_tick_local_def hlc_less_iff checked_add_1_less not_less
      split: if_splits option.splits)

lemma hlc_tick_local_err: "hlc_tick_local c now = (c', Err e) \<Longrightarrow> c' = c"
  by (auto simp: hlc_tick_local_def split: if_splits option.splits)

lemma hlc_tick_receive_less:
  assumes "hlc_tick_receive c now p n = (c', Ok ())"
  shows "c < c'" "p < c'" "now \<le> physical_ns c'"
proof -
  have "logical c < l" "logical p < l" if "checked_add (max (logical c) (logical p)) 1 = Some l" for l
    using checked_add_1_less [OF that] by simp_all
  with assms show "c < c'" "p < c'" "now \<le> physical_ns c'"
    by (auto simp: hlc_tick_receive_def Let_def hlc_less_iff max_def
        dest: checked_add_1_less split: if_splits option.splits)
qed

lemma merge_global_hlc_err: "merge_global_hlc g now p n = (g', Err e) \<Longrightarrow> g' = g"
  by (auto simp: merge_global_hlc_def split: prod.splits sum.splits)

lemma merge_global_hlc_ok:
  "merge_global_hlc g now p n = (g', Ok ()) \<longleftrightarrow> hlc_tick_receive g now p n = (g', Ok ())"
  by (auto simp: merge_global_hlc_def split: prod.splits sum.splits)

text \<open>The global clock never stands still below the saturation point of physical time.\<close>

lemma saturating_add_1_less: "w \<noteq> - 1 \<Longrightarrow> w < saturating_add w 1" for w :: "'a::len word"
proof -
  assume "w \<noteq> - 1"
  then have "unat w \<noteq> 2 ^ LENGTH('a) - 1"
    by (metis mask_eq_exp_minus_1 unsigned_minus_1_eq_mask word_unat_eq_iff)
  moreover have "unat w < 2 ^ LENGTH('a)" by (rule unsigned_less)
  ultimately have "unat w < 2 ^ LENGTH('a) - 1" by linarith
  then show ?thesis
    by (simp add: word_less_nat_alt unat_saturating_add)
qed

lemma tick_global_hlc_less:
  assumes "physical_ns g \<noteq> - 1"
  shows "g < tick_global_hlc g now"
proof (cases "hlc_tick_local g now")
  case (Pair g' r)
  show ?thesis
  proof (cases r)
    case (Inl e)
    with Pair hlc_tick_local_err have "g' = g" by blast
    moreover have "physical_ns g < max (saturating_add now 1) (saturating_add (physical_ns g) 1)"
      using saturating_add_1_less [OF assms] by (simp add: less_max_iff_disj)
    ultimately show ?thesis
      by (simp add: tick_global_hlc_def Pair Inl Hlc_new_def hlc_less_iff Let_def)
  next
    case (Inr u)
    with Pair show ?thesis
      using hlc_tick_local_less by (simp add: tick_global_hlc_def)
  qed
qed

text \<open>Both ticks keep the constructor's invariant once a positive time was seen.\<close>

lemma hlc_tick_local_valid:
  "hlc_tick_local c now = (c', Ok ()) \<Longrightarrow> now \<noteq> 0 \<or> physical_ns c \<noteq> 0 \<Longrightarrow> hlc_valid c'"
  by (auto simp: hlc_tick_local_def hlc_valid_def not_less split: if_splits option.splits)

lemma tick_global_hlc_valid:
  assumes "now \<noteq> 0 \<or> physical_ns g \<noteq> 0"
  shows "hlc_valid (tick_global_hlc g now)" "physical_ns (tick_global_hlc g now) \<noteq> 0"
proof -
  obtain g' r where t: "hlc_tick_local g now = (g', r)" by fastforce
  have "hlc_valid (tick_global_hlc g now) \<and> physical_ns (tick_global_hlc g now) \<noteq> 0"
  proof (cases r)
    case (Inl e)
    have "0 < saturating_add now 1"
      by (simp add: word_less_nat_alt unat_saturating_add min_def)
    then have "0 < max (saturating_add now 1) (saturating_add (physical_ns g') 1)"
      by (simp add: less_max_iff_disj)
    then show ?thesis
      by (auto simp: tick_global_hlc_def t Inl Hlc_new_def hlc_valid_def Let_def)
  next
    case (Inr u)
    with t hlc_tick_local_valid [of g now g'] assms
    have "hlc_valid g'" by simp
    moreover have "physical_ns g' \<noteq> 0"
      using t Inr assms by (auto simp: hlc_tick_local_def not_less split: if_splits option.splits)
    ultimately show ?thesis using t Inr by (simp add: tick_global_hlc_def)
  qed
  then show "hlc_valid (tick_global_hlc g now)" "physical_ns (tick_global_hlc g now) \<noteq> 0"
    by simp_all
qed

text \<open>A clock stuck at the Unix epoch produces a value that \<open>Hlc::new\<close> rejects.\<close>

lemma tick_global_hlc_epoch: "tick_global_hlc Hlc_EPOCH 0 = Hlc 0 1" "\<not> hlc_valid (Hlc 0 1)"
  by (simp_all add: tick_global_hlc_def hlc_tick_local_def Hlc_EPOCH_def checked_add_def hlc_valid_def)

section \<open>Runs of the global clock\<close>

text \<open>
  One step of the process-global cell: a local stamp or a merge of a peer's clock, both at
  some wall-clock sample. Stamped values are recorded, newest first.
\<close>

record clock =
  cell :: hlc
  stamped :: "hlc list"

definition clock_init :: "clock \<Rightarrow> bool" where
  "clock_init c \<longleftrightarrow> cell c = Hlc_EPOCH \<and> stamped c = []"

inductive clock_step :: "clock \<Rightarrow> clock \<Rightarrow> bool" where
  stamp: "h = tick_global_hlc (cell c) now \<Longrightarrow>
    clock_step c (c\<lparr>cell := h, stamped := h # stamped c\<rparr>)"
| merge: "merge_global_hlc (cell c) now peer node = (h, r) \<Longrightarrow> clock_step c (c\<lparr>cell := h\<rparr>)"

definition clock_inv :: "clock \<Rightarrow> bool" where
  "clock_inv c \<longleftrightarrow> physical_ns (cell c) = - 1 \<or>
     sorted_wrt (>) (stamped c) \<and> (\<forall>h \<in> set (stamped c). h \<le> cell c)"

text \<open>Physical time never goes back, so a saturated clock stays saturated.\<close>

lemma saturating_add_ge: "w \<le> saturating_add w v" for w v :: "'a::len word"
proof -
  have "unat w < 2 ^ LENGTH('a)" by (rule unsigned_less)
  then have "unat w \<le> 2 ^ LENGTH('a) - 1" by linarith
  then show ?thesis by (simp add: word_le_nat_alt unat_saturating_add)
qed

lemma tick_global_hlc_physical: "physical_ns g \<le> physical_ns (tick_global_hlc g now)"
proof (cases "hlc_tick_local g now")
  case (Pair g' r)
  show ?thesis
  proof (cases r)
    case (Inl e)
    with Pair hlc_tick_local_err have "g' = g" by blast
    moreover have "physical_ns g \<le> max (saturating_add now 1) (saturating_add (physical_ns g) 1)"
      using saturating_add_ge [of "physical_ns g" 1] by (simp add: le_max_iff_disj)
    ultimately show ?thesis
      using Pair Inl by (simp add: tick_global_hlc_def Hlc_new_def Let_def)
  next
    case (Inr u)
    with Pair hlc_tick_local_less [of g now g'] have "g < g'" by simp
    with Pair Inr show ?thesis by (auto simp: tick_global_hlc_def hlc_less_iff)
  qed
qed

lemma merge_global_hlc_mono:
  assumes "merge_global_hlc g now p n = (h, r)" shows "g \<le> h"
proof (cases r)
  case (Inl e)
  with assms merge_global_hlc_err show ?thesis by blast
next
  case (Inr u)
  with assms have "hlc_tick_receive g now p n = (h, Ok ())"
    by (simp add: merge_global_hlc_ok)
  then show ?thesis using hlc_tick_receive_less(1) by (simp add: less_imp_le)
qed

lemma hlc_le_physical: "a \<le> b \<Longrightarrow> physical_ns a \<le> physical_ns b" for a b :: hlc
  by (auto simp: le_less hlc_less_iff)

lemma u64_max_le: "- 1 \<le> w \<Longrightarrow> w = - 1" for w :: u64
  using word_order.extremum_unique by auto

lemma clock_step_inv [step_intros]:
  assumes inv: "clock_inv c" and "clock_step c d"
  shows "clock_inv d"
  using assms(2)
proof cases
  case (stamp h now)
  show ?thesis
  proof (cases "physical_ns (cell c) = - 1")
    case True
    then show ?thesis
      using tick_global_hlc_physical [of "cell c" now] u64_max_le stamp by (simp add: clock_inv_def)
  next
    case False
    then have "cell c < h" using tick_global_hlc_less stamp by simp
    with False inv stamp show ?thesis
      by (auto simp: clock_inv_def intro: le_less_trans less_imp_le)
  qed
next
  case (merge now peer node h r)
  then have "cell c \<le> h" using merge_global_hlc_mono by blast
  moreover from this have "physical_ns h = - 1" if "physical_ns (cell c) = - 1"
    using hlc_le_physical [of "cell c" h] u64_max_le that by simp
  ultimately show ?thesis
    using inv merge by (auto simp: clock_inv_def intro: order_trans)
qed

interpretation global_clock: invariant_system clock_init clock_step clock_inv
proof unfold_locales
  show "clock_init c \<Longrightarrow> clock_inv c" for c
    by (simp add: clock_init_def clock_inv_def)
qed (rule step_intros)

inductive_cases clock_stepE: "clock_step c d"

section \<open>Properties\<close>

text \<open>
  C34: from process start, under every interleaving of local stamps and authenticated merges
  and any wall-clock samples (backward jumps included), the stamps handed out are strictly
  increasing and none exceeds the clock cell, as long as physical time has not reached the
  largest 64-bit value.
\<close>

theorem stamps_strictly_increase:
  assumes "reachable clock_init clock_step c" and "physical_ns (cell c) \<noteq> - 1"
  shows "sorted_wrt (>) (stamped c) \<and> (\<forall>h \<in> set (stamped c). h \<le> cell c)"
  using global_clock.reachable_inv [OF assms(1)] assms(2) by (simp add: clock_inv_def)

theorem stamps_strictly_increase_witness:
  "sorted_wrt (>) [Hlc 5 1, Hlc 5 0] \<and> Hlc 5 1 \<le> Hlc 9 4"
proof -
  let ?c0 = "\<lparr>cell = Hlc_EPOCH, stamped = []\<rparr>" and ?c1 = "\<lparr>cell = Hlc 5 0, stamped = [Hlc 5 0]\<rparr>"
  let ?c2 = "\<lparr>cell = Hlc 5 1, stamped = [Hlc 5 1, Hlc 5 0]\<rparr>"
    and ?c3 = "\<lparr>cell = Hlc 9 4, stamped = [Hlc 5 1, Hlc 5 0]\<rparr>"
  have "clock_step ?c0 ?c1"
    using clock_step.stamp [of "Hlc 5 0" ?c0 5]
    by (simp add: tick_global_hlc_def hlc_tick_local_def Hlc_EPOCH_def)
  moreover have "clock_step ?c1 ?c2"
    using clock_step.stamp [of "Hlc 5 1" ?c1 2]
    by (simp add: tick_global_hlc_def hlc_tick_local_def checked_add_def)
  moreover have "clock_step ?c2 ?c3"
    using clock_step.merge [of ?c2 7 "Hlc 9 3" "[]" "Hlc 9 4" "Ok ()"]
    by (simp add: merge_global_hlc_def hlc_tick_receive_def checked_add_def)
  moreover have "reachable clock_init clock_step ?c0"
    by (rule reachable_init) (simp add: clock_init_def)
  ultimately have "reachable clock_init clock_step ?c3"
    by (meson reachable_step)
  from stamps_strictly_increase [OF this] show ?thesis by simp
qed

text \<open>
  A merge that succeeds leaves the clock strictly after both its old value and the peer's
  clock and not before the wall-clock sample; a merge that fails leaves the cell untouched,
  and it fails only on overflow of the logical counter that the chosen branch increments.
\<close>

theorem merge_transaction:
  "case merge_global_hlc g now peer node of
     (g', Inr _) \<Rightarrow> g < g' \<and> peer < g' \<and> now \<le> physical_ns g'
   | (g', Inl e) \<Rightarrow> g' = g \<and> e = LogicalOverflow (Some node)
       \<and> (logical g = - 1 \<or> logical peer = - 1)"
proof -
  obtain g' r where m: "merge_global_hlc g now peer node = (g', r)" by fastforce
  show ?thesis
  proof (cases r)
    case (Inl e)
    have "l = - 1" if "checked_add l 1 = None" for l :: u32
      using that unat_bounds(3) [of l]
      by (simp add: checked_add_None word_unat_eq_iff unsigned_minus_1_eq_mask mask_eq_exp_minus_1)
    moreover have "e = LogicalOverflow (Some node) \<and> (checked_add (logical g) 1 = None
        \<or> checked_add (logical peer) 1 = None)"
      using m Inl by (auto simp: merge_global_hlc_def hlc_tick_receive_def Let_def max_def
          split: if_splits option.splits)
    ultimately show ?thesis
      using m Inl merge_global_hlc_err by auto
  next
    case (Inr u)
    with m merge_global_hlc_ok [of g now peer node g'] hlc_tick_receive_less [of g now peer node g']
    show ?thesis by simp
  qed
qed

end
