(* ===== verification/Wal_Frame.thy ===== *)
theory Wal_Frame
  imports Wal_Hlc
begin

text \<open>
  The 96-byte event header (\<open>wal/header.rs\<close>) and the frame codec
  (\<open>wal/frame.rs\<close>). The CRC-32C crate is the parameter \<open>crc\<close>; a failed
  \<open>assert\<close> is the result \<open>None\<close>.
\<close>

section \<open>The header\<close>

definition MAGIC :: bytes where "MAGIC = str_bytes ''NEOT''"
definition WAL_FORMAT_VERSION :: u8 where "WAL_FORMAT_VERSION = 0x02"
definition EVENT_SCHEMA_VERSION :: u8 where "EVENT_SCHEMA_VERSION = 0x04"
definition HEADER_BODY_LEN :: nat where "HEADER_BODY_LEN = 96"
definition CRC_LEN :: nat where "CRC_LEN = 4"
definition PREAMBLE_LEN :: nat where "PREAMBLE_LEN = 4"

lemmas wal_lens = HEADER_BODY_LEN_def CRC_LEN_def PREAMBLE_LEN_def

lemma MAGIC_bytes: "MAGIC = [78, 69, 79, 84]"
  by (simp add: MAGIC_def str_bytes_def)

lemma length_MAGIC [simp, codec_simps]: "length MAGIC = 4"
  by (simp add: MAGIC_bytes)

record event_header =
  wal_format_version :: u8
  event_schema_version :: u8
  event_type :: u8
  event_subtype :: u8
  flags :: event_flags
  header_len :: u16
  reserved_len :: u16
  total_len :: u32
  payload_len :: u32
  generation :: u32
  event_id :: event_id
  hlc :: hlc
  importance :: f32
  scope :: wal_scope
  category :: wal_category
  session_id :: session_id
  node_id :: node_id
  payload_hash :: u64

definition header_from_le_bytes :: "bytes \<Rightarrow> header_parse_error + event_header" where
  "header_from_le_bytes b =
     (let reserved = u16_of_le (subslice 7 9 b);
          total = u32_of_le (subslice 9 13 b);
          payload = u32_of_le (subslice 13 17 b);
          expected_total = PREAMBLE_LEN + HEADER_BODY_LEN + unat reserved + unat payload + CRC_LEN
      in if b ! 0 \<noteq> WAL_FORMAT_VERSION then Err (UnknownWalFormat (b ! 0))
         else if b ! 1 \<noteq> EVENT_SCHEMA_VERSION then Err (UnknownSchema (b ! 1))
         else if u16_of_le (subslice 5 7 b) \<noteq> word_of_nat HEADER_BODY_LEN
           then Err (InvalidHeaderLen (u16_of_le (subslice 5 7 b)))
         else if unat total \<noteq> expected_total
           then Err (InconsistentTotalLen total payload reserved expected_total)
         else if subslice 93 96 b \<noteq> [0, 0, 0] then Err (NonzeroReserved (subslice 93 96 b))
         else if b ! 4 AND 0xE0 \<noteq> 0 then Err (InvalidFlagBits (b ! 4))
         else case flags_from_bits (b ! 4) of
                None \<Rightarrow> Err (InvalidFlagBits (b ! 4))
              | Some fl \<Rightarrow>
                  (case Hlc_new (u64_of_le (subslice 29 37 b)) (u32_of_le (subslice 37 41 b)) of
                     Inl e \<Rightarrow> Err (HlcErr e)
                   | Inr h \<Rightarrow>
                       (case Importance_new (u32_of_le (subslice 41 45 b)) of
                          Inl e \<Rightarrow> Err e
                        | Inr imp \<Rightarrow> Ok \<lparr>
                            wal_format_version = b ! 0,
                            event_schema_version = b ! 1,
                            event_type = b ! 2,
                            event_subtype = b ! 3,
                            flags = fl,
                            header_len = u16_of_le (subslice 5 7 b),
                            reserved_len = reserved,
                            total_len = total,
                            payload_len = payload,
                            generation = u32_of_le (subslice 17 21 b),
                            event_id = u64_of_le (subslice 21 29 b),
                            hlc = h,
                            importance = imp,
                            scope = u32_of_le (subslice 45 49 b),
                            category = u32_of_le (subslice 49 53 b),
                            session_id = subslice 53 69 b,
                            node_id = subslice 69 85 b,
                            payload_hash = u64_of_le (subslice 85 93 b) \<rparr>)))"

definition header_to_le_bytes :: "event_header \<Rightarrow> bytes" where
  "header_to_le_bytes h =
     (let b = replicate HEADER_BODY_LEN 0;
          b = put 0 [wal_format_version h] b;
          b = put 1 [event_schema_version h] b;
          b = put 2 [event_type h] b;
          b = put 3 [event_subtype h] b;
          b = put 4 [flags h] b;
          b = put 5 (u16_to_le (header_len h)) b;
          b = put 7 (u16_to_le (reserved_len h)) b;
          b = put 9 (u32_to_le (total_len h)) b;
          b = put 13 (u32_to_le (payload_len h)) b;
          b = put 17 (u32_to_le (generation h)) b;
          b = put 21 (u64_to_le (event_id h)) b;
          b = put 29 (u64_to_le (physical_ns (hlc h))) b;
          b = put 37 (u32_to_le (logical (hlc h))) b;
          b = put 41 (u32_to_le (importance h)) b;
          b = put 45 (u32_to_le (scope h)) b;
          b = put 49 (u32_to_le (category h)) b;
          b = put 53 (session_id h) b;
          b = put 69 (node_id h) b;
          b = put 85 (u64_to_le (payload_hash h)) b
      in b)"

definition empty_header :: event_header where
  "empty_header = \<lparr>
     wal_format_version = WAL_FORMAT_VERSION,
     event_schema_version = EVENT_SCHEMA_VERSION,
     event_type = 0,
     event_subtype = 0,
     flags = 0,
     header_len = word_of_nat HEADER_BODY_LEN,
     reserved_len = 0,
     total_len = word_of_nat (PREAMBLE_LEN + HEADER_BODY_LEN + CRC_LEN),
     payload_len = 0,
     generation = 0,
     event_id = EventId_NONE,
     hlc = Hlc_EPOCH,
     importance = Importance_ZERO,
     scope = WalScope_UNSET,
     category = WalCategory_UNSET,
     session_id = SessionId_ZERO,
     node_id = NodeId_ZERO,
     payload_hash = 0 \<rparr>"

text \<open>What the Rust types and the header builder guarantee of a header.\<close>

definition header_valid :: "event_header \<Rightarrow> bool" where
  "header_valid h \<longleftrightarrow>
     wal_format_version h = WAL_FORMAT_VERSION \<and>
     event_schema_version h = EVENT_SCHEMA_VERSION \<and>
     header_len h = word_of_nat HEADER_BODY_LEN \<and>
     unat (total_len h) = PREAMBLE_LEN + HEADER_BODY_LEN + unat (reserved_len h)
       + unat (payload_len h) + CRC_LEN \<and>
     flags h AND 0xE0 = 0 \<and>
     hlc_valid (hlc h) \<and>
     importance_valid (importance h) \<and>
     id16 (session_id h) \<and> id16 (node_id h)"

lemma header_to_le_bytes_concat:
  assumes "id16 (session_id h)" "id16 (node_id h)"
  shows "header_to_le_bytes h =
     [wal_format_version h, event_schema_version h, event_type h, event_subtype h, flags h]
     @ u16_to_le (header_len h) @ u16_to_le (reserved_len h) @ u32_to_le (total_len h)
     @ u32_to_le (payload_len h) @ u32_to_le (generation h) @ u64_to_le (event_id h)
     @ u64_to_le (physical_ns (hlc h)) @ u32_to_le (logical (hlc h)) @ u32_to_le (importance h)
     @ u32_to_le (scope h) @ u32_to_le (category h) @ session_id h @ node_id h
     @ u64_to_le (payload_hash h) @ [0, 0, 0]"
  using assms unfolding header_to_le_bytes_def Let_def id16_def HEADER_BODY_LEN_def
  by (simp add: put_fill put_fill_start del: append_assoc append.simps)
    (simp add: numeral_eq_Suc)

lemma length_header_to_le_bytes [codec_simps]:
  "id16 (session_id h) \<Longrightarrow> id16 (node_id h) \<Longrightarrow> length (header_to_le_bytes h) = HEADER_BODY_LEN"
  by (simp add: header_to_le_bytes_concat HEADER_BODY_LEN_def) (simp add: id16_def)

lemma header_fields:
  assumes "id16 (session_id h)" "id16 (node_id h)"
  defines "b \<equiv> header_to_le_bytes h"
  shows "b ! 0 = wal_format_version h" "b ! 1 = event_schema_version h" "b ! 2 = event_type h"
    "b ! 3 = event_subtype h" "b ! 4 = flags h"
    "subslice 5 7 b = u16_to_le (header_len h)" "subslice 7 9 b = u16_to_le (reserved_len h)"
    "subslice 9 13 b = u32_to_le (total_len h)" "subslice 13 17 b = u32_to_le (payload_len h)"
    "subslice 17 21 b = u32_to_le (generation h)" "subslice 21 29 b = u64_to_le (event_id h)"
    "subslice 29 37 b = u64_to_le (physical_ns (hlc h))" "subslice 37 41 b = u32_to_le (logical (hlc h))"
    "subslice 41 45 b = u32_to_le (importance h)" "subslice 45 49 b = u32_to_le (scope h)"
    "subslice 49 53 b = u32_to_le (category h)" "subslice 53 69 b = session_id h"
    "subslice 69 85 b = node_id h" "subslice 85 93 b = u64_to_le (payload_hash h)"
    "subslice 93 96 b = [0, 0, 0]"
  using assms(1,2) unfolding b_def header_to_le_bytes_concat [OF assms(1,2)] id16_def
  by (simp_all add: subslice_def)

lemma header_from_to_le_bytes:
  assumes "header_valid h"
  shows "header_from_le_bytes (header_to_le_bytes h) = Ok h"
proof -
  have ids: "id16 (session_id h)" "id16 (node_id h)"
    and hv: "Hlc_new (physical_ns (hlc h)) (logical (hlc h)) = Ok (hlc h)"
    and iv: "Importance_new (importance h) = Ok (importance h)"
    and fl: "flags_from_bits (flags h) = Some (flags h)"
    using assms by (auto simp: header_valid_def Hlc_new_Ok Importance_new_Ok flags_from_bits_iff)
  from assms show ?thesis
    unfolding header_from_le_bytes_def Let_def header_fields [OF ids]
    by (simp add: hv iv fl header_valid_def)
qed

text \<open>Every accepted byte string is the encoding of the header that was read from it.\<close>

lemma header_to_from_le_bytes:
  assumes "length b = HEADER_BODY_LEN" and ok: "header_from_le_bytes b = Ok h"
  shows "header_valid h" "header_to_le_bytes h = b"
proof -
  have len: "length b = 96" using assms(1) by (simp add: HEADER_BODY_LEN_def)
  have parse: "b ! 0 = WAL_FORMAT_VERSION" "b ! 1 = EVENT_SCHEMA_VERSION"
    "u16_of_le (subslice 5 7 b) = word_of_nat HEADER_BODY_LEN"
    "subslice 93 96 b = [0, 0, 0]" "b ! 4 AND 0xE0 = 0" "flags h = b ! 4"
    "hlc h = Hlc (u64_of_le (subslice 29 37 b)) (u32_of_le (subslice 37 41 b))" "hlc_valid (hlc h)"
    "importance h = u32_of_le (subslice 41 45 b)" "importance_valid (importance h)"
    and fields: "wal_format_version h = b ! 0" "event_schema_version h = b ! 1"
    "event_type h = b ! 2" "event_subtype h = b ! 3" "header_len h = u16_of_le (subslice 5 7 b)"
    "reserved_len h = u16_of_le (subslice 7 9 b)" "total_len h = u32_of_le (subslice 9 13 b)"
    "payload_len h = u32_of_le (subslice 13 17 b)" "generation h = u32_of_le (subslice 17 21 b)"
    "event_id h = u64_of_le (subslice 21 29 b)" "scope h = u32_of_le (subslice 45 49 b)"
    "category h = u32_of_le (subslice 49 53 b)" "session_id h = subslice 53 69 b"
    "node_id h = subslice 69 85 b" "payload_hash h = u64_of_le (subslice 85 93 b)"
    and total: "unat (total_len h) = PREAMBLE_LEN + HEADER_BODY_LEN + unat (reserved_len h)
       + unat (payload_len h) + CRC_LEN"
    using ok by (auto simp: header_from_le_bytes_def Let_def Hlc_new_Ok Importance_new_Ok
        flags_from_bits_iff split: if_splits option.splits sum.splits)
  have ids: "id16 (session_id h)" "id16 (node_id h)"
    using len fields by (simp_all add: id16_def)
  show "header_valid h"
    using parse fields total ids by (simp add: header_valid_def)
  have "b = subslice 0 96 b" using len by (simp add: subslice_full)
  also have "\<dots> = concat (cut_at [0, 1, 2, 3, 4, 5, 7, 9, 13, 17, 21, 29, 37, 41, 45, 49, 53, 69,
      85, 93, 96] b)"
    by (subst concat_cut_at) simp_all
  also have "\<dots> = header_to_le_bytes h"
    using len by (simp add: header_to_le_bytes_concat [OF ids] parse(4-) fields to_le_of_le
        subslice_nth)
  finally show "header_to_le_bytes h = b" by simp
qed

interpretation hdr: byte_codec header_to_le_bytes header_from_le_bytes header_valid HEADER_BODY_LEN
proof unfold_locales
  show "header_valid h \<Longrightarrow> length (header_to_le_bytes h) = HEADER_BODY_LEN" for h
    by (simp add: length_header_to_le_bytes header_valid_def)
qed (auto simp: header_from_to_le_bytes header_to_from_le_bytes)

section \<open>Frames\<close>

definition encode_frame :: "(bytes \<Rightarrow> u32) \<Rightarrow> event_header \<Rightarrow> bytes \<Rightarrow> bytes option" where
  "encode_frame crc h payload =
     (let total = PREAMBLE_LEN + HEADER_BODY_LEN + unat (reserved_len h) + length payload + CRC_LEN
      in if unat (total_len h) \<noteq> total then None
         else if unat (payload_len h) \<noteq> length payload then None
         else let frame = MAGIC @ header_to_le_bytes h @ replicate (unat (reserved_len h)) 0 @ payload
              in Some (frame @ u32_to_le (crc frame)))"

record decoded_frame =
  df_header :: event_header
  df_payload :: bytes

definition decode_frame :: "(bytes \<Rightarrow> u32) \<Rightarrow> bytes \<Rightarrow> header_parse_error + decoded_frame" where
  "decode_frame crc frame =
     (let need = PREAMBLE_LEN + HEADER_BODY_LEN + CRC_LEN
      in if length frame < need then Err (BufferTooShort (length frame) need)
         else if subslice 0 4 frame \<noteq> MAGIC then Err (InvalidMagic (subslice 0 4 frame))
         else case header_from_le_bytes (subslice 4 (4 + HEADER_BODY_LEN) frame) of
                Inl e \<Rightarrow> Err e
              | Inr header \<Rightarrow>
                  (let expected_total = PREAMBLE_LEN + HEADER_BODY_LEN + unat (reserved_len header)
                         + unat (payload_len header) + CRC_LEN;
                       payload_start = PREAMBLE_LEN + HEADER_BODY_LEN + unat (reserved_len header);
                       payload_end = payload_start + unat (payload_len header);
                       crc_offset = payload_end;
                       crc_got = u32_of_le (subslice crc_offset (crc_offset + CRC_LEN) frame);
                       crc_computed = crc (take crc_offset frame)
                   in if length frame < expected_total
                        then Err (BufferTooShort (length frame) expected_total)
                      else if crc_got \<noteq> crc_computed then Err (CrcMismatch crc_computed crc_got)
                      else Ok \<lparr>df_header = header,
                               df_payload = subslice payload_start payload_end frame\<rparr>))"

lemma encode_frame_length:
  "encode_frame crc h p = Some f \<Longrightarrow> id16 (session_id h) \<Longrightarrow> id16 (node_id h) \<Longrightarrow>
   length f = unat (total_len h)"
  by (auto simp: encode_frame_def Let_def wal_lens length_header_to_le_bytes MAGIC_bytes
      split: if_splits)

text \<open>The header of an encoded frame is read back from any buffer that holds its first bytes.\<close>

lemma encode_frame_prefix:
  assumes "header_valid h" and "encode_frame crc h p = Some f" and "104 \<le> n"
  shows "subslice 0 4 (take n (f @ rest)) = MAGIC"
    and "header_from_le_bytes (subslice 4 100 (take n (f @ rest))) = Ok h"
proof -
  from assms(1) have ids: "id16 (session_id h)" "id16 (node_id h)" by (simp_all add: header_valid_def)
  obtain tail where f: "f = MAGIC @ header_to_le_bytes h @ tail" and "length tail \<ge> 4"
    using assms(2) by (auto simp: encode_frame_def Let_def split: if_splits)
  have len: "length (header_to_le_bytes h) = 96"
    using ids by (simp add: length_header_to_le_bytes HEADER_BODY_LEN_def)
  show "subslice 0 4 (take n (f @ rest)) = MAGIC"
    using assms(3) by (simp add: f subslice_def MAGIC_bytes)
  have "subslice 4 100 (take n (f @ rest)) = header_to_le_bytes h"
    using assms(3) by (simp add: f subslice_def MAGIC_bytes len drop_take)
  then show "header_from_le_bytes (subslice 4 100 (take n (f @ rest))) = Ok h"
    using assms(1) by (simp add: header_from_to_le_bytes)
qed

lemma decode_encode_frame:
  assumes v: "header_valid h" and e: "encode_frame crc h p = Some f"
  shows "decode_frame crc (f @ rest) = Ok \<lparr>df_header = h, df_payload = p\<rparr>"
proof -
  let ?r = "unat (reserved_len h)" and ?frame = "f @ rest"
  let ?body = "MAGIC @ header_to_le_bytes h @ replicate (unat (reserved_len h)) 0 @ p"
  from v have ids: "id16 (session_id h)" "id16 (node_id h)" by (simp_all add: header_valid_def)
  have f: "f = ?body @ u32_to_le (crc ?body)" and pl: "unat (payload_len h) = length p"
    and tl: "unat (total_len h) = 4 + 96 + ?r + length p + 4"
    using e by (auto simp: encode_frame_def Let_def wal_lens split: if_splits)
  have lf: "length f = 104 + ?r + length p"
    using encode_frame_length [OF e ids] tl by simp
  have lh: "length (header_to_le_bytes h) = 96"
    using ids by (simp add: length_header_to_le_bytes HEADER_BODY_LEN_def)
  have hd: "subslice 0 4 ?frame = MAGIC" "header_from_le_bytes (subslice 4 100 ?frame) = Ok h"
    using encode_frame_prefix [OF v e, of "length ?frame" rest] lf by simp_all
  have body: "take (100 + ?r + length p) ?frame = ?body"
    and pay: "subslice (100 + ?r) (100 + ?r + length p) ?frame = p"
    and got: "subslice (100 + ?r + length p) (100 + ?r + length p + 4) ?frame = u32_to_le (crc ?body)"
    unfolding f by (simp_all add: lh subslice_def)
  show ?thesis
    unfolding decode_frame_def Let_def wal_lens
    using hd lf body pay got by (simp add: pl add.assoc)
qed

text \<open>A proper prefix of a frame is always reported as too short, whatever the CRC function.\<close>

lemma decode_frame_torn:
  assumes v: "header_valid h" and e: "encode_frame crc h p = Some f" and n: "n < length f"
  shows "decode_frame crc (take n f) =
     Err (BufferTooShort n (if n < 104 then 104 else length f))"
proof (cases "n < 104")
  case True
  with n show ?thesis by (simp add: decode_frame_def wal_lens)
next
  case False
  have ids: "id16 (session_id h)" "id16 (node_id h)" using v by (simp_all add: header_valid_def)
  have tl: "length f = 4 + 96 + unat (reserved_len h) + unat (payload_len h) + 4"
    using v encode_frame_length [OF e ids] by (simp add: header_valid_def wal_lens)
  have "subslice 0 4 (take n f) = MAGIC" "header_from_le_bytes (subslice 4 100 (take n f)) = Ok h"
    using encode_frame_prefix [OF v e, of n "[]"] False by simp_all
  with False n tl show ?thesis
    by (simp add: decode_frame_def wal_lens Let_def)
qed

text \<open>What a successful decode guarantees of an arbitrary buffer.\<close>

lemma decode_frame_OkD:
  assumes "decode_frame crc b = Ok d"
  defines "h \<equiv> df_header d"
  shows "header_valid h" "unat (total_len h) \<le> length b"
    "unat (total_len h) = 104 + unat (reserved_len h) + unat (payload_len h)"
    "length (df_payload d) = unat (payload_len h)"
    "take 100 b = MAGIC @ header_to_le_bytes h"
    "df_payload d = subslice (100 + unat (reserved_len h)) (unat (total_len h) - 4) b"
    "u32_of_le (subslice (unat (total_len h) - 4) (unat (total_len h)) b)
       = crc (take (unat (total_len h) - 4) b)"
proof -
  have len: "\<not> length b < 104" and mag: "subslice 0 4 b = MAGIC"
    and hdr: "header_from_le_bytes (subslice 4 100 b) = Ok h"
    and tot: "\<not> length b < 104 + unat (reserved_len h) + unat (payload_len h)"
    and pay: "df_payload d = subslice (100 + unat (reserved_len h))
        (100 + unat (reserved_len h) + unat (payload_len h)) b"
    and crc: "u32_of_le (subslice (100 + unat (reserved_len h) + unat (payload_len h))
        (104 + unat (reserved_len h) + unat (payload_len h)) b)
        = crc (take (100 + unat (reserved_len h) + unat (payload_len h)) b)"
    using assms(1) unfolding h_def
    by (auto simp: decode_frame_def Let_def wal_lens ac_simps
        split: if_splits sum.splits)
  have "length (subslice 4 100 b) = HEADER_BODY_LEN"
    using len by (simp add: HEADER_BODY_LEN_def)
  with header_to_from_le_bytes [OF _ hdr]
  show v: "header_valid h" and enc: "take 100 b = MAGIC @ header_to_le_bytes h"
    using len subslice_split [of 0 4 100 b] mag by (simp_all add: subslice_def)
  show t: "unat (total_len h) = 104 + unat (reserved_len h) + unat (payload_len h)"
    using v by (simp add: header_valid_def wal_lens)
  show "unat (total_len h) \<le> length b" using t tot by simp
  show "length (df_payload d) = unat (payload_len h)" using pay tot by simp
  show "df_payload d = subslice (100 + unat (reserved_len h)) (unat (total_len h) - 4) b"
    using pay t by (simp add: ac_simps)
  show "u32_of_le (subslice (unat (total_len h) - 4) (unat (total_len h)) b)
       = crc (take (unat (total_len h) - 4) b)"
    using crc t by (simp add: ac_simps)
qed

section \<open>Properties\<close>

lemma empty_header_valid: "header_valid empty_header"
  by (simp add: header_valid_def empty_header_def wal_lens hlc_valid_def Hlc_EPOCH_def
      importance_valid_iff Importance_ZERO_def id16_def SessionId_ZERO_def NodeId_ZERO_def)

lemma empty_header_encodes: "encode_frame crc empty_header [] \<noteq> None"
  by (simp add: encode_frame_def empty_header_def wal_lens)

text \<open>
  The 96-byte header codec is exact: a buffer parses to a header if and only if that
  header satisfies every field constraint and its serialisation is the buffer. So the parser
  accepts no second encoding of any header and loses no bit of what it reads.
\<close>

theorem header_codec_exact:
  assumes "length b = HEADER_BODY_LEN"
  shows "header_from_le_bytes b = Ok h \<longleftrightarrow> header_valid h \<and> header_to_le_bytes h = b"
  using assms hdr.dec_enc hdr.dec_valid hdr.enc_dec by metis

theorem header_codec_exact_witness:
  "header_from_le_bytes (header_to_le_bytes empty_header) = Ok empty_header"
  using header_codec_exact [of "header_to_le_bytes empty_header" empty_header]
    hdr.enc_length [OF empty_header_valid] empty_header_valid by blast

text \<open>
  C18: a frame is read back from any buffer it starts, whatever follows it, and a buffer that
  holds only a proper prefix of it is reported as too short with the number of bytes needed;
  a torn write is never mistaken for a corrupt or a different frame, for any CRC function.
\<close>

theorem frame_roundtrip_and_torn:
  assumes "header_valid h" and "encode_frame crc h p = Some f"
  shows "decode_frame crc (f @ rest) = Ok \<lparr>df_header = h, df_payload = p\<rparr> \<and>
    (\<forall>n < length f. decode_frame crc (take n f) =
       Err (BufferTooShort n (if n < 104 then 104 else length f)))"
  using assms decode_encode_frame decode_frame_torn by blast

theorem frame_roundtrip_and_torn_witness:
  "\<exists>f. encode_frame (\<lambda>bs. word_of_nat (length bs)) empty_header [] = Some f \<and>
     decode_frame (\<lambda>bs. word_of_nat (length bs)) (f @ [1, 2])
       = Ok \<lparr>df_header = empty_header, df_payload = []\<rparr>"
  using frame_roundtrip_and_torn [OF empty_header_valid] empty_header_encodes by blast

text \<open>
  A frame that decodes is checked as a whole: its length fields agree with each other and
  fit the buffer, its payload is the slice they announce, its header bytes are the canonical
  encoding, and its trailing checksum equals the CRC of everything before it.
\<close>

theorem decoded_frame_is_checked:
  assumes "decode_frame crc b = Ok d"
  defines "n \<equiv> unat (total_len (df_header d))"
  shows "header_valid (df_header d) \<and> n \<le> length b
    \<and> take 100 b = MAGIC @ header_to_le_bytes (df_header d)
    \<and> n = 104 + unat (reserved_len (df_header d)) + length (df_payload d)
    \<and> df_payload d = subslice (100 + unat (reserved_len (df_header d))) (n - 4) b
    \<and> u32_of_le (subslice (n - 4) n b) = crc (take (n - 4) b)"
  using decode_frame_OkD [OF assms(1)] unfolding n_def by simp

theorem decoded_frame_is_checked_witness:
  "\<exists>b. decode_frame (\<lambda>bs. word_of_nat (length bs)) b = Ok \<lparr>df_header = empty_header, df_payload = []\<rparr>
     \<and> take 100 b = MAGIC @ header_to_le_bytes empty_header"
proof -
  let ?crc = "\<lambda>bs. word_of_nat (length bs) :: u32" and ?d = "\<lparr>df_header = empty_header, df_payload = []\<rparr>"
  obtain f where "encode_frame ?crc empty_header [] = Some f" using empty_header_encodes by blast
  then have "decode_frame ?crc f = Ok ?d"
    using decode_encode_frame [OF empty_header_valid, of ?crc "[]" f "[]"] by simp
  with decoded_frame_is_checked [of ?crc f ?d] show ?thesis by auto
qed

end
