(* ===== verification/Wal_Builder.thy ===== *)
theory Wal_Builder
  imports Wal_Frame "HOL-Library.Product_Lexorder"
begin

text \<open>
  The header builder of \<open>wal/builder.rs\<close>, which stamps every header from the global
  clock, and the canonical replay order \<open>compare_event_headers_for_replay\<close> of
  \<open>wal/hlc.rs\<close>.
\<close>

section \<open>Header builder\<close>

record header_builder =
  hb_event_type :: u8
  hb_event_subtype :: u8
  hb_flags :: event_flags
  hb_importance :: f32
  hb_scope :: u32
  hb_category :: u32
  hb_session_id :: session_id
  hb_node_id :: node_id
  hb_payload :: bytes

text \<open>The bit pattern of \<open>0.5\<close>.\<close>

definition DEFAULT_IMPORTANCE :: f32 where "DEFAULT_IMPORTANCE = 0x3F000000"

definition builder_new :: "u8 \<Rightarrow> bytes \<Rightarrow> header_builder" where
  "builder_new et payload = \<lparr>
     hb_event_type = et,
     hb_event_subtype = 0,
     hb_flags = 0,
     hb_importance = DEFAULT_IMPORTANCE,
     hb_scope = 0,
     hb_category = 0,
     hb_session_id = replicate 16 0,
     hb_node_id = replicate 16 0,
     hb_payload = payload \<rparr>"

definition with_event_subtype :: "u8 \<Rightarrow> header_builder \<Rightarrow> header_builder" where
  "with_event_subtype v b = b\<lparr>hb_event_subtype := v\<rparr>"
definition with_flags :: "event_flags \<Rightarrow> header_builder \<Rightarrow> header_builder" where
  "with_flags f b = b\<lparr>hb_flags := f\<rparr>"
definition with_importance :: "f32 \<Rightarrow> header_builder \<Rightarrow> header_builder" where
  "with_importance v b = b\<lparr>hb_importance := v\<rparr>"
definition with_scope :: "u32 \<Rightarrow> header_builder \<Rightarrow> header_builder" where
  "with_scope v b = b\<lparr>hb_scope := v\<rparr>"
definition with_category :: "u32 \<Rightarrow> header_builder \<Rightarrow> header_builder" where
  "with_category v b = b\<lparr>hb_category := v\<rparr>"
definition with_session :: "session_id \<Rightarrow> header_builder \<Rightarrow> header_builder" where
  "with_session s b = b\<lparr>hb_session_id := s\<rparr>"
definition with_session_context :: "session_id option \<Rightarrow> header_builder \<Rightarrow> header_builder" where
  "with_session_context ctx b =
     b\<lparr>hb_session_id := (case ctx of None \<Rightarrow> SessionId_ZERO | Some s \<Rightarrow> s)\<rparr>"
definition with_node :: "node_id \<Rightarrow> header_builder \<Rightarrow> header_builder" where
  "with_node n b = b\<lparr>hb_node_id := n\<rparr>"

text \<open>
  \<open>build\<close> samples the wall clock once (\<open>now_ns\<close>), ticks the global clock cell and
  returns the header together with the new cell. The \<open>as u32\<close> casts truncate.
\<close>

definition build ::
    "(bytes \<Rightarrow> u64) \<Rightarrow> hlc \<Rightarrow> u64 \<Rightarrow> header_builder \<Rightarrow> event_header \<times> hlc" where
  "build xxh3 global now_ns b =
     (let h = tick_global_hlc global now_ns;
          plen = length (hb_payload b)
      in (\<lparr> wal_format_version = WAL_FORMAT_VERSION,
            event_schema_version = EVENT_SCHEMA_VERSION,
            event_type = hb_event_type b,
            event_subtype = hb_event_subtype b,
            flags = hb_flags b,
            header_len = word_of_nat HEADER_BODY_LEN,
            reserved_len = 0,
            total_len = word_of_nat (PREAMBLE_LEN + HEADER_BODY_LEN + plen + CRC_LEN),
            payload_len = word_of_nat plen,
            generation = 0,
            event_id = physical_ns h,
            hlc = h,
            importance = (case Importance_new (hb_importance b) of
                            Inr v \<Rightarrow> v | Inl _ \<Rightarrow> Importance_ZERO),
            scope = hb_scope b,
            category = hb_category b,
            session_id = hb_session_id b,
            node_id = hb_node_id b,
            payload_hash = xxh3 (hb_payload b) \<rparr>, h))"

definition make_header :: "(bytes \<Rightarrow> u64) \<Rightarrow> hlc \<Rightarrow> u64 \<Rightarrow> u8 \<Rightarrow> bytes \<Rightarrow> event_header \<times> hlc" where
  "make_header xxh3 global now_ns et payload = build xxh3 global now_ns (builder_new et payload)"

definition make_header_in ::
    "(bytes \<Rightarrow> u64) \<Rightarrow> hlc \<Rightarrow> u64 \<Rightarrow> u8 \<Rightarrow> bytes \<Rightarrow> session_id option \<Rightarrow> event_header \<times> hlc" where
  "make_header_in xxh3 global now_ns et payload ctx =
     build xxh3 global now_ns (with_session_context ctx (builder_new et payload))"

definition builder_ok :: "header_builder \<Rightarrow> bool" where
  "builder_ok b \<longleftrightarrow> id16 (hb_session_id b) \<and> id16 (hb_node_id b) \<and> hb_flags b AND 0xE0 = 0
     \<and> length (hb_payload b) + 104 < 2 ^ 32"

lemma builder_ok_new: "length p + 104 < 2 ^ 32 \<Longrightarrow> builder_ok (builder_new et p)"
  by (simp add: builder_ok_def builder_new_def id16_def)

lemma built_importance_valid:
  "importance_valid (case Importance_new v of Inr w \<Rightarrow> w | Inl _ \<Rightarrow> Importance_ZERO)"
proof (cases "Importance_new v")
  case (Inl e)
  then show ?thesis by (simp add: importance_valid_iff Importance_ZERO_def)
next
  case (Inr w)
  then have "importance_valid w" by (simp add: Importance_new_Ok)
  with Inr show ?thesis by simp
qed

lemma build_fields:
  assumes "builder_ok b" and "build xxh3 g now b = (h, g')"
  shows "reserved_len h = 0" "unat (payload_len h) = length (hb_payload b)"
    "unat (total_len h) = length (hb_payload b) + 104" "hlc h = g'" "event_id h = physical_ns g'"
    "g' = tick_global_hlc g now" "payload_hash h = xxh3 (hb_payload b)"
proof -
  have small: "length (hb_payload b) + 104 < 2 ^ 32"
    using assms(1) by (simp add: builder_ok_def)
  have "total_len h = word_of_nat (length (hb_payload b) + 104)"
    using assms(2) by (auto simp: build_def Let_def wal_lens)
  with small show "unat (total_len h) = length (hb_payload b) + 104"
    by (simp add: unat_of_nat del: of_nat_add)
  show "unat (payload_len h) = length (hb_payload b)"
    using assms(2) small by (auto simp: build_def Let_def unat_of_nat)
qed (use assms(2) in \<open>auto simp: build_def Let_def\<close>)

lemma build_valid:
  assumes "builder_ok b" and "build xxh3 g now b = (h, g')" and "hlc_valid g'"
  shows "header_valid h"
  using assms build_fields [OF assms(1,2)] built_importance_valid [of "hb_importance b"]
  by (auto simp: build_def Let_def builder_ok_def header_valid_def wal_lens)

lemma build_encodes:
  assumes "builder_ok b" and "build xxh3 g now b = (h, g')"
  shows "\<exists>f. encode_frame crc h (hb_payload b) = Some f"
  using build_fields [OF assms] by (simp add: encode_frame_def wal_lens Let_def)

section \<open>Replay order\<close>

definition compare_event_headers_for_replay :: "event_header \<Rightarrow> event_header \<Rightarrow> ordering" where
  "compare_event_headers_for_replay l r =
     then_with (hlc_cmp (hlc l) (hlc r))
     (then_with (cmp (node_id l) (node_id r))
     (then_with (cmp (event_id l) (event_id r))
     (then_with (cmp (payload_hash l) (payload_hash r))
     (then_with (cmp (event_type l) (event_type r))
     (then_with (cmp (event_subtype l) (event_subtype r))
     (then_with (cmp (flags l) (flags r))
     (then_with (cmp (generation l) (generation r))
     (then_with (cmp (scope l) (scope r))
     (then_with (cmp (category l) (category r))
     (then_with (cmp (session_id l) (session_id r))
     (then_with (cmp (f32_key (importance l)) (f32_key (importance r)))
     (then_with (cmp (reserved_len l) (reserved_len r))
     (then_with (cmp (payload_len l) (payload_len r))
     (cmp (total_len l) (total_len r)))))))))))))))"

text \<open>The chain of \<open>then_with\<close> calls compares one lexicographic key.\<close>

definition replay_key where
  "replay_key h = (hlc h, node_id h, event_id h, payload_hash h, event_type h, event_subtype h,
     flags h, generation h, scope h, category h, session_id h, f32_key (importance h),
     reserved_len h, payload_len h, total_len h)"

lemma cmp_pair: "cmp (a, b) (c, d) = then_with (cmp a c) (cmp b d)"
  by (auto simp: cmp_def less_prod_def)

lemma replay_cmp_key: "compare_event_headers_for_replay l r = cmp (replay_key l) (replay_key r)"
  by (simp add: compare_event_headers_for_replay_def replay_key_def cmp_pair hlc_cmp_eq_cmp)

lemma replay_key_inj:
  assumes "replay_key l = replay_key r" and "header_valid l" and "header_valid r"
  shows "l = r\<lparr>importance := importance l\<rparr>"
  using assms by (auto simp: replay_key_def header_valid_def)

section \<open>Properties\<close>

lemma replay_hlc_less: "hlc l < hlc r \<Longrightarrow> compare_event_headers_for_replay l r = Less"
  by (simp add: replay_cmp_key replay_key_def less_prod_def)

text \<open>
  Every header the builder makes from well-typed inputs (payload below 4 GiB), once the
  clock or the wall-clock sample is past the Unix epoch, encodes without tripping an
  assertion and decodes to itself with its payload, in front of any following bytes.
\<close>

theorem built_frame_decodes:
  assumes "builder_ok b" and "build xxh3 g now b = (h, g')" and "now \<noteq> 0 \<or> physical_ns g \<noteq> 0"
  shows "\<exists>f. encode_frame crc h (hb_payload b) = Some f \<and> length f = length (hb_payload b) + 104 \<and>
    decode_frame crc (f @ rest) = Ok \<lparr>df_header = h, df_payload = hb_payload b\<rparr>"
proof -
  obtain f where f: "encode_frame crc h (hb_payload b) = Some f"
    using build_encodes [OF assms(1,2)] by blast
  have "hlc_valid g'"
    using build_fields(6) [OF assms(1,2)] tick_global_hlc_valid(1) [OF assms(3)] by simp
  then have v: "header_valid h" using build_valid [OF assms(1,2)] by simp
  then have "length f = unat (total_len h)"
    using encode_frame_length [OF f] by (simp add: header_valid_def)
  with v f show ?thesis
    using build_fields(3) [OF assms(1,2)] decode_encode_frame [OF v f] by simp
qed

theorem built_frame_decodes_witness:
  "\<exists>h g'. build (\<lambda>_. 7) Hlc_EPOCH 5 (builder_new 1 [9, 9]) = (h, g') \<and>
     (\<exists>f. encode_frame (\<lambda>_. 0) h [9, 9] = Some f \<and> length f = 106 \<and>
        decode_frame (\<lambda>_. 0) (f @ []) = Ok \<lparr>df_header = h, df_payload = [9, 9]\<rparr>)"
proof -
  obtain h g' where b: "build (\<lambda>_. 7) Hlc_EPOCH 5 (builder_new 1 [9, 9]) = (h, g')" by fastforce
  with built_frame_decodes [OF builder_ok_new b, of "\<lambda>_. 0" "[]"] show ?thesis
    by (simp add: builder_new_def)
qed

text \<open>
  Two headers stamped one after the other replay in the order in which they were built,
  whatever the wall clock did in between and however far merges moved the clock.
\<close>

theorem successive_builds_replay_in_order:
  assumes "build xxh3 g now b = (h, g1)" and "g1 \<le> g2" and "physical_ns g2 \<noteq> - 1"
    and "build xxh3 g2 now' b' = (h', g3)"
  shows "compare_event_headers_for_replay h h' = Less \<and> compare_event_headers_for_replay h' h = Greater"
proof -
  have "hlc h = g1" "hlc h' = tick_global_hlc g2 now'"
    using assms(1,4) by (auto simp: build_def Let_def)
  with tick_global_hlc_less [OF assms(3), of now'] assms(2) have "hlc h < hlc h'" by simp
  then have "compare_event_headers_for_replay h h' = Less" by (rule replay_hlc_less)
  then show ?thesis by (simp add: replay_cmp_key)
qed

theorem successive_builds_replay_in_order_witness:
  "compare_event_headers_for_replay (fst (build (\<lambda>_. 7) Hlc_EPOCH 5 (builder_new 1 [])))
     (fst (build (\<lambda>_. 7) (Hlc 5 0) 3 (builder_new 0 []))) = Less"
proof -
  have "build (\<lambda>_. 7) Hlc_EPOCH 5 (builder_new 1 [])
      = (fst (build (\<lambda>_. 7) Hlc_EPOCH 5 (builder_new 1 [])), Hlc 5 0)"
    by (simp add: build_def Let_def tick_global_hlc_def hlc_tick_local_def Hlc_EPOCH_def)
  from successive_builds_replay_in_order [OF this order_refl _ prod.collapse [symmetric]]
  show ?thesis by simp
qed

text \<open>
  C30: the replay comparison is a total order on headers: swapping the arguments reverses the
  result, \<open>Less\<close> is transitive, and two valid headers compare \<open>Equal\<close> only if they
  agree in every field up to the sign of a zero importance.
\<close>

theorem replay_order_total:
  "reverse (compare_event_headers_for_replay l r) = compare_event_headers_for_replay r l \<and>
   (compare_event_headers_for_replay l r = Less \<and> compare_event_headers_for_replay r s = Less \<longrightarrow>
      compare_event_headers_for_replay l s = Less) \<and>
   (header_valid l \<and> header_valid r \<and> compare_event_headers_for_replay l r = Equal \<longrightarrow>
      l = r\<lparr>importance := importance l\<rparr> \<and> f32_key (importance l) = f32_key (importance r))"
  using replay_key_inj [of l r]
  by (auto simp: replay_cmp_key reverse_cmp dest: less_trans) (simp add: replay_key_def)

theorem replay_order_total_witness:
  "compare_event_headers_for_replay empty_header (empty_header\<lparr>event_type := 2\<rparr>) = Less"
proof -
  let ?h = "\<lambda>t. empty_header\<lparr>event_type := t\<rparr>"
  have "compare_event_headers_for_replay empty_header (?h 1) = Less"
    "compare_event_headers_for_replay (?h 1) (?h 2) = Less"
    by (simp_all add: compare_event_headers_for_replay_def empty_header_def hlc_cmp_def)
  with replay_order_total [of empty_header "?h 1" "?h 2"] show ?thesis by blast
qed

text \<open>
  An importance outside the unit interval is stored as 0.0: the builder replaces it and
  does not clamp it to the nearer bound.
\<close>

theorem out_of_range_importance_is_zeroed:
  assumes "\<not> importance_valid v"
  shows "importance (fst (build xxh3 g now (with_importance v b))) = Importance_ZERO"
  using assms by (auto simp: build_def Let_def with_importance_def importance_valid_def
      Importance_new_def split: if_splits)

text \<open>The bit pattern of \<open>2.0\<close>.\<close>

theorem out_of_range_importance_is_zeroed_witness:
  "importance (fst (build (\<lambda>_. 0) Hlc_EPOCH 5 (with_importance 0x40000000 (builder_new 1 []))))
     = Importance_ZERO"
  by (rule out_of_range_importance_is_zeroed) (simp add: importance_valid_iff)

end
