(* ===== verification/Wal_Segment.thy ===== *)
theory Wal_Segment
  imports Wal_Frame
begin

text \<open>
  Segment file headers in their three format versions (\<open>wal/segment_header.rs\<close>).
  A later version extends the record of the earlier one, as its wire layout appends to it;
  the CRC covers the first 56 bytes in all three.
\<close>

section \<open>Constants and records\<close>

definition SEGMENT_MAGIC :: bytes where "SEGMENT_MAGIC = str_bytes ''NEOT-SEG''"
definition SEGMENT_HEADER_LEN :: nat where "SEGMENT_HEADER_LEN = 60"
definition SEGMENT_HEADER_V2_LEN :: nat where "SEGMENT_HEADER_V2_LEN = 61"
definition SEGMENT_HEADER_V3_LEN :: nat where "SEGMENT_HEADER_V3_LEN = 65"
definition SEGMENT_FORMAT_VERSION :: u32 where "SEGMENT_FORMAT_VERSION = 3"
definition SEGMENT_FORMAT_VERSION_V2 :: u32 where "SEGMENT_FORMAT_VERSION_V2 = 2"
definition SEGMENT_FORMAT_VERSION_V1 :: u32 where "SEGMENT_FORMAT_VERSION_V1 = 1"
definition SEGMENT_HEADER_CRC_COVERED :: nat where "SEGMENT_HEADER_CRC_COVERED = 56"
definition SEGMENT_FLAG_COMPRESSED :: u8 where "SEGMENT_FLAG_COMPRESSED = 0x01"
definition SEGMENT_FLAG_SEALED :: u8 where "SEGMENT_FLAG_SEALED = 0x02"
definition SEGMENT_FLAG_DEFERRED_REPLICATION :: u8 where "SEGMENT_FLAG_DEFERRED_REPLICATION = 0x04"

lemmas seg_lens = SEGMENT_HEADER_LEN_def SEGMENT_HEADER_V2_LEN_def SEGMENT_HEADER_V3_LEN_def
  SEGMENT_HEADER_CRC_COVERED_def

lemmas seg_versions = SEGMENT_FORMAT_VERSION_def SEGMENT_FORMAT_VERSION_V2_def
  SEGMENT_FORMAT_VERSION_V1_def

lemma length_SEGMENT_MAGIC [simp, codec_simps]: "length SEGMENT_MAGIC = 8"
  by (simp add: SEGMENT_MAGIC_def str_bytes_def)

record segment_header =
  seg_magic :: bytes
  seg_format_version :: u32
  seg_generation :: u32
  seg_seq :: u64
  seg_first_event_id :: u64
  seg_start_ts_ns :: u64
  seg_node_id :: bytes
  seg_header_crc32c :: u32

record segment_header_v2 = segment_header +
  seg_flags :: u8

record segment_header_v3 = segment_header_v2 +
  seg_compaction_epoch :: u32

datatype parsed_segment_header =
  V1 segment_header | V2 segment_header_v2 | V3 segment_header_v3

section \<open>Accessors\<close>

fun parsed_generation :: "parsed_segment_header \<Rightarrow> u32" where
  "parsed_generation (V1 h) = seg_generation h"
| "parsed_generation (V2 h) = seg_generation h"
| "parsed_generation (V3 h) = seg_generation h"

fun parsed_seq :: "parsed_segment_header \<Rightarrow> u64" where
  "parsed_seq (V1 h) = seg_seq h"
| "parsed_seq (V2 h) = seg_seq h"
| "parsed_seq (V3 h) = seg_seq h"

fun parsed_start_ts_ns :: "parsed_segment_header \<Rightarrow> u64" where
  "parsed_start_ts_ns (V1 h) = seg_start_ts_ns h"
| "parsed_start_ts_ns (V2 h) = seg_start_ts_ns h"
| "parsed_start_ts_ns (V3 h) = seg_start_ts_ns h"

fun parsed_node_id :: "parsed_segment_header \<Rightarrow> bytes" where
  "parsed_node_id (V1 h) = seg_node_id h"
| "parsed_node_id (V2 h) = seg_node_id h"
| "parsed_node_id (V3 h) = seg_node_id h"

fun parsed_format_version :: "parsed_segment_header \<Rightarrow> u32" where
  "parsed_format_version (V1 h) = seg_format_version h"
| "parsed_format_version (V2 h) = seg_format_version h"
| "parsed_format_version (V3 h) = seg_format_version h"

fun parsed_is_compressed :: "parsed_segment_header \<Rightarrow> bool" where
  "parsed_is_compressed (V1 _) = False"
| "parsed_is_compressed (V2 h) = (seg_flags h AND SEGMENT_FLAG_COMPRESSED \<noteq> 0)"
| "parsed_is_compressed (V3 h) = (seg_flags h AND SEGMENT_FLAG_COMPRESSED \<noteq> 0)"

fun parsed_is_sealed :: "parsed_segment_header \<Rightarrow> bool" where
  "parsed_is_sealed (V1 _) = False"
| "parsed_is_sealed (V2 h) = (seg_flags h AND SEGMENT_FLAG_SEALED \<noteq> 0)"
| "parsed_is_sealed (V3 h) = (seg_flags h AND SEGMENT_FLAG_SEALED \<noteq> 0)"

fun parsed_header_len :: "parsed_segment_header \<Rightarrow> nat" where
  "parsed_header_len (V1 _) = SEGMENT_HEADER_LEN"
| "parsed_header_len (V2 _) = SEGMENT_HEADER_V2_LEN"
| "parsed_header_len (V3 _) = SEGMENT_HEADER_V3_LEN"

fun parsed_compaction_epoch :: "parsed_segment_header \<Rightarrow> u32" where
  "parsed_compaction_epoch (V1 _) = 0"
| "parsed_compaction_epoch (V2 _) = 0"
| "parsed_compaction_epoch (V3 h) = seg_compaction_epoch h"

section \<open>Encoding\<close>

text \<open>
  The 56 covered bytes and the 60 bytes common to the three layouts. In the source the same
  nine \<open>copy_from_slice\<close> lines occur in \<open>compute_crc\<close> and \<open>to_le_bytes\<close> of
  each version.
\<close>

definition seg_put_fields :: "'a segment_header_scheme \<Rightarrow> bytes \<Rightarrow> bytes" where
  "seg_put_fields h b =
     (let b = put 0 (seg_magic h) b;
          b = put 8 (u32_to_le (seg_format_version h)) b;
          b = put 12 (u32_to_le (seg_generation h)) b;
          b = put 16 (u64_to_le (seg_seq h)) b;
          b = put 24 (u64_to_le (seg_first_event_id h)) b;
          b = put 32 (u64_to_le (seg_start_ts_ns h)) b
      in put 40 (seg_node_id h) b)"

definition seg_v1_compute_crc :: "(bytes \<Rightarrow> u32) \<Rightarrow> segment_header \<Rightarrow> u32" where
  "seg_v1_compute_crc crc h = crc (seg_put_fields h (replicate SEGMENT_HEADER_CRC_COVERED 0))"
definition seg_v2_compute_crc :: "(bytes \<Rightarrow> u32) \<Rightarrow> segment_header_v2 \<Rightarrow> u32" where
  "seg_v2_compute_crc crc h = crc (seg_put_fields h (replicate SEGMENT_HEADER_CRC_COVERED 0))"
definition seg_v3_compute_crc :: "(bytes \<Rightarrow> u32) \<Rightarrow> segment_header_v3 \<Rightarrow> u32" where
  "seg_v3_compute_crc crc h = crc (seg_put_fields h (replicate SEGMENT_HEADER_CRC_COVERED 0))"

definition seg_v1_new ::
    "(bytes \<Rightarrow> u32) \<Rightarrow> u32 \<Rightarrow> u64 \<Rightarrow> u64 \<Rightarrow> u64 \<Rightarrow> bytes \<Rightarrow> segment_header" where
  "seg_v1_new crc gen seq feid ts node =
     (let hdr = \<lparr> seg_magic = SEGMENT_MAGIC, seg_format_version = SEGMENT_FORMAT_VERSION_V1,
            seg_generation = gen, seg_seq = seq, seg_first_event_id = feid,
            seg_start_ts_ns = ts, seg_node_id = node, seg_header_crc32c = 0 \<rparr>
      in hdr\<lparr>seg_header_crc32c := seg_v1_compute_crc crc hdr\<rparr>)"

definition seg_v2_new ::
    "(bytes \<Rightarrow> u32) \<Rightarrow> u32 \<Rightarrow> u64 \<Rightarrow> u64 \<Rightarrow> u64 \<Rightarrow> bytes \<Rightarrow> u8 \<Rightarrow> segment_header_v2" where
  "seg_v2_new crc gen seq feid ts node fl =
     (let hdr = \<lparr> seg_magic = SEGMENT_MAGIC, seg_format_version = SEGMENT_FORMAT_VERSION_V2,
            seg_generation = gen, seg_seq = seq, seg_first_event_id = feid,
            seg_start_ts_ns = ts, seg_node_id = node, seg_header_crc32c = 0, seg_flags = fl \<rparr>
      in hdr\<lparr>seg_header_crc32c := seg_v2_compute_crc crc hdr\<rparr>)"

definition seg_v3_new ::
    "(bytes \<Rightarrow> u32) \<Rightarrow> u32 \<Rightarrow> u64 \<Rightarrow> u64 \<Rightarrow> u64 \<Rightarrow> bytes \<Rightarrow> u8 \<Rightarrow> u32 \<Rightarrow> segment_header_v3" where
  "seg_v3_new crc gen seq feid ts node fl epoch =
     (let hdr = \<lparr> seg_magic = SEGMENT_MAGIC, seg_format_version = SEGMENT_FORMAT_VERSION,
            seg_generation = gen, seg_seq = seq, seg_first_event_id = feid,
            seg_start_ts_ns = ts, seg_node_id = node, seg_header_crc32c = 0, seg_flags = fl,
            seg_compaction_epoch = epoch \<rparr>
      in hdr\<lparr>seg_header_crc32c := seg_v3_compute_crc crc hdr\<rparr>)"

definition seg_v1_to_le_bytes :: "segment_header \<Rightarrow> bytes" where
  "seg_v1_to_le_bytes h =
     put 56 (u32_to_le (seg_header_crc32c h)) (seg_put_fields h (replicate SEGMENT_HEADER_LEN 0))"

definition seg_v2_to_le_bytes :: "segment_header_v2 \<Rightarrow> bytes" where
  "seg_v2_to_le_bytes h =
     (let b = seg_put_fields h (replicate SEGMENT_HEADER_V2_LEN 0);
          b = put 56 (u32_to_le (seg_header_crc32c h)) b
      in put 60 [seg_flags h] b)"

definition seg_v3_to_le_bytes :: "segment_header_v3 \<Rightarrow> bytes" where
  "seg_v3_to_le_bytes h =
     (let b = seg_put_fields h (replicate SEGMENT_HEADER_V3_LEN 0);
          b = put 56 (u32_to_le (seg_header_crc32c h)) b;
          b = put 60 [seg_flags h] b
      in put 61 (u32_to_le (seg_compaction_epoch h)) b)"

section \<open>Decoding\<close>

text \<open>The fields of the first 60 bytes, read at the source's offsets.\<close>

definition seg_v1_from_le_bytes :: "(bytes \<Rightarrow> u32) \<Rightarrow> bytes \<Rightarrow> wal_error + segment_header" where
  "seg_v1_from_le_bytes crc b =
     (let magic = subslice 0 8 b;
          version = u32_of_le (subslice 8 12 b);
          seq = u64_of_le (subslice 16 24 b);
          stored = u32_of_le (subslice 56 60 b);
          computed = crc (subslice 0 SEGMENT_HEADER_CRC_COVERED b)
      in if magic \<noteq> SEGMENT_MAGIC then Err (WalHeader (InvalidMagic (take 4 magic)))
         else if version \<noteq> SEGMENT_FORMAT_VERSION_V1 then Err (UnknownFormat (ucast version))
         else if computed \<noteq> stored then Err (SegmentHeaderCorrupt seq stored computed)
         else Ok \<lparr> seg_magic = magic, seg_format_version = version,
              seg_generation = u32_of_le (subslice 12 16 b), seg_seq = seq,
              seg_first_event_id = u64_of_le (subslice 24 32 b),
              seg_start_ts_ns = u64_of_le (subslice 32 40 b),
              seg_node_id = subslice 40 56 b, seg_header_crc32c = stored \<rparr>)"

definition seg_v2_from_le_bytes :: "(bytes \<Rightarrow> u32) \<Rightarrow> bytes \<Rightarrow> wal_error + segment_header_v2" where
  "seg_v2_from_le_bytes crc b =
     (let magic = subslice 0 8 b;
          version = u32_of_le (subslice 8 12 b);
          seq = u64_of_le (subslice 16 24 b);
          stored = u32_of_le (subslice 56 60 b);
          computed = crc (subslice 0 SEGMENT_HEADER_CRC_COVERED b)
      in if magic \<noteq> SEGMENT_MAGIC then Err (WalHeader (InvalidMagic (take 4 magic)))
         else if version \<noteq> SEGMENT_FORMAT_VERSION_V2 then Err (UnknownFormat (ucast version))
         else if computed \<noteq> stored then Err (SegmentHeaderCorrupt seq stored computed)
         else Ok \<lparr> seg_magic = magic, seg_format_version = version,
              seg_generation = u32_of_le (subslice 12 16 b), seg_seq = seq,
              seg_first_event_id = u64_of_le (subslice 24 32 b),
              seg_start_ts_ns = u64_of_le (subslice 32 40 b),
              seg_node_id = subslice 40 56 b, seg_header_crc32c = stored,
              seg_flags = b ! 60 \<rparr>)"

definition seg_v3_from_le_bytes :: "(bytes \<Rightarrow> u32) \<Rightarrow> bytes \<Rightarrow> wal_error + segment_header_v3" where
  "seg_v3_from_le_bytes crc b =
     (let magic = subslice 0 8 b;
          version = u32_of_le (subslice 8 12 b);
          seq = u64_of_le (subslice 16 24 b);
          stored = u32_of_le (subslice 56 60 b);
          computed = crc (subslice 0 SEGMENT_HEADER_CRC_COVERED b)
      in if magic \<noteq> SEGMENT_MAGIC then Err (WalHeader (InvalidMagic (take 4 magic)))
         else if version \<noteq> SEGMENT_FORMAT_VERSION then Err (UnknownFormat (ucast version))
         else if computed \<noteq> stored then Err (SegmentHeaderCorrupt seq stored computed)
         else Ok \<lparr> seg_magic = magic, seg_format_version = version,
              seg_generation = u32_of_le (subslice 12 16 b), seg_seq = seq,
              seg_first_event_id = u64_of_le (subslice 24 32 b),
              seg_start_ts_ns = u64_of_le (subslice 32 40 b),
              seg_node_id = subslice 40 56 b, seg_header_crc32c = stored,
              seg_flags = b ! 60, seg_compaction_epoch = u32_of_le (subslice 61 65 b) \<rparr>)"

definition parse_segment_header :: "(bytes \<Rightarrow> u32) \<Rightarrow> bytes \<Rightarrow> wal_error + parsed_segment_header" where
  "parse_segment_header crc raw =
     (let magic = subslice 0 8 raw; version = u32_of_le (subslice 8 12 raw)
      in if length raw < SEGMENT_HEADER_LEN then Err (UnknownFormat 0)
         else if magic \<noteq> SEGMENT_MAGIC then Err (WalHeader (InvalidMagic (take 4 magic)))
         else if version = SEGMENT_FORMAT_VERSION_V1 then
           (case seg_v1_from_le_bytes crc (take SEGMENT_HEADER_LEN raw) of
              Inl e \<Rightarrow> Err e | Inr h \<Rightarrow> Ok (V1 h))
         else if version = SEGMENT_FORMAT_VERSION_V2 then
           (if length raw < SEGMENT_HEADER_V2_LEN then Err (UnknownFormat 2)
            else case seg_v2_from_le_bytes crc (take SEGMENT_HEADER_V2_LEN raw) of
                   Inl e \<Rightarrow> Err e | Inr h \<Rightarrow> Ok (V2 h))
         else if version = SEGMENT_FORMAT_VERSION then
           (if length raw < SEGMENT_HEADER_V3_LEN then Err (UnknownFormat 3)
            else case seg_v3_from_le_bytes crc (take SEGMENT_HEADER_V3_LEN raw) of
                   Inl e \<Rightarrow> Err e | Inr h \<Rightarrow> Ok (V3 h))
         else Err (UnknownFormat (ucast version)))"

section \<open>Well-formed headers and the codec laws\<close>

text \<open>The first 56 bytes of every layout, as one concatenation.\<close>

definition seg_covered :: "'a segment_header_scheme \<Rightarrow> bytes" where
  "seg_covered h = seg_magic h @ u32_to_le (seg_format_version h) @ u32_to_le (seg_generation h)
     @ u64_to_le (seg_seq h) @ u64_to_le (seg_first_event_id h) @ u64_to_le (seg_start_ts_ns h)
     @ seg_node_id h"

definition seg_valid :: "(bytes \<Rightarrow> u32) \<Rightarrow> u32 \<Rightarrow> 'a segment_header_scheme \<Rightarrow> bool" where
  "seg_valid crc v h \<longleftrightarrow> seg_magic h = SEGMENT_MAGIC \<and> seg_format_version h = v
     \<and> id16 (seg_node_id h) \<and> seg_header_crc32c h = crc (seg_covered h)"

lemma seg_put_fields_covered:
  assumes "length (seg_magic h) = 8" "id16 (seg_node_id h)" "56 \<le> n"
  shows "seg_put_fields h (replicate n 0) = seg_covered h @ replicate (n - 56) 0"
  using assms unfolding seg_put_fields_def seg_covered_def Let_def id16_def
  by (simp add: put_fill put_fill_start del: append_assoc append.simps)

lemma length_seg_covered [codec_simps]:
  "length (seg_magic h) = 8 \<Longrightarrow> id16 (seg_node_id h) \<Longrightarrow> length (seg_covered h) = 56"
  by (simp add: seg_covered_def id16_def)

lemma seg_valid_lengths:
  assumes "seg_valid crc v h"
  shows "length (seg_magic h) = 8" "id16 (seg_node_id h)" "length (seg_covered h) = 56"
  using assms by (simp_all add: seg_valid_def length_seg_covered)

lemma seg_to_le_bytes_concat:
  "length (seg_magic h1) = 8 \<Longrightarrow> id16 (seg_node_id h1) \<Longrightarrow>
   seg_v1_to_le_bytes h1 = seg_covered h1 @ u32_to_le (seg_header_crc32c h1)"
  "length (seg_magic h2) = 8 \<Longrightarrow> id16 (seg_node_id h2) \<Longrightarrow>
   seg_v2_to_le_bytes h2 = seg_covered h2 @ u32_to_le (seg_header_crc32c h2) @ [seg_flags h2]"
  "length (seg_magic h3) = 8 \<Longrightarrow> id16 (seg_node_id h3) \<Longrightarrow>
   seg_v3_to_le_bytes h3 = seg_covered h3 @ u32_to_le (seg_header_crc32c h3) @ [seg_flags h3]
     @ u32_to_le (seg_compaction_epoch h3)"
  by (simp_all add: seg_v1_to_le_bytes_def seg_v2_to_le_bytes_def seg_v3_to_le_bytes_def Let_def
      seg_lens seg_put_fields_covered put_def length_seg_covered)

text \<open>The fields every version reads from its first 60 bytes.\<close>

lemma seg_fields:
  assumes "length (seg_magic h) = 8" "id16 (seg_node_id h)"
    and b: "b = seg_covered h @ u32_to_le c @ rest"
  shows "subslice 0 8 b = seg_magic h" "subslice 8 12 b = u32_to_le (seg_format_version h)"
    "subslice 12 16 b = u32_to_le (seg_generation h)" "subslice 16 24 b = u64_to_le (seg_seq h)"
    "subslice 24 32 b = u64_to_le (seg_first_event_id h)"
    "subslice 32 40 b = u64_to_le (seg_start_ts_ns h)" "subslice 40 56 b = seg_node_id h"
    "subslice 56 60 b = u32_to_le c" "subslice 0 56 b = seg_covered h"
    "60 \<le> length b" "drop 60 b = rest" "take 60 b = seg_covered h @ u32_to_le c"
  using assms(1,2) unfolding b seg_covered_def id16_def by (simp_all add: subslice_def)

text \<open>Conversely, 60 bytes with these fields are the encoding of the fields.\<close>

lemma seg_fields_concat:
  assumes "60 \<le> length b"
  shows "take 60 b = subslice 0 8 b @ subslice 8 12 b @ subslice 12 16 b @ subslice 16 24 b
    @ subslice 24 32 b @ subslice 32 40 b @ subslice 40 56 b @ subslice 56 60 b"
proof -
  have "take 60 b = subslice 0 60 b" by (simp add: subslice_def)
  also have "\<dots> = concat (cut_at [0, 8, 12, 16, 24, 32, 40, 56, 60] b)"
    by (subst concat_cut_at) simp_all
  finally show ?thesis by simp
qed

lemma seg_from_to_le_bytes:
  "seg_valid crc SEGMENT_FORMAT_VERSION_V1 h1 \<Longrightarrow>
   seg_v1_from_le_bytes crc (seg_v1_to_le_bytes h1) = Ok h1"
  "seg_valid crc SEGMENT_FORMAT_VERSION_V2 h2 \<Longrightarrow>
   seg_v2_from_le_bytes crc (seg_v2_to_le_bytes h2) = Ok h2"
  "seg_valid crc SEGMENT_FORMAT_VERSION h3 \<Longrightarrow>
   seg_v3_from_le_bytes crc (seg_v3_to_le_bytes h3) = Ok h3"
proof -
  assume v: "seg_valid crc SEGMENT_FORMAT_VERSION_V1 h1"
  note l = seg_valid_lengths [OF v]
  show "seg_v1_from_le_bytes crc (seg_v1_to_le_bytes h1) = Ok h1"
    unfolding seg_to_le_bytes_concat(1) [OF l(1,2)] seg_v1_from_le_bytes_def Let_def seg_lens
    using v by (simp add: seg_fields [OF l(1,2), of _ _ "[]"] seg_valid_def)
next
  assume v: "seg_valid crc SEGMENT_FORMAT_VERSION_V2 h2"
  note l = seg_valid_lengths [OF v]
  show "seg_v2_from_le_bytes crc (seg_v2_to_le_bytes h2) = Ok h2"
    unfolding seg_to_le_bytes_concat(2) [OF l(1,2)] seg_v2_from_le_bytes_def Let_def seg_lens
    using v l(3) by (simp add: seg_fields [OF l(1,2)] seg_valid_def nth_append)
next
  assume v: "seg_valid crc SEGMENT_FORMAT_VERSION h3"
  note l = seg_valid_lengths [OF v]
  have "subslice 61 65 (seg_v3_to_le_bytes h3) = u32_to_le (seg_compaction_epoch h3)"
    unfolding seg_to_le_bytes_concat(3) [OF l(1,2)] by (simp add: subslice_def l(3))
  then show "seg_v3_from_le_bytes crc (seg_v3_to_le_bytes h3) = Ok h3"
    unfolding seg_to_le_bytes_concat(3) [OF l(1,2)] seg_v3_from_le_bytes_def Let_def seg_lens
    using v l(3) by (simp add: seg_fields [OF l(1,2)] seg_valid_def nth_append)
qed

text \<open>An accepted header has the version the parser asked for and re-encodes to its bytes.\<close>

lemma seg_accepted:
  assumes len: "60 \<le> length b"
    and f: "seg_magic h = subslice 0 8 b" "seg_format_version h = u32_of_le (subslice 8 12 b)"
    "seg_generation h = u32_of_le (subslice 12 16 b)" "seg_seq h = u64_of_le (subslice 16 24 b)"
    "seg_first_event_id h = u64_of_le (subslice 24 32 b)"
    "seg_start_ts_ns h = u64_of_le (subslice 32 40 b)" "seg_node_id h = subslice 40 56 b"
    "seg_header_crc32c h = u32_of_le (subslice 56 60 b)"
    and ok: "subslice 0 8 b = SEGMENT_MAGIC" "u32_of_le (subslice 8 12 b) = v"
    "crc (subslice 0 56 b) = u32_of_le (subslice 56 60 b)"
  shows "seg_valid crc v h" and "seg_covered h @ u32_to_le (seg_header_crc32c h) = take 60 b"
proof -
  have whole: "seg_covered h @ u32_to_le (seg_header_crc32c h) = take 60 b"
    using len by (simp add: seg_covered_def f to_le_of_le seg_fields_concat [OF len])
  have lens: "length (seg_magic h) = 8" "id16 (seg_node_id h)"
    using len by (simp_all add: f id16_def)
  then have "seg_covered h = take 56 (seg_covered h @ u32_to_le (seg_header_crc32c h))"
    by (simp add: length_seg_covered)
  then have "seg_covered h = subslice 0 56 b"
    by (simp add: whole subslice_def)
  with ok lens show "seg_valid crc v h"
    by (simp add: seg_valid_def f)
  show "seg_covered h @ u32_to_le (seg_header_crc32c h) = take 60 b" by (fact whole)
qed

lemma seg_v1_accepted:
  assumes "length b = SEGMENT_HEADER_LEN" "seg_v1_from_le_bytes crc b = Ok h"
  shows "seg_valid crc SEGMENT_FORMAT_VERSION_V1 h" "seg_v1_to_le_bytes h = b"
proof -
  have len: "60 \<le> length b" "take 60 b = b" using assms(1) by (simp_all add: seg_lens)
  have acc: "seg_valid crc SEGMENT_FORMAT_VERSION_V1 h \<and>
      seg_covered h @ u32_to_le (seg_header_crc32c h) = take 60 b"
    using assms(2) seg_accepted [OF len(1), of h SEGMENT_FORMAT_VERSION_V1 crc]
    by (auto simp: seg_v1_from_le_bytes_def Let_def seg_lens split: if_splits)
  then show v: "seg_valid crc SEGMENT_FORMAT_VERSION_V1 h" by simp
  show "seg_v1_to_le_bytes h = b"
    using acc seg_to_le_bytes_concat(1) [OF seg_valid_lengths(1,2) [OF v]] len(2) by simp
qed

lemma seg_v2_accepted:
  assumes "length b = SEGMENT_HEADER_V2_LEN" "seg_v2_from_le_bytes crc b = Ok h"
  shows "seg_valid crc SEGMENT_FORMAT_VERSION_V2 h" "seg_v2_to_le_bytes h = b"
proof -
  have len: "60 \<le> length b" "length b = 61" using assms(1) by (simp_all add: seg_lens)
  have acc: "seg_valid crc SEGMENT_FORMAT_VERSION_V2 h \<and>
      seg_covered h @ u32_to_le (seg_header_crc32c h) = take 60 b" and fl: "seg_flags h = b ! 60"
    using assms(2) seg_accepted [OF len(1), of h SEGMENT_FORMAT_VERSION_V2 crc]
    by (auto simp: seg_v2_from_le_bytes_def Let_def seg_lens split: if_splits)
  then show v: "seg_valid crc SEGMENT_FORMAT_VERSION_V2 h" by simp
  have "seg_v2_to_le_bytes h = take 60 b @ [b ! 60]"
    using acc fl seg_to_le_bytes_concat(2) [OF seg_valid_lengths(1,2) [OF v]] by simp
  then show "seg_v2_to_le_bytes h = b"
    using len(2) by (simp flip: take_Suc_conv_app_nth)
qed

lemma seg_v3_accepted:
  assumes "length b = SEGMENT_HEADER_V3_LEN" "seg_v3_from_le_bytes crc b = Ok h"
  shows "seg_valid crc SEGMENT_FORMAT_VERSION h" "seg_v3_to_le_bytes h = b"
proof -
  have len: "60 \<le> length b" "length b = 65" using assms(1) by (simp_all add: seg_lens)
  have acc: "seg_valid crc SEGMENT_FORMAT_VERSION h \<and>
      seg_covered h @ u32_to_le (seg_header_crc32c h) = take 60 b" and fl: "seg_flags h = b ! 60"
    and ep: "seg_compaction_epoch h = u32_of_le (subslice 61 65 b)"
    using assms(2) seg_accepted [OF len(1), of h SEGMENT_FORMAT_VERSION crc]
    by (auto simp: seg_v3_from_le_bytes_def Let_def seg_lens split: if_splits)
  then show v: "seg_valid crc SEGMENT_FORMAT_VERSION h" by simp
  have "seg_v3_to_le_bytes h = take 60 b @ [b ! 60] @ subslice 61 65 b"
    using acc fl ep seg_to_le_bytes_concat(3) [OF seg_valid_lengths(1,2) [OF v]] len
    by (simp add: to_le_of_le)
  also have "\<dots> = concat (cut_at [0, 60, 61, 65] b)"
    using len by (simp add: subslice_nth) (simp add: subslice_def)
  also have "\<dots> = b"
    by (subst concat_cut_at) (simp_all add: subslice_full len)
  finally show "seg_v3_to_le_bytes h = b" .
qed

lemma seg_to_le_lengths:
  "seg_valid crc v1 h1 \<Longrightarrow> length (seg_v1_to_le_bytes h1) = SEGMENT_HEADER_LEN"
  "seg_valid crc v2 h2 \<Longrightarrow> length (seg_v2_to_le_bytes h2) = SEGMENT_HEADER_V2_LEN"
  "seg_valid crc v3 h3 \<Longrightarrow> length (seg_v3_to_le_bytes h3) = SEGMENT_HEADER_V3_LEN"
  by (simp_all add: seg_to_le_bytes_concat seg_valid_lengths seg_lens)

interpretation seg1: byte_codec seg_v1_to_le_bytes "seg_v1_from_le_bytes crc"
  "seg_valid crc SEGMENT_FORMAT_VERSION_V1" SEGMENT_HEADER_LEN for crc
  by unfold_locales (auto simp: seg_from_to_le_bytes seg_v1_accepted seg_to_le_lengths)

interpretation seg2: byte_codec seg_v2_to_le_bytes "seg_v2_from_le_bytes crc"
  "seg_valid crc SEGMENT_FORMAT_VERSION_V2" SEGMENT_HEADER_V2_LEN for crc
  by unfold_locales (auto simp: seg_from_to_le_bytes seg_v2_accepted seg_to_le_lengths)

interpretation seg3: byte_codec seg_v3_to_le_bytes "seg_v3_from_le_bytes crc"
  "seg_valid crc SEGMENT_FORMAT_VERSION" SEGMENT_HEADER_V3_LEN for crc
  by unfold_locales (auto simp: seg_from_to_le_bytes seg_v3_accepted seg_to_le_lengths)

section \<open>Constructors and the version dispatch\<close>

lemma seg_new_valid:
  assumes "id16 node"
  shows "seg_valid crc SEGMENT_FORMAT_VERSION_V1 (seg_v1_new crc g s e t node)"
    "seg_valid crc SEGMENT_FORMAT_VERSION_V2 (seg_v2_new crc g s e t node fl)"
    "seg_valid crc SEGMENT_FORMAT_VERSION (seg_v3_new crc g s e t node fl ep)"
  using assms
  by (simp_all add: seg_valid_def seg_v1_new_def seg_v2_new_def seg_v3_new_def Let_def
      seg_v1_compute_crc_def seg_v2_compute_crc_def seg_v3_compute_crc_def
      seg_put_fields_covered seg_lens)
    (simp_all add: seg_covered_def)

text \<open>The wire form of a parsed header, with the version its constructor says.\<close>

fun seg_encode :: "parsed_segment_header \<Rightarrow> bytes" where
  "seg_encode (V1 h) = seg_v1_to_le_bytes h"
| "seg_encode (V2 h) = seg_v2_to_le_bytes h"
| "seg_encode (V3 h) = seg_v3_to_le_bytes h"

fun parsed_valid :: "(bytes \<Rightarrow> u32) \<Rightarrow> parsed_segment_header \<Rightarrow> bool" where
  "parsed_valid crc (V1 h) = seg_valid crc SEGMENT_FORMAT_VERSION_V1 h"
| "parsed_valid crc (V2 h) = seg_valid crc SEGMENT_FORMAT_VERSION_V2 h"
| "parsed_valid crc (V3 h) = seg_valid crc SEGMENT_FORMAT_VERSION h"

lemma seg_encode_length: "parsed_valid crc p \<Longrightarrow> length (seg_encode p) = parsed_header_len p"
  by (cases p) (auto simp: seg_to_le_lengths)

lemma parsed_header_len_bounds: "60 \<le> parsed_header_len p" "parsed_header_len p \<le> 65"
  by (cases p; simp add: seg_lens)+

lemma seg_encode_prefix:
  assumes "parsed_valid crc p"
  shows "subslice 0 8 (seg_encode p @ body) = SEGMENT_MAGIC"
    "u32_of_le (subslice 8 12 (seg_encode p @ body)) = parsed_format_version p"
  using assms seg_fields(1,2) seg_valid_lengths
  by (cases p; simp add: seg_to_le_bytes_concat seg_valid_lengths seg_fields [OF _ _ refl]
      seg_valid_def)+

lemma parsed_version_cases:
  "parsed_valid crc p \<Longrightarrow> parsed_format_version p =
     (case p of V1 _ \<Rightarrow> SEGMENT_FORMAT_VERSION_V1 | V2 _ \<Rightarrow> SEGMENT_FORMAT_VERSION_V2
      | V3 _ \<Rightarrow> SEGMENT_FORMAT_VERSION)"
  by (cases p) (auto simp: seg_valid_def)

text \<open>A file that starts with an encoded header of any version is dispatched to that version.\<close>

lemma parse_seg_encode:
  assumes "parsed_valid crc p"
  shows "parse_segment_header crc (seg_encode p @ body) = Ok p"
proof -
  note pre = seg_encode_prefix [OF assms, of body] and len = seg_encode_length [OF assms]
    and ver = parsed_version_cases [OF assms]
  show ?thesis
  proof (cases p)
    case (V1 h)
    with assms pre len ver seg1.dec_enc [of crc h] show ?thesis
      by (simp add: parse_segment_header_def Let_def)
  next
    case (V2 h)
    with assms pre len ver seg2.dec_enc [of crc h] show ?thesis
      by (simp add: parse_segment_header_def Let_def seg_versions seg_lens)
  next
    case (V3 h)
    with assms pre len ver seg3.dec_enc [of crc h] show ?thesis
      by (simp add: parse_segment_header_def Let_def seg_versions seg_lens)
  qed
qed

lemma parse_seg_Ok:
  assumes "parse_segment_header crc raw = Ok p"
  shows "parsed_valid crc p" "parsed_header_len p \<le> length raw"
    "seg_encode p = take (parsed_header_len p) raw"
proof -
  have "parsed_valid crc p \<and> parsed_header_len p \<le> length raw
      \<and> seg_encode p = take (parsed_header_len p) raw"
  proof (cases p)
    case (V1 h)
    with assms show ?thesis
      using seg_v1_accepted [of "take SEGMENT_HEADER_LEN raw" crc h]
      by (auto simp: parse_segment_header_def Let_def split: if_splits sum.splits)
  next
    case (V2 h)
    with assms show ?thesis
      using seg_v2_accepted [of "take SEGMENT_HEADER_V2_LEN raw" crc h]
      by (auto simp: parse_segment_header_def Let_def split: if_splits sum.splits)
  next
    case (V3 h)
    with assms show ?thesis
      using seg_v3_accepted [of "take SEGMENT_HEADER_V3_LEN raw" crc h]
      by (auto simp: parse_segment_header_def Let_def split: if_splits sum.splits)
  qed
  then show "parsed_valid crc p" "parsed_header_len p \<le> length raw"
    "seg_encode p = take (parsed_header_len p) raw" by simp_all
qed

lemma parse_seg_iff:
  "parse_segment_header crc raw = Ok p \<longleftrightarrow>
     parsed_valid crc p \<and> (\<exists>body. raw = seg_encode p @ body)"
  by (metis append_take_drop_id parse_seg_Ok(1,3) parse_seg_encode)

text \<open>
  The flags byte and the compaction epoch lie outside the CRC window: overwriting them in
  place keeps the header acceptable.
\<close>

lemma seg_valid_uncovered [simp]:
  "seg_valid crc v (h2\<lparr>seg_flags := fl\<rparr>) = seg_valid crc v h2"
  "seg_valid crc v (h3\<lparr>seg_compaction_epoch := ep\<rparr>) = seg_valid crc v h3"
  by (simp_all add: seg_valid_def seg_covered_def)

lemma seg_v3_bump_epoch_in_place:
  assumes "seg_valid crc SEGMENT_FORMAT_VERSION h"
  shows "put 61 (u32_to_le ep) (seg_v3_to_le_bytes h) = seg_v3_to_le_bytes (h\<lparr>seg_compaction_epoch := ep\<rparr>)"
proof -
  have "seg_covered (h\<lparr>seg_compaction_epoch := ep\<rparr>) = seg_covered h" by (simp add: seg_covered_def)
  then show ?thesis
    using seg_valid_lengths [OF assms] by (simp add: seg_to_le_bytes_concat put_def)
qed

section \<open>Properties\<close>

text \<open>
  The version dispatch accepts a file exactly when the file starts with the
  serialisation of a valid v1, v2 or v3 header, and then returns that header. The three
  layouts never shadow each other.
\<close>

theorem segment_header_dispatch:
  "parse_segment_header crc raw = Ok p \<longleftrightarrow>
     parsed_valid crc p \<and> (\<exists>body. raw = seg_encode p @ body)"
  by (rule parse_seg_iff)

text \<open>
  Rewriting the epoch bytes of an accepted v3 segment in place changes the parsed
  epoch and nothing else, without recomputing the checksum; so does rewriting the flags byte.
\<close>

theorem epoch_and_flags_update_in_place:
  assumes "parse_segment_header crc raw = Ok (V3 h)"
  shows "parse_segment_header crc (put 61 (u32_to_le ep) raw) = Ok (V3 (h\<lparr>seg_compaction_epoch := ep\<rparr>))
    \<and> parse_segment_header crc (put 60 [fl] raw) = Ok (V3 (h\<lparr>seg_flags := fl\<rparr>))"
proof -
  from assms obtain body where v: "seg_valid crc SEGMENT_FORMAT_VERSION h"
    and raw: "raw = seg_v3_to_le_bytes h @ body" by (auto simp: parse_seg_iff)
  have cov: "seg_covered (h\<lparr>seg_compaction_epoch := ep\<rparr>) = seg_covered h"
    "seg_covered (h\<lparr>seg_flags := fl\<rparr>) = seg_covered h" by (simp_all add: seg_covered_def)
  note l = seg_valid_lengths [OF v]
  have "put 61 (u32_to_le ep) raw = seg_v3_to_le_bytes (h\<lparr>seg_compaction_epoch := ep\<rparr>) @ body"
    "put 60 [fl] raw = seg_v3_to_le_bytes (h\<lparr>seg_flags := fl\<rparr>) @ body"
    unfolding raw using l by (simp_all add: seg_to_le_bytes_concat put_def cov)
  moreover have "seg_valid crc SEGMENT_FORMAT_VERSION (h\<lparr>seg_flags := fl\<rparr>)"
    using v cov by (simp add: seg_valid_def)
  ultimately show ?thesis
    using v parse_seg_encode [of crc "V3 (h\<lparr>seg_compaction_epoch := ep\<rparr>)" body]
      parse_seg_encode [of crc "V3 (h\<lparr>seg_flags := fl\<rparr>)" body] by simp
qed

theorem epoch_and_flags_update_in_place_witness:
  "\<exists>raw h. parse_segment_header (\<lambda>bs. word_of_nat (length bs)) raw = Ok (V3 h)
     \<and> parse_segment_header (\<lambda>bs. word_of_nat (length bs)) (put 61 (u32_to_le 7) raw)
         = Ok (V3 (h\<lparr>seg_compaction_epoch := 7\<rparr>))"
proof -
  let ?crc = "\<lambda>bs. word_of_nat (length bs) :: u32"
  let ?h = "seg_v3_new ?crc 1 1 0 0 (replicate 16 0) 0 0"
  have "parse_segment_header ?crc (seg_v3_to_le_bytes ?h @ []) = Ok (V3 ?h)"
    using parse_seg_encode [of ?crc "V3 ?h" "[]"] seg_new_valid(3) [of "replicate 16 0" ?crc]
    by (simp add: id16_def)
  then show ?thesis using epoch_and_flags_update_in_place by blast
qed

end
