(* ===== verification/Wal_Recovery.thy ===== *)
theory Wal_Recovery
  imports Wal_Builder Wal_Segment
begin

text \<open>
  The torn-tail scan that runs when the writer reopens a segment (\<open>wal/recovery.rs\<close>).
  The locale \<open>framed_log\<close> is the contract between the frame codec and a scan of an
  append-only log; \<open>good_prefix\<close> is the abstract specification of such a scan, and
  \<open>scan_tail\<close> is shown to compute it. Buffer offsets (\<open>usize\<close>) are natural numbers,
  with the 64-bit limit of \<open>checked_add\<close> written out.
\<close>

section \<open>The scan\<close>

definition MAX_PAYLOAD_BYTES :: nat where "MAX_PAYLOAD_BYTES = 16 * 1024 * 1024"
definition MIN_FRAME_LEN :: nat where "MIN_FRAME_LEN = PREAMBLE_LEN + HEADER_BODY_LEN + CRC_LEN"
definition MAX_FRAME_LEN :: nat where
  "MAX_FRAME_LEN = PREAMBLE_LEN + HEADER_BODY_LEN + MAX_PAYLOAD_BYTES + CRC_LEN"

lemmas frame_bounds = MIN_FRAME_LEN_def MAX_FRAME_LEN_def MAX_PAYLOAD_BYTES_def wal_lens

datatype scan_result =
    Clean (sr_through: nat)
  | TornAt (sr_good_through: nat) (sr_torn_at: nat)

fun resume_offset :: "scan_result \<Rightarrow> nat" where
  "resume_offset (Clean through) = through"
| "resume_offset (TornAt good_through _) = good_through"

fun is_torn :: "scan_result \<Rightarrow> bool" where
  "is_torn (Clean _) = False"
| "is_torn (TornAt _ _) = True"

text \<open>The \<open>while\<close> loop, with its two mutable variables.\<close>

function scan_loop :: "(bytes \<Rightarrow> u32) \<Rightarrow> bytes \<Rightarrow> nat \<Rightarrow> nat \<Rightarrow> scan_result" where
  "scan_loop crc segment_bytes offset last_good =
     (if offset < length segment_bytes then
        (let slice = drop offset segment_bytes
         in if length slice < MIN_FRAME_LEN then TornAt last_good offset
            else case decode_frame crc slice of
                   Inr decoded \<Rightarrow>
                     (let total = unat (total_len (df_header decoded))
                      in if \<not> (MIN_FRAME_LEN \<le> total \<and> total \<le> MAX_FRAME_LEN)
                           then TornAt last_good offset
                         else if 2 ^ 64 \<le> offset + total \<or> length segment_bytes < offset + total
                           then TornAt last_good offset
                         else scan_loop crc segment_bytes (offset + total) (offset + total))
                 | Inl _ \<Rightarrow> TornAt last_good offset)
      else Clean last_good)"
  by pat_completeness auto

termination
  by (relation "measure (\<lambda>(crc, bs, offset, last_good). length bs - offset)")
    (auto simp: frame_bounds)

declare scan_loop.simps [simp del]

definition scan_header_len :: "(bytes \<Rightarrow> u32) \<Rightarrow> bytes \<Rightarrow> nat" where
  "scan_header_len crc segment_bytes =
     (case parse_segment_header crc segment_bytes of
        Inl _ \<Rightarrow> SEGMENT_HEADER_LEN | Inr h \<Rightarrow> parsed_header_len h)"

definition scan_tail :: "(bytes \<Rightarrow> u32) \<Rightarrow> bytes \<Rightarrow> scan_result" where
  "scan_tail crc segment_bytes =
     (if length segment_bytes < SEGMENT_HEADER_LEN then Clean (length segment_bytes)
      else let header_len = scan_header_len crc segment_bytes
           in scan_loop crc segment_bytes header_len header_len)"

section \<open>Specification of a log scan\<close>

text \<open>
  \<open>nxt b\<close> is the length of the whole record at the start of \<open>b\<close>, if there is one;
  \<open>good_prefix nxt b\<close> is where a scan that trusts \<open>nxt\<close> stops.
\<close>

function good_prefix :: "('b list \<Rightarrow> nat option) \<Rightarrow> 'b list \<Rightarrow> nat" where
  "good_prefix nxt b =
     (case nxt b of
        None \<Rightarrow> 0
      | Some n \<Rightarrow> (if 0 < n \<and> n \<le> length b then n + good_prefix nxt (drop n b) else 0))"
  by pat_completeness auto

termination
  by (relation "measure (\<lambda>(nxt, b). length b)") auto

declare good_prefix.simps [simp del]

locale framed_log =
  fixes nxt :: "'b list \<Rightarrow> nat option" and enc :: "'f \<Rightarrow> 'b list" and ok :: "'f \<Rightarrow> bool"
  assumes nxt_enc: "ok f \<Longrightarrow> nxt (enc f @ rest) = Some (length (enc f))"
    and nxt_torn: "ok f \<Longrightarrow> k < length (enc f) \<Longrightarrow> nxt (take k (enc f)) = None"
    and nxt_bounds: "nxt b = Some n \<Longrightarrow> 0 < n \<and> n \<le> length b"
    and nxt_local: "nxt b = Some n \<Longrightarrow> nxt (take n b @ rest) = Some n"
begin

lemma good_prefix_step: "good_prefix nxt b = (case nxt b of None \<Rightarrow> 0 | Some n \<Rightarrow> n + good_prefix nxt (drop n b))"
  using nxt_bounds [of b] by (subst good_prefix.simps) (auto split: option.splits)

lemma good_prefix_le: "good_prefix nxt b \<le> length b"
proof (induction b rule: length_induct)
  case (1 b)
  show ?case
  proof (cases "nxt b")
    case None
    then show ?thesis by (simp add: good_prefix_step)
  next
    case (Some n)
    with nxt_bounds [of b n] have "0 < n" "n \<le> length b" by simp_all
    with 1 have "good_prefix nxt (drop n b) \<le> length b - n"
      by (metis diff_less length_drop less_le_trans)
    with Some \<open>n \<le> length b\<close> show ?thesis by (subst good_prefix_step) simp
  qed
qed

text \<open>Whatever is appended after the good prefix is read next.\<close>

lemma good_prefix_append: "good_prefix nxt (take (good_prefix nxt b) b @ r) = good_prefix nxt b + good_prefix nxt r"
proof (induction b rule: length_induct)
  case (1 b)
  show ?case
  proof (cases "nxt b")
    case None
    then show ?thesis by (simp add: good_prefix_step [of b])
  next
    case (Some n)
    with nxt_bounds [of b n] have n: "0 < n" "n \<le> length b" by simp_all
    have g: "good_prefix nxt b = n + good_prefix nxt (drop n b)"
      using Some by (simp add: good_prefix_step [of b])
    have sp: "take (good_prefix nxt b) b @ r
        = take n b @ (take (good_prefix nxt (drop n b)) (drop n b) @ r)"
      by (simp add: g take_add)
    have "good_prefix nxt (take n b @ (take (good_prefix nxt (drop n b)) (drop n b) @ r))
        = n + good_prefix nxt (take (good_prefix nxt (drop n b)) (drop n b) @ r)"
      using nxt_local [OF Some] n by (subst good_prefix_step) simp
    also have "\<dots> = n + (good_prefix nxt (drop n b) + good_prefix nxt r)"
      using 1 n by simp
    finally show ?thesis using sp g by simp
  qed
qed

lemma good_prefix_idem: "good_prefix nxt (take (good_prefix nxt b) b) = good_prefix nxt b"
proof -
  have "nxt [] = None" using nxt_bounds [of "[]"] by (cases "nxt []") auto
  then have "good_prefix nxt [] = 0" by (simp add: good_prefix_step)
  with good_prefix_append [of b "[]"] show ?thesis by simp
qed

lemma good_prefix_frames:
  "\<forall>f \<in> set fs. ok f \<Longrightarrow>
   good_prefix nxt (concat (map enc fs) @ rest) = length (concat (map enc fs)) + good_prefix nxt rest"
proof (induction fs)
  case (Cons f fs)
  then have "nxt (enc f @ concat (map enc fs) @ rest) = Some (length (enc f))"
    by (simp add: nxt_enc)
  with Cons show ?case by (simp add: good_prefix_step [of "enc f @ _"])
qed simp

lemma good_prefix_torn:
  assumes "\<forall>f \<in> set fs. ok f" and "ok g" and "k < length (enc g)"
  shows "good_prefix nxt (concat (map enc fs) @ take k (enc g)) = length (concat (map enc fs))"
  using assms by (simp add: good_prefix_frames good_prefix_step [of "take k (enc g)"] nxt_torn)

end

section \<open>The frame codec provides the contract\<close>

definition next_frame :: "(bytes \<Rightarrow> u32) \<Rightarrow> bytes \<Rightarrow> nat option" where
  "next_frame crc b =
     (case decode_frame crc b of
        Inl _ \<Rightarrow> None
      | Inr d \<Rightarrow> (let total = unat (total_len (df_header d)) in
          if MIN_FRAME_LEN \<le> total \<and> total \<le> MAX_FRAME_LEN then Some total else None))"

text \<open>A frame the writer may append: what \<open>encode_frame\<close> returns for a valid header.\<close>

definition frame_bytes :: "(bytes \<Rightarrow> u32) \<Rightarrow> event_header \<times> bytes \<Rightarrow> bytes" where
  "frame_bytes crc f = (case encode_frame crc (fst f) (snd f) of None \<Rightarrow> [] | Some bs \<Rightarrow> bs)"

definition frame_ok :: "(bytes \<Rightarrow> u32) \<Rightarrow> event_header \<times> bytes \<Rightarrow> bool" where
  "frame_ok crc f \<longleftrightarrow> header_valid (fst f) \<and> encode_frame crc (fst f) (snd f) \<noteq> None
     \<and> unat (total_len (fst f)) \<le> MAX_FRAME_LEN"

lemma frame_okD:
  assumes "frame_ok crc f"
  shows "header_valid (fst f)" "encode_frame crc (fst f) (snd f) = Some (frame_bytes crc f)"
    "length (frame_bytes crc f) = unat (total_len (fst f))"
    "MIN_FRAME_LEN \<le> unat (total_len (fst f))" "unat (total_len (fst f)) \<le> MAX_FRAME_LEN"
  using assms encode_frame_length [of crc "fst f" "snd f"]
  by (auto simp: frame_ok_def frame_bytes_def header_valid_def frame_bounds split: option.splits)

lemma decode_frame_short: "length b < 104 \<Longrightarrow> \<exists>e. decode_frame crc b = Err e"
  by (simp add: decode_frame_def wal_lens)

lemma subslice_take_append: "e \<le> n \<Longrightarrow> n \<le> length b \<Longrightarrow> subslice a e (take n b @ r) = subslice a e b"
proof -
  assume "e \<le> n" "n \<le> length b"
  then have "subslice a e (take n b @ r) = subslice a e (take n b)"
    and "subslice a e (take n b @ drop n b) = subslice a e (take n b)"
    by (simp_all only: subslice_append_left length_take min_absorb2)
  then show ?thesis by simp
qed

text \<open>Decoding looks at nothing behind the frame.\<close>

lemma decode_frame_local:
  assumes "decode_frame crc b = Ok d" and n: "n = unat (total_len (df_header d))"
  shows "decode_frame crc (take n b @ r) = Ok d"
proof -
  note D = decode_frame_OkD [OF assms(1), folded n]
  let ?h = "df_header d"
  have h: "header_from_le_bytes (subslice 4 100 b) = Ok ?h" "subslice 0 4 b = MAGIC"
    using assms(1) by (auto simp: decode_frame_def Let_def wal_lens split: if_splits sum.splits)
  have le: "100 + unat (reserved_len ?h) + unat (payload_len ?h) \<le> n" using D(3) by simp
  define c where "c = take n b @ r"
  have sl: "subslice a e c = subslice a e b" and tk: "take e c = take e b" if "e \<le> n" for a e
    unfolding c_def using that D(2) by (simp_all add: subslice_take_append)
  have lc: "n \<le> length c" using D(2) by (simp add: c_def)
  have pre: "\<not> length c < 104" "header_from_le_bytes (subslice 4 100 c) = Ok ?h" "subslice 0 4 c = MAGIC"
    using lc D(3) h by (simp_all add: sl)
  have "decode_frame crc c = Ok \<lparr>df_header = ?h, df_payload = df_payload d\<rparr>"
    using pre lc D(3,6,7) le sl tk
    by (simp add: decode_frame_def wal_lens Let_def add.assoc)
  then show ?thesis by (simp add: c_def)
qed

interpretation wal_log: framed_log "next_frame crc" "frame_bytes crc" "frame_ok crc" for crc
proof unfold_locales
  fix f and rest :: bytes assume ok: "frame_ok crc f"
  from frame_okD [OF this] show "next_frame crc (frame_bytes crc f @ rest) = Some (length (frame_bytes crc f))"
    using decode_encode_frame [of "fst f" crc "snd f" "frame_bytes crc f" rest]
    by (simp add: next_frame_def)
next
  fix f k assume "frame_ok crc f" and "k < length (frame_bytes crc f)"
  with frame_okD [of crc f] show "next_frame crc (take k (frame_bytes crc f)) = None"
    by (simp add: next_frame_def decode_frame_torn)
next
  fix b n assume "next_frame crc b = Some n"
  then show "0 < n \<and> n \<le> length b"
    using decode_frame_OkD(2) [of crc b]
    by (auto simp: next_frame_def Let_def frame_bounds split: sum.splits if_splits)
next
  fix b n and rest :: bytes assume "next_frame crc b = Some n"
  then show "next_frame crc (take n b @ rest) = Some n"
    using decode_frame_local [of crc b _ n rest]
    by (auto simp: next_frame_def Let_def split: sum.splits if_splits)
qed

section \<open>The scan computes the specification\<close>

lemma scan_loop_good_prefix:
  fixes crc :: "bytes \<Rightarrow> u32" and bs :: bytes
  assumes "off \<le> length bs" "length bs < 2 ^ 64"
  defines "g \<equiv> off + good_prefix (next_frame crc) (drop off bs)"
  shows "scan_loop crc bs off off = (if g = length bs then Clean g else TornAt g g)"
  using assms(1) unfolding g_def
proof (induction "length bs - off" arbitrary: off rule: less_induct)
  case less
  show ?case
  proof (cases "next_frame crc (drop off bs)")
    case None
    have g: "good_prefix (next_frame crc) (drop off bs) = 0"
      using None by (simp add: wal_log.good_prefix_step)
    have "scan_loop crc bs off off = (if off < length bs then TornAt off off else Clean off)"
      using None by (subst scan_loop.simps)
        (auto simp: next_frame_def Let_def split: sum.splits if_splits)
    with g less.prems show ?thesis by auto
  next
    case (Some n)
    note b = wal_log.nxt_bounds [OF Some]
    have "scan_loop crc bs off off = scan_loop crc bs (off + n) (off + n)"
      using Some b less.prems assms(2) by (subst scan_loop.simps)
        (auto simp: next_frame_def Let_def frame_bounds split: sum.splits if_splits)
    also have "\<dots> = (if off + n + good_prefix (next_frame crc) (drop (off + n) bs) = length bs
        then Clean (off + n + good_prefix (next_frame crc) (drop (off + n) bs))
        else TornAt (off + n + good_prefix (next_frame crc) (drop (off + n) bs))
               (off + n + good_prefix (next_frame crc) (drop (off + n) bs)))"
      using b less.prems by (intro less.hyps) auto
    finally show ?thesis
      using Some by (simp add: wal_log.good_prefix_step [of crc "drop off bs"] add.assoc add.commute [of n])
  qed
qed

lemma scan_header_len_bounds:
  "60 \<le> scan_header_len crc bs" "60 \<le> length bs \<Longrightarrow> scan_header_len crc bs \<le> length bs"
  using parse_seg_Ok(2) [of crc bs] parsed_header_len_bounds
  by (auto simp: scan_header_len_def seg_lens split: sum.splits)

lemma scan_tail_good_prefix:
  fixes crc :: "bytes \<Rightarrow> u32" and bs :: bytes
  assumes "60 \<le> length bs" "length bs < 2 ^ 64"
  defines "g \<equiv> scan_header_len crc bs + good_prefix (next_frame crc) (drop (scan_header_len crc bs) bs)"
  shows "scan_tail crc bs = (if g = length bs then Clean g else TornAt g g)"
  using assms scan_loop_good_prefix [of "scan_header_len crc bs" bs crc] scan_header_len_bounds(2) [of bs crc]
  by (simp add: scan_tail_def Let_def seg_lens)

lemma resume_offset_le: "length bs < 2 ^ 64 \<Longrightarrow> resume_offset (scan_tail crc bs) \<le> length bs"
proof (cases "length bs < 60")
  case False
  assume "length bs < 2 ^ 64"
  with False scan_tail_good_prefix [of bs crc] scan_header_len_bounds(2) [of bs crc]
    wal_log.good_prefix_le [of crc "drop (scan_header_len crc bs) bs"]
  show ?thesis by (auto simp: not_less)
qed (simp add: scan_tail_def seg_lens)

text \<open>The header length does not change when the file is cut or grown behind the header.\<close>

lemma scan_header_len_append:
  assumes "parsed_valid crc p"
  shows "scan_header_len crc (seg_encode p @ body) = parsed_header_len p"
  by (simp add: scan_header_len_def parse_seg_encode [OF assms])

text \<open>
  A segment is a header of any version followed by frames; a crash may leave a proper prefix
  of one more frame behind.
\<close>

definition segment_image :: "(bytes \<Rightarrow> u32) \<Rightarrow> parsed_segment_header \<Rightarrow> (event_header \<times> bytes) list \<Rightarrow> bytes" where
  "segment_image crc p fs = seg_encode p @ concat (map (frame_bytes crc) fs)"

lemma scan_segment_image:
  assumes p: "parsed_valid crc p" and len: "length (seg_encode p @ body) < 2 ^ 64"
  shows "scan_tail crc (seg_encode p @ body) =
     (let g = parsed_header_len p + good_prefix (next_frame crc) body
      in if g = length (seg_encode p @ body) then Clean g else TornAt g g)"
  using scan_tail_good_prefix [of "seg_encode p @ body" crc] len parsed_header_len_bounds(1) [of p]
    seg_encode_length [OF p]
  by (simp add: scan_header_len_append [OF p] Let_def)

lemma length_segment_image:
  "parsed_valid crc p \<Longrightarrow>
   length (segment_image crc p fs) = parsed_header_len p + length (concat (map (frame_bytes crc) fs))"
  by (simp add: segment_image_def seg_encode_length)

section \<open>Properties\<close>

text \<open>
  C1: crash recovery loses exactly the torn frame. For a segment with a header of any
  version, any number of complete frames and then the first \<open>k\<close> bytes of one more
  frame, the scan stops at the end of the last complete frame; it reports a torn tail if and
  only if \<open>k\<close> is not zero. Neither the CRC function nor the content of the torn frame
  matters.
\<close>

theorem scan_stops_at_last_complete_frame:
  assumes "parsed_valid crc p" and "\<forall>f \<in> set fs. frame_ok crc f"
    and "frame_ok crc g" and "k < length (frame_bytes crc g)"
    and "length (segment_image crc p fs) + k < 2 ^ 64"
  defines "good \<equiv> length (segment_image crc p fs)"
  shows "scan_tail crc (segment_image crc p fs @ take k (frame_bytes crc g)) =
     (if k = 0 then Clean good else TornAt good good)"
proof -
  let ?body = "concat (map (frame_bytes crc) fs) @ take k (frame_bytes crc g)"
  have len: "length (seg_encode p @ ?body) = good + k"
    using assms(4) by (simp add: good_def segment_image_def)
  have gp: "parsed_header_len p + good_prefix (next_frame crc) ?body = good"
    using wal_log.good_prefix_torn [OF assms(2-4)] length_segment_image [OF assms(1)]
    by (simp add: good_def)
  have "scan_tail crc (seg_encode p @ ?body) = (if good = good + k then Clean good else TornAt good good)"
    using scan_segment_image [OF assms(1), of ?body] len assms(5)
    unfolding gp len Let_def good_def by simp
  then show ?thesis by (simp add: segment_image_def)
qed

text \<open>A small header and frame for the concrete instances.\<close>

lemma empty_frame_ok: "frame_ok crc (empty_header, [])"
  using empty_header_valid empty_header_encodes [of crc]
  by (simp add: frame_ok_def) (simp add: empty_header_def frame_bounds)

lemma length_empty_frame: "length (frame_bytes crc (empty_header, [])) = 104"
  using frame_okD(3) [OF empty_frame_ok, of crc] by (simp add: empty_header_def wal_lens)

lemma sample_header_valid: "parsed_valid crc (V1 (seg_v1_new crc 1 1 0 0 (replicate 16 0)))"
  by (simp add: seg_new_valid id16_def)

lemma sample_image_length:
  "length (segment_image crc (V1 (seg_v1_new crc 1 1 0 0 (replicate 16 0))) [(empty_header, [])]) = 164"
  using length_segment_image [OF sample_header_valid, of crc "[(empty_header, [])]"]
  by (simp add: length_empty_frame seg_lens)

theorem scan_stops_at_last_complete_frame_witness:
  "scan_tail (\<lambda>bs. word_of_nat (length bs))
     (segment_image (\<lambda>bs. word_of_nat (length bs))
        (V1 (seg_v1_new (\<lambda>bs. word_of_nat (length bs)) 1 1 0 0 (replicate 16 0))) [(empty_header, [])]
      @ take 50 (frame_bytes (\<lambda>bs. word_of_nat (length bs)) (empty_header, []))) = TornAt 164 164"
  using scan_stops_at_last_complete_frame [OF sample_header_valid,
      where fs = "[(empty_header, [])]" and g = "(empty_header, [])" and k = 50] empty_frame_ok
  by (simp add: sample_image_length length_empty_frame)

text \<open>
  Truncating at the reported offset repairs the segment for good. Whatever bytes follow
  a valid segment header, cutting the file at the resume offset and appending complete frames
  gives a file whose scan is clean up to its last byte: nothing appended after a recovery is
  lost by the next one.
\<close>

theorem truncate_then_append_is_clean:
  assumes p: "parsed_valid crc p" and fs: "\<forall>f \<in> set fs. frame_ok crc f"
    and small: "length (seg_encode p @ body) + length (concat (map (frame_bytes crc) fs)) < 2 ^ 64"
  defines "bs \<equiv> seg_encode p @ body"
  defines "bs' \<equiv> take (resume_offset (scan_tail crc bs)) bs @ concat (map (frame_bytes crc) fs)"
  shows "scan_tail crc bs' = Clean (length bs')"
proof -
  let ?g = "good_prefix (next_frame crc) body" and ?new = "concat (map (frame_bytes crc) fs)"
  have len: "length (seg_encode p) = parsed_header_len p" using p by (rule seg_encode_length)
  have r: "resume_offset (scan_tail crc bs) = parsed_header_len p + ?g"
    using scan_segment_image [OF p, of body] small by (simp add: bs_def Let_def)
  have bs': "bs' = seg_encode p @ (take ?g body @ ?new)"
    unfolding bs'_def r by (simp add: bs_def len)
  have "good_prefix (next_frame crc) ?new = length ?new"
    using wal_log.good_prefix_frames [OF fs, of "[]"] wal_log.good_prefix_le [of crc "[]"] by simp
  then have "good_prefix (next_frame crc) (take ?g body @ ?new) = ?g + length ?new"
    by (simp add: wal_log.good_prefix_append)
  moreover have "length bs' = parsed_header_len p + ?g + length ?new" "length bs' < 2 ^ 64"
    using wal_log.good_prefix_le [of crc body] small by (simp_all add: bs' len)
  ultimately show ?thesis
    using scan_segment_image [OF p, of "take ?g body @ ?new"] by (simp add: Let_def flip: bs')
qed

theorem truncate_then_append_is_clean_witness:
  "\<exists>bs'. scan_tail (\<lambda>bs. word_of_nat (length bs)) bs' = Clean (length bs') \<and> 164 \<le> length bs'"
proof -
  let ?crc = "\<lambda>bs. word_of_nat (length bs) :: u32"
  let ?p = "V1 (seg_v1_new ?crc 1 1 0 0 (replicate 16 0))"
  have "length (seg_encode ?p) = 60"
    using seg_encode_length [OF sample_header_valid, of ?crc] by (simp add: seg_lens)
  moreover have "60 \<le> resume_offset (scan_tail ?crc (seg_encode ?p @ [1, 2, 3]))"
    using scan_segment_image [OF sample_header_valid, of ?crc "[1, 2, 3]"] calculation
    by (simp add: Let_def seg_lens)
  ultimately show ?thesis
    using truncate_then_append_is_clean [OF sample_header_valid [of ?crc],
        where fs = "[(empty_header, [])]" and body = "[1, 2, 3]"] empty_frame_ok length_empty_frame by fastforce
qed

text \<open>
  C20: for an arbitrary file the scan refines the specification: it reports the header
  length plus the longest run of frames that decode and fit, a torn tail if and only if bytes
  remain after that run, and an offset inside the file.
\<close>

theorem scan_tail_refines_good_prefix:
  fixes crc :: "bytes \<Rightarrow> u32"
  assumes "SEGMENT_HEADER_LEN \<le> length bs" and "length bs < 2 ^ 64"
  defines "r \<equiv> scan_tail crc bs"
  shows "resume_offset r = scan_header_len crc bs
      + good_prefix (next_frame crc) (drop (scan_header_len crc bs) bs)
    \<and> (is_torn r \<longleftrightarrow> resume_offset r < length bs) \<and> resume_offset r \<le> length bs"
  using scan_tail_good_prefix [of bs crc] resume_offset_le [of bs crc] assms
  by (auto simp: seg_lens)

theorem scan_tail_refines_good_prefix_witness:
  "is_torn (scan_tail (\<lambda>_. 0) (replicate 61 1)) \<and> resume_offset (scan_tail (\<lambda>_. 0) (replicate 61 1)) = 60"
proof -
  have "SEGMENT_MAGIC ! 0 = 78" by (simp add: SEGMENT_MAGIC_def str_bytes_def)
  then have "replicate 8 1 \<noteq> SEGMENT_MAGIC" by (auto dest: arg_cong [of _ _ "\<lambda>m. m ! 0"])
  then have "is_ok (parse_segment_header (\<lambda>_. 0) (replicate 61 1)) = False"
    by (simp add: parse_segment_header_def subslice_def Let_def)
  then have hl: "scan_header_len (\<lambda>_. 0) (replicate 61 1) = 60"
    by (simp add: scan_header_len_def is_ok_def seg_lens split: sum.splits)
  have "good_prefix (next_frame (\<lambda>_. 0)) [1] = 0"
    by (simp add: wal_log.good_prefix_step next_frame_def decode_frame_def wal_lens)
  with scan_tail_refines_good_prefix [of "replicate 61 1" "\<lambda>_. 0"] hl show ?thesis
    by (simp add: seg_lens)
qed

section \<open>Frames stamped at the epoch\<close>

lemma header_from_bad_hlc:
  assumes v: "header_valid (h\<lparr>hlc := Hlc_EPOCH\<rparr>)" and bad: "\<not> hlc_valid (hlc h)"
  shows "header_from_le_bytes (header_to_le_bytes h)
    = Err (HlcErr (PostEpochLogicalWithoutPhysical (logical (hlc h))))"
proof -
  have ids: "id16 (session_id h)" "id16 (node_id h)"
    and fl: "flags_from_bits (flags h) = Some (flags h)"
    using v by (simp_all add: header_valid_def flags_from_bits_iff)
  have "Hlc_new (physical_ns (hlc h)) (logical (hlc h))
      = Err (PostEpochLogicalWithoutPhysical (logical (hlc h)))"
    using bad by (simp add: Hlc_new_def hlc_valid_def)
  then show ?thesis
    using v unfolding header_from_le_bytes_def Let_def header_fields [OF ids]
    by (simp add: fl header_valid_def)
qed

lemma decode_bad_hlc:
  assumes v: "header_valid (h\<lparr>hlc := Hlc_EPOCH\<rparr>)" and bad: "\<not> hlc_valid (hlc h)"
    and e: "encode_frame crc h p = Some f"
  shows "decode_frame crc (f @ rest) = Err (HlcErr (PostEpochLogicalWithoutPhysical (logical (hlc h))))"
proof -
  have ids: "id16 (session_id h)" "id16 (node_id h)"
    using v by (simp_all add: header_valid_def)
  have lh: "length (header_to_le_bytes h) = 96"
    using ids by (simp add: length_header_to_le_bytes HEADER_BODY_LEN_def)
  obtain tail where f: "f = MAGIC @ header_to_le_bytes h @ tail" and "4 \<le> length tail"
    using e by (auto simp: encode_frame_def Let_def split: if_splits)
  then have "subslice 0 4 (f @ rest) = MAGIC" "subslice 4 100 (f @ rest) = header_to_le_bytes h"
    "\<not> length (f @ rest) < 104"
    by (simp_all add: subslice_def MAGIC_bytes lh)
  with header_from_bad_hlc [OF v bad] show ?thesis
    by (simp add: decode_frame_def wal_lens)
qed

text \<open>
  C40: when the wall clock reads the Unix epoch (the value \<open>now_unix_ns\<close> falls back to for
  an earlier clock) and nothing has advanced the process clock, the builder stamps physical
  time 0 with logical count 1. The frame encodes, but no reader accepts it, and the recovery
  scan truncates the segment in front of it together with every frame after it.
\<close>

theorem epoch_frames_are_unreadable:
  assumes "builder_ok b" and "build xxh3 Hlc_EPOCH 0 b = (h, g)" and "parsed_valid crc p"
    and "length (seg_encode p) + length (hb_payload b) + 104 + length rest < 2 ^ 64"
  shows "\<exists>f. encode_frame crc h (hb_payload b) = Some f
    \<and> decode_frame crc (f @ rest) = Err (HlcErr (PostEpochLogicalWithoutPhysical 1))
    \<and> scan_tail crc (seg_encode p @ f @ rest) = TornAt (parsed_header_len p) (parsed_header_len p)"
proof -
  obtain f where f: "encode_frame crc h (hb_payload b) = Some f"
    using build_encodes [OF assms(1,2)] by blast
  have hlc: "hlc h = Hlc 0 1"
    using build_fields(4,6) [OF assms(1,2)] tick_global_hlc_epoch(1) by simp
  have v: "header_valid (h\<lparr>hlc := Hlc_EPOCH\<rparr>)"
    using assms(1,2) build_fields [OF assms(1,2)] built_importance_valid [of "hb_importance b"]
    by (auto simp: build_def Let_def builder_ok_def header_valid_def wal_lens hlc_valid_def Hlc_EPOCH_def)
  have dec: "decode_frame crc (f @ rest) = Err (HlcErr (PostEpochLogicalWithoutPhysical 1))"
    using decode_bad_hlc [OF v _ f, of rest] hlc tick_global_hlc_epoch(2) by simp
  have lf: "length f = length (hb_payload b) + 104"
    using encode_frame_length [OF f] v build_fields(3) [OF assms(1,2)] by (simp add: header_valid_def)
  have "good_prefix (next_frame crc) (f @ rest) = 0"
    using dec by (simp add: wal_log.good_prefix_step next_frame_def)
  then have "scan_tail crc (seg_encode p @ f @ rest) = TornAt (parsed_header_len p) (parsed_header_len p)"
    using scan_segment_image [OF assms(3), of "f @ rest"] assms(4) lf seg_encode_length [OF assms(3)]
    by (simp add: Let_def)
  with f dec show ?thesis by blast
qed

theorem epoch_frames_are_unreadable_witness:
  "\<exists>h f. encode_frame (\<lambda>_. 0) h [] = Some f
     \<and> decode_frame (\<lambda>_. 0) (f @ []) = Err (HlcErr (PostEpochLogicalWithoutPhysical 1))"
proof -
  let ?p = "V1 (seg_v1_new (\<lambda>_. 0) 1 1 0 0 (replicate 16 0))"
  have "length (seg_encode ?p) = 60"
    using seg_encode_length [OF sample_header_valid, of "\<lambda>_. 0"] by (simp add: seg_lens)
  then show ?thesis
    using epoch_frames_are_unreadable [OF builder_ok_new [of "[]" 1] prod.collapse [symmetric]
        sample_header_valid [of "\<lambda>_. 0"], of "[]" "\<lambda>_. 0"]
    by (auto simp: builder_new_def)
qed

end
