(* ===== verification/Wal_Markers.thy ===== *)
theory Wal_Markers
  imports Wal_Recovery
begin

text \<open>
  Authentication of the log by compaction markers: the rolling window of
  \<open>wal/compaction.rs\<close> and its verification and recovery in \<open>wal/writer.rs\<close>. A marker is a
  frame whose payload names a window of the segment, its number of frames and the HMAC-SHA256 of
  its bytes. \<open>hm key bytes\<close> is the HMAC of the \<open>hmac\<close> crate, \<open>jd\<close> the JSON decoder of marker
  payloads. Offsets (\<open>usize\<close>) are natural numbers, with the 64-bit limit of
  \<open>checked_add\<close> written out.
\<close>

section \<open>The rolling window\<close>

definition EVENT_TYPE_SEGMENT_ROLLOVER :: u8 where "EVENT_TYPE_SEGMENT_ROLLOVER = 0x14"
definition EVENT_TYPE_COMPACTION_MARKER :: u8 where "EVENT_TYPE_COMPACTION_MARKER = 0x15"
definition EVENT_TYPE_RECOVERY_TRUNCATED :: u8 where "EVENT_TYPE_RECOVERY_TRUNCATED = 0x50"

definition MAX_FRAMES_BETWEEN_MARKERS :: u32 where "MAX_FRAMES_BETWEEN_MARKERS = 1024"
definition MAX_BYTES_BETWEEN_MARKERS :: u64 where "MAX_BYTES_BETWEEN_MARKERS = 16 * 1024 * 1024"

record marker_payload =
  mk_from_offset :: u64
  mk_to_offset :: u64
  mk_frame_count :: u32
  mk_hmac_hex :: string
  mk_compaction_epoch :: u32

text \<open>The HMAC engine is its key with the bytes fed so far.\<close>

record compaction_state =
  cst_key :: bytes
  cst_fed :: bytes
  cst_bytes_since_marker :: u64
  cst_frames_since_marker :: u32
  cst_from_offset :: u64

definition compaction_new :: "bytes \<Rightarrow> u64 \<Rightarrow> compaction_state" where
  "compaction_new key start_offset = \<lparr>cst_key = key, cst_fed = [], cst_bytes_since_marker = 0,
     cst_frames_since_marker = 0, cst_from_offset = start_offset\<rparr>"

definition compaction_update :: "bytes \<Rightarrow> compaction_state \<Rightarrow> compaction_state" where
  "compaction_update frame c = c\<lparr>cst_fed := cst_fed c @ frame,
     cst_bytes_since_marker := saturating_add (cst_bytes_since_marker c) (word_of_nat (length frame)),
     cst_frames_since_marker := saturating_add (cst_frames_since_marker c) 1\<rparr>"

definition should_emit :: "compaction_state \<Rightarrow> bool" where
  "should_emit c \<longleftrightarrow> cst_frames_since_marker c \<ge> MAX_FRAMES_BETWEEN_MARKERS
     \<or> cst_bytes_since_marker c \<ge> MAX_BYTES_BETWEEN_MARKERS"

definition LOWER_HEX :: string where "LOWER_HEX = ''0123456789abcdef''"

definition byte_hex :: "u8 \<Rightarrow> string" where
  "byte_hex b = [LOWER_HEX ! (unat b div 16), LOWER_HEX ! (unat b mod 16)]"

definition tag_hex :: "bytes \<Rightarrow> string" where
  "tag_hex tag = concat (map byte_hex tag)"

definition finalise_marker ::
    "(bytes \<Rightarrow> bytes \<Rightarrow> bytes) \<Rightarrow> bytes \<Rightarrow> u64 \<Rightarrow> compaction_state \<Rightarrow> compaction_state \<times> marker_payload" where
  "finalise_marker hm key to_offset c =
     (\<lparr>cst_key = key, cst_fed = [], cst_bytes_since_marker = 0, cst_frames_since_marker = 0, cst_from_offset = to_offset\<rparr>,
      \<lparr>mk_from_offset = cst_from_offset c, mk_to_offset = to_offset, mk_frame_count = cst_frames_since_marker c,
       mk_hmac_hex = tag_hex (hm (cst_key c) (cst_fed c)), mk_compaction_epoch = 0\<rparr>)"

definition verify_marker_bytes ::
    "(bytes \<Rightarrow> bytes \<Rightarrow> bytes) \<Rightarrow> bytes \<Rightarrow> bytes \<Rightarrow> marker_payload \<Rightarrow> string + unit" where
  "verify_marker_bytes hm segment_bytes key marker =
     (let fr = unat (mk_from_offset marker); till = unat (mk_to_offset marker)
      in if till \<le> fr then Err ''marker covers zero bytes''
         else if length segment_bytes < till then Err ''marker window out of bounds''
         else if tag_hex (hm key (subslice fr till segment_bytes)) \<noteq> mk_hmac_hex marker then Err ''HMAC mismatch''
         else Ok ())"

section \<open>Verification of a segment\<close>

abbreviation (input) unavailable :: "string \<Rightarrow> wal_error" where
  "unavailable \<equiv> CompactionStateUnavailable"

definition decode_exact_frame ::
    "(bytes \<Rightarrow> u32) \<Rightarrow> bytes \<Rightarrow> nat \<Rightarrow> nat \<Rightarrow> wal_error + decoded_frame \<times> nat" where
  "decode_exact_frame crc segment_bytes offset limit =
     (if limit < offset \<or> length segment_bytes < limit
      then Err (unavailable ''compaction recovery range is outside the segment'')
      else case decode_frame crc (subslice offset limit segment_bytes) of
             Err _ \<Rightarrow> Err (unavailable ''decode WAL frame while rebuilding HMAC state'')
           | Ok d \<Rightarrow>
               (let stop = offset + unat (total_len (df_header d))
                in if 2 ^ 64 \<le> stop then Err (unavailable ''WAL frame length overflows'')
                   else if stop > limit then Err (unavailable ''WAL frame crosses the recovery boundary'')
                   else Ok (d, stop)))"

lemma decode_exact_Ok:
  assumes "decode_exact_frame crc bs offset limit = Ok (d, e)"
  shows "e = offset + unat (total_len (df_header d))" "offset < e" "e \<le> limit" "limit \<le> length bs"
    "decode_frame crc (subslice offset limit bs) = Ok d"
  using assms decode_frame_OkD(3) [of crc "subslice offset limit bs"]
  by (auto simp: decode_exact_frame_def Let_def split: if_splits sum.splits)

function validate_unsigned_marker_prefix ::
    "(bytes \<Rightarrow> u32) \<Rightarrow> bytes \<Rightarrow> nat \<Rightarrow> nat \<Rightarrow> wal_error + unit" where
  "validate_unsigned_marker_prefix crc segment_bytes cursor marker_from =
     (if cursor < marker_from then
        (case decode_exact_frame crc segment_bytes cursor marker_from of
           Err e \<Rightarrow> Err e
         | Ok (d, stop) \<Rightarrow>
             if event_type (df_header d) \<noteq> EVENT_TYPE_SEGMENT_ROLLOVER
                \<and> event_type (df_header d) \<noteq> EVENT_TYPE_RECOVERY_TRUNCATED
             then Err (unavailable ''first compaction marker leaves an operator frame unsigned'')
             else validate_unsigned_marker_prefix crc segment_bytes stop marker_from)
      else Ok ())"
  by pat_completeness auto

termination
  by (relation "measure (\<lambda>(crc, bs, cursor, m). m - cursor)") (auto dest: decode_exact_Ok)

function window_frames :: "(bytes \<Rightarrow> u32) \<Rightarrow> bytes \<Rightarrow> nat \<Rightarrow> nat \<Rightarrow> u32 \<Rightarrow> wal_error + u32" where
  "window_frames crc segment_bytes cursor till frame_count =
     (if cursor < till then
        (case decode_exact_frame crc segment_bytes cursor till of
           Err e \<Rightarrow> Err e
         | Ok (d, stop) \<Rightarrow>
             if event_type (df_header d) = EVENT_TYPE_COMPACTION_MARKER
             then Err (unavailable ''compaction marker window recursively covers another marker'')
             else case checked_add frame_count 1 of
                    None \<Rightarrow> Err (unavailable ''compaction marker window frame count overflow'')
                  | Some n \<Rightarrow> window_frames crc segment_bytes stop till n)
      else Ok frame_count)"
  by pat_completeness auto

termination
  by (relation "measure (\<lambda>(crc, bs, cursor, t, n). t - cursor)") (auto dest: decode_exact_Ok)

declare validate_unsigned_marker_prefix.simps [simp del] window_frames.simps [simp del]

definition validate_existing_compaction_marker ::
    "(bytes \<Rightarrow> u32) \<Rightarrow> (bytes \<Rightarrow> bytes \<Rightarrow> bytes) \<Rightarrow> bytes \<Rightarrow> nat \<Rightarrow> nat \<Rightarrow> nat option \<Rightarrow> marker_payload
     \<Rightarrow> bytes list \<Rightarrow> wal_error + unit" where
  "validate_existing_compaction_marker crc hm segment_bytes hlen marker_offset previous_marker_end marker keys =
     (let fr = unat (mk_from_offset marker); till = unat (mk_to_offset marker)
      in if till \<noteq> marker_offset then Err (unavailable ''compaction marker claims a non-adjacent to_offset'')
         else if fr < hlen \<or> fr \<ge> till then Err (unavailable ''compaction marker has an invalid window'')
         else case (case previous_marker_end of
                      Some previous_end \<Rightarrow>
                        if fr \<noteq> previous_end then Err (unavailable ''compaction marker leaves an unsigned gap'') else Ok ()
                    | None \<Rightarrow>
                        if fr > hlen then validate_unsigned_marker_prefix crc segment_bytes hlen fr else Ok ()) of
                Err e \<Rightarrow> Err e
              | Ok _ \<Rightarrow>
                  (case window_frames crc segment_bytes fr till 0 of
                     Err e \<Rightarrow> Err e
                   | Ok frame_count \<Rightarrow>
                       if frame_count \<noteq> mk_frame_count marker
                       then Err (unavailable ''compaction marker claims another number of frames'')
                       else if \<exists>key \<in> set keys. verify_marker_bytes hm segment_bytes key marker = Ok () then Ok ()
                       else Err (unavailable ''existing compaction marker did not verify'')))"

fun is_too_short :: "header_parse_error \<Rightarrow> bool" where
  "is_too_short (BufferTooShort _ _) = True"
| "is_too_short _ = False"

function marker_walk ::
    "(bytes \<Rightarrow> u32) \<Rightarrow> (bytes \<Rightarrow> bytes \<Rightarrow> bytes) \<Rightarrow> (bytes \<Rightarrow> marker_payload option) \<Rightarrow> bytes \<Rightarrow> nat \<Rightarrow> bytes list
     \<Rightarrow> bool \<Rightarrow> nat \<Rightarrow> nat option \<Rightarrow> wal_error + nat option" where
  "marker_walk crc hm jd segment_bytes hlen keys allow_unmarked_tail cursor previous_marker_end =
     (if cursor < length segment_bytes then
        (case decode_frame crc (drop cursor segment_bytes) of
           Err e \<Rightarrow>
             if allow_unmarked_tail \<and> is_too_short e then Ok previous_marker_end
             else Err (unavailable ''decode WAL frame while verifying compaction markers'')
         | Ok d \<Rightarrow>
             (let stop = cursor + unat (total_len (df_header d))
              in if 2 ^ 64 \<le> stop then Err (unavailable ''WAL frame length overflows'')
                 else if event_type (df_header d) = EVENT_TYPE_COMPACTION_MARKER then
                   (case jd (df_payload d) of
                      None \<Rightarrow> Err (unavailable ''decode compaction marker payload'')
                    | Some marker \<Rightarrow>
                        (case validate_existing_compaction_marker crc hm segment_bytes hlen cursor previous_marker_end marker keys of
                           Err e \<Rightarrow> Err e
                         | Ok _ \<Rightarrow> marker_walk crc hm jd segment_bytes hlen keys allow_unmarked_tail stop (Some stop)))
                 else marker_walk crc hm jd segment_bytes hlen keys allow_unmarked_tail stop previous_marker_end))
      else Ok previous_marker_end)"
  by pat_completeness auto

termination
  by (relation "measure (\<lambda>(crc, hm, jd, bs, hlen, keys, tl, cursor, prev). length bs - cursor)")
    (auto dest: decode_frame_OkD(3))

declare marker_walk.simps [simp del]

definition verify_existing_compaction_marker_windows ::
    "(bytes \<Rightarrow> u32) \<Rightarrow> (bytes \<Rightarrow> bytes \<Rightarrow> bytes) \<Rightarrow> (bytes \<Rightarrow> marker_payload option) \<Rightarrow> bytes \<Rightarrow> nat \<Rightarrow> bytes list
     \<Rightarrow> bool \<Rightarrow> wal_error + nat" where
  "verify_existing_compaction_marker_windows crc hm jd segment_bytes hlen keys allow_unmarked_tail =
     (if hlen > length segment_bytes then Err (unavailable ''segment header length exceeds the logical segment'')
      else case marker_walk crc hm jd segment_bytes hlen keys allow_unmarked_tail hlen None of
             Err e \<Rightarrow> Err e
           | Ok previous_marker_end \<Rightarrow>
               (let unmarked_from = (case previous_marker_end of None \<Rightarrow> hlen | Some e \<Rightarrow> e)
                in if allow_unmarked_tail then Ok unmarked_from
                   else case previous_marker_end of
                          Some _ \<Rightarrow>
                            if unmarked_from \<noteq> length segment_bytes
                            then Err (unavailable ''closed WAL segment has an unsigned tail'')
                            else Ok unmarked_from
                        | None \<Rightarrow>
                            (case validate_unsigned_marker_prefix crc segment_bytes hlen (length segment_bytes) of
                               Err e \<Rightarrow> Err e | Ok _ \<Rightarrow> Ok unmarked_from)))"

section \<open>Recovery of the open window\<close>

function replay_window ::
    "(bytes \<Rightarrow> u32) \<Rightarrow> bytes \<Rightarrow> nat \<Rightarrow> compaction_state \<Rightarrow> wal_error + compaction_state" where
  "replay_window crc segment_bytes cursor c =
     (if cursor < length segment_bytes then
        (case decode_exact_frame crc segment_bytes cursor (length segment_bytes) of
           Err e \<Rightarrow> Err e
         | Ok (d, stop) \<Rightarrow>
             if event_type (df_header d) = EVENT_TYPE_COMPACTION_MARKER
             then Err (unavailable ''marker remained after last marker boundary'')
             else replay_window crc segment_bytes stop (compaction_update (subslice cursor stop segment_bytes) c))
      else Ok c)"
  by pat_completeness auto

termination
  by (relation "measure (\<lambda>(crc, bs, cursor, c). length bs - cursor)") (auto dest: decode_exact_Ok)

declare replay_window.simps [simp del]

definition recover_compaction_state ::
    "(bytes \<Rightarrow> u32) \<Rightarrow> (bytes \<Rightarrow> bytes \<Rightarrow> bytes) \<Rightarrow> (bytes \<Rightarrow> marker_payload option) \<Rightarrow> bytes \<Rightarrow> bytes list
     \<Rightarrow> bytes \<Rightarrow> wal_error + compaction_state" where
  "recover_compaction_state crc hm jd active_key keys segment_bytes =
     (case parse_segment_header crc segment_bytes of
        Err e \<Rightarrow> Err e
      | Ok parsed \<Rightarrow>
          if parsed_is_compressed parsed \<or> parsed_is_sealed parsed
          then Err (unavailable ''HMAC state reconstruction requires an unsealed raw WAL segment'')
          else case verify_existing_compaction_marker_windows crc hm jd segment_bytes (parsed_header_len parsed) keys True of
                 Err e \<Rightarrow> Err e
               | Ok window_start \<Rightarrow>
                   replay_window crc segment_bytes window_start (compaction_new active_key (word_of_nat window_start)))"

section \<open>Segments of complete frames\<close>

type_synonym wal_frame = "event_header \<times> bytes"

definition frames_image :: "(bytes \<Rightarrow> u32) \<Rightarrow> wal_frame list \<Rightarrow> bytes" where
  "frames_image crc fs = concat (map (frame_bytes crc) fs)"

lemma frames_image_simps [simp]:
  "frames_image crc [] = []" "frames_image crc (f # fs) = frame_bytes crc f @ frames_image crc fs"
  "frames_image crc (fs @ gs) = frames_image crc fs @ frames_image crc gs"
  by (simp_all add: frames_image_def)

definition is_marker :: "wal_frame \<Rightarrow> bool" where
  "is_marker f \<longleftrightarrow> event_type (fst f) = EVENT_TYPE_COMPACTION_MARKER"

definition operator_frames :: "(bytes \<Rightarrow> u32) \<Rightarrow> wal_frame list \<Rightarrow> bool" where
  "operator_frames crc fs \<longleftrightarrow> (\<forall>f \<in> set fs. frame_ok crc f \<and> \<not> is_marker f)"

lemma operator_frames_simps [simp]:
  "operator_frames crc []" "operator_frames crc (f # fs) \<longleftrightarrow> frame_ok crc f \<and> \<not> is_marker f \<and> operator_frames crc fs"
  "operator_frames crc (fs @ gs) \<longleftrightarrow> operator_frames crc fs \<and> operator_frames crc gs"
  by (auto simp: operator_frames_def)

lemma decode_frame_bytes:
  "frame_ok crc f \<Longrightarrow> decode_frame crc (frame_bytes crc f @ r) = Ok \<lparr>df_header = fst f, df_payload = snd f\<rparr>"
  using frame_okD(1,2) [of crc f] decode_encode_frame [of "fst f" crc "snd f"] by simp

lemma frame_bytes_pos: "frame_ok crc f \<Longrightarrow> 104 \<le> length (frame_bytes crc f)"
  using frame_okD(3,4) [of crc f] by (simp add: frame_bounds)

lemma subslice_middle:
  "length A \<le> n \<Longrightarrow> subslice (length A) n (A @ B) = take (n - length A) B"
  by (simp add: subslice_def)

lemma decode_exact_at:
  assumes "frame_ok crc f" "length A + length (frame_bytes crc f) \<le> limit" "limit \<le> length (A @ frame_bytes crc f @ r)"
    "limit < 2 ^ 64"
  shows "decode_exact_frame crc (A @ frame_bytes crc f @ r) (length A) limit
    = Ok (\<lparr>df_header = fst f, df_payload = snd f\<rparr>, length A + length (frame_bytes crc f))"
proof -
  have "subslice (length A) limit (A @ frame_bytes crc f @ r)
      = frame_bytes crc f @ take (limit - length A - length (frame_bytes crc f)) r"
    using assms(2) by (simp add: subslice_middle)
  then show ?thesis
    using assms decode_frame_bytes [OF assms(1)] frame_okD(3) [OF assms(1)]
    by (simp add: decode_exact_frame_def)
qed

lemma window_frames_image:
  assumes "operator_frames crc fs" "length A + length (frames_image crc fs) < 2 ^ 64" "unat n + length fs < 2 ^ 32"
  shows "window_frames crc (A @ frames_image crc fs @ r) (length A) (length A + length (frames_image crc fs)) n
    = Ok (n + word_of_nat (length fs))"
  using assms
proof (induction fs arbitrary: A n)
  case Nil
  then show ?case by (simp add: window_frames.simps)
next
  case (Cons f fs)
  let ?B = "A @ frame_bytes crc f"
  have pos: "0 < length (frame_bytes crc f)" using frame_bytes_pos [of crc f] Cons.prems(1) by (auto simp del: length_greater_0_conv)
  have up: "checked_add n 1 = Some (n + 1)" "unat (n + 1) = Suc (unat n)"
    using Cons.prems(3) by (simp_all add: checked_add_def unat_word_ariths)
  have IH: "window_frames crc (?B @ frames_image crc fs @ r) (length ?B) (length ?B + length (frames_image crc fs)) (n + 1)
      = Ok (n + 1 + word_of_nat (length fs))"
    using Cons.prems up(2) by (intro Cons.IH) simp_all
  have ex: "decode_exact_frame crc (A @ frame_bytes crc f @ frames_image crc fs @ r) (length A)
      (length A + (length (frame_bytes crc f) + length (frames_image crc fs)))
      = Ok (\<lparr>df_header = fst f, df_payload = snd f\<rparr>, length A + length (frame_bytes crc f))"
    using Cons.prems by (intro decode_exact_at) simp_all
  show ?case
    using IH ex up(1) pos Cons.prems(1)
    by (subst window_frames.simps) (simp add: is_marker_def add.assoc)
qed

lemma marker_walk_image:
  assumes "operator_frames crc fs" "length A + length (frames_image crc fs) < 2 ^ 64"
  shows "marker_walk crc hm jd (A @ frames_image crc fs @ r) hlen keys lax (length A) prev
    = marker_walk crc hm jd (A @ frames_image crc fs @ r) hlen keys lax (length A + length (frames_image crc fs)) prev"
  using assms
proof (induction fs arbitrary: A)
  case (Cons f fs)
  let ?B = "A @ frame_bytes crc f"
  have pos: "0 < length (frame_bytes crc f)" using frame_bytes_pos [of crc f] Cons.prems(1) by (auto simp del: length_greater_0_conv)
  have IH: "marker_walk crc hm jd (?B @ frames_image crc fs @ r) hlen keys lax (length ?B) prev
    = marker_walk crc hm jd (?B @ frames_image crc fs @ r) hlen keys lax (length ?B + length (frames_image crc fs)) prev"
    using Cons.prems by (intro Cons.IH) simp_all
  have "marker_walk crc hm jd (A @ frames_image crc (f # fs) @ r) hlen keys lax (length A) prev
      = marker_walk crc hm jd (?B @ frames_image crc fs @ r) hlen keys lax (length ?B) prev"
    using Cons.prems pos decode_frame_bytes [of crc f] frame_okD(3) [of crc f]
    by (subst marker_walk.simps) (simp add: is_marker_def Let_def)
  with IH show ?case by (simp add: add.assoc)
qed simp

lemma replay_window_image:
  assumes "operator_frames crc fs" "length A + length (frames_image crc fs) < 2 ^ 64"
  shows "replay_window crc (A @ frames_image crc fs) (length A) c = Ok (fold compaction_update (map (frame_bytes crc) fs) c)"
  using assms
proof (induction fs arbitrary: A c)
  case Nil
  then show ?case by (simp add: replay_window.simps)
next
  case (Cons f fs)
  let ?B = "A @ frame_bytes crc f" and ?c = "compaction_update (frame_bytes crc f) c"
  have pos: "0 < length (frame_bytes crc f)" using frame_bytes_pos [of crc f] Cons.prems(1) by (auto simp del: length_greater_0_conv)
  have IH: "replay_window crc (?B @ frames_image crc fs) (length ?B) ?c = Ok (fold compaction_update (map (frame_bytes crc) fs) ?c)"
    using Cons.prems by (intro Cons.IH) simp_all
  have ex: "decode_exact_frame crc (A @ frame_bytes crc f @ frames_image crc fs) (length A)
      (length A + (length (frame_bytes crc f) + length (frames_image crc fs)))
      = Ok (\<lparr>df_header = fst f, df_payload = snd f\<rparr>, length A + length (frame_bytes crc f))"
    using Cons.prems by (intro decode_exact_at) simp_all
  show ?case
    using IH ex pos Cons.prems(1)
    by (subst replay_window.simps) (simp add: is_marker_def subslice_middle)
qed

text \<open>
  \<open>sealed key hdr A\<close>: the bytes \<open>A\<close> are the header \<open>hdr\<close> followed by windows of operator
  frames, each closed by a marker frame that authenticates it under \<open>key\<close>.
\<close>

definition closes ::
    "(bytes \<Rightarrow> u32) \<Rightarrow> (bytes \<Rightarrow> bytes \<Rightarrow> bytes) \<Rightarrow> (bytes \<Rightarrow> marker_payload option) \<Rightarrow> bytes \<Rightarrow> nat \<Rightarrow> wal_frame list \<Rightarrow> wal_frame \<Rightarrow> bool" where
  "closes crc hm jd key start fs mf \<longleftrightarrow> frame_ok crc mf \<and> is_marker mf \<and> fs \<noteq> [] \<and> operator_frames crc fs
     \<and> length fs < 2 ^ 32
     \<and> (\<exists>m. jd (snd mf) = Some m \<and> unat (mk_from_offset m) = start \<and> unat (mk_to_offset m) = start + length (frames_image crc fs)
          \<and> mk_frame_count m = word_of_nat (length fs) \<and> mk_hmac_hex m = tag_hex (hm key (frames_image crc fs)))"

inductive sealed ::
    "(bytes \<Rightarrow> u32) \<Rightarrow> (bytes \<Rightarrow> bytes \<Rightarrow> bytes) \<Rightarrow> (bytes \<Rightarrow> marker_payload option) \<Rightarrow> bytes \<Rightarrow> bytes \<Rightarrow> bytes \<Rightarrow> bool"
  for crc hm jd key hdr where
  sealed_start: "sealed crc hm jd key hdr hdr"
| sealed_window: "sealed crc hm jd key hdr A \<Longrightarrow> closes crc hm jd key (length A) fs mf \<Longrightarrow>
    sealed crc hm jd key hdr (A @ frames_image crc fs @ frame_bytes crc mf)"

lemma sealed_prefix: "sealed crc hm jd key hdr A \<Longrightarrow> \<exists>B. A = hdr @ B"
  by (induction rule: sealed.induct) auto

lemma frames_image_pos: "operator_frames crc fs \<Longrightarrow> fs \<noteq> [] \<Longrightarrow> 0 < length (frames_image crc fs)"
  using frame_bytes_pos [of crc "List.hd fs"] by (cases fs) auto

lemma marker_walk_closes:
  assumes "closes crc hm jd key (length A) fs mf" "key \<in> set keys"
    "length (A @ frames_image crc fs @ frame_bytes crc mf) < 2 ^ 64" "hlen \<le> length A"
    "prev = Some (length A) \<or> prev = None \<and> hlen = length A"
  shows "marker_walk crc hm jd (A @ frames_image crc fs @ frame_bytes crc mf @ r) hlen keys lax (length A) prev
    = marker_walk crc hm jd (A @ frames_image crc fs @ frame_bytes crc mf @ r) hlen keys lax
        (length (A @ frames_image crc fs @ frame_bytes crc mf)) (Some (length (A @ frames_image crc fs @ frame_bytes crc mf)))"
proof -
  let ?W = "frames_image crc fs" and ?M = "frame_bytes crc mf"
  let ?bs = "A @ ?W @ ?M @ r"
  obtain m where fs: "operator_frames crc fs" "fs \<noteq> []" "length fs < 2 ^ 32" and mf: "frame_ok crc mf" "is_marker mf"
    and m: "jd (snd mf) = Some m" "unat (mk_from_offset m) = length A" "unat (mk_to_offset m) = length A + length ?W"
      "mk_frame_count m = word_of_nat (length fs)" "mk_hmac_hex m = tag_hex (hm key ?W)"
    using assms(1) by (auto simp: closes_def)
  have W: "0 < length ?W" by (rule frames_image_pos [OF fs(1,2)])
  have "subslice (length A) (length A + length ?W) ?bs = ?W" by (simp add: subslice_middle)
  then have "verify_marker_bytes hm ?bs key m = Ok ()"
    using m W by (simp add: verify_marker_bytes_def)
  then have ver: "\<exists>k \<in> set keys. verify_marker_bytes hm ?bs k m = Ok ()" using assms(2) by blast
  have "window_frames crc ?bs (length A) (length A + length ?W) 0 = Ok (0 + word_of_nat (length fs))"
    using fs assms(3) by (intro window_frames_image) simp_all
  then have val: "validate_existing_compaction_marker crc hm ?bs hlen (length A + length ?W) prev m keys = Ok ()"
    using ver m W assms(4,5)
    by (auto simp: validate_existing_compaction_marker_def Let_def simp del: length_greater_0_conv)
  have dec: "decode_frame crc (drop (length A + length ?W) ?bs) = Ok \<lparr>df_header = fst mf, df_payload = snd mf\<rparr>"
    using decode_frame_bytes [OF mf(1), of r] by simp
  have more: "length A + length ?W < length ?bs" "length A + length ?W + unat (total_len (fst mf)) = length (A @ ?W @ ?M)"
    using frame_bytes_pos [OF mf(1)] frame_okD(3) [OF mf(1)] by auto
  have "marker_walk crc hm jd ?bs hlen keys lax (length A) prev
      = marker_walk crc hm jd ?bs hlen keys lax (length A + length ?W) prev"
    using fs assms(3) by (intro marker_walk_image) simp_all
  also have "\<dots> = marker_walk crc hm jd ?bs hlen keys lax (length (A @ ?W @ ?M)) (Some (length (A @ ?W @ ?M)))"
    using dec more assms(3) mf(2) m(1) val
    by (subst marker_walk.simps) (simp add: is_marker_def Let_def add.assoc)
  finally show ?thesis .
qed

lemma marker_walk_sealed:
  assumes "sealed crc hm jd key hdr A" "key \<in> set keys" "length A < 2 ^ 64"
  shows "marker_walk crc hm jd (A @ r) (length hdr) keys lax (length hdr) None
    = marker_walk crc hm jd (A @ r) (length hdr) keys lax (length A) (if A = hdr then None else Some (length A))"
  using assms(1,3)
proof (induction arbitrary: r rule: sealed.induct)
  case (sealed_window A fs mf)
  let ?B = "A @ frames_image crc fs @ frame_bytes crc mf"
  have longer: "length A < length ?B"
    using frames_image_pos [of crc fs] sealed_window.hyps(2) by (auto simp: closes_def simp del: length_greater_0_conv)
  obtain C where C: "A = hdr @ C" using sealed_prefix [OF sealed_window.hyps(1)] by blast
  have "?B \<noteq> hdr" using longer C by (auto simp del: length_greater_0_conv)
  moreover have "marker_walk crc hm jd (?B @ r) (length hdr) keys lax (length hdr) None
      = marker_walk crc hm jd (?B @ r) (length hdr) keys lax (length A) (if A = hdr then None else Some (length A))"
    using sealed_window.IH [of "frames_image crc fs @ frame_bytes crc mf @ r"] sealed_window.prems by simp
  moreover have "\<dots> = marker_walk crc hm jd (?B @ r) (length hdr) keys lax (length ?B) (Some (length ?B))"
    using marker_walk_closes [OF sealed_window.hyps(2) assms(2) sealed_window.prems,
        of "length hdr" "if A = hdr then None else Some (length A)" r lax] C
    by simp
  ultimately show ?case by simp
qed simp

lemma verify_sealed:
  assumes "sealed crc hm jd key hdr A" "key \<in> set keys" "operator_frames crc fs" "length (A @ frames_image crc fs) < 2 ^ 64"
  shows "verify_existing_compaction_marker_windows crc hm jd (A @ frames_image crc fs) (length hdr) keys True = Ok (length A)"
    and "fs = [] \<Longrightarrow> verify_existing_compaction_marker_windows crc hm jd A (length hdr) keys False = Ok (length A)"
proof -
  obtain B where B: "A = hdr @ B" using sealed_prefix [OF assms(1)] by blast
  have walk: "marker_walk crc hm jd (A @ frames_image crc fs) (length hdr) keys lax (length hdr) None
      = Ok (if A = hdr then None else Some (length A))" for lax
    using marker_walk_sealed [OF assms(1,2), of "frames_image crc fs" lax] assms(4)
      marker_walk_image [OF assms(3), of A hm jd "[]" "length hdr" keys lax]
    by (simp add: marker_walk.simps [of _ _ _ _ _ _ _ "length A + length (frames_image crc fs)"])
  then show "verify_existing_compaction_marker_windows crc hm jd (A @ frames_image crc fs) (length hdr) keys True = Ok (length A)"
    using B by (auto simp: verify_existing_compaction_marker_windows_def Let_def)
  show "verify_existing_compaction_marker_windows crc hm jd A (length hdr) keys False = Ok (length A)" if "fs = []"
    using walk [of False] that B
    by (auto simp: verify_existing_compaction_marker_windows_def Let_def validate_unsigned_marker_prefix.simps)
qed

lemma recover_sealed:
  assumes "sealed crc hm jd key (seg_encode ph) A" "key \<in> set keys" "operator_frames crc fs"
    "length (A @ frames_image crc fs) < 2 ^ 64" "parsed_valid crc ph" "\<not> parsed_is_compressed ph" "\<not> parsed_is_sealed ph"
  shows "recover_compaction_state crc hm jd key keys (A @ frames_image crc fs)
    = Ok (fold compaction_update (map (frame_bytes crc) fs) (compaction_new key (word_of_nat (length A))))"
proof -
  obtain B where B: "A = seg_encode ph @ B" using sealed_prefix [OF assms(1)] by blast
  have "parse_segment_header crc (A @ frames_image crc fs) = Ok ph"
    using parse_seg_encode [OF assms(5), of "B @ frames_image crc fs"] B by simp
  moreover have "length (seg_encode ph) = parsed_header_len ph" by (rule seg_encode_length [OF assms(5)])
  ultimately show ?thesis
    using verify_sealed(1) [OF assms(1-4)] replay_window_image [OF assms(3), of A] assms(4,6,7)
    by (simp add: recover_compaction_state_def)
qed

section \<open>What verification establishes\<close>

text \<open>The markers of a segment with their offset and end, in the order of the walk.\<close>

lemma decode_at_bounds:
  assumes "decode_frame crc (drop cursor bs) = Ok d"
  shows "cursor < cursor + unat (total_len (df_header d))" "cursor + unat (total_len (df_header d)) \<le> length bs"
    "length bs - (cursor + unat (total_len (df_header d))) < length bs - cursor"
  using decode_frame_OkD(2,3) [OF assms] by auto

function marker_list ::
    "(bytes \<Rightarrow> u32) \<Rightarrow> (bytes \<Rightarrow> marker_payload option) \<Rightarrow> bytes \<Rightarrow> nat \<Rightarrow> (nat \<times> nat \<times> marker_payload) list" where
  "marker_list crc jd bs cursor =
     (case decode_frame crc (drop cursor bs) of
        Err _ \<Rightarrow> []
      | Ok d \<Rightarrow>
          (let stop = cursor + unat (total_len (df_header d))
           in (case jd (df_payload d) of
                 Some m \<Rightarrow> if event_type (df_header d) = EVENT_TYPE_COMPACTION_MARKER then [(cursor, stop, m)] else []
               | None \<Rightarrow> []) @ marker_list crc jd bs stop))"
  by pat_completeness auto

termination
  by (relation "measure (\<lambda>(crc, jd, bs, cursor). length bs - cursor)")
    (auto dest: decode_at_bounds(3))

declare marker_list.simps [simp del]

definition authenticates ::
    "(bytes \<Rightarrow> bytes \<Rightarrow> bytes) \<Rightarrow> bytes list \<Rightarrow> bytes \<Rightarrow> nat \<times> nat \<times> marker_payload \<Rightarrow> bool" where
  "authenticates hm keys bs w \<longleftrightarrow>
     (case w of (off, stop, m) \<Rightarrow>
        unat (mk_to_offset m) = off \<and> unat (mk_from_offset m) < off \<and> off < stop \<and> stop \<le> length bs
        \<and> (\<exists>key \<in> set keys. tag_hex (hm key (subslice (unat (mk_from_offset m)) off bs)) = mk_hmac_hex m))"

fun tiles :: "(nat \<Rightarrow> bool) \<Rightarrow> nat option \<Rightarrow> (nat \<times> nat \<times> marker_payload) list \<Rightarrow> nat option \<Rightarrow> bool" where
  "tiles start prev [] res \<longleftrightarrow> res = prev"
| "tiles start prev ((off, stop, m) # ms) res \<longleftrightarrow>
     (case prev of None \<Rightarrow> start (unat (mk_from_offset m)) | Some e \<Rightarrow> unat (mk_from_offset m) = e)
     \<and> tiles start (Some stop) ms res"

definition signed_from :: "(bytes \<Rightarrow> u32) \<Rightarrow> bytes \<Rightarrow> nat \<Rightarrow> nat \<Rightarrow> bool" where
  "signed_from crc bs hlen fr \<longleftrightarrow> hlen \<le> fr \<and> validate_unsigned_marker_prefix crc bs hlen fr = Ok ()"

lemma validated_marker:
  assumes "validate_existing_compaction_marker crc hm bs hlen off prev m keys = Ok ()" "off < stop" "stop \<le> length bs"
  shows "authenticates hm keys bs (off, stop, m)"
    "case prev of None \<Rightarrow> signed_from crc bs hlen (unat (mk_from_offset m)) | Some e \<Rightarrow> unat (mk_from_offset m) = e"
proof -
  have A: "unat (mk_to_offset m) = off" "hlen \<le> unat (mk_from_offset m)" "unat (mk_from_offset m) < off"
    and P: "case prev of None \<Rightarrow> unat (mk_from_offset m) > hlen \<longrightarrow>
          validate_unsigned_marker_prefix crc bs hlen (unat (mk_from_offset m)) = Ok () | Some e \<Rightarrow> unat (mk_from_offset m) = e"
    and K: "\<exists>key \<in> set keys. verify_marker_bytes hm bs key m = Ok ()"
    using assms(1)
    by (auto simp: validate_existing_compaction_marker_def Let_def split: if_splits option.splits sum.splits)
  from K A assms(2,3) show "authenticates hm keys bs (off, stop, m)"
    by (auto simp: authenticates_def verify_marker_bytes_def Let_def split: if_splits)
  from P A(2) show "case prev of None \<Rightarrow> signed_from crc bs hlen (unat (mk_from_offset m)) | Some e \<Rightarrow> unat (mk_from_offset m) = e"
    by (cases "unat (mk_from_offset m) = hlen")
      (auto simp: signed_from_def validate_unsigned_marker_prefix.simps [of _ _ hlen hlen] split: option.splits)
qed

lemma marker_walk_Ok:
  assumes "marker_walk crc hm jd bs hlen keys False cursor prev = Ok res"
  shows "(\<forall>w \<in> set (marker_list crc jd bs cursor). authenticates hm keys bs w)
    \<and> tiles (signed_from crc bs hlen) prev (marker_list crc jd bs cursor) res"
  using assms
proof (induction crc hm jd bs hlen keys False cursor prev rule: marker_walk.induct)
  case (1 crc hm jd bs hlen keys cursor prev)
  show ?case
  proof (cases "cursor < length bs")
    case False
    then have "\<exists>e. decode_frame crc (drop cursor bs) = Err e" by (intro decode_frame_short) simp
    then have "marker_list crc jd bs cursor = []" by (subst marker_list.simps) auto
    moreover have "res = prev" using "1.prems" False by (subst (asm) marker_walk.simps) simp
    ultimately show ?thesis by simp
  next
    case True
    obtain d where d: "decode_frame crc (drop cursor bs) = Ok d"
      using "1.prems" True by (subst (asm) marker_walk.simps) (auto split: sum.splits)
    let ?stop = "cursor + unat (total_len (df_header d))"
    have stop: "cursor < ?stop" "?stop \<le> length bs"
      using decode_at_bounds [OF d] by auto
    have small: "?stop < 2 ^ 64"
      using "1.prems" True d by (subst (asm) marker_walk.simps) (auto simp: Let_def split: if_splits)
    show ?thesis
    proof (cases "event_type (df_header d) = EVENT_TYPE_COMPACTION_MARKER")
      case marker: True
      obtain m where m: "jd (df_payload d) = Some m"
        "validate_existing_compaction_marker crc hm bs hlen cursor prev m keys = Ok ()"
        "marker_walk crc hm jd bs hlen keys False ?stop (Some ?stop) = Ok res"
        using "1.prems" True d small marker
        by (subst (asm) marker_walk.simps) (auto simp: Let_def split: option.splits sum.splits)
      have list: "marker_list crc jd bs cursor = (cursor, ?stop, m) # marker_list crc jd bs ?stop"
        using d m(1) marker by (subst marker_list.simps) (simp add: Let_def)
      from "1.hyps"(1) [OF True d refl _ marker m(1,2) m(3)] small
      have "(\<forall>w \<in> set (marker_list crc jd bs ?stop). authenticates hm keys bs w)
        \<and> tiles (signed_from crc bs hlen) (Some ?stop) (marker_list crc jd bs ?stop) res" by simp
      with validated_marker [OF m(2) stop] list show ?thesis by simp
    next
      case plain: False
      have walk: "marker_walk crc hm jd bs hlen keys False ?stop prev = Ok res"
        using "1.prems" True d small plain by (subst (asm) marker_walk.simps) (simp add: Let_def)
      have list: "marker_list crc jd bs cursor = marker_list crc jd bs ?stop"
        using d plain by (subst marker_list.simps) (simp add: Let_def split: option.splits)
      from "1.hyps"(2) [OF True d refl _ plain walk] small list show ?thesis by simp
    qed
  qed
qed

text \<open>The hexadecimal form of a tag determines it.\<close>

lemma LOWER_HEX_inj: "i < 16 \<Longrightarrow> j < 16 \<Longrightarrow> LOWER_HEX ! i = LOWER_HEX ! j \<longleftrightarrow> i = j"
proof -
  have "distinct LOWER_HEX" "length LOWER_HEX = 16" by (simp_all add: LOWER_HEX_def)
  then show "i < 16 \<Longrightarrow> j < 16 \<Longrightarrow> LOWER_HEX ! i = LOWER_HEX ! j \<longleftrightarrow> i = j"
    using nth_eq_iff_index_eq [of LOWER_HEX i j] by simp
qed

lemma byte_hex_inj: "byte_hex a = byte_hex b \<Longrightarrow> a = b"
proof -
  have le: "unat x div 16 < 16" for x :: u8 using unsigned_less [of x, where ?'a = nat] by simp
  assume "byte_hex a = byte_hex b"
  then have "unat a div 16 = unat b div 16" "unat a mod 16 = unat b mod 16"
    using le by (simp_all add: byte_hex_def LOWER_HEX_inj)
  then have "unat a = unat b" by (metis div_mult_mod_eq)
  then show ?thesis by (simp add: unsigned_word_eqI)
qed

lemma tag_hex_inj: "tag_hex t = tag_hex u \<longleftrightarrow> t = u"
proof (induction t arbitrary: u)
  case Nil
  then show ?case by (cases u) (auto simp: tag_hex_def byte_hex_def)
next
  case (Cons a t)
  have two: "tag_hex (x # xs) = byte_hex x @ tag_hex xs" "length (byte_hex x) = 2" for x xs
    by (simp_all add: tag_hex_def byte_hex_def)
  show ?case
    using Cons.IH byte_hex_inj by (cases u) (auto simp: two tag_hex_def [of "[]"] dest: arg_cong [of _ _ length])
qed

text \<open>
  The frames between two offsets, and the prelude a segment may start with: frames of the writer about
  rollovers and recoveries only.
\<close>

fun frame_chain :: "(bytes \<Rightarrow> u32) \<Rightarrow> bytes \<Rightarrow> nat \<Rightarrow> decoded_frame list \<Rightarrow> nat \<Rightarrow> bool" where
  "frame_chain crc bs a [] b \<longleftrightarrow> a = b"
| "frame_chain crc bs a (d # ds) b \<longleftrightarrow>
     decode_frame crc (subslice a b bs) = Ok d \<and> frame_chain crc bs (a + unat (total_len (df_header d))) ds b"

definition prelude_frame :: "decoded_frame \<Rightarrow> bool" where
  "prelude_frame d \<longleftrightarrow> event_type (df_header d) = EVENT_TYPE_SEGMENT_ROLLOVER
     \<or> event_type (df_header d) = EVENT_TYPE_RECOVERY_TRUNCATED"

lemma unsigned_prefix_is_prelude:
  "validate_unsigned_marker_prefix crc bs a b = Ok () \<Longrightarrow> a \<le> b \<Longrightarrow> \<exists>ds. frame_chain crc bs a ds b \<and> (\<forall>d \<in> set ds. prelude_frame d)"
proof (induction crc bs a b rule: validate_unsigned_marker_prefix.induct)
  case (1 crc bs a b)
  show ?case
  proof (cases "a < b")
    case False
    with "1.prems"(2) show ?thesis by (intro exI [of _ "[]"]) simp
  next
    case True
    obtain d stop where e: "decode_exact_frame crc bs a b = Ok (d, stop)" and p: "prelude_frame d"
      and rest: "validate_unsigned_marker_prefix crc bs stop b = Ok ()"
      using "1.prems"(1) True
      by (subst (asm) validate_unsigned_marker_prefix.simps) (auto simp: prelude_frame_def split: sum.splits prod.splits if_splits)
    obtain ds where "frame_chain crc bs stop ds b" "\<forall>d \<in> set ds. prelude_frame d"
      using "1.IH" [OF True e refl _ rest] p decode_exact_Ok(3) [OF e] by (auto simp: prelude_frame_def)
    with p decode_exact_Ok(1,5) [OF e] show ?thesis by (intro exI [of _ "d # ds"]) simp
  qed
qed

definition window_and_marker :: "bytes \<Rightarrow> nat \<times> nat \<times> marker_payload \<Rightarrow> bytes" where
  "window_and_marker bs w = (case w of (off, stop, m) \<Rightarrow> subslice (unat (mk_from_offset m)) off bs @ subslice off stop bs)"

lemma tiles_concat:
  assumes "tiles start (Some e) ms (Some r)" "\<forall>w \<in> set ms. authenticates hm keys bs w" 
  shows "e \<le> r \<and> subslice e r bs = concat (map (window_and_marker bs) ms)"
  using assms
proof (induction ms arbitrary: e)
  case Nil
  then show ?case by (simp add: subslice_def)
next
  case (Cons w ms)
  obtain off stop m where w: "w = (off, stop, m)" by (cases w)
  have au: "e < off" "off < stop" and e: "unat (mk_from_offset m) = e"
    using Cons.prems by (auto simp: w authenticates_def)
  have IH: "stop \<le> r \<and> subslice stop r bs = concat (map (window_and_marker bs) ms)"
    using Cons.prems by (intro Cons.IH) (auto simp: w)
  have "subslice e r bs = subslice e off bs @ subslice off stop bs @ subslice stop r bs"
    using IH au subslice_split [of e off r bs] subslice_split [of off stop r bs] by simp
  with IH au show ?case by (simp add: window_and_marker_def [of bs "(off, stop, m)"] w e)
qed

lemma tiles_from:
  assumes "tiles start None ms (Some r)" "\<forall>w \<in> set ms. authenticates hm keys bs w"
  obtains fr where "start fr" "fr \<le> r" "subslice fr r bs = concat (map (window_and_marker bs) ms)"
proof (cases ms)
  case (Cons w us)
  obtain off stop m where w: "w = (off, stop, m)" by (cases w)
  have "tiles start (Some (unat (mk_from_offset m))) ms (Some r)" "start (unat (mk_from_offset m))"
    using assms(1) by (simp_all add: Cons w)
  with tiles_concat [OF _ assms(2)] that show ?thesis by blast
qed (use assms in simp)

lemma tiles_Some: "tiles start (Some e) ms res \<Longrightarrow> res \<noteq> None"
  by (induction ms arbitrary: e) auto

lemma tiles_some_None: "tiles start None ms None \<Longrightarrow> ms = []"
  by (cases ms) (auto dest: tiles_Some)

text \<open>A segment with one empty frame and its marker, under any HMAC.\<close>

definition sample_segment :: "(bytes \<Rightarrow> u32) \<Rightarrow> parsed_segment_header" where
  "sample_segment crc = V1 (seg_v1_new crc 1 1 0 0 (replicate 16 0))"

definition sample_marker :: "(bytes \<Rightarrow> u32) \<Rightarrow> (bytes \<Rightarrow> bytes \<Rightarrow> bytes) \<Rightarrow> bytes \<Rightarrow> marker_payload" where
  "sample_marker crc hm key = \<lparr>mk_from_offset = 60, mk_to_offset = 164, mk_frame_count = 1,
     mk_hmac_hex = tag_hex (hm key (frame_bytes crc (empty_header, []))), mk_compaction_epoch = 0\<rparr>"

definition sample_marker_frame :: wal_frame where
  "sample_marker_frame = (empty_header\<lparr>event_type := EVENT_TYPE_COMPACTION_MARKER\<rparr>, [])"

definition sample_closed :: "(bytes \<Rightarrow> u32) \<Rightarrow> bytes" where
  "sample_closed crc = seg_encode (sample_segment crc) @ frames_image crc [(empty_header, [])] @ frame_bytes crc sample_marker_frame"

lemma sample_marker_frame_ok: "frame_ok crc sample_marker_frame"
  using empty_frame_ok [of crc]
  by (simp add: frame_ok_def sample_marker_frame_def header_valid_def encode_frame_def empty_header_def)

lemma sample_header_length: "length (seg_encode (sample_segment crc)) = 60"
  using seg_encode_length [OF sample_header_valid, of crc] by (simp add: sample_segment_def seg_lens)

lemma sample_sealed:
  "sealed crc hm (\<lambda>_. Some (sample_marker crc hm key)) key (seg_encode (sample_segment crc)) (sample_closed crc)"
proof -
  have "closes crc hm (\<lambda>_. Some (sample_marker crc hm key)) key (length (seg_encode (sample_segment crc)))
      [(empty_header, [])] sample_marker_frame"
    using sample_marker_frame_ok [of crc] empty_frame_ok [of crc] length_empty_frame [of crc]
    by (simp add: closes_def sample_header_length sample_marker_def is_marker_def sample_marker_frame_def)
      (simp add: empty_header_def EVENT_TYPE_COMPACTION_MARKER_def)
  from sealed_window [OF sealed_start this] show ?thesis by (simp add: sample_closed_def)
qed

lemma sample_closed_length: "length (sample_closed crc) = 268"
  using length_empty_frame [of crc] frame_okD(3) [OF sample_marker_frame_ok, of crc]
  by (simp add: sample_closed_def sample_header_length) (simp add: sample_marker_frame_def empty_header_def wal_lens)

lemma sample_verifies:
  "verify_existing_compaction_marker_windows crc hm (\<lambda>_. Some (sample_marker crc hm key)) (sample_closed crc) 60 [key] False = Ok 268"
  using verify_sealed(2) [OF sample_sealed, where keys = "[key]" and fs = "[]"]
  by (simp add: sample_closed_length sample_header_length)

lemma closed_segment_windows:
  assumes "verify_existing_compaction_marker_windows crc hm jd bs hlen keys False = Ok n"
  shows "\<forall>w \<in> set (marker_list crc jd bs hlen). authenticates hm keys bs w"
proof -
  obtain prev where "marker_walk crc hm jd bs hlen keys False hlen None = Ok prev"
    using assms by (auto simp: verify_existing_compaction_marker_windows_def Let_def split: if_splits sum.splits)
  from marker_walk_Ok [OF this] show ?thesis by blast
qed

text \<open>
  C14: a closed segment that verifies is signed as a whole. Its bytes after the segment header
  are a prelude of complete frames, each a rollover or a recovery frame, followed, without a gap and up
  to the last byte, by windows each of which is followed by its marker frame and has under one of the
  keys the HMAC the marker records; without any marker the whole segment is prelude. So no other frame is unsigned.
\<close>

theorem closed_segment_is_signed:
  assumes "verify_existing_compaction_marker_windows crc hm jd bs hlen keys False = Ok n"
  shows "(\<forall>w \<in> set (marker_list crc jd bs hlen). authenticates hm keys bs w)
    \<and> (\<exists>fr ds. hlen \<le> fr \<and> fr \<le> length bs \<and> frame_chain crc bs hlen ds fr
         \<and> (\<forall>d \<in> set ds. event_type (df_header d) = EVENT_TYPE_SEGMENT_ROLLOVER
              \<or> event_type (df_header d) = EVENT_TYPE_RECOVERY_TRUNCATED)
         \<and> drop fr bs = concat (map (window_and_marker bs) (marker_list crc jd bs hlen)))"
proof -
  let ?ms = "marker_list crc jd bs hlen"
  obtain prev where walk: "marker_walk crc hm jd bs hlen keys False hlen None = Ok prev" and len: "hlen \<le> length bs"
    and prev: "case prev of None \<Rightarrow> validate_unsigned_marker_prefix crc bs hlen (length bs) = Ok ()
      | Some e \<Rightarrow> e = length bs"
    using assms by (auto simp: verify_existing_compaction_marker_windows_def Let_def split: if_splits sum.splits option.splits)
  from marker_walk_Ok [OF walk]
  have au: "\<forall>w \<in> set ?ms. authenticates hm keys bs w" and ti: "tiles (signed_from crc bs hlen) None ?ms prev" by blast+
  have "\<exists>fr. signed_from crc bs hlen fr \<and> fr \<le> length bs \<and> drop fr bs = concat (map (window_and_marker bs) ?ms)"
  proof (cases prev)
    case None
    then have "?ms = []" using ti tiles_some_None by auto
    then show ?thesis using None prev len by (auto simp: signed_from_def)
  next
    case (Some e)
    then obtain fr where "signed_from crc bs hlen fr" "fr \<le> length bs"
      "subslice fr (length bs) bs = concat (map (window_and_marker bs) ?ms)"
      using tiles_from [of "signed_from crc bs hlen" ?ms e hm keys bs] ti au prev by auto
    then show ?thesis by (auto simp: subslice_def)
  qed
  then obtain fr where fr: "hlen \<le> fr" "fr \<le> length bs" "validate_unsigned_marker_prefix crc bs hlen fr = Ok ()"
    "drop fr bs = concat (map (window_and_marker bs) ?ms)" by (auto simp: signed_from_def)
  from unsigned_prefix_is_prelude [OF fr(3,1)] fr au show ?thesis unfolding prelude_frame_def by blast
qed

theorem closed_segment_is_signed_witness:
  "\<exists>fr \<ge> 60. drop fr (sample_closed (\<lambda>_. 0)) = concat (map (window_and_marker (sample_closed (\<lambda>_. 0)))
     (marker_list (\<lambda>_. 0) (\<lambda>_. Some (sample_marker (\<lambda>_. 0) (\<lambda>k b. k) [7])) (sample_closed (\<lambda>_. 0)) 60))"
  using closed_segment_is_signed [OF sample_verifies, of "\<lambda>_. 0" "\<lambda>k b. k" "[7]"] by blast

text \<open>
  Contents cannot be changed under a marker without an HMAC collision. If two closed segments
  verify under a key and carry the same markers, then corresponding windows have equal HMACs, so a
  window whose bytes differ exhibits two different inputs with the same HMAC under that key.
\<close>

theorem tampering_needs_a_collision:
  assumes "verify_existing_compaction_marker_windows crc hm jd bs hlen [key] False = Ok n"
    and "verify_existing_compaction_marker_windows crc hm jd bs' hlen [key] False = Ok n'"
    and "marker_list crc jd bs hlen = marker_list crc jd bs' hlen" "(off, stop, m) \<in> set (marker_list crc jd bs hlen)"
  shows "hm key (subslice (unat (mk_from_offset m)) off bs) = hm key (subslice (unat (mk_from_offset m)) off bs')"
proof -
  have "authenticates hm [key] bs (off, stop, m)" "authenticates hm [key] bs' (off, stop, m)"
    using closed_segment_windows [OF assms(1)] closed_segment_windows [OF assms(2)] assms(3,4) by auto
  then show ?thesis using tag_hex_inj by (auto simp: authenticates_def) metis
qed

end
