(* ===== verification/Wal_Names.thy ===== *)
theory Wal_Names
  imports Neoth_Prelude
begin

text \<open>
  Names of segment files in \<open>wal/writer.rs\<close>: the sequence number read from a name and the
  name of the next segment of the same namespace. A path is its file name inside the one WAL
  directory of a writer; \<open>file_stem\<close>, \<open>rsplit_once\<close>, \<open>parse::<u64>\<close> and \<open>{:06}\<close>
  are those of the standard library.
\<close>

section \<open>Standard library\<close>

fun dec_digits :: "nat \<Rightarrow> string" where
  "dec_digits n = (if n < 10 then [char_of (48 + n)] else dec_digits (n div 10) @ [char_of (48 + n mod 10)])"

declare dec_digits.simps [simp del]

definition pad6 :: "nat \<Rightarrow> string" where
  "pad6 n = replicate (6 - length (dec_digits n)) CHR ''0'' @ dec_digits n"

definition digit_value :: "char \<Rightarrow> nat option" where
  "digit_value c = (let v = of_char c :: nat in if 48 \<le> v \<and> v \<le> 57 then Some (v - 48) else None)"

fun read_digits :: "nat \<Rightarrow> string \<Rightarrow> nat option" where
  "read_digits acc [] = Some acc"
| "read_digits acc (c # cs) =
     (case digit_value c of
        None \<Rightarrow> None
      | Some d \<Rightarrow> if 10 * acc + d < 2 ^ 64 then read_digits (10 * acc + d) cs else None)"

definition parse_u64 :: "string \<Rightarrow> nat option" where
  "parse_u64 s =
     (let ds = (case s of c # cs \<Rightarrow> if c = CHR ''+'' then cs else s | [] \<Rightarrow> [])
      in if ds = [] then None else read_digits 0 ds)"

fun split_once :: "'a \<Rightarrow> 'a list \<Rightarrow> ('a list \<times> 'a list) option" where
  "split_once c [] = None"
| "split_once c (x # xs) =
     (if x = c then Some ([], xs)
      else map_option (\<lambda>(l, r). (x # l, r)) (split_once c xs))"

definition rsplit_once :: "'a \<Rightarrow> 'a list \<Rightarrow> ('a list \<times> 'a list) option" where
  "rsplit_once c xs = map_option (\<lambda>(l, r). (List.rev r, List.rev l)) (split_once c (List.rev xs))"

definition file_stem :: "string \<Rightarrow> string" where
  "file_stem name =
     (case rsplit_once CHR ''.'' name of
        None \<Rightarrow> name
      | Some (stem, ext) \<Rightarrow> if stem = [] then name else stem)"

section \<open>Segment names\<close>

definition segment_seq_from_path :: "string \<Rightarrow> u64" where
  "segment_seq_from_path path =
     (case parse_u64 (file_stem path) of
        Some n \<Rightarrow> word_of_nat n
      | None \<Rightarrow>
          (case rsplit_once CHR ''-'' (file_stem path) of
             None \<Rightarrow> 1
           | Some (_, s) \<Rightarrow> (case parse_u64 s of Some n \<Rightarrow> word_of_nat n | None \<Rightarrow> 1)))"

definition next_segment_path :: "string \<Rightarrow> u64 \<Rightarrow> string" where
  "next_segment_path current next_seq =
     (case rsplit_once CHR ''-'' (file_stem current) of
        Some (namespace, s) \<Rightarrow>
          (case parse_u64 s of
             Some _ \<Rightarrow> namespace @ ''-'' @ pad6 (unat next_seq) @ ''.wal''
           | None \<Rightarrow> pad6 (unat next_seq) @ ''.wal'')
      | None \<Rightarrow> pad6 (unat next_seq) @ ''.wal'')"

definition first_segment_path_in_namespace :: "string \<Rightarrow> string" where
  "first_segment_path_in_namespace path =
     (case rsplit_once CHR ''-'' (file_stem path) of
        Some (namespace, s) \<Rightarrow> if length s = 6 then namespace @ ''-000001.wal'' else ''000001.wal''
      | None \<Rightarrow> ''000001.wal'')"

section \<open>Reading back a printed number\<close>

definition digits :: "string \<Rightarrow> bool" where
  "digits s \<longleftrightarrow> (\<forall>c \<in> set s. digit_value c \<noteq> None)"

lemma digits_simps [simp]: "digits []" "digits (c # s) \<longleftrightarrow> digit_value c \<noteq> None \<and> digits s"
  "digits (s @ t) \<longleftrightarrow> digits s \<and> digits t"
  by (auto simp: digits_def)

lemma digit_value_digit [simp]: "d < 10 \<Longrightarrow> digit_value (char_of (48 + d)) = Some d"
  by (simp add: digit_value_def Let_def)

lemma digit_value_zero [simp]: "digit_value CHR ''0'' = Some 0"
  by (simp add: digit_value_def)

lemma digits_dec: "digits (dec_digits n)"
  by (induction n rule: dec_digits.induct) (subst dec_digits.simps, simp)

lemma dec_digits_nonempty: "dec_digits n \<noteq> []"
  by (subst dec_digits.simps) simp

lemma digits_pad6: "digits (pad6 n)" "pad6 n \<noteq> []"
  using digits_dec dec_digits_nonempty by (auto simp: pad6_def digits_def)

fun digits_value :: "nat \<Rightarrow> string \<Rightarrow> nat" where
  "digits_value acc [] = acc"
| "digits_value acc (c # cs) = digits_value (10 * acc + the (digit_value c)) cs"

lemma digits_value_append [simp]: "digits_value acc (s @ t) = digits_value (digits_value acc s) t"
  by (induction s arbitrary: acc) auto

lemma digits_value_mono: "acc \<le> digits_value acc s"
proof (induction s arbitrary: acc)
  case (Cons c s)
  from Cons [of "10 * acc + the (digit_value c)"] show ?case by simp
qed simp

lemma read_digits_value:
  "digits s \<Longrightarrow> digits_value acc s < 2 ^ 64 \<Longrightarrow> read_digits acc s = Some (digits_value acc s)"
proof (induction s arbitrary: acc)
  case (Cons c s)
  then obtain d where d: "digit_value c = Some d" by auto
  with Cons.prems digits_value_mono [of "10 * acc + d" s] have "10 * acc + d < 2 ^ 64" by simp
  with Cons d show ?case by simp
qed simp

lemma digits_value_dec: "digits_value 0 (dec_digits n) = n"
proof (induction n rule: dec_digits.induct)
  case (1 n)
  show ?case
  proof (cases "n < 10")
    case True
    then show ?thesis by (subst dec_digits.simps) simp
  next
    case False
    then have "digits_value 0 (dec_digits n) = 10 * digits_value 0 (dec_digits (n div 10)) + n mod 10"
      by (subst dec_digits.simps) simp
    with 1 False show ?thesis by simp
  qed
qed

lemma digits_value_zeros: "digits_value 0 (replicate k CHR ''0'') = 0"
  by (induction k) simp_all

lemma parse_pad6: "n < 2 ^ 64 \<Longrightarrow> parse_u64 (pad6 n) = Some n"
proof -
  assume n: "n < 2 ^ 64"
  have v: "digits_value 0 (pad6 n) = n"
    by (simp add: pad6_def digits_value_zeros digits_value_dec)
  have "CHR ''+'' \<notin> set (pad6 n)" using digits_pad6(1) [of n] by (auto simp: digits_def digit_value_def)
  then show ?thesis
    using read_digits_value [of "pad6 n" 0] digits_pad6 [of n] n v
    by (auto simp: parse_u64_def Let_def split: list.splits)
qed

lemma not_in_digits: "digits s \<Longrightarrow> digit_value c = None \<Longrightarrow> c \<notin> set s"
  by (auto simp: digits_def)

lemma split_once_first: "c \<notin> set l \<Longrightarrow> split_once c (l @ c # r) = Some (l, r)"
  by (induction l) auto

lemma split_once_None: "split_once c xs = None \<longleftrightarrow> c \<notin> set xs"
  by (induction xs) auto

lemma rsplit_once_last: "c \<notin> set r \<Longrightarrow> rsplit_once c (l @ c # r) = Some (l, r)"
  using split_once_first [of c "List.rev r" "List.rev l"] by (simp add: rsplit_once_def)

lemma rsplit_once_None: "c \<notin> set xs \<Longrightarrow> rsplit_once c xs = None"
  by (simp add: rsplit_once_def split_once_None)

lemma file_stem_wal: "s \<noteq> [] \<Longrightarrow> file_stem (s @ ''.wal'') = s"
  using rsplit_once_last [of "CHR ''.''" "''wal''" s] by (simp add: file_stem_def)

lemma read_digits_minus: "CHR ''-'' \<in> set s \<Longrightarrow> read_digits acc s = None"
  by (induction s arbitrary: acc) (auto simp: digit_value_def split: option.splits)

lemma parse_u64_minus: "CHR ''-'' \<in> set s \<Longrightarrow> parse_u64 s = None"
  by (cases s) (auto simp: parse_u64_def Let_def read_digits_minus simp del: read_digits.simps)

section \<open>Properties\<close>

text \<open>The names of a namespace: all made from one prefix.\<close>

lemma namespace_cases:
  obtains "\<And>n. next_segment_path current n = pad6 (unat n) @ ''.wal''"
  | ns where "\<And>n. next_segment_path current n = ns @ ''-'' @ pad6 (unat n) @ ''.wal''"
proof (cases "rsplit_once CHR ''-'' (file_stem current)")
  case None
  then show ?thesis by (intro that(1)) (simp add: next_segment_path_def)
next
  case (Some p)
  obtain ns s where p: "p = (ns, s)" by (cases p)
  show ?thesis
  proof (cases "parse_u64 s")
    case None
    with Some p show ?thesis by (intro that(1)) (simp add: next_segment_path_def)
  next
    case (Some n)
    with \<open>rsplit_once CHR ''-'' (file_stem current) = Some p\<close> p
    show ?thesis by (intro that(2)) (simp add: next_segment_path_def)
  qed
qed

lemma length_dec_digits: "n < 10 ^ Suc k \<Longrightarrow> length (dec_digits n) \<le> Suc k"
proof (induction k arbitrary: n)
  case 0
  then show ?case by (subst dec_digits.simps) simp
next
  case (Suc k)
  show ?case
  proof (cases "n < 10")
    case False
    have "length (dec_digits (n div 10)) \<le> Suc k" using Suc.prems by (intro Suc.IH) (simp add: div_less_iff_less_mult)
    with False show ?thesis by (subst dec_digits.simps) simp
  qed (subst dec_digits.simps, simp)
qed

lemma length_pad6: "n < 1000000 \<Longrightarrow> length (pad6 n) = 6"
  using length_dec_digits [of n 5] by (simp add: pad6_def)

lemma pad6_1: "pad6 1 = ''000001''"
proof -
  have "dec_digits 1 = ''1''" by code_simp
  moreover have "replicate 5 CHR ''0'' = ''00000''" by (simp add: numeral_eq_Suc)
  ultimately show ?thesis by (simp add: pad6_def)
qed

lemma first_segment_name:
  assumes "unat n < 1000000"
  shows "first_segment_path_in_namespace (next_segment_path current n) = next_segment_path current 1"
proof -
  have minus: "CHR ''-'' \<notin> set (pad6 (unat n))"
    by (intro not_in_digits [OF digits_pad6(1)]) (simp add: digit_value_def)
  show ?thesis
  proof (cases current rule: namespace_cases)
    case 1
    have "file_stem (next_segment_path current n) = pad6 (unat n)" by (simp add: 1 file_stem_wal digits_pad6)
    with rsplit_once_None [OF minus] show ?thesis by (simp add: first_segment_path_in_namespace_def 1 [of 1] pad6_1 [simplified])
  next
    case (2 ns)
    have "file_stem (next_segment_path current n) = ns @ ''-'' @ pad6 (unat n)"
      using file_stem_wal [of "ns @ ''-'' @ pad6 (unat n)"] by (simp add: 2)
    with rsplit_once_last [OF minus, of ns] length_pad6 [OF assms] show ?thesis
      by (simp add: first_segment_path_in_namespace_def 2 [of 1] pad6_1 [simplified])
  qed
qed

text \<open>
  C17: a segment's name determines its sequence number and its namespace. The name made for the
  next segment is read back as exactly that sequence number, for every 64-bit number, and making the
  successor's successor from it gives the same name as making it from the original segment, so a
  chain of rotations never leaves its namespace.
\<close>

theorem segment_names_roundtrip:
  "segment_seq_from_path (next_segment_path current n) = n
   \<and> next_segment_path (next_segment_path current n) m = next_segment_path current m"
proof -
  have p: "parse_u64 (pad6 (unat n)) = Some (unat n)"
    using unsigned_less [of n, where ?'a = nat] by (intro parse_pad6) simp
  have minus: "CHR ''-'' \<notin> set (pad6 (unat n))"
    by (intro not_in_digits [OF digits_pad6(1)]) (simp add: digit_value_def)
  show ?thesis
  proof (cases current rule: namespace_cases)
    case 1
    have "file_stem (next_segment_path current n) = pad6 (unat n)" by (simp add: 1 file_stem_wal digits_pad6)
    moreover have "next_segment_path (next_segment_path current n) m = pad6 (unat m) @ ''.wal''"
      using calculation rsplit_once_None [OF minus] by (simp add: next_segment_path_def [of "next_segment_path current n"])
    ultimately show ?thesis using p by (simp add: segment_seq_from_path_def 1 [of m])
  next
    case (2 ns)
    have stem: "file_stem (next_segment_path current n) = ns @ ''-'' @ pad6 (unat n)"
      using file_stem_wal [of "ns @ ''-'' @ pad6 (unat n)"] by (simp add: 2)
    have "rsplit_once CHR ''-'' (file_stem (next_segment_path current n)) = Some (ns, pad6 (unat n))"
      using rsplit_once_last [OF minus, of ns] stem by simp
    moreover have "parse_u64 (file_stem (next_segment_path current n)) = None"
      by (rule parse_u64_minus) (simp add: stem)
    ultimately show ?thesis
      using p by (simp add: segment_seq_from_path_def next_segment_path_def [of "next_segment_path current n"] 2 [of m])
  qed
qed

end
