(* ===== verification/Wal_Writer.thy ===== *)
theory Wal_Writer
  imports Wal_Markers Wal_Names Wal_Builder
begin

text \<open>
  The writer task of \<open>wal/writer.rs\<close>: segment policy, rotation, the append path of
  \<open>run_writer\<close>, the barrier of the append-once requests, shutdown and startup on a fresh or an
  existing segment, for \<open>CompressionPolicy::None\<close>, the only policy \<open>spawn_for_home\<close> passes.
  The WAL directory is a map from file names to contents; the outcome of every write and sync, the
  clock and the global HLC are inputs. A failed \<open>write_all\<close> leaves any prefix of its bytes in the
  file. Sidecar locks, receipt quotas and tracing are left out.
\<close>

section \<open>Library functions and inputs\<close>

record segment_binding =
  sb_segment_name :: string
  sb_generation :: u32
  sb_sequence :: u64
  sb_start_ts_ns :: u64
  sb_node_id :: bytes
  sb_physical_len :: u64
  sb_sha256 :: bytes

datatype rotation_reason = SizeExceeded | AgeExceeded | SealedResume

record link_payload =
  lk_predecessor :: segment_binding
  lk_closed_bytes :: u64
  lk_opened_segment_name :: string
  lk_opened_generation :: u32
  lk_opened_seq :: u64
  lk_opened_start_ts_ns :: u64
  lk_opened_node_id :: bytes
  lk_reason :: rotation_reason
  lk_ts_ns :: u64

record recovery_payload =
  rc_segment_path :: string
  rc_good_through :: nat
  rc_torn_at :: nat
  rc_bytes_dropped :: nat

text \<open>
  CRC-32C, XXH3, HMAC-SHA256, SHA-256 and \<open>serde_json\<close>'s encoding of the payloads of the
  writer's own frames. The JSON of a marker also holds the segment's compaction epoch and a time.
\<close>

record wal_lib =
  lib_crc :: "bytes \<Rightarrow> u32"
  lib_xxh3 :: "bytes \<Rightarrow> u64"
  lib_hmac :: "bytes \<Rightarrow> bytes \<Rightarrow> bytes"
  lib_sha256 :: "bytes \<Rightarrow> bytes"
  lib_marker_decode :: "bytes \<Rightarrow> marker_payload option"
  lib_marker_json :: "marker_payload \<Rightarrow> u32 \<Rightarrow> u64 \<Rightarrow> bytes"
  lib_link_json :: "link_payload \<Rightarrow> bytes"
  lib_recovery_json :: "recovery_payload \<Rightarrow> u64 \<Rightarrow> bytes"

record stamp =
  st_ts :: u64
  st_now :: u64
  st_global :: hlc

datatype write_result = Written | WriteFailed nat

fun persisted :: "write_result \<Rightarrow> bytes \<Rightarrow> bytes" where
  "persisted Written bs = bs"
| "persisted (WriteFailed k) bs = take k bs"

section \<open>Policies and state\<close>

definition MAX_COMPACTION_MARKER_FRAME_BYTES :: nat where "MAX_COMPACTION_MARKER_FRAME_BYTES = 512"
definition MAX_ROTATION_SUCCESSOR_PREFIX_BYTES :: nat where "MAX_ROTATION_SUCCESSOR_PREFIX_BYTES = 16 * 1024"
definition LEGACY_ROTATION_TARGET_BYTES :: nat where "LEGACY_ROTATION_TARGET_BYTES = 16 * 1024 * 1024"
definition LEGACY_MAX_FRAME_BYTES :: nat where "LEGACY_MAX_FRAME_BYTES = 16 * 1024 * 1024 + 104"
definition LEGACY_SEAL_ENVELOPE_BYTES :: nat where "LEGACY_SEAL_ENVELOPE_BYTES = 1024 * 1024"
definition LEGACY_SAFE_MAX_SEGMENT_PHYSICAL_BYTES :: nat where
  "LEGACY_SAFE_MAX_SEGMENT_PHYSICAL_BYTES = LEGACY_ROTATION_TARGET_BYTES + LEGACY_MAX_FRAME_BYTES + LEGACY_SEAL_ENVELOPE_BYTES"

lemmas writer_bounds = MAX_PAYLOAD_BYTES_def MAX_COMPACTION_MARKER_FRAME_BYTES_def
  MAX_ROTATION_SUCCESSOR_PREFIX_BYTES_def LEGACY_ROTATION_TARGET_BYTES_def LEGACY_MAX_FRAME_BYTES_def
  LEGACY_SEAL_ENVELOPE_BYTES_def LEGACY_SAFE_MAX_SEGMENT_PHYSICAL_BYTES_def

record rotation_policy =
  rp_max_bytes :: u64
  rp_max_age_ns :: u64

definition DEFAULT_MAX_BYTES :: u64 where "DEFAULT_MAX_BYTES = 16 * 1024 * 1024"
definition DEFAULT_MAX_AGE_NS :: u64 where "DEFAULT_MAX_AGE_NS = 24 * 60 * 60 * 1000000000"

definition rotation_policy_default :: rotation_policy where
  "rotation_policy_default = \<lparr>rp_max_bytes = DEFAULT_MAX_BYTES, rp_max_age_ns = DEFAULT_MAX_AGE_NS\<rparr>"

definition validate_rotation_policy :: "rotation_policy \<Rightarrow> wal_error + unit" where
  "validate_rotation_policy policy = (if rp_max_bytes policy > DEFAULT_MAX_BYTES then Err (WalIo OtherIo) else Ok ())"

datatype segment_policy = Rotating rotation_policy | Fixed u64

text \<open>
  \<open>ws_synced\<close> is the number of bytes of the active file known to be on stable storage; it is not a field
  of the code's \<open>WriterState\<close>. A segment is published only after its header was synced. \<open>ws_compaction\<close>, \<open>ws_hmac_key\<close> and \<open>ws_pending_unsynced\<close>
  are local variables of \<open>run_writer\<close>.
\<close>

record writer_state =
  ws_dir :: "string \<rightharpoonup> bytes"
  ws_path :: string
  ws_offset :: u64
  ws_seq :: u64
  ws_opened_at_ns :: u64
  ws_segment_policy :: segment_policy
  ws_compaction_epoch :: u32
  ws_segment_header :: parsed_segment_header
  ws_compaction :: "compaction_state option"
  ws_hmac_key :: "bytes option"
  ws_pending_unsynced :: bool
  ws_synced :: nat

definition active_file :: "writer_state \<Rightarrow> bytes" where
  "active_file s = (case ws_dir s (ws_path s) of Some bs \<Rightarrow> bs | None \<Rightarrow> [])"

definition write_only :: "write_result \<Rightarrow> bytes \<Rightarrow> writer_state \<Rightarrow> writer_state" where
  "write_only w frame s = s\<lparr>ws_dir := (ws_dir s)(ws_path s \<mapsto> active_file s @ persisted w frame)\<rparr>"

definition mark_synced :: "writer_state \<Rightarrow> writer_state" where
  "mark_synced s = s\<lparr>ws_synced := length (active_file s)\<rparr>"

definition write_and_sync :: "write_result \<Rightarrow> bytes \<Rightarrow> writer_state \<Rightarrow> writer_state" where
  "write_and_sync w frame s =
     (let s' = write_only w frame s in if w = Written then mark_synced s' else s')"

definition saturating_sub :: "'a::len word \<Rightarrow> 'a word \<Rightarrow> 'a word" where
  "saturating_sub a b = (if b \<le> a then a - b else 0)"

definition should_rotate :: "u64 \<Rightarrow> nat \<Rightarrow> nat \<Rightarrow> writer_state \<Rightarrow> rotation_reason option" where
  "should_rotate now_ns next_frame_len marker_reserve s =
     (case ws_segment_policy s of
        Fixed _ \<Rightarrow> None
      | Rotating policy \<Rightarrow>
          (let hlen = word_of_nat SEGMENT_HEADER_LEN;
               projected = saturating_add (saturating_add (ws_offset s) (word_of_nat next_frame_len)) (word_of_nat marker_reserve)
           in if ws_offset s \<ge> rp_max_bytes policy \<or> (ws_offset s > hlen \<and> projected > rp_max_bytes policy)
              then Some SizeExceeded
              else if saturating_sub now_ns (ws_opened_at_ns s) \<ge> rp_max_age_ns policy then Some AgeExceeded
              else None))"

definition is_fixed :: "writer_state \<Rightarrow> bool" where
  "is_fixed s = (case ws_segment_policy s of Fixed _ \<Rightarrow> True | Rotating _ \<Rightarrow> False)"

definition ensure_frame_fits :: "nat \<Rightarrow> writer_state \<Rightarrow> wal_error + unit" where
  "ensure_frame_fits frame_len s =
     (let max_bytes = (case ws_segment_policy s of
                         Fixed n \<Rightarrow> n | Rotating _ \<Rightarrow> word_of_nat LEGACY_SAFE_MAX_SEGMENT_PHYSICAL_BYTES);
          projected = saturating_add (ws_offset s) (word_of_nat frame_len)
      in if projected > max_bytes then Err (WalIo OtherIo) else Ok ())"

definition ensure_frame_and_marker_fit :: "nat \<Rightarrow> nat \<Rightarrow> writer_state \<Rightarrow> wal_error + unit" where
  "ensure_frame_and_marker_fit frame_len marker_reserve s =
     (if frame_len + marker_reserve \<ge> 2 ^ 64 then Err (WalIo OtherIo)
      else ensure_frame_fits (frame_len + marker_reserve) s)"

text \<open>\<open>needs_immediate_sync\<close> of \<open>wal/events.rs\<close>: the batchable types, by their codes.\<close>

definition BATCHABLE_EVENT_TYPES :: "u8 list" where
  "BATCHABLE_EVENT_TYPES = [0x23, 0x80, 0x81, 0x82, 0x83, 0x8B, 0x8C, 0x2A, 0x2B, 0xED, 0xEE, 0xEF,
     0x4A, 0x58, 0x59, 0x5B, 0x5C, 0x5F]"

definition needs_immediate_sync :: "u8 \<Rightarrow> bool" where
  "needs_immediate_sync et \<longleftrightarrow> et \<notin> set BATCHABLE_EVENT_TYPES"

section \<open>Frames of the writer's own\<close>

definition synthetic_frame :: "wal_lib \<Rightarrow> stamp \<Rightarrow> u8 \<Rightarrow> bytes \<Rightarrow> wal_frame" where
  "synthetic_frame L st et payload =
     (fst (build (lib_xxh3 L) (st_global st) (st_now st) (with_flags FLAG_SYNTHETIC (builder_new et payload))), payload)"

definition encode_synthetic :: "wal_lib \<Rightarrow> stamp \<Rightarrow> u8 \<Rightarrow> bytes \<Rightarrow> wal_error + bytes" where
  "encode_synthetic L st et payload =
     (case encode_frame (lib_crc L) (fst (synthetic_frame L st et payload)) payload of
        None \<Rightarrow> Err WriterClosed
      | Some f \<Rightarrow> Ok f)"

text \<open>
  Emission of a marker. \<open>finalise_marker\<close> consumes the running HMAC before anything can fail.
  A panic of the encoder ends the writer task.
\<close>

definition emit_compaction_marker ::
    "wal_lib \<Rightarrow> stamp \<Rightarrow> write_result \<Rightarrow> bytes \<Rightarrow> compaction_state \<Rightarrow> writer_state \<Rightarrow> writer_state \<times> (wal_error + unit)" where
  "emit_compaction_marker L st w key c s =
     (if cst_frames_since_marker c = 0 then (s, Ok ())
      else
        (let (c', m) = finalise_marker (lib_hmac L) key (ws_offset s) c;
             s1 = s\<lparr>ws_compaction := Some c'\<rparr>;
             payload_bytes = lib_marker_json L m (ws_compaction_epoch s) (st_ts st)
         in case encode_synthetic L st EVENT_TYPE_COMPACTION_MARKER payload_bytes of
              Err e \<Rightarrow> (s1, Err e)
            | Ok marker_frame \<Rightarrow>
                if length marker_frame > MAX_COMPACTION_MARKER_FRAME_BYTES
                then (s1, Err (unavailable ''writer-generated compaction marker above the transaction ceiling''))
                else case ensure_frame_fits (length marker_frame) s1 of
                       Err e \<Rightarrow> (s1, Err e)
                     | Ok _ \<Rightarrow>
                         (let s2 = write_and_sync w marker_frame s1
                          in case w of
                               WriteFailed _ \<Rightarrow> (s2, Err (WalIo OtherIo))
                             | Written \<Rightarrow>
                                 (let s3 = s2\<lparr>ws_offset := ws_offset s2 + word_of_nat (length marker_frame)\<rparr>
                                  in (s3\<lparr>ws_compaction := Some (compaction_new key (ws_offset s3))\<rparr>, Ok ())))))"

definition emit_owned_marker ::
    "wal_lib \<Rightarrow> stamp \<Rightarrow> write_result \<Rightarrow> writer_state \<Rightarrow> writer_state \<times> (wal_error + unit)" where
  "emit_owned_marker L st w s =
     (case (ws_compaction s, ws_hmac_key s) of
        (Some c, Some key) \<Rightarrow> emit_compaction_marker L st w key c s
      | _ \<Rightarrow> (s, Ok ()))"

section \<open>Rotation\<close>

definition new_segment_header :: "wal_lib \<Rightarrow> u64 \<Rightarrow> u64 \<Rightarrow> parsed_segment_header" where
  "new_segment_header L seq opened_at_ns = V1 (seg_v1_new (lib_crc L) 0 seq 0 opened_at_ns (replicate 16 0))"

definition closed_segment_binding :: "wal_lib \<Rightarrow> string \<Rightarrow> u64 \<Rightarrow> (string \<rightharpoonup> bytes) \<Rightarrow> wal_error + segment_binding" where
  "closed_segment_binding L path expected_sequence dir =
     (case dir path of
        None \<Rightarrow> Err (WalIo OtherIo)
      | Some bs \<Rightarrow>
          if length bs > LEGACY_SAFE_MAX_SEGMENT_PHYSICAL_BYTES then Err (WalIo OtherIo)
          else case parse_segment_header (lib_crc L) bs of
                 Err e \<Rightarrow> Err e
               | Ok parsed \<Rightarrow>
                   if parsed_seq parsed \<noteq> expected_sequence then Err (WalIo OtherIo)
                   else Ok \<lparr>sb_segment_name = path, sb_generation = parsed_generation parsed,
                            sb_sequence = parsed_seq parsed, sb_start_ts_ns = parsed_start_ts_ns parsed,
                            sb_node_id = parsed_node_id parsed, sb_physical_len = word_of_nat (length bs),
                            sb_sha256 = lib_sha256 L bs\<rparr>)"

record rotation_io =
  ri_marker_stamp :: stamp
  ri_marker_write :: write_result
  ri_sync_all :: bool
  ri_now :: u64
  ri_link_stamp :: stamp
  ri_link_marker_stamp :: stamp
  ri_publish :: bool

text \<open>The authenticated prefix a successor starts with: its header, the link frame and its marker.\<close>

definition successor_prefix ::
    "wal_lib \<Rightarrow> rotation_io \<Rightarrow> bytes \<Rightarrow> bytes \<Rightarrow> bytes \<Rightarrow> wal_error + bytes" where
  "successor_prefix L io key new_header payload =
     (case encode_synthetic L (ri_link_stamp io) EVENT_TYPE_SEGMENT_ROLLOVER payload of
        Err e \<Rightarrow> Err e
      | Ok link_frame \<Rightarrow>
          (let hlen = length new_header;
               link_end = hlen + length link_frame;
               link_hmac = compaction_update link_frame (compaction_new key (word_of_nat hlen));
               (_, link_marker) = finalise_marker (lib_hmac L) key (word_of_nat link_end) link_hmac;
               marker_payload = lib_marker_json L link_marker 0 (ri_now io)
           in if 2 ^ 64 \<le> link_end then Err (WalIo OtherIo)
              else case encode_synthetic L (ri_link_marker_stamp io) EVENT_TYPE_COMPACTION_MARKER marker_payload of
                     Err e \<Rightarrow> Err e
                   | Ok marker_frame \<Rightarrow>
                       (let prefix = new_header @ link_frame @ marker_frame
                        in if length prefix > MAX_ROTATION_SUCCESSOR_PREFIX_BYTES then Err (WalIo OtherIo) else Ok prefix)))"

definition rotate :: "wal_lib \<Rightarrow> rotation_io \<Rightarrow> rotation_reason \<Rightarrow> writer_state \<Rightarrow> writer_state \<times> (wal_error + unit)" where
  "rotate L io reason s0 =
     (case emit_owned_marker L (ri_marker_stamp io) (ri_marker_write io) s0 of
        (s, Err e) \<Rightarrow> (s, Err e)
      | (s, Ok _) \<Rightarrow>
          if \<not> ri_sync_all io then (s, Err (WalIo OtherIo))
          else
            (let s = mark_synced s in
             case closed_segment_binding L (ws_path s) (ws_seq s) (ws_dir s) of
               Err e \<Rightarrow> (s, Err e)
             | Ok predecessor \<Rightarrow>
                 (let next_seq = ws_seq s + 1;
                      next_path = next_segment_path (ws_path s) next_seq;
                      parsed_new_header = new_segment_header L next_seq (ri_now io)
                  in case ws_hmac_key s of
                       None \<Rightarrow> (s, Err (unavailable ''rotating WAL writer cannot publish a successor without HMAC authority''))
                     | Some key \<Rightarrow>
                         (let link = \<lparr>lk_predecessor = predecessor, lk_closed_bytes = ws_offset s,
                                lk_opened_segment_name = next_path, lk_opened_generation = parsed_generation parsed_new_header,
                                lk_opened_seq = next_seq, lk_opened_start_ts_ns = parsed_start_ts_ns parsed_new_header,
                                lk_opened_node_id = parsed_node_id parsed_new_header, lk_reason = reason, lk_ts_ns = ri_now io\<rparr>
                          in case successor_prefix L io key (seg_encode parsed_new_header) (lib_link_json L link) of
                               Err e \<Rightarrow> (s, Err e)
                             | Ok prefix \<Rightarrow>
                                 if ws_dir s next_path \<noteq> None then (s, Err (WalIo AlreadyExists))
                                 else if \<not> ri_publish io then (s, Err (WalIo OtherIo))
                                 else (s\<lparr>ws_dir := (ws_dir s)(next_path \<mapsto> prefix), ws_path := next_path, ws_seq := next_seq,
                                         ws_opened_at_ns := ri_now io, ws_offset := word_of_nat (length prefix),
                                         ws_compaction_epoch := 0, ws_segment_header := parsed_new_header,
                                         ws_compaction := Some (compaction_new key (word_of_nat (length prefix))),
                                         ws_synced := length prefix\<rparr>, Ok ())))))"

section \<open>The append path\<close>

text \<open>
  A request of a caller: its header and payload and whether the acknowledgement needs a marker.
  \<open>ai_authority\<close> is whether the lease on the HMAC key file still holds
  (\<open>validate_hmac_writer_authority\<close>), which is not asked without an HMAC authority.
\<close>

record write_request =
  rq_header :: event_header
  rq_payload :: bytes
  rq_force_authentication_marker :: bool

record append_io =
  ai_authority :: bool
  ai_now :: u64
  ai_sync :: bool
  ai_rotation :: rotation_io
  ai_write :: write_result
  ai_marker_stamp :: stamp
  ai_marker_write :: write_result

text \<open>
  The writer goes on or stops; a request is answered or its reply channel is dropped
  (\<open>None\<close>), which its caller sees as \<open>WriterClosed\<close>.
\<close>

datatype writer_step =
    Running (step_state: writer_state) (step_ack: "(wal_error + u64) option")
  | Stopped (step_state: writer_state) (step_ack: "(wal_error + u64) option")

definition authority_holds :: "append_io \<Rightarrow> writer_state \<Rightarrow> bool" where
  "authority_holds io s \<longleftrightarrow> ws_hmac_key s = None \<or> ai_authority io"

definition frame_triggers_marker :: "bytes \<Rightarrow> writer_state \<Rightarrow> bool" where
  "frame_triggers_marker frame s =
     (case ws_compaction s of
        None \<Rightarrow> False
      | Some c \<Rightarrow> saturating_add (cst_frames_since_marker c) 1 \<ge> MAX_FRAMES_BETWEEN_MARKERS
          \<or> saturating_add (cst_bytes_since_marker c) (word_of_nat (length frame)) \<ge> MAX_BYTES_BETWEEN_MARKERS)"

definition marker_reserve :: "bytes \<Rightarrow> bool \<Rightarrow> writer_state \<Rightarrow> nat" where
  "marker_reserve frame force s =
     (if ws_hmac_key s \<noteq> None \<and> (\<not> is_fixed s \<or> frame_triggers_marker frame s \<or> force)
      then MAX_COMPACTION_MARKER_FRAME_BYTES else 0)"

text \<open>The rotation before a frame, with the sync of the batched frames of the closing segment.\<close>

definition preflight_rotation ::
    "wal_lib \<Rightarrow> append_io \<Rightarrow> nat \<Rightarrow> nat \<Rightarrow> writer_state \<Rightarrow> writer_state \<times> (wal_error + unit)" where
  "preflight_rotation L io frame_len reserve s =
     (case should_rotate (ai_now io) frame_len reserve s of
        None \<Rightarrow> (s, Ok ())
      | Some reason \<Rightarrow>
          if \<not> authority_holds io s then (s, Err (unavailable ''HMAC writer lease namespace is no longer authoritative''))
          else if ws_pending_unsynced s \<and> \<not> ai_sync io then (s, Err (WalIo OtherIo))
          else rotate L (ai_rotation io) reason
                 (if ws_pending_unsynced s then (mark_synced s)\<lparr>ws_pending_unsynced := False\<rparr> else s))"

text \<open>The bookkeeping after the bytes of a frame were written.\<close>

definition after_write ::
    "wal_lib \<Rightarrow> append_io \<Rightarrow> bytes \<Rightarrow> bool \<Rightarrow> writer_state \<Rightarrow> writer_step" where
  "after_write L io frame force s =
     (let written_at = ws_offset s;
          s1 = s\<lparr>ws_offset := ws_offset s + word_of_nat (length frame)\<rparr>
      in case (ws_compaction s1, ws_hmac_key s1) of
           (Some c, Some key) \<Rightarrow>
             (let c' = compaction_update frame c; s2 = s1\<lparr>ws_compaction := Some c'\<rparr>
              in if should_emit c' \<or> force then
                   if \<not> authority_holds io s2 then Stopped s2 None
                   else (case emit_compaction_marker L (ai_marker_stamp io) (ai_marker_write io) key c' s2 of
                           (s3, Err e) \<Rightarrow> Stopped s3 (Some (Err e))
                         | (s3, Ok _) \<Rightarrow> Running (s3\<lparr>ws_pending_unsynced := False\<rparr>) (Some (Ok written_at)))
                 else Running s2 (Some (Ok written_at)))
         | _ \<Rightarrow> Running s1 (Some (Ok written_at)))"

definition append_request :: "wal_lib \<Rightarrow> append_io \<Rightarrow> write_request \<Rightarrow> writer_state \<Rightarrow> writer_step" where
  "append_request L io rq s =
     (case encode_frame (lib_crc L) (rq_header rq) (rq_payload rq) of
        None \<Rightarrow> Stopped s None
      | Some frame \<Rightarrow>
          if rq_force_authentication_marker rq \<and> (ws_compaction s = None \<or> ws_hmac_key s = None)
          then Running s (Some (Err (unavailable ''forced authenticated append reached a writer without HMAC compaction state'')))
          else
            (let reserve = marker_reserve frame (rq_force_authentication_marker rq) s
             in case preflight_rotation L io (length frame) reserve s of
                  (s1, Err _) \<Rightarrow> Stopped s1 None
                | (s1, Ok _) \<Rightarrow>
                    if \<not> authority_holds io s1 then Stopped s1 None
                    else (case ensure_frame_and_marker_fit (length frame) reserve s1 of
                            Err e \<Rightarrow> Stopped s1 (Some (Err e))
                          | Ok _ \<Rightarrow>
                              (let immediate = needs_immediate_sync (event_type (rq_header rq));
                                   s2 = (if immediate then write_and_sync (ai_write io) frame s1
                                         else write_only (ai_write io) frame s1)
                               in case ai_write io of
                                    Written \<Rightarrow>
                                      after_write L io frame (rq_force_authentication_marker rq)
                                        (s2\<lparr>ws_pending_unsynced := \<not> immediate\<rparr>)
                                  | WriteFailed _ \<Rightarrow>
                                      if is_fixed s2 then Stopped s2 (Some (Err (WalIo OtherIo)))
                                      else Running s2 (Some (Err (WalIo OtherIo)))))))"

text \<open>\<open>flush_pending\<close>'s barrier in the request loop. Its reply carries no value, written here as \<open>0\<close>.\<close>

definition flush_request :: "append_io \<Rightarrow> writer_state \<Rightarrow> writer_step" where
  "flush_request io s =
     (if \<not> authority_holds io s then Stopped s (Some (Err (unavailable ''HMAC writer lease namespace is no longer authoritative'')))
      else if ai_sync io then Running ((mark_synced s)\<lparr>ws_pending_unsynced := False\<rparr>) (Some (Ok 0))
      else if is_fixed s then Stopped s (Some (Err (WalIo OtherIo)))
      else Running s (Some (Err (WalIo OtherIo))))"

text \<open>
  The barrier before the lookup of an append-once request: the writer closes its own window, so that the
  lookup sees only authenticated frames. The arms of the transcript, dream, redaction, consent and trust
  receipts end the writer when the marker fails; the arms of the companion, Paperless and e-mail vault
  receipts answer \<open>Indeterminate\<close> and go on.
\<close>

datatype once_kind = TranscriptMining | DreamAudit | RedactionRewrite | CounterpartyConsent | TrustDecision
  | CompanionMutation | PaperlessPost | EmailVault

definition marker_failure_is_fatal :: "once_kind \<Rightarrow> bool" where
  "marker_failure_is_fatal k \<longleftrightarrow> k \<noteq> CompanionMutation \<and> k \<noteq> PaperlessPost \<and> k \<noteq> EmailVault"

definition once_barrier :: "wal_lib \<Rightarrow> append_io \<Rightarrow> once_kind \<Rightarrow> writer_state \<Rightarrow> writer_step" where
  "once_barrier L io kind s =
     (case (ws_compaction s, ws_hmac_key s) of
        (Some c, Some key) \<Rightarrow>
          if marker_failure_is_fatal kind \<and> \<not> authority_holds io s then Stopped s None
          else (case emit_compaction_marker L (ai_marker_stamp io) (ai_marker_write io) key c s of
                  (s1, Ok _) \<Rightarrow>
                    Running (if kind = TrustDecision \<and> cst_frames_since_marker c = 0 then s1 else s1\<lparr>ws_pending_unsynced := False\<rparr>) None
                | (s1, Err e) \<Rightarrow>
                    if marker_failure_is_fatal kind then Stopped s1 (Some (Err e)) else Running s1 (Some (Err e)))
      | _ \<Rightarrow> Running s (Some (Err (WalIo OtherIo))))"

text \<open>The end of the loop when every sender is gone.\<close>

definition shutdown_writer :: "wal_lib \<Rightarrow> append_io \<Rightarrow> writer_state \<Rightarrow> writer_state \<times> (wal_error + unit)" where
  "shutdown_writer L io s0 =
     (let (s, r) = (if is_fixed s0 \<or> ws_compaction s0 = None \<or> ws_hmac_key s0 = None then (s0, Ok ())
                    else if \<not> authority_holds io s0 then (s0, Err (unavailable ''HMAC writer lease namespace is no longer authoritative''))
                    else case emit_owned_marker L (ai_marker_stamp io) (ai_marker_write io) s0 of
                           (s1, Err e) \<Rightarrow> (s1, Err e)
                         | (s1, Ok _) \<Rightarrow> (s1\<lparr>ws_pending_unsynced := False\<rparr>, Ok ()))
      in case r of
           Err e \<Rightarrow> (s, Err e)
         | Ok _ \<Rightarrow>
             if \<not> authority_holds io s then (s, Err (unavailable ''HMAC writer lease namespace is no longer authoritative''))
             else if ws_pending_unsynced s then
               if ai_sync io then (mark_synced s, Ok ())
               else if is_fixed s then (s, Err (WalIo OtherIo)) else (s, Ok ())
             else (s, Ok ()))"

section \<open>Startup\<close>

record start_io =
  si_now :: u64
  si_authority :: bool
  si_recovery_stamp :: stamp
  si_recovery_write :: write_result
  si_marker_stamp :: stamp
  si_marker_write :: write_result

definition initial_state ::
    "segment_policy \<Rightarrow> bytes option \<Rightarrow> string \<Rightarrow> (string \<rightharpoonup> bytes) \<Rightarrow> nat \<Rightarrow> u64 \<Rightarrow> parsed_segment_header
     \<Rightarrow> compaction_state option \<Rightarrow> nat \<Rightarrow> writer_state" where
  "initial_state policy key path dir off opened_at parsed c synced =
     \<lparr>ws_dir = dir, ws_path = path, ws_offset = word_of_nat off, ws_seq = segment_seq_from_path path,
      ws_opened_at_ns = opened_at, ws_segment_policy = policy, ws_compaction_epoch = parsed_compaction_epoch parsed,
      ws_segment_header = parsed, ws_compaction = c, ws_hmac_key = key, ws_pending_unsynced = False, ws_synced = synced\<rparr>"

definition recovered_state ::
    "wal_lib \<Rightarrow> bytes option \<Rightarrow> bytes list \<Rightarrow> bytes \<Rightarrow> wal_error + compaction_state option" where
  "recovered_state L key keys segment_bytes =
     (case key of
        None \<Rightarrow> Ok None
      | Some k \<Rightarrow>
          (case recover_compaction_state (lib_crc L) (lib_hmac L) (lib_marker_decode L) k keys segment_bytes of
             Err e \<Rightarrow> Err e | Ok c \<Rightarrow> Ok (Some c)))"

text \<open>The audit frame of a truncation, which is the first frame of the new run.\<close>

definition emit_recovery_frame ::
    "wal_lib \<Rightarrow> start_io \<Rightarrow> recovery_payload \<Rightarrow> writer_state \<Rightarrow> writer_state \<times> (wal_error + unit)" where
  "emit_recovery_frame L io rec s =
     (if ws_hmac_key s \<noteq> None \<and> \<not> si_authority io
      then (s, Err (unavailable ''HMAC writer lease namespace is no longer authoritative''))
      else case encode_synthetic L (si_recovery_stamp io) EVENT_TYPE_RECOVERY_TRUNCATED
                  (lib_recovery_json L rec (st_ts (si_recovery_stamp io))) of
             Err e \<Rightarrow> (s, Err e)
           | Ok frame \<Rightarrow>
               (let s1 = write_and_sync (si_recovery_write io) frame s
                in case si_recovery_write io of
                     WriteFailed _ \<Rightarrow> (s1, Err (WalIo OtherIo))
                   | Written \<Rightarrow>
                       (s1\<lparr>ws_offset := ws_offset s1 + word_of_nat (length frame),
                           ws_compaction := map_option (compaction_update frame) (ws_compaction s1)\<rparr>, Ok ())))"

definition close_recovered_window ::
    "wal_lib \<Rightarrow> start_io \<Rightarrow> writer_state \<Rightarrow> writer_state \<times> (wal_error + unit)" where
  "close_recovered_window L io s =
     (if ws_compaction s = None \<or> ws_hmac_key s = None then (s, Ok ())
      else if \<not> si_authority io then (s, Err (unavailable ''HMAC writer lease namespace is no longer authoritative''))
      else emit_owned_marker L (si_marker_stamp io) (si_marker_write io) s)"

definition finish_startup ::
    "wal_lib \<Rightarrow> start_io \<Rightarrow> string \<Rightarrow> scan_result \<Rightarrow> nat \<Rightarrow> writer_state \<Rightarrow> (string \<rightharpoonup> bytes) \<times> (wal_error + writer_state)" where
  "finish_startup L io path scan len s0 =
     (case (case scan of
              Clean _ \<Rightarrow> (s0, Ok ())
            | TornAt good_through torn_at \<Rightarrow>
                emit_recovery_frame L io
                  \<lparr>rc_segment_path = path, rc_good_through = good_through, rc_torn_at = torn_at,
                   rc_bytes_dropped = len - good_through\<rparr> s0) of
        (s1, Err e) \<Rightarrow> (ws_dir s1, Err e)
      | (s1, Ok _) \<Rightarrow>
          (case close_recovered_window L io s1 of
             (s2, Err e) \<Rightarrow> (ws_dir s2, Err e)
           | (s2, Ok _) \<Rightarrow> (ws_dir s2, Ok s2)))"

text \<open>
  An existing segment is read up to the scanner's ceiling, refused when it is sealed or carries the legacy
  compressed flag, cut at the end of its last complete frame, and its window is rebuilt and closed before the
  first request is served. The result keeps the directory as it was left when startup fails.
\<close>

definition resume_segment ::
    "wal_lib \<Rightarrow> start_io \<Rightarrow> segment_policy \<Rightarrow> bytes option \<Rightarrow> bytes list \<Rightarrow> string \<Rightarrow> (string \<rightharpoonup> bytes) \<Rightarrow> bytes
     \<Rightarrow> (string \<rightharpoonup> bytes) \<times> (wal_error + writer_state)" where
  "resume_segment L io policy key keys path dir bs =
     (if length bs > LEGACY_SAFE_MAX_SEGMENT_PHYSICAL_BYTES then (dir, Err (WalIo OtherIo))
      else case parse_segment_header (lib_crc L) bs of
             Err e \<Rightarrow> (dir, Err e)
           | Ok parsed \<Rightarrow>
               if parsed_is_compressed parsed \<or> parsed_is_sealed parsed then (dir, Err (WalIo OtherIo))
               else
                 (let scan = scan_tail (lib_crc L) bs;
                      resume = resume_offset scan;
                      dir1 = (if is_torn scan then dir(path \<mapsto> take resume bs) else dir)
                  in case recovered_state L key keys (take resume bs) of
                       Err e \<Rightarrow> (dir1, Err e)
                     | Ok c \<Rightarrow>
                         finish_startup L io path scan (length bs)
                           (initial_state policy key path dir1 resume (parsed_start_ts_ns parsed) parsed c
                              (if is_torn scan then resume else parsed_header_len parsed))))"

definition start_writer ::
    "wal_lib \<Rightarrow> start_io \<Rightarrow> segment_policy \<Rightarrow> bytes option \<Rightarrow> bytes list \<Rightarrow> string \<Rightarrow> (string \<rightharpoonup> bytes)
     \<Rightarrow> (string \<rightharpoonup> bytes) \<times> (wal_error + writer_state)" where
  "start_writer L io policy key keys path dir =
     (case dir path of
        None \<Rightarrow>
          (let parsed = new_segment_header L (segment_seq_from_path path) (si_now io);
               header = seg_encode parsed;
               dir1 = dir(path \<mapsto> header)
           in case recovered_state L key keys header of
                Err e \<Rightarrow> (dir1, Err e)
              | Ok c \<Rightarrow> (dir1, Ok (initial_state policy key path dir1 (length header) (si_now io) parsed c (length header))))
      | Some bs \<Rightarrow>
          (case policy of
             Fixed _ \<Rightarrow> (dir, Err (WalIo AlreadyExists))
           | Rotating _ \<Rightarrow> resume_segment L io policy key keys path dir bs))"

end
