(* ===== verification/Wal_Inv.thy ===== *)
theory Wal_Inv
  imports Wal_Writer
begin

text \<open>
  The invariant of a running writer and that every step which reports success keeps it: the active file
  is a chain of authenticated windows followed by the frames of the open window, the running HMAC state
  is the one of exactly these frames, and the recorded offset is the length of the file.
\<close>

section \<open>Hypotheses on the environment\<close>

text \<open>
  What the writer relies on of its libraries. \<open>hmac_sized\<close>: HMAC-SHA256 has 32 bytes, so the tag of a marker
  is 64 lower-case hexadecimal digits (\<open>hex_tag\<close>). \<open>marker_json_ok\<close>: \<open>serde_json\<close> reads the fields of a marker with such
  a tag back from its JSON, the epoch being the one written and the unknown field \<open>ts_ns\<close> ignored. \<open>stamp_ok\<close>: the
  global clock gives a time a header can carry.
\<close>

definition hex_tag :: "string \<Rightarrow> bool" where
  "hex_tag t \<longleftrightarrow> length t = 64 \<and> set t \<subseteq> set LOWER_HEX"

definition hmac_sized :: "wal_lib \<Rightarrow> bool" where
  "hmac_sized L \<longleftrightarrow> (\<forall>k b. length (lib_hmac L k b) = 32)"

definition marker_json_ok :: "wal_lib \<Rightarrow> bool" where
  "marker_json_ok L \<longleftrightarrow> hmac_sized L \<and> (\<forall>m epoch ts. hex_tag (mk_hmac_hex m) \<longrightarrow>
     lib_marker_decode L (lib_marker_json L m epoch ts) = Some (m\<lparr>mk_compaction_epoch := epoch\<rparr>))"

lemma length_tag_hex: "length (tag_hex t) = 2 * length t"
  by (induction t) (simp_all add: tag_hex_def byte_hex_def)

lemma set_tag_hex: "set (tag_hex t) \<subseteq> set LOWER_HEX"
proof -
  have len: "length LOWER_HEX = 16" by (simp add: LOWER_HEX_def)
  have "unat b div 16 < 16" for b :: u8 using unsigned_less [of b, where ?'a = nat] by (simp add: div_less_iff_less_mult)
  then have "set (byte_hex b) \<subseteq> set LOWER_HEX" for b
    using nth_mem [of "unat b div 16" LOWER_HEX] nth_mem [of "unat b mod 16" LOWER_HEX] by (simp add: byte_hex_def len)
  then show ?thesis by (auto simp: tag_hex_def)
qed

lemma hex_tag_hmac: "hmac_sized L \<Longrightarrow> hex_tag (tag_hex (lib_hmac L k b))"
  using set_tag_hex by (simp add: hex_tag_def length_tag_hex hmac_sized_def)

lemma finalised_tag: "hmac_sized L \<Longrightarrow> finalise_marker (lib_hmac L) key off c = (c', m) \<Longrightarrow> hex_tag (mk_hmac_hex m)"
  by (auto simp: finalise_marker_def hex_tag_hmac)

definition stamp_ok :: "stamp \<Rightarrow> bool" where
  "stamp_ok st \<longleftrightarrow> hlc_valid (tick_global_hlc (st_global st) (st_now st))"

section \<open>Frames of the writer's own\<close>

lemma synthetic_frame_facts:
  assumes "encode_synthetic L st et p = Ok f" "stamp_ok st" "length f \<le> MAX_FRAME_LEN"
  shows "frame_ok (lib_crc L) (synthetic_frame L st et p)" "frame_bytes (lib_crc L) (synthetic_frame L st et p) = f"
    "event_type (fst (synthetic_frame L st et p)) = et" "snd (synthetic_frame L st et p) = p"
proof -
  let ?b = "with_flags FLAG_SYNTHETIC (builder_new et p)" and ?h = "fst (synthetic_frame L st et p)"
  obtain g where b: "build (lib_xxh3 L) (st_global st) (st_now st) ?b = (?h, g)"
    by (cases "build (lib_xxh3 L) (st_global st) (st_now st) ?b") (simp add: synthetic_frame_def)
  have g: "g = tick_global_hlc (st_global st) (st_now st)" using b by (auto simp: build_def Let_def)
  have enc: "encode_frame (lib_crc L) ?h p = Some f"
    using assms(1) by (auto simp: encode_synthetic_def split: option.splits)
  have ids: "id16 (session_id ?h)" "id16 (node_id ?h)"
    by (simp_all add: synthetic_frame_def build_def Let_def builder_new_def with_flags_def id16_def)
  have "reserved_len ?h = 0" by (simp add: synthetic_frame_def build_def Let_def)
  then have len: "length f = 104 + length p"
    using enc encode_frame_length [OF enc ids] by (auto simp: encode_frame_def Let_def wal_lens split: if_splits)
  have ok: "builder_ok ?b"
    using len assms(3) by (simp add: builder_ok_def with_flags_def builder_new_def id16_def FLAG_SYNTHETIC_def frame_bounds)
  have "header_valid ?h"
    using build_valid [OF ok b] assms(2) g by (simp add: stamp_ok_def)
  then show "frame_ok (lib_crc L) (synthetic_frame L st et p)"
    using enc assms(3) encode_frame_length [OF enc ids] by (simp add: frame_ok_def synthetic_frame_def)
  show "frame_bytes (lib_crc L) (synthetic_frame L st et p) = f" "snd (synthetic_frame L st et p) = p"
    using enc by (simp_all add: frame_bytes_def synthetic_frame_def)
  show "event_type ?h = et" by (simp add: synthetic_frame_def build_def Let_def with_flags_def builder_new_def)
qed

section \<open>The running window\<close>

definition window_state :: "wal_lib \<Rightarrow> bytes \<Rightarrow> nat \<Rightarrow> wal_frame list \<Rightarrow> compaction_state" where
  "window_state L key start fs = fold compaction_update (map (frame_bytes (lib_crc L)) fs) (compaction_new key (word_of_nat start))"

lemma window_state_snoc:
  "compaction_update (frame_bytes (lib_crc L) f) (window_state L key start fs) = window_state L key start (fs @ [f])"
  by (simp add: window_state_def)

lemma window_state_Nil: "window_state L key start [] = compaction_new key (word_of_nat start)"
  by (simp add: window_state_def)

lemma window_state_fields:
  assumes "length fs < 2 ^ 32"
  shows "cst_key (window_state L key start fs) = key" "cst_fed (window_state L key start fs) = frames_image (lib_crc L) fs"
    "cst_from_offset (window_state L key start fs) = word_of_nat start"
    "cst_frames_since_marker (window_state L key start fs) = word_of_nat (length fs)"
  using assms
proof (induction fs rule: rev_induct)
  case Nil
  {
    case 1 show ?case by (simp add: window_state_def compaction_new_def)
  next
    case 2 show ?case by (simp add: window_state_def compaction_new_def)
  next
    case 3 show ?case by (simp add: window_state_def compaction_new_def)
  next
    case 4 show ?case by (simp add: window_state_def compaction_new_def)
  }
next
  case (snoc f fs)
  have up: "window_state L key start (fs @ [f]) = compaction_update (frame_bytes (lib_crc L) f) (window_state L key start fs)"
    by (simp add: window_state_snoc)
  {
    case 1 with snoc(1) show ?case by (simp add: up compaction_update_def)
  next
    case 2 with snoc(2) show ?case by (simp add: up compaction_update_def)
  next
    case 3 with snoc(3) show ?case by (simp add: up compaction_update_def)
  next
    case 4
    then have "unat (word_of_nat (length fs) :: u32) + unat (1 :: u32) < 2 ^ 32" by (simp add: unat_of_nat)
    with 4 snoc(4) show ?case by (simp add: up compaction_update_def saturating_add_def)
  }
qed

definition writer_inv :: "wal_lib \<Rightarrow> bytes \<Rightarrow> bytes \<Rightarrow> wal_frame list \<Rightarrow> writer_state \<Rightarrow> bool" where
  "writer_inv L key A fs s \<longleftrightarrow>
     \<not> is_fixed s \<and> ws_hmac_key s = Some key \<and> ws_dir s (ws_path s) = Some (A @ frames_image (lib_crc L) fs)
     \<and> sealed (lib_crc L) (lib_hmac L) (lib_marker_decode L) key (seg_encode (ws_segment_header s)) A
     \<and> parsed_valid (lib_crc L) (ws_segment_header s)
     \<and> \<not> parsed_is_compressed (ws_segment_header s) \<and> \<not> parsed_is_sealed (ws_segment_header s)
     \<and> operator_frames (lib_crc L) fs \<and> length fs < 2 ^ 32
     \<and> ws_compaction s = Some (window_state L key (length A) fs)
     \<and> ws_offset s = word_of_nat (length (A @ frames_image (lib_crc L) fs))
     \<and> length (A @ frames_image (lib_crc L) fs) \<le> LEGACY_SAFE_MAX_SEGMENT_PHYSICAL_BYTES
     \<and> length (seg_encode (ws_segment_header s)) \<le> ws_synced s
     \<and> ws_synced s \<le> length (A @ frames_image (lib_crc L) fs)"

lemma sealed_length: "sealed crc hm jd key hdr A \<Longrightarrow> length hdr \<le> length A"
  using sealed_prefix by fastforce

lemma writer_invD:
  assumes "writer_inv L key A fs s"
  shows "ws_hmac_key s = Some key" "ws_dir s (ws_path s) = Some (A @ frames_image (lib_crc L) fs)"
    "sealed (lib_crc L) (lib_hmac L) (lib_marker_decode L) key (seg_encode (ws_segment_header s)) A"
    "parsed_valid (lib_crc L) (ws_segment_header s)"
    "operator_frames (lib_crc L) fs" "length fs < 2 ^ 32"
    "ws_compaction s = Some (window_state L key (length A) fs)"
    "ws_offset s = word_of_nat (length (A @ frames_image (lib_crc L) fs))"
    "length (A @ frames_image (lib_crc L) fs) \<le> LEGACY_SAFE_MAX_SEGMENT_PHYSICAL_BYTES"
    "ws_synced s \<le> length (A @ frames_image (lib_crc L) fs)"
    "active_file s = A @ frames_image (lib_crc L) fs" "\<not> is_fixed s"
    "\<not> parsed_is_compressed (ws_segment_header s)" "\<not> parsed_is_sealed (ws_segment_header s)"
    "length (seg_encode (ws_segment_header s)) \<le> ws_synced s"
  using assms by (simp_all add: writer_inv_def active_file_def)

lemma safe_lt: "n \<le> LEGACY_SAFE_MAX_SEGMENT_PHYSICAL_BYTES \<Longrightarrow> n < 2 ^ 64"
  by (simp add: writer_bounds)

lemma unat_offset [simp]:
  "n \<le> LEGACY_SAFE_MAX_SEGMENT_PHYSICAL_BYTES \<Longrightarrow> unat (word_of_nat n :: u64) = n"
  using safe_lt [of n] by (simp add: unat_of_nat)

lemma writer_inv_offset:
  "writer_inv L key A fs s \<Longrightarrow> unat (ws_offset s) = length (A @ frames_image (lib_crc L) fs)"
  using writer_invD(8,9) [of L key A fs s] unat_offset by metis

text \<open>The fields a step inside a segment leaves alone.\<close>

definition same_segment :: "writer_state \<Rightarrow> writer_state \<Rightarrow> bool" where
  "same_segment s s' \<longleftrightarrow> ws_path s' = ws_path s \<and> ws_seq s' = ws_seq s \<and> ws_segment_policy s' = ws_segment_policy s
     \<and> ws_hmac_key s' = ws_hmac_key s \<and> ws_segment_header s' = ws_segment_header s
     \<and> ws_opened_at_ns s' = ws_opened_at_ns s \<and> (\<forall>p. p \<noteq> ws_path s \<longrightarrow> ws_dir s' p = ws_dir s p)"

lemma same_segment_refl: "same_segment s s"
  by (simp add: same_segment_def)

lemma same_segment_trans: "same_segment s t \<Longrightarrow> same_segment t u \<Longrightarrow> same_segment s u"
  by (simp add: same_segment_def)

lemma active_write [simp]:
  "active_file (write_only w bs s) = active_file s @ persisted w bs"
  "active_file (write_and_sync w bs s) = active_file s @ persisted w bs"
  by (simp_all add: write_only_def write_and_sync_def mark_synced_def active_file_def Let_def)

lemma same_segment_write: "same_segment s (write_only w bs s)" "same_segment s (write_and_sync w bs s)"
  "same_segment s (mark_synced s)"
  by (simp_all add: same_segment_def write_only_def write_and_sync_def mark_synced_def Let_def)

section \<open>Markers\<close>

text \<open>A marker written for the open window closes it.\<close>

lemma emitted_marker_closes:
  assumes "marker_json_ok L" "stamp_ok st" "operator_frames (lib_crc L) fs" "fs \<noteq> []" "length fs < 2 ^ 32"
    "start + length (frames_image (lib_crc L) fs) < 2 ^ 64"
    "finalise_marker (lib_hmac L) key (word_of_nat (start + length (frames_image (lib_crc L) fs))) (window_state L key start fs) = (c, m)"
    "encode_synthetic L st EVENT_TYPE_COMPACTION_MARKER (lib_marker_json L m epoch ts) = Ok f" "length f \<le> MAX_FRAME_LEN"
  shows "closes (lib_crc L) (lib_hmac L) (lib_marker_decode L) key start fs
    (synthetic_frame L st EVENT_TYPE_COMPACTION_MARKER (lib_marker_json L m epoch ts))"
proof -
  have m: "m = \<lparr>mk_from_offset = word_of_nat start, mk_to_offset = word_of_nat (start + length (frames_image (lib_crc L) fs)),
      mk_frame_count = word_of_nat (length fs), mk_hmac_hex = tag_hex (lib_hmac L key (frames_image (lib_crc L) fs)),
      mk_compaction_epoch = 0\<rparr>"
    using assms(7) window_state_fields [OF assms(5), of L key start] by (auto simp: finalise_marker_def)
  have dec: "lib_marker_decode L (lib_marker_json L m epoch ts) = Some (m\<lparr>mk_compaction_epoch := epoch\<rparr>)"
    using assms(1,7) finalised_tag by (auto simp: marker_json_ok_def)
  have "unat (word_of_nat start :: u64) = start"
    "unat (word_of_nat (start + length (frames_image (lib_crc L) fs)) :: u64) = start + length (frames_image (lib_crc L) fs)"
    using assms(6) by (simp_all add: unat_of_nat del: of_nat_add)
  then show ?thesis
    using synthetic_frame_facts [OF assms(8,2,9)] assms(3,4,5) dec
    by (simp add: closes_def is_marker_def m del: of_nat_add)
qed

lemma fits_Ok:
  assumes "ensure_frame_fits n s = Ok ()" "\<not> is_fixed s" "n < 2 ^ 64"
  shows "unat (ws_offset s) + n \<le> LEGACY_SAFE_MAX_SEGMENT_PHYSICAL_BYTES"
proof -
  let ?S = "word_of_nat LEGACY_SAFE_MAX_SEGMENT_PHYSICAL_BYTES :: u64"
  have "saturating_add (ws_offset s) (word_of_nat n) \<le> ?S"
    using assms(1,2) by (auto simp: ensure_frame_fits_def is_fixed_def Let_def split: segment_policy.splits if_splits)
  then have "unat (saturating_add (ws_offset s) (word_of_nat n)) \<le> unat ?S" by (simp add: word_le_nat_alt)
  then show ?thesis using assms(3) by (simp add: unat_saturating_add unat_of_nat writer_bounds)
qed

lemma offset_advance:
  assumes "a + b \<le> LEGACY_SAFE_MAX_SEGMENT_PHYSICAL_BYTES"
  shows "(word_of_nat a :: u64) + word_of_nat b = word_of_nat (a + b)"
  by simp

text \<open>Emission reports success only with the window closed in the file.\<close>

lemma emit_Ok:
  assumes inv: "writer_inv L key A fs s" and json: "marker_json_ok L" "stamp_ok st"
    and emit: "emit_compaction_marker L st w key (window_state L key (length A) fs) s = (s', Ok ())"
  obtains M where "writer_inv L key (A @ frames_image (lib_crc L) fs @ M) [] s'" "same_segment s s'"
    "fs = [] \<longrightarrow> M = [] \<and> s' = s" "fs \<noteq> [] \<longrightarrow> ws_synced s' = length (A @ frames_image (lib_crc L) fs @ M)"
    "ws_pending_unsynced s' = ws_pending_unsynced s"
proof (cases "fs = []")
  case True
  then have "s' = s" using emit by (simp add: emit_compaction_marker_def window_state_Nil compaction_new_def)
  with inv True same_segment_refl [of s] that [of "[]"] show ?thesis by simp
next
  case False
  note D = writer_invD [OF inv]
  let ?c = "window_state L key (length A) fs" and ?B = "A @ frames_image (lib_crc L) fs"
  have fs: "length fs < 2 ^ 32" by (rule D(6))
  have off: "ws_offset s = word_of_nat (length A + length (frames_image (lib_crc L) fs))" using D(8) by simp
  have "cst_frames_since_marker ?c \<noteq> 0"
    using window_state_fields(4) [OF fs, of L key "length A"] False fs
    by (simp add: word_of_nat_eq_0_iff) (metis False dvd_imp_le length_greater_0_conv not_le)
  obtain c' m where fin: "finalise_marker (lib_hmac L) key (ws_offset s) ?c = (c', m)" by fastforce
  let ?p = "lib_marker_json L m (ws_compaction_epoch s) (st_ts st)" and ?s1 = "s\<lparr>ws_compaction := Some c'\<rparr>"
  obtain f where f: "encode_synthetic L st EVENT_TYPE_COMPACTION_MARKER ?p = Ok f" "length f \<le> 512"
      "ensure_frame_fits (length f) ?s1 = Ok ()" and w: "w = Written"
    and s': "s' = (write_and_sync Written f ?s1)\<lparr>ws_offset := ws_offset s + word_of_nat (length f),
      ws_compaction := Some (compaction_new key (ws_offset s + word_of_nat (length f)))\<rparr>"
    using emit \<open>cst_frames_since_marker ?c \<noteq> 0\<close> fin
    by (auto simp: emit_compaction_marker_def Let_def MAX_COMPACTION_MARKER_FRAME_BYTES_def write_and_sync_def write_only_def
        mark_synced_def split: sum.splits if_splits write_result.splits)
  have room: "length ?B + length f \<le> LEGACY_SAFE_MAX_SEGMENT_PHYSICAL_BYTES"
    using fits_Ok [OF f(3)] f(2) D(12) writer_inv_offset [OF inv] by (simp add: is_fixed_def)
  have fl: "length f \<le> MAX_FRAME_LEN" using f(2) by (simp add: frame_bounds)
  have "closes (lib_crc L) (lib_hmac L) (lib_marker_decode L) key (length A) fs
      (synthetic_frame L st EVENT_TYPE_COMPACTION_MARKER ?p)"
    using emitted_marker_closes [OF json D(5) False fs _ fin [unfolded off] f(1) fl] D(9) safe_lt by simp
  from sealed_window [OF D(3) this]
  have seal: "sealed (lib_crc L) (lib_hmac L) (lib_marker_decode L) key (seg_encode (ws_segment_header s)) (?B @ f)"
    using synthetic_frame_facts(2) [OF f(1) json(2) fl] by simp
  have "writer_inv L key (?B @ f) [] s'"
    using inv seal room off D(11) sealed_length [OF D(3)]
    by (simp add: writer_inv_def s' write_and_sync_def write_only_def mark_synced_def is_fixed_def Let_def window_state_Nil active_file_def add.assoc)
  moreover have "same_segment s s'"
    by (simp add: s' same_segment_def write_and_sync_def write_only_def mark_synced_def Let_def)
  moreover have "ws_synced s' = length (?B @ f)" "ws_pending_unsynced s' = ws_pending_unsynced s"
    using D(11) by (simp_all add: s' write_and_sync_def write_only_def mark_synced_def Let_def active_file_def)
  ultimately show ?thesis using that [of f] False by simp
qed

lemma emit_Err:
  assumes json: "stamp_ok st"
    and emit: "emit_compaction_marker L st w key c s = (s', Err e)"
  obtains mf k where "same_segment s s'" "frame_ok (lib_crc L) mf" "k \<le> length (frame_bytes (lib_crc L) mf)"
    "active_file s' = active_file s @ take k (frame_bytes (lib_crc L) mf)"
proof -
  obtain c' m where fin: "finalise_marker (lib_hmac L) key (ws_offset s) c = (c', m)" by fastforce
  let ?p = "lib_marker_json L m (ws_compaction_epoch s) (st_ts st)" and ?s1 = "s\<lparr>ws_compaction := Some c'\<rparr>"
  have "s' = ?s1 \<or> (\<exists>f k. encode_synthetic L st EVENT_TYPE_COMPACTION_MARKER ?p = Ok f \<and> length f \<le> 512
      \<and> s' = write_and_sync (WriteFailed k) f ?s1)"
    using emit fin
    by (auto simp: emit_compaction_marker_def Let_def MAX_COMPACTION_MARKER_FRAME_BYTES_def split: sum.splits if_splits write_result.splits)
  then show ?thesis
  proof (elim disjE exE conjE)
    assume "s' = ?s1"
    then show ?thesis
      using that [of "(empty_header, [])" 0] empty_frame_ok [of "lib_crc L"]
      by (simp add: same_segment_def active_file_def)
  next
    fix f k assume f: "encode_synthetic L st EVENT_TYPE_COMPACTION_MARKER ?p = Ok f" "length f \<le> 512"
      and s': "s' = write_and_sync (WriteFailed k) f ?s1"
    have fl: "length f \<le> MAX_FRAME_LEN" using f(2) by (simp add: frame_bounds)
    have "same_segment s s'" by (simp add: s' same_segment_def write_and_sync_def write_only_def Let_def)
    moreover have "active_file s' = active_file s @ take (min k (length f)) f" by (simp add: s') (simp add: active_file_def min_def)
    ultimately show ?thesis
      using that [of "synthetic_frame L st EVENT_TYPE_COMPACTION_MARKER ?p" "min k (length f)"]
        synthetic_frame_facts [OF f(1) json fl] by simp
  qed
qed

section \<open>Appending a frame\<close>

lemma inv_written:
  assumes inv: "writer_inv L key A fs s" "Suc (length fs) < 2 ^ 32"
    and g: "frame_ok (lib_crc L) g" "\<not> is_marker g"
    and room: "length (A @ frames_image (lib_crc L) fs) + length (frame_bytes (lib_crc L) g) \<le> LEGACY_SAFE_MAX_SEGMENT_PHYSICAL_BYTES"
    and s': "s' = (if immediate then write_and_sync Written (frame_bytes (lib_crc L) g) s
                   else write_only Written (frame_bytes (lib_crc L) g) s)"
  shows "writer_inv L key A (fs @ [g])
    (s'\<lparr>ws_pending_unsynced := b, ws_offset := ws_offset s' + word_of_nat (length (frame_bytes (lib_crc L) g)),
        ws_compaction := Some (compaction_update (frame_bytes (lib_crc L) g) (window_state L key (length A) fs))\<rparr>)"
  using inv g room writer_invD(8,11) [OF inv(1)] sealed_length [OF writer_invD(3) [OF inv(1)]]
  by (auto simp: writer_inv_def s' write_and_sync_def write_only_def mark_synced_def is_fixed_def Let_def
      window_state_snoc active_file_def add.assoc)

lemma window_not_full:
  assumes "\<not> should_emit (window_state L key start fs)" "length fs < 2 ^ 32"
  shows "length fs < 1024"
  using assms window_state_fields(4) [OF assms(2), of L key start]
  by (simp add: should_emit_def MAX_FRAMES_BETWEEN_MARKERS_def not_le word_less_nat_alt unat_of_nat)

text \<open>After the write the frame belongs to the open window; what remains is the marker.\<close>

lemma after_write_unfold:
  assumes inv: "writer_inv L key A fs s1" "Suc (length fs) < 2 ^ 32"
    and g: "frame_ok (lib_crc L) g" "\<not> is_marker g"
    and room: "length (A @ frames_image (lib_crc L) fs) + length (frame_bytes (lib_crc L) g) \<le> LEGACY_SAFE_MAX_SEGMENT_PHYSICAL_BYTES"
    and s2: "s2 = (if immediate then write_and_sync Written (frame_bytes (lib_crc L) g) s1
                   else write_only Written (frame_bytes (lib_crc L) g) s1)"
  obtains s3 where "writer_inv L key A (fs @ [g]) s3" "same_segment s1 s3"
    "immediate \<longrightarrow> length (A @ frames_image (lib_crc L) (fs @ [g])) \<le> ws_synced s3"
    "after_write L io (frame_bytes (lib_crc L) g) force (s2\<lparr>ws_pending_unsynced := \<not> immediate\<rparr>) =
      (if should_emit (window_state L key (length A) (fs @ [g])) \<or> force then
         if \<not> authority_holds io s3 then Stopped s3 None
         else (case emit_compaction_marker L (ai_marker_stamp io) (ai_marker_write io) key (window_state L key (length A) (fs @ [g])) s3 of
                 (s4, Err e) \<Rightarrow> Stopped s4 (Some (Err e))
               | (s4, Ok _) \<Rightarrow> Running (s4\<lparr>ws_pending_unsynced := False\<rparr>) (Some (Ok (ws_offset s1))))
       else Running s3 (Some (Ok (ws_offset s1))))"
proof -
  let ?f = "frame_bytes (lib_crc L) g" and ?c = "window_state L key (length A) (fs @ [g])"
  let ?s3 = "s2\<lparr>ws_pending_unsynced := \<not> immediate, ws_offset := ws_offset s2 + word_of_nat (length ?f), ws_compaction := Some ?c\<rparr>"
  have inv3: "writer_inv L key A (fs @ [g]) ?s3"
    using inv_written [OF inv g room s2, of "\<not> immediate"] by (simp add: window_state_snoc)
  have same3: "same_segment s1 ?s3" and sync3: "immediate \<longrightarrow> length (A @ frames_image (lib_crc L) (fs @ [g])) \<le> ws_synced ?s3"
    and off: "ws_offset s2 = ws_offset s1"
    using writer_invD(11) [OF inv(1)]
    by (auto simp: s2 same_segment_def write_and_sync_def write_only_def mark_synced_def Let_def active_file_def)
  have cs: "ws_compaction s2 = Some (window_state L key (length A) fs)" "ws_hmac_key s2 = Some key"
    using writer_invD(1,7) [OF inv(1)] by (auto simp: s2 write_and_sync_def write_only_def mark_synced_def Let_def)
  show ?thesis
    by (rule that [OF inv3 same3 sync3]) (use cs off in \<open>simp add: after_write_def Let_def window_state_snoc\<close>)
qed

lemma after_write_Running:
  assumes inv: "writer_inv L key A fs s1" "Suc (length fs) < 2 ^ 32"
    and g: "frame_ok (lib_crc L) g" "\<not> is_marker g"
    and room: "length (A @ frames_image (lib_crc L) fs) + length (frame_bytes (lib_crc L) g) \<le> LEGACY_SAFE_MAX_SEGMENT_PHYSICAL_BYTES"
    and s2: "s2 = (if immediate then write_and_sync Written (frame_bytes (lib_crc L) g) s1
                   else write_only Written (frame_bytes (lib_crc L) g) s1)"
    and json: "marker_json_ok L" "stamp_ok (ai_marker_stamp io)"
    and step: "after_write L io (frame_bytes (lib_crc L) g) force (s2\<lparr>ws_pending_unsynced := \<not> immediate\<rparr>) = Running s' ack"
  obtains A' fs' where "writer_inv L key A' fs' s'" "length fs' < 1024" "same_segment s1 s'"
    "ack = Some (Ok (ws_offset s1))"
    "\<exists>R. A' @ frames_image (lib_crc L) fs' = A @ frames_image (lib_crc L) (fs @ [g]) @ R"
    "immediate \<longrightarrow> length (A @ frames_image (lib_crc L) (fs @ [g])) \<le> ws_synced s'"
    "force \<longrightarrow> fs' = []"
proof -
  let ?c = "window_state L key (length A) (fs @ [g])"
  obtain s3 where inv3: "writer_inv L key A (fs @ [g]) s3" and same3: "same_segment s1 s3"
    and sync3: "immediate \<longrightarrow> length (A @ frames_image (lib_crc L) (fs @ [g])) \<le> ws_synced s3"
    and st: "after_write L io (frame_bytes (lib_crc L) g) force (s2\<lparr>ws_pending_unsynced := \<not> immediate\<rparr>) =
      (if should_emit ?c \<or> force then
         if \<not> authority_holds io s3 then Stopped s3 None
         else (case emit_compaction_marker L (ai_marker_stamp io) (ai_marker_write io) key ?c s3 of
                 (s4, Err e) \<Rightarrow> Stopped s4 (Some (Err e))
               | (s4, Ok _) \<Rightarrow> Running (s4\<lparr>ws_pending_unsynced := False\<rparr>) (Some (Ok (ws_offset s1))))
       else Running s3 (Some (Ok (ws_offset s1))))"
    by (rule after_write_unfold [OF inv g room s2])
  have long: "length (fs @ [g]) < 2 ^ 32" using inv(2) by simp
  show ?thesis
  proof (cases "should_emit ?c \<or> force")
    case False
    with step st have r: "s' = s3" "ack = Some (Ok (ws_offset s1))" by auto
    have "length (fs @ [g]) < 1024" using False window_not_full [OF _ long] by blast
    with that [OF inv3 [folded r(1)]] same3 sync3 r False show ?thesis by fastforce
  next
    case True
    with step st obtain s4 where e: "emit_compaction_marker L (ai_marker_stamp io) (ai_marker_write io) key ?c s3 = (s4, Ok ())"
      and r: "s' = s4\<lparr>ws_pending_unsynced := False\<rparr>" "ack = Some (Ok (ws_offset s1))"
      by (auto split: if_splits prod.splits sum.splits)
    obtain M where M: "writer_inv L key (A @ frames_image (lib_crc L) (fs @ [g]) @ M) [] s4" "same_segment s3 s4"
      "ws_synced s4 = length (A @ frames_image (lib_crc L) (fs @ [g]) @ M)"
      using emit_Ok [OF inv3 json e] by auto
    have "writer_inv L key (A @ frames_image (lib_crc L) (fs @ [g]) @ M) [] s'"
      using M(1) by (simp add: r writer_inv_def is_fixed_def)
    moreover have "same_segment s1 s'"
      using same_segment_trans [OF same3 M(2)] by (simp add: r same_segment_def)
    ultimately show ?thesis using that M(3) r by fastforce
  qed
qed

section \<open>Rotation\<close>

lemma new_segment_header_valid:
  "parsed_valid (lib_crc L) (new_segment_header L seq ts)" "\<not> parsed_is_compressed (new_segment_header L seq ts)"
  "\<not> parsed_is_sealed (new_segment_header L seq ts)" "length (seg_encode (new_segment_header L seq ts)) = SEGMENT_HEADER_LEN"
proof -
  show v: "parsed_valid (lib_crc L) (new_segment_header L seq ts)"
    by (simp add: new_segment_header_def seg_new_valid id16_def)
  show "length (seg_encode (new_segment_header L seq ts)) = SEGMENT_HEADER_LEN"
    using seg_encode_length [OF v] by (simp add: new_segment_header_def)
qed (simp_all add: new_segment_header_def)

text \<open>The prefix a successor is published with is one authenticated window.\<close>

lemma successor_prefix_sealed:
  assumes pre: "successor_prefix L io key hdr payload = Ok prefix"
    and json: "marker_json_ok L" "stamp_ok (ri_link_stamp io)" "stamp_ok (ri_link_marker_stamp io)"
  obtains link M where "prefix = hdr @ frame_bytes (lib_crc L) link @ M" "snd link = payload" "frame_ok (lib_crc L) link"
    "event_type (fst link) = EVENT_TYPE_SEGMENT_ROLLOVER"
    "sealed (lib_crc L) (lib_hmac L) (lib_marker_decode L) key hdr prefix"
    "length prefix \<le> MAX_ROTATION_SUCCESSOR_PREFIX_BYTES"
proof -
  obtain lf where lf: "encode_synthetic L (ri_link_stamp io) EVENT_TYPE_SEGMENT_ROLLOVER payload = Ok lf"
    using pre by (auto simp: successor_prefix_def split: sum.splits)
  let ?link = "synthetic_frame L (ri_link_stamp io) EVENT_TYPE_SEGMENT_ROLLOVER payload"
  let ?stop = "length hdr + length lf"
  obtain c m where fin: "finalise_marker (lib_hmac L) key (word_of_nat ?stop)
      (compaction_update lf (compaction_new key (word_of_nat (length hdr)))) = (c, m)" by fastforce
  obtain mf where mf: "encode_synthetic L (ri_link_marker_stamp io) EVENT_TYPE_COMPACTION_MARKER (lib_marker_json L m 0 (ri_now io)) = Ok mf"
    and p: "prefix = hdr @ lf @ mf" "length (hdr @ lf @ mf) \<le> MAX_ROTATION_SUCCESSOR_PREFIX_BYTES" "?stop < 2 ^ 64"
    using pre lf fin by (auto simp: successor_prefix_def Let_def split: sum.splits if_splits)
  have small: "length lf \<le> MAX_FRAME_LEN" "length mf \<le> MAX_FRAME_LEN"
    using p(2) by (simp_all add: writer_bounds frame_bounds)
  note lk = synthetic_frame_facts [OF lf json(2) small(1)] and mk = synthetic_frame_facts [OF mf json(3) small(2)]
  have one: "compaction_update lf (compaction_new key (word_of_nat (length hdr))) = window_state L key (length hdr) [?link]"
    by (simp add: window_state_def lk(2))
  have ops: "operator_frames (lib_crc L) [?link]"
    using lk by (simp add: is_marker_def EVENT_TYPE_SEGMENT_ROLLOVER_def EVENT_TYPE_COMPACTION_MARKER_def)
  have "closes (lib_crc L) (lib_hmac L) (lib_marker_decode L) key (length hdr) [?link]
      (synthetic_frame L (ri_link_marker_stamp io) EVENT_TYPE_COMPACTION_MARKER (lib_marker_json L m 0 (ri_now io)))"
    using emitted_marker_closes [OF json(1,3) ops, of "length hdr" key c m 0 "ri_now io" mf] p(3) fin mf small(2)
    by (simp add: one lk(2))
  from sealed_window [OF sealed_start this]
  have "sealed (lib_crc L) (lib_hmac L) (lib_marker_decode L) key hdr prefix" by (simp add: p(1) lk(2) mk(2))
  with that [of ?link mf] lk p show ?thesis by simp
qed

text \<open>The authenticated link between two segments, as the successor's first frame records it.\<close>

definition links :: "wal_lib \<Rightarrow> string \<Rightarrow> bytes \<Rightarrow> link_payload \<Rightarrow> bool" where
  "links L closed_path closed_bytes lk \<longleftrightarrow>
     sb_segment_name (lk_predecessor lk) = closed_path
     \<and> sb_sha256 (lk_predecessor lk) = lib_sha256 L closed_bytes
     \<and> unat (lk_closed_bytes lk) = length closed_bytes"

lemma emit_owned_inv:
  assumes "writer_inv L key A fs s"
  shows "emit_owned_marker L st w s = emit_compaction_marker L st w key (window_state L key (length A) fs) s"
  using writer_invD(1,7) [OF assms] by (simp add: emit_owned_marker_def)

abbreviation (input) successor_header :: "wal_lib \<Rightarrow> rotation_io \<Rightarrow> writer_state \<Rightarrow> parsed_segment_header" where
  "successor_header L io s \<equiv> new_segment_header L (ws_seq s + 1) (ri_now io)"

text \<open>What a successful rotation did: it closed the window, bound the closed segment and published a prefix.\<close>

lemma rotate_steps:
  assumes inv: "writer_inv L key A fs s" and json: "marker_json_ok L" "stamp_ok (ri_marker_stamp io)"
    and rot: "rotate L io reason s = (s', Ok ())"
  obtains s1 M pred lk prefix where "writer_inv L key (A @ frames_image (lib_crc L) fs @ M) [] s1" "same_segment s s1"
    "closed_segment_binding L (ws_path s) (ws_seq s) (ws_dir s1) = Ok pred" "lk_predecessor lk = pred" "lk_closed_bytes lk = ws_offset s1"
    "successor_prefix L io key (seg_encode (successor_header L io s)) (lib_link_json L lk) = Ok prefix"
    "ws_dir s1 (next_segment_path (ws_path s) (ws_seq s + 1)) = None"
    "s' = (mark_synced s1)\<lparr>ws_dir := (ws_dir s1)(next_segment_path (ws_path s) (ws_seq s + 1) \<mapsto> prefix),
      ws_path := next_segment_path (ws_path s) (ws_seq s + 1), ws_seq := ws_seq s + 1, ws_opened_at_ns := ri_now io,
      ws_offset := word_of_nat (length prefix), ws_compaction_epoch := 0, ws_segment_header := successor_header L io s,
      ws_compaction := Some (compaction_new key (word_of_nat (length prefix))), ws_synced := length prefix\<rparr>"
proof -
  obtain s1 where e: "emit_owned_marker L (ri_marker_stamp io) (ri_marker_write io) s = (s1, Ok ())"
    using rot by (auto simp: rotate_def split: prod.splits sum.splits)
  obtain M where M: "writer_inv L key (A @ frames_image (lib_crc L) fs @ M) [] s1" "same_segment s s1"
    using emit_Ok [OF inv json e [unfolded emit_owned_inv [OF inv]]] by metis
  let ?s2 = "mark_synced s1"
  let ?next = "next_segment_path (ws_path s) (ws_seq s + 1)" and ?hdr = "new_segment_header L (ws_seq s + 1) (ri_now io)"
  note D = writer_invD [OF M(1)]
  have f2: "ws_path ?s2 = ws_path s" "ws_seq ?s2 = ws_seq s" "ws_hmac_key ?s2 = Some key" "ws_dir ?s2 = ws_dir s1"
    "ws_offset ?s2 = ws_offset s1" "ws_segment_policy ?s2 = ws_segment_policy s"
    using M(2) D(1) by (simp_all add: mark_synced_def same_segment_def)
  obtain pred where pred: "closed_segment_binding L (ws_path s) (ws_seq s) (ws_dir s1) = Ok pred"
    using rot e f2 by (auto simp: rotate_def Let_def split: sum.splits if_splits)
  let ?lk = "\<lparr>lk_predecessor = pred, lk_closed_bytes = ws_offset s1, lk_opened_segment_name = ?next,
     lk_opened_generation = parsed_generation ?hdr, lk_opened_seq = ws_seq s + 1, lk_opened_start_ts_ns = parsed_start_ts_ns ?hdr,
     lk_opened_node_id = parsed_node_id ?hdr, lk_reason = reason, lk_ts_ns = ri_now io\<rparr>"
  obtain prefix where pre: "successor_prefix L io key (seg_encode ?hdr) (lib_link_json L ?lk) = Ok prefix"
    and fresh: "ws_dir s1 ?next = None"
    and s': "s' = ?s2\<lparr>ws_dir := (ws_dir s1)(?next \<mapsto> prefix), ws_path := ?next, ws_seq := ws_seq s + 1, ws_opened_at_ns := ri_now io,
      ws_offset := word_of_nat (length prefix), ws_compaction_epoch := 0, ws_segment_header := ?hdr,
      ws_compaction := Some (compaction_new key (word_of_nat (length prefix))), ws_synced := length prefix\<rparr>"
    using rot e f2 pred by (auto simp: rotate_def Let_def split: sum.splits if_splits)
  show ?thesis by (rule that [OF M pred _ _ pre fresh s']) simp_all
qed

lemma rotate_Ok:
  assumes inv: "writer_inv L key A fs s" and json: "marker_json_ok L"
    and stamps: "stamp_ok (ri_marker_stamp io)" "stamp_ok (ri_link_stamp io)" "stamp_ok (ri_link_marker_stamp io)"
    and rot: "rotate L io reason s = (s', Ok ())"
  obtains B A' lk link M R where "writer_inv L key A' [] s'" "ws_synced s' = length A'"
    "ws_path s' = next_segment_path (ws_path s) (ws_seq s + 1)" "ws_seq s' = ws_seq s + 1"
    "ws_segment_policy s' = ws_segment_policy s" "ws_dir s (ws_path s') = None"
    "ws_dir s' (ws_path s) = Some B" "B = A @ frames_image (lib_crc L) fs @ M"
    "sealed (lib_crc L) (lib_hmac L) (lib_marker_decode L) key (seg_encode (ws_segment_header s)) B"
    "length B \<le> LEGACY_SAFE_MAX_SEGMENT_PHYSICAL_BYTES"
    "\<forall>p. p \<noteq> ws_path s \<longrightarrow> p \<noteq> ws_path s' \<longrightarrow> ws_dir s' p = ws_dir s p"
    "A' = seg_encode (ws_segment_header s') @ frame_bytes (lib_crc L) link @ R" "frame_ok (lib_crc L) link"
    "event_type (fst link) = EVENT_TYPE_SEGMENT_ROLLOVER" "snd link = lib_link_json L lk" "links L (ws_path s) B lk"
    "length A' \<le> MAX_ROTATION_SUCCESSOR_PREFIX_BYTES"
proof -
  obtain s1 M pred lk prefix where M: "writer_inv L key (A @ frames_image (lib_crc L) fs @ M) [] s1" "same_segment s s1"
    and pred: "closed_segment_binding L (ws_path s) (ws_seq s) (ws_dir s1) = Ok pred"
    and lks: "lk_predecessor lk = pred" "lk_closed_bytes lk = ws_offset s1"
    and pre: "successor_prefix L io key (seg_encode (successor_header L io s)) (lib_link_json L lk) = Ok prefix"
    and fresh: "ws_dir s1 (next_segment_path (ws_path s) (ws_seq s + 1)) = None"
    and s': "s' = (mark_synced s1)\<lparr>ws_dir := (ws_dir s1)(next_segment_path (ws_path s) (ws_seq s + 1) \<mapsto> prefix),
      ws_path := next_segment_path (ws_path s) (ws_seq s + 1), ws_seq := ws_seq s + 1, ws_opened_at_ns := ri_now io,
      ws_offset := word_of_nat (length prefix), ws_compaction_epoch := 0, ws_segment_header := successor_header L io s,
      ws_compaction := Some (compaction_new key (word_of_nat (length prefix))), ws_synced := length prefix\<rparr>"
    by (rule rotate_steps [OF inv json stamps(1) rot])
  let ?B = "A @ frames_image (lib_crc L) fs @ M"
  let ?next = "next_segment_path (ws_path s) (ws_seq s + 1)" and ?hdr = "successor_header L io s"
  note D = writer_invD [OF M(1)]
  obtain link R where pfx: "prefix = seg_encode ?hdr @ frame_bytes (lib_crc L) link @ R" "snd link = lib_link_json L lk"
      "frame_ok (lib_crc L) link" "event_type (fst link) = EVENT_TYPE_SEGMENT_ROLLOVER"
      "sealed (lib_crc L) (lib_hmac L) (lib_marker_decode L) key (seg_encode ?hdr) prefix"
      "length prefix \<le> MAX_ROTATION_SUCCESSOR_PREFIX_BYTES"
    by (rule successor_prefix_sealed [OF pre json stamps(2,3)])
  have kept: "ws_dir s1 (ws_path s) = Some ?B" using D(2) M(2) by (simp add: same_segment_def)
  then have other: "?next \<noteq> ws_path s" using fresh by auto
  have off: "unat (ws_offset s1) = length ?B" using writer_inv_offset [OF M(1)] by simp
  have "sb_segment_name pred = ws_path s" "sb_sha256 pred = lib_sha256 L ?B"
    using pred kept by (auto simp: closed_segment_binding_def split: sum.splits if_splits)
  then have lk: "links L (ws_path s) ?B lk" using off lks by (simp add: links_def)
  have "length prefix \<le> LEGACY_SAFE_MAX_SEGMENT_PHYSICAL_BYTES" using pfx(6) by (simp add: writer_bounds)
  then have inv': "writer_inv L key prefix [] s'"
    using pfx(5) new_segment_header_valid D(1,12) sealed_length [OF pfx(5)]
    by (simp add: writer_inv_def s' is_fixed_def mark_synced_def window_state_Nil)
  have dir': "ws_dir s' (ws_path s) = Some ?B" "\<forall>p. p \<noteq> ws_path s \<longrightarrow> p \<noteq> ws_path s' \<longrightarrow> ws_dir s' p = ws_dir s p"
    using kept other M(2) by (auto simp: s' same_segment_def)
  have free: "ws_dir s (ws_path s') = None" using fresh other M(2) by (auto simp: s' same_segment_def)
  have flds: "ws_path s' = ?next" "ws_seq s' = ws_seq s + 1" "ws_segment_policy s' = ws_segment_policy s"
    "ws_synced s' = length prefix" "ws_segment_header s' = ?hdr"
    using M(2) by (simp_all add: s' mark_synced_def same_segment_def)
  have seal: "sealed (lib_crc L) (lib_hmac L) (lib_marker_decode L) key (seg_encode (ws_segment_header s)) ?B"
    using D(3) M(2) by (simp add: same_segment_def)
  show ?thesis
    by (rule that [OF inv' flds(4,1,2,3) free dir'(1) refl seal _ dir'(2) _ pfx(3,4,2) lk pfx(6)])
      (use D(9) flds(5) pfx(1) in simp_all)
qed

lemma sealed_frames:
  assumes "sealed crc hm jd key hdr A"
  obtains gs where "\<forall>g \<in> set gs. frame_ok crc g" "A = hdr @ frames_image crc gs"
  using assms
proof (induction arbitrary: thesis rule: sealed.induct)
  case sealed_start
  show ?case by (rule sealed_start.prems [of "[]"]) simp_all
next
  case (sealed_window A fs mf)
  obtain gs where "\<forall>g \<in> set gs. frame_ok crc g" "A = hdr @ frames_image crc gs" by (rule sealed_window.IH)
  then show ?case
    using sealed_window.hyps(2)
    by (intro sealed_window.prems [of "gs @ fs @ [mf]"]) (auto simp: closes_def operator_frames_def)
qed

section \<open>Requests\<close>

definition request_ok :: "wal_lib \<Rightarrow> write_request \<Rightarrow> bool" where
  "request_ok L rq \<longleftrightarrow> frame_ok (lib_crc L) (rq_header rq, rq_payload rq)
     \<and> event_type (rq_header rq) \<noteq> EVENT_TYPE_COMPACTION_MARKER"

definition stamps_ok :: "append_io \<Rightarrow> bool" where
  "stamps_ok io \<longleftrightarrow> stamp_ok (ai_marker_stamp io) \<and> stamp_ok (ri_marker_stamp (ai_rotation io))
     \<and> stamp_ok (ri_link_stamp (ai_rotation io)) \<and> stamp_ok (ri_link_marker_stamp (ai_rotation io))"

text \<open>A closed segment verifies to its last byte.\<close>

definition closed_segment :: "wal_lib \<Rightarrow> bytes \<Rightarrow> bytes \<Rightarrow> bool" where
  "closed_segment L key bs \<longleftrightarrow>
     (\<exists>ph. parse_segment_header (lib_crc L) bs = Ok ph
        \<and> verify_existing_compaction_marker_windows (lib_crc L) (lib_hmac L) (lib_marker_decode L) bs
            (parsed_header_len ph) [key] False = Ok (length bs))"

definition closed_log :: "wal_lib \<Rightarrow> bytes \<Rightarrow> writer_state \<Rightarrow> bool" where
  "closed_log L key s \<longleftrightarrow> (\<forall>p bs. p \<noteq> ws_path s \<longrightarrow> ws_dir s p = Some bs \<longrightarrow> closed_segment L key bs)"

lemma sealed_closed_segment:
  assumes "sealed (lib_crc L) (lib_hmac L) (lib_marker_decode L) key (seg_encode ph) B" "parsed_valid (lib_crc L) ph" "length B < 2 ^ 64"
  shows "closed_segment L key B"
proof -
  obtain C where C: "B = seg_encode ph @ C" using sealed_prefix [OF assms(1)] by blast
  have "parse_segment_header (lib_crc L) B = Ok ph" using parse_seg_encode [OF assms(2), of C] C by simp
  moreover have "verify_existing_compaction_marker_windows (lib_crc L) (lib_hmac L) (lib_marker_decode L) B
      (parsed_header_len ph) [key] False = Ok (length B)"
    using verify_sealed(2) [OF assms(1), of "[key]" "[]"] assms(3) seg_encode_length [OF assms(2)] by simp
  ultimately show ?thesis by (auto simp: closed_segment_def)
qed

lemma closed_log_same: "closed_log L key s \<Longrightarrow> same_segment s s' \<Longrightarrow> closed_log L key s'"
  by (simp add: closed_log_def same_segment_def)

lemma inv_synced: "writer_inv L key A fs s \<Longrightarrow> writer_inv L key A fs ((mark_synced s)\<lparr>ws_pending_unsynced := b\<rparr>)"
  using writer_invD(11,15) [of L key A fs s] writer_invD(10) [of L key A fs s]
  by (simp add: writer_inv_def mark_synced_def is_fixed_def)

lemma preflight_Ok:
  assumes inv: "writer_inv L key A fs s" "closed_log L key s" "length fs < 1024" and json: "marker_json_ok L" "stamps_ok io"
    and pre: "preflight_rotation L io n r s = (s1, Ok ())"
  obtains A1 fs1 where "writer_inv L key A1 fs1 s1" "closed_log L key s1" "length fs1 < 1024"
proof (cases "should_rotate (ai_now io) n r s")
  case None
  with pre have "s1 = s" by (simp add: preflight_rotation_def)
  with inv that show ?thesis by blast
next
  case (Some reason)
  let ?s0 = "if ws_pending_unsynced s then (mark_synced s)\<lparr>ws_pending_unsynced := False\<rparr> else s"
  have rot: "rotate L (ai_rotation io) reason ?s0 = (s1, Ok ())"
    using pre Some by (auto simp: preflight_rotation_def split: if_splits)
  have inv0: "writer_inv L key A fs ?s0" "ws_dir ?s0 = ws_dir s" "ws_path ?s0 = ws_path s"
    using inv inv_synced [OF inv(1)] by (simp_all add: mark_synced_def)
  obtain B A' M where r: "writer_inv L key A' [] s1" "ws_dir s1 (ws_path s) = Some B"
      "sealed (lib_crc L) (lib_hmac L) (lib_marker_decode L) key (seg_encode (ws_segment_header ?s0)) B"
      "length B \<le> LEGACY_SAFE_MAX_SEGMENT_PHYSICAL_BYTES"
      "\<forall>p. p \<noteq> ws_path s \<longrightarrow> p \<noteq> ws_path s1 \<longrightarrow> ws_dir s1 p = ws_dir s p"
    by (rule rotate_Ok [OF inv0(1) json(1) _ _ _ rot]) (use json(2) inv0(2,3) in \<open>auto simp: stamps_ok_def\<close>)
  have "closed_segment L key B"
    by (rule sealed_closed_segment [OF r(3) writer_invD(4) [OF inv0(1)] safe_lt [OF r(4)]])
  then have "closed_log L key s1"
    using inv(2) r(2,5) by (auto simp: closed_log_def) (metis option.inject)
  with r(1) that show ?thesis by fastforce
qed

lemma fit_room:
  assumes "writer_inv L key A fs s" "ensure_frame_and_marker_fit n r s = Ok ()"
  shows "length (A @ frames_image (lib_crc L) fs) + n \<le> LEGACY_SAFE_MAX_SEGMENT_PHYSICAL_BYTES"
proof -
  have "n + r < 2 ^ 64" "ensure_frame_fits (n + r) s = Ok ()"
    using assms(2) by (auto simp: ensure_frame_and_marker_fit_def split: if_splits)
  then show ?thesis using fits_Ok [of "n + r" s] writer_invD(12) [OF assms(1)] writer_inv_offset [OF assms(1)] by simp
qed

lemma append_Running:
  assumes inv: "writer_inv L key A fs s" "closed_log L key s" "length fs < 1024" and json: "marker_json_ok L" "stamps_ok io"
    and rq: "request_ok L rq" and ack: "append_request L io rq s = Running s' (Some (Ok off))"
  obtains A' fs' P R where "writer_inv L key A' fs' s'" "closed_log L key s'" "length fs' < 1024"
    "A' @ frames_image (lib_crc L) fs' = P @ frame_bytes (lib_crc L) (rq_header rq, rq_payload rq) @ R" "length P = unat off"
    "\<exists>gs. (\<forall>g \<in> set gs. frame_ok (lib_crc L) g) \<and> P = seg_encode (ws_segment_header s') @ frames_image (lib_crc L) gs"
    "needs_immediate_sync (event_type (rq_header rq)) \<longrightarrow>
       unat off + length (frame_bytes (lib_crc L) (rq_header rq, rq_payload rq)) \<le> ws_synced s'"
    "rq_force_authentication_marker rq \<longrightarrow> fs' = []"
proof -
  let ?g = "(rq_header rq, rq_payload rq)" and ?im = "needs_immediate_sync (event_type (rq_header rq))"
  let ?f = "frame_bytes (lib_crc L) ?g" and ?force = "rq_force_authentication_marker rq"
  have g: "frame_ok (lib_crc L) ?g" "\<not> is_marker ?g" using rq by (auto simp: request_ok_def is_marker_def)
  have enc: "encode_frame (lib_crc L) (rq_header rq) (rq_payload rq) = Some ?f" using frame_okD(2) [OF g(1)] by simp
  obtain s1 where pre: "preflight_rotation L io (length ?f) (marker_reserve ?f ?force s) s = (s1, Ok ())"
    and fit: "ensure_frame_and_marker_fit (length ?f) (marker_reserve ?f ?force s) s1 = Ok ()"
    and w: "ai_write io = Written"
    and step: "after_write L io ?f ?force ((if ?im then write_and_sync Written ?f s1 else write_only Written ?f s1)
       \<lparr>ws_pending_unsynced := \<not> ?im\<rparr>) = Running s' (Some (Ok off))"
    using ack enc by (auto simp: append_request_def Let_def split: if_splits prod.splits sum.splits write_result.splits)
  obtain A1 fs1 where inv1: "writer_inv L key A1 fs1 s1" "closed_log L key s1" "length fs1 < 1024"
    by (rule preflight_Ok [OF inv json pre])
  note off1 = writer_inv_offset [OF inv1(1)]
  note room = fit_room [OF inv1(1) fit]
  have suc: "Suc (length fs1) < 2 ^ 32" using inv1(3) by simp
  have stamp: "stamp_ok (ai_marker_stamp io)" using json(2) by (simp add: stamps_ok_def)
  obtain A' fs' where r: "writer_inv L key A' fs' s'" "length fs' < 1024" "same_segment s1 s'"
      "off = ws_offset s1"
      "\<exists>R. A' @ frames_image (lib_crc L) fs' = A1 @ frames_image (lib_crc L) (fs1 @ [?g]) @ R"
      "?im \<longrightarrow> length (A1 @ frames_image (lib_crc L) (fs1 @ [?g])) \<le> ws_synced s'" "?force \<longrightarrow> fs' = []"
    by (rule after_write_Running [OF inv1(1) suc g room refl json(1) stamp step]) (rule that, assumption+, simp, assumption+)
  then obtain R where "A' @ frames_image (lib_crc L) fs' = (A1 @ frames_image (lib_crc L) fs1) @ ?f @ R" by auto
  moreover have "unat off = length (A1 @ frames_image (lib_crc L) fs1)" using r(4) off1 by simp
  moreover have "\<exists>gs. (\<forall>g \<in> set gs. frame_ok (lib_crc L) g)
      \<and> A1 @ frames_image (lib_crc L) fs1 = seg_encode (ws_segment_header s') @ frames_image (lib_crc L) gs"
  proof -
    obtain gs where "\<forall>g \<in> set gs. frame_ok (lib_crc L) g" "A1 = seg_encode (ws_segment_header s1) @ frames_image (lib_crc L) gs"
      by (rule sealed_frames [OF writer_invD(3) [OF inv1(1)]])
    with writer_invD(5) [OF inv1(1)] r(3) show ?thesis
      by (intro exI [of _ "gs @ fs1"]) (auto simp: operator_frames_def same_segment_def)
  qed
  ultimately show ?thesis
    using that [OF r(1) closed_log_same [OF inv1(2) r(3)] r(2), of "A1 @ frames_image (lib_crc L) fs1" R] r(6,7)
    by (simp add: add.assoc)
qed

text \<open>The other requests.\<close>

lemma flush_Running:
  assumes "writer_inv L key A fs s" "flush_request io s = Running s' a"
  shows "writer_inv L key A fs s'" "same_segment s s'"
  using assms inv_synced [OF assms(1), of False]
  by (auto simp: flush_request_def same_segment_def mark_synced_def split: if_splits)

lemma barrier_Running:
  assumes inv: "writer_inv L key A fs s" and json: "marker_json_ok L" "stamp_ok (ai_marker_stamp io)"
    and step: "once_barrier L io kind s = Running s' None"
  obtains A' where "writer_inv L key A' [] s'" "same_segment s s'"
proof -
  let ?c = "window_state L key (length A) fs"
  obtain s1 where e: "emit_compaction_marker L (ai_marker_stamp io) (ai_marker_write io) key ?c s = (s1, Ok ())"
    and s': "s' = s1 \<or> s' = s1\<lparr>ws_pending_unsynced := False\<rparr>"
    using step writer_invD(1,7) [OF inv] by (auto simp: once_barrier_def split: if_splits prod.splits sum.splits)
  obtain M where "writer_inv L key (A @ frames_image (lib_crc L) fs @ M) [] s1" "same_segment s s1"
    using emit_Ok [OF inv json e] by metis
  then have "writer_inv L key (A @ frames_image (lib_crc L) fs @ M) [] s'" "same_segment s s'"
    using s' by (auto simp: writer_inv_def is_fixed_def same_segment_def)
  then show ?thesis by (rule that)
qed

end
