(* ===== verification/Wal_Restart.thy ===== *)
theory Wal_Restart
  imports Wal_Inv
begin

text \<open>
  Crashes and restarts of the writer. A crash leaves any prefix of the active file that holds its
  synced bytes; startup cuts the torn frame, rebuilds the open window and closes it.
\<close>

section \<open>Prefixes of a segment\<close>

lemma cut_frames:
  assumes "\<forall>f \<in> set fs. frame_ok crc f" "n < length (frames_image crc fs)"
  obtains i g k where "i < length fs" "g = fs ! i" "k < length (frame_bytes crc g)"
    "take n (frames_image crc fs) = frames_image crc (take i fs) @ take k (frame_bytes crc g)"
  using assms
proof (induction fs arbitrary: n thesis)
  case (Cons f fs)
  show ?case
  proof (cases "n < length (frame_bytes crc f)")
    case True
    then show ?thesis by (intro Cons.prems(1) [of 0 f n]) simp_all
  next
    case False
    obtain i g k where "i < length fs" "g = fs ! i" "k < length (frame_bytes crc g)"
      "take (n - length (frame_bytes crc f)) (frames_image crc fs) = frames_image crc (take i fs) @ take k (frame_bytes crc g)"
      by (rule Cons.IH [of "n - length (frame_bytes crc f)"]) (use Cons.prems(2,3) False in auto)
    with False show ?thesis by (intro Cons.prems(1) [of "Suc i" g k]) simp_all
  qed
qed simp

lemma frames_count: "operator_frames crc fs \<Longrightarrow> 104 * length fs \<le> length (frames_image crc fs)"
  by (induction fs) (use frame_bytes_pos in fastforce)+

text \<open>
  What a crash leaves: authenticated windows, complete frames of the open window and a proper prefix of one
  more frame.
\<close>

definition resumable :: "wal_lib \<Rightarrow> bytes \<Rightarrow> parsed_segment_header \<Rightarrow> bytes \<Rightarrow> wal_frame list \<Rightarrow> bytes \<Rightarrow> bool" where
  "resumable L key ph A fs bs \<longleftrightarrow>
     parsed_valid (lib_crc L) ph \<and> \<not> parsed_is_compressed ph \<and> \<not> parsed_is_sealed ph
     \<and> sealed (lib_crc L) (lib_hmac L) (lib_marker_decode L) key (seg_encode ph) A
     \<and> operator_frames (lib_crc L) fs
     \<and> (\<exists>g k. frame_ok (lib_crc L) g \<and> k < length (frame_bytes (lib_crc L) g)
            \<and> bs = A @ frames_image (lib_crc L) fs @ take k (frame_bytes (lib_crc L) g))"

lemma resumableI:
  assumes "parsed_valid (lib_crc L) ph" "\<not> parsed_is_compressed ph" "\<not> parsed_is_sealed ph"
    "sealed (lib_crc L) (lib_hmac L) (lib_marker_decode L) key (seg_encode ph) A"
    "operator_frames (lib_crc L) fs"
    "frame_ok (lib_crc L) g" "k < length (frame_bytes (lib_crc L) g)"
  shows "resumable L key ph A fs (A @ frames_image (lib_crc L) fs @ take k (frame_bytes (lib_crc L) g))"
  unfolding resumable_def using assms by blast

lemma resumable_whole:
  assumes "parsed_valid (lib_crc L) ph" "\<not> parsed_is_compressed ph" "\<not> parsed_is_sealed ph"
    "sealed (lib_crc L) (lib_hmac L) (lib_marker_decode L) key (seg_encode ph) A"
    "operator_frames (lib_crc L) fs"
  shows "resumable L key ph A fs (A @ frames_image (lib_crc L) fs)"
  using resumableI [OF assms empty_frame_ok, of 0] length_empty_frame [of "lib_crc L"] by simp

lemma cut_open_window:
  assumes "parsed_valid (lib_crc L) ph" "\<not> parsed_is_compressed ph" "\<not> parsed_is_sealed ph"
    "sealed (lib_crc L) (lib_hmac L) (lib_marker_decode L) key (seg_encode ph) A"
    "\<forall>f \<in> set (fs @ r). frame_ok (lib_crc L) f" "operator_frames (lib_crc L) fs" "length r \<le> 1"
    "n < length (frames_image (lib_crc L) (fs @ r))"
  shows "\<exists>i. resumable L key ph A (take i fs) (A @ take n (frames_image (lib_crc L) (fs @ r)))"
proof -
  obtain i g k where c: "i < length (fs @ r)" "g = (fs @ r) ! i" "k < length (frame_bytes (lib_crc L) g)"
    "take n (frames_image (lib_crc L) (fs @ r)) = frames_image (lib_crc L) (take i (fs @ r)) @ take k (frame_bytes (lib_crc L) g)"
    by (rule cut_frames [OF assms(5,8)])
  have t: "take i (fs @ r) = take i fs" using c(1) assms(7) by (cases r) auto
  have "frame_ok (lib_crc L) g" using c(1,2) assms(5) nth_mem by blast
  moreover have "operator_frames (lib_crc L) (take i fs)"
    using assms(6) by (auto simp: operator_frames_def dest: in_set_takeD)
  ultimately show ?thesis
    using resumableI [OF assms(1-4) _ _ c(3), of "take i fs"] by (intro exI [of _ i]) (simp only: c(4) t)
qed

lemma cut_sealed:
  assumes "sealed (lib_crc L) (lib_hmac L) (lib_marker_decode L) key (seg_encode ph) A"
    "parsed_valid (lib_crc L) ph" "\<not> parsed_is_compressed ph" "\<not> parsed_is_sealed ph"
    "length (seg_encode ph) \<le> n" "n \<le> length A"
  shows "\<exists>B gs. resumable L key ph B gs (take n A)"
  using assms(1,5,6)
proof (induction rule: sealed.induct)
  case sealed_start
  then show ?case
    using resumable_whole [OF assms(2-4) sealed.sealed_start, where fs = "[]" and key = key] by auto
next
  case (sealed_window A fs mf)
  let ?B = "A @ frames_image (lib_crc L) fs @ frame_bytes (lib_crc L) mf"
  have fr: "operator_frames (lib_crc L) fs" "frame_ok (lib_crc L) mf"
    using sealed_window.hyps(2) by (auto simp: closes_def)
  consider "n \<le> length A" | "n = length ?B" | "length A < n" "n < length ?B" using sealed_window.prems(2) by linarith
  then show ?case
  proof cases
    case 1
    then show ?thesis using sealed_window.IH sealed_window.prems(1) by simp
  next
    case 2
    then show ?thesis
      using resumable_whole [OF assms(2-4) sealed.sealed_window [OF sealed_window.hyps], where fs = "[]"] by auto
  next
    case 3
    have "\<exists>i. resumable L key ph A (take i fs) (A @ take (n - length A) (frames_image (lib_crc L) (fs @ [mf])))"
      using fr 3 by (intro cut_open_window [OF assms(2-4) sealed_window.hyps(1)]) (auto simp: operator_frames_def)
    with 3 show ?thesis by auto
  qed
qed

lemma cut_file:
  assumes "parsed_valid (lib_crc L) ph" "\<not> parsed_is_compressed ph" "\<not> parsed_is_sealed ph"
    "sealed (lib_crc L) (lib_hmac L) (lib_marker_decode L) key (seg_encode ph) A" "operator_frames (lib_crc L) fs"
    "length (seg_encode ph) \<le> n" "n \<le> length (A @ frames_image (lib_crc L) fs)"
  shows "\<exists>B gs. resumable L key ph B gs (take n (A @ frames_image (lib_crc L) fs))"
proof -
  consider "n \<le> length A" | "n = length (A @ frames_image (lib_crc L) fs)" | "length A < n" "n < length (A @ frames_image (lib_crc L) fs)"
    using assms(7) by linarith
  then show ?thesis
  proof cases
    case 1
    with cut_sealed [OF assms(4,1-3,6)] show ?thesis by simp
  next
    case 2
    with resumable_whole [OF assms(1-5)] show ?thesis by auto
  next
    case 3
    have "\<exists>i. resumable L key ph A (take i fs) (A @ take (n - length A) (frames_image (lib_crc L) (fs @ [])))"
      using 3 assms(5) by (intro cut_open_window [OF assms(1-4)]) (auto simp: operator_frames_def)
    with 3 show ?thesis by auto
  qed
qed

section \<open>Startup\<close>

text \<open>What the scan and the recovery make of such a file.\<close>

lemma scan_resumable:
  assumes "resumable L key ph A fs bs" "length bs \<le> LEGACY_SAFE_MAX_SEGMENT_PHYSICAL_BYTES"
  shows "resume_offset (scan_tail (lib_crc L) bs) = length (A @ frames_image (lib_crc L) fs)"
    "is_torn (scan_tail (lib_crc L) bs) \<longleftrightarrow> length (A @ frames_image (lib_crc L) fs) < length bs"
    "take (length (A @ frames_image (lib_crc L) fs)) bs = A @ frames_image (lib_crc L) fs"
    "parse_segment_header (lib_crc L) bs = Ok ph" "Suc (length fs) < 2 ^ 32"
proof -
  have v: "parsed_valid (lib_crc L) ph" and fs: "operator_frames (lib_crc L) fs"
    and seal: "sealed (lib_crc L) (lib_hmac L) (lib_marker_decode L) key (seg_encode ph) A"
    using assms(1) by (auto simp: resumable_def)
  obtain g k where g: "frame_ok (lib_crc L) g" "k < length (frame_bytes (lib_crc L) g)"
    "bs = A @ frames_image (lib_crc L) fs @ take k (frame_bytes (lib_crc L) g)"
    using assms(1) unfolding resumable_def by blast
  obtain gs where gs: "\<forall>g \<in> set gs. frame_ok (lib_crc L) g" "A = seg_encode ph @ frames_image (lib_crc L) gs"
    by (rule sealed_frames [OF seal])
  let ?body = "concat (map (frame_bytes (lib_crc L)) (gs @ fs)) @ take k (frame_bytes (lib_crc L) g)"
  have bs: "bs = seg_encode ph @ ?body" by (simp add: g(3) gs(2) frames_image_def)
  have "\<forall>f \<in> set (gs @ fs). frame_ok (lib_crc L) f" using gs(1) fs by (auto simp: operator_frames_def)
  then have gp: "good_prefix (next_frame (lib_crc L)) ?body = length (frames_image (lib_crc L) (gs @ fs))"
    using wal_log.good_prefix_torn [OF _ g(1,2), of "gs @ fs"] by (simp add: frames_image_def)
  have hl: "length (seg_encode ph) = parsed_header_len ph" by (rule seg_encode_length [OF v])
  have ends: "parsed_header_len ph + length (frames_image (lib_crc L) (gs @ fs)) = length (A @ frames_image (lib_crc L) fs)"
    by (simp add: gs(2) hl)
  have "scan_tail (lib_crc L) bs = (let g = parsed_header_len ph + good_prefix (next_frame (lib_crc L)) ?body
      in if g = length (seg_encode ph @ ?body) then Clean g else TornAt g g)"
    using scan_segment_image [OF v, of ?body] safe_lt [OF assms(2)] bs by simp
  then have sc: "scan_tail (lib_crc L) bs = (if length (A @ frames_image (lib_crc L) fs) = length bs
      then Clean (length (A @ frames_image (lib_crc L) fs)) else TornAt (length (A @ frames_image (lib_crc L) fs)) (length (A @ frames_image (lib_crc L) fs)))"
    unfolding gp Let_def ends bs [symmetric] .
  have bl: "length bs = length (A @ frames_image (lib_crc L) fs) + k" using g(2,3) by simp
  show "resume_offset (scan_tail (lib_crc L) bs) = length (A @ frames_image (lib_crc L) fs)"
    "is_torn (scan_tail (lib_crc L) bs) \<longleftrightarrow> length (A @ frames_image (lib_crc L) fs) < length bs"
    unfolding sc using bl by auto
  show "take (length (A @ frames_image (lib_crc L) fs)) bs = A @ frames_image (lib_crc L) fs" by (simp add: g(3))
  show "parse_segment_header (lib_crc L) bs = Ok ph" using parse_seg_encode [OF v, of ?body] bs by simp
  have "104 * length fs \<le> length bs" using frames_count [OF fs] g(3) by simp
  then show "Suc (length fs) < 2 ^ 32" using assms(2) by (simp add: writer_bounds)
qed

text \<open>
  The room startup needs on a file: the audit frame of a cut, if it makes one, is a legal frame and leaves space for a
  marker below the scanner's ceiling. The segment path in the frame is the only field without a bound of its own.
\<close>

definition recovery_frame_len :: "wal_lib \<Rightarrow> start_io \<Rightarrow> string \<Rightarrow> bytes \<Rightarrow> nat" where
  "recovery_frame_len L io path bs =
     (case scan_tail (lib_crc L) bs of
        Clean _ \<Rightarrow> 0
      | TornAt good_through torn_at \<Rightarrow> 104 + length (lib_recovery_json L
          \<lparr>rc_segment_path = path, rc_good_through = good_through, rc_torn_at = torn_at,
           rc_bytes_dropped = length bs - good_through\<rparr> (st_ts (si_recovery_stamp io))))"

definition restart_room :: "wal_lib \<Rightarrow> start_io \<Rightarrow> string \<Rightarrow> bytes \<Rightarrow> bool" where
  "restart_room L io path bs \<longleftrightarrow> recovery_frame_len L io path bs \<le> MAX_FRAME_LEN
     \<and> length bs + recovery_frame_len L io path bs + MAX_COMPACTION_MARKER_FRAME_BYTES \<le> LEGACY_SAFE_MAX_SEGMENT_PHYSICAL_BYTES"

lemma encode_synthetic_length:
  "encode_synthetic L st et p = Ok f \<Longrightarrow> length f = 104 + length p"
proof -
  assume "encode_synthetic L st et p = Ok f"
  then have enc: "encode_frame (lib_crc L) (fst (synthetic_frame L st et p)) p = Some f"
    by (auto simp: encode_synthetic_def split: option.splits)
  have ids: "id16 (session_id (fst (synthetic_frame L st et p)))" "id16 (node_id (fst (synthetic_frame L st et p)))"
    and res: "reserved_len (fst (synthetic_frame L st et p)) = 0"
    by (simp_all add: synthetic_frame_def build_def Let_def builder_new_def with_flags_def id16_def)
  show ?thesis
    using enc encode_frame_length [OF enc ids] res by (auto simp: encode_frame_def Let_def wal_lens split: if_splits)
qed

lemma initial_inv:
  assumes "resumable L key ph A fs bs" "length bs \<le> LEGACY_SAFE_MAX_SEGMENT_PHYSICAL_BYTES"
    "d path = Some (A @ frames_image (lib_crc L) fs)" "parsed_header_len ph \<le> n" "n \<le> length (A @ frames_image (lib_crc L) fs)"
  shows "writer_inv L key A fs (initial_state (Rotating rp) (Some key) path d (length (A @ frames_image (lib_crc L) fs)) t ph
    (Some (window_state L key (length A) fs)) n)"
proof -
  have "length (A @ frames_image (lib_crc L) fs) \<le> length bs" using assms(1) by (auto simp: resumable_def)
  then show ?thesis
    using assms scan_resumable(5) [OF assms(1,2)] seg_encode_length [of "lib_crc L" ph]
    by (simp add: writer_inv_def initial_state_def is_fixed_def resumable_def)
qed

lemma recovery_Ok:
  assumes inv: "writer_inv L key A fs s" "Suc (length fs) < 2 ^ 32" and L: "stamp_ok (si_recovery_stamp io)"
    and n: "n = 104 + length (lib_recovery_json L rec (st_ts (si_recovery_stamp io)))" "n \<le> MAX_FRAME_LEN"
    and room: "length (A @ frames_image (lib_crc L) fs) + n \<le> LEGACY_SAFE_MAX_SEGMENT_PHYSICAL_BYTES"
    and rec: "emit_recovery_frame L io rec s = (s', Ok ())"
  obtains g where "writer_inv L key A (fs @ [g]) s'" "same_segment s s'" "length (frame_bytes (lib_crc L) g) = n"
proof -
  let ?p = "lib_recovery_json L rec (st_ts (si_recovery_stamp io))"
  obtain f where f: "encode_synthetic L (si_recovery_stamp io) EVENT_TYPE_RECOVERY_TRUNCATED ?p = Ok f"
    and s': "s' = (write_and_sync Written f s)\<lparr>ws_offset := ws_offset (write_and_sync Written f s) + word_of_nat (length f),
      ws_compaction := map_option (compaction_update f) (ws_compaction (write_and_sync Written f s))\<rparr>"
    using rec by (auto simp: emit_recovery_frame_def Let_def split: if_splits sum.splits write_result.splits)
  have fl: "length f = n" using encode_synthetic_length [OF f] n(1) by simp
  then have small: "length f \<le> MAX_FRAME_LEN" using n(2) by simp
  let ?g = "synthetic_frame L (si_recovery_stamp io) EVENT_TYPE_RECOVERY_TRUNCATED ?p"
  note g = synthetic_frame_facts [OF f L small]
  have nm: "\<not> is_marker ?g" using g(3) by (simp add: is_marker_def EVENT_TYPE_RECOVERY_TRUNCATED_def EVENT_TYPE_COMPACTION_MARKER_def)
  have fit: "length (A @ frames_image (lib_crc L) fs) + length (frame_bytes (lib_crc L) ?g) \<le> LEGACY_SAFE_MAX_SEGMENT_PHYSICAL_BYTES"
    using room fl g(2) by simp
  have c: "ws_compaction (write_and_sync Written f s) = Some (window_state L key (length A) fs)"
    using writer_invD(7) [OF inv(1)] by (simp add: write_and_sync_def write_only_def mark_synced_def Let_def)
  have "writer_inv L key A (fs @ [?g]) ((write_and_sync Written f s)\<lparr>ws_pending_unsynced := ws_pending_unsynced (write_and_sync Written f s),
      ws_offset := ws_offset (write_and_sync Written f s) + word_of_nat (length f),
      ws_compaction := Some (compaction_update f (window_state L key (length A) fs))\<rparr>)"
    using inv_written [OF inv g(1) nm fit refl, where immediate = True
        and b = "ws_pending_unsynced (write_and_sync Written f s)"] g(2) by simp
  then have "writer_inv L key A (fs @ [?g]) s'" by (simp add: s' c)
  moreover have "same_segment s s'"
    by (simp add: s' same_segment_def write_and_sync_def write_only_def mark_synced_def Let_def)
  ultimately show ?thesis by (rule that) (simp add: g(2) fl)
qed

lemma close_window_Ok:
  assumes inv: "writer_inv L key A fs s" and L: "marker_json_ok L" "stamp_ok (si_marker_stamp io)"
    and close: "close_recovered_window L io s = (s', Ok ())"
  obtains M where "writer_inv L key (A @ frames_image (lib_crc L) fs @ M) [] s'" "same_segment s s'"
proof -
  have "emit_compaction_marker L (si_marker_stamp io) (si_marker_write io) key (window_state L key (length A) fs) s = (s', Ok ())"
    using close writer_invD(1,7) [OF inv] emit_owned_inv [OF inv]
    by (auto simp: close_recovered_window_def split: if_splits)
  from emit_Ok [OF inv L this] that show ?thesis by metis
qed

text \<open>Up to the audit frame and the closing marker, startup is determined by the file.\<close>

lemma resume_eq:
  assumes r: "resumable L key ph A fs bs" "length bs \<le> LEGACY_SAFE_MAX_SEGMENT_PHYSICAL_BYTES" "dir path = Some bs" "key \<in> set keys"
  obtains s0 where "resume_segment L io (Rotating rp) (Some key) keys path dir bs
      = finish_startup L io path (scan_tail (lib_crc L) bs) (length bs) s0"
    "writer_inv L key A fs s0" "ws_path s0 = path" "\<forall>p. p \<noteq> path \<longrightarrow> ws_dir s0 p = dir p" "ws_segment_header s0 = ph"
proof -
  let ?B = "A @ frames_image (lib_crc L) fs" and ?scan = "scan_tail (lib_crc L) bs"
  note sc = scan_resumable [OF r(1,2)]
  have ph: "\<not> parsed_is_compressed ph" "\<not> parsed_is_sealed ph" "parsed_valid (lib_crc L) ph"
    and seal: "sealed (lib_crc L) (lib_hmac L) (lib_marker_decode L) key (seg_encode ph) A" and fs: "operator_frames (lib_crc L) fs"
    and Bl: "length ?B \<le> length bs"
    using r(1) by (auto simp: resumable_def)
  have hl: "parsed_header_len ph \<le> length ?B" using sealed_length [OF seal] seg_encode_length [OF ph(3)] by simp
  have rec: "recovered_state L (Some key) keys ?B = Ok (Some (window_state L key (length A) fs))"
    using recover_sealed [OF seal r(4) fs _ ph(3,1,2)] safe_lt Bl r(2) by (simp add: recovered_state_def window_state_def)
  have whole: "\<not> is_torn ?scan \<Longrightarrow> bs = ?B"
    using sc(2,3) Bl by (metis le_antisym not_less take_all)
  define d1 where "d1 = (if is_torn ?scan then dir(path \<mapsto> ?B) else dir)"
  define s0 where "s0 = initial_state (Rotating rp) (Some key) path d1 (length ?B) (parsed_start_ts_ns ph) ph
    (Some (window_state L key (length A) fs)) (if is_torn ?scan then length ?B else parsed_header_len ph)"
  have d1: "d1 path = Some ?B" "\<forall>p. p \<noteq> path \<longrightarrow> d1 p = dir p"
    using whole r(3) by (simp_all add: d1_def)
  have inv0: "writer_inv L key A fs s0"
    unfolding s0_def by (rule initial_inv [OF r(1,2), of d1 path]) (use hl d1(1) in auto)
  have eq: "resume_segment L io (Rotating rp) (Some key) keys path dir bs = finish_startup L io path ?scan (length bs) s0"
    using r(2) sc(3) ph(1,2) rec by (simp add: resume_segment_def sc(4) sc(1) s0_def d1_def Let_def)
  show ?thesis using that [OF eq inv0] d1(2) by (simp add: s0_def initial_state_def)
qed

text \<open>The audit frame of a cut, as startup asks for it.\<close>

abbreviation recovery_step :: "wal_lib \<Rightarrow> start_io \<Rightarrow> string \<Rightarrow> bytes \<Rightarrow> writer_state \<Rightarrow> writer_state \<times> (wal_error + unit)" where
  "recovery_step L io path bs s0 \<equiv> (case scan_tail (lib_crc L) bs of Clean _ \<Rightarrow> (s0, Ok ())
     | TornAt good torn \<Rightarrow> emit_recovery_frame L io
         \<lparr>rc_segment_path = path, rc_good_through = good, rc_torn_at = torn, rc_bytes_dropped = length bs - good\<rparr> s0)"

lemma restart_roomD:
  assumes "resumable L key ph A fs bs" "restart_room L io path bs"
  shows "length bs \<le> LEGACY_SAFE_MAX_SEGMENT_PHYSICAL_BYTES"
    "length (A @ frames_image (lib_crc L) fs) + recovery_frame_len L io path bs + 512 \<le> LEGACY_SAFE_MAX_SEGMENT_PHYSICAL_BYTES"
    "recovery_frame_len L io path bs \<le> MAX_FRAME_LEN"
  using assms by (auto simp: restart_room_def resumable_def MAX_COMPACTION_MARKER_FRAME_BYTES_def)

lemma recovery_step_Ok:
  assumes r: "resumable L key ph A fs bs" "restart_room L io path bs" and st: "stamp_ok (si_recovery_stamp io)"
    and inv: "writer_inv L key A fs s0" and go: "recovery_step L io path bs s0 = (s1, Ok ())"
  obtains gs where "writer_inv L key A (fs @ gs) s1" "same_segment s0 s1"
    "length (frames_image (lib_crc L) gs) = recovery_frame_len L io path bs"
proof (cases "scan_tail (lib_crc L) bs")
  case (Clean x)
  with go inv same_segment_refl that [of "[]"] show ?thesis by (simp add: recovery_frame_len_def)
next
  case (TornAt x y)
  let ?rec = "\<lparr>rc_segment_path = path, rc_good_through = x, rc_torn_at = y, rc_bytes_dropped = length bs - x\<rparr>"
  note room = restart_roomD [OF r]
  have go': "emit_recovery_frame L io ?rec s0 = (s1, Ok ())" using go TornAt by simp
  have n: "recovery_frame_len L io path bs = 104 + length (lib_recovery_json L ?rec (st_ts (si_recovery_stamp io)))"
    by (simp add: recovery_frame_len_def TornAt)
  have fit: "length (A @ frames_image (lib_crc L) fs) + recovery_frame_len L io path bs \<le> LEGACY_SAFE_MAX_SEGMENT_PHYSICAL_BYTES"
    using room(2) by simp
  obtain g where "writer_inv L key A (fs @ [g]) s1" "same_segment s0 s1"
      "length (frame_bytes (lib_crc L) g) = recovery_frame_len L io path bs"
    by (rule recovery_Ok [OF inv scan_resumable(5) [OF r(1) room(1)] st n room(3) fit go'])
  with that [of "[g]"] show ?thesis by simp
qed

lemma resume_Ok:
  assumes r: "resumable L key ph A fs bs" "restart_room L io path bs" "dir path = Some bs"
    and L: "marker_json_ok L" "stamp_ok (si_recovery_stamp io)" "stamp_ok (si_marker_stamp io)" "key \<in> set keys"
    and res: "resume_segment L io (Rotating rp) (Some key) keys path dir bs = (d, Ok s)"
  obtains R where "writer_inv L key (A @ frames_image (lib_crc L) fs @ R) [] s" "ws_path s = path" "d = ws_dir s"
    "\<forall>p. p \<noteq> path \<longrightarrow> ws_dir s p = dir p"
proof -
  note room = restart_roomD [OF r(1,2)]
  obtain s0 where eq: "resume_segment L io (Rotating rp) (Some key) keys path dir bs
      = finish_startup L io path (scan_tail (lib_crc L) bs) (length bs) s0"
    and inv0: "writer_inv L key A fs s0" and p0: "ws_path s0 = path" "\<forall>p. p \<noteq> path \<longrightarrow> ws_dir s0 p = dir p"
    by (rule resume_eq [where path = path and dir = dir and io = io and rp = rp, OF r(1) room(1) r(3) L(4)])
  obtain s1 r1 where go: "recovery_step L io path bs s0 = (s1, r1)" by fastforce
  obtain s2 r2 where cl: "close_recovered_window L io s1 = (s2, r2)" by fastforce
  have s1: "recovery_step L io path bs s0 = (s1, Ok ())" "close_recovered_window L io s1 = (s, Ok ())" "d = ws_dir s"
    using res unfolding eq finish_startup_def go by (auto simp: go cl split: sum.splits)
  obtain gs where inv1: "writer_inv L key A (fs @ gs) s1" "same_segment s0 s1"
    by (rule recovery_step_Ok [OF r(1,2) L(2) inv0 s1(1)])
  obtain M where M: "writer_inv L key (A @ frames_image (lib_crc L) (fs @ gs) @ M) [] s" "same_segment s1 s"
    by (rule close_window_Ok [OF inv1(1) L(1,3) s1(2)])
  have "same_segment s0 s" by (rule same_segment_trans [OF inv1(2) M(2)])
  then show ?thesis
    using that [of "frames_image (lib_crc L) gs @ M"] M(1) p0 s1(3) by (simp add: same_segment_def)
qed

section \<open>Startup succeeds\<close>

text \<open>
  The JSON of a marker with a hexadecimal tag, three offsets and counts, an epoch and a time, stays within the
  ceiling the writer reserves for it.
\<close>

definition marker_json_small :: "wal_lib \<Rightarrow> bool" where
  "marker_json_small L \<longleftrightarrow> hmac_sized L
     \<and> (\<forall>m epoch ts. hex_tag (mk_hmac_hex m) \<longrightarrow> length (lib_marker_json L m epoch ts) + 104 \<le> MAX_COMPACTION_MARKER_FRAME_BYTES)"

lemma marker_small:
  assumes "marker_json_small L" "finalise_marker (lib_hmac L) key off c = (c', m)"
  shows "length (lib_marker_json L m epoch ts) + 104 \<le> 512"
  using assms(1) finalised_tag [OF _ assms(2)] by (simp add: marker_json_small_def MAX_COMPACTION_MARKER_FRAME_BYTES_def)

lemma encode_synthetic_total:
  assumes "length p + 104 < 2 ^ 32"
  obtains f where "encode_synthetic L st et p = Ok f" "length f = 104 + length p"
proof -
  let ?b = "with_flags FLAG_SYNTHETIC (builder_new et p)"
  have ok: "builder_ok ?b"
    using assms by (simp add: builder_ok_def with_flags_def builder_new_def id16_def FLAG_SYNTHETIC_def)
  obtain h g where b: "build (lib_xxh3 L) (st_global st) (st_now st) ?b = (h, g)" by fastforce
  have "hb_payload ?b = p" by (simp add: with_flags_def builder_new_def)
  then obtain f where "encode_frame (lib_crc L) h p = Some f" using build_encodes [OF ok b] by auto
  then have "encode_synthetic L st et p = Ok f" by (simp add: encode_synthetic_def synthetic_frame_def b)
  with encode_synthetic_length [OF this] that show ?thesis by blast
qed

lemma fits_total:
  assumes "unat (ws_offset s) + n \<le> LEGACY_SAFE_MAX_SEGMENT_PHYSICAL_BYTES" "\<not> is_fixed s"
  shows "ensure_frame_fits n s = Ok ()"
proof -
  obtain rp where rp: "ws_segment_policy s = Rotating rp" using assms(2) by (cases "ws_segment_policy s") (auto simp: is_fixed_def)
  have "unat (saturating_add (ws_offset s) (word_of_nat n)) \<le> LEGACY_SAFE_MAX_SEGMENT_PHYSICAL_BYTES"
    using assms(1) safe_lt [OF assms(1)] by (simp add: unat_saturating_add unat_of_nat)
  then have "saturating_add (ws_offset s) (word_of_nat n) \<le> word_of_nat LEGACY_SAFE_MAX_SEGMENT_PHYSICAL_BYTES"
    by (simp add: word_le_nat_alt)
  then show ?thesis by (simp add: ensure_frame_fits_def rp Let_def)
qed

lemma emit_total:
  assumes inv: "writer_inv L key A fs s" and L: "marker_json_small L"
    and room: "length (A @ frames_image (lib_crc L) fs) + MAX_COMPACTION_MARKER_FRAME_BYTES \<le> LEGACY_SAFE_MAX_SEGMENT_PHYSICAL_BYTES"
  shows "\<exists>s'. emit_compaction_marker L st Written key (window_state L key (length A) fs) s = (s', Ok ())"
proof -
  let ?c = "window_state L key (length A) fs"
  obtain c' m where fin: "finalise_marker (lib_hmac L) key (ws_offset s) ?c = (c', m)" by fastforce
  note small = marker_small [OF L fin, of "ws_compaction_epoch s" "st_ts st"]
  obtain f where f: "encode_synthetic L st EVENT_TYPE_COMPACTION_MARKER (lib_marker_json L m (ws_compaction_epoch s) (st_ts st)) = Ok f"
    "length f = 104 + length (lib_marker_json L m (ws_compaction_epoch s) (st_ts st))"
    by (rule encode_synthetic_total [of "lib_marker_json L m (ws_compaction_epoch s) (st_ts st)" L st EVENT_TYPE_COMPACTION_MARKER])
      (use small in simp)
  have fl: "length f \<le> 512" using f(2) small by simp
  have "ensure_frame_fits (length f) (s\<lparr>ws_compaction := Some c'\<rparr>) = Ok ()"
    using fits_total [of "s\<lparr>ws_compaction := Some c'\<rparr>" "length f"] fl room writer_inv_offset [OF inv] writer_invD(12) [OF inv]
    by (simp add: is_fixed_def MAX_COMPACTION_MARKER_FRAME_BYTES_def)
  then show ?thesis using fin f(1) fl by (simp add: emit_compaction_marker_def Let_def MAX_COMPACTION_MARKER_FRAME_BYTES_def)
qed

lemma recovery_total:
  assumes "104 + length (lib_recovery_json L rec (st_ts (si_recovery_stamp io))) \<le> MAX_FRAME_LEN"
    "si_authority io" "si_recovery_write io = Written"
  shows "\<exists>s'. emit_recovery_frame L io rec s = (s', Ok ())"
proof -
  have small: "length (lib_recovery_json L rec (st_ts (si_recovery_stamp io))) + 104 < 2 ^ 32"
    using assms(1) by (simp add: frame_bounds)
  obtain f where "encode_synthetic L (si_recovery_stamp io) EVENT_TYPE_RECOVERY_TRUNCATED
      (lib_recovery_json L rec (st_ts (si_recovery_stamp io))) = Ok f"
    by (rule encode_synthetic_total [OF small])
  then show ?thesis using assms(2,3) by (simp add: emit_recovery_frame_def Let_def)
qed

lemma resume_total:
  assumes r: "resumable L key ph A fs bs" "restart_room L io path bs" "dir path = Some bs"
    and L: "marker_json_small L" "key \<in> set keys" "stamp_ok (si_recovery_stamp io)"
    and io: "si_authority io" "si_recovery_write io = Written" "si_marker_write io = Written"
  shows "\<exists>s. resume_segment L io (Rotating rp) (Some key) keys path dir bs = (ws_dir s, Ok s)"
proof -
  note room = restart_roomD [OF r(1,2)]
  obtain s0 where eq: "resume_segment L io (Rotating rp) (Some key) keys path dir bs
      = finish_startup L io path (scan_tail (lib_crc L) bs) (length bs) s0"
    and inv0: "writer_inv L key A fs s0"
    by (rule resume_eq [where path = path and dir = dir and io = io and rp = rp, OF r(1) room(1) r(3) L(2)])
  obtain s1 where go: "recovery_step L io path bs s0 = (s1, Ok ())"
    using recovery_total [of L _ io s0] room(3) io(1,2)
    by (cases "scan_tail (lib_crc L) bs") (auto simp: recovery_frame_len_def)
  obtain gs where inv1: "writer_inv L key A (fs @ gs) s1"
    and gs: "length (frames_image (lib_crc L) gs) = recovery_frame_len L io path bs"
    by (rule recovery_step_Ok [OF r(1,2) L(3) inv0 go])
  have "length (A @ frames_image (lib_crc L) (fs @ gs)) + 512 \<le> LEGACY_SAFE_MAX_SEGMENT_PHYSICAL_BYTES"
    using room(2) gs by simp
  then obtain s2 where "close_recovered_window L io s1 = (s2, Ok ())"
    using emit_total [OF inv1 L(1), of "si_marker_stamp io"] writer_invD(1,7) [OF inv1] io(1,3) emit_owned_inv [OF inv1]
    by (auto simp: close_recovered_window_def MAX_COMPACTION_MARKER_FRAME_BYTES_def)
  then show ?thesis unfolding eq finish_startup_def go by auto
qed

end
