(* ===== verification/Wal_Log.thy ===== *)
theory Wal_Log
  imports Wal_Restart
begin

text \<open>
  The log as a whole: the runs of the writer over requests, crashes and restarts, and that every state of a run
  satisfies the invariant of the writer beside closed segments that verify.
\<close>

section \<open>Crashes\<close>

text \<open>Every prefix of the active file that holds its header, and so every one that holds its synced bytes, can be resumed.\<close>

definition cuttable :: "wal_lib \<Rightarrow> bytes \<Rightarrow> parsed_segment_header \<Rightarrow> bytes \<Rightarrow> bool" where
  "cuttable L key ph bs \<longleftrightarrow> (\<forall>n. length (seg_encode ph) \<le> n \<longrightarrow> n \<le> length bs \<longrightarrow> (\<exists>B gs. resumable L key ph B gs (take n bs)))"

definition crashable :: "wal_lib \<Rightarrow> bytes \<Rightarrow> writer_state \<Rightarrow> bool" where
  "crashable L key s \<longleftrightarrow> cuttable L key (ws_segment_header s) (active_file s) \<and> length (seg_encode (ws_segment_header s)) \<le> ws_synced s"

lemma crashable_cong:
  "active_file s' = active_file s \<Longrightarrow> ws_synced s' = ws_synced s \<Longrightarrow> ws_segment_header s' = ws_segment_header s
    \<Longrightarrow> crashable L key s' = crashable L key s"
  by (simp add: crashable_def)

lemma take_of_prefix: "ys = take m xs \<Longrightarrow> n \<le> length ys \<Longrightarrow> take n ys = take n xs"
  by (cases "n \<le> m") auto

lemma crashable_prefix:
  assumes "writer_inv L key A fs s" "ws_synced s \<le> ws_synced s'" "ws_segment_header s' = ws_segment_header s"
    "sealed (lib_crc L) (lib_hmac L) (lib_marker_decode L) key (seg_encode (ws_segment_header s)) B"
    "operator_frames (lib_crc L) gs" "active_file s' = take m (B @ frames_image (lib_crc L) gs)"
  shows "crashable L key s'"
proof -
  note D = writer_invD [OF assms(1)]
  have "\<exists>C hs. resumable L key (ws_segment_header s) C hs (take n (active_file s'))"
    if "length (seg_encode (ws_segment_header s)) \<le> n" "n \<le> length (active_file s')" for n
  proof -
    have "n \<le> length (B @ frames_image (lib_crc L) gs)" using that(2) assms(6) by auto
    moreover have "take n (active_file s') = take n (B @ frames_image (lib_crc L) gs)" by (rule take_of_prefix [OF assms(6) that(2)])
    ultimately show ?thesis using cut_file [OF D(4) D(13,14) assms(4,5) that(1)] by metis
  qed
  then show ?thesis using D(15) assms(2,3) by (auto simp: crashable_def cuttable_def)
qed

lemma inv_crashable:
  assumes "writer_inv L key A fs s"
  shows "crashable L key s"
proof -
  have "active_file s = take (length (active_file s)) (A @ frames_image (lib_crc L) fs)"
    using writer_invD(11) [OF assms] by simp
  from crashable_prefix [OF assms order_refl refl writer_invD(3,5) [OF assms] this] show ?thesis .
qed

lemma emit_crashable:
  assumes inv: "writer_inv L key A fs s" and json: "marker_json_ok L" "stamp_ok st"
    and emit: "emit_compaction_marker L st w key (window_state L key (length A) fs) s = (s', r)"
  shows "crashable L key s' \<and> same_segment s s'"
proof (cases r)
  case (Inr u)
  then have "emit_compaction_marker L st w key (window_state L key (length A) fs) s = (s', Ok ())" using emit by simp
  from emit_Ok [OF inv json this] show ?thesis using inv_crashable by metis
next
  case (Inl e)
  note D = writer_invD [OF inv]
  let ?c = "window_state L key (length A) fs"
  obtain c' m where fin: "finalise_marker (lib_hmac L) key (ws_offset s) ?c = (c', m)" by fastforce
  let ?p = "lib_marker_json L m (ws_compaction_epoch s) (st_ts st)" and ?s1 = "s\<lparr>ws_compaction := Some c'\<rparr>"
  have ne: "fs \<noteq> []" using emit Inl by (auto simp: emit_compaction_marker_def window_state_Nil compaction_new_def)
  have "s' = ?s1 \<or> (\<exists>f k. encode_synthetic L st EVENT_TYPE_COMPACTION_MARKER ?p = Ok f \<and> length f \<le> 512
      \<and> s' = write_and_sync (WriteFailed k) f ?s1)"
    using emit Inl fin
    by (auto simp: emit_compaction_marker_def Let_def MAX_COMPACTION_MARKER_FRAME_BYTES_def split: sum.splits if_splits write_result.splits)
  then show ?thesis
  proof (elim disjE exE conjE)
    assume "s' = ?s1"
    then show ?thesis using inv_crashable [OF inv] crashable_cong [of s' s] by (simp add: same_segment_def active_file_def)
  next
    fix f k assume f: "encode_synthetic L st EVENT_TYPE_COMPACTION_MARKER ?p = Ok f" "length f \<le> 512"
      and s': "s' = write_and_sync (WriteFailed k) f ?s1"
    have fl: "length f \<le> MAX_FRAME_LEN" using f(2) by (simp add: frame_bounds)
    have off: "ws_offset s = word_of_nat (length A + length (frames_image (lib_crc L) fs))" using D(8) by simp
    have "closes (lib_crc L) (lib_hmac L) (lib_marker_decode L) key (length A) fs
        (synthetic_frame L st EVENT_TYPE_COMPACTION_MARKER ?p)"
      using emitted_marker_closes [OF json D(5) ne D(6) _ fin [unfolded off] f(1) fl] D(9) safe_lt by simp
    from sealed_window [OF D(3) this]
    have seal: "sealed (lib_crc L) (lib_hmac L) (lib_marker_decode L) key (seg_encode (ws_segment_header s))
        (A @ frames_image (lib_crc L) fs @ f)"
      using synthetic_frame_facts(2) [OF f(1) json(2) fl] by simp
    have act: "active_file s' = take (length (A @ frames_image (lib_crc L) fs) + k) ((A @ frames_image (lib_crc L) fs @ f) @ frames_image (lib_crc L) [])"
      using D(11) by (simp add: s') (simp add: active_file_def)
    have "crashable L key s'"
      by (rule crashable_prefix [OF inv _ _ seal _ act]) (simp_all add: s' write_and_sync_def write_only_def)
    then show ?thesis by (simp add: s' same_segment_def write_and_sync_def write_only_def Let_def)
  qed
qed

lemma closed_log_rotated:
  assumes "writer_inv L key A fs s" "closed_log L key s" "ws_dir s' (ws_path s) = Some B"
    "sealed (lib_crc L) (lib_hmac L) (lib_marker_decode L) key (seg_encode (ws_segment_header s)) B"
    "length B \<le> LEGACY_SAFE_MAX_SEGMENT_PHYSICAL_BYTES"
    "\<forall>p. p \<noteq> ws_path s \<longrightarrow> p \<noteq> ws_path s' \<longrightarrow> ws_dir s' p = ws_dir s p"
  shows "closed_log L key s'"
proof -
  have "closed_segment L key B"
    by (rule sealed_closed_segment [OF assms(4) writer_invD(4) [OF assms(1)] safe_lt [OF assms(5)]])
  with assms(2,3,6) show ?thesis by (auto simp: closed_log_def) (metis option.inject)
qed

lemma rotate_crashable:
  assumes inv: "writer_inv L key A fs s" "closed_log L key s" and json: "marker_json_ok L"
    and stamps: "stamp_ok (ri_marker_stamp io)" "stamp_ok (ri_link_stamp io)" "stamp_ok (ri_link_marker_stamp io)"
    and rot: "rotate L io reason s = (s', r)"
  shows "crashable L key s' \<and> closed_log L key s'"
proof (cases r)
  case (Inr u)
  then have "rotate L io reason s = (s', Ok ())" using rot by simp
  from rotate_Ok [OF inv(1) json stamps this] show ?thesis
    using inv_crashable closed_log_rotated [OF inv] by metis
next
  case (Inl e)
  obtain s1 r1 where e: "emit_compaction_marker L (ri_marker_stamp io) (ri_marker_write io) key (window_state L key (length A) fs) s = (s1, r1)"
    by fastforce
  have s': "s' = s1 \<or> r1 = Ok () \<and> s' = mark_synced s1"
    using rot Inl e emit_owned_inv [OF inv(1)] by (auto simp: rotate_def Let_def split: sum.splits if_splits option.splits)
  note c1 = emit_crashable [OF inv(1) json stamps(1) e]
  have "crashable L key (mark_synced s1)" if "r1 = Ok ()"
  proof -
    have e': "emit_compaction_marker L (ri_marker_stamp io) (ri_marker_write io) key (window_state L key (length A) fs) s = (s1, Ok ())"
      using e that by simp
    obtain M where "writer_inv L key (A @ frames_image (lib_crc L) fs @ M) [] s1"
      using emit_Ok [OF inv(1) json stamps(1) e'] by metis
    from inv_crashable [OF inv_synced [OF this, of "ws_pending_unsynced s1"]] show ?thesis
      using crashable_cong [of "mark_synced s1" "(mark_synced s1)\<lparr>ws_pending_unsynced := ws_pending_unsynced s1\<rparr>"]
      by (simp add: active_file_def mark_synced_def)
  qed
  moreover have "closed_log L key s1" using closed_log_same [OF inv(2)] c1 by blast
  moreover have "closed_log L key (mark_synced s1)" using calculation(2) closed_log_same same_segment_write(3) by blast
  ultimately show ?thesis using s' c1 by auto
qed

lemma preflight_crashable:
  assumes inv: "writer_inv L key A fs s" "closed_log L key s" and json: "marker_json_ok L" "stamps_ok io"
    and pre: "preflight_rotation L io n m s = (s1, r1)"
  shows "crashable L key s1 \<and> closed_log L key s1"
proof (cases "should_rotate (ai_now io) n m s")
  case None
  with pre inv inv_crashable show ?thesis by (auto simp: preflight_rotation_def)
next
  case (Some reason)
  let ?s0 = "if ws_pending_unsynced s then (mark_synced s)\<lparr>ws_pending_unsynced := False\<rparr> else s"
  have "s1 = s \<or> rotate L (ai_rotation io) reason ?s0 = (s1, r1)"
    using pre Some by (auto simp: preflight_rotation_def split: if_splits)
  moreover have "writer_inv L key A fs ?s0" using inv(1) inv_synced [OF inv(1)] by simp
  moreover have "closed_log L key ?s0" using inv(2) by (simp add: closed_log_def mark_synced_def)
  ultimately show ?thesis
    using rotate_crashable [of L key A fs ?s0 "ai_rotation io" reason s1 r1] json inv(2) inv_crashable [OF inv(1)]
    by (auto simp: stamps_ok_def)
qed

lemma after_write_crashable:
  assumes inv: "writer_inv L key A fs s1" "closed_log L key s1" "Suc (length fs) < 2 ^ 32"
    and g: "frame_ok (lib_crc L) g" "\<not> is_marker g"
    and room: "length (A @ frames_image (lib_crc L) fs) + length (frame_bytes (lib_crc L) g) \<le> LEGACY_SAFE_MAX_SEGMENT_PHYSICAL_BYTES"
    and s2: "s2 = (if immediate then write_and_sync Written (frame_bytes (lib_crc L) g) s1
                   else write_only Written (frame_bytes (lib_crc L) g) s1)"
    and json: "marker_json_ok L" "stamp_ok (ai_marker_stamp io)"
    and t: "t = step_state (after_write L io (frame_bytes (lib_crc L) g) force (s2\<lparr>ws_pending_unsynced := \<not> immediate\<rparr>))"
  shows "crashable L key t \<and> closed_log L key t"
proof -
  let ?c = "window_state L key (length A) (fs @ [g])" and ?ok = "\<lambda>s'. crashable L key s' \<and> closed_log L key s'"
  obtain s3 where inv3: "writer_inv L key A (fs @ [g]) s3" and same3: "same_segment s1 s3"
    and st: "after_write L io (frame_bytes (lib_crc L) g) force (s2\<lparr>ws_pending_unsynced := \<not> immediate\<rparr>) =
      (if should_emit ?c \<or> force then
         if \<not> authority_holds io s3 then Stopped s3 None
         else (case emit_compaction_marker L (ai_marker_stamp io) (ai_marker_write io) key ?c s3 of
                 (s4, Err e) \<Rightarrow> Stopped s4 (Some (Err e))
               | (s4, Ok _) \<Rightarrow> Running (s4\<lparr>ws_pending_unsynced := False\<rparr>) (Some (Ok (ws_offset s1))))
       else Running s3 (Some (Ok (ws_offset s1))))"
    by (rule after_write_unfold [OF inv(1,3) g room s2])
  have ok3: "?ok s3" using inv_crashable [OF inv3] closed_log_same [OF inv(2) same3] by blast
  obtain s4 r4 where e: "emit_compaction_marker L (ai_marker_stamp io) (ai_marker_write io) key ?c s3 = (s4, r4)" by fastforce
  have ok4: "?ok s4" using emit_crashable [OF inv3 json e] closed_log_same ok3 by blast
  then have "?ok (s4\<lparr>ws_pending_unsynced := b\<rparr>)" for b
    by (simp add: crashable_def closed_log_def active_file_def)
  then show ?thesis unfolding t st using ok3 ok4 by (auto simp: e split: sum.splits)
qed

lemma failed_write_crashable:
  assumes inv: "writer_inv L key A fs s" "closed_log L key s" and g: "frame_ok (lib_crc L) g" "\<not> is_marker g"
    and s': "s' = write_and_sync (WriteFailed k) (frame_bytes (lib_crc L) g) s \<or> s' = write_only (WriteFailed k) (frame_bytes (lib_crc L) g) s"
  shows "crashable L key s' \<and> closed_log L key s'"
proof -
  note D = writer_invD [OF inv(1)]
  have act: "active_file s' = take (length (A @ frames_image (lib_crc L) fs) + k) (A @ frames_image (lib_crc L) (fs @ [g]))"
    using D(11) s' by auto
  have "crashable L key s'"
    by (rule crashable_prefix [OF inv(1) _ _ D(3) _ act]) (use D(5) g s' in \<open>auto simp: write_and_sync_def write_only_def\<close>)
  with closed_log_same [OF inv(2)] s' same_segment_write show ?thesis by blast
qed

lemma append_step:
  assumes inv: "writer_inv L key A fs s" and ok: "frame_ok (lib_crc L) (rq_header rq, rq_payload rq)"
    and pre: "preflight_rotation L io (length (frame_bytes (lib_crc L) (rq_header rq, rq_payload rq)))
      (marker_reserve (frame_bytes (lib_crc L) (rq_header rq, rq_payload rq)) (rq_force_authentication_marker rq) s) s = (s1, Ok ())"
  defines "f \<equiv> frame_bytes (lib_crc L) (rq_header rq, rq_payload rq)" and "im \<equiv> needs_immediate_sync (event_type (rq_header rq))"
  defines "s2 \<equiv> if im then write_and_sync (ai_write io) f s1 else write_only (ai_write io) f s1"
  shows "append_request L io rq s =
    (if \<not> authority_holds io s1 then Stopped s1 None
     else (case ensure_frame_and_marker_fit (length f) (marker_reserve f (rq_force_authentication_marker rq) s) s1 of
             Err e \<Rightarrow> Stopped s1 (Some (Err e))
           | Ok _ \<Rightarrow> (case ai_write io of
                        Written \<Rightarrow> after_write L io f (rq_force_authentication_marker rq) (s2\<lparr>ws_pending_unsynced := \<not> im\<rparr>)
                      | WriteFailed _ \<Rightarrow> if is_fixed s2 then Stopped s2 (Some (Err (WalIo OtherIo)))
                                       else Running s2 (Some (Err (WalIo OtherIo))))))"
proof -
  have enc: "encode_frame (lib_crc L) (rq_header rq) (rq_payload rq) = Some f" using frame_okD(2) [OF ok] by (simp add: f_def)
  note some = writer_invD(1,7) [OF inv]
  show ?thesis
    unfolding s2_def im_def
    by (simp only: append_request_def enc some pre [folded f_def] Let_def option.case prod.case sum.case option.distinct simp_thms if_False)
qed

lemma append_crashable:
  assumes inv: "writer_inv L key A fs s" "closed_log L key s" "length fs < 1024" and json: "marker_json_ok L" "stamps_ok io"
    and rq: "request_ok L rq"
  shows "crashable L key (step_state (append_request L io rq s)) \<and> closed_log L key (step_state (append_request L io rq s))"
proof -
  let ?g = "(rq_header rq, rq_payload rq)" and ?im = "needs_immediate_sync (event_type (rq_header rq))"
  let ?f = "frame_bytes (lib_crc L) ?g" and ?force = "rq_force_authentication_marker rq"
  let ?res = "marker_reserve ?f ?force s"
  have g: "frame_ok (lib_crc L) ?g" "\<not> is_marker ?g" using rq by (auto simp: request_ok_def is_marker_def)
  have enc: "encode_frame (lib_crc L) (rq_header rq) (rq_payload rq) = Some ?f" using frame_okD(2) [OF g(1)] by simp
  note some = writer_invD(1,7) [OF inv(1)]
  obtain s1 r1 where pre: "preflight_rotation L io (length ?f) ?res s = (s1, r1)" by fastforce
  note ok1 = preflight_crashable [OF inv(1,2) json pre]
  show ?thesis
  proof (cases r1)
    case (Inl e)
    then show ?thesis using enc some pre ok1 by (simp add: append_request_def)
  next
    case (Inr u)
    with pre have pre': "preflight_rotation L io (length ?f) ?res s = (s1, Ok ())" by simp
    obtain A1 fs1 where inv1: "writer_inv L key A1 fs1 s1" "closed_log L key s1" "length fs1 < 1024"
      by (rule preflight_Ok [OF inv json pre'])
    let ?s2 = "if ?im then write_and_sync (ai_write io) ?f s1 else write_only (ai_write io) ?f s1"
    note step = append_step [OF inv(1) g(1) pre']
    show ?thesis
    proof (cases "authority_holds io s1 \<and> ensure_frame_and_marker_fit (length ?f) ?res s1 = Ok ()")
      case False
      then show ?thesis unfolding step using ok1 by (auto split: sum.splits)
    next
      case fit: True
      then have room: "length (A1 @ frames_image (lib_crc L) fs1) + length ?f \<le> LEGACY_SAFE_MAX_SEGMENT_PHYSICAL_BYTES"
        using fit_room [OF inv1(1)] by blast
      have stamp: "stamp_ok (ai_marker_stamp io)" using json(2) by (simp add: stamps_ok_def)
      show ?thesis
      proof (cases "ai_write io")
        case (WriteFailed k)
        have "crashable L key ?s2 \<and> closed_log L key ?s2"
          by (rule failed_write_crashable [OF inv1(1,2) g, of _ k]) (simp add: WriteFailed)
        then show ?thesis unfolding step using fit WriteFailed by simp
      next
        case Written
        have "Suc (length fs1) < 2 ^ 32" using inv1(3) by simp
        from after_write_crashable [OF inv1(1,2) this g room refl json(1) stamp refl, where force = ?force and immediate = ?im]
        show ?thesis unfolding step using fit Written by (cases ?im) simp_all
      qed
    qed
  qed
qed

section \<open>Requests\<close>

text \<open>
  One turn of the request loop of \<open>run_writer\<close>, and its end. \<open>WrOnce\<close> is the barrier of an append-once request; the
  frame it then writes is a \<open>WrAppend\<close>.
\<close>

datatype writer_request = WrAppend write_request | WrFlush | WrOnce once_kind | WrShutdown

definition serve :: "wal_lib \<Rightarrow> append_io \<Rightarrow> writer_request \<Rightarrow> writer_state \<Rightarrow> writer_step" where
  "serve L io req s =
     (case req of
        WrAppend rq \<Rightarrow> append_request L io rq s
      | WrFlush \<Rightarrow> flush_request io s
      | WrOnce kind \<Rightarrow> once_barrier L io kind s
      | WrShutdown \<Rightarrow> Stopped (fst (shutdown_writer L io s)) None)"

definition fair_request :: "wal_lib \<Rightarrow> append_io \<Rightarrow> writer_request \<Rightarrow> bool" where
  "fair_request L io req \<longleftrightarrow> stamps_ok io \<and> (case req of WrAppend rq \<Rightarrow> request_ok L rq | _ \<Rightarrow> True)"

text \<open>
  The two outcomes after which the writer goes on although its file and its state no longer agree: a failed write of a
  frame that left bytes behind, and a failed marker of a barrier whose arm does not end the writer.
\<close>

definition leaves_bytes :: "write_result \<Rightarrow> bool" where
  "leaves_bytes w \<longleftrightarrow> (case w of Written \<Rightarrow> False | WriteFailed k \<Rightarrow> 0 < k)"

definition damages :: "append_io \<Rightarrow> writer_request \<Rightarrow> (wal_error + u64) option \<Rightarrow> bool" where
  "damages io req ack \<longleftrightarrow> ack \<noteq> None \<and> \<not> is_ok (the ack)
     \<and> (case req of WrAppend _ \<Rightarrow> leaves_bytes (ai_write io) | WrOnce _ \<Rightarrow> True | _ \<Rightarrow> False)"

text \<open>An append that is answered with an error has changed nothing but the segment, unless its write left bytes behind.\<close>

lemma append_refused:
  assumes inv: "writer_inv L key A fs s" "closed_log L key s" "length fs < 1024" and json: "marker_json_ok L" "stamps_ok io"
    and rq: "request_ok L rq" and step: "append_request L io rq s = Running s' a" "\<forall>off. a \<noteq> Some (Ok off)" "\<not> leaves_bytes (ai_write io)"
  obtains A' fs' where "writer_inv L key A' fs' s'" "closed_log L key s'" "length fs' < 1024"
proof -
  let ?g = "(rq_header rq, rq_payload rq)" and ?im = "needs_immediate_sync (event_type (rq_header rq))"
  let ?f = "frame_bytes (lib_crc L) ?g" and ?force = "rq_force_authentication_marker rq"
  let ?res = "marker_reserve ?f ?force s"
  have g: "frame_ok (lib_crc L) ?g" using rq by (simp add: request_ok_def)
  have enc: "encode_frame (lib_crc L) (rq_header rq) (rq_payload rq) = Some ?f" using frame_okD(2) [OF g] by simp
  obtain s1 r1 where pre1: "preflight_rotation L io (length ?f) ?res s = (s1, r1)" by fastforce
  have "r1 = Ok ()" using step(1) enc writer_invD(1,7) [OF inv(1)] pre1
    by (cases r1) (simp_all add: append_request_def)
  with pre1 have pre: "preflight_rotation L io (length ?f) ?res s = (s1, Ok ())" by simp
  obtain A1 fs1 where inv1: "writer_inv L key A1 fs1 s1" "closed_log L key s1" "length fs1 < 1024"
    by (rule preflight_Ok [OF inv json pre])
  have aw: "after_write L io ?f ?force t \<noteq> Running s' a" for t
    using step(2) by (auto simp: after_write_def Let_def split: option.splits if_splits prod.splits sum.splits)
  have "ai_write io = WriteFailed 0" using step(1,3) aw
    unfolding append_step [OF inv(1) g pre] by (auto simp: leaves_bytes_def split: if_splits sum.splits write_result.splits)
  then have s': "s' = (if ?im then write_and_sync (WriteFailed 0) ?f s1 else write_only (WriteFailed 0) ?f s1)"
    using step(1) unfolding append_step [OF inv(1) g pre] by (auto split: if_splits sum.splits)
  have "(ws_dir s1)(ws_path s1 \<mapsto> active_file s1) = ws_dir s1" using writer_invD(2,11) [OF inv1(1)] by auto
  then have "s' = s1" by (simp add: s' write_and_sync_def write_only_def)
  with inv1 that show ?thesis by blast
qed

lemma serve_inv:
  assumes inv: "writer_inv L key A fs s" "closed_log L key s" "length fs < 1024" and json: "marker_json_ok L" "fair_request L io req"
    and step: "serve L io req s = Running s' a" "\<not> damages io req a"
  shows "\<exists>A' fs'. writer_inv L key A' fs' s' \<and> closed_log L key s' \<and> length fs' < 1024"
proof (cases req)
  case (WrAppend rq)
  have st: "stamps_ok io" "request_ok L rq" "append_request L io rq s = Running s' a"
    using json(2) step(1) WrAppend by (simp_all add: fair_request_def serve_def)
  show ?thesis
  proof (cases "\<exists>off. a = Some (Ok off)")
    case True
    then obtain off where "append_request L io rq s = Running s' (Some (Ok off))" using st(3) by blast
    from append_Running [OF inv json(1) st(1,2) this] show ?thesis by metis
  next
    case False
    have "a \<noteq> None" using st(3)
      by (auto simp: append_request_def after_write_def Let_def split: option.splits if_splits prod.splits sum.splits write_result.splits)
    with False have "\<not> leaves_bytes (ai_write io)"
      using step(2) WrAppend by (cases "the a") (auto simp: damages_def)
    with False append_refused [OF inv json(1) st(1,2,3)] show ?thesis by blast
  qed
next
  case WrFlush
  with step(1) have f: "flush_request io s = Running s' a" by (simp add: serve_def)
  with flush_Running [OF inv(1)] closed_log_same [OF inv(2)] inv(3) show ?thesis by blast
next
  case (WrOnce kind)
  then have once: "once_barrier L io kind s = Running s' a" using step(1) by (simp add: serve_def)
  then have "a = None \<or> (\<exists>e. a = Some (Err e))" by (auto simp: once_barrier_def split: option.splits if_splits prod.splits sum.splits)
  then have "a = None" using step(2) WrOnce by (auto simp: damages_def)
  then obtain A' where "writer_inv L key A' [] s'" "same_segment s s'"
    using barrier_Running [OF inv(1) json(1), of io kind s'] once json(2) by (auto simp: fair_request_def stamps_ok_def)
  with closed_log_same [OF inv(2)] show ?thesis by fastforce
next
  case WrShutdown
  with step(1) show ?thesis by (simp add: serve_def)
qed

text \<open>Whatever a request did, the file it left can be resumed.\<close>

lemma emit_then_crashable:
  assumes inv: "writer_inv L key A fs s" "closed_log L key s" and json: "marker_json_ok L" "stamp_ok st"
    and emit: "emit_compaction_marker L st w key (window_state L key (length A) fs) s = (s', r)"
  shows "crashable L key s' \<and> closed_log L key s'" "r = Ok () \<Longrightarrow> crashable L key (mark_synced s') \<and> closed_log L key (mark_synced s')"
proof -
  note c = emit_crashable [OF inv(1) json emit]
  then show "crashable L key s' \<and> closed_log L key s'" using closed_log_same [OF inv(2)] by blast
  assume "r = Ok ()"
  with emit have "emit_compaction_marker L st w key (window_state L key (length A) fs) s = (s', Ok ())" by simp
  from emit_Ok [OF inv(1) json this] obtain M where "writer_inv L key (A @ frames_image (lib_crc L) fs @ M) [] s'" by metis
  from inv_crashable [OF inv_synced [OF this, of "ws_pending_unsynced s'"]] closed_log_same [OF inv(2) conjunct2 [OF c]]
  show "crashable L key (mark_synced s') \<and> closed_log L key (mark_synced s')"
    by (simp add: closed_log_def mark_synced_def)
qed

lemma crashable_pending [simp]:
  "crashable L key (s\<lparr>ws_pending_unsynced := b\<rparr>) = crashable L key s" "closed_log L key (s\<lparr>ws_pending_unsynced := b\<rparr>) = closed_log L key s"
  "mark_synced (s\<lparr>ws_pending_unsynced := b\<rparr>) = (mark_synced s)\<lparr>ws_pending_unsynced := b\<rparr>"
  by (simp_all add: crashable_def closed_log_def active_file_def mark_synced_def)

lemma serve_crashable:
  assumes inv: "writer_inv L key A fs s" "closed_log L key s" "length fs < 1024" and json: "marker_json_ok L" "fair_request L io req"
  shows "crashable L key (step_state (serve L io req s)) \<and> closed_log L key (step_state (serve L io req s))"
proof -
  note here = inv_crashable [OF inv(1)] inv(2) and own = writer_invD(1,7,12) [OF inv(1)]
  have st: "stamp_ok (ai_marker_stamp io)" using json(2) by (simp add: fair_request_def stamps_ok_def)
  obtain s1 r1 where e: "emit_compaction_marker L (ai_marker_stamp io) (ai_marker_write io) key (window_state L key (length A) fs) s = (s1, r1)"
    by fastforce
  note after = emit_then_crashable [OF inv(1,2) json(1) st e]
  have synced: "crashable L key (mark_synced s) \<and> closed_log L key (mark_synced s)"
    using inv_crashable [OF inv_synced [OF inv(1), of True]] inv(2) by (simp add: closed_log_def mark_synced_def)
  show ?thesis
  proof (cases req)
    case (WrAppend rq)
    with append_crashable [OF inv json(1), of io rq] json(2) show ?thesis by (simp add: serve_def fair_request_def)
  next
    case WrFlush
    with here synced show ?thesis by (simp add: serve_def flush_request_def)
  next
    case (WrOnce kind)
    with here after(1) own e show ?thesis by (auto simp: serve_def once_barrier_def split: sum.splits)
  next
    case WrShutdown
    with here after own e emit_owned_inv [OF inv(1), of "ai_marker_stamp io" "ai_marker_write io"] show ?thesis
      by (auto simp: serve_def shutdown_writer_def split: sum.splits)
  qed
qed

end
