(* ===== verification/Wal_Runs.thy ===== *)
theory Wal_Runs
  imports Wal_Log
begin

text \<open>
  The runs of the log: the requests the writer serves, the crashes and stops that may interrupt it at any point, and the
  startups after them, which may fail themselves. Every state of a run satisfies the invariant of the writer or can be resumed, and
  no step takes synced bytes away.
\<close>

section \<open>A startup that fails\<close>

lemma recovery_step_Err:
  assumes r: "resumable L key ph A fs bs" "restart_room L io path bs" and st: "stamp_ok (si_recovery_stamp io)"
    and inv: "writer_inv L key A fs s0" and go: "recovery_step L io path bs s0 = (s1, Err e)"
  shows "same_segment s0 s1" "crashable L key s1" "\<exists>R. active_file s1 = A @ frames_image (lib_crc L) fs @ R"
proof -
  note room = restart_roomD [OF r] and D = writer_invD [OF inv]
  obtain x y where torn: "scan_tail (lib_crc L) bs = TornAt x y" using go by (cases "scan_tail (lib_crc L) bs") auto
  let ?rec = "\<lparr>rc_segment_path = path, rc_good_through = x, rc_torn_at = y, rc_bytes_dropped = length bs - x\<rparr>"
  let ?p = "lib_recovery_json L ?rec (st_ts (si_recovery_stamp io))"
  have "s1 = s0 \<or> (\<exists>f k. encode_synthetic L (si_recovery_stamp io) EVENT_TYPE_RECOVERY_TRUNCATED ?p = Ok f
      \<and> s1 = write_and_sync (WriteFailed k) f s0)"
    using go by (auto simp: torn emit_recovery_frame_def Let_def split: if_splits sum.splits write_result.splits)
  then have "same_segment s0 s1 \<and> crashable L key s1 \<and> (\<exists>R. active_file s1 = A @ frames_image (lib_crc L) fs @ R)"
  proof (elim disjE exE conjE)
    assume "s1 = s0"
    then show ?thesis using inv_crashable [OF inv] D(11) same_segment_refl by simp
  next
    fix f k assume f: "encode_synthetic L (si_recovery_stamp io) EVENT_TYPE_RECOVERY_TRUNCATED ?p = Ok f"
      and s1: "s1 = write_and_sync (WriteFailed k) f s0"
    let ?g = "synthetic_frame L (si_recovery_stamp io) EVENT_TYPE_RECOVERY_TRUNCATED ?p"
    have "length f \<le> MAX_FRAME_LEN"
      using encode_synthetic_length [OF f] room(3) by (simp add: recovery_frame_len_def torn)
    note g = synthetic_frame_facts [OF f st this]
    have "\<not> is_marker ?g"
      using g(3) by (simp add: is_marker_def EVENT_TYPE_RECOVERY_TRUNCATED_def EVENT_TYPE_COMPACTION_MARKER_def)
    then have ops: "operator_frames (lib_crc L) (fs @ [?g])" using D(5) g(1) by simp
    have act: "active_file s1 = take (length (A @ frames_image (lib_crc L) fs) + k) (A @ frames_image (lib_crc L) (fs @ [?g]))"
      using D(11) g(2) by (simp add: s1)
    have "crashable L key s1"
      by (rule crashable_prefix [OF inv _ _ D(3) ops act]) (simp_all add: s1 write_and_sync_def write_only_def)
    moreover have "same_segment s0 s1" unfolding s1 by (rule same_segment_write)
    moreover have "active_file s1 = A @ frames_image (lib_crc L) fs @ take k f" using D(11) by (simp add: s1)
    ultimately show ?thesis by blast
  qed
  then show "same_segment s0 s1" "crashable L key s1" "\<exists>R. active_file s1 = A @ frames_image (lib_crc L) fs @ R" by simp_all
qed

lemma close_window_Err:
  assumes inv: "writer_inv L key A fs s" and L: "marker_json_ok L" "stamp_ok (si_marker_stamp io)"
    and close: "close_recovered_window L io s = (s', Err e)"
  shows "same_segment s s'" "crashable L key s'" "\<exists>R. active_file s' = A @ frames_image (lib_crc L) fs @ R"
proof -
  note own = writer_invD(1,7) [OF inv]
  consider "s' = s" | "emit_compaction_marker L (si_marker_stamp io) (si_marker_write io) key (window_state L key (length A) fs) s = (s', Err e)"
    using close own emit_owned_inv [OF inv] by (auto simp: close_recovered_window_def split: if_splits)
  then have "same_segment s s' \<and> crashable L key s' \<and> (\<exists>R. active_file s' = A @ frames_image (lib_crc L) fs @ R)"
  proof cases
    case 1
    then show ?thesis using inv_crashable [OF inv] writer_invD(11) [OF inv] same_segment_refl by simp
  next
    case 2
    obtain mf k where "active_file s' = active_file s @ take k (frame_bytes (lib_crc L) mf)" by (rule emit_Err [OF L(2) 2])
    with emit_crashable [OF inv L 2] writer_invD(11) [OF inv] show ?thesis by auto
  qed
  then show "same_segment s s'" "crashable L key s'" "\<exists>R. active_file s' = A @ frames_image (lib_crc L) fs @ R" by simp_all
qed

lemma active_present: "active_file s \<noteq> [] \<Longrightarrow> ws_dir s (ws_path s) = Some (active_file s)"
  by (auto simp: active_file_def split: option.splits)

lemma resume_Err:
  assumes r: "resumable L key ph A fs bs" "restart_room L io path bs" "dir path = Some bs"
    and L: "marker_json_ok L" "stamp_ok (si_recovery_stamp io)" "stamp_ok (si_marker_stamp io)" "key \<in> set keys"
    and res: "resume_segment L io (Rotating rp) (Some key) keys path dir bs = (d, Err e)"
  obtains R where "d path = Some (A @ frames_image (lib_crc L) fs @ R)" "cuttable L key ph (A @ frames_image (lib_crc L) fs @ R)"
    "\<forall>p. p \<noteq> path \<longrightarrow> d p = dir p"
proof -
  note room = restart_roomD [OF r(1,2)]
  obtain s0 where eq: "resume_segment L io (Rotating rp) (Some key) keys path dir bs
      = finish_startup L io path (scan_tail (lib_crc L) bs) (length bs) s0"
    and inv0: "writer_inv L key A fs s0" and p0: "ws_path s0 = path" "\<forall>p. p \<noteq> path \<longrightarrow> ws_dir s0 p = dir p"
    and h0: "ws_segment_header s0 = ph"
    by (rule resume_eq [where path = path and dir = dir and io = io and rp = rp, OF r(1) room(1) r(3) L(4)])
  obtain s1 r1 where go: "recovery_step L io path bs s0 = (s1, r1)" by fastforce
  obtain s2 r2 where cl: "close_recovered_window L io s1 = (s2, r2)" by fastforce
  have "\<exists>t. d = ws_dir t \<and> same_segment s0 t \<and> crashable L key t \<and> (\<exists>R. active_file t = A @ frames_image (lib_crc L) fs @ R)"
  proof (cases r1)
    case (Inl e1)
    with go have bad: "recovery_step L io path bs s0 = (s1, Err e1)" by simp
    have "d = ws_dir s1" using res unfolding eq finish_startup_def bad by simp
    with recovery_step_Err [OF r(1,2) L(2) inv0 bad] show ?thesis by blast
  next
    case (Inr u)
    with go have ok: "recovery_step L io path bs s0 = (s1, Ok ())" by simp
    have d: "d = ws_dir s2" "close_recovered_window L io s1 = (s2, Err e)"
      using res cl unfolding eq finish_startup_def ok by (auto split: sum.splits)
    obtain gs where inv1: "writer_inv L key A (fs @ gs) s1" "same_segment s0 s1"
      by (rule recovery_step_Ok [OF r(1,2) L(2) inv0 ok])
    from close_window_Err [OF inv1(1) L(1,3) d(2)] same_segment_trans [OF inv1(2)] d(1) show ?thesis by auto
  qed
  then obtain t R where t: "d = ws_dir t" "same_segment s0 t" "crashable L key t" "active_file t = A @ frames_image (lib_crc L) fs @ R" by blast
  have "A \<noteq> []" using sealed_length [OF writer_invD(3) [OF inv0]] seg_encode_length [OF writer_invD(4) [OF inv0]]
    by (cases "ws_segment_header s0") (auto simp: seg_lens)
  then have "d path = Some (A @ frames_image (lib_crc L) fs @ R)" "cuttable L key ph (A @ frames_image (lib_crc L) fs @ R)"
    "\<forall>p. p \<noteq> path \<longrightarrow> d p = dir p"
    using active_present [of t] t p0 h0 by (auto simp: same_segment_def crashable_def)
  then show ?thesis by (rule that)
qed

section \<open>Runs\<close>

text \<open>
  A run starts on a fresh segment beside closed ones. The writer serves requests with any outcome of its writes and syncs, but does
  not serve on after one that damages the log; after or during any request, or at rest, the process may stop. The active file
  then keeps its synced bytes and any further prefix of what was written (\<open>crash_point\<close>), and startup is tried on it, with
  room for its own frames, until it succeeds. Bytes that were synced before a stop are still synced after it.
\<close>

datatype log_phase = Serving (phase_state: writer_state) | Down (phase_state: writer_state)

definition crash_image :: "writer_state \<Rightarrow> nat \<Rightarrow> string \<rightharpoonup> bytes" where
  "crash_image s n = (ws_dir s)(ws_path s \<mapsto> take n (active_file s))"

definition crash_point :: "wal_lib \<Rightarrow> start_io \<Rightarrow> writer_state \<Rightarrow> nat \<Rightarrow> bool" where
  "crash_point L io s n \<longleftrightarrow> ws_synced s \<le> n \<and> n \<le> length (active_file s)
     \<and> restart_room L io (ws_path s) (take n (active_file s))"

definition start_stamps_ok :: "start_io \<Rightarrow> bool" where
  "start_stamps_ok io \<longleftrightarrow> stamp_ok (si_recovery_stamp io) \<and> stamp_ok (si_marker_stamp io)"

definition started :: "wal_lib \<Rightarrow> writer_state \<Rightarrow> nat \<Rightarrow> (string \<rightharpoonup> bytes) \<times> (wal_error + writer_state) \<Rightarrow> log_phase" where
  "started L s n res =
     (let kept = min (ws_synced s) (resume_offset (scan_tail (lib_crc L) (take n (active_file s))))
      in case snd res of
           Ok s' \<Rightarrow> Serving (s'\<lparr>ws_synced := max (ws_synced s') kept\<rparr>)
         | Err _ \<Rightarrow> Down (s\<lparr>ws_dir := fst res, ws_synced := kept\<rparr>))"

inductive log_step :: "wal_lib \<Rightarrow> bytes \<Rightarrow> log_phase \<Rightarrow> log_phase \<Rightarrow> bool" for L key where
  step_serve: "fair_request L io req \<Longrightarrow> serve L io req s = Running s' a \<Longrightarrow> \<not> damages io req a \<Longrightarrow>
    log_step L key (Serving s) (Serving s')"
| step_stop: "fair_request L io req \<Longrightarrow> log_step L key (Serving s) (Down (step_state (serve L io req s)))"
| step_kill: "log_step L key (Serving s) (Down s)"
| step_start: "crash_point L io s n \<Longrightarrow> start_stamps_ok io \<Longrightarrow> key \<in> set keys \<Longrightarrow>
    log_step L key (Down s) (started L s n (start_writer L io (Rotating rp) (Some key) keys (ws_path s) (crash_image s n)))"

inductive log_init :: "wal_lib \<Rightarrow> bytes \<Rightarrow> log_phase \<Rightarrow> bool" for L key where
  init_fresh: "dir path = None \<Longrightarrow> \<forall>p bs. dir p = Some bs \<longrightarrow> closed_segment L key bs \<Longrightarrow> key \<in> set keys \<Longrightarrow>
    start_writer L io (Rotating rp) (Some key) keys path dir = (d, Ok s) \<Longrightarrow> log_init L key (Serving s)"

abbreviation log_reachable :: "wal_lib \<Rightarrow> bytes \<Rightarrow> log_phase \<Rightarrow> bool" where
  "log_reachable L key \<equiv> reachable (log_init L key) (log_step L key)"

abbreviation running :: "wal_lib \<Rightarrow> bytes \<Rightarrow> writer_state \<Rightarrow> bool" where
  "running L key s \<equiv> log_reachable L key (Serving s)"

definition phase_inv :: "wal_lib \<Rightarrow> bytes \<Rightarrow> log_phase \<Rightarrow> bool" where
  "phase_inv L key ph = (case ph of
     Serving s \<Rightarrow> (\<exists>A fs. writer_inv L key A fs s \<and> closed_log L key s \<and> length fs < 1024)
   | Down s \<Rightarrow> crashable L key s \<and> closed_log L key s)"

definition fresh_writer :: "wal_lib \<Rightarrow> bytes \<Rightarrow> rotation_policy \<Rightarrow> u64 \<Rightarrow> string \<Rightarrow> (string \<rightharpoonup> bytes) \<Rightarrow> writer_state" where
  "fresh_writer L key rp now path dir =
     (let ph = new_segment_header L (segment_seq_from_path path) now
      in initial_state (Rotating rp) (Some key) path (dir(path \<mapsto> seg_encode ph)) SEGMENT_HEADER_LEN now ph
           (Some (window_state L key SEGMENT_HEADER_LEN [])) SEGMENT_HEADER_LEN)"

lemma fresh_start:
  assumes "dir path = None" "key \<in> set keys"
  shows "start_writer L io (Rotating rp) (Some key) keys path dir
      = (ws_dir (fresh_writer L key rp (si_now io) path dir), Ok (fresh_writer L key rp (si_now io) path dir))"
    "writer_inv L key (seg_encode (new_segment_header L (segment_seq_from_path path) now)) [] (fresh_writer L key rp now path dir)"
proof -
  let ?ph = "\<lambda>now. new_segment_header L (segment_seq_from_path path) now"
  note v = new_segment_header_valid [of L "segment_seq_from_path path"]
  have seal: "sealed (lib_crc L) (lib_hmac L) (lib_marker_decode L) key (seg_encode (?ph now)) (seg_encode (?ph now))" for now
    by (rule sealed_start)
  have "recovered_state L (Some key) keys (seg_encode (?ph now)) = Ok (Some (window_state L key SEGMENT_HEADER_LEN []))" for now
    using recover_sealed [OF seal assms(2), of "[]"] v [of now] by (simp add: recovered_state_def window_state_def seg_lens)
  then show "start_writer L io (Rotating rp) (Some key) keys path dir
      = (ws_dir (fresh_writer L key rp (si_now io) path dir), Ok (fresh_writer L key rp (si_now io) path dir))"
    using assms(1) v(4) by (simp add: start_writer_def fresh_writer_def initial_state_def Let_def)
  have "resumable L key (?ph now) (seg_encode (?ph now)) [] (seg_encode (?ph now))"
    using resumable_whole [OF v(1-3) seal, of "[]"] by simp
  from initial_inv [OF this, of "dir(path \<mapsto> seg_encode (?ph now))" path SEGMENT_HEADER_LEN rp now] v(1,4) [of now] seg_encode_length [OF v(1) [of now]]
  show "writer_inv L key (seg_encode (?ph now)) [] (fresh_writer L key rp now path dir)"
    by (simp add: fresh_writer_def Let_def seg_lens writer_bounds)
qed

text \<open>What a startup makes of the file a stop left.\<close>

lemma restart_cases:
  assumes c: "crashable L key s" "closed_log L key s" "crash_point L io s n"
    and L: "marker_json_ok L" "start_stamps_ok io" "key \<in> set keys"
    and start: "res = start_writer L io (Rotating rp) (Some key) keys (ws_path s) (crash_image s n)"
  obtains B gs R where "resumable L key (ws_segment_header s) B gs (take n (active_file s))"
    "resume_offset (scan_tail (lib_crc L) (take n (active_file s))) = length (B @ frames_image (lib_crc L) gs)"
    "active_file (phase_state (started L s n res)) = B @ frames_image (lib_crc L) gs @ R"
    "ws_path (phase_state (started L s n res)) = ws_path s"
    "\<forall>p. p \<noteq> ws_path s \<longrightarrow> ws_dir (phase_state (started L s n res)) p = ws_dir s p"
    "min (ws_synced s) (length (B @ frames_image (lib_crc L) gs)) \<le> ws_synced (phase_state (started L s n res))"
    "phase_inv L key (started L s n res)"
proof -
  let ?bs = "take n (active_file s)" and ?d = "crash_image s n" and ?p = "ws_path s"
  note stamps = L(2) [unfolded start_stamps_ok_def]
  have n: "length (seg_encode (ws_segment_header s)) \<le> n" "n \<le> length (active_file s)" "restart_room L io ?p ?bs"
    using c(1,3) by (auto simp: crashable_def crash_point_def)
  obtain B gs where r: "resumable L key (ws_segment_header s) B gs ?bs"
    using c(1) n by (auto simp: crashable_def cuttable_def)
  note room = restart_roomD [OF r n(3)] and sc = scan_resumable(1) [OF r restart_roomD(1) [OF r n(3)]]
  have img: "?d ?p = Some ?bs" "\<forall>p. p \<noteq> ?p \<longrightarrow> ?d p = ws_dir s p" by (simp_all add: crash_image_def)
  have res: "res = resume_segment L io (Rotating rp) (Some key) keys ?p ?d ?bs" by (simp add: start start_writer_def img(1))
  have header: "length (seg_encode (ws_segment_header s)) \<le> length (B @ frames_image (lib_crc L) gs)"
    using r sealed_length by (fastforce simp: resumable_def)
  show ?thesis
  proof (cases "snd res")
    case (Inr s')
    then have go: "resume_segment L io (Rotating rp) (Some key) keys ?p ?d ?bs = (fst res, Ok s')" by (simp add: res [symmetric] prod_eq_iff)
    obtain R where R: "writer_inv L key (B @ frames_image (lib_crc L) gs @ R) [] s'" "ws_path s' = ?p"
      "\<forall>p. p \<noteq> ?p \<longrightarrow> ws_dir s' p = ?d p"
      by (rule resume_Ok [where dir = ?d and path = ?p, OF r n(3) img(1) L(1) conjunct1 [OF stamps] conjunct2 [OF stamps] L(3) go])
    let ?k = "min (ws_synced s) (length (B @ frames_image (lib_crc L) gs))"
    let ?t = "s'\<lparr>ws_synced := max (ws_synced s') ?k\<rparr>"
    have st: "started L s n res = Serving ?t" by (simp add: started_def Inr sc)
    have inv: "writer_inv L key (B @ frames_image (lib_crc L) gs @ R) [] ?t"
      using R(1) by (auto simp: writer_inv_def is_fixed_def)
    have "closed_log L key ?t" using c(2) R(2,3) img(2) by (auto simp: closed_log_def)
    with inv have "phase_inv L key (started L s n res)" by (fastforce simp: phase_inv_def st)
    then show ?thesis using that [OF r sc, of R] R(2,3) img(2) writer_invD(11) [OF inv] by (simp add: st)
  next
    case (Inl e)
    then have go: "resume_segment L io (Rotating rp) (Some key) keys ?p ?d ?bs = (fst res, Err e)" by (simp add: res [symmetric] prod_eq_iff)
    obtain R where R: "fst res ?p = Some (B @ frames_image (lib_crc L) gs @ R)"
      "cuttable L key (ws_segment_header s) (B @ frames_image (lib_crc L) gs @ R)" "\<forall>p. p \<noteq> ?p \<longrightarrow> fst res p = ?d p"
      by (rule resume_Err [where dir = ?d and path = ?p, OF r n(3) img(1) L(1) conjunct1 [OF stamps] conjunct2 [OF stamps] L(3) go])
    let ?t = "s\<lparr>ws_dir := fst res, ws_synced := min (ws_synced s) (length (B @ frames_image (lib_crc L) gs))\<rparr>"
    have st: "started L s n res = Down ?t" by (simp add: started_def Inl sc)
    have act: "active_file ?t = B @ frames_image (lib_crc L) gs @ R" using R(1) by (simp add: active_file_def)
    then have "crashable L key ?t" using R(2) header c(1) by (simp add: crashable_def)
    moreover have "closed_log L key ?t" using c(2) R(3) img(2) by (auto simp: closed_log_def)
    ultimately have "phase_inv L key (started L s n res)" by (simp add: phase_inv_def st)
    then show ?thesis using that [OF r sc, of R] R(3) img(2) act by (simp add: st)
  qed
qed

inductive_cases log_step_Serving: "log_step L key (Serving s) ph"
inductive_cases log_step_Down: "log_step L key (Down s) ph"

interpretation logs: invariant_system "log_init L key" "log_step L key" "\<lambda>ph. marker_json_ok L \<longrightarrow> phase_inv L key ph" for L key
proof
  show "marker_json_ok L \<longrightarrow> phase_inv L key ph" if "log_init L key ph" for ph
    using that
  proof cases
    case (init_fresh dir path keys io rp d s)
    then have s: "s = fresh_writer L key rp (si_now io) path dir" using fresh_start(1) [where dir = dir and path = path, OF init_fresh(2,4)] by simp
    have "closed_log L key s" using init_fresh(2,3) by (simp add: s fresh_writer_def initial_state_def closed_log_def Let_def)
    with fresh_start(2) [where dir = dir and path = path, OF init_fresh(2,4)] show ?thesis by (fastforce simp: init_fresh(1) s phase_inv_def)
  qed
  show "marker_json_ok L \<longrightarrow> phase_inv L key ph'" if inv: "marker_json_ok L \<longrightarrow> phase_inv L key ph" and step: "log_step L key ph ph'" for ph ph'
  proof
    assume L: "marker_json_ok L"
    show "phase_inv L key ph'"
    proof (cases ph)
      case (Serving s)
      then obtain A fs where i: "writer_inv L key A fs s" "closed_log L key s" "length fs < 1024" using inv L by (auto simp: phase_inv_def)
      from step [unfolded Serving] show ?thesis
        by (cases rule: log_step_Serving)
          (use serve_inv [OF i L] serve_crashable [OF i L] inv_crashable [OF i(1)] i(2) in \<open>auto simp: phase_inv_def\<close>)
    next
      case (Down s)
      then have c: "crashable L key s" "closed_log L key s" using inv L by (simp_all add: phase_inv_def)
      obtain io n keys rp where
        ph': "ph' = started L s n (start_writer L io (Rotating rp) (Some key) keys (ws_path s) (crash_image s n))"
        and h: "crash_point L io s n" "start_stamps_ok io" "key \<in> set keys"
        by (rule log_step_Down [OF step [unfolded Down]])
      show ?thesis unfolding ph' by (rule restart_cases [OF c h(1) L h(2,3) refl])
    qed
  qed
qed

lemma running_inv:
  assumes "running L key s" "marker_json_ok L"
  obtains A fs where "writer_inv L key A fs s" "closed_log L key s" "length fs < 1024"
  using logs.reachable_inv [OF assms(1)] assms(2) by (auto simp: phase_inv_def)

lemma down_crashable:
  assumes "log_reachable L key (Down s)" "marker_json_ok L"
  shows "crashable L key s"
  using logs.reachable_inv [OF assms(1)] assms(2) by (simp add: phase_inv_def)

lemma fresh_running:
  fixes io :: start_io
  assumes "dir path = None" "\<forall>p bs. dir p = Some bs \<longrightarrow> closed_segment L key bs"
  shows "running L key (fresh_writer L key rp (si_now io) path dir)"
  using init_fresh [where dir = dir and path = path, OF assms, of "[key]" io rp]
    fresh_start(1) [where dir = dir and path = path and keys = "[key]", OF assms(1)] by (intro reachable_init) simp

lemma running_append:
  assumes "running L key s" "stamps_ok io" "request_ok L rq" "append_request L io rq s = Running s' (Some (Ok off))"
  shows "running L key s'"
  using assms
  by (intro reachable_step [OF assms(1)] step_serve [where req = "WrAppend rq" and a = "Some (Ok off)"])
    (simp_all add: fair_request_def serve_def damages_def)

section \<open>Bytes are only added\<close>

text \<open>
  A request only adds bytes to files, adds files and, within a segment, never lowers the synced mark; the file it moves on to is new.
\<close>

definition grows :: "writer_state \<Rightarrow> writer_state \<Rightarrow> bool" where
  "grows s t \<longleftrightarrow> (\<forall>p bs. ws_dir s p = Some bs \<longrightarrow> (\<exists>R. ws_dir t p = Some (bs @ R)))
     \<and> (ws_path t = ws_path s \<and> (ws_synced s \<le> length (active_file s) \<longrightarrow> ws_synced s \<le> ws_synced t) \<or> ws_dir s (ws_path t) = None)
     \<and> (ws_synced s \<le> length (active_file s) \<longrightarrow> ws_synced t \<le> length (active_file t))"

lemma grows_refl [simp]: "grows s s"
  by (simp add: grows_def)

lemma grows_trans: "grows s t \<Longrightarrow> grows t u \<Longrightarrow> grows s u"
  unfolding grows_def
  by (elim conjE, intro conjI) (metis append.assoc, (metis option.exhaust option.distinct(1) order_trans), blast)

lemma grows_update:
  assumes "ws_dir t = ws_dir s" "ws_path t = ws_path s" "ws_synced t = ws_synced s"
  shows "grows s t"
  using assms by (simp add: grows_def active_file_def)

lemma grows_mark: "grows s (mark_synced s)"
  by (simp add: grows_def mark_synced_def active_file_def)

lemma grows_write: "grows s (write_only w bs s)"
  by (auto simp: grows_def write_only_def active_file_def)

lemma grows_write_sync: "grows s (write_and_sync w bs s)"
  using grows_trans [OF grows_write grows_mark] grows_write by (simp add: write_and_sync_def Let_def)

lemma grows_fields [simp]:
  "grows s (t\<lparr>ws_compaction := c\<rparr>) = grows s t" "grows s (t\<lparr>ws_offset := n\<rparr>) = grows s t"
  "grows s (t\<lparr>ws_pending_unsynced := b\<rparr>) = grows s t" "grows (s\<lparr>ws_compaction := c\<rparr>) t = grows s t"
  "grows (s\<lparr>ws_offset := n\<rparr>) t = grows s t" "grows (s\<lparr>ws_pending_unsynced := b\<rparr>) t = grows s t"
  by (simp_all add: grows_def active_file_def)

lemma grows_emit: "emit_compaction_marker L st w key c s = (s', r) \<Longrightarrow> grows s s'"
proof -
  assume e: "emit_compaction_marker L st w key c s = (s', r)"
  obtain c' m where "finalise_marker (lib_hmac L) key (ws_offset s) c = (c', m)" by fastforce
  with e show ?thesis
    using grows_write_sync [of "s\<lparr>ws_compaction := Some c'\<rparr>" w]
    by (auto simp: emit_compaction_marker_def Let_def split: if_splits sum.splits write_result.splits)
qed

lemma grows_emit_owned: "emit_owned_marker L st w s = (s', r) \<Longrightarrow> grows s s'"
  by (auto simp: emit_owned_marker_def grows_emit split: option.splits)

lemma grows_publish:
  assumes "ws_dir s next = None" "ws_dir t = (ws_dir s)(next \<mapsto> prefix)" "ws_path t = next" "ws_synced t = length prefix"
  shows "grows s t"
  using assms by (auto simp: grows_def active_file_def)

lemma grows_rotate:
  assumes "rotate L io reason s = (s', r)"
  shows "grows s s'"
proof -
  obtain s1 r1 where e: "emit_owned_marker L (ri_marker_stamp io) (ri_marker_write io) s = (s1, r1)" by fastforce
  note g1 = grows_emit_owned [OF e] and g2 = grows_trans [OF grows_emit_owned [OF e] grows_mark]
  have "s' = s1 \<or> s' = mark_synced s1 \<or> grows (mark_synced s1) s'"
    using assms e
    by (auto simp: rotate_def Let_def split: sum.splits if_splits option.splits intro: grows_publish)
  with g1 g2 grows_trans [OF g2] show ?thesis by blast
qed

lemma grows_preflight:
  assumes "preflight_rotation L io n m s = (s', r)"
  shows "grows s s'"
proof -
  have "grows ((mark_synced s)\<lparr>ws_pending_unsynced := False\<rparr>) s' \<Longrightarrow> grows s s'" using grows_trans [OF grows_mark] by simp
  with assms show ?thesis by (auto simp: preflight_rotation_def split: option.splits if_splits dest: grows_rotate)
qed

lemma grows_after_write: "grows s (step_state (after_write L io f force s))"
proof -
  have "grows s s3" if "emit_compaction_marker L st w key c (s\<lparr>ws_offset := n, ws_compaction := d\<rparr>) = (s3, r)" for L st w key c n d s3 r
    using grows_emit [OF that] by simp
  then show ?thesis by (auto simp: after_write_def Let_def split: option.splits prod.splits sum.splits)
qed

lemma grows_append: "grows s (step_state (append_request L io rq s))"
proof (cases "encode_frame (lib_crc L) (rq_header rq) (rq_payload rq)")
  case (Some f)
  let ?force = "rq_force_authentication_marker rq" and ?im = "needs_immediate_sync (event_type (rq_header rq))"
  obtain s1 r1 where pre: "preflight_rotation L io (length f) (marker_reserve f ?force s) s = (s1, r1)" by fastforce
  note g1 = grows_preflight [OF pre]
  let ?s2 = "if ?im then write_and_sync (ai_write io) f s1 else write_only (ai_write io) f s1"
  have g2: "grows s ?s2" using grows_trans [OF g1] grows_write grows_write_sync by simp
  have "grows (?s2\<lparr>ws_pending_unsynced := \<not> ?im\<rparr>) (step_state (after_write L io f ?force (?s2\<lparr>ws_pending_unsynced := \<not> ?im\<rparr>)))"
    by (rule grows_after_write)
  then have g3: "grows s (step_state (after_write L io f ?force (?s2\<lparr>ws_pending_unsynced := \<not> ?im\<rparr>)))"
    using grows_trans [OF g2] by simp
  show ?thesis using g1 g2 g3 Some
    by (cases "ai_write io"; cases ?im) (simp_all add: append_request_def pre Let_def split: sum.split)
qed (simp add: append_request_def)

lemma grows_serve: "grows s (step_state (serve L io req s))"
proof (cases req)
  case (WrAppend rq)
  with grows_append show ?thesis by (simp add: serve_def)
next
  case WrFlush
  with grows_mark show ?thesis by (simp add: serve_def flush_request_def)
next
  case (WrOnce kind)
  then show ?thesis
    by (auto simp: serve_def once_barrier_def dest: grows_emit split: option.splits prod.splits sum.splits)
next
  case WrShutdown
  obtain s1 r1 where e: "emit_owned_marker L (ai_marker_stamp io) (ai_marker_write io) s = (s1, r1)" by fastforce
  note g1 = grows_emit_owned [OF e] and g2 = grows_trans [OF grows_emit_owned [OF e] grows_mark]
  with grows_mark WrShutdown e show ?thesis
    by (auto simp: serve_def shutdown_writer_def split: sum.splits)
qed

section \<open>Synced bytes stay\<close>

text \<open>The file \<open>p\<close> starts with \<open>P\<close>, and these bytes are synced if it is the active one.\<close>

definition holds :: "string \<Rightarrow> bytes \<Rightarrow> writer_state \<Rightarrow> bool" where
  "holds p P s \<longleftrightarrow> (\<exists>R. ws_dir s p = Some (P @ R)) \<and> (p = ws_path s \<longrightarrow> length P \<le> ws_synced s)"

lemma holds_grows:
  assumes "grows s t" "ws_synced s \<le> length (active_file s)" "holds p P s"
  shows "holds p P t"
proof -
  obtain R where R: "ws_dir s p = Some (P @ R)" using assms(3) by (auto simp: holds_def)
  have "\<forall>p bs. ws_dir s p = Some bs \<longrightarrow> (\<exists>R. ws_dir t p = Some (bs @ R))" using assms(1) by (simp add: grows_def)
  with R obtain R' where "ws_dir t p = Some (P @ R @ R')" by (metis append.assoc)
  moreover have "length P \<le> ws_synced t" if "p = ws_path t"
    using assms R that by (auto simp: grows_def holds_def)
  ultimately show ?thesis by (auto simp: holds_def)
qed

text \<open>A header and complete frames.\<close>

definition whole_frames :: "(bytes \<Rightarrow> u32) \<Rightarrow> bytes \<Rightarrow> bool" where
  "whole_frames crc P \<longleftrightarrow> (\<exists>ph gs. parsed_valid crc ph \<and> (\<forall>g \<in> set gs. frame_ok crc g) \<and> P = seg_encode ph @ frames_image crc gs)"

lemma whole_frames_length: "whole_frames crc P \<Longrightarrow> 60 \<le> length P"
  by (auto simp: whole_frames_def seg_encode_length intro: order_trans [OF parsed_header_len_bounds(1) le_add1])

lemma scan_keeps_frames:
  assumes "whole_frames crc P" "length (P @ rest) < 2 ^ 64"
  shows "length P \<le> resume_offset (scan_tail crc (P @ rest))"
proof -
  obtain ph gs where P: "parsed_valid crc ph" "\<forall>g \<in> set gs. frame_ok crc g" "P = seg_encode ph @ frames_image crc gs"
    using assms(1) by (auto simp: whole_frames_def)
  show ?thesis
    using scan_segment_image [OF P(1), of "frames_image crc gs @ rest"] assms(2) seg_encode_length [OF P(1)]
      wal_log.good_prefix_frames [OF P(2), of rest]
    by (simp add: P(3) Let_def frames_image_def)
qed

lemma holds_restart:
  assumes c: "crashable L key s" "closed_log L key s" "crash_point L io s n"
    and L: "marker_json_ok L" "start_stamps_ok io" "key \<in> set keys"
    and P: "whole_frames (lib_crc L) P" "holds p P s"
  shows "holds p P (phase_state (started L s n (start_writer L io (Rotating rp) (Some key) keys (ws_path s) (crash_image s n))))"
proof -
  let ?t = "phase_state (started L s n (start_writer L io (Rotating rp) (Some key) keys (ws_path s) (crash_image s n)))"
  let ?bs = "take n (active_file s)"
  obtain B gs R where r: "resumable L key (ws_segment_header s) B gs ?bs"
    and sc: "resume_offset (scan_tail (lib_crc L) ?bs) = length (B @ frames_image (lib_crc L) gs)"
    and t: "active_file ?t = B @ frames_image (lib_crc L) gs @ R" "ws_path ?t = ws_path s" "\<forall>q. q \<noteq> ws_path s \<longrightarrow> ws_dir ?t q = ws_dir s q"
      "min (ws_synced s) (length (B @ frames_image (lib_crc L) gs)) \<le> ws_synced ?t"
    by (rule restart_cases [OF c L refl])
  show ?thesis
  proof (cases "p = ws_path s")
    case False
    with P(2) t(2,3) show ?thesis by (simp add: holds_def)
  next
    case True
    then obtain Q where act: "active_file s = P @ Q" and len: "length P \<le> ws_synced s" using P(2) by (auto simp: holds_def active_file_def)
    have "ws_synced s \<le> n" "restart_room L io (ws_path s) ?bs" using c(3) by (simp_all add: crash_point_def)
    then have le: "length ?bs \<le> LEGACY_SAFE_MAX_SEGMENT_PHYSICAL_BYTES" and bs: "?bs = P @ take (n - length P) Q"
      using len act restart_roomD(1) [OF r] by auto
    have "length P \<le> length (B @ frames_image (lib_crc L) gs)"
      using scan_keeps_frames [OF P(1), of "take (n - length P) Q"] safe_lt [OF le] sc unfolding bs by simp
    moreover have "take (length (B @ frames_image (lib_crc L) gs)) (P @ take (n - length P) Q) = B @ frames_image (lib_crc L) gs"
      using scan_resumable(3) [OF r le] unfolding bs .
    ultimately obtain C where C: "B @ frames_image (lib_crc L) gs = P @ C" by (metis take_all_iff take_append)
    have "P \<noteq> []" using whole_frames_length [OF P(1)] by auto
    then have "ws_dir ?t p = Some (P @ C @ R)" using active_present [of ?t] t(1,2) C True by (metis append.assoc append_is_Nil_conv)
    moreover have "length P \<le> ws_synced ?t" using t(4) len C by (simp add: min_def split: if_splits)
    ultimately show ?thesis by (auto simp: holds_def)
  qed
qed

lemma step_holds:
  assumes "phase_inv L key ph" "marker_json_ok L" "whole_frames (lib_crc L) P" "log_step L key ph ph'" "holds p P (phase_state ph)"
  shows "holds p P (phase_state ph')"
proof (cases ph)
  case (Serving s)
  then obtain A fs where "writer_inv L key A fs s" using assms(1) by (auto simp: phase_inv_def)
  then have s: "ws_synced s \<le> length (active_file s)" using writer_invD(10,11) by metis
  have "holds p P s" using assms(5) Serving by simp
  from holds_grows [OF grows_serve s this] this assms(4) [unfolded Serving] show ?thesis
    by (cases rule: log_step_Serving) (auto, metis writer_step.sel(1))
next
  case (Down s)
  then have c: "crashable L key s" "closed_log L key s" "holds p P s" using assms(1,5) by (simp_all add: phase_inv_def)
  obtain io n keys rp where ph': "ph' = started L s n (start_writer L io (Rotating rp) (Some key) keys (ws_path s) (crash_image s n))"
    and h: "crash_point L io s n" "start_stamps_ok io" "key \<in> set keys"
    by (rule log_step_Down [OF assms(4) [unfolded Down]])
  show ?thesis unfolding ph' by (rule holds_restart [OF c(1,2) h(1) assms(2) h(2,3) assms(3) c(3)])
qed

lemma steps_hold:
  assumes "(log_step L key)\<^sup>*\<^sup>* ph ph'" "phase_inv L key ph" "marker_json_ok L" "whole_frames (lib_crc L) P" "holds p P (phase_state ph)"
  shows "holds p P (phase_state ph')"
  using assms(1)
proof (induction rule: rtranclp_induct)
  case (step y z)
  have "phase_inv L key y" using logs.steps_inv [OF step.hyps(1)] assms(2,3) by blast
  from step_holds [OF this assms(3,4) step.hyps(2) step.IH] show ?case .
qed (rule assms(5))

end
