(* ===== verification/Wal_Sample.thy ===== *)
theory Wal_Sample
  imports Wal_Runs
begin

text \<open>
  A sample of the library functions: the marker JSON as \<open>serde_json\<close> prints it, with the keys of a map in order, and a reader
  for it. The library of the samples satisfies the hypotheses of the log, and the sample runs start from it.
\<close>

section \<open>The JSON of a marker\<close>

definition json_field :: "string \<Rightarrow> string \<Rightarrow> string" where
  "json_field k v = CHR 0x22 # k @ [CHR 0x22, CHR '':''] @ v"

definition json_quote :: "string \<Rightarrow> string" where
  "json_quote v = CHR 0x22 # v @ [CHR 0x22]"

definition sample_marker_json :: "marker_payload \<Rightarrow> u32 \<Rightarrow> u64 \<Rightarrow> bytes" where
  "sample_marker_json m epoch ts = str_bytes (CHR ''{'' #
     json_field ''compaction_epoch'' (dec_digits (unat epoch)) @ CHR '','' #
     json_field ''frame_count'' (dec_digits (unat (mk_frame_count m))) @ CHR '','' #
     json_field ''from_offset'' (dec_digits (unat (mk_from_offset m))) @ CHR '','' #
     json_field ''hmac_hex'' (json_quote (mk_hmac_hex m)) @ CHR '','' #
     json_field ''to_offset'' (dec_digits (unat (mk_to_offset m))) @ CHR '','' #
     json_field ''ts_ns'' (dec_digits (unat ts)) @ [CHR ''}''])"

text \<open>The reader takes the fields in this order and ignores the last one.\<close>

definition json_next :: "string \<Rightarrow> string \<Rightarrow> (string \<times> string) option" where
  "json_next k s =
     (case split_once CHR '':'' s of
        None \<Rightarrow> None
      | Some (l, r) \<Rightarrow> if l = json_quote k then split_once CHR '','' r else None)"

definition json_number :: "(string \<times> string) option \<Rightarrow> (nat \<times> string) option" where
  "json_number f =
     (case f of None \<Rightarrow> None
      | Some (v, r) \<Rightarrow> (case parse_u64 v of None \<Rightarrow> None | Some n \<Rightarrow> Some (n, r)))"

definition sample_marker_decode :: "bytes \<Rightarrow> marker_payload option" where
  "sample_marker_decode p =
     (case map (\<lambda>b. char_of (unat b)) p of
        [] \<Rightarrow> None
      | _ # s \<Rightarrow>
     (case json_number (json_next ''compaction_epoch'' s) of None \<Rightarrow> None | Some (epoch, s1) \<Rightarrow>
     (case json_number (json_next ''frame_count'' s1) of None \<Rightarrow> None | Some (count, s2) \<Rightarrow>
     (case json_number (json_next ''from_offset'' s2) of None \<Rightarrow> None | Some (begins, s3) \<Rightarrow>
     (case json_next ''hmac_hex'' s3 of None \<Rightarrow> None | Some (tag, s4) \<Rightarrow>
     (case json_number (json_next ''to_offset'' s4) of None \<Rightarrow> None | Some (till, s5) \<Rightarrow>
        Some \<lparr>mk_from_offset = word_of_nat begins, mk_to_offset = word_of_nat till, mk_frame_count = word_of_nat count,
              mk_hmac_hex = butlast (drop 1 tag), mk_compaction_epoch = word_of_nat epoch\<rparr>))))))"

lemma sample_char: "char_of (unat (of_char c :: u8)) = c"
proof -
  have "unat (word_of_nat (of_char c) :: u8) = of_char c" by (simp add: unat_of_nat)
  then show ?thesis by (simp add: of_nat_of_char)
qed

lemma parse_dec_digits: "n < 2 ^ 64 \<Longrightarrow> parse_u64 (dec_digits n) = Some n"
proof -
  assume n: "n < 2 ^ 64"
  have "CHR ''+'' \<notin> set (dec_digits n)" using digits_dec [of n] by (auto simp: digits_def digit_value_def)
  then show ?thesis
    using read_digits_value [of "dec_digits n" 0] digits_dec [of n] dec_digits_nonempty [of n] digits_value_dec [of n] n
    by (auto simp: parse_u64_def Let_def split: list.splits)
qed

lemma json_next_field:
  assumes "CHR '':'' \<notin> set k" "CHR '','' \<notin> set v"
  shows "json_next k (json_field k v @ CHR '','' # r) = Some (v, r)"
proof -
  have "split_once CHR '':'' (json_quote k @ CHR '':'' # v @ CHR '','' # r) = Some (json_quote k, v @ CHR '','' # r)"
    using assms(1) by (intro split_once_first) (simp add: json_quote_def)
  then show ?thesis using split_once_first [OF assms(2)] by (simp add: json_next_def json_field_def json_quote_def)
qed

lemma json_number_field:
  assumes "CHR '':'' \<notin> set k" "n < 2 ^ 64"
  shows "json_number (json_next k (json_field k (dec_digits n) @ CHR '','' # r)) = Some (n, r)"
proof -
  have "CHR '','' \<notin> set (dec_digits n)" by (rule not_in_digits [OF digits_dec]) (simp add: digit_value_def)
  then show ?thesis by (simp add: json_number_def json_next_field [OF assms(1)] parse_dec_digits [OF assms(2)])
qed

lemma sample_marker_json_ok:
  assumes "hex_tag (mk_hmac_hex m)"
  shows "sample_marker_decode (sample_marker_json m epoch ts) = Some (m\<lparr>mk_compaction_epoch := epoch\<rparr>)"
proof -
  have chars: "map (\<lambda>b. char_of (unat b)) (str_bytes s) = s" for s
    by (induction s) (simp_all add: str_bytes_def sample_char)
  have tag: "CHR '','' \<notin> set (json_quote (mk_hmac_hex m))" using assms by (auto simp: hex_tag_def json_quote_def LOWER_HEX_def)
  have w: "unat (x :: u32) < 2 ^ 64" "unat (y :: u64) < 2 ^ 64" for x y
    using unsigned_less [of x, where ?'a = nat] unsigned_less [of y, where ?'a = nat] by simp_all
  have q: "butlast (drop 1 (json_quote t)) = t" for t by (simp add: json_quote_def)
  show ?thesis
    unfolding sample_marker_decode_def sample_marker_json_def chars list.case
    by (simp only: json_number_field [OF _ w(1)] json_number_field [OF _ w(2)] json_next_field [OF _ tag] append.assoc append_Cons
        option.case prod.case q list.set insert_iff empty_iff char.inject simp_thms) simp
qed

lemma sample_marker_json_small:
  assumes "hex_tag (mk_hmac_hex m)"
  shows "length (sample_marker_json m epoch ts) + 104 \<le> 512"
proof -
  have u32: "length (dec_digits (unat x)) \<le> 10" for x :: u32
    using length_dec_digits [of "unat x" 9] unsigned_less [of x, where ?'a = nat] by simp
  have u64: "length (dec_digits (unat x)) \<le> 20" for x :: u64
    using length_dec_digits [of "unat x" 19] unsigned_less [of x, where ?'a = nat] by simp
  have "length (mk_hmac_hex m) = 64" using assms by (simp add: hex_tag_def)
  then show ?thesis
    using u32 [of epoch] u32 [of "mk_frame_count m"] u64 [of "mk_from_offset m"] u64 [of "mk_to_offset m"] u64 [of ts]
    by (simp add: sample_marker_json_def str_bytes_def json_field_def json_quote_def)
qed

section \<open>The sample library\<close>

definition sample_lib :: wal_lib where
  "sample_lib = \<lparr>lib_crc = \<lambda>_. 0, lib_xxh3 = \<lambda>_. 0, lib_hmac = \<lambda>_ _. replicate 32 0, lib_sha256 = \<lambda>_. [],
     lib_marker_decode = sample_marker_decode, lib_marker_json = sample_marker_json, lib_link_json = \<lambda>_. [],
     lib_recovery_json = \<lambda>_ _. []\<rparr>"

lemma sample_lib_ok: "marker_json_ok sample_lib" "marker_json_small sample_lib"
  by (simp_all add: sample_marker_json_ok sample_marker_json_small marker_json_ok_def marker_json_small_def hmac_sized_def sample_lib_def MAX_COMPACTION_MARKER_FRAME_BYTES_def)

end
