(* ===== verification/Wal_Durability.thy ===== *)
theory Wal_Durability
  imports Wal_Sample
begin

text \<open>
  What callers of the log may rely on: acknowledgements, markers, links and restarts over the runs of
  the writer, with a sample library and a sample run that instantiate them.
\<close>

section \<open>Size of appends\<close>

lemma emit_policy: "emit_owned_marker L st w s = (s', r) \<Longrightarrow> ws_segment_policy s' = ws_segment_policy s"
  by (auto simp: emit_owned_marker_def emit_compaction_marker_def write_and_sync_def write_only_def mark_synced_def Let_def
      split: if_splits option.splits prod.splits sum.splits write_result.splits)

lemma successor_prefix_bound: "successor_prefix L io key hdr p = Ok prefix \<Longrightarrow> length prefix \<le> MAX_ROTATION_SUCCESSOR_PREFIX_BYTES"
  by (auto simp: successor_prefix_def Let_def split: sum.splits if_splits prod.splits)

lemma rotate_offset:
  assumes "rotate L io reason s = (s', Ok ())"
  shows "unat (ws_offset s') \<le> MAX_ROTATION_SUCCESSOR_PREFIX_BYTES" "ws_segment_policy s' = ws_segment_policy s"
proof -
  obtain s1 where e: "emit_owned_marker L (ri_marker_stamp io) (ri_marker_write io) s = (s1, Ok ())"
    using assms by (auto simp: rotate_def split: prod.splits sum.splits)
  obtain key hdr p prefix where p: "successor_prefix L io key hdr p = Ok prefix" "ws_offset s' = word_of_nat (length prefix)"
    and pol: "ws_segment_policy s' = ws_segment_policy s1"
    using assms e by (auto simp: rotate_def Let_def mark_synced_def split: sum.splits if_splits option.splits)
  show "unat (ws_offset s') \<le> MAX_ROTATION_SUCCESSOR_PREFIX_BYTES"
    using successor_prefix_bound [OF p(1)] p(2) by (simp add: unat_of_nat writer_bounds)
  show "ws_segment_policy s' = ws_segment_policy s" using pol emit_policy [OF e] by simp
qed

lemma no_rotation_bound:
  assumes "should_rotate now n r s = None" "ws_segment_policy s = Rotating rp" "rp_max_bytes rp \<le> DEFAULT_MAX_BYTES"
    "n \<le> MAX_FRAME_LEN" "r \<le> MAX_COMPACTION_MARKER_FRAME_BYTES"
  shows "unat (ws_offset s) + n + r \<le> LEGACY_SAFE_MAX_SEGMENT_PHYSICAL_BYTES"
proof -
  have mx: "unat (rp_max_bytes rp) \<le> 16777216"
    using assms(3) by (simp add: word_le_nat_alt DEFAULT_MAX_BYTES_def)
  have nr: "unat (word_of_nat n :: u64) = n" "unat (word_of_nat r :: u64) = r"
    using assms(4,5) by (simp_all add: unat_of_nat frame_bounds writer_bounds)
  have "ws_offset s \<le> word_of_nat SEGMENT_HEADER_LEN
      \<or> saturating_add (saturating_add (ws_offset s) (word_of_nat n)) (word_of_nat r) \<le> rp_max_bytes rp"
    using assms(1,2) by (auto simp: should_rotate_def Let_def not_le split: if_splits)
  then show ?thesis
  proof
    assume "ws_offset s \<le> word_of_nat SEGMENT_HEADER_LEN"
    then have "unat (ws_offset s) \<le> 60" by (simp add: word_le_nat_alt seg_lens)
    then show ?thesis using assms(4,5) by (simp add: frame_bounds writer_bounds)
  next
    assume "saturating_add (saturating_add (ws_offset s) (word_of_nat n)) (word_of_nat r) \<le> rp_max_bytes rp"
    then have "min (min (unat (ws_offset s) + n) (2 ^ 64 - 1) + r) (2 ^ 64 - 1) \<le> 16777216"
      using mx nr by (simp add: word_le_nat_alt unat_saturating_add)
    then show ?thesis by (simp add: writer_bounds min_def split: if_splits)
  qed
qed

lemma preflight_fits:
  assumes "validate_rotation_policy rp = Ok ()" "ws_segment_policy s = Rotating rp"
    and "n \<le> MAX_FRAME_LEN" "r \<le> MAX_COMPACTION_MARKER_FRAME_BYTES"
    and "preflight_rotation L io n r s = (s1, Ok ())"
  shows "ws_segment_policy s1 = Rotating rp" "unat (ws_offset s1) + (n + r) \<le> LEGACY_SAFE_MAX_SEGMENT_PHYSICAL_BYTES"
proof -
  have mx: "rp_max_bytes rp \<le> DEFAULT_MAX_BYTES" using assms(1) by (simp add: validate_rotation_policy_def split: if_splits)
  have "ws_segment_policy s1 = Rotating rp \<and> unat (ws_offset s1) + n + r \<le> LEGACY_SAFE_MAX_SEGMENT_PHYSICAL_BYTES"
  proof (cases "should_rotate (ai_now io) n r s")
    case None
    with assms(5) have "s1 = s" by (simp add: preflight_rotation_def)
    with no_rotation_bound [OF None assms(2) mx assms(3,4)] assms(2) show ?thesis by simp
  next
    case (Some reason)
    let ?s0 = "if ws_pending_unsynced s then (mark_synced s)\<lparr>ws_pending_unsynced := False\<rparr> else s"
    have "rotate L (ai_rotation io) reason ?s0 = (s1, Ok ())"
      using assms(5) Some by (auto simp: preflight_rotation_def split: if_splits)
    from rotate_offset [OF this] assms(2-4) show ?thesis by (simp add: frame_bounds writer_bounds mark_synced_def)
  qed
  then show "ws_segment_policy s1 = Rotating rp" "unat (ws_offset s1) + (n + r) \<le> LEGACY_SAFE_MAX_SEGMENT_PHYSICAL_BYTES"
    by simp_all
qed

lemma fit_total:
  assumes "unat (ws_offset s) + (n + r) \<le> LEGACY_SAFE_MAX_SEGMENT_PHYSICAL_BYTES" "ws_segment_policy s = Rotating rp"
  shows "ensure_frame_and_marker_fit n r s = Ok ()"
  using fits_total [OF assms(1)] assms by (simp add: ensure_frame_and_marker_fit_def is_fixed_def writer_bounds)

lemma append_total:
  assumes inv: "writer_inv L key A fs s" "closed_log L key s" "length fs < 1024"
    and L: "marker_json_ok L" "marker_json_small L" "stamps_ok io"
    and pol: "validate_rotation_policy rp = Ok ()" "ws_segment_policy s = Rotating rp" and rq: "request_ok L rq"
    and io: "ai_authority io" "ai_write io = Written" "ai_marker_write io = Written"
    and pre: "preflight_rotation L io (length (frame_bytes (lib_crc L) (rq_header rq, rq_payload rq)))
      MAX_COMPACTION_MARKER_FRAME_BYTES s = (s1, Ok ())"
  shows "\<exists>s'. append_request L io rq s = Running s' (Some (Ok (ws_offset s1)))"
proof -
  let ?g = "(rq_header rq, rq_payload rq)" and ?im = "needs_immediate_sync (event_type (rq_header rq))"
  let ?f = "frame_bytes (lib_crc L) ?g" and ?force = "rq_force_authentication_marker rq"
  have g: "frame_ok (lib_crc L) ?g" "\<not> is_marker ?g" using rq by (auto simp: request_ok_def is_marker_def)
  have enc: "encode_frame (lib_crc L) (rq_header rq) (rq_payload rq) = Some ?f" using frame_okD(2) [OF g(1)] by simp
  have fl: "length ?f \<le> MAX_FRAME_LEN" using frame_okD(3,5) [OF g(1)] by simp
  have res: "marker_reserve ?f ?force s = MAX_COMPACTION_MARKER_FRAME_BYTES"
    using writer_invD(1,12) [OF inv(1)] by (simp add: marker_reserve_def)
  note fit = preflight_fits [OF pol fl order_refl pre]
  obtain A1 fs1 where inv1: "writer_inv L key A1 fs1 s1" "closed_log L key s1" "length fs1 < 1024"
    by (rule preflight_Ok [OF inv L(1,3) pre])
  have len: "length (A1 @ frames_image (lib_crc L) (fs1 @ [?g])) + MAX_COMPACTION_MARKER_FRAME_BYTES \<le> LEGACY_SAFE_MAX_SEGMENT_PHYSICAL_BYTES"
    using fit(2) writer_inv_offset [OF inv1(1)] by simp
  then have room: "length (A1 @ frames_image (lib_crc L) fs1) + length ?f \<le> LEGACY_SAFE_MAX_SEGMENT_PHYSICAL_BYTES" by simp
  let ?s2 = "if ?im then write_and_sync Written ?f s1 else write_only Written ?f s1"
  let ?c = "window_state L key (length A1) (fs1 @ [?g])"
  have long: "Suc (length fs1) < 2 ^ 32" using inv1(3) by simp
  obtain s3 where inv3: "writer_inv L key A1 (fs1 @ [?g]) s3"
    and st: "after_write L io ?f ?force (?s2\<lparr>ws_pending_unsynced := \<not> ?im\<rparr>) =
      (if should_emit ?c \<or> ?force then
         if \<not> authority_holds io s3 then Stopped s3 None
         else (case emit_compaction_marker L (ai_marker_stamp io) (ai_marker_write io) key ?c s3 of
                 (s4, Err e) \<Rightarrow> Stopped s4 (Some (Err e))
               | (s4, Ok _) \<Rightarrow> Running (s4\<lparr>ws_pending_unsynced := False\<rparr>) (Some (Ok (ws_offset s1))))
       else Running s3 (Some (Ok (ws_offset s1))))"
    by (rule after_write_unfold [OF inv1(1) long g room refl])
  obtain s4 where "emit_compaction_marker L (ai_marker_stamp io) Written key ?c s3 = (s4, Ok ())"
    using emit_total [OF inv3 L(2) len] by blast
  then have ok: "\<exists>s'. after_write L io ?f ?force (?s2\<lparr>ws_pending_unsynced := \<not> ?im\<rparr>) = Running s' (Some (Ok (ws_offset s1)))"
    unfolding st using io by (auto simp: authority_holds_def)
  have "append_request L io rq s = after_write L io ?f ?force (?s2\<lparr>ws_pending_unsynced := \<not> ?im\<rparr>)"
    using enc res pre fit_total [OF fit(2,1)] io writer_invD(1,7) [OF inv(1)]
    by (simp add: append_request_def Let_def authority_holds_def)
  with ok show ?thesis by simp
qed

section \<open>A sample run\<close>

definition sample_stamp :: stamp where
  "sample_stamp = \<lparr>st_ts = 0, st_now = 1000, st_global = Hlc_EPOCH\<rparr>"

lemma sample_stamp_ok: "stamp_ok sample_stamp"
  using tick_global_hlc_valid [of 1000 Hlc_EPOCH] by (simp add: stamp_ok_def sample_stamp_def)

definition sample_rotation :: rotation_io where
  "sample_rotation = \<lparr>ri_marker_stamp = sample_stamp, ri_marker_write = Written, ri_sync_all = True, ri_now = 1000,
     ri_link_stamp = sample_stamp, ri_link_marker_stamp = sample_stamp, ri_publish = True\<rparr>"

definition sample_io :: "write_result \<Rightarrow> write_result \<Rightarrow> append_io" where
  "sample_io w mw = \<lparr>ai_authority = True, ai_now = 1000, ai_sync = True, ai_rotation = sample_rotation, ai_write = w,
     ai_marker_stamp = sample_stamp, ai_marker_write = mw\<rparr>"

definition sample_start :: start_io where
  "sample_start = \<lparr>si_now = 1000, si_authority = True, si_recovery_stamp = sample_stamp, si_recovery_write = Written,
     si_marker_stamp = sample_stamp, si_marker_write = Written\<rparr>"

definition sample_request :: "bool \<Rightarrow> write_request" where
  "sample_request force = \<lparr>rq_header = empty_header, rq_payload = [], rq_force_authentication_marker = force\<rparr>"

definition sample_writer :: writer_state where
  "sample_writer = fresh_writer sample_lib [7] rotation_policy_default 1000 ''000001.wal'' Map.empty"

lemma sample_ios: "stamps_ok (sample_io w mw)" "start_stamps_ok sample_start" "request_ok sample_lib (sample_request b)"
  "validate_rotation_policy rotation_policy_default = Ok ()"
  using sample_stamp_ok empty_frame_ok [of "\<lambda>_. 0"]
  by (simp_all add: stamps_ok_def sample_io_def sample_rotation_def start_stamps_ok_def sample_start_def request_ok_def
      sample_request_def sample_lib_def empty_header_def EVENT_TYPE_COMPACTION_MARKER_def validate_rotation_policy_def rotation_policy_default_def)

lemma sample_running: "running sample_lib [7] sample_writer"
  using fresh_running [of Map.empty "''000001.wal''" sample_lib "[7]" rotation_policy_default sample_start]
  by (simp add: sample_writer_def sample_start_def)

abbreviation sample_header :: bytes where
  "sample_header \<equiv> seg_encode (new_segment_header sample_lib (segment_seq_from_path ''000001.wal'') 1000)"

abbreviation sample_frame :: bytes where
  "sample_frame \<equiv> frame_bytes (\<lambda>_. 0) (empty_header, [])"

lemma sample_writer_fields:
  "ws_dir sample_writer = [''000001.wal'' \<mapsto> sample_header]" "ws_path sample_writer = ''000001.wal''" "ws_offset sample_writer = 60"
  "ws_opened_at_ns sample_writer = 1000" "ws_segment_policy sample_writer = Rotating rotation_policy_default"
  "ws_compaction sample_writer = Some (window_state sample_lib [7] 60 [])" "ws_hmac_key sample_writer = Some [7]"
  "ws_synced sample_writer = 60" "active_file sample_writer = sample_header" "length sample_header = 60"
  using new_segment_header_valid(4) [of sample_lib]
  by (simp_all add: sample_writer_def fresh_writer_def initial_state_def active_file_def Let_def seg_lens)

lemma sample_preflight:
  assumes "ws_offset s = 60" "ws_segment_policy s = Rotating rotation_policy_default" "ws_opened_at_ns s = 1000"
  shows "preflight_rotation L (sample_io w mw) n r s = (s, Ok ())"
  using assms by (simp add: preflight_rotation_def should_rotate_def sample_io_def rotation_policy_default_def DEFAULT_MAX_BYTES_def
      DEFAULT_MAX_AGE_NS_def seg_lens saturating_sub_def Let_def)

lemma sample_preflight2:
  assumes "ws_offset s = 164" "ws_segment_policy s = Rotating rotation_policy_default" "ws_opened_at_ns s = 1000"
  shows "preflight_rotation L (sample_io w mw) 104 MAX_COMPACTION_MARKER_FRAME_BYTES s = (s, Ok ())"
  using assms by (simp add: preflight_rotation_def should_rotate_def sample_io_def rotation_policy_default_def DEFAULT_MAX_BYTES_def
      DEFAULT_MAX_AGE_NS_def seg_lens saturating_sub_def Let_def saturating_add_def MAX_COMPACTION_MARKER_FRAME_BYTES_def)

definition sample_writer1 :: writer_state where
  "sample_writer1 = sample_writer\<lparr>ws_dir := [''000001.wal'' \<mapsto> sample_header @ sample_frame], ws_offset := 164,
     ws_compaction := Some (window_state sample_lib [7] 60 [(empty_header, [])]), ws_pending_unsynced := False, ws_synced := 164\<rparr>"

lemma sample_lib_crc [simp]: "lib_crc sample_lib = (\<lambda>_. 0)"
  by (simp add: sample_lib_def)

lemma sample_encode: "encode_frame (\<lambda>_. 0) empty_header [] = Some sample_frame" "length sample_frame = 104"
  using frame_okD(2) [OF empty_frame_ok, of "\<lambda>_. 0"] length_empty_frame [of "\<lambda>_. 0"] by simp_all

lemma sample_window: "\<not> should_emit (window_state sample_lib [7] n [(empty_header, [])])"
  by (simp add: should_emit_def window_state_def compaction_update_def compaction_new_def saturating_add_def
      MAX_FRAMES_BETWEEN_MARKERS_def MAX_BYTES_BETWEEN_MARKERS_def sample_encode unat_of_nat word_le_nat_alt)

text \<open>An append of an empty frame to the sample writer, at its start or behind one frame.\<close>

lemma sample_append_at:
  assumes "ws_offset s = 60 \<or> ws_offset s = 164" "ws_segment_policy s = Rotating rotation_policy_default" "ws_opened_at_ns s = 1000"
    "ws_hmac_key s = Some [7]" "ws_compaction s = Some c"
  shows "append_request sample_lib (sample_io w mw) (sample_request b) s =
    (case w of Written \<Rightarrow> after_write sample_lib (sample_io w mw) sample_frame b
                 ((write_and_sync w sample_frame s)\<lparr>ws_pending_unsynced := False\<rparr>)
     | WriteFailed _ \<Rightarrow> Running (write_and_sync w sample_frame s) (Some (Err (WalIo OtherIo))))"
proof -
  have "event_type empty_header = 0" by (simp add: empty_header_def)
  then have im: "needs_immediate_sync (event_type empty_header)" by (simp add: needs_immediate_sync_def BATCHABLE_EVENT_TYPES_def)
  have res: "marker_reserve sample_frame b s = MAX_COMPACTION_MARKER_FRAME_BYTES"
    using assms by (simp add: marker_reserve_def is_fixed_def)
  have au: "authority_holds (sample_io w mw) s'" for s' by (simp add: authority_holds_def sample_io_def)
  have w: "ai_write (sample_io v mw) = v" for v by (simp add: sample_io_def)
  have pre: "preflight_rotation sample_lib (sample_io w mw) 104 MAX_COMPACTION_MARKER_FRAME_BYTES s = (s, Ok ())"
    using assms(1) sample_preflight [OF _ assms(2,3)] sample_preflight2 [OF _ assms(2,3)] by blast
  have fit: "ensure_frame_and_marker_fit 104 MAX_COMPACTION_MARKER_FRAME_BYTES s = Ok ()"
    using assms(1) by (intro fit_total [OF _ assms(2)]) (auto simp: writer_bounds)
  have "\<not> is_fixed (write_and_sync w sample_frame s)"
    using assms(2) by (simp add: is_fixed_def write_and_sync_def write_only_def mark_synced_def Let_def)
  then show ?thesis
    using sample_encode im res au w pre fit assms(4,5)
    by (simp add: append_request_def sample_request_def Let_def split: write_result.splits)
qed

lemma sample_append:
  "append_request sample_lib (sample_io Written mw) (sample_request False) sample_writer = Running sample_writer1 (Some (Ok 60))"
proof -
  have upd: "compaction_update sample_frame (window_state sample_lib [7] 60 []) = window_state sample_lib [7] 60 [(empty_header, [])]"
    using window_state_snoc [of sample_lib "(empty_header, [])" "[7]" 60 "[]"] by simp
  have "after_write sample_lib (sample_io Written mw) sample_frame False
      ((write_and_sync Written sample_frame sample_writer)\<lparr>ws_pending_unsynced := False\<rparr>) = Running sample_writer1 (Some (Ok 60))"
    using sample_window [of 60] upd sample_encode(2)
    by (simp add: after_write_def write_and_sync_def write_only_def mark_synced_def Let_def sample_writer_fields sample_writer1_def
        active_file_def)
  then show ?thesis by (simp add: sample_append_at sample_writer_fields)
qed

text \<open>
  C16: under a valid rotation policy the ceiling check before a write never refuses a frame. Whatever the
  state of a rotating writer, once the pre-flight rotation has reported success, a frame of any legal size together
  with the bytes reserved for its marker fits below the recovery scanner's limit; so a segment never grows past
  what a restart reads, and the check that would stop the writer is unreachable.
\<close>

theorem legal_frames_always_fit:
  assumes "validate_rotation_policy rp = Ok ()" "ws_segment_policy s = Rotating rp"
    and "n \<le> MAX_FRAME_LEN" "r \<le> MAX_COMPACTION_MARKER_FRAME_BYTES"
    and "preflight_rotation L io n r s = (s1, Ok ())"
  shows "ensure_frame_and_marker_fit n r s1 = Ok ()"
  using fit_total [OF preflight_fits(2,1) [OF assms]] .

theorem legal_frames_always_fit_witness:
  "ensure_frame_and_marker_fit MAX_FRAME_LEN MAX_COMPACTION_MARKER_FRAME_BYTES sample_writer = Ok ()"
  by (rule legal_frames_always_fit [OF sample_ios(4) sample_writer_fields(5) order_refl order_refl
        sample_preflight [OF sample_writer_fields(3,5,4), of sample_lib Written Written]])

section \<open>Properties of the runs\<close>

text \<open>
  C2: the log on disk is authentic at every moment of a run and the running state is exactly what a restart
  would rebuild from it. Over any sequence of requests, with any failures of their writes and syncs, stops at any point and restarts that fail or
  succeed, as long as the writer does not serve on after a failed write that left bytes behind or a failed marker of a
  companion, Paperless or e-mail vault barrier (C35 and C36 show what happens then): every segment but the active
  one verifies up to its last byte, the recorded offset is the length of the active file, and
  \<open>recover_compaction_state\<close> on that file returns the HMAC state in memory.
\<close>

theorem running_log_is_authentic:
  assumes "running L key s" "marker_json_ok L" "key \<in> set keys"
  shows "(\<forall>p bs. p \<noteq> ws_path s \<longrightarrow> ws_dir s p = Some bs \<longrightarrow> closed_segment L key bs)
    \<and> unat (ws_offset s) = length (active_file s)
    \<and> (\<exists>c. ws_compaction s = Some c
         \<and> recover_compaction_state (lib_crc L) (lib_hmac L) (lib_marker_decode L) key keys (active_file s) = Ok c)"
proof -
  obtain A fs where i: "writer_inv L key A fs s" "closed_log L key s" by (rule running_inv [OF assms(1,2)])
  note D = writer_invD [OF i(1)]
  have "recover_compaction_state (lib_crc L) (lib_hmac L) (lib_marker_decode L) key keys (active_file s)
      = Ok (window_state L key (length A) fs)"
    using recover_sealed [OF D(3) assms(3) D(5) safe_lt [OF D(9)] D(4) D(13,14)] D(11) by (simp add: window_state_def)
  with i(2) D(7,11) writer_inv_offset [OF i(1)] show ?thesis by (simp add: closed_log_def)
qed

lemma sample_running1: "running sample_lib [7] sample_writer1"
  by (rule running_append [OF sample_running sample_ios(1,3) sample_append [of Written]])

theorem running_log_is_authentic_witness:
  "\<exists>c. ws_compaction sample_writer1 = Some c
     \<and> recover_compaction_state (lib_crc sample_lib) (lib_hmac sample_lib) (lib_marker_decode sample_lib) [7] [[7]]
         (active_file sample_writer1) = Ok c"
  using running_log_is_authentic [OF sample_running1 sample_lib_ok(1), of "[[7]]"] by simp

text \<open>
  C13: a rotation links the two segments. When the rotation before a frame reports success, in a run as in C2, the closed segment verifies to its
  last byte, the successor is a new file in the same namespace, and its first frame is a rollover record, already under a
  marker, that names the closed segment with its length and the SHA-256 of its final bytes.
\<close>

theorem rotation_links_segments:
  assumes "running L key s" "marker_json_ok L" "stamps_ok io"
    and "should_rotate (ai_now io) n r s = Some reason" "preflight_rotation L io n r s = (s', Ok ())"
  shows "\<exists>B lk link R. ws_dir s' (ws_path s) = Some B \<and> closed_segment L key B
    \<and> ws_path s' = next_segment_path (ws_path s) (ws_seq s + 1) \<and> ws_dir s (ws_path s') = None
    \<and> active_file s' = seg_encode (ws_segment_header s') @ frame_bytes (lib_crc L) link @ R \<and> frame_ok (lib_crc L) link
    \<and> event_type (fst link) = EVENT_TYPE_SEGMENT_ROLLOVER \<and> snd link = lib_link_json L lk \<and> links L (ws_path s) B lk
    \<and> closed_segment L key (active_file s')"
proof -
  obtain A fs where i: "writer_inv L key A fs s" by (rule running_inv [OF assms(1,2)])
  let ?s0 = "if ws_pending_unsynced s then (mark_synced s)\<lparr>ws_pending_unsynced := False\<rparr> else s"
  have rot: "rotate L (ai_rotation io) reason ?s0 = (s', Ok ())"
    using assms(4,5) by (auto simp: preflight_rotation_def split: if_splits)
  have i0: "writer_inv L key A fs ?s0" using i inv_synced [OF i] by simp
  have f0: "ws_dir ?s0 = ws_dir s" "ws_path ?s0 = ws_path s" "ws_seq ?s0 = ws_seq s" by (simp_all add: mark_synced_def)
  have st: "stamp_ok (ri_marker_stamp (ai_rotation io))" "stamp_ok (ri_link_stamp (ai_rotation io))"
    "stamp_ok (ri_link_marker_stamp (ai_rotation io))" using assms(3) by (simp_all add: stamps_ok_def)
  obtain B A' lk link M R where r: "writer_inv L key A' [] s'"
    "ws_path s' = next_segment_path (ws_path ?s0) (ws_seq ?s0 + 1)" "ws_dir ?s0 (ws_path s') = None" "ws_dir s' (ws_path ?s0) = Some B"
    "sealed (lib_crc L) (lib_hmac L) (lib_marker_decode L) key (seg_encode (ws_segment_header ?s0)) B"
    "length B \<le> LEGACY_SAFE_MAX_SEGMENT_PHYSICAL_BYTES"
    "A' = seg_encode (ws_segment_header s') @ frame_bytes (lib_crc L) link @ R" "frame_ok (lib_crc L) link"
    "event_type (fst link) = EVENT_TYPE_SEGMENT_ROLLOVER" "snd link = lib_link_json L lk" "links L (ws_path ?s0) B lk"
    by (rule rotate_Ok [OF i0 assms(2) st rot])
  note D = writer_invD [OF r(1)]
  have "closed_segment L key B" by (rule sealed_closed_segment [OF r(5) writer_invD(4) [OF i0] safe_lt [OF r(6)]])
  moreover have "closed_segment L key A'" by (rule sealed_closed_segment [OF D(3,4)]) (use safe_lt D(9) in simp)
  moreover have "active_file s' = A'" using D(11) by simp
  ultimately show ?thesis using r unfolding f0 by blast
qed

text \<open>
  C3: a frame acknowledged with a sync stays. When the writer acknowledges an append whose event type is synced on write, then
  after any further requests, rotations, stops at any moment, which may lose every byte not synced, and restarts that fail or
  succeed, the file it was written to holds the frame unchanged at the acknowledged offset. Both the run before the append
  and its continuation are as in C2: the writer does not serve on after a failed write that left bytes behind or
  a failed marker of a barrier.
\<close>

theorem acknowledged_frames_survive:
  assumes "running L key s" "marker_json_ok L" "stamps_ok io" "request_ok L rq"
    and "append_request L io rq s = Running s' (Some (Ok off))" "needs_immediate_sync (event_type (rq_header rq))"
    and "(log_step L key)\<^sup>*\<^sup>* (Serving s') ph" "f = frame_bytes (lib_crc L) (rq_header rq, rq_payload rq)"
  shows "\<exists>bs. ws_dir (phase_state ph) (ws_path s') = Some bs \<and> subslice (unat off) (unat off + length f) bs = f"
proof -
  obtain A fs where i: "writer_inv L key A fs s" "closed_log L key s" "length fs < 1024" by (rule running_inv [OF assms(1,2)])
  obtain A' fs' P R where r: "writer_inv L key A' fs' s'" "closed_log L key s'" "length fs' < 1024"
    "A' @ frames_image (lib_crc L) fs' = P @ frame_bytes (lib_crc L) (rq_header rq, rq_payload rq) @ R" "length P = unat off"
    "\<exists>gs. (\<forall>g \<in> set gs. frame_ok (lib_crc L) g) \<and> P = seg_encode (ws_segment_header s') @ frames_image (lib_crc L) gs"
    "needs_immediate_sync (event_type (rq_header rq)) \<longrightarrow>
       unat off + length (frame_bytes (lib_crc L) (rq_header rq, rq_payload rq)) \<le> ws_synced s'"
    by (rule append_Running [OF i assms(2,3,4,5)])
  then obtain gs where gs: "\<forall>g \<in> set gs. frame_ok (lib_crc L) g" "P = seg_encode (ws_segment_header s') @ frames_image (lib_crc L) gs"
    by blast
  note D = writer_invD [OF r(1)]
  have "P @ f = seg_encode (ws_segment_header s') @ frames_image (lib_crc L) (gs @ [(rq_header rq, rq_payload rq)])"
    by (simp add: gs(2) assms(8))
  then have whole: "whole_frames (lib_crc L) (P @ f)"
    unfolding whole_frames_def using D(4) gs(1) assms(4)
    by (intro exI [of _ "ws_segment_header s'"] exI [of _ "gs @ [(rq_header rq, rq_payload rq)]"]) (auto simp: request_ok_def)
  have "holds (ws_path s') (P @ f) (phase_state (Serving s'))"
    using D(2) r(4,5,7) assms(6,8) by (simp add: holds_def)
  moreover have "phase_inv L key (Serving s')" using r(1-3) by (auto simp: phase_inv_def)
  ultimately have "holds (ws_path s') (P @ f) (phase_state ph)" using steps_hold [OF assms(7) _ assms(2) whole] by blast
  then obtain Q where "ws_dir (phase_state ph) (ws_path s') = Some ((P @ f) @ Q)" by (auto simp: holds_def)
  with r(5) show ?thesis by (auto simp: subslice_def)
qed

lemma restart_total:
  assumes c: "crashable L key s" "crash_point L io s n"
    and L: "marker_json_small L" "key \<in> set keys" "start_stamps_ok io"
    and io: "si_authority io" "si_recovery_write io = Written" "si_marker_write io = Written"
  shows "\<exists>s'. start_writer L io (Rotating rp) (Some key) keys (ws_path s) (crash_image s n) = (ws_dir s', Ok s')"
proof -
  let ?bs = "take n (active_file s)"
  have n: "length (seg_encode (ws_segment_header s)) \<le> n" "n \<le> length (active_file s)" "restart_room L io (ws_path s) ?bs"
    using c by (auto simp: crashable_def crash_point_def)
  obtain B gs where r: "resumable L key (ws_segment_header s) B gs ?bs" using c(1) n by (auto simp: crashable_def cuttable_def)
  have img: "crash_image s n (ws_path s) = Some ?bs" by (simp add: crash_image_def)
  have st: "stamp_ok (si_recovery_stamp io)" using L(3) by (simp add: start_stamps_ok_def)
  have "\<exists>s'. resume_segment L io (Rotating rp) (Some key) keys (ws_path s) (crash_image s n) ?bs = (ws_dir s', Ok s')"
    by (rule resume_total [where dir = "crash_image s n" and path = "ws_path s", OF r n(3) img L(1,2) st io])
  then show ?thesis by (simp add: start_writer_def img)
qed

lemma sample_writer1_fields:
  "active_file sample_writer1 = sample_header @ sample_frame" "ws_path sample_writer1 = ''000001.wal''" "ws_synced sample_writer1 = 164"
  by (simp_all add: sample_writer1_def active_file_def sample_writer_fields)

lemma sample_room: "length bs \<le> 1000 \<Longrightarrow> restart_room sample_lib io path bs"
  by (simp add: restart_room_def recovery_frame_len_def sample_lib_def frame_bounds writer_bounds split: scan_result.split)

lemma sample_crash_point: "crash_point sample_lib sample_start sample_writer1 164"
  by (simp add: crash_point_def sample_writer1_fields sample_writer_fields(10) sample_encode sample_room)

lemma sample_start_fields:
  "si_authority sample_start" "si_recovery_write sample_start = Written" "si_marker_write sample_start = Written"
  by (simp_all add: sample_start_def)

abbreviation sample_restart :: "writer_state \<Rightarrow> nat \<Rightarrow> (string \<rightharpoonup> bytes) \<times> (wal_error + writer_state)" where
  "sample_restart s n \<equiv> start_writer sample_lib sample_start (Rotating rotation_policy_default) (Some [7]) [[7]] (ws_path s) (crash_image s n)"

text \<open>The writer is killed after an acknowledged append and started again.\<close>

theorem acknowledged_frames_survive_witness:
  "\<exists>s'. sample_restart sample_writer1 164 = (ws_dir s', Ok s') \<and> subslice 60 164 (the (ws_dir s' ''000001.wal'')) = sample_frame"
proof -
  obtain A fs where i: "writer_inv sample_lib [7] A fs sample_writer1" by (rule running_inv [OF sample_running1 sample_lib_ok(1)])
  obtain s' where s': "sample_restart sample_writer1 164 = (ws_dir s', Ok s')"
    using restart_total [OF inv_crashable [OF i] sample_crash_point sample_lib_ok(2) _ sample_ios(2) sample_start_fields, of "[[7]]"] by auto
  have im: "needs_immediate_sync (event_type (rq_header (sample_request False)))"
    by (simp add: sample_request_def empty_header_def needs_immediate_sync_def BATCHABLE_EVENT_TYPES_def)
  have steps: "(log_step sample_lib [7])\<^sup>*\<^sup>* (Serving sample_writer1) (started sample_lib sample_writer1 164 (sample_restart sample_writer1 164))"
  proof (rule converse_rtranclp_into_rtranclp)
    show "log_step sample_lib [7] (Serving sample_writer1) (Down sample_writer1)" by (rule step_kill)
    have "log_step sample_lib [7] (Down sample_writer1) (started sample_lib sample_writer1 164 (sample_restart sample_writer1 164))"
      by (rule step_start [OF sample_crash_point sample_ios(2)]) simp
    then show "(log_step sample_lib [7])\<^sup>*\<^sup>* (Down sample_writer1) (started sample_lib sample_writer1 164 (sample_restart sample_writer1 164))"
      by (rule r_into_rtranclp)
  qed
  from acknowledged_frames_survive [OF sample_running sample_lib_ok(1) sample_ios(1,3) sample_append [of Written] im steps refl] s'
  show ?thesis by (auto simp: started_def Let_def sample_writer1_fields sample_request_def sample_encode)
qed

text \<open>
  C4: a restart after a stop comes up. At every stop of a run as in C2, after or during any request, whether it was answered, refused,
  left any part of its bytes in the file or failed to write its marker, and after a startup that failed itself: at any crash point
  with room for the audit frame of the cut and a marker, startup recovers the segment and returns a running writer if its
  own writes succeed and the lease holds; none of the checks on markers, windows and sizes refuses the file.
\<close>

theorem crash_restart_succeeds:
  assumes "log_reachable L key (Down s)" "marker_json_ok L" "marker_json_small L" "crash_point L si s n" "key \<in> set keys"
    and "start_stamps_ok si" "si_authority si" "si_recovery_write si = Written" "si_marker_write si = Written"
  shows "\<exists>s'. start_writer L si (Rotating rp) (Some key) keys (ws_path s) (crash_image s n) = (ws_dir s', Ok s')"
  by (rule restart_total [OF down_crashable [OF assms(1,2)] assms(4,3,5-9)])

text \<open>A write of one byte fails, the process stops, and the next startup cuts the byte off.\<close>

theorem crash_restart_succeeds_witness:
  "\<exists>s'. sample_restart (write_and_sync (WriteFailed 1) sample_frame sample_writer) 61 = (ws_dir s', Ok s')"
proof -
  let ?s1 = "write_and_sync (WriteFailed 1) sample_frame sample_writer" and ?io = "sample_io (WriteFailed 1) Written"
  have "step_state (serve sample_lib ?io (WrAppend (sample_request False)) sample_writer) = ?s1"
    by (simp add: serve_def sample_append_at sample_writer_fields)
  moreover have "fair_request sample_lib ?io (WrAppend (sample_request False))" using sample_ios by (simp add: fair_request_def)
  ultimately have down: "log_reachable sample_lib [7] (Down ?s1)"
    using reachable_step [OF sample_running step_stop] by metis
  have "ws_synced ?s1 = 60" by (simp add: write_and_sync_def write_only_def Let_def sample_writer_fields)
  moreover have "length (active_file ?s1) = 61" by (simp add: sample_writer_fields sample_encode)
  ultimately have "crash_point sample_lib sample_start ?s1 61" by (simp add: crash_point_def sample_room)
  from crash_restart_succeeds [OF down sample_lib_ok this _ sample_ios(2) sample_start_fields, of "[[7]]" rotation_policy_default]
  show ?thesis by (simp del: One_nat_def)
qed

text \<open>
  C15: an authenticated append is signed when it is acknowledged. In a run as in C2, after the acknowledgement of an append that asks for an
  authentication marker, the marker walk accepts the active file up to its last byte, with no open window.
\<close>

theorem authenticated_append_is_signed:
  assumes "running L key s" "marker_json_ok L" "stamps_ok io" "request_ok L rq"
    and "append_request L io rq s = Running s' (Some (Ok off))" "rq_force_authentication_marker rq"
  shows "closed_segment L key (active_file s')"
proof -
  obtain A fs where i: "writer_inv L key A fs s" "closed_log L key s" "length fs < 1024" by (rule running_inv [OF assms(1,2)])
  obtain A' fs' where r: "writer_inv L key A' fs' s'" "rq_force_authentication_marker rq \<longrightarrow> fs' = []"
    by (rule append_Running [OF i assms(2,3,4,5)])
  note D = writer_invD [OF r(1)]
  have "closed_segment L key A'" by (rule sealed_closed_segment [OF D(3,4)]) (use safe_lt D(9) r(2) assms(6) in simp)
  then show ?thesis using D(11) r(2) assms(6) by simp
qed

theorem authenticated_append_is_signed_witness:
  "\<exists>s'. append_request sample_lib (sample_io Written Written) (sample_request True) sample_writer = Running s' (Some (Ok 60))
    \<and> closed_segment sample_lib [7] (active_file s')"
proof -
  obtain A fs where i: "writer_inv sample_lib [7] A fs sample_writer" "closed_log sample_lib [7] sample_writer" "length fs < 1024"
    by (rule running_inv [OF sample_running sample_lib_ok(1)])
  obtain s' where s': "append_request sample_lib (sample_io Written Written) (sample_request True) sample_writer = Running s' (Some (Ok 60))"
    using append_total [OF i sample_lib_ok sample_ios(1) sample_ios(4) sample_writer_fields(5) sample_ios(3) _ _ _
        sample_preflight [OF sample_writer_fields(3,5,4)], of Written Written True]
    by (auto simp: sample_io_def sample_writer_fields)
  have "rq_force_authentication_marker (sample_request True)" by (simp add: sample_request_def)
  from authenticated_append_is_signed [OF sample_running sample_lib_ok(1) sample_ios(1,3) s' this] s' show ?thesis by blast
qed

lemma successor_prefix_total:
  assumes "marker_json_small L" "length hdr = 60" "length p \<le> 8192"
  shows "\<exists>prefix. successor_prefix L io key hdr p = Ok prefix"
proof -
  obtain f where f: "encode_synthetic L (ri_link_stamp io) EVENT_TYPE_SEGMENT_ROLLOVER p = Ok f" "length f = 104 + length p"
    by (rule encode_synthetic_total [of p]) (use assms(3) in simp)
  let ?c = "compaction_update f (compaction_new key (word_of_nat 60))"
  obtain c' m where fin: "finalise_marker (lib_hmac L) key (word_of_nat (60 + length f)) ?c = (c', m)" by fastforce
  note small = marker_small [OF assms(1) fin, of 0 "ri_now io"]
  obtain g where g: "encode_synthetic L (ri_link_marker_stamp io) EVENT_TYPE_COMPACTION_MARKER (lib_marker_json L m 0 (ri_now io)) = Ok g"
    "length g = 104 + length (lib_marker_json L m 0 (ri_now io))"
    by (rule encode_synthetic_total [of "lib_marker_json L m 0 (ri_now io)"]) (use small in simp)
  show ?thesis
    using f g fin assms(2,3) small
    by (simp add: successor_prefix_def Let_def MAX_ROTATION_SUCCESSOR_PREFIX_BYTES_def add.commute)
qed

lemma sample_names: "segment_seq_from_path ''000001.wal'' = 1" "next_segment_path ''000001.wal'' 2 = ''000002.wal''"
proof -
  have stem: "file_stem ''000001.wal'' = ''000001''" using file_stem_wal [of "''000001''"] by simp
  have "parse_u64 ''000001'' = Some 1" using parse_pad6 [of 1] pad6_1 by simp
  then show "segment_seq_from_path ''000001.wal'' = 1" by (simp add: segment_seq_from_path_def stem)
  have "dec_digits 2 = ''2''" by code_simp
  moreover have "replicate 5 CHR ''0'' = ''00000''" by (simp add: numeral_eq_Suc)
  ultimately have "pad6 2 = ''000002''" by (simp add: pad6_def)
  then show "next_segment_path ''000001.wal'' 2 = ''000002.wal''"
    by (simp add: next_segment_path_def stem rsplit_once_None)
qed

lemma sample_rotate:
  obtains s' where "rotate sample_lib sample_rotation AgeExceeded sample_writer = (s', Ok ())"
proof -
  have seq: "ws_seq sample_writer = 1" by (simp add: sample_writer_def fresh_writer_def initial_state_def Let_def sample_names)
  let ?ph = "new_segment_header sample_lib (segment_seq_from_path ''000001.wal'') 1000"
  have "parse_segment_header (lib_crc sample_lib) sample_header = Ok ?ph"
    using parse_seg_encode [OF new_segment_header_valid(1), of sample_lib "segment_seq_from_path ''000001.wal''" 1000 "[]"] by simp
  moreover have "parsed_seq ?ph = 1" by (simp add: new_segment_header_def seg_v1_new_def sample_names)
  ultimately obtain pred where pred: "closed_segment_binding sample_lib ''000001.wal'' 1 (ws_dir sample_writer) = Ok pred"
    using sample_writer_fields(1,10) by (simp add: closed_segment_binding_def writer_bounds)
  have none: "emit_owned_marker sample_lib (ri_marker_stamp sample_rotation) (ri_marker_write sample_rotation) sample_writer = (sample_writer, Ok ())"
    by (simp add: emit_owned_marker_def sample_writer_fields emit_compaction_marker_def window_state_Nil compaction_new_def)
  have json: "lib_link_json sample_lib lk = []" for lk by (simp add: sample_lib_def)
  obtain prefix where pre: "successor_prefix sample_lib sample_rotation [7] (seg_encode (new_segment_header sample_lib 2 1000)) [] = Ok prefix"
    using successor_prefix_total [OF sample_lib_ok(2), of "seg_encode (new_segment_header sample_lib 2 1000)" "[]" sample_rotation "[7]"]
      new_segment_header_valid(4) [of sample_lib 2 1000] by (auto simp: seg_lens)
  have io: "ri_sync_all sample_rotation" "ri_now sample_rotation = 1000" "ri_publish sample_rotation" by (simp_all add: sample_rotation_def)
  have none2: "ws_dir (mark_synced sample_writer) (next_segment_path ''000001.wal'' 2) = None"
    by (simp add: mark_synced_def sample_writer_fields(1) sample_names(2))
  have pred': "closed_segment_binding sample_lib ''000001.wal'' 1 (ws_dir (mark_synced sample_writer)) = Ok pred"
    using pred by (simp add: mark_synced_def)
  have f: "ws_path (mark_synced sample_writer) = ''000001.wal''" "ws_seq (mark_synced sample_writer) = 1"
    "ws_hmac_key (mark_synced sample_writer) = Some [7]" by (simp_all add: mark_synced_def sample_writer_fields seq)
  have two: "(1 :: u64) + 1 = 2" by simp
  have "\<exists>s'. rotate sample_lib sample_rotation AgeExceeded sample_writer = (s', Ok ())"
    by (simp add: rotate_def none io Let_def f pred' json pre none2 two del: one_add_one)
  with that show ?thesis by blast
qed

text \<open>The sample writer rotates when a frame comes a day later.\<close>

theorem rotation_links_segments_witness:
  "\<exists>s' B lk link R. preflight_rotation sample_lib (sample_io Written Written\<lparr>ai_now := DEFAULT_MAX_AGE_NS + 1000\<rparr>) 104 512 sample_writer = (s', Ok ())
    \<and> ws_dir s' (ws_path sample_writer) = Some B \<and> links sample_lib (ws_path sample_writer) B lk
    \<and> active_file s' = seg_encode (ws_segment_header s') @ frame_bytes (lib_crc sample_lib) link @ R"
proof -
  let ?io = "sample_io Written Written\<lparr>ai_now := DEFAULT_MAX_AGE_NS + 1000\<rparr>"
  have why: "should_rotate (ai_now ?io) 104 512 sample_writer = Some AgeExceeded"
    by (simp add: should_rotate_def sample_writer_fields rotation_policy_default_def DEFAULT_MAX_BYTES_def DEFAULT_MAX_AGE_NS_def
        seg_lens saturating_sub_def Let_def)
  obtain s' where s': "rotate sample_lib sample_rotation AgeExceeded sample_writer = (s', Ok ())" by (rule sample_rotate)
  have "ws_pending_unsynced sample_writer = False" by (simp add: sample_writer_def fresh_writer_def initial_state_def Let_def)
  then have pre: "preflight_rotation sample_lib ?io 104 512 sample_writer = (s', Ok ())"
    using why s' by (simp add: preflight_rotation_def authority_holds_def) (simp add: sample_io_def)
  have st: "stamps_ok ?io" using sample_ios(1) by (simp add: stamps_ok_def sample_io_def)
  from rotation_links_segments [OF sample_running sample_lib_ok(1) st why pre] pre show ?thesis by blast
qed

end
