(* ===== verification/Wal_Failures.thy ===== *)
theory Wal_Failures
  imports Wal_Durability
begin

text \<open>
  Two failures of the disk after which \<open>run_writer\<close> goes on although its file and its state no longer
  agree: a short write of a frame, after which later acknowledged frames are cut off by the next restart, and a
  failed marker of a barrier, after which the next marker leaves a gap that no restart accepts.
\<close>

section \<open>A short write\<close>

lemma shifted_frame: "next_frame (\<lambda>_. 0) (take 1 sample_frame @ sample_frame) = None"
proof -
  have "decode_frame (\<lambda>_. 0) sample_frame = Ok \<lparr>df_header = empty_header, df_payload = []\<rparr>"
    using decode_frame_bytes [OF empty_frame_ok [of "\<lambda>_. 0"], of "[]"] by simp
  then have "subslice 0 4 sample_frame = MAGIC" by (simp add: decode_frame_def Let_def wal_lens split: if_splits)
  then have four: "take 4 sample_frame = [78, 69, 79, 84]" by (simp add: subslice_def MAGIC_def str_bytes_def)
  have "take 4 (take 1 sample_frame @ sample_frame) = take 1 (take 4 sample_frame) @ take 3 (take 4 sample_frame)"
    using sample_encode(2) by simp
  also have "\<dots> = [78, 78, 69, 79]" unfolding four by (simp add: numeral_eq_Suc)
  finally have "subslice 0 4 (take 1 sample_frame @ sample_frame) \<noteq> MAGIC" by (simp add: subslice_def MAGIC_def str_bytes_def)
  then have "\<exists>e. decode_frame (\<lambda>_. 0) (take 1 sample_frame @ sample_frame) = Err e"
    by (auto simp: decode_frame_def Let_def wal_lens sample_encode(2))
  then show ?thesis by (auto simp: next_frame_def)
qed

text \<open>
  C35: a frame acknowledged after a failed write is lost at the next restart. When \<open>write_all\<close> of a frame fails with one byte
  in the file, the writer answers with the error and goes on with the offset it had; it appends, syncs and
  acknowledges the next frame behind that byte, and the scan of a restart cuts the file in front
  of both.
\<close>

theorem failed_write_loses_acknowledged_frame:
  "\<exists>s1 s2. append_request sample_lib (sample_io (WriteFailed 1) Written) (sample_request False) sample_writer
        = Running s1 (Some (Err (WalIo OtherIo)))
     \<and> append_request sample_lib (sample_io Written Written) (sample_request False) s1 = Running s2 (Some (Ok 60))
     \<and> ws_synced s2 = length (active_file s2)
     \<and> scan_tail (lib_crc sample_lib) (active_file s2) = TornAt 60 60"
proof -
  let ?s1 = "write_and_sync (WriteFailed 1) sample_frame sample_writer"
  have f: "ws_offset ?s1 = 60" "ws_segment_policy ?s1 = Rotating rotation_policy_default" "ws_opened_at_ns ?s1 = 1000"
    "ws_hmac_key ?s1 = Some [7]" "ws_compaction ?s1 = Some (window_state sample_lib [7] 60 [])"
    by (simp_all add: write_and_sync_def write_only_def Let_def sample_writer_fields)
  have act1: "active_file ?s1 = sample_header @ take 1 sample_frame" by (simp add: sample_writer_fields)
  let ?s2 = "(write_and_sync Written sample_frame ?s1)\<lparr>ws_pending_unsynced := False\<rparr>"
  have upd: "compaction_update sample_frame (window_state sample_lib [7] 60 []) = window_state sample_lib [7] 60 [(empty_header, [])]"
    using window_state_snoc [of sample_lib "(empty_header, [])" "[7]" 60 "[]"] by simp
  have keep: "ws_offset ?s2 = 60" "ws_hmac_key ?s2 = Some [7]" "ws_compaction ?s2 = Some (window_state sample_lib [7] 60 [])"
    "active_file ?s2 = sample_header @ take 1 sample_frame @ sample_frame" "ws_synced ?s2 = length (active_file ?s2)"
    using f act1 by (simp_all add: write_and_sync_def write_only_def mark_synced_def active_file_def Let_def)
  let ?s3 = "?s2\<lparr>ws_offset := ws_offset ?s2 + 104, ws_compaction := Some (window_state sample_lib [7] 60 [(empty_header, [])])\<rparr>"
  have aw: "after_write sample_lib (sample_io Written Written) sample_frame False ?s2 = Running ?s3 (Some (Ok 60))"
    using sample_window [of 60] keep(1-3) by (simp only: after_write_def Let_def) (simp add: upd sample_encode(2))
  have "append_request sample_lib (sample_io Written Written) (sample_request False) ?s1 = Running ?s3 (Some (Ok 60))"
    using sample_append_at [OF _ f(2-5), of Written Written False] f(1) aw by simp
  moreover have "active_file ?s3 = sample_header @ take 1 sample_frame @ sample_frame" "ws_synced ?s3 = length (active_file ?s3)"
    using keep(4,5) by (simp_all add: active_file_def)
  moreover have "scan_tail (\<lambda>_. 0) (sample_header @ take 1 sample_frame @ sample_frame) = TornAt 60 60"
  proof -
    let ?ph = "new_segment_header sample_lib (segment_seq_from_path ''000001.wal'') 1000"
    have v: "parsed_valid (\<lambda>_. 0) ?ph" using new_segment_header_valid(1) [of sample_lib] by simp
    have "parsed_header_len ?ph = 60" using seg_encode_length [OF v] sample_writer_fields(10) by simp
    moreover have "good_prefix (next_frame (\<lambda>_. 0)) (take 1 sample_frame @ sample_frame) = 0"
      using shifted_frame wal_log.good_prefix_step [of "\<lambda>_. 0" "take 1 sample_frame @ sample_frame"] by simp
    ultimately show ?thesis
      using scan_segment_image [OF v, of "take 1 sample_frame @ sample_frame"] sample_writer_fields(10) sample_encode(2) by simp
  qed
  moreover have "append_request sample_lib (sample_io (WriteFailed 1) Written) (sample_request False) sample_writer
      = Running ?s1 (Some (Err (WalIo OtherIo)))"
    by (simp add: sample_append_at sample_writer_fields)
  ultimately show ?thesis by (intro exI [of _ ?s1] exI [of _ ?s3]) simp
qed

section \<open>A failed marker\<close>

text \<open>A marker whose window starts behind an operator frame that no marker covers is refused.\<close>

lemma refused_marker:
  assumes "frame_ok crc mf" "is_marker mf" "jd (snd mf) = Some m"
    "validate_existing_compaction_marker crc hm (A @ frame_bytes crc mf) hlen (length A) prev m keys = Err e"
    "length (A @ frame_bytes crc mf) < 2 ^ 64"
  shows "marker_walk crc hm jd (A @ frame_bytes crc mf) hlen keys lax (length A) prev = Err e"
  using assms decode_frame_bytes [OF assms(1), of "[]"] frame_bytes_pos [OF assms(1)] frame_okD(3) [OF assms(1)]
  by (subst marker_walk.simps) (auto simp: is_marker_def Let_def)

lemma unsigned_gap_refused:
  assumes g: "operator_frames crc [g, h]" "event_type (fst g) \<noteq> EVENT_TYPE_SEGMENT_ROLLOVER" "event_type (fst g) \<noteq> EVENT_TYPE_RECOVERY_TRUNCATED"
    and mf: "frame_ok crc mf" "is_marker mf" "jd (snd mf) = Some m"
      "unat (mk_from_offset m) = length (hdr @ frame_bytes crc g)" "unat (mk_to_offset m) = length (hdr @ frames_image crc [g, h])"
    and len: "length (hdr @ frames_image crc [g, h] @ frame_bytes crc mf) < 2 ^ 64"
  shows "\<exists>e. marker_walk crc hm jd (hdr @ frames_image crc [g, h] @ frame_bytes crc mf) (length hdr) keys lax (length hdr) None = Err e"
proof -
  let ?W = "frames_image crc [g, h]" and ?M = "frame_bytes crc mf"
  let ?bs = "hdr @ ?W @ ?M"
  have gh: "frame_ok crc g" "frame_ok crc h" using g(1) by simp_all
  have "decode_exact_frame crc (hdr @ frame_bytes crc g @ frame_bytes crc h @ ?M) (length hdr) (length (hdr @ frame_bytes crc g))
      = Ok (\<lparr>df_header = fst g, df_payload = snd g\<rparr>, length hdr + length (frame_bytes crc g))"
    using len by (intro decode_exact_at [OF gh(1)]) simp_all
  then have pre: "\<exists>e. validate_unsigned_marker_prefix crc ?bs (length hdr) (length (hdr @ frame_bytes crc g)) = Err e"
    using g(2,3) frame_bytes_pos [OF gh(1)] by (subst validate_unsigned_marker_prefix.simps) auto
  have lens: "0 < length (frame_bytes crc g)" "0 < length (frame_bytes crc h)"
    using frame_bytes_pos [OF gh(1)] frame_bytes_pos [OF gh(2)] by linarith+
  have fr: "unat (mk_from_offset m) = length hdr + length (frame_bytes crc g)" "unat (mk_to_offset m) = length hdr + length ?W"
    "length ?W = length (frame_bytes crc g) + length (frame_bytes crc h)" using mf(4,5) by simp_all
  have val: "\<exists>e. validate_existing_compaction_marker crc hm ?bs (length hdr) (length hdr + length ?W) None m keys = Err e"
    unfolding validate_existing_compaction_marker_def Let_def fr(1,2) using pre lens fr(3) by (auto simp del: length_greater_0_conv)
  have "marker_walk crc hm jd ?bs (length hdr) keys lax (length hdr) None
      = marker_walk crc hm jd ?bs (length hdr) keys lax (length hdr + length ?W) None"
    using marker_walk_image [OF g(1), of hdr hm jd ?M "length hdr" keys lax None] len by simp
  moreover have "\<exists>e. marker_walk crc hm jd ?bs (length hdr) keys lax (length hdr + length ?W) None = Err e"
    using val refused_marker [where jd = jd and A = "hdr @ ?W" and hm = hm and hlen = "length hdr" and prev = None and keys = keys
        and lax = lax, OF mf(1,2,3)] len by auto
  ultimately show ?thesis by simp
qed

lemma emit_outcomes:
  assumes "marker_json_small L" "cst_frames_since_marker c \<noteq> 0" "\<not> is_fixed s"
    "unat (ws_offset s) + 512 \<le> LEGACY_SAFE_MAX_SEGMENT_PHYSICAL_BYTES" "finalise_marker (lib_hmac L) key (ws_offset s) c = (c', m)"
  obtains f s' where "encode_synthetic L st EVENT_TYPE_COMPACTION_MARKER (lib_marker_json L m (ws_compaction_epoch s) (st_ts st)) = Ok f"
    "length f \<le> 512" "emit_compaction_marker L st Written key c s = (s', Ok ())" "active_file s' = active_file s @ f"
    "\<And>k. emit_compaction_marker L st (WriteFailed k) key c s
       = (write_and_sync (WriteFailed k) f (s\<lparr>ws_compaction := Some c'\<rparr>), Err (WalIo OtherIo))"
proof -
  let ?p = "lib_marker_json L m (ws_compaction_epoch s) (st_ts st)" and ?s1 = "s\<lparr>ws_compaction := Some c'\<rparr>"
  note small = marker_small [OF assms(1,5), of "ws_compaction_epoch s" "st_ts st"]
  obtain f where f: "encode_synthetic L st EVENT_TYPE_COMPACTION_MARKER ?p = Ok f" "length f = 104 + length ?p"
    by (rule encode_synthetic_total [of ?p]) (use small in simp)
  have fit: "ensure_frame_fits (length f) ?s1 = Ok ()"
    using fits_total [of ?s1 "length f"] f(2) small assms(3,4) by (simp add: is_fixed_def)
  let ?s2 = "write_and_sync Written f ?s1"
  let ?s3 = "?s2\<lparr>ws_offset := ws_offset ?s2 + word_of_nat (length f),
    ws_compaction := Some (compaction_new key (ws_offset ?s2 + word_of_nat (length f)))\<rparr>"
  note emit = emit_compaction_marker_def Let_def MAX_COMPACTION_MARKER_FRAME_BYTES_def
  have "emit_compaction_marker L st Written key c s = (?s3, Ok ())"
    using assms(2,5) f small fit by (simp add: emit)
  moreover have "active_file ?s3 = active_file s @ f"
    by (simp add: active_file_def write_and_sync_def write_only_def mark_synced_def Let_def)
  moreover have "emit_compaction_marker L st (WriteFailed k) key c s = (write_and_sync (WriteFailed k) f ?s1, Err (WalIo OtherIo))" for k
    using assms(2,5) f small fit by (simp add: emit)
  ultimately show ?thesis using that [of f ?s3] f small by simp
qed

lemma sample_count: "cst_frames_since_marker (window_state sample_lib [7] n [(empty_header, [])]) \<noteq> 0"
  using window_state_fields(4) [of "[(empty_header, [])]" sample_lib "[7]" n] by simp

lemma sample_failed_barrier:
  obtains s1 where "once_barrier sample_lib (sample_io Written (WriteFailed 0)) CompanionMutation sample_writer1
      = Running s1 (Some (Err (WalIo OtherIo)))"
    "ws_offset s1 = 164" "ws_segment_policy s1 = Rotating rotation_policy_default" "ws_opened_at_ns s1 = 1000"
    "ws_hmac_key s1 = Some [7]" "ws_compaction s1 = Some (window_state sample_lib [7] 164 [])"
    "active_file s1 = sample_header @ sample_frame"
proof -
  let ?io1 = "sample_io Written (WriteFailed 0)" and ?c0 = "window_state sample_lib [7] 60 [(empty_header, [])]"
  have f1: "ws_offset sample_writer1 = 164" "ws_compaction sample_writer1 = Some ?c0" "ws_hmac_key sample_writer1 = Some [7]"
    "ws_segment_policy sample_writer1 = Rotating rotation_policy_default" "ws_opened_at_ns sample_writer1 = 1000"
    by (simp_all add: sample_writer1_def sample_writer_fields)
  obtain m where fin: "finalise_marker (lib_hmac sample_lib) [7] (ws_offset sample_writer1) ?c0 = (window_state sample_lib [7] 164 [], m)"
    by (simp add: finalise_marker_def window_state_Nil compaction_new_def f1)
  have room: "unat (ws_offset sample_writer1) + 512 \<le> LEGACY_SAFE_MAX_SEGMENT_PHYSICAL_BYTES" by (simp add: f1 writer_bounds)
  have nf: "\<not> is_fixed sample_writer1" by (simp add: is_fixed_def f1)
  obtain f where f: "emit_compaction_marker sample_lib sample_stamp (WriteFailed 0) [7] ?c0 sample_writer1
      = (write_and_sync (WriteFailed 0) f (sample_writer1\<lparr>ws_compaction := Some (window_state sample_lib [7] 164 [])\<rparr>), Err (WalIo OtherIo))"
    by (rule emit_outcomes [OF sample_lib_ok(2) sample_count nf room fin, of sample_stamp]) blast
  have io: "ai_marker_stamp ?io1 = sample_stamp" "ai_marker_write ?io1 = WriteFailed 0" by (simp_all add: sample_io_def)
  let ?s1 = "write_and_sync (WriteFailed 0) f (sample_writer1\<lparr>ws_compaction := Some (window_state sample_lib [7] 164 [])\<rparr>)"
  have "once_barrier sample_lib ?io1 CompanionMutation sample_writer1 = Running ?s1 (Some (Err (WalIo OtherIo)))"
    using f by (simp add: once_barrier_def f1 io marker_failure_is_fatal_def)
  moreover have "active_file (sample_writer1\<lparr>ws_compaction := Some (window_state sample_lib [7] 164 [])\<rparr>) = sample_header @ sample_frame"
    using sample_writer1_fields(1) by (simp add: active_file_def)
  ultimately show ?thesis using that [of ?s1] f1 by (simp add: write_and_sync_def write_only_def Let_def active_file_def)
qed

lemma sample_signed_append:
  assumes s1: "ws_offset s1 = 164" "ws_segment_policy s1 = Rotating rotation_policy_default" "ws_opened_at_ns s1 = 1000"
    "ws_hmac_key s1 = Some [7]" "ws_compaction s1 = Some (window_state sample_lib [7] 164 [])" "active_file s1 = sample_header @ sample_frame"
  obtains s2 mf m where "append_request sample_lib (sample_io Written Written) (sample_request True) s1 = Running s2 (Some (Ok 164))"
    "active_file s2 = sample_header @ frames_image (\<lambda>_. 0) [(empty_header, []), (empty_header, [])] @ frame_bytes (\<lambda>_. 0) mf"
    "frame_ok (\<lambda>_. 0) mf" "is_marker mf" "length (frame_bytes (\<lambda>_. 0) mf) \<le> 512" "lib_marker_decode sample_lib (snd mf) = Some m"
    "unat (mk_from_offset m) = 164" "unat (mk_to_offset m) = 268"
proof -
  let ?io = "sample_io Written Written" and ?c = "window_state sample_lib [7] 164 [(empty_header, [])]"
  let ?w = "(write_and_sync Written sample_frame s1)\<lparr>ws_pending_unsynced := False\<rparr>"
  let ?s2 = "?w\<lparr>ws_offset := ws_offset ?w + 104, ws_compaction := Some ?c\<rparr>"
  have upd: "compaction_update sample_frame (window_state sample_lib [7] 164 []) = ?c"
    using window_state_snoc [of sample_lib "(empty_header, [])" "[7]" 164 "[]"] by simp
  have w: "ws_offset ?w = 164" "ws_compaction ?w = Some (window_state sample_lib [7] 164 [])" "ws_hmac_key ?w = Some [7]"
    "ws_segment_policy ?w = Rotating rotation_policy_default"
    using s1 by (simp_all add: write_and_sync_def write_only_def mark_synced_def Let_def)
  have act: "active_file ?s2 = sample_header @ sample_frame @ sample_frame"
    using s1(6) by (simp add: active_file_def write_and_sync_def write_only_def mark_synced_def Let_def)
  obtain c' m where fin: "finalise_marker (lib_hmac sample_lib) [7] (ws_offset ?s2) ?c = (c', m)" by fastforce
  have m: "unat (mk_from_offset m) = 164" "unat (mk_to_offset m) = 268"
    using fin w(1) window_state_fields(3) [of "[(empty_header, [])]" sample_lib "[7]" 164] by (auto simp: finalise_marker_def)
  have room: "unat (ws_offset ?s2) + 512 \<le> LEGACY_SAFE_MAX_SEGMENT_PHYSICAL_BYTES" using w(1) by (simp add: writer_bounds)
  have nf: "\<not> is_fixed ?s2" using w(4) by (simp add: is_fixed_def)
  let ?p = "lib_marker_json sample_lib m (ws_compaction_epoch ?s2) (st_ts sample_stamp)"
  let ?mf = "synthetic_frame sample_lib sample_stamp EVENT_TYPE_COMPACTION_MARKER ?p"
  obtain f s3 where f: "encode_synthetic sample_lib sample_stamp EVENT_TYPE_COMPACTION_MARKER ?p = Ok f" "length f \<le> 512"
    and e: "emit_compaction_marker sample_lib sample_stamp Written [7] ?c ?s2 = (s3, Ok ())" "active_file s3 = active_file ?s2 @ f"
    by (rule emit_outcomes [OF sample_lib_ok(2) sample_count nf room fin, of sample_stamp]) blast
  have small: "length f \<le> MAX_FRAME_LEN" using f(2) by (simp add: frame_bounds)
  note mf = synthetic_frame_facts [OF f(1) sample_stamp_ok small]
  have dec: "lib_marker_decode sample_lib (snd ?mf) = Some (m\<lparr>mk_compaction_epoch := ws_compaction_epoch ?s2\<rparr>)"
    using sample_lib_ok(1) mf(4) finalised_tag [OF _ fin] by (simp add: marker_json_ok_def)
  have io: "ai_marker_stamp ?io = sample_stamp" "ai_marker_write ?io = Written" "authority_holds ?io s" for s
    by (simp_all add: sample_io_def authority_holds_def)
  have "after_write sample_lib ?io sample_frame True ?w = Running (s3\<lparr>ws_pending_unsynced := False\<rparr>) (Some (Ok 164))"
    using e(1) w(1-3) by (simp only: after_write_def Let_def) (simp add: upd sample_encode(2) io)
  then have "append_request sample_lib ?io (sample_request True) s1 = Running (s3\<lparr>ws_pending_unsynced := False\<rparr>) (Some (Ok 164))"
    using sample_append_at [OF _ s1(2-5), of Written Written True] s1(1) by simp
  then show ?thesis
    using that [of "s3\<lparr>ws_pending_unsynced := False\<rparr>" ?mf "m\<lparr>mk_compaction_epoch := ws_compaction_epoch ?s2\<rparr>"] e(2) act mf dec f(2) m
    by (simp add: active_file_def is_marker_def)
qed

text \<open>
  C36: after a failed marker of a companion barrier, an authenticated append that is acknowledged makes the segment unreadable.
  The marker consumed the running HMAC before its write failed, the writer goes on, and the next marker covers only the frames
  after the failure; the restart refuses the segment because an operator frame before that window is unsigned.
\<close>

theorem failed_barrier_breaks_log:
  "\<exists>s1 s2 e. once_barrier sample_lib (sample_io Written (WriteFailed 0)) CompanionMutation sample_writer1
        = Running s1 (Some (Err (WalIo OtherIo)))
     \<and> append_request sample_lib (sample_io Written Written) (sample_request True) s1 = Running s2 (Some (Ok 164))
     \<and> recover_compaction_state (lib_crc sample_lib) (lib_hmac sample_lib) (lib_marker_decode sample_lib) [7] [[7]] (active_file s2) = Err e"
proof -
  let ?g = "(empty_header, [] :: bytes)" and ?ph = "new_segment_header sample_lib (segment_seq_from_path ''000001.wal'') 1000"
  obtain s1 where s1: "once_barrier sample_lib (sample_io Written (WriteFailed 0)) CompanionMutation sample_writer1
      = Running s1 (Some (Err (WalIo OtherIo)))"
    and f: "ws_offset s1 = 164" "ws_segment_policy s1 = Rotating rotation_policy_default" "ws_opened_at_ns s1 = 1000"
    "ws_hmac_key s1 = Some [7]" "ws_compaction s1 = Some (window_state sample_lib [7] 164 [])" "active_file s1 = sample_header @ sample_frame"
    by (rule sample_failed_barrier)
  obtain s2 mf m where s2: "append_request sample_lib (sample_io Written Written) (sample_request True) s1 = Running s2 (Some (Ok 164))"
    and act: "active_file s2 = sample_header @ frames_image (\<lambda>_. 0) [?g, ?g] @ frame_bytes (\<lambda>_. 0) mf"
    and mf: "frame_ok (\<lambda>_. 0) mf" "is_marker mf" "length (frame_bytes (\<lambda>_. 0) mf) \<le> 512" "lib_marker_decode sample_lib (snd mf) = Some m"
    and m: "unat (mk_from_offset m) = 164" "unat (mk_to_offset m) = 268"
    by (rule sample_signed_append [OF f])
  have ops: "operator_frames (\<lambda>_. 0) [?g, ?g]" "event_type (fst ?g) \<noteq> EVENT_TYPE_SEGMENT_ROLLOVER"
    "event_type (fst ?g) \<noteq> EVENT_TYPE_RECOVERY_TRUNCATED"
    using empty_frame_ok [of "\<lambda>_. 0"]
    by (simp_all add: is_marker_def empty_header_def EVENT_TYPE_COMPACTION_MARKER_def EVENT_TYPE_SEGMENT_ROLLOVER_def
        EVENT_TYPE_RECOVERY_TRUNCATED_def)
  obtain e where e: "marker_walk (\<lambda>_. 0) (lib_hmac sample_lib) (lib_marker_decode sample_lib) (active_file s2) 60 [[7]] True 60 None = Err e"
    using unsigned_gap_refused [where jd = "lib_marker_decode sample_lib" and hdr = sample_header and hm = "lib_hmac sample_lib"
        and keys = "[[7]]" and lax = True, OF ops mf(1,2,4)] m mf(3) sample_encode(2)
      sample_writer_fields(10) act by auto
  have v: "parsed_valid (\<lambda>_. 0) ?ph" "\<not> parsed_is_compressed ?ph" "\<not> parsed_is_sealed ?ph"
    using new_segment_header_valid [of sample_lib] by simp_all
  have "parsed_header_len ?ph = 60" using seg_encode_length [OF v(1)] sample_writer_fields(10) by simp
  moreover have "parse_segment_header (\<lambda>_. 0) (active_file s2) = Ok ?ph" unfolding act by (rule parse_seg_encode [OF v(1)])
  moreover have "60 \<le> length (active_file s2)" using act sample_writer_fields(10) by simp
  ultimately have "recover_compaction_state (lib_crc sample_lib) (lib_hmac sample_lib) (lib_marker_decode sample_lib) [7] [[7]] (active_file s2) = Err e"
    using e v(2,3) by (simp add: recover_compaction_state_def verify_existing_compaction_marker_windows_def)
  with s1 s2 show ?thesis by blast
qed

end
