(* ===== verification/Perm_Lease.thy ===== *)
theory Perm_Lease
  imports Neoth_Prelude
begin

text \<open>
  Capability leases (\<open>permissions/lease.rs\<close>): scopes, the lease record, the in-memory
  lease store and the lease subjects of channel senders. Lease identifiers are minted by
  the \<open>uuid\<close> crate and are an argument of \<open>lease_new\<close>; times are \<open>i64\<close> values
  as integers with the saturating addition written out. The JSON file behind the store is
  read and written by \<open>serde_json\<close> and is not modelled.
\<close>

section \<open>Scopes\<close>

datatype lease_scope =
    Scope_Read | Scope_WriteNeothHome | Scope_ChannelSend | Scope_ClusterTaskAccept
  | Scope_McpTool string | Scope_DangerousCommand | Scope_Egress

definition MAX_RISK_OVERRIDE_TTL_SECS :: int where
  "MAX_RISK_OVERRIDE_TTL_SECS = 24 * 60 * 60"

fun scope_as_str :: "lease_scope \<Rightarrow> string" where
  "scope_as_str Scope_Read = ''read''"
| "scope_as_str Scope_WriteNeothHome = ''write_neoth_home''"
| "scope_as_str Scope_ChannelSend = ''channel_send''"
| "scope_as_str Scope_ClusterTaskAccept = ''cluster_task_accept''"
| "scope_as_str (Scope_McpTool _) = ''mcp_tool''"
| "scope_as_str Scope_DangerousCommand = ''dangerous_command''"
| "scope_as_str Scope_Egress = ''egress''"

datatype lease_error =
    McpToolNeedsId
  | UnknownScope string
  | TtlExceedsMaximum lease_scope int int

definition scope_parse :: "string \<Rightarrow> lease_error + lease_scope" where
  "scope_parse tok =
     (case strip_prefix tok ''mcp_tool:'' of
        Some tool \<Rightarrow> (if tool = [] then Err McpToolNeedsId else Ok (Scope_McpTool tool))
      | None \<Rightarrow>
          if tok = ''read'' then Ok Scope_Read
          else if tok = ''write_neoth_home'' then Ok Scope_WriteNeothHome
          else if tok = ''channel_send'' then Ok Scope_ChannelSend
          else if tok = ''cluster_task_accept'' then Ok Scope_ClusterTaskAccept
          else if tok = ''dangerous_command'' then Ok Scope_DangerousCommand
          else if tok = ''egress'' then Ok Scope_Egress
          else Err (UnknownScope tok))"

fun max_ttl_secs :: "lease_scope \<Rightarrow> int option" where
  "max_ttl_secs Scope_DangerousCommand = Some MAX_RISK_OVERRIDE_TTL_SECS"
| "max_ttl_secs Scope_Egress = Some MAX_RISK_OVERRIDE_TTL_SECS"
| "max_ttl_secs _ = None"

definition check_ttl :: "lease_scope \<Rightarrow> int \<Rightarrow> lease_error + unit" where
  "check_ttl sc ttl =
     (case max_ttl_secs sc of
        Some m \<Rightarrow> (if m < ttl then Err (TtlExceedsMaximum sc ttl m) else Ok ())
      | None \<Rightarrow> Ok ())"

section \<open>Leases and the store\<close>

record capability_lease =
  cl_lease_id :: string
  cl_granted_to :: string
  cl_scope :: lease_scope
  cl_granted_at_unix :: int
  cl_expires_unix :: int

definition lease_new :: "string \<Rightarrow> string \<Rightarrow> lease_scope \<Rightarrow> int \<Rightarrow> int \<Rightarrow> capability_lease" where
  "lease_new uuid granted_to sc ttl_secs now_unix = \<lparr>
     cl_lease_id = uuid,
     cl_granted_to = granted_to,
     cl_scope = sc,
     cl_granted_at_unix = now_unix,
     cl_expires_unix = i64_saturating_add now_unix (max ttl_secs 0) \<rparr>"

definition lease_is_active :: "capability_lease \<Rightarrow> int \<Rightarrow> bool" where
  "lease_is_active l now_unix \<longleftrightarrow> now_unix < cl_expires_unix l"

definition lease_covers :: "capability_lease \<Rightarrow> string \<Rightarrow> lease_scope \<Rightarrow> int \<Rightarrow> bool" where
  "lease_covers l subject sc now_unix \<longleftrightarrow>
     subject \<noteq> [] \<and> cl_granted_to l \<noteq> [] \<and> lease_is_active l now_unix
     \<and> cl_granted_to l = subject \<and> cl_scope l = sc"

type_synonym lease_store = "capability_lease list"

definition lease_grant :: "capability_lease \<Rightarrow> lease_store \<Rightarrow> lease_store" where
  "lease_grant l st = st @ [l]"

definition lease_prefix_matches :: "string \<Rightarrow> lease_store \<Rightarrow> nat list" where
  "lease_prefix_matches key st = filter (\<lambda>i. starts_with (cl_lease_id (st ! i)) key) [0..<length st]"

definition lease_revoke :: "string \<Rightarrow> lease_store \<Rightarrow> lease_store \<times> capability_lease option" where
  "lease_revoke key st =
     (let idx = (case position (\<lambda>l. cl_lease_id l = key) st of
                   Some i \<Rightarrow> Some i
                 | None \<Rightarrow> (let ms = lease_prefix_matches key st
                            in if length ms = 1 then Some (ms ! 0) else None))
      in case idx of
           None \<Rightarrow> (st, None)
         | Some i \<Rightarrow> (remove_at i st, Some (st ! i)))"

definition find_covering :: "lease_store \<Rightarrow> string \<Rightarrow> lease_scope \<Rightarrow> int \<Rightarrow> capability_lease option" where
  "find_covering st subject sc now_unix = List.find (\<lambda>l. lease_covers l subject sc now_unix) st"

definition active_for :: "lease_store \<Rightarrow> string \<Rightarrow> lease_scope \<Rightarrow> int \<Rightarrow> bool" where
  "active_for st subject sc now_unix \<longleftrightarrow> find_covering st subject sc now_unix \<noteq> None"

definition lease_active :: "lease_store \<Rightarrow> int \<Rightarrow> capability_lease list" where
  "lease_active st now_unix =
     sort_key (\<lambda>l. - cl_granted_at_unix l) (filter (\<lambda>l. lease_is_active l now_unix) st)"

definition prune_expired :: "int \<Rightarrow> lease_store \<Rightarrow> lease_store \<times> capability_lease list" where
  "prune_expired now_unix st =
     (let (expired, live) = partition (\<lambda>l. \<not> lease_is_active l now_unix) st in (live, expired))"

section \<open>Subjects of channel senders\<close>

record channel_ref =
  cr_channel_id :: string
  cr_account_id :: string

record channel_account_binding =
  cab_channel_ref :: channel_ref
  cab_incarnation :: "string option"

definition HEX :: string where "HEX = ''0123456789abcdef''"

definition hex_byte :: "char \<Rightarrow> string" where
  "hex_byte c = [HEX ! (code_of c div 16), HEX ! (code_of c mod 16)]"

definition sender_hex :: "string \<Rightarrow> string" where
  "sender_hex sender = concat (map hex_byte sender)"

definition channel_lease_subject :: "channel_ref \<Rightarrow> string \<Rightarrow> string" where
  "channel_lease_subject r sender =
     ''channel-ref/'' @ cr_channel_id r @ ''/'' @ cr_account_id r @ ''/sender-hex/'' @ sender_hex sender"

definition channel_bound_lease_subject :: "channel_account_binding \<Rightarrow> string \<Rightarrow> string" where
  "channel_bound_lease_subject b sender =
     (case cab_incarnation b of
        None \<Rightarrow> channel_lease_subject (cab_channel_ref b) sender
      | Some incarnation \<Rightarrow>
          ''channel-binding/v1/'' @ cr_channel_id (cab_channel_ref b) @ ''/''
          @ cr_account_id (cab_channel_ref b) @ ''/incarnation/'' @ incarnation
          @ ''/sender-hex/'' @ sender_hex sender)"

text \<open>\<open>validate_channel_account_id\<close> of \<open>channels/registry.rs\<close>.\<close>

datatype channel_account_id_error = IdEmpty | IdTooLong nat | InvalidBoundary | InvalidCharacters

definition MAX_CHANNEL_ACCOUNT_ID_LEN :: nat where "MAX_CHANNEL_ACCOUNT_ID_LEN = 64"

definition account_alnum :: "char \<Rightarrow> bool" where
  "account_alnum c \<longleftrightarrow> is_ascii_lowercase c \<or> is_ascii_digit c"

definition validate_channel_account_id :: "string \<Rightarrow> channel_account_id_error + unit" where
  "validate_channel_account_id v =
     (if v = [] then Err IdEmpty
      else if MAX_CHANNEL_ACCOUNT_ID_LEN < length v then Err (IdTooLong MAX_CHANNEL_ACCOUNT_ID_LEN)
      else if \<not> list_all (\<lambda>c. code_of c < 128) v \<or> trim v \<noteq> v then Err InvalidCharacters
      else if \<not> account_alnum (hd v) \<or> \<not> account_alnum (last v) then Err InvalidBoundary
      else if \<not> list_all (\<lambda>c. account_alnum c \<or> c = CHR ''_'' \<or> c = CHR ''-'') v
        then Err InvalidCharacters
      else Ok ())"

section \<open>Lookup in the store\<close>

lemma find_covering_Some:
  assumes "find_covering st subject sc now = Some l"
  shows "l \<in> set st" "lease_covers l subject sc now"
  using assms unfolding find_covering_def by (auto simp: find_Some_iff)

lemma find_covering_None:
  "find_covering st subject sc now = None \<longleftrightarrow> (\<forall>l \<in> set st. \<not> lease_covers l subject sc now)"
  unfolding find_covering_def by (auto simp: find_None_iff)

lemma find_append:
  "List.find P (xs @ ys) = (case List.find P xs of None \<Rightarrow> List.find P ys | Some x \<Rightarrow> Some x)"
  by (induction xs) auto

lemma find_filter:
  "(\<forall>x \<in> set xs. P x \<longrightarrow> Q x) \<Longrightarrow> List.find P (filter Q xs) = List.find P xs"
  by (induction xs) auto

lemma lease_covers_mono: "lease_covers l s sc t' \<Longrightarrow> t \<le> t' \<Longrightarrow> lease_covers l s sc t"
  by (auto simp: lease_covers_def lease_is_active_def)

lemma prune_expired_eq:
  "prune_expired now st = (filter (\<lambda>l. lease_is_active l now) st, filter (\<lambda>l. \<not> lease_is_active l now) st)"
  by (simp add: prune_expired_def comp_def)

section \<open>Separation of subjects\<close>

definition no_slash :: "string \<Rightarrow> bool" where "no_slash s \<longleftrightarrow> CHR ''/'' \<notin> set s"

lemma no_slash_split:
  "no_slash a \<Longrightarrow> no_slash b \<Longrightarrow> a @ CHR ''/'' # x = b @ CHR ''/'' # y \<longleftrightarrow> a = b \<and> x = y"
proof (induction a arbitrary: b)
  case Nil
  then show ?case by (cases b) (auto simp: no_slash_def)
next
  case (Cons c a)
  show ?case
  proof (cases b)
    case Nil
    with Cons.prems show ?thesis by (auto simp: no_slash_def)
  next
    case (Cons d b')
    with Cons.IH [of b'] Cons.prems show ?thesis by (auto simp: no_slash_def)
  qed
qed

lemma hex_byte_inj: "hex_byte c = hex_byte d \<longleftrightarrow> c = d"
proof
  assume eq: "hex_byte c = hex_byte d"
  have inj: "HEX ! i = HEX ! j \<longleftrightarrow> i = j" if "i < 16" "j < 16" for i j
    using nth_eq_iff_index_eq [of HEX i j] that by (simp add: HEX_def)
  have bound: "code_of x < 256" for x
    by (simp add: code_of_def)
  have "code_of c div 16 = code_of d div 16" "code_of c mod 16 = code_of d mod 16"
    using eq bound [of c] bound [of d] by (simp_all add: hex_byte_def inj less_mult_imp_div_less)
  then have "code_of c = code_of d" by (metis div_mult_mod_eq)
  then show "c = d" by (simp add: code_of_def)
qed simp

lemma sender_hex_inj: "sender_hex s = sender_hex t \<longleftrightarrow> s = t"
proof (induction s arbitrary: t)
  case Nil
  then show ?case by (cases t) (auto simp: sender_hex_def hex_byte_def)
next
  case (Cons c s)
  show ?case
  proof (cases t)
    case Nil
    then show ?thesis by (auto simp: sender_hex_def hex_byte_def)
  next
    case (Cons d t')
    have "length (hex_byte c) = length (hex_byte d)" by (simp add: hex_byte_def)
    with Cons Cons.IH [of t'] show ?thesis
      by (simp add: sender_hex_def append_eq_append_conv hex_byte_inj)
  qed
qed

lemma account_id_no_slash:
  assumes "validate_channel_account_id v = Ok ()"
  shows "no_slash v"
proof -
  have "list_all (\<lambda>c. account_alnum c \<or> c = CHR ''_'' \<or> c = CHR ''-'') v"
    using assms by (auto simp: validate_channel_account_id_def split: if_splits)
  moreover have "\<not> account_alnum (CHR ''/'')"
    by (simp add: account_alnum_def is_ascii_lowercase_def is_ascii_digit_def code_of_def)
  ultimately show ?thesis
    by (auto simp: no_slash_def list_all_iff)
qed

text \<open>What the types of a binding guarantee about its components.\<close>

definition binding_ok :: "channel_account_binding \<Rightarrow> bool" where
  "binding_ok b \<longleftrightarrow> no_slash (cr_channel_id (cab_channel_ref b))
     \<and> validate_channel_account_id (cr_account_id (cab_channel_ref b)) = Ok ()
     \<and> (case cab_incarnation b of None \<Rightarrow> True | Some i \<Rightarrow> no_slash i)"

section \<open>Properties\<close>

text \<open>
  Two authenticated channel identities share a lease subject only if they are the same
  channel, account, account generation and sender. A sender name cannot be chosen to collide
  with another account's subject, and a re-added account does not inherit its predecessor's
  leases.
\<close>

theorem lease_subjects_are_separate:
  assumes "binding_ok b" and "binding_ok b'"
    and "channel_bound_lease_subject b s = channel_bound_lease_subject b' s'"
  shows "b = b' \<and> s = s'"
proof -
  let ?r = "cab_channel_ref b" and ?r' = "cab_channel_ref b'"
  have ns: "no_slash (cr_channel_id ?r)" "no_slash (cr_channel_id ?r')"
    "no_slash (cr_account_id ?r)" "no_slash (cr_account_id ?r')"
    using assms(1,2) by (auto simp: binding_ok_def account_id_no_slash)
  have "cr_channel_id ?r = cr_channel_id ?r' \<and> cr_account_id ?r = cr_account_id ?r'
      \<and> cab_incarnation b = cab_incarnation b' \<and> s = s'"
  proof (cases "cab_incarnation b")
    case None
    with assms(3) show ?thesis
      by (cases "cab_incarnation b'")
        (auto simp: channel_bound_lease_subject_def channel_lease_subject_def no_slash_split ns
          sender_hex_inj)
  next
    case (Some i)
    with assms(1) have "no_slash i" by (simp add: binding_ok_def)
    with Some assms(2,3) show ?thesis
      by (cases "cab_incarnation b'")
        (auto simp: channel_bound_lease_subject_def channel_lease_subject_def no_slash_split ns
          sender_hex_inj binding_ok_def)
  qed
  then show ?thesis by (cases b; cases b'; cases ?r; cases ?r') simp
qed

theorem lease_subjects_are_separate_witness:
  "channel_bound_lease_subject
      \<lparr>cab_channel_ref = \<lparr>cr_channel_id = ''slack'', cr_account_id = ''a''\<rparr>, cab_incarnation = None\<rparr> ''x''
   \<noteq> channel_bound_lease_subject
      \<lparr>cab_channel_ref = \<lparr>cr_channel_id = ''slack'', cr_account_id = ''a''\<rparr>, cab_incarnation = Some ''1''\<rparr> ''x''"
proof
  let ?b = "\<lambda>i. \<lparr>cab_channel_ref = \<lparr>cr_channel_id = ''slack'', cr_account_id = ''a''\<rparr>, cab_incarnation = i\<rparr>"
  assume eq: "channel_bound_lease_subject (?b None) ''x'' = channel_bound_lease_subject (?b (Some ''1'')) ''x''"
  have "trim ''a'' = ''a''"
    by (simp add: trim_def is_whitespace_def utf8_len_def code_of_def)
  then have "validate_channel_account_id ''a'' = Ok ()"
    by (simp add: validate_channel_account_id_def account_alnum_def is_ascii_lowercase_def
        MAX_CHANNEL_ACCOUNT_ID_LEN_def code_of_def)
  then have "binding_ok (?b None)" "binding_ok (?b (Some ''1''))"
    by (simp_all add: binding_ok_def no_slash_def)
  from lease_subjects_are_separate [OF this eq] show False by simp
qed

text \<open>
  A lease that is returned for a request is in the store, was granted to exactly that
  non-empty subject for exactly that scope, and has not reached its expiry second; no lease
  ever covers an empty subject.
\<close>

theorem covering_lease_is_exact:
  "case find_covering st subject sc now of
     Some l \<Rightarrow> l \<in> set st \<and> subject \<noteq> [] \<and> cl_granted_to l = subject \<and> cl_scope l = sc
       \<and> now < cl_expires_unix l
   | None \<Rightarrow> \<not> (\<exists>l. l \<in> set st \<and> subject \<noteq> [] \<and> cl_granted_to l = subject \<and> cl_scope l = sc
       \<and> now < cl_expires_unix l)"
proof (cases "find_covering st subject sc now")
  case None
  then have "\<forall>l \<in> set st. \<not> lease_covers l subject sc now" by (simp add: find_covering_None)
  with None show ?thesis
    by (auto simp: lease_covers_def lease_is_active_def)
next
  case (Some l)
  from find_covering_Some [OF this] Some show ?thesis
    by (simp add: lease_covers_def lease_is_active_def)
qed

text \<open>
  Where no earlier lease exists for a subject and scope, a fresh grant covers them
  exactly from the grant until the granted number of seconds has passed (saturating at the
  end of 64-bit time), and never with a negative time to live. There is no renewal.
\<close>

theorem grant_window_is_exact:
  assumes "\<forall>l \<in> set st. \<not> (cl_granted_to l = subject \<and> cl_scope l = sc)" and "subject \<noteq> []"
  shows "find_covering (lease_grant (lease_new uuid subject sc ttl now) st) subject sc t =
    (if t < i64_saturating_add now (max ttl 0) then Some (lease_new uuid subject sc ttl now) else None)"
proof -
  have "find_covering st subject sc t = None"
    using assms(1) by (auto simp: find_covering_None lease_covers_def)
  then show ?thesis
    using assms(2) unfolding find_covering_def lease_grant_def find_append
    by (simp add: lease_covers_def lease_is_active_def lease_new_def)
qed

theorem grant_window_is_exact_witness:
  "find_covering (lease_grant (lease_new ''u'' ''p'' Scope_Read 60 1000) []) ''p'' Scope_Read 1059
     = Some (lease_new ''u'' ''p'' Scope_Read 60 1000)
   \<and> find_covering (lease_grant (lease_new ''u'' ''p'' Scope_Read 60 1000) []) ''p'' Scope_Read 1060 = None"
  using grant_window_is_exact [of "[]" "''p''" Scope_Read "''u''" 60 1000 1059]
    grant_window_is_exact [of "[]" "''p''" Scope_Read "''u''" 60 1000 1060]
  by (simp add: i64_saturating_add_def i64_min_def i64_max_def)

text \<open>
  Pruning at some instant removes exactly the leases that are dead then, keeps the order
  of the rest, and changes no answer of the store at that or any later instant.
\<close>

theorem prune_changes_no_answer:
  assumes "now \<le> t" and "prune_expired now st = (live, expired)"
  shows "find_covering live subject sc t = find_covering st subject sc t
    \<and> live = filter (\<lambda>l. lease_is_active l now) st
    \<and> expired = filter (\<lambda>l. \<not> lease_is_active l now) st"
proof -
  have live: "live = filter (\<lambda>l. lease_is_active l now) st"
    and ex: "expired = filter (\<lambda>l. \<not> lease_is_active l now) st"
    using assms(2) by (simp_all add: prune_expired_eq)
  have "find_covering live subject sc t = find_covering st subject sc t"
    unfolding live find_covering_def
    using lease_covers_mono [OF _ assms(1)] by (intro find_filter) (auto simp: lease_covers_def)
  with live ex show ?thesis by simp
qed

theorem prune_changes_no_answer_witness:
  "find_covering [] ''p'' Scope_Read 1100
     = find_covering [lease_new ''u'' ''p'' Scope_Read 60 1000] ''p'' Scope_Read 1100"
  using prune_changes_no_answer [of 1090 1100 "[lease_new ''u'' ''p'' Scope_Read 60 1000]" "[]"
      "[lease_new ''u'' ''p'' Scope_Read 60 1000]" "''p''" Scope_Read]
  by (simp add: prune_expired_eq lease_is_active_def lease_new_def i64_saturating_add_def
      i64_min_def i64_max_def)

text \<open>
  A risk-override lease whose time to live passed the check is dead a day after its
  grant at the latest, whatever the operator asked for.
\<close>

theorem risk_override_expires_within_a_day:
  assumes "sc = Scope_DangerousCommand \<or> sc = Scope_Egress" and "check_ttl sc ttl = Ok ()"
    and "is_i64 now" and "now + 86400 \<le> t"
  shows "\<not> lease_is_active (lease_new uuid subject sc ttl now) t"
proof -
  have "ttl \<le> 86400"
    using assms(1,2) by (auto simp: check_ttl_def MAX_RISK_OVERRIDE_TTL_SECS_def split: if_splits)
  then show ?thesis
    using assms(3,4)
    by (simp add: lease_is_active_def lease_new_def i64_saturating_add_def is_i64_def) linarith
qed

theorem risk_override_expires_within_a_day_witness:
  "\<not> lease_is_active (lease_new ''u'' ''operator'' Scope_Egress 86400 5) 86405"
  by (rule risk_override_expires_within_a_day)
    (simp_all add: check_ttl_def MAX_RISK_OVERRIDE_TTL_SECS_def is_i64_def i64_min_def i64_max_def)

text \<open>
  Revoking by identifier or prefix removes at most one lease. It returns the removed
  lease, whose identifier starts with the given key; every other lease stays, in order. When
  no identifier equals the key and the prefix is ambiguous or unknown, nothing changes.
\<close>

theorem revoke_removes_exactly_one:
  "case lease_revoke key st of
     (st', None) \<Rightarrow> st' = st \<and> (\<forall>l \<in> set st. cl_lease_id l \<noteq> key)
   | (st', Some l) \<Rightarrow> \<exists>pre post. st = pre @ l # post \<and> st' = pre @ post
       \<and> starts_with (cl_lease_id l) key
       \<and> (cl_lease_id l \<noteq> key \<longrightarrow> (\<forall>m \<in> set (pre @ post). \<not> starts_with (cl_lease_id m) key))"
proof (cases "position (\<lambda>l. cl_lease_id l = key) st")
  case (Some i)
  note p = position_Some [OF Some]
  have "lease_revoke key st = (remove_at i st, Some (st ! i))"
    using Some by (simp add: lease_revoke_def)
  moreover have "st = take i st @ (st ! i) # drop (Suc i) st" using p id_take_nth_drop by blast
  moreover have "cl_lease_id (st ! i) = key" using p by simp
  ultimately show ?thesis
    by (auto simp: remove_at_def starts_with_def)
next
  case None
  then have ne: "\<forall>l \<in> set st. cl_lease_id l \<noteq> key" by (simp add: position_None)
  let ?ms = "lease_prefix_matches key st"
  show ?thesis
  proof (cases "length ?ms = 1")
    case False
    with None ne show ?thesis by (simp add: lease_revoke_def)
  next
    case True
    then obtain i where ms: "?ms = [i]" by (cases ?ms) auto
    then have "set ?ms = {i}" by simp
    then have i: "i < length st" "starts_with (cl_lease_id (st ! i)) key"
      and u: "\<And>j. j < length st \<Longrightarrow> starts_with (cl_lease_id (st ! j)) key \<Longrightarrow> j = i"
      by (auto simp: lease_prefix_matches_def)
    have sp: "st = take i st @ (st ! i) # drop (Suc i) st" using i(1) id_take_nth_drop by blast
    have "\<not> starts_with (cl_lease_id m) key" if m: "m \<in> set (take i st @ drop (Suc i) st)" for m
    proof -
      have "\<exists>j. j < length st \<and> j \<noteq> i \<and> m = st ! j"
      proof (cases "m \<in> set (take i st)")
        case True
        then obtain k where "k < i" "m = st ! k" using i(1) by (auto simp: in_set_conv_nth)
        then show ?thesis using i(1) by (intro exI [of _ k]) auto
      next
        case False
        with m obtain k where "k < length st - Suc i" "m = drop (Suc i) st ! k"
          by (auto simp: in_set_conv_nth)
        then show ?thesis by (intro exI [of _ "Suc i + k"]) auto
      qed
      with u show ?thesis by blast
    qed
    moreover have "lease_revoke key st = (remove_at i st, Some (st ! i))"
      using None ms by (simp add: lease_revoke_def)
    ultimately show ?thesis
      using i sp by (auto simp: remove_at_def)
  qed
qed

theorem revoke_removes_exactly_one_witness:
  "lease_revoke ''ab'' [lease_new ''abc'' ''p'' Scope_Read 60 0, lease_new ''x'' ''p'' Scope_Read 60 0]
     = ([lease_new ''x'' ''p'' Scope_Read 60 0], Some (lease_new ''abc'' ''p'' Scope_Read 60 0))"
proof -
  let ?st = "[lease_new ''abc'' ''p'' Scope_Read 60 0, lease_new ''x'' ''p'' Scope_Read 60 0]"
  have "lease_revoke ''ab'' ?st = (remove_at 0 ?st, Some (?st ! 0))"
    by (simp add: lease_revoke_def lease_prefix_matches_def lease_new_def starts_with_def)
  with revoke_removes_exactly_one [where key = "''ab''" and st = ?st] show ?thesis by (simp add: remove_at_def)
qed

end
