(* ===== verification/Perm_Action.thy ===== *)
theory Perm_Action
  imports Perm_Lease
begin

text \<open>
  Actions, autonomy levels, decisions and the four built-in decision tables of
  \<open>permissions/mod.rs\<close>, arm by arm with their reasons, and the map from actions to
  lease scopes. A reason is the list of pieces of its format string: a literal run, or an
  \<open>f32\<close> argument in \<open>Display\<close> or two-digit form, which stays unrendered. Texts are
  UTF-8 byte strings; the characters outside ASCII that the reasons use are named. Paths are
  the strings their \<open>display\<close> shows.
\<close>

section \<open>Actions, levels and decisions\<close>

datatype action =
    Read
  | WriteNeothHome
  | WriteOutsideHome
  | ExecScripts
  | ExecArbitrary
  | PaidProviderCall string string string string f32
  | UnboundedPaidProviderCall string string string string
  | ExternalTtsSynthesis string string bool string
  | ExternalHttpRequest string string string string string
  | ChannelSend
  | DangerousTarget string
  | McpToolInvocation string string
  | PatchApplyToRepo string u64
  | ClusterPeerPairing string string
  | SelfBinaryReplace string string string
  | ProactiveChannelSend string
  | OsFileRead string
  | OsDirectoryList string
  | OsFileWrite string
  | OsAppLaunch string
  | OsClipboardRead
  | OsClipboardWrite
  | ClusterTaskAccept
  | ExternalTaskWrite string string
  | SelfSkillToggle string bool
  | SelfCronRegister string
  | SelfSourceEdit "string list"
  | ObsidianPreloadWrite

datatype autonomy_level = Strict | Standard | Elevated | Full | Custom

fun level_as_str :: "autonomy_level \<Rightarrow> string" where
  "level_as_str Strict = ''strict''"
| "level_as_str Standard = ''standard''"
| "level_as_str Elevated = ''elevated''"
| "level_as_str Full = ''full''"
| "level_as_str Custom = ''custom''"

definition level_from_str :: "string \<Rightarrow> autonomy_level option" where
  "level_from_str s =
     (if s = ''strict'' then Some Strict
      else if s = ''standard'' then Some Standard
      else if s = ''elevated'' then Some Elevated
      else if s = ''full'' then Some Full
      else if s = ''custom'' then Some Custom
      else None)"

fun level_rank :: "autonomy_level \<Rightarrow> nat" where
  "level_rank Strict = 0"
| "level_rank Standard = 1"
| "level_rank Custom = 1"
| "level_rank Elevated = 2"
| "level_rank Full = 3"

definition meets_gate :: "autonomy_level \<Rightarrow> autonomy_level \<Rightarrow> bool" where
  "meets_gate l required =
     (if required = Custom then l = Full else level_rank required \<le> level_rank l)"

datatype piece = Lit string | F32 f32 | F32_2 f32

type_synonym reason = "piece list"

datatype decision = Allow | Confirm reason | Deny reason

fun decision_tag :: "decision \<Rightarrow> string" where
  "decision_tag Allow = ''allow''"
| "decision_tag (Confirm _) = ''confirm''"
| "decision_tag (Deny _) = ''deny''"

fun is_allow :: "decision \<Rightarrow> bool" where
  "is_allow Allow = True"
| "is_allow _ = False"

fun is_deny :: "decision \<Rightarrow> bool" where
  "is_deny (Deny _) = True"
| "is_deny _ = False"

fun is_confirm :: "decision \<Rightarrow> bool" where
  "is_confirm (Confirm _) = True"
| "is_confirm _ = False"

text \<open>The characters outside ASCII and the quotes of the reasons, in UTF-8.\<close>

definition EM_DASH :: string where "EM_DASH = [CHR 0xE2, CHR 0x80, CHR 0x94]"
definition IMPLIES :: string where "IMPLIES = [CHR 0xE2, CHR 0x87, CHR 0x92]"
definition EURO :: string where "EURO = [CHR 0xE2, CHR 0x82, CHR 0xAC]"
definition QUOTE :: string where "QUOTE = [CHR 0x27]"
definition BACKTICK :: string where "BACKTICK = [CHR 0x60]"

section \<open>Paid calls\<close>

text \<open>The bit patterns of \<open>0.50\<close> and \<open>5.0\<close>.\<close>

definition EUR_0_50 :: f32 where "EUR_0_50 = 0x3F000000"
definition EUR_5_00 :: f32 where "EUR_5_00 = 0x40A00000"

definition paid_call_identity :: "string \<Rightarrow> string \<Rightarrow> string \<Rightarrow> string \<Rightarrow> string" where
  "paid_call_identity provider model authorization_id request_binding_sha256 =
     provider @ ''/'' @ model @ '' (authorization_id='' @ authorization_id
     @ '', request_binding_sha256='' @ request_binding_sha256 @ '')''"

definition check_paid_call ::
    "f32 \<Rightarrow> f32 \<Rightarrow> string \<Rightarrow> string \<Rightarrow> string \<Rightarrow> string \<Rightarrow> string \<Rightarrow> decision" where
  "check_paid_call eur_estimate threshold level_name provider model authorization_id
       request_binding_sha256 =
     (let identity = paid_call_identity provider model authorization_id request_binding_sha256
      in if \<not> f32_is_finite eur_estimate then
           Confirm [Lit (level_name @ '': paid provider '' @ identity
             @ '' with non-finite EUR estimate (''), F32 eur_estimate, Lit ('') '' @ EM_DASH
             @ '' cost predictor likely broken; refusing to silently allow'')]
         else if f32_lt eur_estimate 0 then
           Confirm [Lit (level_name @ '': paid provider '' @ identity
             @ '' with negative EUR estimate (''), F32 eur_estimate, Lit ('') '' @ EM_DASH
             @ '' cost predictor likely broken; refusing to silently allow'')]
         else if f32_lt threshold eur_estimate then
           Confirm [Lit (level_name @ '': paid provider '' @ identity @ '' '' @ EURO),
             F32_2 eur_estimate, Lit ('' > '' @ EURO), F32_2 threshold, Lit '' limit'']
         else Allow)"

section \<open>The decision tables\<close>

fun evaluate_strict :: "action \<Rightarrow> decision" where
  "evaluate_strict Read = Allow"
| "evaluate_strict WriteNeothHome = Confirm [Lit (''strict: confirm WriteNeothHome'')]"
| "evaluate_strict WriteOutsideHome = Confirm [Lit (''strict: confirm WriteOutsideHome'')]"
| "evaluate_strict ExecScripts = Confirm [Lit (''strict: confirm ExecScripts'')]"
| "evaluate_strict ExecArbitrary = Confirm [Lit (''strict: confirm ExecArbitrary'')]"
| "evaluate_strict (PaidProviderCall provider model authorization_id request_binding_sha256 _) = Confirm [Lit (''strict: paid provider call ''
      @ paid_call_identity provider model authorization_id request_binding_sha256
      @ '' requires confirm'')]"
| "evaluate_strict (UnboundedPaidProviderCall provider model authorization_id request_binding_sha256) = Confirm [Lit (''strict: paid provider invocation ''
      @ paid_call_identity provider model authorization_id request_binding_sha256
      @ '' has no proven finite whole-invocation cost bound and requires explicit confirm'')]"
| "evaluate_strict (ExternalTtsSynthesis provider destination sends_reference_audio _) = Confirm [Lit (''strict: external TTS via ''
      @ provider @ '' to '' @ destination @ '' requires confirm''
      @ (if sends_reference_audio then '' (spoken text and reference audio leave the device)'' else '' (spoken text leaves the device)''))]"
| "evaluate_strict (ExternalHttpRequest meth destination surface _ _) = Confirm [Lit (''strict: external HTTP ''
      @ meth @ '' to '' @ destination @ '' ('' @ surface @ '') requires confirm'')]"
| "evaluate_strict ChannelSend = Confirm [Lit (''strict: confirm ChannelSend'')]"
| "evaluate_strict (DangerousTarget t) = Deny [Lit (''strict: dangerous target '' @ QUOTE @ t
      @ QUOTE)]"
| "evaluate_strict (McpToolInvocation server_id tool) = Confirm [Lit (''strict: MCP tool '' @ BACKTICK
      @ server_id @ ''::'' @ tool @ BACKTICK @ '' requires confirm'')]"
| "evaluate_strict (PatchApplyToRepo _ task_id) = Deny [Lit (''strict: agent MUST NOT mutate operator checkouts ''
      @ EM_DASH @ '' task '' @ nat_dec (unat task_id) @ '' apply denied'')]"
| "evaluate_strict (ClusterPeerPairing pub_key_hex _) = Deny [Lit (''strict: cluster makes no autonomous topology changes ''
      @ EM_DASH @ '' peer '' @ take (min 16 (length pub_key_hex)) pub_key_hex @ '' denied'')]"
| "evaluate_strict (SelfBinaryReplace from_v to_v _) = Deny [Lit (''strict: daemon self-replace (''
      @ from_v @ '' -> '' @ to_v @ '') denied '' @ EM_DASH
      @ '' agent never replaces its own binary'')]"
| "evaluate_strict (ProactiveChannelSend channel) = Deny [Lit (''strict: daemon never sends unsolicited messages ''
      @ EM_DASH @ '' proactive send to '' @ QUOTE @ channel @ QUOTE @ '' denied'')]"
| "evaluate_strict (OsFileRead path) = Confirm [Lit (''strict: OS file read of '' @ path
      @ '' requires confirm'')]"
| "evaluate_strict (OsDirectoryList path) = Confirm [Lit (''strict: OS directory listing of '' @ path
      @ '' requires confirm'')]"
| "evaluate_strict (OsFileWrite path) = Deny [Lit (''strict: OS file write of '' @ path
      @ '' denied (writes mutate the operator FS)'')]"
| "evaluate_strict (OsAppLaunch program) = Deny [Lit (''strict: launching '' @ program
      @ '' denied (arbitrary program execution)'')]"
| "evaluate_strict OsClipboardRead = Deny [Lit (''strict: OS clipboard read denied (unscoped ambient secret store)'')]"
| "evaluate_strict OsClipboardWrite = Deny [Lit (''strict: OS clipboard write denied (pastejacking injection vector)'')]"
| "evaluate_strict ClusterTaskAccept = Deny [Lit (''strict: no unattended cluster-delegated task execution'')]"
| "evaluate_strict (ExternalTaskWrite provider act) = Confirm [Lit (''strict: external task '' @ act
      @ '' on '' @ provider @ '' requires confirm'')]"
| "evaluate_strict (SelfSkillToggle skill_id enable) = Deny [Lit (''strict: self-toggle skill ''
      @ QUOTE @ skill_id @ QUOTE @ '' '' @ (if enable then ''enable'' else ''disable'')
      @ '' denied '' @ EM_DASH @ '' self-activation requires Elevated+'')]"
| "evaluate_strict (SelfCronRegister job_id) = Deny [Lit (''strict: self-register cron '' @ QUOTE
      @ job_id @ QUOTE @ '' denied '' @ EM_DASH @ '' self-activation requires Elevated+'')]"
| "evaluate_strict (SelfSourceEdit target_paths) = Deny [Lit (''strict: self-source edit of ''
      @ nat_dec (length target_paths) @ '' path(s) denied '' @ EM_DASH
      @ '' requires Elevated or Full autonomy'')]"
| "evaluate_strict ObsidianPreloadWrite = Confirm [Lit (''strict: Obsidian vault preload write requires confirm (daemon has no TTY at Strict ''
      @ EM_DASH @ '' fail-closed)'')]"

fun evaluate_standard :: "action \<Rightarrow> decision" where
  "evaluate_standard Read = Allow"
| "evaluate_standard WriteNeothHome = Allow"
| "evaluate_standard WriteOutsideHome = Confirm [Lit (''standard: write outside ~/.neoth/ requires confirm'')]"
| "evaluate_standard ExecScripts = Confirm [Lit (''standard: shell exec requires confirm'')]"
| "evaluate_standard ExecArbitrary = Confirm [Lit (''standard: shell exec requires confirm'')]"
| "evaluate_standard (PaidProviderCall provider model authorization_id request_binding_sha256 eur_estimate) = check_paid_call eur_estimate EUR_0_50 ''standard'' provider model authorization_id request_binding_sha256"
| "evaluate_standard (UnboundedPaidProviderCall provider model authorization_id request_binding_sha256) = Confirm [Lit (''standard: paid provider invocation ''
      @ paid_call_identity provider model authorization_id request_binding_sha256
      @ '' has no proven finite whole-invocation cost bound and requires explicit confirm'')]"
| "evaluate_standard (ExternalTtsSynthesis provider destination sends_reference_audio _) = Confirm [Lit (''standard: external TTS via ''
      @ provider @ '' to '' @ destination @ '' requires confirm''
      @ (if sends_reference_audio then '' (spoken text and reference audio leave the device)'' else '' (spoken text leaves the device)''))]"
| "evaluate_standard (ExternalHttpRequest meth destination surface _ _) = Confirm [Lit (''standard: external HTTP ''
      @ meth @ '' to '' @ destination @ '' ('' @ surface @ '') requires confirm'')]"
| "evaluate_standard ChannelSend = Allow"
| "evaluate_standard (DangerousTarget t) = Deny [Lit (''standard: dangerous target '' @ QUOTE @ t
      @ QUOTE)]"
| "evaluate_standard (McpToolInvocation server_id tool) = Confirm [Lit (''standard: MCP tool ''
      @ BACKTICK @ server_id @ ''::'' @ tool @ BACKTICK @ '' requires confirm '' @ EM_DASH
      @ '' external server effects'')]"
| "evaluate_standard (PatchApplyToRepo repo_root task_id) = Confirm [Lit (''standard: task ''
      @ nat_dec (unat task_id) @ '' patch apply to '' @ repo_root @ '' requires confirm'')]"
| "evaluate_standard (ClusterPeerPairing pub_key_hex discovered_via) = Confirm [Lit (''standard: peer ''
      @ take (min 16 (length pub_key_hex)) pub_key_hex @ '' (via '' @ discovered_via
      @ '') requires confirm before pairing'')]"
| "evaluate_standard (SelfBinaryReplace from_v to_v repo) = Confirm [Lit (''standard: daemon self-replace ''
      @ from_v @ '' -> '' @ to_v @ '' from '' @ repo @ '' requires confirm'')]"
| "evaluate_standard (ProactiveChannelSend channel) = Confirm [Lit (''standard: unsolicited proactive send to ''
      @ QUOTE @ channel @ QUOTE @ '' requires confirm (no TTY in daemon '' @ IMPLIES
      @ '' effectively suppressed until Elevated)'')]"
| "evaluate_standard (OsFileRead _) = Allow"
| "evaluate_standard (OsDirectoryList _) = Allow"
| "evaluate_standard (OsFileWrite path) = Confirm [Lit (''standard: OS file write of '' @ path
      @ '' requires confirm'')]"
| "evaluate_standard (OsAppLaunch program) = Confirm [Lit (''standard: launching '' @ program
      @ '' requires confirm (program execution)'')]"
| "evaluate_standard OsClipboardRead = Confirm [Lit (''standard: OS clipboard read requires confirm (unscoped secret-capture risk; no TTY ''
      @ IMPLIES @ '' suppressed until Full)'')]"
| "evaluate_standard OsClipboardWrite = Deny [Lit (''standard: OS clipboard write denied (passive pastejacking injection vector ''
      @ EM_DASH @ '' stricter than program launch)'')]"
| "evaluate_standard ClusterTaskAccept = Confirm [Lit (''standard: accept cluster-delegated task requires confirm (a ClusterTaskAccept lease for the peer upgrades this to allow)'')]"
| "evaluate_standard (ExternalTaskWrite provider act) = Confirm [Lit (''standard: external task ''
      @ act @ '' on '' @ provider @ '' requires confirm'')]"
| "evaluate_standard (SelfSkillToggle skill_id enable) = Deny [Lit (''standard: self-toggle skill ''
      @ QUOTE @ skill_id @ QUOTE @ '' '' @ (if enable then ''enable'' else ''disable'')
      @ '' denied '' @ EM_DASH @ '' self-activation requires Elevated+'')]"
| "evaluate_standard (SelfCronRegister job_id) = Deny [Lit (''standard: self-register cron '' @ QUOTE
      @ job_id @ QUOTE @ '' denied '' @ EM_DASH @ '' self-activation requires Elevated+'')]"
| "evaluate_standard (SelfSourceEdit target_paths) = Deny [Lit (''standard: self-source edit of ''
      @ nat_dec (length target_paths) @ '' path(s) denied '' @ EM_DASH
      @ '' requires Elevated or Full autonomy'')]"
| "evaluate_standard ObsidianPreloadWrite = Allow"

fun evaluate_elevated :: "action \<Rightarrow> decision" where
  "evaluate_elevated Read = Allow"
| "evaluate_elevated WriteNeothHome = Allow"
| "evaluate_elevated WriteOutsideHome = Allow"
| "evaluate_elevated ExecScripts = Allow"
| "evaluate_elevated ExecArbitrary = Confirm [Lit (''elevated: shell exec outside ~/.neoth/scripts/ requires confirm'')]"
| "evaluate_elevated (PaidProviderCall provider model authorization_id request_binding_sha256 eur_estimate) = check_paid_call eur_estimate EUR_5_00 ''elevated'' provider model authorization_id request_binding_sha256"
| "evaluate_elevated (UnboundedPaidProviderCall provider model authorization_id request_binding_sha256) = Confirm [Lit (''elevated: paid provider invocation ''
      @ paid_call_identity provider model authorization_id request_binding_sha256
      @ '' has no proven finite whole-invocation cost bound and requires explicit confirm'')]"
| "evaluate_elevated (ExternalTtsSynthesis _ _ _ _) = Allow"
| "evaluate_elevated (ExternalHttpRequest _ _ _ _ _) = Allow"
| "evaluate_elevated ChannelSend = Allow"
| "evaluate_elevated (DangerousTarget t) = Confirm [Lit (''elevated: dangerous target '' @ QUOTE @ t
      @ QUOTE @ '' requires confirm'')]"
| "evaluate_elevated (McpToolInvocation _ _) = Allow"
| "evaluate_elevated (PatchApplyToRepo repo_root task_id) = Confirm [Lit (''elevated: task ''
      @ nat_dec (unat task_id) @ '' patch apply to '' @ repo_root
      @ '' requires confirm (Chorus Q1a)'')]"
| "evaluate_elevated (ClusterPeerPairing pub_key_hex discovered_via) = Confirm [Lit (''elevated: peer ''
      @ take (min 16 (length pub_key_hex)) pub_key_hex @ '' (via '' @ discovered_via
      @ '') requires confirm '' @ EM_DASH @ '' topology change'')]"
| "evaluate_elevated (SelfBinaryReplace from_v to_v repo) = Confirm [Lit (''elevated: daemon self-replace ''
      @ from_v @ '' -> '' @ to_v @ '' from '' @ repo @ '' requires confirm'')]"
| "evaluate_elevated (ProactiveChannelSend _) = Allow"
| "evaluate_elevated (OsFileRead _) = Allow"
| "evaluate_elevated (OsDirectoryList _) = Allow"
| "evaluate_elevated (OsFileWrite _) = Allow"
| "evaluate_elevated (OsAppLaunch program) = Confirm [Lit (''elevated: launching '' @ program
      @ '' requires confirm (program execution)'')]"
| "evaluate_elevated OsClipboardRead = Confirm [Lit (''elevated: OS clipboard read requires confirm (unscoped secret-capture; no TTY ''
      @ IMPLIES @ '' suppressed until Full)'')]"
| "evaluate_elevated OsClipboardWrite = Confirm [Lit (''elevated: OS clipboard write requires confirm (pastejacking injection; no TTY ''
      @ IMPLIES @ '' suppressed until Full)'')]"
| "evaluate_elevated ClusterTaskAccept = Allow"
| "evaluate_elevated (ExternalTaskWrite _ _) = Allow"
| "evaluate_elevated (SelfSkillToggle skill_id enable) = Confirm [Lit (''elevated: self-toggle skill ''
      @ QUOTE @ skill_id @ QUOTE @ '' '' @ (if enable then ''enable'' else ''disable'')
      @ '' requires confirm '' @ EM_DASH @ '' Full + sovereign mode required for auto-allow'')]"
| "evaluate_elevated (SelfCronRegister job_id) = Confirm [Lit (''elevated: self-register cron ''
      @ QUOTE @ job_id @ QUOTE @ '' requires confirm '' @ EM_DASH
      @ '' cron registration always requires explicit confirm'')]"
| "evaluate_elevated (SelfSourceEdit target_paths) = Confirm [Lit (''elevated: self-source edit of ''
      @ nat_dec (length target_paths) @ '' path(s) requires confirm '' @ EM_DASH
      @ '' this modifies NEOTH'' @ QUOTE @ ''s own source code (requires explicit operator ack)'')]"
| "evaluate_elevated ObsidianPreloadWrite = Allow"

fun evaluate_full :: "action \<Rightarrow> decision" where
  "evaluate_full Read = Allow"
| "evaluate_full WriteNeothHome = Allow"
| "evaluate_full WriteOutsideHome = Allow"
| "evaluate_full ExecScripts = Allow"
| "evaluate_full ExecArbitrary = Allow"
| "evaluate_full (PaidProviderCall _ _ _ _ _) = Allow"
| "evaluate_full (UnboundedPaidProviderCall _ _ _ _) = Allow"
| "evaluate_full (ExternalTtsSynthesis _ _ _ _) = Allow"
| "evaluate_full (ExternalHttpRequest _ _ _ _ _) = Allow"
| "evaluate_full ChannelSend = Allow"
| "evaluate_full (DangerousTarget t) = Confirm [Lit (''full: dangerous target '' @ QUOTE @ t @ QUOTE
      @ '' requires confirm'')]"
| "evaluate_full (McpToolInvocation _ _) = Allow"
| "evaluate_full (PatchApplyToRepo repo_root task_id) = Confirm [Lit (''full: task ''
      @ nat_dec (unat task_id) @ '' patch apply to '' @ repo_root
      @ '' requires confirm (Chorus Q1a v0.2-conservative)'')]"
| "evaluate_full (ClusterPeerPairing _ _) = Allow"
| "evaluate_full (SelfBinaryReplace from_v to_v repo) = Confirm [Lit (''full: daemon self-replace ''
      @ from_v @ '' -> '' @ to_v @ '' from '' @ repo @ '' requires confirm '' @ EM_DASH
      @ '' highest blast radius (RCE surface), never auto-allowed'')]"
| "evaluate_full (ProactiveChannelSend _) = Allow"
| "evaluate_full (OsFileRead _) = Allow"
| "evaluate_full (OsDirectoryList _) = Allow"
| "evaluate_full (OsFileWrite _) = Allow"
| "evaluate_full (OsAppLaunch _) = Allow"
| "evaluate_full OsClipboardRead = Allow"
| "evaluate_full OsClipboardWrite = Allow"
| "evaluate_full ClusterTaskAccept = Allow"
| "evaluate_full (ExternalTaskWrite _ _) = Allow"
| "evaluate_full (SelfSkillToggle _ _) = Allow"
| "evaluate_full (SelfCronRegister job_id) = Confirm [Lit (''full: self-register cron '' @ QUOTE
      @ job_id @ QUOTE @ '' requires confirm '' @ EM_DASH
      @ '' cron registration is never auto-allowed (use --confirm-cron)'')]"
| "evaluate_full (SelfSourceEdit target_paths) = Confirm [Lit (''full: self-source edit of ''
      @ nat_dec (length target_paths) @ '' path(s) requires confirm '' @ EM_DASH
      @ '' modifies NEOTH'' @ QUOTE
      @ ''s own source code; never auto-allowed at any level (same policy as SelfBinaryReplace)'')]"
| "evaluate_full ObsidianPreloadWrite = Allow"

section \<open>Leasable actions\<close>

fun lease_scope_for :: "action \<Rightarrow> lease_scope option" where
  "lease_scope_for Read = Some Scope_Read"
| "lease_scope_for WriteNeothHome = Some Scope_WriteNeothHome"
| "lease_scope_for WriteOutsideHome = None"
| "lease_scope_for ExecScripts = None"
| "lease_scope_for ExecArbitrary = None"
| "lease_scope_for (PaidProviderCall _ _ _ _ _) = None"
| "lease_scope_for (UnboundedPaidProviderCall _ _ _ _) = None"
| "lease_scope_for (ExternalTtsSynthesis _ _ _ _) = None"
| "lease_scope_for (ExternalHttpRequest _ _ _ _ _) = None"
| "lease_scope_for ChannelSend = Some Scope_ChannelSend"
| "lease_scope_for (DangerousTarget _) = None"
| "lease_scope_for (McpToolInvocation server_id tool) = Some (Scope_McpTool (server_id @ '':'' @ tool))"
| "lease_scope_for (PatchApplyToRepo _ _) = None"
| "lease_scope_for (ClusterPeerPairing _ _) = None"
| "lease_scope_for (SelfBinaryReplace _ _ _) = None"
| "lease_scope_for (ProactiveChannelSend _) = None"
| "lease_scope_for (OsFileRead _) = Some Scope_Read"
| "lease_scope_for (OsDirectoryList _) = Some Scope_Read"
| "lease_scope_for (OsFileWrite _) = None"
| "lease_scope_for (OsAppLaunch _) = None"
| "lease_scope_for OsClipboardRead = None"
| "lease_scope_for OsClipboardWrite = None"
| "lease_scope_for ClusterTaskAccept = Some Scope_ClusterTaskAccept"
| "lease_scope_for (ExternalTaskWrite _ _) = None"
| "lease_scope_for (SelfSkillToggle _ _) = None"
| "lease_scope_for (SelfCronRegister _) = None"
| "lease_scope_for (SelfSourceEdit _) = None"
| "lease_scope_for ObsidianPreloadWrite = Some Scope_WriteNeothHome"

section \<open>Permissiveness\<close>

text \<open>How much a decision lets through: nothing, with confirmation, everything.\<close>

fun permits :: "decision \<Rightarrow> nat" where
  "permits (Deny _) = 0"
| "permits (Confirm _) = 1"
| "permits Allow = 2"

lemma permits_le_2 [simp]: "permits d \<le> 2"
  by (cases d) auto

lemma permits_iffs:
  "permits d = 2 \<longleftrightarrow> is_allow d" "permits d = 1 \<longleftrightarrow> is_confirm d" "permits d = 0 \<longleftrightarrow> is_deny d"
  by (cases d; simp)+

lemma is_allow_eq: "is_allow d \<longleftrightarrow> d = Allow"
  by (cases d) auto

lemma eur_limits: "f32_key EUR_0_50 = 0x3F000000" "f32_key EUR_5_00 = 0x40A00000" "f32_key 0 = 0"
  by (simp_all add: EUR_0_50_def EUR_5_00_def f32_key_def f32_neg_def f32_mag_def)

lemma eur_not_nan: "\<not> f32_is_nan EUR_0_50" "\<not> f32_is_nan EUR_5_00" "\<not> f32_is_nan 0"
  by (simp_all add: EUR_0_50_def EUR_5_00_def f32_is_nan_def f32_mag_def)

text \<open>A paid call is allowed exactly for an estimate between zero and the threshold.\<close>

lemma check_paid_call_permits:
  assumes "\<not> f32_is_nan th"
  shows "permits (check_paid_call e th lv pr mo au rb) =
    (if f32_is_finite e \<and> 0 \<le> f32_key e \<and> f32_key e \<le> f32_key th then 2 else 1)"
  using assms f32_finite_not_nan [of e]
  by (auto simp: check_paid_call_def Let_def f32_lt_def eur_limits eur_not_nan)

lemma levels_monotone:
  "permits (evaluate_strict a) \<le> permits (evaluate_standard a)"
  "permits (evaluate_standard a) \<le> permits (evaluate_elevated a)"
  "permits (evaluate_elevated a) \<le> permits (evaluate_full a)"
  by (cases a; simp add: check_paid_call_permits eur_not_nan eur_limits)+

lemma full_never_denies: "\<not> is_deny (evaluate_full a)"
  by (cases a) simp_all

text \<open>The actions that no level and no lease lets through silently.\<close>

fun always_attended :: "action \<Rightarrow> bool" where
  "always_attended (DangerousTarget _) = True"
| "always_attended (PatchApplyToRepo _ _) = True"
| "always_attended (SelfBinaryReplace _ _ _) = True"
| "always_attended (SelfCronRegister _) = True"
| "always_attended (SelfSourceEdit _) = True"
| "always_attended _ = False"

lemma always_attended_full: "\<not> is_allow (evaluate_full a) \<longleftrightarrow> always_attended a"
  by (cases a) simp_all

lemma always_attended_unleasable: "always_attended a \<Longrightarrow> lease_scope_for a = None"
  by (cases a) simp_all

end
