(* ===== verification/Perm_Policy.thy ===== *)
theory Perm_Policy
  imports Perm_Action
begin

text \<open>
  Action kinds, custom policies, policy snapshots and the per-skill cap
  (\<open>permissions/policy.rs\<close>), and \<open>evaluate_snapshot\<close> of
  \<open>permissions/mod.rs\<close>. A \<open>BTreeMap\<close> is its list of entries in key order
  (\<open>btree_get\<close> looks a key up); action kinds are ordered by their declaration, as the
  derived \<open>Ord\<close> does. SHA-256 and the \<open>hex\<close> crate are parameters of the
  fingerprint.
\<close>

section \<open>Action kinds\<close>

datatype action_kind =
    K_Read | K_WriteNeothHome | K_WriteOutsideHome
  | K_ExecScripts | K_ExecArbitrary | K_PaidProviderCall
  | K_UnboundedPaidProviderCall | K_ExternalTtsSynthesis | K_ExternalHttpRequest
  | K_ChannelSend | K_DangerousTarget | K_McpToolInvocation
  | K_PatchApplyToRepo | K_ClusterPeerPairing | K_SelfBinaryReplace
  | K_ProactiveChannelSend | K_OsFileRead | K_OsDirectoryList
  | K_OsFileWrite | K_OsAppLaunch | K_OsClipboardRead
  | K_OsClipboardWrite | K_ClusterTaskAccept | K_ExternalTaskWrite
  | K_SelfSkillToggle | K_SelfCronRegister | K_SelfSourceEdit
  | K_ObsidianPreloadWrite

definition ActionKind_ALL :: "action_kind list" where
  "ActionKind_ALL = [K_Read, K_WriteNeothHome, K_WriteOutsideHome,
     K_ExecScripts, K_ExecArbitrary, K_PaidProviderCall,
     K_UnboundedPaidProviderCall, K_ExternalTtsSynthesis, K_ExternalHttpRequest,
     K_ChannelSend, K_DangerousTarget, K_McpToolInvocation,
     K_PatchApplyToRepo, K_ClusterPeerPairing, K_SelfBinaryReplace,
     K_ProactiveChannelSend, K_OsFileRead, K_OsDirectoryList,
     K_OsFileWrite, K_OsAppLaunch, K_OsClipboardRead,
     K_OsClipboardWrite, K_ClusterTaskAccept, K_ExternalTaskWrite,
     K_SelfSkillToggle, K_SelfCronRegister, K_SelfSourceEdit,
     K_ObsidianPreloadWrite]"

fun kind_as_str :: "action_kind \<Rightarrow> string" where
  "kind_as_str K_Read = ''read''"
| "kind_as_str K_WriteNeothHome = ''write_neoth_home''"
| "kind_as_str K_WriteOutsideHome = ''write_outside_home''"
| "kind_as_str K_ExecScripts = ''exec_scripts''"
| "kind_as_str K_ExecArbitrary = ''exec_arbitrary''"
| "kind_as_str K_PaidProviderCall = ''paid_provider_call''"
| "kind_as_str K_UnboundedPaidProviderCall = ''unbounded_paid_provider_call''"
| "kind_as_str K_ExternalTtsSynthesis = ''external_tts_synthesis''"
| "kind_as_str K_ExternalHttpRequest = ''external_http_request''"
| "kind_as_str K_ChannelSend = ''channel_send''"
| "kind_as_str K_DangerousTarget = ''dangerous_target''"
| "kind_as_str K_McpToolInvocation = ''mcp_tool_invocation''"
| "kind_as_str K_PatchApplyToRepo = ''patch_apply_to_repo''"
| "kind_as_str K_ClusterPeerPairing = ''cluster_peer_pairing''"
| "kind_as_str K_SelfBinaryReplace = ''self_binary_replace''"
| "kind_as_str K_ProactiveChannelSend = ''proactive_channel_send''"
| "kind_as_str K_OsFileRead = ''os_file_read''"
| "kind_as_str K_OsDirectoryList = ''os_directory_list''"
| "kind_as_str K_OsFileWrite = ''os_file_write''"
| "kind_as_str K_OsAppLaunch = ''os_app_launch''"
| "kind_as_str K_OsClipboardRead = ''os_clipboard_read''"
| "kind_as_str K_OsClipboardWrite = ''os_clipboard_write''"
| "kind_as_str K_ClusterTaskAccept = ''cluster_task_accept''"
| "kind_as_str K_ExternalTaskWrite = ''external_task_write''"
| "kind_as_str K_SelfSkillToggle = ''self_skill_toggle''"
| "kind_as_str K_SelfCronRegister = ''self_cron_register''"
| "kind_as_str K_SelfSourceEdit = ''self_source_edit''"
| "kind_as_str K_ObsidianPreloadWrite = ''obsidian_preload_write''"

datatype policy_error =
    UnknownAction string
  | UnknownCustomDecision string
  | SkillIdEmpty
  | SkillIdTooLong nat
  | SkillIdBadCharacters string
  | OverridesRequireCustom
  | TooManyActionOverrides
  | TooManySkillOverrides

definition kind_from_str :: "string \<Rightarrow> policy_error + action_kind" where
  "kind_from_str value =
     (case List.find (\<lambda>k. kind_as_str k = trim value) ActionKind_ALL of
        Some k \<Rightarrow> Ok k | None \<Rightarrow> Err (UnknownAction (trim value)))"

fun action_kind_of :: "action \<Rightarrow> action_kind" where
  "action_kind_of Read = K_Read"
| "action_kind_of WriteNeothHome = K_WriteNeothHome"
| "action_kind_of WriteOutsideHome = K_WriteOutsideHome"
| "action_kind_of ExecScripts = K_ExecScripts"
| "action_kind_of ExecArbitrary = K_ExecArbitrary"
| "action_kind_of (PaidProviderCall _ _ _ _ _) = K_PaidProviderCall"
| "action_kind_of (UnboundedPaidProviderCall _ _ _ _) = K_UnboundedPaidProviderCall"
| "action_kind_of (ExternalTtsSynthesis _ _ _ _) = K_ExternalTtsSynthesis"
| "action_kind_of (ExternalHttpRequest _ _ _ _ _) = K_ExternalHttpRequest"
| "action_kind_of ChannelSend = K_ChannelSend"
| "action_kind_of (DangerousTarget _) = K_DangerousTarget"
| "action_kind_of (McpToolInvocation _ _) = K_McpToolInvocation"
| "action_kind_of (PatchApplyToRepo _ _) = K_PatchApplyToRepo"
| "action_kind_of (ClusterPeerPairing _ _) = K_ClusterPeerPairing"
| "action_kind_of (SelfBinaryReplace _ _ _) = K_SelfBinaryReplace"
| "action_kind_of (ProactiveChannelSend _) = K_ProactiveChannelSend"
| "action_kind_of (OsFileRead _) = K_OsFileRead"
| "action_kind_of (OsDirectoryList _) = K_OsDirectoryList"
| "action_kind_of (OsFileWrite _) = K_OsFileWrite"
| "action_kind_of (OsAppLaunch _) = K_OsAppLaunch"
| "action_kind_of OsClipboardRead = K_OsClipboardRead"
| "action_kind_of OsClipboardWrite = K_OsClipboardWrite"
| "action_kind_of ClusterTaskAccept = K_ClusterTaskAccept"
| "action_kind_of (ExternalTaskWrite _ _) = K_ExternalTaskWrite"
| "action_kind_of (SelfSkillToggle _ _) = K_SelfSkillToggle"
| "action_kind_of (SelfCronRegister _) = K_SelfCronRegister"
| "action_kind_of (SelfSourceEdit _) = K_SelfSourceEdit"
| "action_kind_of ObsidianPreloadWrite = K_ObsidianPreloadWrite"

text \<open>The bit pattern of \<open>0.10\<close>.\<close>

definition EUR_0_10 :: f32 where "EUR_0_10 = 0x3DCCCCCD"

fun representative :: "action_kind \<Rightarrow> action" where
  "representative K_Read = Read"
| "representative K_WriteNeothHome = WriteNeothHome"
| "representative K_WriteOutsideHome = WriteOutsideHome"
| "representative K_ExecScripts = ExecScripts"
| "representative K_ExecArbitrary = ExecArbitrary"
| "representative K_PaidProviderCall = PaidProviderCall ''policy_preview'' ''policy_preview'' ''not-a-dispatch-authorization''
     ''not-a-dispatch-binding'' EUR_0_10"
| "representative K_UnboundedPaidProviderCall = UnboundedPaidProviderCall ''policy_preview'' ''unbounded''
     ''not-a-dispatch-authorization'' ''not-a-dispatch-binding''"
| "representative K_ExternalTtsSynthesis = ExternalTtsSynthesis ''external_preview'' ''https://tts.example'' False
     ''not-a-dispatch-binding''"
| "representative K_ExternalHttpRequest = ExternalHttpRequest ''GET'' ''https://example.invalid'' ''policy_preview''
     ''not-a-dispatch-request'' ''not-a-dispatch-binding''"
| "representative K_ChannelSend = ChannelSend"
| "representative K_DangerousTarget = DangerousTarget ''example''"
| "representative K_McpToolInvocation = McpToolInvocation ''example'' ''example''"
| "representative K_PatchApplyToRepo = PatchApplyToRepo ''example-repo'' 1"
| "representative K_ClusterPeerPairing = ClusterPeerPairing (replicate 64 CHR ''0'') ''policy_preview''"
| "representative K_SelfBinaryReplace = SelfBinaryReplace ''current'' ''next'' ''owner/repo''"
| "representative K_ProactiveChannelSend = ProactiveChannelSend ''example''"
| "representative K_OsFileRead = OsFileRead ''example-read.txt''"
| "representative K_OsDirectoryList = OsDirectoryList ''example-directory''"
| "representative K_OsFileWrite = OsFileWrite ''example-write.txt''"
| "representative K_OsAppLaunch = OsAppLaunch ''example-program''"
| "representative K_OsClipboardRead = OsClipboardRead"
| "representative K_OsClipboardWrite = OsClipboardWrite"
| "representative K_ClusterTaskAccept = ClusterTaskAccept"
| "representative K_ExternalTaskWrite = ExternalTaskWrite ''example'' ''add''"
| "representative K_SelfSkillToggle = SelfSkillToggle ''example'' True"
| "representative K_SelfCronRegister = SelfCronRegister ''example''"
| "representative K_SelfSourceEdit = SelfSourceEdit [''src/example.rs'']"
| "representative K_ObsidianPreloadWrite = ObsidianPreloadWrite"

text \<open>The derived order of the kinds.\<close>

lemma kind_in_ALL: "k \<in> set ActionKind_ALL"
  by (cases k) (simp_all add: ActionKind_ALL_def)

lemma distinct_ALL: "distinct ActionKind_ALL"
  by (simp add: ActionKind_ALL_def)

definition kind_index :: "action_kind \<Rightarrow> nat" where
  "kind_index k = (case position (\<lambda>j. j = k) ActionKind_ALL of Some i \<Rightarrow> i | None \<Rightarrow> 28)"

lemma kind_index_nth: "kind_index k < length ActionKind_ALL \<and> ActionKind_ALL ! kind_index k = k"
proof (cases "position (\<lambda>j. j = k) ActionKind_ALL")
  case None
  with kind_in_ALL [of k] show ?thesis by (auto simp: position_None)
next
  case (Some i)
  from position_Some [OF this] Some show ?thesis by (simp add: kind_index_def)
qed

lemma kind_index_inj: "kind_index j = kind_index k \<longleftrightarrow> j = k"
  by (metis kind_index_nth)

instantiation action_kind :: linorder
begin

definition less_action_kind :: "action_kind \<Rightarrow> action_kind \<Rightarrow> bool" where
  "j < k \<longleftrightarrow> kind_index j < kind_index k"

definition less_eq_action_kind :: "action_kind \<Rightarrow> action_kind \<Rightarrow> bool" where
  "j \<le> k \<longleftrightarrow> kind_index j \<le> kind_index k"

instance
  by intro_classes (auto simp: less_action_kind_def less_eq_action_kind_def kind_index_inj)

end

section \<open>Custom policies\<close>

definition MAX_SKILL_AUTONOMY_OVERRIDES :: nat where "MAX_SKILL_AUTONOMY_OVERRIDES = 128"

type_synonym skill_id = string

definition skill_id_char :: "char \<Rightarrow> bool" where
  "skill_id_char c \<longleftrightarrow> is_ascii_lowercase c \<or> is_ascii_digit c \<or> c = CHR ''_'' \<or> c = CHR ''-''"

definition skill_id_parse :: "string \<Rightarrow> policy_error + skill_id" where
  "skill_id_parse value =
     (if value = [] then Err SkillIdEmpty
      else if 64 < length value then Err (SkillIdTooLong (length value))
      else if \<not> list_all skill_id_char value then Err (SkillIdBadCharacters value)
      else Ok value)"

datatype custom_decision = CAllow | CConfirm | CDeny

fun custom_decision_str :: "custom_decision \<Rightarrow> string" where
  "custom_decision_str CAllow = ''allow''"
| "custom_decision_str CConfirm = ''confirm''"
| "custom_decision_str CDeny = ''deny''"

definition custom_decision_from_str :: "string \<Rightarrow> policy_error + custom_decision" where
  "custom_decision_from_str value =
     (if trim value = ''allow'' then Ok CAllow
      else if trim value = ''confirm'' then Ok CConfirm
      else if trim value = ''deny'' then Ok CDeny
      else Err (UnknownCustomDecision (trim value)))"

type_synonym action_overrides = "(action_kind \<times> custom_decision) list"

record skill_autonomy_override =
  sao_level :: autonomy_level
  sao_overrides :: action_overrides

definition skill_override_default :: skill_autonomy_override where
  "skill_override_default = \<lparr>sao_level = Standard, sao_overrides = []\<rparr>"

record custom_autonomy_config =
  cac_overrides :: action_overrides
  cac_skill_overrides :: "(skill_id \<times> skill_autonomy_override) list"

definition skill_override_validate :: "skill_autonomy_override \<Rightarrow> policy_error + unit" where
  "skill_override_validate o1 =
     (if \<not> (sao_level o1 = Custom \<or> sao_overrides o1 = []) then Err OverridesRequireCustom
      else if \<not> length (sao_overrides o1) \<le> length ActionKind_ALL then Err TooManyActionOverrides
      else Ok ())"

definition custom_config_validate :: "custom_autonomy_config \<Rightarrow> policy_error + unit" where
  "custom_config_validate c =
     (if \<not> length (cac_skill_overrides c) \<le> MAX_SKILL_AUTONOMY_OVERRIDES then Err TooManySkillOverrides
      else first_error (map (skill_override_validate \<circ> snd) (cac_skill_overrides c)))"

record autonomy_policy_snapshot =
  aps_level :: autonomy_level
  aps_overrides :: action_overrides
  aps_skill_overrides :: "(skill_id \<times> skill_autonomy_override) list"

definition snapshot_new :: "autonomy_level \<Rightarrow> custom_autonomy_config \<Rightarrow> autonomy_policy_snapshot" where
  "snapshot_new level custom = \<lparr>aps_level = level, aps_overrides = cac_overrides custom,
     aps_skill_overrides = cac_skill_overrides custom\<rparr>"

definition snapshot_builtin :: "autonomy_level \<Rightarrow> autonomy_policy_snapshot option" where
  "snapshot_builtin level =
     (if level = Custom then None
      else Some \<lparr>aps_level = level, aps_overrides = [], aps_skill_overrides = []\<rparr>)"

definition custom_override :: "autonomy_policy_snapshot \<Rightarrow> action_kind \<Rightarrow> custom_decision option" where
  "custom_override p k = btree_get (aps_overrides p) k"

section \<open>Evaluation\<close>

fun requested_decision :: "custom_decision \<Rightarrow> action_kind \<Rightarrow> decision" where
  "requested_decision CAllow k = Allow"
| "requested_decision CConfirm k = Confirm [Lit (''custom override: '' @ kind_as_str k @ '' requires confirm'')]"
| "requested_decision CDeny k = Deny [Lit (''custom override: '' @ kind_as_str k @ '' denied'')]"

text \<open>The estimate of a finite-cost paid call that is not finite or negative.\<close>

fun invalid_paid_estimate :: "action \<Rightarrow> f32 option" where
  "invalid_paid_estimate (PaidProviderCall _ _ _ _ eur_estimate) =
     (if \<not> f32_is_finite eur_estimate \<or> f32_lt eur_estimate 0 then Some eur_estimate else None)"
| "invalid_paid_estimate _ = None"

definition custom_requested_decision ::
    "action \<Rightarrow> custom_decision option \<Rightarrow> decision \<Rightarrow> decision \<Rightarrow> decision" where
  "custom_requested_decision act configured standard full =
     (case configured of
        None \<Rightarrow> standard
      | Some c \<Rightarrow>
          (let requested = requested_decision c (action_kind_of act);
               rest = (case invalid_paid_estimate act of
                         Some eur_estimate \<Rightarrow>
                           Confirm [Lit ''custom safety floor: invalid paid-provider EUR estimate ('',
                             F32 eur_estimate, Lit '') requires confirm'']
                       | None \<Rightarrow> requested)
           in if is_deny requested then requested
              else case full of
                     Deny reason \<Rightarrow> Deny (Lit ''custom safety floor: '' # reason)
                   | Confirm reason \<Rightarrow>
                       (if is_allow requested then Confirm (Lit ''custom safety floor: '' # reason)
                        else rest)
                   | Allow \<Rightarrow> rest))"

fun evaluate_level ::
    "autonomy_level \<Rightarrow> autonomy_policy_snapshot \<Rightarrow> action \<Rightarrow> decision" where
  "evaluate_level Strict p act = evaluate_strict act"
| "evaluate_level Standard p act = evaluate_standard act"
| "evaluate_level Elevated p act = evaluate_elevated act"
| "evaluate_level Full p act = evaluate_full act"
| "evaluate_level Custom p act =
     custom_requested_decision act (custom_override p (action_kind_of act))
       (evaluate_standard act) (evaluate_full act)"

definition evaluate_snapshot :: "action \<Rightarrow> autonomy_policy_snapshot \<Rightarrow> decision" where
  "evaluate_snapshot act p = evaluate_level (aps_level p) p act"

text \<open>\<open>EffectiveAutonomyPolicy\<close> is its optional skill cap.\<close>

type_synonym effective_policy = "autonomy_policy_snapshot option"

definition effective_for_selected_skill :: "autonomy_policy_snapshot \<Rightarrow> skill_id \<Rightarrow> effective_policy" where
  "effective_for_selected_skill p sid =
     map_option (\<lambda>o1. \<lparr>aps_level = sao_level o1, aps_overrides = sao_overrides o1,
         aps_skill_overrides = []\<rparr>)
       (btree_get (aps_skill_overrides p) sid)"

definition cap_requires_confirmation :: "effective_policy \<Rightarrow> action \<Rightarrow> bool" where
  "cap_requires_confirmation ep act =
     (case ep of None \<Rightarrow> False | Some cap \<Rightarrow> is_confirm (evaluate_snapshot act cap))"

fun strictest :: "decision \<Rightarrow> decision \<Rightarrow> decision" where
  "strictest (Deny r) cap = Deny r"
| "strictest global (Deny r) = Deny r"
| "strictest (Confirm r) cap = Confirm r"
| "strictest global (Confirm r) = Confirm r"
| "strictest Allow Allow = Allow"

definition evaluate_with_current_global ::
    "effective_policy \<Rightarrow> action \<Rightarrow> autonomy_policy_snapshot \<Rightarrow> decision" where
  "evaluate_with_current_global ep act current_global =
     (let global = evaluate_snapshot act current_global
      in case ep of None \<Rightarrow> global | Some cap \<Rightarrow> strictest global (evaluate_snapshot act cap))"

section \<open>Fingerprint\<close>

definition fp_part :: "string \<Rightarrow> bytes" where
  "fp_part value = u64_to_be (word_of_nat (length value)) @ str_bytes value"

definition fp_overrides :: "action_overrides \<Rightarrow> bytes" where
  "fp_overrides ovs = u64_to_be (word_of_nat (length ovs))
     @ concat (map (\<lambda>(k, d). fp_part (kind_as_str k) @ fp_part (custom_decision_str d)) ovs)"

definition fingerprint_preimage :: "autonomy_policy_snapshot \<Rightarrow> bytes" where
  "fingerprint_preimage p =
     str_bytes ''neoth.autonomy-policy.trust-fingerprint.v1'' @ [0]
     @ fp_part (level_as_str (aps_level p)) @ fp_overrides (aps_overrides p)
     @ (if aps_skill_overrides p = [] then []
        else str_bytes ''neoth.autonomy-policy.skill-overrides.v1'' @ [0]
          @ u64_to_be (word_of_nat (length (aps_skill_overrides p)))
          @ concat (map (\<lambda>(sid, o1). fp_part sid @ fp_part (level_as_str (sao_level o1))
              @ fp_overrides (sao_overrides o1)) (aps_skill_overrides p)))"

definition trust_fingerprint_sha256 ::
    "(bytes \<Rightarrow> bytes) \<Rightarrow> (bytes \<Rightarrow> string) \<Rightarrow> autonomy_policy_snapshot \<Rightarrow> string" where
  "trust_fingerprint_sha256 sha256 hexe p = hexe (sha256 (fingerprint_preimage p))"

section \<open>Bounds on evaluation\<close>

lemma requested_decision_simps [simp]:
  "is_allow (requested_decision c k) \<longleftrightarrow> c = CAllow" "is_deny (requested_decision c k) \<longleftrightarrow> c = CDeny"
  "is_confirm (requested_decision c k) \<longleftrightarrow> c = CConfirm"
  by (cases c; simp)+

lemma invalid_paid_full: "invalid_paid_estimate a = Some e \<Longrightarrow> evaluate_full a = Allow"
  by (cases a) (auto split: if_splits)

lemma custom_requested_None [simp]: "custom_requested_decision a None s f = s"
  by (simp add: custom_requested_decision_def)

text \<open>What a custom override decides, whatever the standard table says.\<close>

lemma custom_decision_permits:
  "permits (custom_requested_decision a (Some c) s (evaluate_full a)) =
    (case c of
       CDeny \<Rightarrow> 0
     | CConfirm \<Rightarrow> 1
     | CAllow \<Rightarrow> (if is_allow (evaluate_full a) \<and> invalid_paid_estimate a = None then 2 else 1))"
  using full_never_denies [of a]
  by (cases c; cases "evaluate_full a"; cases "invalid_paid_estimate a")
    (simp_all add: custom_requested_decision_def Let_def)

lemma snapshot_below_full: "permits (evaluate_snapshot a p) \<le> permits (evaluate_full a)"
proof (cases "aps_level p")
  case Custom
  show ?thesis
  proof (cases "custom_override p (action_kind_of a)")
    case None
    with Custom levels_monotone [of a] show ?thesis
      by (simp add: evaluate_snapshot_def custom_requested_decision_def)
  next
    case (Some c)
    have "1 \<le> permits (evaluate_full a)" "is_allow (evaluate_full a) \<Longrightarrow> permits (evaluate_full a) = 2"
      using full_never_denies [of a] by (cases "evaluate_full a"; simp)+
    with Some Custom show ?thesis
      by (simp add: evaluate_snapshot_def custom_decision_permits split: custom_decision.splits)
  qed
qed (use levels_monotone [of a] in \<open>simp_all add: evaluate_snapshot_def\<close>)

lemma strictest_permits: "permits (strictest g c) = min (permits g) (permits c)"
  by (cases g; cases c) simp_all

lemma attended_permits:
  assumes "always_attended a"
  shows "permits (evaluate_snapshot a p) \<noteq> 2" "permits (evaluate_with_current_global ep a p) \<noteq> 2"
proof -
  have "permits (evaluate_full a) < 2"
    using assms always_attended_full [of a] by (cases "evaluate_full a") auto
  then have "permits (evaluate_snapshot a q) < 2" for q
    using snapshot_below_full [of a q] by simp
  then show "permits (evaluate_snapshot a p) \<noteq> 2" "permits (evaluate_with_current_global ep a p) \<noteq> 2"
    by (cases ep; simp add: evaluate_with_current_global_def strictest_permits Let_def;
        metis less_irrefl min_less_iff_disj)+
qed

section \<open>Injectivity of the fingerprint\<close>

lemma fp_part_split:
  assumes "length s < 2 ^ 64" "length t < 2 ^ 64"
  shows "fp_part s @ x = fp_part t @ y \<longleftrightarrow> s = t \<and> x = y"
proof
  assume eq: "fp_part s @ x = fp_part t @ y"
  then have "u64_to_be (word_of_nat (length s)) = u64_to_be (word_of_nat (length t))"
    and rest: "str_bytes s @ x = str_bytes t @ y"
    by (simp_all add: fp_part_def)
  then have "length s = length t"
    using assms by (simp add: u64_len_inj)
  with rest show "s = t \<and> x = y" by (simp add: append_eq_append_conv)
qed simp

lemma level_str_inj: "level_as_str l = level_as_str m \<longleftrightarrow> l = m"
  by (cases l; cases m) simp_all

lemma custom_decision_str_inj: "custom_decision_str c = custom_decision_str d \<longleftrightarrow> c = d"
  by (cases c; cases d) simp_all

lemma kind_names_distinct: "distinct (map kind_as_str ActionKind_ALL)"
  by (simp add: ActionKind_ALL_def)

lemma kind_str_inj: "kind_as_str j = kind_as_str k \<longleftrightarrow> j = k"
  using kind_names_distinct kind_in_ALL [of j] kind_in_ALL [of k]
  by (auto simp: distinct_map inj_on_def)

lemma str_lens:
  "length (level_as_str l) < 2 ^ 64" "length (kind_as_str k) < 2 ^ 64"
  "length (custom_decision_str d) < 2 ^ 64"
proof -
  show "length (level_as_str l) < 2 ^ 64" by (cases l) simp_all
  show "length (kind_as_str k) < 2 ^ 64" by (cases k) simp_all
  show "length (custom_decision_str d) < 2 ^ 64" by (cases d) simp_all
qed

text \<open>Equally many length-delimited entries can be read back one after the other.\<close>

lemma delimited_list_split:
  assumes "\<And>a b x y. a \<in> set as \<Longrightarrow> b \<in> set bs \<Longrightarrow> f a @ x = f b @ y \<longleftrightarrow> a = b \<and> x = y"
    and "length as = length bs"
  shows "concat (map f as) @ x = concat (map f bs) @ y \<longleftrightarrow> as = bs \<and> x = y"
  using assms(2,1) by (induction as bs rule: list_induct2) simp_all

lemma fp_overrides_split:
  assumes "length os < 2 ^ 64" "length os' < 2 ^ 64"
  shows "fp_overrides os @ x = fp_overrides os' @ y \<longleftrightarrow> os = os' \<and> x = y"
proof
  let ?f = "\<lambda>(k, d). fp_part (kind_as_str k) @ fp_part (custom_decision_str d)"
  assume eq: "fp_overrides os @ x = fp_overrides os' @ y"
  then have "length os = length os'"
    and rest: "concat (map ?f os) @ x = concat (map ?f os') @ y"
    using assms by (simp_all add: fp_overrides_def u64_len_inj)
  moreover have "?f a @ u = ?f b @ v \<longleftrightarrow> a = b \<and> u = v" for a b u v
    by (cases a; cases b) (simp add: fp_part_split [OF str_lens(2,2)] fp_part_split [OF str_lens(3,3)]
        kind_str_inj custom_decision_str_inj)
  ultimately show "os = os' \<and> x = y"
    using delimited_list_split [of os os' ?f x y] by blast
qed simp

text \<open>Snapshots whose maps and keys fit into memory.\<close>

definition snapshot_sized :: "autonomy_policy_snapshot \<Rightarrow> bool" where
  "snapshot_sized p \<longleftrightarrow> length (aps_overrides p) < 2 ^ 64 \<and> length (aps_skill_overrides p) < 2 ^ 64
     \<and> (\<forall>(sid, o1) \<in> set (aps_skill_overrides p).
          length sid < 2 ^ 64 \<and> length (sao_overrides o1) < 2 ^ 64)"

definition fp_skill :: "skill_id \<times> skill_autonomy_override \<Rightarrow> bytes" where
  "fp_skill e = (case e of (sid, o1) \<Rightarrow> fp_part sid @ fp_part (level_as_str (sao_level o1))
     @ fp_overrides (sao_overrides o1))"

lemma fp_skill_split:
  assumes "length (fst a) < 2 ^ 64" "length (fst b) < 2 ^ 64"
    "length (sao_overrides (snd a)) < 2 ^ 64" "length (sao_overrides (snd b)) < 2 ^ 64"
  shows "fp_skill a @ x = fp_skill b @ y \<longleftrightarrow> a = b \<and> x = y"
proof -
  obtain s o1 t o2 where ab: "a = (s, o1)" "b = (t, o2)" by (cases a; cases b)
  have "o1 = o2 \<longleftrightarrow> sao_level o1 = sao_level o2 \<and> sao_overrides o1 = sao_overrides o2"
    by (cases o1; cases o2) simp
  then show ?thesis
    using assms fp_part_split [of s t] fp_overrides_split [of "sao_overrides o1" "sao_overrides o2"]
      fp_part_split [OF str_lens(1,1)]
    by (auto simp: ab fp_skill_def level_str_inj)
qed

lemma fingerprint_preimage_skill:
  "fingerprint_preimage p =
     str_bytes ''neoth.autonomy-policy.trust-fingerprint.v1'' @ [0]
     @ fp_part (level_as_str (aps_level p)) @ fp_overrides (aps_overrides p)
     @ (if aps_skill_overrides p = [] then []
        else str_bytes ''neoth.autonomy-policy.skill-overrides.v1'' @ [0]
          @ u64_to_be (word_of_nat (length (aps_skill_overrides p)))
          @ concat (map fp_skill (aps_skill_overrides p)))"
  by (simp add: fingerprint_preimage_def fp_skill_def [abs_def])

section \<open>Properties\<close>

text \<open>
  Raising the built-in autonomy level never makes a decision stricter: for every action
  the order deny, confirm, allow is monotone from Strict over Standard and Elevated to Full.
\<close>

theorem built_in_levels_are_monotone:
  "level_rank l \<le> level_rank m \<and> l \<noteq> Custom \<and> m \<noteq> Custom \<longrightarrow>
     permits (evaluate_level l p a) \<le> permits (evaluate_level m p a)"
  using levels_monotone [of a] by (cases l; cases m) auto

theorem built_in_levels_are_monotone_witness:
  "permits (evaluate_level Strict \<lparr>aps_level = Full, aps_overrides = [], aps_skill_overrides = []\<rparr> ExecScripts)
     \<le> permits (evaluate_level Full \<lparr>aps_level = Full, aps_overrides = [], aps_skill_overrides = []\<rparr> ExecScripts)"
  using built_in_levels_are_monotone [of Strict Full] by simp

text \<open>
  No policy lets the five attended actions through silently. A dangerous target, a
  patch to a checkout, a replacement of the daemon binary, a cron registration and an edit
  of the own source need a confirmation or are denied under every snapshot, custom overrides
  and skill caps included, and no lease scope exists for them.
\<close>

theorem attended_actions_are_never_silent:
  assumes "always_attended a"
  shows "\<not> is_allow (evaluate_snapshot a p) \<and> \<not> is_allow (evaluate_with_current_global ep a p)
    \<and> lease_scope_for a = None"
  using attended_permits [OF assms] always_attended_unleasable [OF assms]
  by (simp flip: permits_iffs(1))

theorem attended_actions_are_never_silent_witness:
  "\<not> is_allow (evaluate_snapshot (SelfBinaryReplace ''1'' ''2'' ''o/r'')
     \<lparr>aps_level = Custom, aps_overrides = [(K_SelfBinaryReplace, CAllow)], aps_skill_overrides = []\<rparr>)"
  using attended_actions_are_never_silent [of "SelfBinaryReplace ''1'' ''2'' ''o/r''"] by simp

text \<open>
  Full is the ceiling of every policy. Whatever the level and the custom overrides, a
  snapshot is never more permissive than the Full table, and a paid call with a broken cost
  estimate is never allowed below Full.
\<close>

theorem full_is_the_ceiling:
  "permits (evaluate_snapshot a p) \<le> permits (evaluate_full a) \<and>
   (invalid_paid_estimate a \<noteq> None \<and> aps_level p \<noteq> Full \<longrightarrow> \<not> is_allow (evaluate_snapshot a p))"
proof -
  have "\<not> is_allow (evaluate_snapshot a p)" if inv: "invalid_paid_estimate a = Some e"
    and lv: "aps_level p \<noteq> Full" for e
  proof -
    obtain pr mo au rb where a: "a = PaidProviderCall pr mo au rb e"
      and bad: "\<not> f32_is_finite e \<or> f32_lt e 0"
      using inv by (cases a) (auto split: if_splits)
    have neg: "\<not> (f32_is_finite e \<and> 0 \<le> f32_key e)"
      using bad f32_finite_not_nan by (auto simp: f32_lt_def eur_limits)
    have "permits (evaluate_standard a) = 1" "permits (evaluate_elevated a) = 1"
      "permits (evaluate_strict a) = 1"
      using neg by (auto simp: a check_paid_call_permits eur_not_nan)
    then have "permits (evaluate_snapshot a p) \<noteq> 2"
    proof (cases "aps_level p")
      case Custom
      then show ?thesis
        using inv \<open>permits (evaluate_standard a) = 1\<close>
        by (cases "custom_override p (action_kind_of a)")
          (auto simp: evaluate_snapshot_def custom_decision_permits split: custom_decision.splits)
    qed (use lv in \<open>simp_all add: evaluate_snapshot_def\<close>)
    then show ?thesis by (simp flip: permits_iffs(1))
  qed
  then show ?thesis using snapshot_below_full by blast
qed

text \<open>The bit pattern of a NaN.\<close>

theorem full_is_the_ceiling_witness:
  "\<not> is_allow (evaluate_snapshot (PaidProviderCall ''p'' ''m'' ''a'' ''b'' 0x7FC00000)
     \<lparr>aps_level = Custom, aps_overrides = [(K_PaidProviderCall, CAllow)], aps_skill_overrides = []\<rparr>)"
  using full_is_the_ceiling [of "PaidProviderCall ''p'' ''m'' ''a'' ''b'' 0x7FC00000"
      "\<lparr>aps_level = Custom, aps_overrides = [(K_PaidProviderCall, CAllow)], aps_skill_overrides = []\<rparr>"]
  by (simp add: f32_is_finite_def f32_mag_def)

text \<open>
  What a custom override means. A configured deny always denies and a configured
  confirm always asks; a configured allow allows exactly the actions that Full allows, save
  for paid calls with a broken estimate; without an entry the Standard table decides.
\<close>

theorem custom_override_semantics:
  assumes "aps_level p = Custom"
  shows "case custom_override p (action_kind_of a) of
      None \<Rightarrow> evaluate_snapshot a p = evaluate_standard a
    | Some CDeny \<Rightarrow> is_deny (evaluate_snapshot a p)
    | Some CConfirm \<Rightarrow> is_confirm (evaluate_snapshot a p)
    | Some CAllow \<Rightarrow> is_allow (evaluate_snapshot a p) \<longleftrightarrow>
        is_allow (evaluate_full a) \<and> invalid_paid_estimate a = None"
proof (cases "custom_override p (action_kind_of a)")
  case None
  with assms show ?thesis by (simp add: evaluate_snapshot_def custom_requested_decision_def)
next
  case (Some c)
  with assms have "permits (evaluate_snapshot a p) = (case c of CDeny \<Rightarrow> 0 | CConfirm \<Rightarrow> 1
     | CAllow \<Rightarrow> (if is_allow (evaluate_full a) \<and> invalid_paid_estimate a = None then 2 else 1))"
    by (simp add: evaluate_snapshot_def custom_decision_permits)
  with Some show ?thesis
    by (cases c) (auto simp flip: permits_iffs split: if_splits)
qed

theorem custom_override_semantics_witness:
  "is_deny (evaluate_snapshot Read
     \<lparr>aps_level = Custom, aps_overrides = [(K_Read, CDeny)], aps_skill_overrides = []\<rparr>)"
  using custom_override_semantics [of
      "\<lparr>aps_level = Custom, aps_overrides = [(K_Read, CDeny)], aps_skill_overrides = []\<rparr>" Read]
  by (simp add: custom_override_def)

text \<open>
  A selected skill's cap only restricts. The effective decision is exactly as permissive
  as the stricter of the current global policy and the cap, so a skill never gains authority
  and a later tightening of the global policy always takes effect.
\<close>

theorem skill_cap_only_restricts:
  "permits (evaluate_with_current_global (effective_for_selected_skill q sid) a p) =
    (case btree_get (aps_skill_overrides q) sid of
       None \<Rightarrow> permits (evaluate_snapshot a p)
     | Some o1 \<Rightarrow> min (permits (evaluate_snapshot a p))
         (permits (evaluate_snapshot a \<lparr>aps_level = sao_level o1, aps_overrides = sao_overrides o1,
            aps_skill_overrides = []\<rparr>)))"
  by (simp add: evaluate_with_current_global_def effective_for_selected_skill_def strictest_permits
      split: option.splits)

text \<open>
  Below Full a paid call passes silently exactly when its estimate is a finite number
  between zero and the level's limit (0.50 EUR at Standard, 5 EUR at Elevated); NaN,
  infinities, negative values and a missing cost bound always ask.
\<close>

theorem paid_calls_respect_limits:
  "(is_allow (evaluate_standard (PaidProviderCall pr mo au rb e)) \<longleftrightarrow>
      f32_is_finite e \<and> 0 \<le> f32_key e \<and> f32_key e \<le> f32_key EUR_0_50) \<and>
   (is_allow (evaluate_elevated (PaidProviderCall pr mo au rb e)) \<longleftrightarrow>
      f32_is_finite e \<and> 0 \<le> f32_key e \<and> f32_key e \<le> f32_key EUR_5_00) \<and>
   is_confirm (evaluate_strict (PaidProviderCall pr mo au rb e)) \<and>
   is_confirm (evaluate_standard (UnboundedPaidProviderCall pr mo au rb)) \<and>
   is_confirm (evaluate_elevated (UnboundedPaidProviderCall pr mo au rb))"
  by (simp add: check_paid_call_permits eur_not_nan flip: permits_iffs)

text \<open>
  The fingerprint of a policy commits to all of it: two snapshots of realistic size
  have the same hashed bytes only if they have the same level, the same overrides and the
  same per-skill overrides. Any two different policies that share a fingerprint are a
  SHA-256 collision.
\<close>

theorem fingerprint_is_injective:
  assumes "snapshot_sized p" and "snapshot_sized q" and "fingerprint_preimage p = fingerprint_preimage q"
  shows "p = q"
proof -
  let ?tail = "\<lambda>s. if s = [] then [] else str_bytes ''neoth.autonomy-policy.skill-overrides.v1'' @ [0]
          @ u64_to_be (word_of_nat (length s)) @ concat (map fp_skill s)"
  let ?ps = "aps_skill_overrides p" and ?qs = "aps_skill_overrides q"
  have "fp_part (level_as_str (aps_level p)) @ fp_overrides (aps_overrides p) @ ?tail ?ps
      = fp_part (level_as_str (aps_level q)) @ fp_overrides (aps_overrides q) @ ?tail ?qs"
    using assms(3) unfolding fingerprint_preimage_skill append_same_eq by (metis same_append_eq)
  then have lv: "aps_level p = aps_level q"
    and "fp_overrides (aps_overrides p) @ ?tail ?ps = fp_overrides (aps_overrides q) @ ?tail ?qs"
    unfolding fp_part_split [OF str_lens(1,1)] level_str_inj by simp_all
  then have ov: "aps_overrides p = aps_overrides q" and tl: "?tail ?ps = ?tail ?qs"
    using assms(1,2)
      fp_overrides_split [of "aps_overrides p" "aps_overrides q" "?tail ?ps" "?tail ?qs"]
    unfolding snapshot_sized_def by blast+
  have "?ps = ?qs"
  proof (cases "?ps = [] \<or> ?qs = []")
    case True
    with tl show ?thesis by (auto split: if_splits)
  next
    case False
    with tl have eq: "u64_to_be (word_of_nat (length ?ps)) @ concat (map fp_skill ?ps)
        = u64_to_be (word_of_nat (length ?qs)) @ concat (map fp_skill ?qs)" by simp
    have len: "length ?ps = length ?qs"
      using eq assms(1,2) by (simp add: snapshot_sized_def u64_len_inj)
    with eq have "concat (map fp_skill ?ps) @ [] = concat (map fp_skill ?qs) @ []" by simp
    moreover have "fp_skill a @ x = fp_skill b @ y \<longleftrightarrow> a = b \<and> x = y"
      if "a \<in> set ?ps" "b \<in> set ?qs" for a b x y
      using that assms(1,2) by (intro fp_skill_split) (auto simp: snapshot_sized_def)
    ultimately show ?thesis
      using delimited_list_split [of ?ps ?qs fp_skill "[]" "[]", OF _ len] by blast
  qed
  with lv ov show ?thesis by (cases p; cases q) simp
qed

theorem fingerprint_is_injective_witness:
  "fingerprint_preimage \<lparr>aps_level = Full, aps_overrides = [], aps_skill_overrides = []\<rparr>
     \<noteq> fingerprint_preimage \<lparr>aps_level = Full, aps_overrides = [],
         aps_skill_overrides = [(''s'', skill_override_default)]\<rparr>"
proof
  assume "fingerprint_preimage \<lparr>aps_level = Full, aps_overrides = [], aps_skill_overrides = []\<rparr>
     = fingerprint_preimage \<lparr>aps_level = Full, aps_overrides = [],
         aps_skill_overrides = [(''s'', skill_override_default)]\<rparr>"
  from fingerprint_is_injective [OF _ _ this] show False
    by (simp add: snapshot_sized_def skill_override_default_def)
qed

text \<open>
  The public names of the action kinds round trip: every kind is read back from its
  name, and the representative action shown in previews has the kind it stands for.
\<close>

theorem kind_names_roundtrip:
  "kind_from_str (kind_as_str k) = Ok k \<and> action_kind_of (representative k) = k"
proof -
  have "list_all (\<lambda>c. code_of c < 128 \<and> \<not> is_whitespace (code_of c)) (kind_as_str k)"
    by (cases k) (simp_all add: code_of_def is_whitespace_def)
  then have "trim (kind_as_str k) = kind_as_str k" by (rule trim_ascii)
  moreover have "List.find (\<lambda>j. kind_as_str j = kind_as_str k) ActionKind_ALL = Some k"
  proof -
    have "List.find (\<lambda>j. j = k) ActionKind_ALL = Some k"
      using kind_in_ALL [of k] by (cases "List.find (\<lambda>j. j = k) ActionKind_ALL")
        (auto simp: find_None_iff find_Some_iff)
    then show ?thesis by (simp add: kind_str_inj)
  qed
  moreover have "action_kind_of (representative k) = k" by (cases k) simp_all
  ultimately show ?thesis by (simp add: kind_from_str_def)
qed

end
