(* ===== verification/Perm_Trust.thy ===== *)
theory Perm_Trust
  imports Perm_Policy
begin

text \<open>
  Typed evidence for resolved decisions (\<open>permissions/trust_ledger.rs\<close>): trust events,
  durable admission descriptors, their validation, and the matching of a receipt against a
  descriptor. \<open>dig\<close> stands for \<open>sha256_hex\<close> of a rendered reason, through the
  \<open>sha2\<close> and \<open>hex\<close> crates. The JSON encoding and the replay of the ledger from
  disk are not modelled.
\<close>

section \<open>Records\<close>

definition TRUST_EVENT_SCHEMA_VERSION :: u8 where "TRUST_EVENT_SCHEMA_VERSION = 1"
definition TRUST_ADMISSION_EVENT_SCHEMA_VERSION :: u8 where
  "TRUST_ADMISSION_EVENT_SCHEMA_VERSION = 2"
definition TRUST_ADMISSION_DESCRIPTOR_SCHEMA_VERSION :: u8 where
  "TRUST_ADMISSION_DESCRIPTOR_SCHEMA_VERSION = 1"
definition LOCAL_SUBJECT :: string where "LOCAL_SUBJECT = ''local''"
definition MAX_SUBJECT_BYTES :: nat where "MAX_SUBJECT_BYTES = 256"
definition MAX_LEASE_ID_BYTES :: nat where "MAX_LEASE_ID_BYTES = 128"
definition MAX_CONFIRMATION_SOURCE_BYTES :: nat where "MAX_CONFIRMATION_SOURCE_BYTES = 128"

lemmas trust_versions = TRUST_EVENT_SCHEMA_VERSION_def TRUST_ADMISSION_EVENT_SCHEMA_VERSION_def
  TRUST_ADMISSION_DESCRIPTOR_SCHEMA_VERSION_def

datatype trust_outcome = Allowed | Denied

record trust_admission_descriptor =
  tad_schema_version :: u8
  tad_operation_id_sha256 :: string
  tad_subject :: string
  tad_action :: action_kind
  tad_outcome :: trust_outcome
  tad_autonomy_level :: autonomy_level
  tad_request_binding_sha256 :: string
  tad_lease_id :: "string option"
  tad_confirmation_source :: "string option"
  tad_reason_sha256 :: "string option"
  tad_policy_snapshot_sha256 :: string

record trust_event =
  te_schema_version :: u8
  te_subject :: string
  te_action :: action_kind
  te_autonomy_level :: autonomy_level
  te_outcome :: trust_outcome
  te_reason_sha256 :: "string option"
  te_lease_id :: "string option"
  te_confirmation_source :: "string option"
  te_authorization_id :: "string option"
  te_request_binding_sha256 :: "string option"
  te_operation_id_sha256 :: "string option"
  te_policy_snapshot_sha256 :: "string option"
  te_decided_at_ns :: u64

datatype trust_error =
    UnsupportedSchema u8
  | LabelEmpty string
  | LabelTooLong string nat
  | LabelControl string
  | BadDigest string
  | BindingMismatch
  | Schema1HasDurableFields
  | Schema2NeedsOperationAndPolicy
  | Schema2NeedsBinding
  | Schema2HasAuthorization

section \<open>Validation\<close>

definition is_lower_hex_64 :: "string \<Rightarrow> bool" where
  "is_lower_hex_64 v \<longleftrightarrow> length v = 64
     \<and> list_all (\<lambda>c. is_ascii_digit c \<or> 97 \<le> code_of c \<and> code_of c \<le> 102) v"

definition validate_digest :: "string \<Rightarrow> string \<Rightarrow> trust_error + unit" where
  "validate_digest label v = ensure (is_lower_hex_64 v) (BadDigest label)"

definition validate_label :: "string \<Rightarrow> string \<Rightarrow> nat \<Rightarrow> trust_error + unit" where
  "validate_label label v max_bytes = first_error
     [ensure (trim v \<noteq> []) (LabelEmpty label),
      ensure (length v \<le> max_bytes) (LabelTooLong label max_bytes),
      ensure (\<not> list_ex (\<lambda>ch. is_control (scalar_of ch)) (utf8_chunks v)) (LabelControl label)]"

definition validate_opt_label :: "string \<Rightarrow> string option \<Rightarrow> nat \<Rightarrow> trust_error + unit" where
  "validate_opt_label label v max_bytes =
     (case v of None \<Rightarrow> Ok () | Some s \<Rightarrow> validate_label label s max_bytes)"

definition validate_opt_digest :: "string \<Rightarrow> string option \<Rightarrow> trust_error + unit" where
  "validate_opt_digest label v = (case v of None \<Rightarrow> Ok () | Some s \<Rightarrow> validate_digest label s)"

definition descriptor_validate :: "trust_admission_descriptor \<Rightarrow> trust_error + unit" where
  "descriptor_validate d = first_error
     [ensure (tad_schema_version d = TRUST_ADMISSION_DESCRIPTOR_SCHEMA_VERSION)
        (UnsupportedSchema (tad_schema_version d)),
      validate_label ''TrustAdmissionDescriptor subject'' (tad_subject d) MAX_SUBJECT_BYTES,
      validate_digest ''TrustAdmissionDescriptor operation id'' (tad_operation_id_sha256 d),
      validate_digest ''TrustAdmissionDescriptor request binding'' (tad_request_binding_sha256 d),
      validate_digest ''TrustAdmissionDescriptor policy snapshot'' (tad_policy_snapshot_sha256 d),
      validate_opt_label ''TrustAdmissionDescriptor lease id'' (tad_lease_id d) MAX_LEASE_ID_BYTES,
      validate_opt_label ''TrustAdmissionDescriptor confirmation source''
        (tad_confirmation_source d) MAX_CONFIRMATION_SOURCE_BYTES,
      validate_opt_digest ''TrustAdmissionDescriptor reason digest'' (tad_reason_sha256 d)]"

definition trust_event_validate :: "trust_event \<Rightarrow> trust_error + unit" where
  "trust_event_validate e = first_error
     [ensure (te_schema_version e = TRUST_EVENT_SCHEMA_VERSION
          \<or> te_schema_version e = TRUST_ADMISSION_EVENT_SCHEMA_VERSION)
        (UnsupportedSchema (te_schema_version e)),
      validate_label ''TrustEvent subject'' (te_subject e) MAX_SUBJECT_BYTES,
      validate_opt_label ''TrustEvent lease id'' (te_lease_id e) MAX_LEASE_ID_BYTES,
      validate_opt_label ''TrustEvent confirmation source'' (te_confirmation_source e)
        MAX_CONFIRMATION_SOURCE_BYTES,
      validate_opt_digest ''TrustEvent reason digest'' (te_reason_sha256 e),
      validate_opt_digest ''TrustEvent authorization id'' (te_authorization_id e),
      validate_opt_digest ''TrustEvent request binding'' (te_request_binding_sha256 e),
      validate_opt_digest ''TrustEvent operation id'' (te_operation_id_sha256 e),
      validate_opt_digest ''TrustEvent policy snapshot'' (te_policy_snapshot_sha256 e),
      (if te_schema_version e = TRUST_EVENT_SCHEMA_VERSION
       then ensure (te_operation_id_sha256 e = None \<and> te_policy_snapshot_sha256 e = None)
              Schema1HasDurableFields
       else first_error
         [ensure (te_operation_id_sha256 e \<noteq> None \<and> te_policy_snapshot_sha256 e \<noteq> None)
            Schema2NeedsOperationAndPolicy,
          ensure (te_request_binding_sha256 e \<noteq> None) Schema2NeedsBinding,
          ensure (te_authorization_id e = None) Schema2HasAuthorization])]"

section \<open>Construction and matching\<close>

text \<open>The subject of the evidence: trimmed, with the local subject for a missing or blank one.\<close>

definition evidence_subject :: "string option \<Rightarrow> string" where
  "evidence_subject subject =
     (case subject of
        None \<Rightarrow> LOCAL_SUBJECT
      | Some s \<Rightarrow> (if trim s = [] then LOCAL_SUBJECT else trim s))"

fun evidence_outcome :: "(reason \<Rightarrow> string) \<Rightarrow> decision \<Rightarrow> trust_outcome \<times> string option" where
  "evidence_outcome dig Allow = (Allowed, None)"
| "evidence_outcome dig (Deny r) = (Denied, Some (dig r))"
| "evidence_outcome dig (Confirm r) = (Denied, Some (dig r))"

definition from_gate_resolution ::
    "(reason \<Rightarrow> string) \<Rightarrow> string \<Rightarrow> action \<Rightarrow> autonomy_level \<Rightarrow> decision \<Rightarrow> string option
     \<Rightarrow> string option \<Rightarrow> string option \<Rightarrow> string \<Rightarrow> string \<Rightarrow> trust_error + trust_admission_descriptor" where
  "from_gate_resolution dig operation_id act level dec subject lease_id source binding policy_sha =
     (let descriptor = \<lparr>
            tad_schema_version = TRUST_ADMISSION_DESCRIPTOR_SCHEMA_VERSION,
            tad_operation_id_sha256 = operation_id,
            tad_subject = evidence_subject subject,
            tad_action = action_kind_of act,
            tad_outcome = fst (evidence_outcome dig dec),
            tad_autonomy_level = level,
            tad_request_binding_sha256 = binding,
            tad_lease_id = lease_id,
            tad_confirmation_source = source,
            tad_reason_sha256 = snd (evidence_outcome dig dec),
            tad_policy_snapshot_sha256 = policy_sha \<rparr>
      in case descriptor_validate descriptor of Inl e \<Rightarrow> Err e | Inr _ \<Rightarrow> Ok descriptor)"

definition to_schema2_event :: "trust_admission_descriptor \<Rightarrow> u64 \<Rightarrow> trust_error + trust_event" where
  "to_schema2_event d decided_at_ns =
     (case descriptor_validate d of
        Inl e \<Rightarrow> Err e
      | Inr _ \<Rightarrow>
          (let event = \<lparr>
                 te_schema_version = TRUST_ADMISSION_EVENT_SCHEMA_VERSION,
                 te_subject = tad_subject d,
                 te_action = tad_action d,
                 te_autonomy_level = tad_autonomy_level d,
                 te_outcome = tad_outcome d,
                 te_reason_sha256 = tad_reason_sha256 d,
                 te_lease_id = tad_lease_id d,
                 te_confirmation_source = tad_confirmation_source d,
                 te_authorization_id = None,
                 te_request_binding_sha256 = Some (tad_request_binding_sha256 d),
                 te_operation_id_sha256 = Some (tad_operation_id_sha256 d),
                 te_policy_snapshot_sha256 = Some (tad_policy_snapshot_sha256 d),
                 te_decided_at_ns = decided_at_ns \<rparr>
           in case trust_event_validate event of Inl e \<Rightarrow> Err e | Inr _ \<Rightarrow> Ok event))"

definition matches_event :: "trust_admission_descriptor \<Rightarrow> trust_event \<Rightarrow> bool" where
  "matches_event d e \<longleftrightarrow>
     te_schema_version e = TRUST_ADMISSION_EVENT_SCHEMA_VERSION
     \<and> te_operation_id_sha256 e = Some (tad_operation_id_sha256 d)
     \<and> te_subject e = tad_subject d
     \<and> te_action e = tad_action d
     \<and> te_outcome e = tad_outcome d
     \<and> te_autonomy_level e = tad_autonomy_level d
     \<and> te_request_binding_sha256 e = Some (tad_request_binding_sha256 d)
     \<and> te_lease_id e = tad_lease_id d
     \<and> te_confirmation_source e = tad_confirmation_source d
     \<and> te_reason_sha256 e = tad_reason_sha256 d
     \<and> te_policy_snapshot_sha256 e = Some (tad_policy_snapshot_sha256 d)
     \<and> te_authorization_id e = None"

text \<open>The authorization id and the request binding an action carries itself.\<close>

fun intrinsic_binding :: "action \<Rightarrow> string option \<times> string option" where
  "intrinsic_binding (PaidProviderCall _ _ auth bind _) = (Some auth, Some bind)"
| "intrinsic_binding (UnboundedPaidProviderCall _ _ auth bind) = (Some auth, Some bind)"
| "intrinsic_binding (ExternalTtsSynthesis _ _ _ bind) = (None, Some bind)"
| "intrinsic_binding (ExternalHttpRequest _ _ _ _ bind) = (None, Some bind)"
| "intrinsic_binding _ = (None, None)"

definition binding_mismatch :: "string option \<Rightarrow> string option \<Rightarrow> bool" where
  "binding_mismatch explicit intrinsic \<longleftrightarrow>
     (case (explicit, intrinsic) of (Some e, Some i) \<Rightarrow> e \<noteq> i | _ \<Rightarrow> False)"

definition opt_or :: "'a option \<Rightarrow> 'a option \<Rightarrow> 'a option" where
  "opt_or a b = (case a of Some x \<Rightarrow> Some x | None \<Rightarrow> b)"

definition event_from_gate ::
    "(reason \<Rightarrow> string) \<Rightarrow> action \<Rightarrow> autonomy_level \<Rightarrow> decision \<Rightarrow> string option \<Rightarrow> string option
     \<Rightarrow> string option \<Rightarrow> string option \<Rightarrow> u64 \<Rightarrow> trust_error + trust_event" where
  "event_from_gate dig act level dec subject lease_id source binding decided_at_ns =
     (let (auth, intrinsic) = intrinsic_binding act
      in if binding_mismatch binding intrinsic then Err BindingMismatch
         else let event = \<lparr>
                te_schema_version = TRUST_EVENT_SCHEMA_VERSION,
                te_subject = evidence_subject subject,
                te_action = action_kind_of act,
                te_autonomy_level = level,
                te_outcome = fst (evidence_outcome dig dec),
                te_reason_sha256 = snd (evidence_outcome dig dec),
                te_lease_id = lease_id,
                te_confirmation_source = source,
                te_authorization_id = auth,
                te_request_binding_sha256 = opt_or binding intrinsic,
                te_operation_id_sha256 = None,
                te_policy_snapshot_sha256 = None,
                te_decided_at_ns = decided_at_ns \<rparr>
              in case trust_event_validate event of Inl e \<Rightarrow> Err e | Inr _ \<Rightarrow> Ok event)"

definition is_durable_admission :: "trust_event \<Rightarrow> bool" where
  "is_durable_admission e \<longleftrightarrow> te_schema_version e = TRUST_ADMISSION_EVENT_SCHEMA_VERSION"

section \<open>Properties\<close>

lemma validate_opt_Ok:
  "validate_opt_label l v m = Ok () \<longleftrightarrow> (\<forall>s. v = Some s \<longrightarrow> validate_label l s m = Ok ())"
  "validate_opt_digest l v = Ok () \<longleftrightarrow> (\<forall>s. v = Some s \<longrightarrow> is_lower_hex_64 s)"
  by (auto simp: validate_opt_label_def validate_opt_digest_def validate_digest_def split: option.splits)

lemma validate_label_Ok:
  "validate_label l v m = Ok () \<longleftrightarrow> trim v \<noteq> [] \<and> length v \<le> m
     \<and> \<not> list_ex (\<lambda>ch. is_control (scalar_of ch)) (utf8_chunks v)"
  by (simp add: validate_label_def first_error_Ok)

lemma validate_digest_Ok: "validate_digest l v = Ok () \<longleftrightarrow> is_lower_hex_64 v"
  by (simp add: validate_digest_def)

lemmas trust_checks = validate_opt_Ok validate_label_Ok validate_digest_Ok first_error_Ok

lemma evidence_outcome_fst: "fst (evidence_outcome dig d) = Allowed \<longleftrightarrow> is_allow d"
  by (cases d) simp_all

lemma descriptor_ext:
  "d = d' \<longleftrightarrow> tad_schema_version d = tad_schema_version d'
     \<and> tad_operation_id_sha256 d = tad_operation_id_sha256 d' \<and> tad_subject d = tad_subject d'
     \<and> tad_action d = tad_action d' \<and> tad_outcome d = tad_outcome d'
     \<and> tad_autonomy_level d = tad_autonomy_level d'
     \<and> tad_request_binding_sha256 d = tad_request_binding_sha256 d'
     \<and> tad_lease_id d = tad_lease_id d' \<and> tad_confirmation_source d = tad_confirmation_source d'
     \<and> tad_reason_sha256 d = tad_reason_sha256 d'
     \<and> tad_policy_snapshot_sha256 d = tad_policy_snapshot_sha256 d'"
  for d d' :: trust_admission_descriptor
  by (cases d; cases d') auto

lemma descriptor_event_valid:
  assumes "descriptor_validate d = Ok ()"
  shows "\<exists>e. to_schema2_event d ns = Ok e \<and> matches_event d e"
proof -
  let ?e = "\<lparr>te_schema_version = TRUST_ADMISSION_EVENT_SCHEMA_VERSION, te_subject = tad_subject d,
     te_action = tad_action d, te_autonomy_level = tad_autonomy_level d, te_outcome = tad_outcome d,
     te_reason_sha256 = tad_reason_sha256 d, te_lease_id = tad_lease_id d,
     te_confirmation_source = tad_confirmation_source d, te_authorization_id = None,
     te_request_binding_sha256 = Some (tad_request_binding_sha256 d),
     te_operation_id_sha256 = Some (tad_operation_id_sha256 d),
     te_policy_snapshot_sha256 = Some (tad_policy_snapshot_sha256 d), te_decided_at_ns = ns\<rparr>"
  have "trust_event_validate ?e = Ok ()"
    using assms by (simp add: trust_event_validate_def descriptor_validate_def trust_checks trust_versions)
  then have "to_schema2_event d ns = Ok ?e"
    using assms by (simp add: to_schema2_event_def Let_def)
  then show ?thesis by (simp add: matches_event_def)
qed

text \<open>
  A durable admission receipt proves exactly one decision. Every valid descriptor
  becomes a schema-2 event at any time stamp without a further error, the event matches the
  descriptor, and an event that matches two valid descriptors makes them equal in every
  field. A generic audit event never matches a descriptor.
\<close>

theorem admission_receipt_is_exact:
  assumes "descriptor_validate d = Ok ()"
  shows "(\<exists>e. to_schema2_event d ns = Ok e \<and> matches_event d e \<and> is_durable_admission e) \<and>
    (\<forall>d' e. descriptor_validate d' = Ok () \<and> matches_event d e \<and> matches_event d' e \<longrightarrow> d' = d) \<and>
    (\<forall>dig act lv dec su le so bi t e. event_from_gate dig act lv dec su le so bi t = Ok e \<longrightarrow>
       \<not> matches_event d e)"
proof -
  have "d' = d" if "descriptor_validate d' = Ok ()" "matches_event d e" "matches_event d' e" for d' e
    using that assms
    by (simp add: descriptor_validate_def first_error_Ok matches_event_def descriptor_ext)
  moreover have "\<not> matches_event d e" if "event_from_gate dig act lv dec su le so bi t = Ok e"
    for dig act lv dec su le so bi t e
    using that by (auto simp: event_from_gate_def Let_def matches_event_def trust_versions
        split: prod.splits if_splits sum.splits)
  ultimately show ?thesis
    using descriptor_event_valid [OF assms, of ns]
    by (auto simp: is_durable_admission_def matches_event_def)
qed

definition sample_descriptor :: trust_admission_descriptor where
  "sample_descriptor = \<lparr>tad_schema_version = 1, tad_operation_id_sha256 = replicate 64 CHR ''a'',
     tad_subject = ''local'', tad_action = K_ExecArbitrary, tad_outcome = Allowed,
     tad_autonomy_level = Full, tad_request_binding_sha256 = replicate 64 CHR ''b'',
     tad_lease_id = None, tad_confirmation_source = None, tad_reason_sha256 = None,
     tad_policy_snapshot_sha256 = replicate 64 CHR ''c''\<rparr>"

lemma local_label: "validate_label l ''local'' MAX_SUBJECT_BYTES = Ok ()"
proof -
  have "trim ''local'' = ''local''"
    by (rule trim_ascii) (simp add: code_of_def is_whitespace_def)
  then show ?thesis
    by (simp add: validate_label_Ok MAX_SUBJECT_BYTES_def is_control_def utf8_len_def code_of_def)
qed

lemma sample_descriptor_valid: "descriptor_validate sample_descriptor = Ok ()"
proof -
  have "is_lower_hex_64 (replicate 64 CHR ''a'')" "is_lower_hex_64 (replicate 64 CHR ''b'')"
    "is_lower_hex_64 (replicate 64 CHR ''c'')"
    by (simp_all add: is_lower_hex_64_def list_all_iff code_of_def)
  then show ?thesis
    by (simp add: descriptor_validate_def first_error_Ok sample_descriptor_def validate_opt_Ok
        validate_digest_Ok local_label trust_versions)
qed

theorem admission_receipt_is_exact_witness:
  "\<exists>e. to_schema2_event sample_descriptor 5 = Ok e \<and> matches_event sample_descriptor e"
  using admission_receipt_is_exact [OF sample_descriptor_valid, of 5] by blast

end
