(* ===== verification/Perm_Gate.thy ===== *)
theory Perm_Gate
  imports Perm_Trust
begin

text \<open>
  The runtime permission gate (\<open>permissions/gate.rs\<close>): leases, pre-confirmations,
  operator confirmation, the required audit and the durable admission. What the gate awaits
  is gathered in an environment record: the policy the reload controller returns when it is
  read before and after a confirmation, the answer at the terminal or in the channel, and
  whether the two audit appends succeed. The audit log is explicit state. The test-only
  confirm strategy and audit sink are left out.
\<close>

section \<open>The gate and its environment\<close>

datatype gate_error = GDenied reason | GAborted reason | GUnavailable reason

datatype confirm_strategy = Tty | Channel | FailClosed

datatype audit_sink = NoSink | Writer | WriterWithSession "8 word list" | DaemonRpc string

datatype audit_presentation = Canonical | ReleasedResearch

record lease_context =
  lc_leases :: "capability_lease list"
  lc_subject :: string

text \<open>
  \<open>SkillInvocationPolicy\<close> of \<open>skills/resolver.rs\<close>: the retained cap, and whether a
  reload controller is attached.
\<close>

record skill_invocation_policy =
  sip_effective :: effective_policy
  sip_reload :: bool

record gate =
  g_policy :: autonomy_policy_snapshot
  g_skill :: "skill_invocation_policy option"
  g_confirm :: confirm_strategy
  g_channel_asker :: bool
  g_channel_timeout :: nat
  g_lease_ctx :: "lease_context option"
  g_preconfirmed :: "string option"
  g_presentation :: audit_presentation

datatype tty_answer = NoTerminal | TtyYes | TtyNo | TtyError string

datatype channel_reply = Approve | Reject | Unreachable | TimedOut

record gate_env =
  ge_live_before :: autonomy_policy_snapshot
  ge_live_after :: autonomy_policy_snapshot
  ge_wizard :: bool
  ge_tty :: tty_answer
  ge_channel :: channel_reply
  ge_permission_append :: bool
  ge_trust_append :: bool
  ge_now_ns :: u64

definition RELEASED_RESEARCH_AUDIT_LABEL :: string where
  "RELEASED_RESEARCH_AUDIT_LABEL = ''released_research_search''"
definition RELEASED_RESEARCH_DENIAL_LABEL :: string where
  "RELEASED_RESEARCH_DENIAL_LABEL = ''released_research_request_denied''"

section \<open>Building a gate\<close>

definition gate_for_policy :: "autonomy_policy_snapshot \<Rightarrow> gate" where
  "gate_for_policy p = \<lparr>g_policy = p, g_skill = None, g_confirm = FailClosed, g_channel_asker = False,
     g_channel_timeout = 90, g_lease_ctx = None, g_preconfirmed = None, g_presentation = Canonical\<rparr>"

definition with_skill_invocation_policy :: "skill_invocation_policy option \<Rightarrow> gate \<Rightarrow> gate" where
  "with_skill_invocation_policy sp g = g\<lparr>g_skill := sp\<rparr>"

definition with_confirm :: "confirm_strategy \<Rightarrow> gate \<Rightarrow> gate" where
  "with_confirm s g = g\<lparr>g_confirm := s\<rparr>"

definition with_channel_asker :: "gate \<Rightarrow> gate" where
  "with_channel_asker g = g\<lparr>g_channel_asker := True\<rparr>"

definition with_channel_timeout :: "nat \<Rightarrow> gate \<Rightarrow> gate" where
  "with_channel_timeout t g = g\<lparr>g_channel_timeout := t\<rparr>"

definition with_preconfirmed_confirmation :: "string \<Rightarrow> gate \<Rightarrow> gate" where
  "with_preconfirmed_confirmation source g =
     g\<lparr>g_preconfirmed := (if trim source \<noteq> [] then Some source else None)\<rparr>"

definition with_released_research_audit :: "gate \<Rightarrow> gate" where
  "with_released_research_audit g = g\<lparr>g_presentation := ReleasedResearch\<rparr>"

definition with_lease_snapshot :: "lease_store \<Rightarrow> string \<Rightarrow> int \<Rightarrow> gate \<Rightarrow> gate" where
  "with_lease_snapshot store subject now_unix g =
     (if subject = [] then g
      else g\<lparr>g_lease_ctx := Some \<lparr>lc_leases = lease_active store now_unix, lc_subject = subject\<rparr>\<rparr>)"

section \<open>Resolving a decision\<close>

definition covering_lease_id :: "lease_context \<Rightarrow> action \<Rightarrow> int \<Rightarrow> string option" where
  "covering_lease_id ctx act now_unix =
     (case lease_scope_for act of
        None \<Rightarrow> None
      | Some sc \<Rightarrow>
          map_option cl_lease_id
            (List.find (\<lambda>l. lease_covers l (lc_subject ctx) sc now_unix) (lc_leases ctx)))"

definition sip_has_skill_cap :: "skill_invocation_policy \<Rightarrow> bool" where
  "sip_has_skill_cap sp \<longleftrightarrow> sip_effective sp \<noteq> None"

definition current_global_snapshot ::
    "skill_invocation_policy \<Rightarrow> autonomy_policy_snapshot \<Rightarrow> autonomy_policy_snapshot
     \<Rightarrow> autonomy_policy_snapshot" where
  "current_global_snapshot sp live fallback =
     (if sip_has_skill_cap sp \<and> sip_reload sp then live else fallback)"

definition current_policy_snapshot :: "gate \<Rightarrow> autonomy_policy_snapshot \<Rightarrow> autonomy_policy_snapshot" where
  "current_policy_snapshot g live =
     (case g_skill g of None \<Rightarrow> g_policy g | Some sp \<Rightarrow> current_global_snapshot sp live (g_policy g))"

definition effective_decision_at :: "gate \<Rightarrow> action \<Rightarrow> autonomy_policy_snapshot \<Rightarrow> decision" where
  "effective_decision_at g act snapshot =
     (case g_skill g of
        None \<Rightarrow> evaluate_snapshot act snapshot
      | Some sp \<Rightarrow> evaluate_with_current_global (sip_effective sp) act snapshot)"

definition resolve_confirm :: "gate \<Rightarrow> gate_env \<Rightarrow> reason \<Rightarrow> decision" where
  "resolve_confirm g env reason =
     (case g_confirm g of
        FailClosed \<Rightarrow> Deny (Lit ''daemon-mode fail-closed; '' # reason)
      | Channel \<Rightarrow>
          (if g_channel_asker g then
             (case ge_channel env of
                Approve \<Rightarrow> Allow
              | Reject \<Rightarrow> Deny (Lit ''operator denied via channel: '' # reason)
              | Unreachable \<Rightarrow> Deny (Lit ''channel unavailable for confirm; '' # reason)
              | TimedOut \<Rightarrow> Deny (Lit (''channel-confirm timed out after ''
                  @ nat_dec (g_channel_timeout g) @ ''s; '') # reason))
           else Deny (Lit (''channel-confirm not wired (wire a ChannelAsker via ''
             @ ''Gate::with_channel_asker); '') # reason))
      | Tty \<Rightarrow>
          (if ge_wizard env then
             (case ge_tty env of
                NoTerminal \<Rightarrow> Deny (Lit ''no TTY for confirm; '' # reason)
              | TtyYes \<Rightarrow> Allow
              | TtyNo \<Rightarrow> Deny (Lit ''operator declined; '' # reason)
              | TtyError e \<Rightarrow> Deny [Lit (''confirm dialog error: '' @ e)])
           else Deny (Lit ''wizard feature disabled; cannot prompt. '' # reason)))"

fun confirm_source :: "confirm_strategy \<Rightarrow> string option" where
  "confirm_source Tty = Some ''tty_operator_confirm''"
| "confirm_source Channel = Some ''channel_operator_confirm''"
| "confirm_source FailClosed = None"

definition resolve_by_operator ::
    "gate \<Rightarrow> gate_env \<Rightarrow> action \<Rightarrow> autonomy_policy_snapshot \<Rightarrow> reason
     \<Rightarrow> decision \<times> string option \<times> string option \<times> autonomy_policy_snapshot" where
  "resolve_by_operator g env act snapshot reason =
     (let resolved = resolve_confirm g env reason;
          source = (if is_allow resolved then confirm_source (g_confirm g) else None);
          capped = (case g_skill g of None \<Rightarrow> False | Some sp \<Rightarrow> sip_has_skill_cap sp);
          audit_snapshot = (if is_allow resolved \<and> capped
             then current_policy_snapshot g (ge_live_after env) else snapshot);
          final = (if is_allow resolved then
                     (case effective_decision_at g act audit_snapshot of Deny r \<Rightarrow> Deny r | _ \<Rightarrow> Allow)
                   else resolved)
      in (final, None, if is_allow final then source else None, audit_snapshot))"

definition lease_of_gate :: "gate \<Rightarrow> action \<Rightarrow> int \<Rightarrow> string option" where
  "lease_of_gate g act now_unix =
     (case g_lease_ctx g of None \<Rightarrow> None | Some ctx \<Rightarrow> covering_lease_id ctx act now_unix)"

definition resolve_decision_at ::
    "gate \<Rightarrow> gate_env \<Rightarrow> action \<Rightarrow> int \<Rightarrow> autonomy_policy_snapshot
     \<Rightarrow> decision \<times> string option \<times> string option \<times> autonomy_policy_snapshot" where
  "resolve_decision_at g env act now_unix snapshot =
     (case effective_decision_at g act snapshot of
        Allow \<Rightarrow> (Allow, None, g_preconfirmed g, snapshot)
      | Deny reason \<Rightarrow> (Deny reason, None, None, snapshot)
      | Confirm reason \<Rightarrow>
          (case lease_of_gate g act now_unix of
             Some lid \<Rightarrow> (Allow, Some lid, Some ''capability_lease'', snapshot)
           | None \<Rightarrow>
               (case g_preconfirmed g of
                  Some source \<Rightarrow> (Allow, None, Some source, snapshot)
                | None \<Rightarrow> resolve_by_operator g env act snapshot reason)))"

fun durable_refusal :: "confirm_strategy \<Rightarrow> string" where
  "durable_refusal FailClosed = ''daemon-mode fail-closed; ''"
| "durable_refusal Channel = ''durable admission refuses ephemeral channel confirmation; ''"
| "durable_refusal Tty = ''durable admission requires a request-bound confirmation receipt; ''"

definition resolve_durable_decision_at ::
    "gate \<Rightarrow> action \<Rightarrow> int \<Rightarrow> autonomy_policy_snapshot \<Rightarrow> decision \<times> string option \<times> string option" where
  "resolve_durable_decision_at g act now_unix snapshot =
     (case effective_decision_at g act snapshot of
        Allow \<Rightarrow> (Allow, None, None)
      | Deny reason \<Rightarrow> (Deny reason, None, None)
      | Confirm reason \<Rightarrow>
          (case lease_of_gate g act now_unix of
             Some lid \<Rightarrow> (Allow, Some lid, Some ''capability_lease'')
           | None \<Rightarrow> (Deny (Lit (durable_refusal (g_confirm g)) # reason), None, None)))"

definition resolve_trust_admission ::
    "(reason \<Rightarrow> string) \<Rightarrow> (autonomy_policy_snapshot \<Rightarrow> string) \<Rightarrow> gate \<Rightarrow> gate_env \<Rightarrow> action \<Rightarrow> int
     \<Rightarrow> string \<Rightarrow> string \<Rightarrow> gate_error + trust_admission_descriptor" where
  "resolve_trust_admission dig fp g env act now_unix operation_id binding =
     (let snapshot = current_policy_snapshot g (ge_live_before env);
          (dec, lid, source) = resolve_durable_decision_at g act now_unix snapshot
      in case from_gate_resolution dig operation_id act (aps_level snapshot) dec
                (map_option lc_subject (g_lease_ctx g)) lid source binding (fp snapshot) of
           Inl _ \<Rightarrow> Err (GUnavailable [Lit ''invalid durable admission descriptor''])
         | Inr d \<Rightarrow> Ok d)"

section \<open>Audit\<close>

text \<open>The fields of the JSON payload of a permission frame.\<close>

record permission_frame =
  pf_granted :: bool
  pf_level :: autonomy_level
  pf_action :: "action option"
  pf_label :: "string option"
  pf_authorization_id :: "string option"
  pf_request_binding :: "string option"
  pf_decision :: string
  pf_reason :: "reason option"
  pf_subject :: "string option"
  pf_lease_id :: "string option"
  pf_confirmation_source :: "string option"
  pf_ts_ns :: u64

datatype audit_record = PermissionFrame permission_frame | TrustFrame trust_event

datatype audit_error = NotExternalHttp | AuditBindingMismatch | AuditTrust trust_error | AppendFailed

fun is_external_http :: "action \<Rightarrow> bool" where
  "is_external_http (ExternalHttpRequest _ _ _ _ _) = True"
| "is_external_http _ = False"

fun projected_decision :: "decision \<Rightarrow> decision" where
  "projected_decision Allow = Allow"
| "projected_decision (Deny _) = Deny [Lit RELEASED_RESEARCH_DENIAL_LABEL]"
| "projected_decision (Confirm _) = Confirm [Lit RELEASED_RESEARCH_DENIAL_LABEL]"

fun decision_reason :: "decision \<Rightarrow> reason option" where
  "decision_reason Allow = None"
| "decision_reason (Deny r) = Some r"
| "decision_reason (Confirm r) = Some r"

definition audit_frames ::
    "(reason \<Rightarrow> string) \<Rightarrow> u64 \<Rightarrow> action \<Rightarrow> autonomy_level \<Rightarrow> decision \<Rightarrow> string option \<Rightarrow> string option
     \<Rightarrow> string option \<Rightarrow> string option \<Rightarrow> audit_presentation
     \<Rightarrow> audit_error + permission_frame \<times> trust_event" where
  "audit_frames dig now_ns act level decision0 subject lease_id source explicit presentation =
     (if presentation = ReleasedResearch \<and> \<not> is_external_http act then Err NotExternalHttp
      else let dec = (if presentation = ReleasedResearch then projected_decision decision0 else decision0);
               (auth, intrinsic) = intrinsic_binding act
           in if binding_mismatch explicit intrinsic then Err AuditBindingMismatch
              else case event_from_gate dig act level dec subject lease_id source
                          (opt_or explicit intrinsic) now_ns of
                     Inl e \<Rightarrow> Err (AuditTrust e)
                   | Inr ev \<Rightarrow> Ok (\<lparr>
                       pf_granted = is_allow dec,
                       pf_level = level,
                       pf_action = (if presentation = Canonical then Some act else None),
                       pf_label = (if presentation = Canonical then None
                                   else Some RELEASED_RESEARCH_AUDIT_LABEL),
                       pf_authorization_id = auth,
                       pf_request_binding = opt_or explicit intrinsic,
                       pf_decision = decision_tag dec,
                       pf_reason = decision_reason dec,
                       pf_subject = subject,
                       pf_lease_id = lease_id,
                       pf_confirmation_source = source,
                       pf_ts_ns = now_ns \<rparr>, ev))"

text \<open>
  The two appends happen in order; a failing second append leaves the first frame in the
  log. The log is the one the sink stands for. Of an error that is wrapped into the text of
  a gate error only the leading text is kept.
\<close>

definition audit ::
    "(reason \<Rightarrow> string) \<Rightarrow> gate_env \<Rightarrow> audit_sink \<Rightarrow> action \<Rightarrow> autonomy_level \<Rightarrow> decision
     \<Rightarrow> string option \<Rightarrow> string option \<Rightarrow> string option \<Rightarrow> string option \<Rightarrow> audit_presentation
     \<Rightarrow> audit_record list \<Rightarrow> audit_record list \<times> (audit_error + unit)" where
  "audit dig env sink act level dec subject lease_id source explicit presentation log =
     (case audit_frames dig (ge_now_ns env) act level dec subject lease_id source explicit presentation of
        Inl e \<Rightarrow> (log, Err e)
      | Inr (pf, ev) \<Rightarrow>
          (case sink of
             NoSink \<Rightarrow> (log, Ok ())
           | _ \<Rightarrow>
               if \<not> ge_permission_append env then (log, Err AppendFailed)
               else if \<not> ge_trust_append env then (log @ [PermissionFrame pf], Err AppendFailed)
               else (log @ [PermissionFrame pf, TrustFrame ev], Ok ())))"

section \<open>The check\<close>

fun decision_result :: "decision \<Rightarrow> gate_error + unit" where
  "decision_result Allow = Ok ()"
| "decision_result (Deny r) = Err (GDenied r)"
| "decision_result (Confirm r) = Err (GAborted r)"

definition check_at_with_audit ::
    "(reason \<Rightarrow> string) \<Rightarrow> gate \<Rightarrow> gate_env \<Rightarrow> action \<Rightarrow> audit_sink \<Rightarrow> int \<Rightarrow> bool \<Rightarrow> string option
     \<Rightarrow> audit_record list \<Rightarrow> audit_record list \<times> (gate_error + unit)" where
  "check_at_with_audit dig g env act sink now_unix audit_required explicit log =
     (let snapshot = current_policy_snapshot g (ge_live_before env);
          (final, lid, source, audit_snapshot) = resolve_decision_at g env act now_unix snapshot
      in if sink \<noteq> NoSink then
           (let (log', r) = audit dig env sink act (aps_level audit_snapshot) final
                  (map_option lc_subject (g_lease_ctx g)) lid source explicit (g_presentation g) log
            in case r of
                 Inl _ \<Rightarrow>
                   (if audit_required
                    then (log', Err (GUnavailable [Lit ''required permission audit WAL append failed'']))
                    else (log', decision_result final))
               | Inr _ \<Rightarrow> (log', decision_result final))
         else if audit_required then
           (log, Err (GUnavailable
              [Lit ''required permission audit has no WAL writer or daemon audit-RPC sink'']))
         else (log, decision_result final))"

definition check ::
    "(reason \<Rightarrow> string) \<Rightarrow> gate \<Rightarrow> gate_env \<Rightarrow> action \<Rightarrow> bool \<Rightarrow> int
     \<Rightarrow> audit_record list \<Rightarrow> audit_record list \<times> (gate_error + unit)" where
  "check dig g env act writer now_unix log =
     check_at_with_audit dig g env act (if writer then Writer else NoSink) now_unix False None log"

definition check_required_audit ::
    "(reason \<Rightarrow> string) \<Rightarrow> gate \<Rightarrow> gate_env \<Rightarrow> action \<Rightarrow> int
     \<Rightarrow> audit_record list \<Rightarrow> audit_record list \<times> (gate_error + unit)" where
  "check_required_audit dig g env act now_unix log =
     check_at_with_audit dig g env act Writer now_unix True None log"

section \<open>What lets an action through\<close>

definition operator_approves :: "gate \<Rightarrow> gate_env \<Rightarrow> bool" where
  "operator_approves g env \<longleftrightarrow>
     g_confirm g = Tty \<and> ge_wizard env \<and> ge_tty env = TtyYes
     \<or> g_confirm g = Channel \<and> g_channel_asker g \<and> ge_channel env = Approve"

definition first_snapshot :: "gate \<Rightarrow> gate_env \<Rightarrow> autonomy_policy_snapshot" where
  "first_snapshot g env = current_policy_snapshot g (ge_live_before env)"

text \<open>The policy consulted after a positive answer: read again only under a skill cap.\<close>

definition second_snapshot :: "gate \<Rightarrow> gate_env \<Rightarrow> autonomy_policy_snapshot" where
  "second_snapshot g env =
     (if (case g_skill g of None \<Rightarrow> False | Some sp \<Rightarrow> sip_has_skill_cap sp)
      then current_policy_snapshot g (ge_live_after env) else first_snapshot g env)"

definition gate_lets_through :: "gate \<Rightarrow> gate_env \<Rightarrow> action \<Rightarrow> int \<Rightarrow> bool" where
  "gate_lets_through g env act now \<longleftrightarrow>
     (let d = effective_decision_at g act (first_snapshot g env)
      in is_allow d \<or> is_confirm d \<and> (lease_of_gate g act now \<noteq> None \<or> g_preconfirmed g \<noteq> None
           \<or> operator_approves g env
             \<and> \<not> is_deny (effective_decision_at g act (second_snapshot g env))))"

lemma resolve_confirm_allow: "is_allow (resolve_confirm g env r) \<longleftrightarrow> operator_approves g env"
  by (auto simp: resolve_confirm_def operator_approves_def
      split: confirm_strategy.splits channel_reply.splits tty_answer.splits)

lemma is_deny_case: "(case d of Deny r \<Rightarrow> Deny r | _ \<Rightarrow> Allow) = (if is_deny d then d else Allow)"
  by (cases d) simp_all

lemma is_deny_not_confirm: "is_deny d \<Longrightarrow> \<not> is_confirm d"
  by (cases d) simp_all

lemma resolve_by_operator_allow:
  "is_allow (fst (resolve_by_operator g env act (first_snapshot g env) r)) \<longleftrightarrow>
     operator_approves g env \<and> \<not> is_deny (effective_decision_at g act (second_snapshot g env))"
proof (cases "operator_approves g env")
  case True
  then have "is_allow (resolve_confirm g env r)" by (simp add: resolve_confirm_allow)
  then show ?thesis
    using True by (cases "effective_decision_at g act (second_snapshot g env)")
      (simp_all add: resolve_by_operator_def Let_def second_snapshot_def)
next
  case False
  then have "\<not> is_allow (resolve_confirm g env r)" by (simp add: resolve_confirm_allow)
  with False show ?thesis by (simp add: resolve_by_operator_def Let_def)
qed

lemma resolve_by_operator_not_confirm:
  "\<not> is_confirm (fst (resolve_by_operator g env act s r))"
proof (cases "is_allow (resolve_confirm g env r)")
  case True
  then show ?thesis
    by (auto simp: resolve_by_operator_def Let_def is_deny_case dest: is_deny_not_confirm)
next
  case False
  then have "is_deny (resolve_confirm g env r)"
    by (auto simp: resolve_confirm_def split: confirm_strategy.splits channel_reply.splits
        tty_answer.splits)
  with False show ?thesis
    by (cases "resolve_confirm g env r") (simp_all add: resolve_by_operator_def Let_def)
qed

lemma resolve_decision_allow:
  "is_allow (fst (resolve_decision_at g env act now (first_snapshot g env))) \<longleftrightarrow>
     gate_lets_through g env act now"
proof (cases "effective_decision_at g act (first_snapshot g env)")
  case (Confirm r)
  then show ?thesis
    using resolve_by_operator_allow [of g env act r]
    by (cases "lease_of_gate g act now"; cases "g_preconfirmed g")
      (simp_all add: resolve_decision_at_def gate_lets_through_def)
qed (simp_all add: resolve_decision_at_def gate_lets_through_def)

lemma resolve_decision_not_confirm: "\<not> is_confirm (fst (resolve_decision_at g env act now s))"
  using resolve_by_operator_not_confirm
  by (auto simp: resolve_decision_at_def split: decision.splits option.splits)

lemma decision_result_Ok: "decision_result d = Ok () \<longleftrightarrow> is_allow d"
  by (cases d) simp_all

lemma audit_frames_Ok:
  assumes "audit_frames dig t act lv dec su lid so ex pr = Ok (pf, ev)"
  shows "pf_granted pf \<longleftrightarrow> is_allow dec" "te_outcome ev = Allowed \<longleftrightarrow> is_allow dec"
    "te_action ev = action_kind_of act" "te_lease_id ev = lid" "te_confirmation_source ev = so"
proof -
  have pd: "is_allow (projected_decision dec) \<longleftrightarrow> is_allow dec" by (cases dec) simp_all
  show "pf_granted pf \<longleftrightarrow> is_allow dec" "te_outcome ev = Allowed \<longleftrightarrow> is_allow dec"
    "te_action ev = action_kind_of act" "te_lease_id ev = lid" "te_confirmation_source ev = so"
    using assms by (auto simp: audit_frames_def event_from_gate_def Let_def evidence_outcome_fst pd
        split: if_splits prod.splits sum.splits)
qed

lemma lease_of_gate_leasable:
  "lease_of_gate g act now = Some lid \<Longrightarrow> \<exists>sc. lease_scope_for act = Some sc"
  by (auto simp: lease_of_gate_def covering_lease_id_def split: option.splits)

section \<open>Properties\<close>

text \<open>
  C5: the three answers of the gate, for an optional and for a required audit. The check returns Ok if and only
  if the effective policy allows the action, or asks for confirmation and a live lease of the
  authenticated subject, a pre-confirmed request, or a positive answer of the operator is there (after
  an answer the policy is consulted again and a new denial wins), and, when the audit is required, both audit
  records were appended. It returns \<open>Unavailable\<close> exactly when a required audit was not
  recorded, and \<open>Denied\<close> in every other case: an operator's no, a timeout and a missing terminal
  are \<open>Denied\<close> too, and \<open>Aborted\<close> is never returned. A policy denial is final: no lease,
  answer or pre-confirmation overrides it.
\<close>

theorem gate_decides_exactly:
  assumes "check_at_with_audit dig g env act sink now required bind log = (log', r)"
  shows "(r = Ok () \<longleftrightarrow> gate_lets_through g env act now
        \<and> (required \<longrightarrow> (\<exists>pf ev. log' = log @ [PermissionFrame pf, TrustFrame ev]))) \<and>
    ((\<exists>m. r = Err (GUnavailable m)) \<longleftrightarrow> required \<and> (\<nexists>pf ev. log' = log @ [PermissionFrame pf, TrustFrame ev])) \<and>
    (\<forall>reason. r \<noteq> Err (GAborted reason)) \<and>
    (is_deny (effective_decision_at g act (first_snapshot g env)) \<longrightarrow> r \<noteq> Ok ())"
proof -
  let ?d = "fst (resolve_decision_at g env act now (first_snapshot g env))"
  let ?recorded = "\<exists>pf ev. log' = log @ [PermissionFrame pf, TrustFrame ev]"
  have r: "if required \<and> \<not> ?recorded then \<exists>m. r = Err (GUnavailable m) else r = decision_result ?d"
    using assms by (auto simp: check_at_with_audit_def audit_def Let_def first_snapshot_def
        split: prod.splits if_splits sum.splits audit_sink.splits)
  have d: "decision_result ?d = Ok () \<longleftrightarrow> gate_lets_through g env act now"
    by (simp add: decision_result_Ok resolve_decision_allow)
  have dr: "decision_result ?d = Ok () \<or> (\<exists>reason. decision_result ?d = Err (GDenied reason))"
    using resolve_decision_not_confirm [of g env act now "first_snapshot g env"] by (cases ?d) auto
  have "\<not> gate_lets_through g env act now"
    if "is_deny (effective_decision_at g act (first_snapshot g env))"
    using that by (cases "effective_decision_at g act (first_snapshot g env)")
      (simp_all add: gate_lets_through_def)
  with r d dr show ?thesis by (cases "required \<and> \<not> ?recorded") auto
qed

definition sample_env :: gate_env where
  "sample_env = (let p = \<lparr>aps_level = Standard, aps_overrides = [], aps_skill_overrides = []\<rparr>
     in \<lparr>ge_live_before = p, ge_live_after = p, ge_wizard = False, ge_tty = NoTerminal,
         ge_channel = Approve, ge_permission_append = True, ge_trust_append = True, ge_now_ns = 1\<rparr>)"

definition sample_gate :: gate where
  "sample_gate = with_channel_asker (with_confirm Channel
     (gate_for_policy \<lparr>aps_level = Standard, aps_overrides = [], aps_skill_overrides = []\<rparr>))"

lemma sample_gate_lets_through: "gate_lets_through sample_gate sample_env ExecArbitrary 5"
  by (simp add: gate_lets_through_def sample_gate_def sample_env_def gate_for_policy_def Let_def
      with_channel_asker_def with_confirm_def operator_approves_def effective_decision_at_def
      evaluate_snapshot_def first_snapshot_def second_snapshot_def current_policy_snapshot_def)

theorem gate_decides_exactly_witness:
  "snd (check_at_with_audit (\<lambda>_. []) sample_gate sample_env ExecArbitrary Writer 5 False None []) = Ok ()"
  using gate_decides_exactly [OF prod.collapse [symmetric], where required = False] sample_gate_lets_through by blast

text \<open>
  C6: with a required audit, success means proof: when the check returns Ok, the gate's
  conditions hold and exactly one granted permission frame and one matching trust event
  naming the action, the lease and the source of the confirmation were appended. Without a
  sink, or when an append fails, the action is refused.
\<close>

theorem required_audit_precedes_effects:
  assumes "check_at_with_audit dig g env act sink now True bind log = (log', Ok ())"
  shows "gate_lets_through g env act now \<and> sink \<noteq> NoSink \<and>
    (\<exists>pf ev. log' = log @ [PermissionFrame pf, TrustFrame ev] \<and> pf_granted pf
       \<and> te_outcome ev = Allowed \<and> te_action ev = action_kind_of act)"
proof -
  obtain d lid so sn where res: "resolve_decision_at g env act now (first_snapshot g env) = (d, lid, so, sn)"
    by (metis prod_cases4)
  have sink: "sink \<noteq> NoSink"
    using assms by (auto simp: check_at_with_audit_def Let_def split: prod.splits if_splits)
  then obtain r where au: "audit dig env sink act (aps_level sn) d (map_option lc_subject (g_lease_ctx g))
      lid so bind (g_presentation g) log = (log', r)"
    and r: "r = Ok ()" and d: "decision_result d = Ok ()"
    using assms res by (auto simp: check_at_with_audit_def Let_def first_snapshot_def
        split: prod.splits if_splits sum.splits)
  have allow: "is_allow d" using d by (simp add: decision_result_Ok)
  obtain pf ev where "audit_frames dig (ge_now_ns env) act (aps_level sn) d
      (map_option lc_subject (g_lease_ctx g)) lid so bind (g_presentation g) = Ok (pf, ev)"
    and log: "log' = log @ [PermissionFrame pf, TrustFrame ev]"
    using au r sink by (auto simp: audit_def split: sum.splits audit_sink.splits if_splits)
  from audit_frames_Ok [OF this(1)] allow log sink
  show ?thesis
    using res resolve_decision_allow [of g env act now] by auto
qed

lemma empty_subject_evidence: "evidence_subject None = ''local''"
  by (simp add: evidence_subject_def LOCAL_SUBJECT_def)

theorem required_audit_precedes_effects_witness:
  "\<exists>pf ev. fst (check_at_with_audit (\<lambda>_. []) (gate_for_policy (ge_live_before sample_env)) sample_env
       Read Writer 5 True None []) = [PermissionFrame pf, TrustFrame ev] \<and> pf_granted pf"
proof -
  let ?g = "gate_for_policy (ge_live_before sample_env)"
  have "snd (check_at_with_audit (\<lambda>_. []) ?g sample_env Read Writer 5 True None []) = Ok ()"
    by (simp add: check_at_with_audit_def resolve_decision_at_def effective_decision_at_def
        gate_for_policy_def current_policy_snapshot_def evaluate_snapshot_def sample_env_def Let_def
        audit_def audit_frames_def binding_mismatch_def event_from_gate_def empty_subject_evidence
        trust_event_validate_def ensure_def validate_opt_label_def validate_opt_digest_def local_label
        trust_versions opt_or_def)
  then have "check_at_with_audit (\<lambda>_. []) ?g sample_env Read Writer 5 True None []
      = (fst (check_at_with_audit (\<lambda>_. []) ?g sample_env Read Writer 5 True None []), Ok ())"
    by (simp add: prod_eq_iff)
  from required_audit_precedes_effects [OF this] show ?thesis by auto
qed

text \<open>
  The lease snapshot loses and gains nothing: a gate built from the store at one instant
  and asked at a later one accepts a lease if and only if the store, looked up directly at the
  later instant, has a lease of that subject for the action's scope.
\<close>

theorem lease_snapshot_is_faithful:
  assumes "t0 \<le> t1" and "subject \<noteq> []"
  shows "lease_of_gate (with_lease_snapshot store subject t0 g) act t1 \<noteq> None \<longleftrightarrow>
    (\<exists>sc. lease_scope_for act = Some sc \<and> active_for store subject sc t1)"
proof -
  have "(\<exists>l \<in> set (lease_active store t0). lease_covers l subject sc t1)
      \<longleftrightarrow> (\<exists>l \<in> set store. lease_covers l subject sc t1)" for sc
    using assms(1) by (auto simp: lease_active_def lease_covers_def lease_is_active_def)
  then have "List.find (\<lambda>l. lease_covers l subject sc t1) (lease_active store t0) = None
      \<longleftrightarrow> \<not> active_for store subject sc t1" for sc
    by (auto simp: find_None_iff active_for_def find_covering_None)
  then have "(\<exists>l. List.find (\<lambda>l. lease_covers l subject sc t1) (lease_active store t0) = Some l)
      \<longleftrightarrow> active_for store subject sc t1" for sc
    by (metis not_None_eq)
  with assms(2) show ?thesis
    by (cases "lease_scope_for act")
      (simp_all add: lease_of_gate_def with_lease_snapshot_def covering_lease_id_def)
qed

theorem lease_snapshot_is_faithful_witness:
  "lease_of_gate (with_lease_snapshot [lease_new ''id'' ''peer'' Scope_ClusterTaskAccept 60 1000] ''peer'' 1001
     (gate_for_policy (ge_live_before sample_env))) ClusterTaskAccept 1059 \<noteq> None"
  using lease_snapshot_is_faithful [of 1001 1059 "''peer''"
      "[lease_new ''id'' ''peer'' Scope_ClusterTaskAccept 60 1000]"
      "gate_for_policy (ge_live_before sample_env)" ClusterTaskAccept]
  by (simp add: active_for_def find_covering_def lease_covers_def lease_is_active_def lease_new_def
      i64_saturating_add_def i64_min_def i64_max_def)

text \<open>
  A durable admission is granted only by the static policy or a live lease, which it
  names; terminal, channel and pre-confirmed answers never count. Every descriptor the gate
  returns is valid.
\<close>

theorem durable_admission_is_restart_safe:
  assumes "resolve_trust_admission dig fp g env act now op bind = Ok d"
  shows "descriptor_validate d = Ok () \<and> tad_action d = action_kind_of act \<and>
    (tad_outcome d = Allowed \<longleftrightarrow>
       is_allow (effective_decision_at g act (first_snapshot g env)) \<or>
       is_confirm (effective_decision_at g act (first_snapshot g env)) \<and> lease_of_gate g act now \<noteq> None) \<and>
    (is_confirm (effective_decision_at g act (first_snapshot g env)) \<longrightarrow>
       tad_lease_id d = lease_of_gate g act now)"
proof -
  obtain dec lid so where res: "resolve_durable_decision_at g act now (first_snapshot g env) = (dec, lid, so)"
    by (metis prod_cases3)
  have fg: "from_gate_resolution dig op act (aps_level (first_snapshot g env)) dec
      (map_option lc_subject (g_lease_ctx g)) lid so bind (fp (first_snapshot g env)) = Ok d"
    using assms res by (auto simp: resolve_trust_admission_def Let_def first_snapshot_def
        split: sum.splits)
  then have d: "descriptor_validate d = Ok ()" "tad_action d = action_kind_of act"
    "tad_outcome d = fst (evidence_outcome dig dec)" "tad_lease_id d = lid"
    by (auto simp: from_gate_resolution_def Let_def split: sum.splits)
  have "is_allow dec \<longleftrightarrow> is_allow (effective_decision_at g act (first_snapshot g env)) \<or>
       is_confirm (effective_decision_at g act (first_snapshot g env)) \<and> lease_of_gate g act now \<noteq> None"
    and "is_confirm (effective_decision_at g act (first_snapshot g env)) \<longrightarrow> lid = lease_of_gate g act now"
    using res by (cases "effective_decision_at g act (first_snapshot g env)";
        cases "lease_of_gate g act now"; auto simp: resolve_durable_decision_at_def)+
  with d show ?thesis by (simp add: evidence_outcome_fst)
qed

theorem durable_admission_is_restart_safe_witness:
  "\<exists>d. resolve_trust_admission (\<lambda>_. replicate 64 CHR ''a'') (\<lambda>_. replicate 64 CHR ''c'')
       (gate_for_policy (ge_live_before sample_env)) sample_env Read 5 (replicate 64 CHR ''a'')
       (replicate 64 CHR ''b'') = Ok d \<and> tad_outcome d = Allowed"
proof -
  let ?g = "gate_for_policy (ge_live_before sample_env)"
  let ?d = "sample_descriptor\<lparr>tad_action := K_Read, tad_autonomy_level := Standard\<rparr>"
  have v: "descriptor_validate ?d = Ok ()"
    using sample_descriptor_valid by (simp add: descriptor_validate_def)
  have "resolve_trust_admission (\<lambda>_. replicate 64 CHR ''a'') (\<lambda>_. replicate 64 CHR ''c'') ?g sample_env
      Read 5 (replicate 64 CHR ''a'') (replicate 64 CHR ''b'') = Ok ?d"
    using v by (simp add: resolve_trust_admission_def resolve_durable_decision_at_def
        effective_decision_at_def gate_for_policy_def current_policy_snapshot_def evaluate_snapshot_def
        sample_env_def Let_def from_gate_resolution_def empty_subject_evidence sample_descriptor_def
        trust_versions)
  from durable_admission_is_restart_safe [OF this] this show ?thesis
    by (auto simp: effective_decision_at_def gate_for_policy_def evaluate_snapshot_def
        first_snapshot_def current_policy_snapshot_def sample_env_def Let_def)
qed

text \<open>
  C19: the attended actions always reach a human: whatever policy, skill cap and leases are
  configured, the gate lets one of them through only after an explicit answer of the operator
  or for a request that was confirmed before.
\<close>

theorem attended_actions_need_an_answer:
  assumes "always_attended act" and "check_at_with_audit dig g env act sink now req bind log = (log', Ok ())"
  shows "g_preconfirmed g \<noteq> None \<or> operator_approves g env"
proof -
  let ?d = "fst (resolve_decision_at g env act now (first_snapshot g env))"
  have "decision_result ?d = Ok ()"
    using assms(2) by (auto simp: check_at_with_audit_def Let_def first_snapshot_def
        split: prod.splits if_splits sum.splits)
  then have "gate_lets_through g env act now"
    by (simp add: decision_result_Ok resolve_decision_allow)
  moreover have "\<not> is_allow (effective_decision_at g act s)" for s
    using attended_permits [OF assms(1)]
    by (auto simp: effective_decision_at_def simp flip: permits_iffs(1) split: option.splits)
  moreover have "lease_of_gate g act now = None"
    using lease_of_gate_leasable [of g act now] always_attended_unleasable [OF assms(1)]
    by (cases "lease_of_gate g act now") auto
  ultimately show ?thesis by (auto simp: gate_lets_through_def Let_def)
qed

theorem attended_actions_need_an_answer_witness:
  "operator_approves sample_gate sample_env"
proof -
  let ?p = "\<lparr>aps_level = Full, aps_overrides = [], aps_skill_overrides = []\<rparr>"
  let ?g = "sample_gate\<lparr>g_policy := ?p\<rparr>" and ?a = "SelfCronRegister ''j''"
  have "snd (check_at_with_audit (\<lambda>_. []) ?g sample_env ?a NoSink 5 False None []) = Ok ()"
    by (simp add: check_at_with_audit_def resolve_decision_at_def effective_decision_at_def
        sample_gate_def gate_for_policy_def with_channel_asker_def with_confirm_def
        current_policy_snapshot_def evaluate_snapshot_def sample_env_def Let_def lease_of_gate_def
        resolve_by_operator_def resolve_confirm_def)
  then have "check_at_with_audit (\<lambda>_. []) ?g sample_env ?a NoSink 5 False None []
      = (fst (check_at_with_audit (\<lambda>_. []) ?g sample_env ?a NoSink 5 False None []), Ok ())"
    by (simp add: prod_eq_iff)
  from attended_actions_need_an_answer [OF _ this] show ?thesis
    by (simp add: sample_gate_def gate_for_policy_def with_channel_asker_def with_confirm_def
        operator_approves_def)
qed

end
