(* ===== verification/Perm_Confirm.thy ===== *)
theory Perm_Confirm
  imports Perm_Gate
begin

text \<open>
  The confirmation handshake, \<open>src/SRC/neothd/src/permissions/confirm.rs\<close>, and the
  approval bus behind channel confirmations, \<open>permissions/confirm_bus.rs\<close>. The bus is
  shared by tasks: a request is cut at its suspension points and a reply between the removal
  from the map and the send, where a waiter may give up (the code holds the map's lock over
  both, so the steps below allow more orders than it does). The step relation runs the pieces
  of any number of waiters, replies and the drain task in any order. What a suspended piece
  cannot do yet is \<open>None\<close>.
\<close>

section \<open>The handshake\<close>

datatype confirm_mode = InteractiveTty | ChannelMode | DaemonOnly bool

datatype confirm_outcome = C_Approved | C_Denied | C_TimedOut

fun into_decision :: "confirm_outcome \<Rightarrow> reason \<Rightarrow> decision" where
  "into_decision C_Approved reason = Allow"
| "into_decision C_Denied reason = Deny (Lit ''operator denied: '' # reason)"
| "into_decision C_TimedOut reason = Deny (Lit ''confirm timed out: '' # reason)"

definition DEFAULT_CHANNEL_TIMEOUT :: nat where "DEFAULT_CHANNEL_TIMEOUT = 90"

text \<open>
  \<open>wizard\<close> tells whether the feature is compiled in; \<open>None\<close> is an error of the dialog.
\<close>

definition confirm_interactive :: "bool \<Rightarrow> bool option \<Rightarrow> confirm_outcome" where
  "confirm_interactive wizard answer =
     (if wizard then (case answer of Some True \<Rightarrow> C_Approved | Some False \<Rightarrow> C_Denied | None \<Rightarrow> C_Denied)
      else C_Denied)"

text \<open>The outer \<open>None\<close> is the elapsed timeout, the inner one the answer of the future.\<close>

definition confirm_channel :: "bool option option \<Rightarrow> confirm_outcome" where
  "confirm_channel ask = (case ask of
     Some (Some True) \<Rightarrow> C_Approved
   | Some (Some False) \<Rightarrow> C_Denied
   | Some None \<Rightarrow> C_Denied
   | None \<Rightarrow> C_TimedOut)"

definition confirm_daemon_only :: "bool \<Rightarrow> confirm_outcome" where
  "confirm_daemon_only best_effort = (if best_effort then C_Approved else C_Denied)"

definition confirm_resolve ::
    "decision \<Rightarrow> confirm_mode \<Rightarrow> bool \<Rightarrow> bool option \<Rightarrow> bool option option \<Rightarrow> decision" where
  "confirm_resolve d mode wizard answer ask =
     (case d of
        Confirm reason \<Rightarrow> into_decision (case mode of
            InteractiveTty \<Rightarrow> confirm_interactive wizard answer
          | ChannelMode \<Rightarrow> confirm_channel ask
          | DaemonOnly best_effort \<Rightarrow> confirm_daemon_only best_effort) reason
      | _ \<Rightarrow> d)"

lemma confirm_resolve_allow:
  "confirm_resolve d mode wizard answer ask = Allow \<longleftrightarrow> d = Allow \<or> is_confirm d \<and>
     (case mode of InteractiveTty \<Rightarrow> wizard \<and> answer = Some True
      | ChannelMode \<Rightarrow> ask = Some (Some True)
      | DaemonOnly best_effort \<Rightarrow> best_effort)"
  by (cases d) (auto simp: confirm_resolve_def confirm_interactive_def confirm_channel_def confirm_daemon_only_def
      split: confirm_mode.splits option.splits bool.splits)

section \<open>The approval bus\<close>

record confirm_request =
  cr_uuid :: string
  cr_description :: string
  cr_action_json :: string

text \<open>
  A task inside \<open>request_and_wait\<close>: registered and about to enqueue, waiting for its
  oneshot, returned, or dropped by its caller at one of its suspension points.
\<close>

datatype wait_phase = Registered confirm_request | Waiting | Returned "bool option" | Dropped

text \<open>
  \<open>cb_pending\<close> holds the uuids whose oneshot sender is still in the map,
  \<open>cb_sending\<close> the senders taken out by a reply that has not sent yet, and
  \<open>cb_sent\<close> the values lying in the oneshots.
\<close>

record confirm_bus =
  cb_queue :: "confirm_request list"
  cb_open :: bool
  cb_pending :: "string set"
  cb_sending :: "(string \<times> bool) list"
  cb_sent :: "string \<rightharpoonup> bool"
  cb_tasks :: "string \<rightharpoonup> wait_phase"

definition BUS_CAPACITY :: nat where "BUS_CAPACITY = 32"

definition bus_new :: confirm_bus where
  "bus_new = \<lparr>cb_queue = [], cb_open = True, cb_pending = {}, cb_sending = [], cb_sent = Map.empty,
     cb_tasks = Map.empty\<rparr>"

definition request_register :: "string \<Rightarrow> string \<Rightarrow> string \<Rightarrow> confirm_bus \<Rightarrow> confirm_bus" where
  "request_register uuid description json b = b\<lparr>
     cb_pending := insert uuid (cb_pending b),
     cb_tasks := (cb_tasks b)(uuid \<mapsto> Registered
       \<lparr>cr_uuid = uuid, cr_description = description, cr_action_json = json\<rparr>)\<rparr>"

definition request_enqueue :: "string \<Rightarrow> confirm_bus \<Rightarrow> confirm_bus option" where
  "request_enqueue uuid b =
     (case cb_tasks b uuid of
        Some (Registered req) \<Rightarrow>
          (if \<not> cb_open b then Some (b\<lparr>cb_tasks := (cb_tasks b)(uuid \<mapsto> Waiting)\<rparr>)
           else if length (cb_queue b) < BUS_CAPACITY
           then Some (b\<lparr>cb_queue := cb_queue b @ [req], cb_tasks := (cb_tasks b)(uuid \<mapsto> Waiting)\<rparr>)
           else None)
      | _ \<Rightarrow> None)"

text \<open>
  One poll of the timeout around the oneshot: the oneshot is polled before the deadline.
\<close>

definition request_poll :: "string \<Rightarrow> bool \<Rightarrow> confirm_bus \<Rightarrow> confirm_bus option" where
  "request_poll uuid deadline_passed b =
     (if cb_tasks b uuid = Some Waiting then
        (case cb_sent b uuid of
           Some v \<Rightarrow> Some (b\<lparr>cb_tasks := (cb_tasks b)(uuid \<mapsto> Returned (Some v))\<rparr>)
         | None \<Rightarrow>
             if deadline_passed
             then Some (b\<lparr>cb_pending := cb_pending b - {uuid},
                          cb_tasks := (cb_tasks b)(uuid \<mapsto> Returned None)\<rparr>)
             else None)
      else None)"

definition suspended :: "wait_phase option \<Rightarrow> bool" where
  "suspended t \<longleftrightarrow> (case t of Some (Registered _) \<Rightarrow> True | Some Waiting \<Rightarrow> True | _ \<Rightarrow> False)"

definition request_drop :: "string \<Rightarrow> confirm_bus \<Rightarrow> confirm_bus option" where
  "request_drop uuid b =
     (if suspended (cb_tasks b uuid) then Some (b\<lparr>cb_tasks := (cb_tasks b)(uuid \<mapsto> Dropped)\<rparr>) else None)"

definition submit_take :: "string \<Rightarrow> bool \<Rightarrow> confirm_bus \<Rightarrow> confirm_bus \<times> bool" where
  "submit_take uuid approved b =
     (if uuid \<in> cb_pending b
      then (b\<lparr>cb_pending := cb_pending b - {uuid}, cb_sending := (uuid, approved) # cb_sending b\<rparr>, True)
      else (b, False))"

definition submit_send :: "string \<Rightarrow> bool \<Rightarrow> confirm_bus \<Rightarrow> confirm_bus" where
  "submit_send uuid approved b = b\<lparr>
     cb_sending := remove1 (uuid, approved) (cb_sending b),
     cb_sent := (if suspended (cb_tasks b uuid) then (cb_sent b)(uuid \<mapsto> approved) else cb_sent b)\<rparr>"

definition submit_response :: "string \<Rightarrow> bool \<Rightarrow> confirm_bus \<Rightarrow> confirm_bus \<times> bool" where
  "submit_response uuid approved b =
     (case submit_take uuid approved b of
        (b, True) \<Rightarrow> (submit_send uuid approved b, True)
      | (b, False) \<Rightarrow> (b, False))"

definition pending_count :: "confirm_bus \<Rightarrow> nat" where
  "pending_count b = card (cb_pending b)"

definition drain_recv :: "confirm_bus \<Rightarrow> (confirm_request \<times> confirm_bus) option" where
  "drain_recv b = (case cb_queue b of [] \<Rightarrow> None | r # rs \<Rightarrow> Some (r, b\<lparr>cb_queue := rs\<rparr>))"

definition drain_exit :: "confirm_bus \<Rightarrow> confirm_bus" where
  "drain_exit b = b\<lparr>cb_queue := [], cb_open := False\<rparr>"

text \<open>
  \<open>BusAsker::ask\<close> under the gate's own timeout: a task that has not returned when the
  gate gives up is dropped.
\<close>

fun ask_reply :: "wait_phase \<Rightarrow> channel_reply" where
  "ask_reply (Returned (Some True)) = Approve"
| "ask_reply (Returned (Some False)) = Reject"
| "ask_reply (Returned None) = Unreachable"
| "ask_reply _ = TimedOut"

section \<open>Executions\<close>

text \<open>The replies made so far: uuid, verdict, and whether \<open>submit_response\<close> found a waiter.\<close>

type_synonym bus_state = "confirm_bus \<times> (string \<times> bool \<times> bool) list"

inductive bus_step :: "bus_state \<Rightarrow> bus_state \<Rightarrow> bool" where
  bs_register: "cb_tasks b u = None \<Longrightarrow> bus_step (b, h) (request_register u d j b, h)"
| bs_enqueue: "request_enqueue u b = Some b' \<Longrightarrow> bus_step (b, h) (b', h)"
| bs_poll: "request_poll u e b = Some b' \<Longrightarrow> bus_step (b, h) (b', h)"
| bs_drop: "request_drop u b = Some b' \<Longrightarrow> bus_step (b, h) (b', h)"
| bs_take: "submit_take u v b = (b', found) \<Longrightarrow> bus_step (b, h) (b', (u, v, found) # h)"
| bs_send: "(u, v) \<in> set (cb_sending b) \<Longrightarrow> bus_step (b, h) (submit_send u v b, h)"
| bs_recv: "drain_recv b = Some (r, b') \<Longrightarrow> bus_step (b, h) (b', h)"
| bs_exit: "bus_step (b, h) (drain_exit b, h)"

definition bus_init :: "bus_state \<Rightarrow> bool" where
  "bus_init y \<longleftrightarrow> y = (bus_new, [])"

definition accepted :: "(string \<times> bool \<times> bool) list \<Rightarrow> string list" where
  "accepted h = map fst (filter (\<lambda>x. snd (snd x)) h)"

definition bus_inv :: "bus_state \<Rightarrow> bool" where
  "bus_inv y \<longleftrightarrow> (case y of (b, h) \<Rightarrow>
     distinct (accepted h) \<and> length (cb_queue b) \<le> BUS_CAPACITY
     \<and> (\<forall>u \<in> cb_pending b. u \<notin> set (accepted h) \<and> cb_tasks b u \<noteq> None \<and> (\<nexists>r. cb_tasks b u = Some (Returned r)))
     \<and> (\<forall>u \<in> set (accepted h). cb_tasks b u \<noteq> None)
     \<and> (\<forall>(u, v) \<in> set (cb_sending b). (u, v, True) \<in> set h)
     \<and> (\<forall>u v. cb_sent b u = Some v \<longrightarrow> (u, v, True) \<in> set h)
     \<and> (\<forall>u v. cb_tasks b u = Some (Returned (Some v)) \<longrightarrow> (u, v, True) \<in> set h))"

lemma accepted_simps [simp]:
  "accepted [] = []"
  "accepted ((u, v, f) # h) = (if f then u # accepted h else accepted h)"
  by (simp_all add: accepted_def)

lemma accepted_mem: "(u, v, True) \<in> set h \<Longrightarrow> u \<in> set (accepted h)"
  by (force simp: accepted_def)

lemma distinct_count_one: "distinct xs \<Longrightarrow> x \<in> set xs \<Longrightarrow> count_list xs x = 1"
  by (induction xs) (auto simp: count_list_0_iff)

lemma accepted_unique:
  assumes "distinct (accepted h)" "(u, v, True) \<in> set h" "(u, w, True) \<in> set h"
  shows "v = w"
  using assms
proof (induction h)
  case (Cons x h)
  then show ?case by (cases x) (auto split: if_splits dest: accepted_mem)
qed simp

lemma bus_inv_step:
  assumes "bus_inv y" "bus_step y z"
  shows "bus_inv z"
  using assms(2,1)
proof cases
  case (bs_register b u h d j)
  then show ?thesis using assms(1) by (fastforce simp: bus_inv_def request_register_def)
next
  case (bs_enqueue u b b' h)
  then show ?thesis using assms(1)
    by (auto simp: bus_inv_def request_enqueue_def split: option.splits wait_phase.splits if_splits)
next
  case (bs_poll u e b b' h)
  show ?thesis
  proof (cases "cb_sent b u")
    case None
    then show ?thesis using assms(1) bs_poll by (auto simp: bus_inv_def request_poll_def split: if_splits)
  next
    case (Some v)
    then have h: "(u, v, True) \<in> set h" using assms(1) bs_poll by (simp add: bus_inv_def)
    then have "u \<notin> cb_pending b"
      using accepted_mem [OF h] assms(1) bs_poll by (auto simp: bus_inv_def)
    with h show ?thesis using assms(1) bs_poll Some by (auto simp: bus_inv_def request_poll_def split: if_splits)
  qed
next
  case (bs_drop u b b' h)
  then show ?thesis using assms(1)
    by (auto simp: bus_inv_def request_drop_def split: if_splits)
next
  case (bs_take u v b b' found h)
  then show ?thesis using assms(1) by (auto simp: bus_inv_def submit_take_def split: if_splits)
next
  case (bs_send u v b h)
  then show ?thesis using assms(1)
    by (auto simp: bus_inv_def submit_send_def dest: set_mp [OF set_remove1_subset])
next
  case (bs_recv b r b' h)
  then show ?thesis using assms(1) by (auto simp: bus_inv_def drain_recv_def split: list.splits)
next
  case (bs_exit b h)
  then show ?thesis using assms(1) by (simp add: bus_inv_def drain_exit_def)
qed

interpretation bus: invariant_system bus_init bus_step bus_inv
proof unfold_locales
  show "bus_inv y" if "bus_init y" for y using that by (simp add: bus_init_def bus_new_def bus_inv_def)
qed (rule bus_inv_step)

section \<open>Properties\<close>

text \<open>
  C24: a channel confirmation lets an action through only on the operator's word. In every
  interleaving of waiters, replies and the drain task, when the gate resolves a question to
  allowed through the bus, a positive reply carrying the uuid of that question was accepted,
  and it is the only reply accepted for the uuid. Timeouts, drops, negative, duplicate and
  late replies never allow.
\<close>

theorem channel_approval_is_the_accepted_reply:
  assumes "reachable bus_init bus_step (b, h)"
    and "cb_tasks b u = Some phase" and "g_confirm g = Channel" and "ge_channel env = ask_reply phase"
    and "is_allow (resolve_confirm g env reason)"
  shows "(u, True, True) \<in> set h \<and> (\<forall>v. (u, v, True) \<in> set h \<longrightarrow> v) \<and> count_list (accepted h) u = 1"
proof -
  have inv: "bus_inv (b, h)" by (rule bus.reachable_inv [OF assms(1)])
  have "ask_reply phase = Approve"
    using assms(3-5) by (auto simp: resolve_confirm_def split: if_splits channel_reply.splits)
  then have "phase = Returned (Some True)" by (cases phase rule: ask_reply.cases) auto
  then have yes: "(u, True, True) \<in> set h" using inv assms(2) by (simp add: bus_inv_def)
  have d: "distinct (accepted h)" using inv by (simp add: bus_inv_def)
  have "v" if "(u, v, True) \<in> set h" for v using accepted_unique [OF d that yes] by simp
  moreover have "count_list (accepted h) u = 1"
    using d accepted_mem [OF yes] by (rule distinct_count_one)
  ultimately show ?thesis using yes by blast
qed

text \<open>
  No waiter hangs for lack of an answer. From every reachable state a suspended task
  returns after its deadline has passed, with at most one request received by the drain
  task in between (needed only when the queue is full).
\<close>

theorem waiter_can_finish:
  assumes "reachable bus_init bus_step (b, h)" and "suspended (cb_tasks b u)"
  shows "\<exists>b' r. bus_step\<^sup>*\<^sup>* (b, h) (b', h) \<and> cb_tasks b' u = Some (Returned r)"
proof -
  have fin: "\<exists>b' r. bus_step\<^sup>*\<^sup>* (c, h) (b', h) \<and> cb_tasks b' u = Some (Returned r)"
    if "cb_tasks c u = Some Waiting" for c
  proof -
    have "request_poll u True c \<noteq> None" using that by (simp add: request_poll_def split: option.split)
    then obtain c' where c': "request_poll u True c = Some c'" by blast
    then have "\<exists>r. cb_tasks c' u = Some (Returned r)"
      by (auto simp: request_poll_def split: option.splits if_splits)
    with c' show ?thesis using bs_poll by blast
  qed
  have enq: "\<exists>b' r. bus_step\<^sup>*\<^sup>* (c, h) (b', h) \<and> cb_tasks b' u = Some (Returned r)"
    if "cb_tasks c u = Some (Registered q)" "\<not> cb_open c \<or> length (cb_queue c) < BUS_CAPACITY" for c q
  proof -
    have "request_enqueue u c \<noteq> None" using that by (auto simp: request_enqueue_def)
    then obtain c' where c': "request_enqueue u c = Some c'" by blast
    then have "cb_tasks c' u = Some Waiting"
      using that by (auto simp: request_enqueue_def split: if_splits)
    with c' show ?thesis using bs_enqueue fin converse_rtranclp_into_rtranclp by meson
  qed
  show ?thesis
  proof (cases "cb_tasks b u = Some Waiting")
    case False
    then obtain q where q: "cb_tasks b u = Some (Registered q)"
      using assms(2) by (auto simp: suspended_def split: option.splits wait_phase.splits)
    show ?thesis
    proof (cases "\<not> cb_open b \<or> length (cb_queue b) < BUS_CAPACITY")
      case False
      then obtain r rs where "cb_queue b = r # rs" by (cases "cb_queue b") (auto simp: BUS_CAPACITY_def)
      then have "drain_recv b = Some (r, b\<lparr>cb_queue := rs\<rparr>)" by (simp add: drain_recv_def)
      then have step: "bus_step (b, h) (b\<lparr>cb_queue := rs\<rparr>, h)" by (rule bs_recv)
      have "length (cb_queue b) \<le> BUS_CAPACITY"
        using bus.reachable_inv [OF assms(1)] by (simp add: bus_inv_def)
      then have "length (cb_queue (b\<lparr>cb_queue := rs\<rparr>)) < BUS_CAPACITY" using \<open>cb_queue b = r # rs\<close> by simp
      with enq [of "b\<lparr>cb_queue := rs\<rparr>" q] q step show ?thesis
        by (auto intro: converse_rtranclp_into_rtranclp)
    qed (use enq q in blast)
  qed (use fin in blast)
qed

lemma dropped_step:
  assumes "bus_step (b, h) (b', h')" and "cb_tasks b u = Some Dropped"
  shows "cb_tasks b' u = Some Dropped \<and> set h \<subseteq> set h'
    \<and> (u \<in> cb_pending b \<longrightarrow> u \<in> cb_pending b' \<or> (\<exists>v. (u, v, True) \<in> set h'))"
  using assms(1)
proof cases
  case (bs_enqueue w)
  then show ?thesis using assms(2)
    by (cases "cb_tasks b w") (auto simp: request_enqueue_def split: wait_phase.splits if_splits)
qed (use assms(2) in \<open>auto simp: request_register_def request_poll_def request_drop_def suspended_def
    submit_take_def submit_send_def drain_recv_def drain_exit_def
    split: option.splits if_splits list.splits\<close>)

text \<open>A waiting task has its entry in the map until a reply takes it.\<close>

definition bus_waits :: "bus_state \<Rightarrow> bool" where
  "bus_waits y \<longleftrightarrow> (case y of (b, h) \<Rightarrow> \<forall>u. suspended (cb_tasks b u) \<longrightarrow> u \<in> cb_pending b \<or> u \<in> set (accepted h))"

lemma suspended_simps:
  "\<not> suspended None" "suspended (Some (Registered q))" "suspended (Some Waiting)" "\<not> suspended (Some (Returned r))"
  "\<not> suspended (Some Dropped)"
  by (simp_all add: suspended_def)

lemma bus_waits_step:
  assumes "bus_waits y" "bus_step y z"
  shows "bus_waits z"
  using assms(2,1)
proof cases
  case (bs_enqueue u b b' h)
  obtain q where q: "cb_tasks b u = Some (Registered q)"
    using bs_enqueue by (auto simp: request_enqueue_def split: option.splits wait_phase.splits)
  then have "u \<in> cb_pending b \<or> u \<in> set (accepted h)"
    using assms(1) bs_enqueue suspended_simps(2) [of q] by (simp add: bus_waits_def)
  with q show ?thesis using assms(1) bs_enqueue by (auto simp: bus_waits_def request_enqueue_def split: if_splits)
qed (use assms(1) in \<open>auto simp: bus_waits_def suspended_simps request_register_def request_poll_def request_drop_def
    submit_take_def submit_send_def drain_recv_def drain_exit_def split: option.splits if_splits list.splits\<close>)

interpretation waits: invariant_system bus_init bus_step bus_waits
proof unfold_locales
  show "bus_waits y" if "bus_init y" for y using that by (simp add: bus_init_def bus_new_def bus_waits_def suspended_def)
qed (rule bus_waits_step)

text \<open>
  C25: a dropped wait is never cleaned up. When the gate's own timeout drops a suspended task whose question
  no reply has answered, the drop leaves the entry of its uuid in the map of pending
  approvals, and the entry stays there whatever else happens until a reply for that uuid comes, which
  \<open>submit_response\<close> then reports as delivered although nobody waits.
\<close>

theorem dropped_wait_is_never_cleaned_up:
  assumes "reachable bus_init bus_step (b, h)" "u \<notin> set (accepted h)" "request_drop u b = Some b1"
    and "bus_step\<^sup>*\<^sup>* (b1, h) (b', h')"
  shows "u \<in> set (accepted h') \<or> u \<in> cb_pending b' \<and> (\<forall>v. snd (submit_response u v b'))"
proof -
  have b1: "cb_tasks b1 u = Some Dropped" "u \<in> cb_pending b1"
    using waits.reachable_inv [OF assms(1)] assms(2,3) by (auto simp: request_drop_def bus_waits_def split: if_splits)
  have "cb_tasks b' u = Some Dropped \<and> (u \<in> cb_pending b' \<or> (\<exists>v. (u, v, True) \<in> set h'))"
    using assms(4) b1
  proof (induction rule: rtranclp_induct2)
    case (step c k d l)
    then show ?case using dropped_step [of c k d l u] by blast
  qed simp
  then show ?thesis by (auto simp: submit_response_def submit_take_def dest: accepted_mem)
qed

definition bus_question :: confirm_bus where
  "bus_question = the (request_enqueue ''u'' (request_register ''u'' ''send'' ''{}'' bus_new))"

definition bus_answered :: confirm_bus where
  "bus_answered = the (request_poll ''u'' False (fst (submit_response ''u'' True bus_question)))"

lemma bus_question_reachable: "reachable bus_init bus_step (bus_question, [])"
  and bus_answered_reachable: "reachable bus_init bus_step (bus_answered, [(''u'', True, True)])"
proof -
  have 0: "reachable bus_init bus_step (bus_new, [])" by (rule reachable_init) (simp add: bus_init_def)
  have 1: "reachable bus_init bus_step (request_register ''u'' ''send'' ''{}'' bus_new, [])"
    by (rule reachable_step [OF 0], rule bs_register) (simp add: bus_new_def)
  have "request_enqueue ''u'' (request_register ''u'' ''send'' ''{}'' bus_new) = Some bus_question"
    by (simp add: bus_question_def request_enqueue_def request_register_def bus_new_def BUS_CAPACITY_def)
  then show 2: "reachable bus_init bus_step (bus_question, [])" using reachable_step [OF 1 bs_enqueue] by blast
  let ?t = "fst (submit_take ''u'' True bus_question)"
  have t: "submit_take ''u'' True bus_question = (?t, True)"
    by (simp add: submit_take_def bus_question_def request_enqueue_def request_register_def bus_new_def BUS_CAPACITY_def)
  then have 3: "reachable bus_init bus_step (?t, [(''u'', True, True)])"
    using reachable_step [OF 2 bs_take] by blast
  have "(''u'', True) \<in> set (cb_sending ?t)" using t by (auto simp: submit_take_def split: if_splits)
  then have 4: "reachable bus_init bus_step (submit_send ''u'' True ?t, [(''u'', True, True)])"
    using reachable_step [OF 3 bs_send] by blast
  have "request_poll ''u'' False (submit_send ''u'' True ?t) = Some bus_answered"
    by (simp add: bus_answered_def submit_response_def submit_take_def submit_send_def request_poll_def suspended_def
        bus_question_def request_enqueue_def request_register_def bus_new_def BUS_CAPACITY_def)
  then show "reachable bus_init bus_step (bus_answered, [(''u'', True, True)])"
    using reachable_step [OF 4 bs_poll] by blast
qed

theorem dropped_wait_is_never_cleaned_up_witness:
  "''u'' \<in> cb_pending (drain_exit (the (request_drop ''u'' bus_question)))
   \<and> snd (submit_response ''u'' True (drain_exit (the (request_drop ''u'' bus_question))))"
proof -
  let ?b = "the (request_drop ''u'' bus_question)"
  have d: "request_drop ''u'' bus_question = Some ?b"
    by (simp add: bus_question_def request_drop_def request_enqueue_def request_register_def suspended_def
        bus_new_def BUS_CAPACITY_def)
  have "bus_step\<^sup>*\<^sup>* (?b, []) (drain_exit ?b, [])" using bs_exit by blast
  from dropped_wait_is_never_cleaned_up [OF bus_question_reachable _ d this] show ?thesis by simp
qed

theorem channel_approval_is_the_accepted_reply_witness:
  "(''u'', True, True) \<in> set [(''u'', True, True)] \<and> is_allow (resolve_confirm sample_gate sample_env [])
     \<and> cb_tasks bus_answered ''u'' = Some (Returned (Some True))"
proof -
  have t: "cb_tasks bus_answered ''u'' = Some (Returned (Some True))"
    by (simp add: bus_answered_def submit_response_def submit_take_def submit_send_def request_poll_def suspended_def
        bus_question_def request_enqueue_def request_register_def bus_new_def BUS_CAPACITY_def)
  have "g_confirm sample_gate = Channel" "ge_channel sample_env = ask_reply (Returned (Some True))"
    "is_allow (resolve_confirm sample_gate sample_env [])"
    by (simp_all add: sample_gate_def sample_env_def with_channel_asker_def with_confirm_def resolve_confirm_def Let_def)
  with channel_approval_is_the_accepted_reply [OF bus_answered_reachable t] t show ?thesis by blast
qed

theorem waiter_can_finish_witness:
  "\<exists>b' r. bus_step\<^sup>*\<^sup>* (bus_question, []) (b', []) \<and> cb_tasks b' ''u'' = Some (Returned r)"
  by (rule waiter_can_finish [OF bus_question_reachable])
    (simp add: bus_question_def request_enqueue_def request_register_def suspended_def bus_new_def BUS_CAPACITY_def)

end
