(* ===== verification/Perm_Tier.thy ===== *)
theory Perm_Tier
  imports Neoth_Prelude
begin

text \<open>
  The approval tiers of tool calls, \<open>src/SRC/neothd/src/permissions/tier_classifier.rs\<close>:
  the classifier from a tool name to a tier and the matrix from a tier and an autonomy level
  to a decision.
\<close>

datatype approval_tier = ReadonlyScoped | ReadonlySearch | Mutating | ExecCapable | ControlPlane
  | Interactive | UnknownTier

fun tier_as_str :: "approval_tier \<Rightarrow> string" where
  "tier_as_str ReadonlyScoped = ''readonly_scoped''"
| "tier_as_str ReadonlySearch = ''readonly_search''"
| "tier_as_str Mutating = ''mutating''"
| "tier_as_str ExecCapable = ''exec_capable''"
| "tier_as_str ControlPlane = ''control_plane''"
| "tier_as_str Interactive = ''interactive''"
| "tier_as_str UnknownTier = ''unknown''"

datatype autonomy_for_tier = T_Strict | T_Standard | T_Elevated | T_Full

fun autonomy_for_tier_as_str :: "autonomy_for_tier \<Rightarrow> string" where
  "autonomy_for_tier_as_str T_Strict = ''strict''"
| "autonomy_for_tier_as_str T_Standard = ''standard''"
| "autonomy_for_tier_as_str T_Elevated = ''elevated''"
| "autonomy_for_tier_as_str T_Full = ''full''"

datatype tier_decision = AutoApprove | Prompt

definition auto_approve_decision :: "approval_tier \<Rightarrow> autonomy_for_tier \<Rightarrow> tier_decision" where
  "auto_approve_decision tier autonomy =
     (if tier \<in> {ControlPlane, Interactive, UnknownTier} then Prompt
      else case autonomy of
             T_Strict \<Rightarrow> Prompt
           | T_Standard \<Rightarrow> if tier \<in> {ReadonlyScoped, ReadonlySearch} then AutoApprove else Prompt
           | T_Elevated \<Rightarrow> if tier \<in> {ReadonlyScoped, ReadonlySearch, Mutating} then AutoApprove else Prompt
           | T_Full \<Rightarrow> AutoApprove)"

text \<open>\<open>split_once('.')\<close>; a dot is never part of a longer UTF-8 sequence.\<close>

definition split_once_dot :: "string \<Rightarrow> (string \<times> string) option" where
  "split_once_dot s = (if CHR ''.'' \<in> set s
     then Some (takeWhile (\<lambda>c. c \<noteq> CHR ''.'') s, tl (dropWhile (\<lambda>c. c \<noteq> CHR ''.'') s)) else None)"

definition classify_tool :: "string \<Rightarrow> approval_tier" where
  "classify_tool tool_name =
     (let name = trim tool_name
      in if name = [] then UnknownTier
         else let (verb, target) = (case split_once_dot name of Some vt \<Rightarrow> vt | None \<Rightarrow> (name, []))
              in if verb \<in> {''send'', ''notify'', ''invite'', ''post'', ''reply''} then Interactive
                 else if verb \<in> {''config'', ''enable'', ''disable'', ''schedule'', ''revoke'', ''grant'',
                                 ''set_autonomy''} then ControlPlane
                 else if starts_with name ''permissions.'' then ControlPlane
                 else if verb \<in> {''exec'', ''shell'', ''run'', ''spawn'', ''bash''} then ExecCapable
                 else if verb \<in> {''write'', ''edit'', ''create'', ''save'', ''mark'', ''delete'', ''import'',
                                 ''store''} then Mutating
                 else if verb \<in> {''search'', ''grep'', ''scan'', ''fetch''} then
                   (if target = ''memory'' \<or> target = ''kanban'' \<or> target = ''audit'' then ReadonlyScoped
                    else ReadonlySearch)
                 else if verb \<in> {''read'', ''list'', ''recall'', ''status'', ''show'', ''find'', ''describe''}
                 then ReadonlyScoped
                 else UnknownTier)"

definition classify_and_decide :: "string \<Rightarrow> autonomy_for_tier \<Rightarrow> approval_tier \<times> tier_decision" where
  "classify_and_decide tool_name autonomy =
     (let tier = classify_tool tool_name; decision = auto_approve_decision tier autonomy in (tier, decision))"

section \<open>The matrix\<close>

fun tier_autonomy_rank :: "autonomy_for_tier \<Rightarrow> nat" where
  "tier_autonomy_rank T_Strict = 0"
| "tier_autonomy_rank T_Standard = 1"
| "tier_autonomy_rank T_Elevated = 2"
| "tier_autonomy_rank T_Full = 3"

text \<open>The least autonomy at which a tier runs without a prompt.\<close>

fun tier_threshold :: "approval_tier \<Rightarrow> nat option" where
  "tier_threshold ReadonlyScoped = Some 1"
| "tier_threshold ReadonlySearch = Some 1"
| "tier_threshold Mutating = Some 2"
| "tier_threshold ExecCapable = Some 3"
| "tier_threshold _ = None"

lemma auto_approve_threshold:
  "auto_approve_decision tier a = AutoApprove \<longleftrightarrow> (\<exists>n. tier_threshold tier = Some n \<and> n \<le> tier_autonomy_rank a)"
  by (cases tier; cases a) (simp_all add: auto_approve_decision_def)

lemma raising_autonomy_keeps_approval:
  assumes "snd (classify_and_decide t a) = AutoApprove" and "tier_autonomy_rank a \<le> tier_autonomy_rank b"
  shows "snd (classify_and_decide t b) = AutoApprove"
  using assms by (auto simp: classify_and_decide_def Let_def auto_approve_threshold)

lemma split_once_dot_Some:
  "split_once_dot s = Some (v, t) \<longleftrightarrow> s = v @ CHR ''.'' # t \<and> CHR ''.'' \<notin> set v"
proof
  assume "split_once_dot s = Some (v, t)"
  then have d: "CHR ''.'' \<in> set s" and v: "v = takeWhile (\<lambda>c. c \<noteq> CHR ''.'') s"
    and t: "t = tl (dropWhile (\<lambda>c. c \<noteq> CHR ''.'') s)" by (auto simp: split_once_dot_def split: if_splits)
  have "dropWhile (\<lambda>c. c \<noteq> CHR ''.'') s \<noteq> []" using d by (auto simp: dropWhile_eq_Nil_conv)
  then obtain c cs where cs: "dropWhile (\<lambda>c. c \<noteq> CHR ''.'') s = c # cs" by (cases "dropWhile (\<lambda>c. c \<noteq> CHR ''.'') s") auto
  then have "c = CHR ''.''" using hd_dropWhile [of "\<lambda>c. c \<noteq> CHR ''.''" s] d by auto
  then have "dropWhile (\<lambda>c. c \<noteq> CHR ''.'') s = CHR ''.'' # t" using cs t by simp
  then show "s = v @ CHR ''.'' # t \<and> CHR ''.'' \<notin> set v"
    using takeWhile_dropWhile_id [of "\<lambda>c. c \<noteq> CHR ''.''" s] v by (auto dest: set_takeWhileD)
next
  assume "s = v @ CHR ''.'' # t \<and> CHR ''.'' \<notin> set v"
  then show "split_once_dot s = Some (v, t)"
    by (auto simp: split_once_dot_def takeWhile_append dropWhile_append)
qed

text \<open>
  Permission tools and unrecognised tools always prompt. No autonomy level auto-approves
  a tool of the \<open>permissions\<close> family, a tool with an interactive or control-plane verb, or a
  tool whose verb is on none of the lists, whatever target follows the dot.
\<close>

theorem control_plane_always_prompts:
  assumes "trim tool = v @ CHR ''.'' # t" and "CHR ''.'' \<notin> set v"
    and "v \<notin> {''exec'', ''shell'', ''run'', ''spawn'', ''bash'', ''write'', ''edit'', ''create'', ''save'',
      ''mark'', ''delete'', ''import'', ''store'', ''search'', ''grep'', ''scan'', ''fetch'', ''read'', ''list'',
      ''recall'', ''status'', ''show'', ''find'', ''describe''}"
  shows "snd (classify_and_decide tool a) = Prompt"
proof -
  have "split_once_dot (trim tool) = Some (v, t)" using assms by (simp add: split_once_dot_Some)
  then have "classify_tool tool \<in> {ControlPlane, Interactive, UnknownTier}"
    using assms(3) unfolding classify_tool_def Let_def by (auto simp: assms(1))
  then show ?thesis by (auto simp: classify_and_decide_def Let_def auto_approve_decision_def)
qed

theorem control_plane_always_prompts_witness:
  "snd (classify_and_decide ''permissions.list'' T_Full) = Prompt"
proof -
  have "trim ''permissions.list'' = ''permissions.list''"
    by (rule printable_ascii) (simp add: code_of_def)
  then have "trim ''permissions.list'' = ''permissions'' @ CHR ''.'' # ''list''" by (simp only: append.simps)
  then show ?thesis by (rule control_plane_always_prompts) simp_all
qed

end
