(* ===== verification/Perm_Ifc.thy ===== *)
theory Perm_Ifc
  imports Perm_Policy
begin

text \<open>
  The information-flow kernel, \<open>src/SRC/neothd/src/permissions/ifc.rs\<close>: sensitivity
  labels as a linear order, normalised source-label sets, the clearance of every action
  kind, the no-write-down rule, and the single-use release of one research topic. The
  parameter \<open>dg\<close> stands for the hexadecimal SHA-256 of a topic. The atomic state of a
  release is a value that \<open>arm\<close> and \<open>consume\<close> exchange; a concurrent execution is an
  interleaving of these two operations.
\<close>

section \<open>Labels\<close>

datatype information_label = L_Public | L_Internal | L_Confidential | L_Secret

fun label_as_str :: "information_label \<Rightarrow> string" where
  "label_as_str L_Public = ''public''"
| "label_as_str L_Internal = ''internal''"
| "label_as_str L_Confidential = ''confidential''"
| "label_as_str L_Secret = ''secret''"

fun label_rank :: "information_label \<Rightarrow> nat" where
  "label_rank L_Public = 0"
| "label_rank L_Internal = 1"
| "label_rank L_Confidential = 2"
| "label_rank L_Secret = 3"

lemma label_rank_inj: "label_rank a = label_rank b \<longleftrightarrow> a = b"
  by (cases a; cases b) simp_all

instantiation information_label :: linorder
begin

definition less_eq_information_label :: "information_label \<Rightarrow> information_label \<Rightarrow> bool" where
  "a \<le> b \<longleftrightarrow> label_rank a \<le> label_rank b"

definition less_information_label :: "information_label \<Rightarrow> information_label \<Rightarrow> bool" where
  "a < b \<longleftrightarrow> label_rank a < label_rank b"

instance
  by standard (auto simp: less_eq_information_label_def less_information_label_def label_rank_inj)

end

datatype source_labels_error = SL_Empty | SL_UnknownLabel

definition trim_ascii_ws :: "string \<Rightarrow> string" where
  "trim_ascii_ws s = rev (dropWhile is_ascii_whitespace (rev (dropWhile is_ascii_whitespace s)))"

definition parse_normalized :: "string \<Rightarrow> source_labels_error + information_label" where
  "parse_normalized input =
     (let normalized = to_ascii_lowercase (trim_ascii_ws input)
      in if normalized = ''public'' then Ok L_Public
         else if normalized = ''internal'' then Ok L_Internal
         else if normalized = ''confidential'' then Ok L_Confidential
         else if normalized = ''secret'' then Ok L_Secret
         else Err SL_UnknownLabel)"

section \<open>Source labels\<close>

record source_labels =
  sl_labels :: "information_label list"
  sl_highest :: information_label

text \<open>Collecting into a \<open>BTreeSet\<close> sorts and removes duplicates.\<close>

definition from_labels :: "information_label list \<Rightarrow> source_labels_error + source_labels" where
  "from_labels ls =
     (let labels = sort (remdups ls)
      in if labels = [] then Err SL_Empty else Ok \<lparr>sl_labels = labels, sl_highest = last labels\<rparr>)"

fun parse_all :: "string list \<Rightarrow> source_labels_error + information_label list" where
  "parse_all [] = Ok []"
| "parse_all (n # ns) =
     (case parse_normalized n of
        Inl e \<Rightarrow> Err e
      | Inr l \<Rightarrow> (case parse_all ns of Inl e \<Rightarrow> Err e | Inr ls \<Rightarrow> Ok (l # ls)))"

definition from_names :: "string list \<Rightarrow> source_labels_error + source_labels" where
  "from_names names = (case parse_all names of Inl e \<Rightarrow> Err e | Inr ls \<Rightarrow> from_labels ls)"

section \<open>No write-down\<close>

record information_flow_denied =
  ifd_source :: information_label
  ifd_destination_clearance :: information_label

fun clearance_for_action :: "action_kind \<Rightarrow> information_label" where
  "clearance_for_action K_Read = L_Secret"
| "clearance_for_action K_WriteNeothHome = L_Secret"
| "clearance_for_action K_WriteOutsideHome = L_Public"
| "clearance_for_action K_ExecScripts = L_Public"
| "clearance_for_action K_ExecArbitrary = L_Public"
| "clearance_for_action K_PaidProviderCall = L_Public"
| "clearance_for_action K_UnboundedPaidProviderCall = L_Public"
| "clearance_for_action K_ExternalTtsSynthesis = L_Public"
| "clearance_for_action K_ExternalHttpRequest = L_Public"
| "clearance_for_action K_ChannelSend = L_Public"
| "clearance_for_action K_DangerousTarget = L_Public"
| "clearance_for_action K_McpToolInvocation = L_Public"
| "clearance_for_action K_PatchApplyToRepo = L_Public"
| "clearance_for_action K_ClusterPeerPairing = L_Public"
| "clearance_for_action K_SelfBinaryReplace = L_Secret"
| "clearance_for_action K_ProactiveChannelSend = L_Public"
| "clearance_for_action K_OsFileRead = L_Secret"
| "clearance_for_action K_OsDirectoryList = L_Secret"
| "clearance_for_action K_OsFileWrite = L_Public"
| "clearance_for_action K_OsAppLaunch = L_Public"
| "clearance_for_action K_OsClipboardRead = L_Secret"
| "clearance_for_action K_OsClipboardWrite = L_Public"
| "clearance_for_action K_ClusterTaskAccept = L_Public"
| "clearance_for_action K_ExternalTaskWrite = L_Public"
| "clearance_for_action K_SelfSkillToggle = L_Secret"
| "clearance_for_action K_SelfCronRegister = L_Secret"
| "clearance_for_action K_SelfSourceEdit = L_Public"
| "clearance_for_action K_ObsidianPreloadWrite = L_Public"

definition enforce_no_write_down ::
    "source_labels \<Rightarrow> information_label \<Rightarrow> information_flow_denied + unit" where
  "enforce_no_write_down sources clearance =
     (if sl_highest sources \<le> clearance then Ok ()
      else Err \<lparr>ifd_source = sl_highest sources, ifd_destination_clearance = clearance\<rparr>)"

definition may_flow_to_action :: "source_labels \<Rightarrow> action_kind \<Rightarrow> information_flow_denied + unit" where
  "may_flow_to_action sources k = enforce_no_write_down sources (clearance_for_action k)"

section \<open>The single-use research release\<close>

definition RELEASE_FRESH :: u8 where "RELEASE_FRESH = 0"
definition RELEASE_ARMED :: u8 where "RELEASE_ARMED = 1"
definition RELEASE_SPENT :: u8 where "RELEASE_SPENT = 2"

record released_research =
  rr_sources :: source_labels
  rr_release_id :: string
  rr_topic_sha256 :: string
  rr_execution_state :: u8

datatype egress_provenance = LegacyUnscoped | OperatorReleasedChannelResearch released_research

datatype binding_error = NotOperatorReleased | TopicMismatch | AlreadyUsed | RequestMismatch

definition execution_state_label :: "u8 \<Rightarrow> string" where
  "execution_state_label st =
     (if st = RELEASE_FRESH then ''fresh'' else if st = RELEASE_ARMED then ''armed''
      else if st = RELEASE_SPENT then ''spent'' else ''invalid'')"

text \<open>
  \<open>for_pinned_operator_exact_topic\<close> with a fresh UUID, followed by
  \<open>into_egress_provenance\<close>, whose \<open>expect\<close> cannot fail.
\<close>

record external_research_release =
  xr_release_id :: string
  xr_topic_sha256 :: string

definition for_pinned_operator_exact_topic :: "(string \<Rightarrow> string) \<Rightarrow> string \<Rightarrow> string \<Rightarrow> external_research_release" where
  "for_pinned_operator_exact_topic dg uuid topic = \<lparr>xr_release_id = uuid, xr_topic_sha256 = dg topic\<rparr>"

definition into_egress_provenance :: "external_research_release \<Rightarrow> egress_provenance option" where
  "into_egress_provenance r =
     (case from_labels [L_Public] of
        Inl _ \<Rightarrow> None
      | Inr sources \<Rightarrow> Some (OperatorReleasedChannelResearch
          \<lparr>rr_sources = sources, rr_release_id = xr_release_id r, rr_topic_sha256 = xr_topic_sha256 r,
            rr_execution_state = RELEASE_FRESH\<rparr>))"

fun egress_sources :: "egress_provenance \<Rightarrow> source_labels option" where
  "egress_sources LegacyUnscoped = None"
| "egress_sources (OperatorReleasedChannelResearch p) = Some (rr_sources p)"

fun binding_material :: "egress_provenance \<Rightarrow> string" where
  "binding_material LegacyUnscoped = ''legacy_unscoped''"
| "binding_material (OperatorReleasedChannelResearch p) =
     ''operator_released_channel_research:'' @ label_as_str (sl_highest (rr_sources p)) @ '':'' @ rr_release_id p"

fun audit_tag :: "egress_provenance \<Rightarrow> string" where
  "audit_tag LegacyUnscoped = ''legacy_unscoped''"
| "audit_tag (OperatorReleasedChannelResearch _) = ''operator_released_channel_research''"

fun released_research_id :: "egress_provenance \<Rightarrow> string option" where
  "released_research_id LegacyUnscoped = None"
| "released_research_id (OperatorReleasedChannelResearch p) = Some (rr_release_id p)"

text \<open>\<open>compare_exchange\<close>: store and succeed when the current value is the expected one.\<close>

definition compare_exchange :: "u8 \<Rightarrow> u8 \<Rightarrow> u8 \<Rightarrow> u8 \<times> bool" where
  "compare_exchange current new cell = (if cell = current then (new, True) else (cell, False))"

fun arm_operator_released_exact_topic ::
    "(string \<Rightarrow> string) \<Rightarrow> egress_provenance \<Rightarrow> string \<Rightarrow> egress_provenance \<times> (binding_error + string)" where
  "arm_operator_released_exact_topic dg LegacyUnscoped topic = (LegacyUnscoped, Err NotOperatorReleased)"
| "arm_operator_released_exact_topic dg (OperatorReleasedChannelResearch p) topic =
     (if dg topic \<noteq> rr_topic_sha256 p then (OperatorReleasedChannelResearch p, Err TopicMismatch)
      else case compare_exchange RELEASE_FRESH RELEASE_ARMED (rr_execution_state p) of
             (st, done) \<Rightarrow> (OperatorReleasedChannelResearch (p\<lparr>rr_execution_state := st\<rparr>),
               if done then Ok (rr_release_id p) else Err AlreadyUsed))"

fun consume_operator_released_search_query ::
    "egress_provenance \<Rightarrow> string option \<Rightarrow> egress_provenance \<times> (binding_error + unit)" where
  "consume_operator_released_search_query LegacyUnscoped q = (LegacyUnscoped, Ok ())"
| "consume_operator_released_search_query (OperatorReleasedChannelResearch p) q =
     (if q \<noteq> Some (rr_topic_sha256 p) then (OperatorReleasedChannelResearch p, Err RequestMismatch)
      else case compare_exchange RELEASE_ARMED RELEASE_SPENT (rr_execution_state p) of
             (st, done) \<Rightarrow> (OperatorReleasedChannelResearch (p\<lparr>rr_execution_state := st\<rparr>),
               if done then Ok () else Err AlreadyUsed))"

section \<open>Lemmas on labels\<close>

lemma last_sort_Max:
  fixes xs :: "'a::linorder list"
  assumes "xs \<noteq> []"
  shows "last (sort xs) = Max (set xs)"
proof -
  obtain us x where u: "sort xs = us @ [x]"
    using assms by (metis append_butlast_last_id length_0_conv length_sort)
  have "sorted (us @ [x])" using sorted_sort [of xs] by (simp add: u)
  moreover have "set xs = insert x (set us)" using u by (metis set_sort set_append list.simps(15) empty_set Un_insert_right sup_bot_right)
  ultimately have "Max (set xs) = x" by (auto simp: sorted_append intro!: Max_eqI)
  then show ?thesis by (simp add: u)
qed

lemma from_labels_Ok:
  "from_labels ls = Ok s \<longleftrightarrow> ls \<noteq> [] \<and> sl_labels s = sort (remdups ls) \<and> sl_highest s = Max (set ls)"
proof (cases "ls = []")
  case False
  then have "remdups ls \<noteq> []" by simp
  then have "sort (remdups ls) \<noteq> []" "last (sort (remdups ls)) = Max (set ls)"
    using last_sort_Max [of "remdups ls"] by (metis length_0_conv length_sort, simp)
  then show ?thesis using False by (cases s) (auto simp: from_labels_def)
qed (simp add: from_labels_def)

lemma label_bounds: "L_Public \<le> l" "l \<le> L_Secret"
  by (cases l; simp add: less_eq_information_label_def)+

lemma parse_all_Ok:
  "parse_all ns = Ok ls \<longleftrightarrow> list_all2 (\<lambda>n l. parse_normalized n = Ok l) ns ls"
proof (induction ns arbitrary: ls)
  case (Cons n ns)
  show ?case
  proof (cases "\<exists>l ks. parse_normalized n = Ok l \<and> parse_all ns = Ok ks")
    case True
    then obtain l ks where k: "parse_normalized n = Ok l" "parse_all ns = Ok ks" by blast
    have "list_all2 (\<lambda>n l. parse_normalized n = Ok l) ns zs \<longleftrightarrow> zs = ks" for zs
      using Cons.IH [of zs] k(2) by auto
    then show ?thesis using k by (auto simp: list_all2_Cons1)
  next
    case False
    have "\<not> (\<exists>ls. parse_all (n # ns) = Ok ls)"
      using False by (cases "parse_normalized n"; cases "parse_all ns") auto
    moreover have "\<not> list_all2 (\<lambda>n l. parse_normalized n = Ok l) (n # ns) ls"
      using False Cons.IH by (auto simp: list_all2_Cons1)
    ultimately show ?thesis by blast
  qed
qed auto

section \<open>Runs of a release\<close>

datatype release_op = Arm string | Consume "string option"

fun release_step :: "(string \<Rightarrow> string) \<Rightarrow> egress_provenance \<Rightarrow> release_op \<Rightarrow> egress_provenance \<times> bool" where
  "release_step dg p (Arm topic) = map_prod (\<lambda>q. q) is_ok (arm_operator_released_exact_topic dg p topic)"
| "release_step dg p (Consume q) = map_prod (\<lambda>q. q) is_ok (consume_operator_released_search_query p q)"

text \<open>The operations of an interleaving that succeed, in order.\<close>

fun successes :: "(string \<Rightarrow> string) \<Rightarrow> egress_provenance \<Rightarrow> release_op list \<Rightarrow> release_op list" where
  "successes dg p [] = []"
| "successes dg p (op1 # ops) =
     (case release_step dg p op1 of (p', ok) \<Rightarrow> (if ok then [op1] else []) @ successes dg p' ops)"

lemmas release_states = RELEASE_FRESH_def RELEASE_ARMED_def RELEASE_SPENT_def

lemma spent_successes:
  "rr_execution_state p = RELEASE_SPENT \<Longrightarrow> successes dg (OperatorReleasedChannelResearch p) ops = []"
proof (induction ops arbitrary: p)
  case (Cons x ops)
  then show ?case by (cases x) (auto simp: compare_exchange_def release_states)
qed simp

lemma armed_successes:
  "rr_execution_state p = RELEASE_ARMED \<Longrightarrow>
   successes dg (OperatorReleasedChannelResearch p) ops \<in> {[], [Consume (Some (rr_topic_sha256 p))]}"
proof (induction ops arbitrary: p)
  case (Cons x ops)
  have sp: "successes dg (OperatorReleasedChannelResearch (p\<lparr>rr_execution_state := RELEASE_SPENT\<rparr>)) ops = []"
    by (rule spent_successes) simp
  show ?case
  proof (cases x)
    case (Arm t)
    with Cons.prems Cons.IH [of p] Cons.IH [of "p\<lparr>rr_execution_state := RELEASE_ARMED\<rparr>"] show ?thesis
      by (auto simp: compare_exchange_def release_states)
  next
    case (Consume q)
    with Cons sp show ?thesis by (auto simp: compare_exchange_def)
  qed
qed simp

lemma fresh_successes:
  assumes "rr_execution_state p = RELEASE_FRESH"
  shows "successes dg (OperatorReleasedChannelResearch p) ops = [] \<or>
    (\<exists>t. dg t = rr_topic_sha256 p \<and> successes dg (OperatorReleasedChannelResearch p) ops
       \<in> {[Arm t], [Arm t, Consume (Some (rr_topic_sha256 p))]})"
  using assms
proof (induction ops arbitrary: p)
  case (Cons x ops)
  let ?a = "p\<lparr>rr_execution_state := RELEASE_ARMED\<rparr>"
  have ar: "successes dg (OperatorReleasedChannelResearch ?a) ops \<in> {[], [Consume (Some (rr_topic_sha256 p))]}"
    using armed_successes [of ?a dg ops] by simp
  show ?case
  proof (cases x)
    case (Arm t)
    with Cons ar show ?thesis by (cases "dg t = rr_topic_sha256 p") (auto simp: compare_exchange_def)
  next
    case (Consume q)
    with Cons.prems Cons.IH [of p] Cons.IH [of "p\<lparr>rr_execution_state := RELEASE_FRESH\<rparr>"] show ?thesis
      by (auto simp: compare_exchange_def release_states)
  qed
qed simp

lemma into_egress:
  "into_egress_provenance (for_pinned_operator_exact_topic dg uuid topic) =
     Some (OperatorReleasedChannelResearch \<lparr>rr_sources = \<lparr>sl_labels = [L_Public], sl_highest = L_Public\<rparr>,
       rr_release_id = uuid, rr_topic_sha256 = dg topic, rr_execution_state = RELEASE_FRESH\<rparr>)"
  by (simp add: into_egress_provenance_def for_pinned_operator_exact_topic_def from_labels_def)

text \<open>What is persisted of a release does not depend on its topic.\<close>

lemma topic_stays_private:
  assumes "into_egress_provenance (for_pinned_operator_exact_topic dg uuid t) = Some p"
    and "into_egress_provenance (for_pinned_operator_exact_topic dg uuid t') = Some p'"
  shows "binding_material p = binding_material p'" "audit_tag p = audit_tag p'"
    "released_research_id p = released_research_id p'"
  using assms by (auto simp: into_egress)

section \<open>Properties\<close>

text \<open>
  Information never flows down. Labels parsed from names reach an action exactly when
  every one of them is at most the clearance of the action's kind; a denial names the
  highest label and the clearance, and missing or unknown labels yield no label set at all.
\<close>

theorem flow_is_no_write_down:
  assumes "from_names names = Ok s"
  shows "(may_flow_to_action s k = Ok () \<longleftrightarrow> (\<forall>l \<in> set (sl_labels s). l \<le> clearance_for_action k)) \<and>
    (\<forall>e. may_flow_to_action s k = Err e \<longrightarrow>
       ifd_source e = Max (set (sl_labels s)) \<and> ifd_destination_clearance e = clearance_for_action k) \<and>
    names \<noteq> [] \<and> (\<forall>n \<in> set names. \<exists>l \<in> set (sl_labels s). parse_normalized n = Ok l)"
proof -
  obtain ls where p: "parse_all names = Ok ls" and f: "from_labels ls = Ok s"
    using assms by (auto simp: from_names_def split: sum.splits)
  have s: "ls \<noteq> []" "set (sl_labels s) = set ls" "sl_highest s = Max (set ls)"
    using f by (simp_all add: from_labels_Ok)
  have a: "list_all2 (\<lambda>n l. parse_normalized n = Ok l) names ls" using p by (simp add: parse_all_Ok)
  then have "names \<noteq> []" using s(1) by auto
  moreover have "\<forall>n \<in> set names. \<exists>l \<in> set ls. parse_normalized n = Ok l"
    using a by (auto simp: list_all2_conv_all_nth in_set_conv_nth) metis
  moreover have "Max (set ls) \<le> clearance_for_action k \<longleftrightarrow> (\<forall>l \<in> set ls. l \<le> clearance_for_action k)"
    using s(1) by simp
  ultimately show ?thesis
    using s by (auto simp: may_flow_to_action_def enforce_no_write_down_def split: if_splits)
qed

theorem flow_is_no_write_down_witness:
  "may_flow_to_action \<lparr>sl_labels = [L_Public, L_Secret], sl_highest = L_Secret\<rparr> K_ChannelSend \<noteq> Ok ()"
proof -
  have "from_names ['' Secret '', ''PUBLIC''] = Ok \<lparr>sl_labels = [L_Public, L_Secret], sl_highest = L_Secret\<rparr>"
    by code_simp
  from flow_is_no_write_down [OF this, of K_ChannelSend] show ?thesis
    by (simp add: less_eq_information_label_def)
qed

text \<open>
  A research release is single use. In every interleaving of reservations and
  consumptions, at most one reservation succeeds, for a topic with the released digest, and
  at most one search request succeeds, after it and for exactly that digest.
\<close>

theorem release_is_single_use:
  assumes "into_egress_provenance (for_pinned_operator_exact_topic dg uuid topic) = Some p"
  shows "successes dg p ops = [] \<or>
    (\<exists>t. dg t = dg topic \<and> successes dg p ops \<in> {[Arm t], [Arm t, Consume (Some (dg topic))]})"
  using assms fresh_successes [of "\<lparr>rr_sources = \<lparr>sl_labels = [L_Public], sl_highest = L_Public\<rparr>,
       rr_release_id = uuid, rr_topic_sha256 = dg topic, rr_execution_state = RELEASE_FRESH\<rparr>" dg ops]
  by (auto simp: into_egress)

theorem release_is_single_use_witness:
  "\<exists>p. into_egress_provenance (for_pinned_operator_exact_topic (\<lambda>t. t) ''id'' ''tea'') = Some p \<and>
     successes (\<lambda>t. t) p [Consume (Some ''tea''), Arm ''coffee'', Arm ''tea'', Arm ''tea'',
       Consume (Some ''tea''), Consume (Some ''tea'')] = [Arm ''tea'', Consume (Some ''tea'')]"
proof -
  let ?ops = "[Consume (Some ''tea''), Arm ''coffee'', Arm ''tea'', Arm ''tea'',
       Consume (Some ''tea''), Consume (Some ''tea'')]"
  obtain p where p: "into_egress_provenance (for_pinned_operator_exact_topic (\<lambda>t. t) ''id'' ''tea'') = Some p"
    by (simp add: into_egress)
  have "length (successes (\<lambda>t. t) p ?ops) = 2"
    using p by (auto simp: into_egress compare_exchange_def release_states)
  with release_is_single_use [OF p, of ?ops] p show ?thesis by auto
qed

end
