(* ===== verification/Perm_Mic.thy ===== *)
theory Perm_Mic
  imports Neoth_Prelude
begin

text \<open>
  The microphone-consent authority, \<open>src/SRC/neothd/src/permissions/microphone.rs\<close>. A
  store keeps the last grant it read, the pending challenges and the minted capabilities;
  the grant itself is a private file shared by all processes, replaced under a lock when
  its revision is the expected one. Every reading of the file is an argument of the operation
  that does it, because another process may have replaced the file in between; opaque ids
  are arguments as well. \<open>dg\<close> stands for the hexadecimal SHA-256.
\<close>

section \<open>State\<close>

definition SCHEMA_VERSION :: u8 where "SCHEMA_VERSION = 1"
definition CHALLENGE_TTL_SECS :: int where "CHALLENGE_TTL_SECS = 120"
definition CAPABILITY_TTL_SECS :: int where "CAPABILITY_TTL_SECS = 120"

datatype mic_decision = AllowOnce | AllowAlways | DenyMic

datatype mic_preflight = Granted string | ConfirmationRequired string

datatype mic_error = InvalidConfigBinding | UnknownOrExpiredChallenge | UnknownOrExpiredCapability
  | ConsumedErr | ConfigDrift | Persistence

record persisted_grant =
  pg_schema_version :: u8
  pg_microphone_allowed :: bool
  pg_revision :: u64

record pending_challenge =
  pc_config_digest :: string
  pc_expires_at_unix :: int
  pc_revision :: u64

record pending_capability =
  pk_config_digest :: string
  pk_expires_at_unix :: int
  pk_consumed :: bool
  pk_revision :: u64
  pk_allow_once :: bool

record mic_store =
  mc_home :: string
  mc_persisted :: persisted_grant
  mc_challenges :: "(string, pending_challenge) btree"
  mc_capabilities :: "(string, pending_capability) btree"

record mic_open_admission =
  ma_operation_id :: string
  ma_home_binding :: string
  ma_config_digest :: string
  ma_permission_revision :: u64
  ma_allow_once :: bool
  ma_admitted_at_unix :: int

section \<open>The grant file\<close>

definition no_grant :: persisted_grant where
  "no_grant = \<lparr>pg_schema_version = SCHEMA_VERSION, pg_microphone_allowed = False, pg_revision = 0\<rparr>"

text \<open>
  \<open>readable\<close> is false when the directory, the file type, its permissions, its size or its
  JSON content is refused.
\<close>

definition read_current :: "bool \<Rightarrow> persisted_grant option \<Rightarrow> mic_error + persisted_grant" where
  "read_current readable file =
     (if \<not> readable then Err Persistence
      else case file of
             None \<Rightarrow> Ok no_grant
           | Some v \<Rightarrow> if pg_schema_version v \<noteq> SCHEMA_VERSION then Err Persistence else Ok v)"

datatype write_outcome = Written | NotWritten | WrittenWithError

definition commit_state ::
    "bool \<Rightarrow> bool \<Rightarrow> write_outcome \<Rightarrow> persisted_grant option \<Rightarrow> u64 \<Rightarrow> persisted_grant
     \<Rightarrow> persisted_grant option \<times> (mic_error + unit)" where
  "commit_state locked readable w file expected_revision g =
     (if \<not> locked then (file, Err Persistence)
      else case read_current readable file of
             Inl e \<Rightarrow> (file, Err e)
           | Inr current \<Rightarrow>
               if pg_revision current \<noteq> expected_revision then (file, Err ConfigDrift)
               else (case w of
                       Written \<Rightarrow> (Some g, Ok ())
                     | NotWritten \<Rightarrow> (file, Err Persistence)
                     | WrittenWithError \<Rightarrow> (Some g, Err Persistence)))"

section \<open>Helpers\<close>

definition mic_validate_digest :: "string \<Rightarrow> mic_error + unit" where
  "mic_validate_digest v =
     (if length v = 64 \<and> list_all (\<lambda>b. is_ascii_hexdigit b \<and> \<not> is_ascii_uppercase b) v then Ok ()
      else Err InvalidConfigBinding)"

definition operation_preimage :: "string \<Rightarrow> string \<Rightarrow> string \<Rightarrow> u64 \<Rightarrow> bytes" where
  "operation_preimage home cap digest revision =
     str_bytes ''neoth/a2/microphone-open/v1'' @ [0] @ str_bytes home @ str_bytes cap
     @ str_bytes digest @ u64_to_be revision"

definition opaque_operation_id ::
    "(bytes \<Rightarrow> string) \<Rightarrow> string \<Rightarrow> string \<Rightarrow> string \<Rightarrow> u64 \<Rightarrow> string" where
  "opaque_operation_id dg home cap digest revision = dg (operation_preimage home cap digest revision)"

definition opaque_home_binding :: "(bytes \<Rightarrow> string) \<Rightarrow> string \<Rightarrow> string" where
  "opaque_home_binding dg home = dg (str_bytes ''neoth/a2/microphone-home/v1'' @ [0] @ str_bytes home)"

definition i64_checked_add :: "int \<Rightarrow> int \<Rightarrow> int option" where
  "i64_checked_add a b = (if is_i64 (a + b) then Some (a + b) else None)"

definition prune :: "int \<Rightarrow> mic_store \<Rightarrow> mic_store" where
  "prune now_unix s = s\<lparr>
     mc_challenges := btree_retain (\<lambda>i. pc_expires_at_unix i > now_unix) (mc_challenges s),
     mc_capabilities := btree_retain (\<lambda>i. pk_expires_at_unix i > now_unix \<and> \<not> pk_consumed i)
       (mc_capabilities s)\<rparr>"

definition mint :: "string \<Rightarrow> string \<Rightarrow> int \<Rightarrow> bool \<Rightarrow> mic_store \<Rightarrow> mic_store \<times> (mic_error + string)" where
  "mint new_id config_digest now_unix allow_once s =
     (case i64_checked_add now_unix CAPABILITY_TTL_SECS of
        None \<Rightarrow> (s, Err Persistence)
      | Some expires \<Rightarrow>
          (s\<lparr>mc_capabilities := btree_insert new_id
               \<lparr>pk_config_digest = config_digest, pk_expires_at_unix = expires, pk_consumed = False,
                 pk_revision = pg_revision (mc_persisted s), pk_allow_once = allow_once\<rparr>
               (mc_capabilities s)\<rparr>, Ok new_id))"

section \<open>Operations\<close>

definition mic_open :: "string \<Rightarrow> (mic_error + persisted_grant) \<Rightarrow> mic_error + mic_store" where
  "mic_open home r = (case r of
     Inl e \<Rightarrow> Err e
   | Inr g \<Rightarrow> Ok \<lparr>mc_home = home, mc_persisted = g, mc_challenges = [], mc_capabilities = []\<rparr>)"

definition preflight ::
    "(mic_error + persisted_grant) \<Rightarrow> string \<Rightarrow> string \<Rightarrow> int \<Rightarrow> mic_store
     \<Rightarrow> mic_store \<times> (mic_error + mic_preflight)" where
  "preflight r new_id config_digest now_unix s =
     (case mic_validate_digest config_digest of
        Inl e \<Rightarrow> (s, Err e)
      | Inr _ \<Rightarrow>
          (let s = prune now_unix s
           in case r of
                Inl e \<Rightarrow> (s, Err e)
              | Inr g \<Rightarrow>
                  (let s = s\<lparr>mc_persisted := g\<rparr>
                   in if pg_microphone_allowed g then
                        (case mint new_id config_digest now_unix False s of
                           (s, Inl e) \<Rightarrow> (s, Err e)
                         | (s, Inr cap) \<Rightarrow> (s, Ok (Granted cap)))
                      else
                        (case i64_checked_add now_unix CHALLENGE_TTL_SECS of
                           None \<Rightarrow> (s, Err Persistence)
                         | Some expires \<Rightarrow>
                             (s\<lparr>mc_challenges := btree_insert new_id
                                  \<lparr>pc_config_digest = config_digest, pc_expires_at_unix = expires,
                                    pc_revision = pg_revision g\<rparr> (mc_challenges s)\<rparr>,
                              Ok (ConfirmationRequired new_id))))))"

text \<open>
  The second reading \<open>r2\<close> and the file at the commit are used only for
  \<open>AllowAlways\<close>; \<open>file\<close> is the file as the lock holder finds it.
\<close>

definition decide ::
    "(mic_error + persisted_grant) \<Rightarrow> (mic_error + persisted_grant) \<Rightarrow> bool \<Rightarrow> bool \<Rightarrow> write_outcome
     \<Rightarrow> string \<Rightarrow> string \<Rightarrow> mic_decision \<Rightarrow> int \<Rightarrow> persisted_grant option \<times> mic_store
     \<Rightarrow> (persisted_grant option \<times> mic_store) \<times> (mic_error + string option)" where
  "decide r1 r2 locked readable w new_id challenge decision now_unix fs =
     (let (file, s) = fs; s = prune now_unix s
      in case btree_get (mc_challenges s) challenge of
           None \<Rightarrow> ((file, s), Err UnknownOrExpiredChallenge)
         | Some pending \<Rightarrow>
             (let s = s\<lparr>mc_challenges := btree_remove challenge (mc_challenges s)\<rparr>
              in if pc_expires_at_unix pending \<le> now_unix then ((file, s), Err UnknownOrExpiredChallenge)
                 else case r1 of
                        Inl e \<Rightarrow> ((file, s), Err e)
                      | Inr current \<Rightarrow>
                          if pg_revision current \<noteq> pc_revision pending then ((file, s), Err ConfigDrift)
                          else (let s = s\<lparr>mc_persisted := current\<rparr>
                                in case decision of
                                     DenyMic \<Rightarrow> ((file, s), Ok None)
                                   | AllowOnce \<Rightarrow>
                                       (case mint new_id (pc_config_digest pending) now_unix True s of
                                          (s, Inl e) \<Rightarrow> ((file, s), Err e)
                                        | (s, Inr cap) \<Rightarrow> ((file, s), Ok (Some cap)))
                                   | AllowAlways \<Rightarrow>
                                       (case r2 of
                                          Inl e \<Rightarrow> ((file, s), Err e)
                                        | Inr current2 \<Rightarrow>
                                            (case checked_add (pg_revision current2) 1 of
                                               None \<Rightarrow> ((file, s), Err Persistence)
                                             | Some nrev \<Rightarrow>
                                                 (let next = \<lparr>pg_schema_version = SCHEMA_VERSION,
                                                        pg_microphone_allowed = True, pg_revision = nrev\<rparr>
                                                  in case commit_state locked readable w file (pg_revision current2) next of
                                                       (file, Inl e) \<Rightarrow> ((file, s), Err e)
                                                     | (file, Inr _) \<Rightarrow>
                                                         (case mint new_id (pc_config_digest pending) now_unix False
                                                                 (s\<lparr>mc_persisted := next\<rparr>) of
                                                            (s, Inl e) \<Rightarrow> ((file, s), Err e)
                                                          | (s, Inr cap) \<Rightarrow> ((file, s), Ok (Some cap)))))))))"

definition revoke_mic ::
    "(mic_error + persisted_grant) \<Rightarrow> bool \<Rightarrow> bool \<Rightarrow> write_outcome \<Rightarrow> persisted_grant option \<times> mic_store
     \<Rightarrow> (persisted_grant option \<times> mic_store) \<times> (mic_error + unit)" where
  "revoke_mic r1 locked readable w fs =
     (let (file, s) = fs
      in case r1 of
           Inl e \<Rightarrow> ((file, s), Err e)
         | Inr current \<Rightarrow>
             (case checked_add (pg_revision current) 1 of
                None \<Rightarrow> ((file, s), Err Persistence)
              | Some nrev \<Rightarrow>
                  (let next = \<lparr>pg_schema_version = SCHEMA_VERSION, pg_microphone_allowed = False,
                         pg_revision = nrev\<rparr>
                   in case commit_state locked readable w file (pg_revision current) next of
                        (file, Inl e) \<Rightarrow> ((file, s), Err e)
                      | (file, Inr _) \<Rightarrow>
                          ((file, s\<lparr>mc_persisted := next, mc_capabilities := [], mc_challenges := []\<rparr>),
                           Ok ()))))"

definition consume_for_open ::
    "(bytes \<Rightarrow> string) \<Rightarrow> (mic_error + persisted_grant) \<Rightarrow> string \<Rightarrow> string \<Rightarrow> int \<Rightarrow> mic_store
     \<Rightarrow> mic_store \<times> (mic_error + mic_open_admission)" where
  "consume_for_open dg r capability config_digest now_unix s =
     (case mic_validate_digest config_digest of
        Inl e \<Rightarrow> (s, Err e)
      | Inr _ \<Rightarrow>
          (let s = prune now_unix s
           in case r of
                Inl e \<Rightarrow> (s, Err e)
              | Inr current \<Rightarrow>
                  (case btree_get (mc_capabilities s) capability of
                     None \<Rightarrow> (s, Err UnknownOrExpiredCapability)
                   | Some entry \<Rightarrow>
                       if pk_consumed entry then (s, Err ConsumedErr)
                       else if pk_expires_at_unix entry \<le> now_unix then (s, Err UnknownOrExpiredCapability)
                       else (let s' = s\<lparr>mc_capabilities :=
                                   btree_insert capability (entry\<lparr>pk_consumed := True\<rparr>) (mc_capabilities s)\<rparr>
                             in if pk_revision entry \<noteq> pg_revision current
                                   \<or> (\<not> pk_allow_once entry \<and> \<not> pg_microphone_allowed current)
                                  then (s', Err ConfigDrift)
                                else if pk_config_digest entry \<noteq> config_digest then (s', Err ConfigDrift)
                                else (s', Ok \<lparr>
                                  ma_operation_id = opaque_operation_id dg (mc_home s) capability config_digest
                                    (pg_revision current),
                                  ma_home_binding = opaque_home_binding dg (mc_home s),
                                  ma_config_digest = config_digest,
                                  ma_permission_revision = pg_revision current,
                                  ma_allow_once = pk_allow_once entry,
                                  ma_admitted_at_unix = now_unix\<rparr>)))))"

definition revalidate_terminal_for_device_open ::
    "(bytes \<Rightarrow> string) \<Rightarrow> (mic_error + persisted_grant) \<Rightarrow> mic_store \<Rightarrow> string \<Rightarrow> string \<Rightarrow> u64 \<Rightarrow> bool
     \<Rightarrow> mic_error + unit" where
  "revalidate_terminal_for_device_open dg r s home_binding config_digest permission_revision allow_once =
     (case mic_validate_digest config_digest of
        Inl e \<Rightarrow> Err e
      | Inr _ \<Rightarrow>
          if home_binding \<noteq> opaque_home_binding dg (mc_home s) then Err ConfigDrift
          else case r of
                 Inl e \<Rightarrow> Err e
               | Inr current \<Rightarrow>
                   if pg_revision current \<noteq> permission_revision
                      \<or> (\<not> allow_once \<and> \<not> pg_microphone_allowed current)
                   then Err ConfigDrift else Ok ())"

section \<open>Executions\<close>

text \<open>
  A system is the shared file and one store, with the ghost history of issued challenges,
  minted capabilities and admissions. Other processes replace the file between any two
  readings, always by a higher revision.
\<close>

record mic_mint =
  mm_id :: string
  mm_entry :: pending_capability
  mm_time :: int
  mm_origin :: "(string \<times> mic_decision) option"

record mic_sys =
  sy_file :: "persisted_grant option"
  sy_store :: mic_store
  sy_used :: "string set"
  sy_issued :: "(string \<times> string) list"
  sy_mints :: "mic_mint list"
  sy_admissions :: "(string \<times> mic_open_admission) list"

definition file_revision :: "persisted_grant option \<Rightarrow> nat" where
  "file_revision f = (case f of None \<Rightarrow> 0 | Some g \<Rightarrow> unat (pg_revision g))"

definition file_le :: "persisted_grant option \<Rightarrow> persisted_grant option \<Rightarrow> bool" where
  "file_le f f' \<longleftrightarrow> f = f' \<or> file_revision f < file_revision f'"

definition minted :: "string \<Rightarrow> int \<Rightarrow> (string \<times> mic_decision) option \<Rightarrow> mic_store \<Rightarrow> mic_mint" where
  "minted cap now origin s = \<lparr>mm_id = cap, mm_entry = the (btree_get (mc_capabilities s) cap),
     mm_time = now, mm_origin = origin\<rparr>"

inductive mic_step :: "(bytes \<Rightarrow> string) \<Rightarrow> mic_sys \<Rightarrow> mic_sys \<Rightarrow> bool" for dg where
  mic_env: "file_le (sy_file y) f \<Longrightarrow> mic_step dg y (y\<lparr>sy_file := f\<rparr>)"
| mic_preflight: "new_id \<notin> sy_used y
    \<Longrightarrow> preflight (read_current b (sy_file y)) new_id digest now (sy_store y) = (s', res)
    \<Longrightarrow> mic_step dg y (y\<lparr>sy_store := s', sy_used := insert new_id (sy_used y),
          sy_issued := (if res = Ok (ConfirmationRequired new_id) then [(new_id, digest)] else []) @ sy_issued y,
          sy_mints := (if res = Ok (Granted new_id) then [minted new_id now None s'] else []) @ sy_mints y\<rparr>)"
| mic_decide: "new_id \<notin> sy_used y \<Longrightarrow> file_le (sy_file y) f2 \<Longrightarrow> file_le f2 f3
    \<Longrightarrow> decide (read_current b1 (sy_file y)) (read_current b2 f2) lk b3 w new_id ch dec now (f3, sy_store y)
          = ((f', s'), res)
    \<Longrightarrow> mic_step dg y (y\<lparr>sy_file := f', sy_store := s', sy_used := insert new_id (sy_used y),
          sy_mints := (if res = Ok (Some new_id) then [minted new_id now (Some (ch, dec)) s'] else []) @ sy_mints y\<rparr>)"
| mic_revoke: "file_le (sy_file y) f2
    \<Longrightarrow> revoke_mic (read_current b1 (sy_file y)) lk b2 w (f2, sy_store y) = ((f', s'), res)
    \<Longrightarrow> mic_step dg y (y\<lparr>sy_file := f', sy_store := s'\<rparr>)"
| mic_consume: "consume_for_open dg (read_current b (sy_file y)) cap digest now (sy_store y) = (s', res)
    \<Longrightarrow> mic_step dg y (y\<lparr>sy_store := s',
          sy_admissions := (case res of Inl _ \<Rightarrow> [] | Inr a \<Rightarrow> [(cap, a)]) @ sy_admissions y\<rparr>)"

definition mic_init :: "mic_sys \<Rightarrow> bool" where
  "mic_init y \<longleftrightarrow> (\<exists>home b s. mic_open home (read_current b (sy_file y)) = Ok s \<and> sy_store y = s)
     \<and> sy_used y = {} \<and> sy_issued y = [] \<and> sy_mints y = [] \<and> sy_admissions y = []"

text \<open>What holds of the store and the history in every execution.\<close>

definition caps_ok :: "mic_sys \<Rightarrow> bool" where
  "caps_ok y \<longleftrightarrow> btree_ok (mc_capabilities (sy_store y)) \<and>
     (\<forall>i e. btree_get (mc_capabilities (sy_store y)) i = Some e \<longrightarrow> i \<in> sy_used y \<and>
        (\<exists>m \<in> set (sy_mints y). mm_id m = i \<and> mm_entry m = e\<lparr>pk_consumed := False\<rparr>) \<and>
        (\<not> pk_consumed e \<longrightarrow> i \<notin> fst ` set (sy_admissions y)))"

definition challenges_ok :: "mic_sys \<Rightarrow> bool" where
  "challenges_ok y \<longleftrightarrow> btree_ok (mc_challenges (sy_store y)) \<and>
     (\<forall>c pd. btree_get (mc_challenges (sy_store y)) c = Some pd \<longrightarrow> (c, pc_config_digest pd) \<in> set (sy_issued y))"

definition mint_ok :: "mic_sys \<Rightarrow> mic_mint \<Rightarrow> bool" where
  "mint_ok y m \<longleftrightarrow> mm_id m \<in> sy_used y \<and> pk_expires_at_unix (mm_entry m) = mm_time m + 120 \<and>
     (case mm_origin m of
        None \<Rightarrow> \<not> pk_allow_once (mm_entry m)
      | Some (c, dec) \<Rightarrow> dec \<noteq> DenyMic \<and> (pk_allow_once (mm_entry m) \<longleftrightarrow> dec = AllowOnce)
          \<and> (c, pk_config_digest (mm_entry m)) \<in> set (sy_issued y))"

definition admission_ok :: "mic_sys \<Rightarrow> string \<times> mic_open_admission \<Rightarrow> bool" where
  "admission_ok y ia \<longleftrightarrow> fst ia \<in> sy_used y \<and>
     (\<exists>m \<in> set (sy_mints y). mm_id m = fst ia \<and> pk_config_digest (mm_entry m) = ma_config_digest (snd ia)
        \<and> pk_revision (mm_entry m) = ma_permission_revision (snd ia)
        \<and> pk_allow_once (mm_entry m) = ma_allow_once (snd ia)
        \<and> ma_admitted_at_unix (snd ia) < mm_time m + 120)"

definition mic_inv :: "mic_sys \<Rightarrow> bool" where
  "mic_inv y \<longleftrightarrow> caps_ok y \<and> challenges_ok y \<and> (\<forall>m \<in> set (sy_mints y). mint_ok y m)
     \<and> (\<forall>a \<in> set (sy_admissions y). admission_ok y a) \<and> distinct (map fst (sy_admissions y))"

section \<open>Lemmas on the operations\<close>

lemma prune_caps:
  assumes "btree_ok (mc_capabilities s)"
  shows "btree_ok (mc_capabilities (prune now s))"
    "btree_get (mc_capabilities (prune now s)) i = Some e \<longleftrightarrow>
       btree_get (mc_capabilities s) i = Some e \<and> pk_expires_at_unix e > now \<and> \<not> pk_consumed e"
  using assms by (simp_all add: prune_def btree_get_retain)

lemma prune_challenges:
  assumes "btree_ok (mc_challenges s)"
  shows "btree_ok (mc_challenges (prune now s))"
    "btree_get (mc_challenges (prune now s)) i = Some e \<longleftrightarrow>
       btree_get (mc_challenges s) i = Some e \<and> pc_expires_at_unix e > now"
  using assms by (simp_all add: prune_def btree_get_retain)

lemma mint_cases:
  assumes "mint new_id digest now once s = (s', r)"
  obtains (fail) "s' = s" "r = Err Persistence"
  | (ok) e where "r = Ok new_id" "s' = s\<lparr>mc_capabilities := btree_insert new_id e (mc_capabilities s)\<rparr>"
      "pk_config_digest e = digest" "pk_expires_at_unix e = now + 120" "\<not> pk_consumed e"
      "pk_revision e = pg_revision (mc_persisted s)" "pk_allow_once e = once"
  using assms by (auto simp: mint_def i64_checked_add_def CAPABILITY_TTL_SECS_def split: option.splits if_splits)

text \<open>Store changes that only forget entries.\<close>

definition shrinks :: "mic_store \<Rightarrow> mic_store \<Rightarrow> bool" where
  "shrinks s t \<longleftrightarrow> (btree_ok (mc_capabilities s) \<longrightarrow> btree_ok (mc_capabilities t) \<and>
       (\<forall>i e. btree_get (mc_capabilities t) i = Some e \<longrightarrow> btree_get (mc_capabilities s) i = Some e)) \<and>
     (btree_ok (mc_challenges s) \<longrightarrow> btree_ok (mc_challenges t) \<and>
       (\<forall>i e. btree_get (mc_challenges t) i = Some e \<longrightarrow> btree_get (mc_challenges s) i = Some e))"

lemma shrinks_refl [simp]: "shrinks s s"
  by (simp add: shrinks_def)

lemma shrinks_trans: "shrinks s t \<Longrightarrow> shrinks t u \<Longrightarrow> shrinks s u"
  by (auto simp: shrinks_def)

lemma shrinks_prune [simp]: "shrinks s (prune now s)"
  by (simp add: shrinks_def prune_caps prune_challenges)

lemma shrinks_simps [simp]:
  "shrinks s (t\<lparr>mc_persisted := g\<rparr>) = shrinks s t"
  "shrinks s t \<Longrightarrow> shrinks s (t\<lparr>mc_challenges := btree_remove c (mc_challenges t)\<rparr>)"
  "shrinks s (t\<lparr>mc_capabilities := [], mc_challenges := []\<rparr>)"
  by (auto simp: shrinks_def split: if_splits)

lemma preflight_cases:
  assumes "preflight r new_id digest now s = (s', res)"
  obtains (none) "shrinks s s'" "\<nexists>x. res = Ok x"
  | (granted) t e where "shrinks s t" "s' = t\<lparr>mc_capabilities := btree_insert new_id e (mc_capabilities t)\<rparr>"
      "res = Ok (Granted new_id)" "pk_expires_at_unix e = now + 120" "\<not> pk_consumed e" "\<not> pk_allow_once e"
  | (challenge) t pd where "shrinks s t" "s' = t\<lparr>mc_challenges := btree_insert new_id pd (mc_challenges t)\<rparr>"
      "res = Ok (ConfirmationRequired new_id)" "pc_config_digest pd = digest"
proof (cases "is_ok (mic_validate_digest digest) \<and> is_ok r")
  case False
  with assms none show ?thesis
    by (auto simp: preflight_def Let_def is_ok_iff split: sum.splits)
next
  case True
  then obtain g where d: "mic_validate_digest digest = Ok ()" and r: "r = Ok g" by (auto simp: is_ok_iff)
  let ?t = "(prune now s)\<lparr>mc_persisted := g\<rparr>"
  have sh: "shrinks s ?t" by simp
  show ?thesis
  proof (cases "pg_microphone_allowed g")
    case True
    obtain s1 r1 where m: "mint new_id digest now False ?t = (s1, r1)" by fastforce
    from m show ?thesis
    proof (cases rule: mint_cases)
      case fail
      then have "s' = ?t" "res = Err Persistence" using assms d r True m by (simp_all add: preflight_def)
      then show ?thesis using sh by (intro none) auto
    next
      case (ok e)
      then have "s' = ?t\<lparr>mc_capabilities := btree_insert new_id e (mc_capabilities ?t)\<rparr>"
        "res = Ok (Granted new_id)" using assms d r True m by (simp_all add: preflight_def)
      with ok sh show ?thesis by (intro granted [of ?t e]) auto
    qed
  next
    case False
    show ?thesis
    proof (cases "i64_checked_add now CHALLENGE_TTL_SECS")
      case None
      with assms d r False sh none show ?thesis by (auto simp: preflight_def)
    next
      case (Some x)
      let ?p = "\<lparr>pc_config_digest = digest, pc_expires_at_unix = x, pc_revision = pg_revision g\<rparr>"
      have "s' = ?t\<lparr>mc_challenges := btree_insert new_id ?p (mc_challenges ?t)\<rparr>"
        "res = Ok (ConfirmationRequired new_id)"
        using assms d r False Some by (simp_all add: preflight_def Let_def)
      with sh show ?thesis by (intro challenge [of ?t ?p]) auto
    qed
  qed
qed

lemma decide_cases:
  assumes "decide r1 r2 lk rd w new_id ch dec now (f, s) = ((f', s'), res)"
    and "btree_ok (mc_challenges s)"
  obtains (none) "shrinks s s'" "\<nexists>x. res = Ok (Some x)"
  | (mint) t e pd where "shrinks s t" "s' = t\<lparr>mc_capabilities := btree_insert new_id e (mc_capabilities t)\<rparr>"
      "res = Ok (Some new_id)" "pk_expires_at_unix e = now + 120" "\<not> pk_consumed e"
      "btree_get (mc_challenges s) ch = Some pd" "pk_config_digest e = pc_config_digest pd"
      "dec \<noteq> DenyMic" "pk_allow_once e \<longleftrightarrow> dec = AllowOnce"
proof (cases "btree_get (mc_challenges (prune now s)) ch")
  case None
  then have "s' = prune now s" "res = Err UnknownOrExpiredChallenge"
    using assms(1) by (simp_all add: decide_def Let_def)
  then show ?thesis by (intro none) auto
next
  case (Some pd)
  let ?s1 = "(prune now s)\<lparr>mc_challenges := btree_remove ch (mc_challenges (prune now s))\<rparr>"
  have pd: "btree_get (mc_challenges s) ch = Some pd" using Some assms(2) by (simp add: prune_challenges)
  have sh: "shrinks s ?s1" by simp
  show ?thesis
  proof (cases "pc_expires_at_unix pd \<le> now \<or> (\<nexists>cur. r1 = Ok cur \<and> pg_revision cur = pc_revision pd) \<or> dec = DenyMic")
    case True
    with assms(1) Some sh none show ?thesis
      by (auto simp: decide_def Let_def split: sum.splits if_splits)
  next
    case False
    then obtain cur where cur: "r1 = Ok cur" "pg_revision cur = pc_revision pd" by blast
    have go: thesis
      if m: "mint new_id (pc_config_digest pd) now (dec = AllowOnce) (?s1\<lparr>mc_persisted := g\<rparr>) = (s2, mr)"
        and s': "s' = s2" "res = (case mr of Inl e \<Rightarrow> Err e | Inr c \<Rightarrow> Ok (Some c))" for g s2 mr
      using m
    proof (cases rule: mint_cases)
      case fail
      with s' sh none show ?thesis by simp
    next
      case (ok e)
      with s' sh False pd show ?thesis by (intro mint [of "?s1\<lparr>mc_persisted := g\<rparr>" e pd]) auto
    qed
    show ?thesis
    proof (cases dec)
      case AllowOnce
      with assms(1) Some False cur go [of cur] show ?thesis
        by (auto simp: decide_def Let_def split: prod.splits sum.splits)
    next
      case AllowAlways
      with assms(1) Some False cur go sh none show ?thesis
        by (auto simp: decide_def Let_def split: prod.splits sum.splits option.splits)
    next
      case DenyMic
      with False show ?thesis by simp
    qed
  qed
qed

lemma consume_cases:
  assumes "consume_for_open dg r cap digest now s = (s', res)" and "btree_ok (mc_capabilities s)"
  obtains (none) "shrinks s s'" "\<nexists>a. res = Ok a"
  | (used) t e where "shrinks s t" "btree_get (mc_capabilities s) cap = Some e" "\<not> pk_consumed e"
      "pk_expires_at_unix e > now"
      "s' = t\<lparr>mc_capabilities := btree_insert cap (e\<lparr>pk_consumed := True\<rparr>) (mc_capabilities t)\<rparr>"
      "\<And>a. res = Ok a \<Longrightarrow> pk_config_digest e = ma_config_digest a \<and> pk_revision e = ma_permission_revision a
         \<and> pk_allow_once e = ma_allow_once a \<and> ma_admitted_at_unix a = now"
proof (cases "is_ok (mic_validate_digest digest) \<and> is_ok r \<and> btree_get (mc_capabilities (prune now s)) cap \<noteq> None")
  case False
  with assms(1) show ?thesis
    by (intro none) (auto simp: consume_for_open_def Let_def is_ok_iff split: sum.splits option.splits)
next
  case True
  then obtain e g where d: "mic_validate_digest digest = Ok ()" and r: "r = Ok g"
    and e: "btree_get (mc_capabilities (prune now s)) cap = Some e" by (auto simp: is_ok_iff)
  have live: "btree_get (mc_capabilities s) cap = Some e" "\<not> pk_consumed e" "pk_expires_at_unix e > now"
    using e assms(2) by (simp_all add: prune_caps)
  then have "s' = (prune now s)\<lparr>mc_capabilities :=
        btree_insert cap (e\<lparr>pk_consumed := True\<rparr>) (mc_capabilities (prune now s))\<rparr>"
    using assms(1) d r e by (auto simp: consume_for_open_def Let_def split: if_splits)
  moreover have "pk_config_digest e = ma_config_digest a \<and> pk_revision e = ma_permission_revision a
      \<and> pk_allow_once e = ma_allow_once a \<and> ma_admitted_at_unix a = now" if "res = Ok a" for a
    using that assms(1) d r e live by (auto simp: consume_for_open_def Let_def split: if_splits)
  ultimately show ?thesis using live by (intro used [of "prune now s" e]) auto
qed

lemma revoke_shrinks: "revoke_mic r lk b w (f, s) = ((f', s'), res) \<Longrightarrow> shrinks s s'"
  by (auto simp: revoke_mic_def Let_def split: sum.splits option.splits prod.splits)

section \<open>The invariant\<close>

lemma inv_file [simp]: "mic_inv (y\<lparr>sy_file := f\<rparr>) = mic_inv y"
  by (auto simp: mic_inv_def caps_ok_def challenges_ok_def mint_ok_def admission_ok_def
      split: option.splits prod.splits)

lemma inv_file_first:
  "mic_inv (y\<lparr>sy_file := f, sy_store := s\<rparr>) = mic_inv (y\<lparr>sy_store := s\<rparr>)"
  "mic_inv (y\<lparr>sy_file := f, sy_store := s, sy_used := u, sy_mints := ms\<rparr>)
     = mic_inv (y\<lparr>sy_store := s, sy_used := u, sy_mints := ms\<rparr>)"
  using inv_file [where y = "y\<lparr>sy_store := s\<rparr>" and f = f]
    inv_file [where y = "y\<lparr>sy_store := s, sy_used := u, sy_mints := ms\<rparr>" and f = f]
  by (cases y, simp)+

lemma inv_used: "mic_inv y \<Longrightarrow> mic_inv (y\<lparr>sy_used := insert i (sy_used y)\<rparr>)"
  by (auto simp: mic_inv_def caps_ok_def challenges_ok_def mint_ok_def admission_ok_def
      split: option.splits prod.splits)

lemma inv_shrink:
  assumes "mic_inv y" and "shrinks (sy_store y) s"
  shows "mic_inv (y\<lparr>sy_store := s\<rparr>)"
  using assms by (auto simp: mic_inv_def caps_ok_def challenges_ok_def shrinks_def mint_ok_def admission_ok_def
      split: option.splits prod.splits)

lemma inv_issue:
  assumes "mic_inv y"
  shows "mic_inv (y\<lparr>sy_store := (sy_store y)\<lparr>mc_challenges := btree_insert c pd (mc_challenges (sy_store y))\<rparr>,
    sy_issued := (c, pc_config_digest pd) # sy_issued y\<rparr>)"
  using assms by (auto simp: mic_inv_def caps_ok_def challenges_ok_def mint_ok_def admission_ok_def
      btree_get_insert btree_ok_insert split: if_splits option.splits)

lemma inv_mint:
  assumes inv: "mic_inv y" and fresh: "i \<notin> fst ` set (sy_admissions y)"
    and e: "\<not> pk_consumed e" and m: "mm_id m = i" "mm_entry m = e" "mint_ok y m" and i: "i \<in> sy_used y"
  shows "mic_inv (y\<lparr>sy_store := (sy_store y)\<lparr>mc_capabilities := btree_insert i e (mc_capabilities (sy_store y))\<rparr>,
    sy_mints := m # sy_mints y\<rparr>)"
proof -
  have "e = e\<lparr>pk_consumed := False\<rparr>" using e by simp
  moreover have "mint_ok (y\<lparr>sy_store := s, sy_mints := ms\<rparr>) = mint_ok y" for s ms
    by (rule ext) (simp add: mint_ok_def split: option.splits prod.splits)
  ultimately show ?thesis using assms
    by (auto simp: mic_inv_def caps_ok_def challenges_ok_def admission_ok_def btree_get_insert btree_ok_insert)
qed

lemma inv_admit:
  assumes inv: "mic_inv y" and e: "btree_get (mc_capabilities (sy_store y)) i = Some e" "\<not> pk_consumed e"
    and sh: "shrinks (sy_store y) t"
    and a: "\<And>a. r = Ok a \<Longrightarrow> pk_config_digest e = ma_config_digest a \<and> pk_revision e = ma_permission_revision a
         \<and> pk_allow_once e = ma_allow_once a \<and> ma_admitted_at_unix a < pk_expires_at_unix e"
  shows "mic_inv (y\<lparr>sy_store := t\<lparr>mc_capabilities := btree_insert i (e\<lparr>pk_consumed := True\<rparr>) (mc_capabilities t)\<rparr>,
    sy_admissions := (case r of Inl _ \<Rightarrow> [] | Inr a \<Rightarrow> [(i, a)]) @ sy_admissions y\<rparr>)"
proof -
  let ?y = "y\<lparr>sy_store := t\<rparr>"
  have y: "mic_inv ?y" by (rule inv_shrink [OF inv sh])
  from inv e obtain m where m: "m \<in> set (sy_mints y)" "mm_id m = i" "mm_entry m = e\<lparr>pk_consumed := False\<rparr>"
    and i: "i \<in> sy_used y" "i \<notin> fst ` set (sy_admissions y)"
    unfolding mic_inv_def caps_ok_def by blast
  then have "pk_expires_at_unix (mm_entry m) = mm_time m + 120" using inv by (auto simp: mic_inv_def mint_ok_def)
  with m have t: "pk_expires_at_unix e = mm_time m + 120" by simp
  have mok: "mint_ok (y\<lparr>sy_store := s, sy_admissions := as\<rparr>) = mint_ok ?y" for s as
    by (rule ext) (simp add: mint_ok_def split: option.splits prod.splits)
  have aok: "admission_ok (y\<lparr>sy_store := s, sy_admissions := as\<rparr>) = admission_ok ?y" for s as
    by (rule ext) (simp add: admission_ok_def)
  have new: "admission_ok ?y (i, a)" if "r = Ok a" for a
    using a [OF that] m i t by (auto simp: admission_ok_def intro!: bexI [of _ m])
  from y m i new show ?thesis
    unfolding mic_inv_def mok aok
    by (auto simp: caps_ok_def challenges_ok_def btree_get_insert btree_ok_insert split: sum.split)
qed

lemma inv_unadmitted: "mic_inv y \<Longrightarrow> i \<notin> sy_used y \<Longrightarrow> i \<notin> fst ` set (sy_admissions y)"
  by (auto simp: mic_inv_def admission_ok_def)

lemma used_before_store [simp]: "y\<lparr>sy_used := u, sy_store := s\<rparr> = y\<lparr>sy_store := s, sy_used := u\<rparr>"
  by (cases y) simp

lemma inv_store_used:
  assumes "mic_inv y" and "shrinks (sy_store y) t"
  shows "mic_inv (y\<lparr>sy_store := t, sy_used := insert i (sy_used y)\<rparr>)"
  using inv_used [OF inv_shrink [OF assms], of i] by simp

lemma inv_preflight:
  assumes inv: "mic_inv y" and new: "new_id \<notin> sy_used y"
    and p: "preflight r new_id digest now (sy_store y) = (s', res)"
  shows "mic_inv (y\<lparr>sy_store := s', sy_used := insert new_id (sy_used y),
     sy_issued := (if res = Ok (ConfirmationRequired new_id) then [(new_id, digest)] else []) @ sy_issued y,
     sy_mints := (if res = Ok (Granted new_id) then [minted new_id now None s'] else []) @ sy_mints y\<rparr>)"
  using p
proof (cases rule: preflight_cases)
  case none
  then show ?thesis using inv_store_used [OF inv, of s'] by auto
next
  case (granted t e)
  let ?y = "y\<lparr>sy_store := t, sy_used := insert new_id (sy_used y)\<rparr>"
  have "mic_inv ?y" using granted(1) by (rule inv_store_used [OF inv])
  then have "mic_inv (?y\<lparr>sy_store := s', sy_mints := minted new_id now None s' # sy_mints ?y\<rparr>)"
    using inv_mint [of ?y new_id e "minted new_id now None s'"] inv_unadmitted [OF inv new] granted
    by (simp add: minted_def mint_ok_def btree_get_insert)
  then show ?thesis using granted by simp
next
  case (challenge t pd)
  let ?y = "y\<lparr>sy_store := t, sy_used := insert new_id (sy_used y)\<rparr>"
  have "mic_inv ?y" using challenge(1) by (rule inv_store_used [OF inv])
  from inv_issue [OF this, of new_id pd] show ?thesis using challenge by simp
qed

lemma inv_decide:
  assumes inv: "mic_inv y" and new: "new_id \<notin> sy_used y"
    and d: "decide r1 r2 lk b w new_id ch dec now (f, sy_store y) = ((f', s'), res)"
  shows "mic_inv (y\<lparr>sy_store := s', sy_used := insert new_id (sy_used y),
     sy_mints := (if res = Ok (Some new_id) then [minted new_id now (Some (ch, dec)) s'] else []) @ sy_mints y\<rparr>)"
proof -
  have ok: "btree_ok (mc_challenges (sy_store y))" using inv by (simp add: mic_inv_def challenges_ok_def)
  from d ok show ?thesis
  proof (cases rule: decide_cases)
    case none
    then show ?thesis using inv_store_used [OF inv, of s'] by auto
  next
    case (mint t e pd)
    let ?y = "y\<lparr>sy_store := t, sy_used := insert new_id (sy_used y)\<rparr>"
    have "mic_inv ?y" using mint(1) by (rule inv_store_used [OF inv])
    moreover have "(ch, pc_config_digest pd) \<in> set (sy_issued y)"
      using inv mint by (auto simp: mic_inv_def challenges_ok_def)
    ultimately have "mic_inv (?y\<lparr>sy_store := s', sy_mints := minted new_id now (Some (ch, dec)) s' # sy_mints ?y\<rparr>)"
      using inv_mint [of ?y new_id e "minted new_id now (Some (ch, dec)) s'"] inv_unadmitted [OF inv new] mint
      by (simp add: minted_def mint_ok_def btree_get_insert)
    then show ?thesis using mint by simp
  qed
qed

lemma inv_consume:
  assumes inv: "mic_inv y" and c: "consume_for_open dg r cap digest now (sy_store y) = (s', res)"
  shows "mic_inv (y\<lparr>sy_store := s', sy_admissions := (case res of Inl _ \<Rightarrow> [] | Inr a \<Rightarrow> [(cap, a)]) @ sy_admissions y\<rparr>)"
proof -
  have ok: "btree_ok (mc_capabilities (sy_store y))" using inv by (simp add: mic_inv_def caps_ok_def)
  from c ok show ?thesis
  proof (cases rule: consume_cases)
    case none
    then show ?thesis using inv_shrink [OF inv, of s'] by (cases res) auto
  next
    case (used t e)
    then show ?thesis using inv_admit [OF inv, of cap e t res] by auto
  qed
qed

lemma mic_open_empty: "mic_open home r = Ok s \<Longrightarrow> mc_challenges s = [] \<and> mc_capabilities s = []"
  by (cases r) (auto simp: mic_open_def)

interpretation mic: invariant_system mic_init "mic_step dg" mic_inv for dg
proof unfold_locales
  show "mic_inv y" if "mic_init y" for y
    using that by (auto simp: mic_init_def mic_inv_def caps_ok_def challenges_ok_def dest!: mic_open_empty)
  show "mic_inv z" if "mic_inv y" "mic_step dg y z" for y z
    using that(2,1)
  proof cases
    case (mic_decide new_id f2 f3 b1 b2 lk b3 w ch dec now f' s' res)
    then show ?thesis using inv_decide [OF that(1), of new_id _ _ lk b3 w ch dec now f3 f' s' res]
        inv_file_first [where y = y and f = f'] by simp
  next
    case (mic_revoke f2 b1 lk b2 w f' s' res)
    then show ?thesis using inv_shrink [OF that(1) revoke_shrinks, of _ lk b2 w f2 f' s' res]
        inv_file_first [where y = y and f = f'] by simp
  next
    case (mic_preflight new_id b digest now s' res)
    show ?thesis unfolding mic_preflight(1) by (rule inv_preflight [OF that(1) mic_preflight(2,3)])
  next
    case (mic_consume b cap digest now s' res)
    show ?thesis unfolding mic_consume(1) by (rule inv_consume [OF that(1) mic_consume(2)])
  qed simp
qed

section \<open>Properties\<close>

text \<open>
  C12: every admission to open the device is consented. In every execution, with other
  processes replacing the grant file at any point, no capability is admitted twice, and each
  admission stems from a capability minted less than 120 seconds before, for the same
  configuration digest, permission revision and once flag. A once admission goes back to an
  \<open>AllowOnce\<close> decision on a challenge that was issued for that very configuration.
\<close>

theorem every_open_is_consented:
  assumes "reachable mic_init (mic_step dg) y"
  shows "distinct (map fst (sy_admissions y)) \<and>
    (\<forall>(cap, a) \<in> set (sy_admissions y). \<exists>m \<in> set (sy_mints y).
       mm_id m = cap \<and> pk_config_digest (mm_entry m) = ma_config_digest a
       \<and> pk_revision (mm_entry m) = ma_permission_revision a
       \<and> ma_admitted_at_unix a < mm_time m + 120
       \<and> (ma_allow_once a \<longrightarrow> (\<exists>c. mm_origin m = Some (c, AllowOnce)
              \<and> (c, ma_config_digest a) \<in> set (sy_issued y))))"
proof -
  have inv: "mic_inv y" by (rule mic.reachable_inv [OF assms])
  { fix cap a assume "(cap, a) \<in> set (sy_admissions y)"
    with inv have "admission_ok y (cap, a)" by (auto simp: mic_inv_def)
    then obtain m where m: "m \<in> set (sy_mints y)" "mm_id m = cap"
      "pk_config_digest (mm_entry m) = ma_config_digest a"
      "pk_revision (mm_entry m) = ma_permission_revision a" "pk_allow_once (mm_entry m) = ma_allow_once a"
      "ma_admitted_at_unix a < mm_time m + 120" by (auto simp: admission_ok_def)
    have "mint_ok y m" using inv m by (auto simp: mic_inv_def)
    then have "\<exists>c. mm_origin m = Some (c, AllowOnce) \<and> (c, ma_config_digest a) \<in> set (sy_issued y)"
      if "ma_allow_once a" using that m by (auto simp: mint_ok_def split: option.splits)
    with m have "\<exists>m \<in> set (sy_mints y). mm_id m = cap \<and> pk_config_digest (mm_entry m) = ma_config_digest a
       \<and> pk_revision (mm_entry m) = ma_permission_revision a \<and> ma_admitted_at_unix a < mm_time m + 120
       \<and> (ma_allow_once a \<longrightarrow> (\<exists>c. mm_origin m = Some (c, AllowOnce)
              \<and> (c, ma_config_digest a) \<in> set (sy_issued y)))" by blast }
  then show ?thesis using inv by (auto simp: mic_inv_def)
qed

lemma commit_state_ok:
  assumes "commit_state lk b w f rv g = (f', Ok ())"
  shows "f' = Some g \<and> file_revision f = unat rv"
  using assms by (auto simp: commit_state_def read_current_def file_revision_def no_grant_def
      split: if_splits option.splits sum.splits write_outcome.splits)

lemma revoke_ok:
  assumes "revoke_mic r lk b w (f, s) = ((f', s'), Ok ())"
  shows "file_revision f' = Suc (file_revision f) \<and> mc_capabilities s' = [] \<and> mc_challenges s' = []"
  using assms by (auto simp: revoke_mic_def Let_def checked_add_Some file_revision_def
      split: sum.splits option.splits prod.splits dest!: commit_state_ok)

lemma read_after_revision:
  assumes "file_le f f'" and "read_current b f' = Ok g"
  shows "file_revision f \<le> unat (pg_revision g)"
  using assms by (auto simp: read_current_def file_le_def file_revision_def no_grant_def
      split: if_splits option.splits)

text \<open>
  Revocation is final across processes. Once a revocation has succeeded, the revoking
  store holds no capability and no challenge, and against every later state of the grant
  file, in any process' store, no capability minted under the revoked or an earlier revision
  is admitted and no terminal admission of such a revision passes the check made right before
  the device is opened, not even a once grant.
\<close>

theorem revocation_is_final:
  assumes "revoke_mic r lk b w (f, s) = ((f', s'), Ok ())"
    and "file_le f' f''"
    and "unat rv \<le> file_revision f"
    and "btree_ok (mc_capabilities t)" and "btree_get (mc_capabilities t) cap = Some e" and "pk_revision e = rv"
  shows "mc_capabilities s' = [] \<and> mc_challenges s' = []
    \<and> \<not> is_ok (snd (consume_for_open dg (read_current b' f'') cap digest now t))
    \<and> \<not> is_ok (revalidate_terminal_for_device_open dg (read_current b' f'') t home digest rv once)"
proof -
  have newer: "pg_revision g \<noteq> rv" if "read_current b' f'' = Ok g" for g
    using read_after_revision [OF assms(2) that] revoke_ok [OF assms(1)] assms(3) by auto
  obtain t' res where c: "consume_for_open dg (read_current b' f'') cap digest now t = (t', res)" by fastforce
  have "\<not> is_ok res"
    using c newer prune_caps(2) [OF assms(4)] assms(5,6)
    by (auto simp: consume_for_open_def Let_def is_ok_iff split: sum.splits option.splits if_splits)
  moreover have "\<not> is_ok (revalidate_terminal_for_device_open dg (read_current b' f'') t home digest rv once)"
    using newer by (auto simp: revalidate_terminal_for_device_open_def split: sum.splits)
  ultimately show ?thesis using revoke_ok [OF assms(1)] c by simp
qed

section \<open>A consented opening\<close>

definition mic_digest :: string where "mic_digest = replicate 64 (CHR ''a'')"

definition mic_start :: mic_sys where
  "mic_start = \<lparr>sy_file = None,
     sy_store = \<lparr>mc_home = ''/h'', mc_persisted = no_grant, mc_challenges = [], mc_capabilities = []\<rparr>,
     sy_used = {}, sy_issued = [], sy_mints = [], sy_admissions = []\<rparr>"

definition mic_after_preflight :: mic_sys where
  "mic_after_preflight = mic_start\<lparr>
     sy_store := fst (preflight (read_current True None) ''c'' mic_digest 10 (sy_store mic_start)),
     sy_used := {''c''}, sy_issued := [(''c'', mic_digest)]\<rparr>"

definition mic_after_decide :: mic_sys where
  "mic_after_decide = (let s' = snd (fst (decide (read_current True None) (read_current True None) True True Written
       ''k'' ''c'' AllowOnce 20 (None, sy_store mic_after_preflight)))
     in mic_after_preflight\<lparr>sy_store := s', sy_used := {''k'', ''c''},
          sy_mints := [minted ''k'' 20 (Some (''c'', AllowOnce)) s']\<rparr>)"

definition mic_after_consume :: mic_sys where
  "mic_after_consume = (let r = consume_for_open (\<lambda>_. ''op'') (read_current True None) ''k'' mic_digest 30
       (sy_store mic_after_decide)
     in mic_after_decide\<lparr>sy_store := fst r,
          sy_admissions := (case snd r of Inl _ \<Rightarrow> [] | Inr a \<Rightarrow> [(''k'', a)])\<rparr>)"

lemma mic_digest_ok: "mic_validate_digest mic_digest = Ok ()"
  by code_simp

lemmas mic_run_defs = mic_after_consume_def mic_after_decide_def mic_after_preflight_def mic_start_def

lemma mic_run_step1: "mic_step (\<lambda>_. ''op'') mic_start mic_after_preflight"
proof -
  have "preflight (read_current True (sy_file mic_start)) ''c'' mic_digest 10 (sy_store mic_start)
      = (sy_store mic_after_preflight, Ok (ConfirmationRequired ''c''))" by code_simp
  from mic_preflight [OF _ this] show ?thesis
    by (simp add: mic_after_preflight_def) (simp add: mic_start_def)
qed

lemma mic_run_step2: "mic_step (\<lambda>_. ''op'') mic_after_preflight mic_after_decide"
proof -
  have "decide (read_current True (sy_file mic_after_preflight)) (read_current True None) True True Written
       ''k'' ''c'' AllowOnce 20 (None, sy_store mic_after_preflight)
      = ((None, sy_store mic_after_decide), Ok (Some ''k''))" by code_simp
  from mic_decide [OF _ _ _ this] show ?thesis
    by (simp add: mic_after_decide_def Let_def file_le_def) (simp add: mic_after_preflight_def mic_start_def)
qed

lemma mic_run_step3: "mic_step (\<lambda>_. ''op'') mic_after_decide mic_after_consume"
proof -
  have "consume_for_open (\<lambda>_. ''op'') (read_current True (sy_file mic_after_decide)) ''k'' mic_digest 30
       (sy_store mic_after_decide)
      = (sy_store mic_after_consume, snd (consume_for_open (\<lambda>_. ''op'') (read_current True None) ''k'' mic_digest 30
       (sy_store mic_after_decide)))" by code_simp
  from mic_consume [OF this] show ?thesis
    by (simp add: mic_after_consume_def Let_def) (simp add: mic_after_decide_def mic_after_preflight_def mic_start_def Let_def)
qed

lemma mic_run: "reachable mic_init (mic_step (\<lambda>_. ''op'')) mic_after_consume"
proof -
  have "mic_init mic_start"
    by (auto simp: mic_init_def mic_start_def mic_open_def read_current_def intro!: exI [of _ True])
  then show ?thesis
    using mic_run_step1 mic_run_step2 mic_run_step3 by (meson reachable_init reachable_step)
qed

theorem every_open_is_consented_witness:
  "map fst (sy_admissions mic_after_consume) = [''k''] \<and>
   (\<exists>m \<in> set (sy_mints mic_after_consume). mm_id m = ''k'' \<and> mm_origin m = Some (''c'', AllowOnce))"
proof -
  have one: "map fst (sy_admissions mic_after_consume) = [''k'']" by code_simp
  then obtain a where a: "(''k'', a) \<in> set (sy_admissions mic_after_consume)" by auto
  have "list_all (\<lambda>ia. ma_allow_once (snd ia)) (sy_admissions mic_after_consume)" by code_simp
  with a have "ma_allow_once a" by (auto simp: list_all_iff)
  then obtain m c where m: "m \<in> set (sy_mints mic_after_consume)" "mm_id m = ''k''" "mm_origin m = Some (c, AllowOnce)"
    using every_open_is_consented [OF mic_run] a by fast
  have "map mm_origin (sy_mints mic_after_consume) = [Some (''c'', AllowOnce)]" by code_simp
  with m have "c = ''c''" by auto
  with one m show ?thesis by blast
qed

theorem revocation_is_final_witness:
  "\<not> is_ok (snd (consume_for_open (\<lambda>_. ''op'') (read_current True
       (fst (fst (revoke_mic (read_current True None) True True Written (None, sy_store mic_after_decide)))))
     ''k'' mic_digest 30 (sy_store mic_after_decide)))"
proof -
  let ?s = "sy_store mic_after_decide"
  let ?r = "revoke_mic (read_current True None) True True Written (None, ?s)"
  have "?r = ((fst (fst ?r), snd (fst ?r)), Ok ())"
    by (simp add: revoke_mic_def read_current_def no_grant_def checked_add_def commit_state_def Let_def)
  moreover have "file_le (fst (fst ?r)) (fst (fst ?r))" by (simp add: file_le_def)
  moreover have "unat (0::u64) \<le> file_revision None" by simp
  moreover have "btree_ok (mc_capabilities ?s)" by code_simp
  moreover have "btree_get (mc_capabilities ?s) ''k'' = Some (the (btree_get (mc_capabilities ?s) ''k''))"
    "pk_revision (the (btree_get (mc_capabilities ?s) ''k'')) = 0" by code_simp+
  ultimately show ?thesis using revocation_is_final by blast
qed

end
