(* ===== verification/Budget_Types.thy ===== *)
theory Budget_Types
  imports Neoth_Prelude
begin

text \<open>
  The replicated command and receipt types of the budget authority,
  \<open>src/SRC/neothd/src/cluster/budget_raft/types.rs\<close>: the frozen cluster
  configuration with its scope hash and validation, the commands, receipts, replies and
  rejections, and the identifier checks. Opaque identifiers are strings; \<open>u64\<close>
  amounts, terms and indices are words, the \<open>i64\<close> window is an integer. The
  parameter \<open>dg\<close> stands for \<open>hex::encode\<close> of the SHA-256 of a byte string
  (crates \<open>sha2\<close> and \<open>hex\<close>).
\<close>

section \<open>Identifier checks\<close>

definition is_identifier :: "string \<Rightarrow> bool" where
  "is_identifier v \<longleftrightarrow> v \<noteq> [] \<and> length v \<le> 512 \<and> trim v = v
     \<and> \<not> list_ex (\<lambda>ch. is_control (scalar_of ch)) (utf8_chunks v)"

definition is_sha256_hex :: "string \<Rightarrow> bool" where
  "is_sha256_hex v \<longleftrightarrow> length v = 64 \<and> v = to_ascii_lowercase v \<and> list_all is_ascii_hexdigit v"

definition is_uuid_v7 :: "string \<Rightarrow> bool" where
  "is_uuid_v7 v \<longleftrightarrow>
     (if length v \<noteq> 36 \<or> v ! 14 \<noteq> CHR ''7'' \<or> v ! 19 \<notin> set ''89ab'' then False
      else list_all (\<lambda>(index, byte).
             if index \<in> {8, 13, 18, 23} then byte = CHR ''-''
             else is_ascii_digit byte \<or> byte \<in> set ''abcdef'') (List.enumerate 0 v))"

section \<open>Hash preimages\<close>

definition i64_to_le :: "int \<Rightarrow> bytes" where
  "i64_to_le v = nat_to_le 8 (nat (v mod 2 ^ 64))"

definition update_part :: "bytes \<Rightarrow> bytes" where
  "update_part part = u64_to_le (word_of_nat (length part)) @ part"

definition fence_preimage :: "bytes \<Rightarrow> bytes list \<Rightarrow> bytes" where
  "fence_preimage domain parts = domain @ concat (map update_part parts)"

definition fence_hash :: "(bytes \<Rightarrow> string) \<Rightarrow> bytes \<Rightarrow> bytes list \<Rightarrow> string" where
  "fence_hash dg domain parts = dg (fence_preimage domain parts)"

section \<open>The frozen configuration\<close>

type_synonym stable_node_id = string
type_synonym transport_identity = string
type_synonym budget_grant_id = string

datatype budget_rejection = Rej_InvalidConfig | Rej_InvalidCommand | Rej_GrantConflict
  | Rej_CapExceeded | Rej_UnknownGrant | Rej_FenceMismatch | Rej_OwnerMismatch
  | Rej_UnauthorizedOwner | Rej_AttemptMismatch | Rej_IntentMismatch | Rej_NotClaimed
  | Rej_ReleaseAfterClaim | Rej_AlreadyReleased | Rej_Overrun | Rej_ScopeMismatch
  | Rej_WindowMismatch

record committed_log_position =
  clp_term :: u64
  clp_index :: u64

record budget_cluster_config =
  bc_cluster_id :: string
  bc_membership_epoch :: u64
  bc_voters :: "(stable_node_id, transport_identity) btree"
  bc_cap_usd_nanos :: u64
  bc_utc_window :: int
  bc_scope_hash :: string

definition scope_preimage :: "budget_cluster_config \<Rightarrow> bytes" where
  "scope_preimage c = str_bytes ''neoth.budget.scope.v1'' @ [0]
     @ update_part (str_bytes (bc_cluster_id c))
     @ update_part (u64_to_le (bc_membership_epoch c))
     @ update_part (u64_to_le (bc_cap_usd_nanos c))
     @ update_part (i64_to_le (bc_utc_window c))
     @ concat (map (\<lambda>(node, transport). update_part (str_bytes node) @ update_part (str_bytes transport))
         (bc_voters c))"

definition expected_scope_hash :: "(bytes \<Rightarrow> string) \<Rightarrow> budget_cluster_config \<Rightarrow> string" where
  "expected_scope_hash dg c = dg (scope_preimage c)"

text \<open>The loop over the voters with the set of transport identities seen so far.\<close>

fun validate_voters :: "transport_identity list \<Rightarrow> (stable_node_id \<times> transport_identity) list \<Rightarrow> bool" where
  "validate_voters transports [] = True"
| "validate_voters transports ((node, transport) # vs) =
     (is_sha256_hex node \<and> is_identifier transport \<and> transport \<notin> set transports
      \<and> validate_voters (transport # transports) vs)"

definition validate_shape :: "budget_cluster_config \<Rightarrow> budget_rejection + unit" where
  "validate_shape c =
     (if \<not> is_identifier (bc_cluster_id c) \<or> bc_membership_epoch c = 0 \<or> bc_cap_usd_nanos c = 0
        then Err Rej_InvalidConfig
      else if length (bc_voters c) \<noteq> 3 then Err Rej_InvalidConfig
      else if \<not> validate_voters [] (bc_voters c) then Err Rej_InvalidConfig
      else Ok ())"

definition config_validate :: "(bytes \<Rightarrow> string) \<Rightarrow> budget_cluster_config \<Rightarrow> budget_rejection + unit" where
  "config_validate dg c =
     (case validate_shape c of
        Inl e \<Rightarrow> Err e
      | Inr _ \<Rightarrow>
          if \<not> is_sha256_hex (bc_scope_hash c) \<or> bc_scope_hash c \<noteq> expected_scope_hash dg c
          then Err Rej_InvalidConfig else Ok ())"

definition config_new ::
    "(bytes \<Rightarrow> string) \<Rightarrow> string \<Rightarrow> u64 \<Rightarrow> (stable_node_id, transport_identity) btree \<Rightarrow> u64 \<Rightarrow> int
     \<Rightarrow> budget_rejection + budget_cluster_config" where
  "config_new dg cluster_id epoch voters cap window =
     (let config = \<lparr>bc_cluster_id = cluster_id, bc_membership_epoch = epoch, bc_voters = voters,
            bc_cap_usd_nanos = cap, bc_utc_window = window, bc_scope_hash = []\<rparr>
      in case validate_shape config of
           Inl e \<Rightarrow> Err e
         | Inr _ \<Rightarrow> Ok (config\<lparr>bc_scope_hash := expected_scope_hash dg config\<rparr>))"

definition raft_node_id :: "budget_cluster_config \<Rightarrow> stable_node_id \<Rightarrow> nat option" where
  "raft_node_id c node = map_option (\<lambda>i. i + 1) (position (\<lambda>cand. cand = node) (map fst (bc_voters c)))"

text \<open>The address string of the \<open>BasicNode\<close> stands for the node.\<close>

definition raft_voters :: "budget_cluster_config \<Rightarrow> (nat, string) btree" where
  "raft_voters c = map (\<lambda>(index, node). (index + 1, ''frozen:'' @ node))
     (List.enumerate 0 (map fst (bc_voters c)))"

section \<open>Commands, receipts and replies\<close>

record reserve_budget =
  rb_grant_id :: budget_grant_id
  rb_provider_intent_id :: string
  rb_request_fingerprint :: string
  rb_scope_hash :: string
  rb_reserved_usd_nanos :: u64
  rb_utc_window :: int

record begin_dispatch_cmd =
  bd_grant_id :: budget_grant_id
  bd_reserve_fence :: string
  bd_owner :: stable_node_id
  bd_attempt_id :: string
  bd_provider_intent_id :: string

record settle_budget =
  sb_grant_id :: budget_grant_id
  sb_dispatch_fence :: string
  sb_owner :: stable_node_id
  sb_attempt_id :: string
  sb_actual_usd_nanos :: "u64 option"

datatype budget_command = Cmd_Reserve reserve_budget | Cmd_BeginDispatch begin_dispatch_cmd
  | Cmd_Settle settle_budget | Cmd_ReleaseBeforeClaim budget_grant_id string

record reserved_grant =
  rg_grant_id :: budget_grant_id
  rg_reserve_fence :: string
  rg_committed_at :: committed_log_position
  rg_scope_hash :: string
  rg_provider_intent_id :: string
  rg_request_fingerprint :: string
  rg_reserved_usd_nanos :: u64

record claim_receipt =
  cl_grant_id :: budget_grant_id
  cl_dispatch_fence :: string
  cl_committed_at :: committed_log_position
  cl_owner :: stable_node_id
  cl_attempt_id :: string
  cl_provider_intent_id :: string

datatype grant_terminal = T_Settled u64 bool | T_ReleasedBeforeClaim

record grant_receipt =
  gr_grant_id :: budget_grant_id
  gr_committed_at :: committed_log_position
  gr_terminal_fence :: string
  gr_terminal :: grant_terminal

datatype budget_reply = Reserved_reply reserved_grant | AlreadyReserved reserved_grant
  | NewClaimed claim_receipt | AlreadyClaimed claim_receipt | ReconcileOnly claim_receipt
  | Settled_reply grant_receipt | Released_reply grant_receipt | Rejected budget_rejection

section \<open>Lemmas on configurations\<close>

lemma validate_voters_iff:
  "validate_voters ts vs \<longleftrightarrow> (\<forall>(n, t) \<in> set vs. is_sha256_hex n \<and> is_identifier t \<and> t \<notin> set ts)
     \<and> distinct (map snd vs)"
  by (induction ts vs rule: validate_voters.induct) force+

lemma validate_shape_Ok:
  "validate_shape c = Ok () \<longleftrightarrow> is_identifier (bc_cluster_id c) \<and> bc_membership_epoch c \<noteq> 0
     \<and> bc_cap_usd_nanos c \<noteq> 0 \<and> length (bc_voters c) = 3 \<and> validate_voters [] (bc_voters c)"
  by (simp add: validate_shape_def)

lemma config_validate_Ok:
  "config_validate dg c = Ok () \<longleftrightarrow> validate_shape c = Ok () \<and> is_sha256_hex (bc_scope_hash c)
     \<and> bc_scope_hash c = expected_scope_hash dg c"
  by (auto simp: config_validate_def split: sum.splits)

lemma scope_preimage_hash:
  "scope_preimage \<lparr>bc_cluster_id = cid, bc_membership_epoch = e, bc_voters = vs,
     bc_cap_usd_nanos = cap, bc_utc_window = w, bc_scope_hash = dg (scope_preimage
       \<lparr>bc_cluster_id = cid, bc_membership_epoch = e, bc_voters = vs,
         bc_cap_usd_nanos = cap, bc_utc_window = w, bc_scope_hash = h\<rparr>)\<rparr> =
   scope_preimage \<lparr>bc_cluster_id = cid, bc_membership_epoch = e, bc_voters = vs,
     bc_cap_usd_nanos = cap, bc_utc_window = w, bc_scope_hash = h\<rparr>"
  by (simp add: scope_preimage_def)

lemma config_new_Ok:
  assumes "config_new dg cid epoch voters cap window = Ok c" and "\<And>b. is_sha256_hex (dg b)"
  shows "config_validate dg c = Ok () \<and> bc_voters c = voters \<and> bc_membership_epoch c = epoch
    \<and> bc_cap_usd_nanos c = cap \<and> bc_utc_window c = window \<and> bc_cluster_id c = cid"
  using assms by (auto simp: config_new_def Let_def config_validate_Ok validate_shape_Ok
      expected_scope_hash_def scope_preimage_hash split: sum.splits)

lemma raft_node_id_bounds:
  "raft_node_id c n = Some i \<Longrightarrow> 0 < i \<and> i \<le> length (bc_voters c) \<and> fst (bc_voters c ! (i - 1)) = n"
  by (auto simp: raft_node_id_def dest!: position_Some)

lemma raft_node_id_unique:
  "raft_node_id c n = Some i \<Longrightarrow> raft_node_id c m = Some i \<Longrightarrow> n = m"
  using raft_node_id_bounds by blast

section \<open>Preimages determine their parts\<close>

lemma update_part_split:
  assumes "length p < 2 ^ 64" "length q < 2 ^ 64"
  shows "update_part p @ x = update_part q @ y \<longleftrightarrow> p = q \<and> x = y"
proof
  assume eq: "update_part p @ x = update_part q @ y"
  then have "u64_to_le (word_of_nat (length p)) = u64_to_le (word_of_nat (length q))"
    and rest: "p @ x = q @ y"
    by (simp_all add: update_part_def)
  then have "u64_of_le (u64_to_le (word_of_nat (length p))) = u64_of_le (u64_to_le (word_of_nat (length q)))"
    by simp
  then have "length p = length q" using assms by (simp add: u64_len_inj)
  with rest show "p = q \<and> x = y" by simp
qed simp

lemma fence_preimage_inj:
  assumes "length ps = length qs" "\<forall>p \<in> set ps. length p < 2 ^ 64" "\<forall>q \<in> set qs. length q < 2 ^ 64"
    "fence_preimage d ps = fence_preimage d qs"
  shows "ps = qs"
proof -
  have "concat (map update_part ps) = concat (map update_part qs)"
    using assms(4) by (simp add: fence_preimage_def)
  with assms(1-3) show ?thesis
    by (induction ps qs rule: list_induct2) (auto simp: update_part_split)
qed

lemma u64_to_le_inj [simp]: "u64_to_le v = u64_to_le w \<longleftrightarrow> v = w"
  by (metis of_le_to_le(3))

section \<open>Sufficient conditions for the identifier checks\<close>

lemma identifier_ascii:
  assumes "s \<noteq> []" "length s \<le> 512" "list_all (\<lambda>c. 32 < code_of c \<and> code_of c < 127) s"
  shows "is_identifier s"
proof -
  have a: "list_all (\<lambda>c. code_of c < 128) s"
    using assms(3) by (auto simp: list_all_iff)
  have "list_all (\<lambda>c. code_of c < 128 \<and> \<not> is_whitespace (code_of c)) s"
    using assms(3) by (auto simp: list_all_iff is_whitespace_def)
  then have "trim s = s" by (rule trim_ascii)
  moreover have "\<not> list_ex (\<lambda>ch. is_control (scalar_of ch)) (utf8_chunks s)"
    using assms(3) by (auto simp: utf8_chunks_ascii [OF a] list_ex_iff list_all_iff is_control_def)
  ultimately show ?thesis using assms by (simp add: is_identifier_def)
qed

lemma sha256_hex_replicate:
  assumes "is_ascii_digit c \<or> 97 \<le> code_of c \<and> code_of c \<le> 102"
  shows "is_sha256_hex (replicate 64 c)"
proof -
  have "ascii_lower c = c"
    using assms by (auto simp: ascii_lower_def is_ascii_uppercase_def is_ascii_digit_def)
  then show ?thesis
    using assms by (auto simp: is_sha256_hex_def to_ascii_lowercase_def map_replicate list_all_iff is_ascii_hexdigit_def)
qed

section \<open>A sample configuration\<close>

definition sample_digest :: "bytes \<Rightarrow> string" where
  "sample_digest _ = replicate 64 CHR ''a''"

definition sample_config :: budget_cluster_config where
  "sample_config = \<lparr>bc_cluster_id = ''mesh'', bc_membership_epoch = 7,
     bc_voters = [(replicate 64 CHR ''1'', ''ka''), (replicate 64 CHR ''2'', ''kb''), (replicate 64 CHR ''3'', ''kc'')],
     bc_cap_usd_nanos = 100, bc_utc_window = 20260923, bc_scope_hash = replicate 64 CHR ''a''\<rparr>"

lemma sample_hex: "is_sha256_hex (replicate 64 CHR ''1'')" "is_sha256_hex (replicate 64 CHR ''2'')"
    "is_sha256_hex (replicate 64 CHR ''3'')" "is_sha256_hex (replicate 64 CHR ''a'')"
    "is_sha256_hex (replicate 64 CHR ''f'')"
  by (rule sha256_hex_replicate, simp add: is_ascii_digit_def code_of_def)+

lemma sample_ids: "is_identifier ''mesh''" "is_identifier ''ka''" "is_identifier ''kb''" "is_identifier ''kc''"
    "is_identifier ''intent''" "is_identifier ''try''"
  by (rule identifier_ascii, simp_all add: code_of_def)+

lemma sample_valid: "config_validate sample_digest sample_config = Ok ()"
  by (simp add: config_validate_Ok validate_shape_Ok sample_config_def sample_hex sample_ids
      expected_scope_hash_def sample_digest_def)

end
