(* ===== verification/Budget_Ledger.thy ===== *)
theory Budget_Ledger
  imports Budget_Types
begin

text \<open>
  The deterministic replicated budget ledger,
  \<open>src/SRC/neothd/src/cluster/budget_raft/state_machine.rs\<close>. A ledger is the
  frozen configuration and the ordered map of grant records; \<open>ledger_apply\<close> applies
  one committed command at its log position and returns the new ledger with the reply. The
  abstract specification at the end gives each grant a bound and a phase; the refinement
  lemma shows that every applied command is a step of it or leaves it unchanged.
\<close>

section \<open>State\<close>

datatype grant_state =
    GS_Reserved
  | GS_Claimed claim_receipt
  | GS_Settled claim_receipt settle_budget grant_receipt
  | GS_Overrun claim_receipt committed_log_position string settle_budget
  | GS_Released grant_receipt

record grant_record =
  gc_reserve :: reserve_budget
  gc_reserve_fence :: string
  gc_reserved_at :: committed_log_position
  gc_state :: grant_state

record budget_ledger =
  bl_config :: budget_cluster_config
  bl_grants :: "(budget_grant_id, grant_record) btree"

section \<open>Fences\<close>

definition expected_reserve_fence ::
    "(bytes \<Rightarrow> string) \<Rightarrow> budget_cluster_config \<Rightarrow> reserve_budget \<Rightarrow> committed_log_position \<Rightarrow> string" where
  "expected_reserve_fence dg c r p = fence_hash dg (str_bytes ''neoth.budget.reserve-fence.v2'' @ [0])
     [str_bytes (bc_cluster_id c), str_bytes (bc_scope_hash c), u64_to_le (bc_membership_epoch c),
      u64_to_le (clp_term p), u64_to_le (clp_index p),
      str_bytes (rb_grant_id r), str_bytes (rb_provider_intent_id r),
      str_bytes (rb_request_fingerprint r), u64_to_le (rb_reserved_usd_nanos r),
      i64_to_le (rb_utc_window r)]"

definition expected_dispatch_fence ::
    "(bytes \<Rightarrow> string) \<Rightarrow> budget_cluster_config \<Rightarrow> grant_record \<Rightarrow> committed_log_position
     \<Rightarrow> begin_dispatch_cmd \<Rightarrow> string" where
  "expected_dispatch_fence dg c rec p cmd = fence_hash dg (str_bytes ''neoth.budget.dispatch-fence.v2'' @ [0])
     [str_bytes (bc_cluster_id c), str_bytes (bc_scope_hash c), u64_to_le (bc_membership_epoch c),
      u64_to_le (clp_term (gc_reserved_at rec)), u64_to_le (clp_index (gc_reserved_at rec)),
      str_bytes (gc_reserve_fence rec), u64_to_le (clp_term p), u64_to_le (clp_index p),
      str_bytes (bd_grant_id cmd), str_bytes (bd_owner cmd), str_bytes (bd_attempt_id cmd),
      str_bytes (bd_provider_intent_id cmd)]"

definition expected_settlement_fence ::
    "(bytes \<Rightarrow> string) \<Rightarrow> budget_cluster_config \<Rightarrow> grant_record \<Rightarrow> claim_receipt
     \<Rightarrow> committed_log_position \<Rightarrow> settle_budget \<Rightarrow> string" where
  "expected_settlement_fence dg c rec claim p s =
     fence_hash dg (str_bytes ''neoth.budget.settlement-fence.v2'' @ [0])
     [str_bytes (bc_cluster_id c), str_bytes (bc_scope_hash c), u64_to_le (bc_membership_epoch c),
      str_bytes (gc_reserve_fence rec), str_bytes (cl_dispatch_fence claim),
      u64_to_le (clp_term (cl_committed_at claim)), u64_to_le (clp_index (cl_committed_at claim)),
      u64_to_le (clp_term p), u64_to_le (clp_index p),
      str_bytes (sb_grant_id s), str_bytes (sb_owner s), str_bytes (sb_attempt_id s),
      (if sb_actual_usd_nanos s \<noteq> None then [1] else [0]),
      (case sb_actual_usd_nanos s of None \<Rightarrow> [] | Some v \<Rightarrow> u64_to_le v)]"

definition expected_release_fence ::
    "(bytes \<Rightarrow> string) \<Rightarrow> budget_cluster_config \<Rightarrow> grant_record \<Rightarrow> committed_log_position \<Rightarrow> string" where
  "expected_release_fence dg c rec p = fence_hash dg (str_bytes ''neoth.budget.release-fence.v2'' @ [0])
     [str_bytes (bc_cluster_id c), str_bytes (bc_scope_hash c), u64_to_le (bc_membership_epoch c),
      u64_to_le (clp_term (gc_reserved_at rec)), u64_to_le (clp_index (gc_reserved_at rec)),
      str_bytes (gc_reserve_fence rec), u64_to_le (clp_term p), u64_to_le (clp_index p),
      str_bytes (rb_grant_id (gc_reserve rec))]"

section \<open>Validation of recovered state\<close>

definition valid_reserve :: "budget_cluster_config \<Rightarrow> reserve_budget \<Rightarrow> bool" where
  "valid_reserve c r \<longleftrightarrow> rb_scope_hash r = bc_scope_hash c \<and> rb_utc_window r = bc_utc_window c
     \<and> rb_reserved_usd_nanos r > 0 \<and> is_uuid_v7 (rb_grant_id r)
     \<and> is_identifier (rb_provider_intent_id r) \<and> is_sha256_hex (rb_request_fingerprint r)"

definition matches_settlement :: "claim_receipt \<Rightarrow> settle_budget \<Rightarrow> bool" where
  "matches_settlement claim s \<longleftrightarrow> sb_grant_id s = cl_grant_id claim
     \<and> sb_dispatch_fence s = cl_dispatch_fence claim \<and> sb_owner s = cl_owner claim
     \<and> sb_attempt_id s = cl_attempt_id claim"

definition validate_claim ::
    "(bytes \<Rightarrow> string) \<Rightarrow> budget_cluster_config \<Rightarrow> grant_record \<Rightarrow> claim_receipt \<Rightarrow> budget_rejection + unit" where
  "validate_claim dg c rec claim =
     (let command = \<lparr>bd_grant_id = cl_grant_id claim, bd_reserve_fence = gc_reserve_fence rec,
            bd_owner = cl_owner claim, bd_attempt_id = cl_attempt_id claim,
            bd_provider_intent_id = cl_provider_intent_id claim\<rparr>
      in if cl_grant_id claim \<noteq> rb_grant_id (gc_reserve rec)
            \<or> btree_get (bc_voters c) (cl_owner claim) = None
            \<or> \<not> is_identifier (cl_attempt_id claim)
            \<or> cl_provider_intent_id claim \<noteq> rb_provider_intent_id (gc_reserve rec)
            \<or> cl_dispatch_fence claim \<noteq> expected_dispatch_fence dg c rec (cl_committed_at claim) command
         then Err Rej_InvalidConfig else Ok ())"

definition charged_amount :: "grant_record \<Rightarrow> settle_budget \<Rightarrow> u64" where
  "charged_amount rec s = (case sb_actual_usd_nanos s of Some v \<Rightarrow> v
     | None \<Rightarrow> rb_reserved_usd_nanos (gc_reserve rec))"

definition exceeds_bound :: "grant_record \<Rightarrow> settle_budget \<Rightarrow> bool" where
  "exceeds_bound rec s = (case sb_actual_usd_nanos s of
     Some actual \<Rightarrow> actual > rb_reserved_usd_nanos (gc_reserve rec) | None \<Rightarrow> False)"

definition validate_settlement ::
    "(bytes \<Rightarrow> string) \<Rightarrow> budget_cluster_config \<Rightarrow> grant_record \<Rightarrow> claim_receipt \<Rightarrow> settle_budget
     \<Rightarrow> grant_receipt \<Rightarrow> budget_rejection + unit" where
  "validate_settlement dg c rec claim s receipt =
     (if \<not> matches_settlement claim s \<or> exceeds_bound rec s
         \<or> gr_grant_id receipt \<noteq> rb_grant_id (gc_reserve rec)
        then Err Rej_InvalidConfig
      else if gr_terminal receipt \<noteq> T_Settled (charged_amount rec s) (sb_actual_usd_nanos s = None)
         \<or> gr_terminal_fence receipt
             \<noteq> expected_settlement_fence dg c rec claim (gr_committed_at receipt) s
        then Err Rej_InvalidConfig
      else Ok ())"

fun validate_state ::
    "(bytes \<Rightarrow> string) \<Rightarrow> budget_cluster_config \<Rightarrow> grant_record \<Rightarrow> grant_state \<Rightarrow> budget_rejection + unit" where
  "validate_state dg c rec GS_Reserved = Ok ()"
| "validate_state dg c rec (GS_Claimed claim) = validate_claim dg c rec claim"
| "validate_state dg c rec (GS_Settled claim s receipt) =
     (case validate_claim dg c rec claim of
        Inl e \<Rightarrow> Err e
      | Inr _ \<Rightarrow> validate_settlement dg c rec claim s receipt)"
| "validate_state dg c rec (GS_Overrun claim reported_at terminal_fence s) =
     (case validate_claim dg c rec claim of
        Inl e \<Rightarrow> Err e
      | Inr _ \<Rightarrow>
          if \<not> matches_settlement claim s
             \<or> (case sb_actual_usd_nanos s of None \<Rightarrow> True
                 | Some actual \<Rightarrow> actual \<le> rb_reserved_usd_nanos (gc_reserve rec))
             \<or> terminal_fence \<noteq> expected_settlement_fence dg c rec claim reported_at s
          then Err Rej_InvalidConfig else Ok ())"
| "validate_state dg c rec (GS_Released receipt) =
     (if gr_grant_id receipt \<noteq> rb_grant_id (gc_reserve rec)
         \<or> gr_terminal receipt \<noteq> T_ReleasedBeforeClaim
         \<or> gr_terminal_fence receipt \<noteq> expected_release_fence dg c rec (gr_committed_at receipt)
      then Err Rej_InvalidConfig else Ok ())"

text \<open>The loop of \<open>BudgetLedger::validate\<close>, with the running total.\<close>

fun validate_grants ::
    "(bytes \<Rightarrow> string) \<Rightarrow> budget_cluster_config \<Rightarrow> u64 \<Rightarrow> (budget_grant_id \<times> grant_record) list
     \<Rightarrow> budget_rejection + u64" where
  "validate_grants dg c acc [] = Ok acc"
| "validate_grants dg c acc ((gid, rec) # rs) =
     (if gid \<noteq> rb_grant_id (gc_reserve rec) \<or> \<not> valid_reserve c (gc_reserve rec)
        then Err Rej_InvalidConfig
      else if gc_reserve_fence rec \<noteq> expected_reserve_fence dg c (gc_reserve rec) (gc_reserved_at rec)
        then Err Rej_InvalidConfig
      else case checked_add acc (rb_reserved_usd_nanos (gc_reserve rec)) of
             None \<Rightarrow> Err Rej_CapExceeded
           | Some acc' \<Rightarrow>
               (case validate_state dg c rec (gc_state rec) of
                  Inl e \<Rightarrow> Err e
                | Inr _ \<Rightarrow> validate_grants dg c acc' rs))"

definition ledger_validate :: "(bytes \<Rightarrow> string) \<Rightarrow> budget_ledger \<Rightarrow> budget_rejection + unit" where
  "ledger_validate dg l =
     (case config_validate dg (bl_config l) of
        Inl e \<Rightarrow> Err e
      | Inr _ \<Rightarrow>
          (case validate_grants dg (bl_config l) 0 (bl_grants l) of
             Inl e \<Rightarrow> Err e
           | Inr acc \<Rightarrow>
               if acc > bc_cap_usd_nanos (bl_config l) then Err Rej_CapExceeded else Ok ()))"

definition ledger_new :: "(bytes \<Rightarrow> string) \<Rightarrow> budget_cluster_config \<Rightarrow> budget_rejection + budget_ledger" where
  "ledger_new dg c = (case config_validate dg c of
     Inl e \<Rightarrow> Err e | Inr _ \<Rightarrow> Ok \<lparr>bl_config = c, bl_grants = []\<rparr>)"

section \<open>Commands\<close>

fun reserved_total_from :: "u64 \<Rightarrow> (budget_grant_id \<times> grant_record) list \<Rightarrow> u64 option" where
  "reserved_total_from acc [] = Some acc"
| "reserved_total_from acc ((_, rec) # rs) =
     (case checked_add acc (rb_reserved_usd_nanos (gc_reserve rec)) of
        None \<Rightarrow> None | Some acc' \<Rightarrow> reserved_total_from acc' rs)"

definition reserved_total :: "budget_ledger \<Rightarrow> u64 option" where
  "reserved_total l = reserved_total_from 0 (bl_grants l)"

definition reserved_grant_of :: "grant_record \<Rightarrow> reserved_grant" where
  "reserved_grant_of rec = \<lparr>
     rg_grant_id = rb_grant_id (gc_reserve rec),
     rg_reserve_fence = gc_reserve_fence rec,
     rg_committed_at = gc_reserved_at rec,
     rg_scope_hash = rb_scope_hash (gc_reserve rec),
     rg_provider_intent_id = rb_provider_intent_id (gc_reserve rec),
     rg_request_fingerprint = rb_request_fingerprint (gc_reserve rec),
     rg_reserved_usd_nanos = rb_reserved_usd_nanos (gc_reserve rec) \<rparr>"

definition put_grant :: "budget_grant_id \<Rightarrow> grant_record \<Rightarrow> budget_ledger \<Rightarrow> budget_ledger" where
  "put_grant gid rec l = l\<lparr>bl_grants := btree_insert gid rec (bl_grants l)\<rparr>"

definition ledger_reserve ::
    "(bytes \<Rightarrow> string) \<Rightarrow> budget_ledger \<Rightarrow> committed_log_position \<Rightarrow> reserve_budget
     \<Rightarrow> budget_ledger \<times> budget_reply" where
  "ledger_reserve dg l p cmd =
     (if rb_scope_hash cmd \<noteq> bc_scope_hash (bl_config l) then (l, Rejected Rej_ScopeMismatch)
      else if rb_utc_window cmd \<noteq> bc_utc_window (bl_config l) then (l, Rejected Rej_WindowMismatch)
      else if \<not> valid_reserve (bl_config l) cmd then (l, Rejected Rej_InvalidCommand)
      else case btree_get (bl_grants l) (rb_grant_id cmd) of
             Some existing \<Rightarrow>
               (if gc_reserve existing = cmd then (l, AlreadyReserved (reserved_grant_of existing))
                else (l, Rejected Rej_GrantConflict))
           | None \<Rightarrow>
               (case Option.bind (reserved_total l) (\<lambda>used. checked_add used (rb_reserved_usd_nanos cmd)) of
                  None \<Rightarrow> (l, Rejected Rej_CapExceeded)
                | Some acc \<Rightarrow>
                    if acc > bc_cap_usd_nanos (bl_config l) then (l, Rejected Rej_CapExceeded)
                    else (let fence = expected_reserve_fence dg (bl_config l) cmd p;
                              reply = \<lparr>
                                rg_grant_id = rb_grant_id cmd, rg_reserve_fence = fence,
                                rg_committed_at = p, rg_scope_hash = rb_scope_hash cmd,
                                rg_provider_intent_id = rb_provider_intent_id cmd,
                                rg_request_fingerprint = rb_request_fingerprint cmd,
                                rg_reserved_usd_nanos = rb_reserved_usd_nanos cmd \<rparr>
                          in (put_grant (rb_grant_id cmd) \<lparr>gc_reserve = cmd, gc_reserve_fence = fence,
                                gc_reserved_at = p, gc_state = GS_Reserved\<rparr> l, Reserved_reply reply))))"

definition replay_claim_reply :: "claim_receipt \<Rightarrow> begin_dispatch_cmd \<Rightarrow> bool \<Rightarrow> budget_reply" where
  "replay_claim_reply receipt cmd reconcile_only =
     (if cl_owner receipt = bd_owner cmd \<and> cl_attempt_id receipt = bd_attempt_id cmd
         \<and> cl_provider_intent_id receipt = bd_provider_intent_id cmd
      then (if reconcile_only then ReconcileOnly receipt else AlreadyClaimed receipt)
      else Rejected Rej_GrantConflict)"

definition ledger_begin_dispatch ::
    "(bytes \<Rightarrow> string) \<Rightarrow> budget_ledger \<Rightarrow> committed_log_position \<Rightarrow> begin_dispatch_cmd
     \<Rightarrow> budget_ledger \<times> budget_reply" where
  "ledger_begin_dispatch dg l p cmd =
     (if btree_get (bc_voters (bl_config l)) (bd_owner cmd) = None
        then (l, Rejected Rej_UnauthorizedOwner)
      else if \<not> is_identifier (bd_attempt_id cmd) then (l, Rejected Rej_InvalidCommand)
      else case btree_get (bl_grants l) (bd_grant_id cmd) of
             None \<Rightarrow> (l, Rejected Rej_UnknownGrant)
           | Some rec \<Rightarrow>
               if gc_reserve_fence rec \<noteq> bd_reserve_fence cmd then (l, Rejected Rej_FenceMismatch)
               else if rb_provider_intent_id (gc_reserve rec) \<noteq> bd_provider_intent_id cmd
                 then (l, Rejected Rej_IntentMismatch)
               else (case gc_state rec of
                       GS_Reserved \<Rightarrow>
                         (let receipt = \<lparr>cl_grant_id = bd_grant_id cmd,
                                cl_dispatch_fence = expected_dispatch_fence dg (bl_config l) rec p cmd,
                                cl_committed_at = p, cl_owner = bd_owner cmd,
                                cl_attempt_id = bd_attempt_id cmd,
                                cl_provider_intent_id = bd_provider_intent_id cmd\<rparr>
                          in (put_grant (bd_grant_id cmd) (rec\<lparr>gc_state := GS_Claimed receipt\<rparr>) l,
                              NewClaimed receipt))
                     | GS_Claimed receipt \<Rightarrow> (l, replay_claim_reply receipt cmd False)
                     | GS_Settled receipt _ _ \<Rightarrow> (l, replay_claim_reply receipt cmd True)
                     | GS_Overrun receipt _ _ _ \<Rightarrow> (l, replay_claim_reply receipt cmd True)
                     | GS_Released _ \<Rightarrow> (l, Rejected Rej_AlreadyReleased)))"

fun claim_of :: "grant_state \<Rightarrow> budget_rejection + claim_receipt" where
  "claim_of (GS_Claimed claim) = Ok claim"
| "claim_of (GS_Settled claim _ _) = Ok claim"
| "claim_of (GS_Overrun claim _ _ _) = Ok claim"
| "claim_of GS_Reserved = Err Rej_NotClaimed"
| "claim_of (GS_Released _) = Err Rej_AlreadyReleased"

text \<open>The first settlement of a claimed grant.\<close>

definition settle_claimed ::
    "(bytes \<Rightarrow> string) \<Rightarrow> budget_ledger \<Rightarrow> committed_log_position \<Rightarrow> settle_budget \<Rightarrow> grant_record
     \<Rightarrow> claim_receipt \<Rightarrow> budget_ledger \<times> budget_reply" where
  "settle_claimed dg l p cmd rec claim =
     (let fence = expected_settlement_fence dg (bl_config l) rec claim p cmd
      in if exceeds_bound rec cmd then
           (put_grant (sb_grant_id cmd) (rec\<lparr>gc_state := GS_Overrun claim p fence cmd\<rparr>) l,
            Rejected Rej_Overrun)
         else
           (let receipt = \<lparr>gr_grant_id = sb_grant_id cmd, gr_committed_at = p,
                  gr_terminal_fence = fence,
                  gr_terminal = T_Settled (charged_amount rec cmd) (sb_actual_usd_nanos cmd = None)\<rparr>
            in (put_grant (sb_grant_id cmd) (rec\<lparr>gc_state := GS_Settled claim cmd receipt\<rparr>) l,
                Settled_reply receipt)))"

definition ledger_settle ::
    "(bytes \<Rightarrow> string) \<Rightarrow> budget_ledger \<Rightarrow> committed_log_position \<Rightarrow> settle_budget
     \<Rightarrow> budget_ledger \<times> budget_reply" where
  "ledger_settle dg l p cmd =
     (case btree_get (bl_grants l) (sb_grant_id cmd) of
        None \<Rightarrow> (l, Rejected Rej_UnknownGrant)
      | Some rec \<Rightarrow>
          (case claim_of (gc_state rec) of
             Inl e \<Rightarrow> (l, Rejected e)
           | Inr claim \<Rightarrow>
               if cl_dispatch_fence claim \<noteq> sb_dispatch_fence cmd then (l, Rejected Rej_FenceMismatch)
               else if cl_owner claim \<noteq> sb_owner cmd then (l, Rejected Rej_OwnerMismatch)
               else if cl_attempt_id claim \<noteq> sb_attempt_id cmd then (l, Rejected Rej_AttemptMismatch)
               else (case gc_state rec of
                       GS_Settled _ settlement receipt \<Rightarrow>
                         (l, if settlement = cmd then Settled_reply receipt else Rejected Rej_GrantConflict)
                     | GS_Overrun _ _ _ settlement \<Rightarrow>
                         (l, if settlement = cmd then Rejected Rej_Overrun else Rejected Rej_GrantConflict)
                     | _ \<Rightarrow> settle_claimed dg l p cmd rec claim)))"

definition ledger_release_before_claim ::
    "(bytes \<Rightarrow> string) \<Rightarrow> budget_ledger \<Rightarrow> committed_log_position \<Rightarrow> budget_grant_id \<Rightarrow> string
     \<Rightarrow> budget_ledger \<times> budget_reply" where
  "ledger_release_before_claim dg l p grant_id reserve_fence =
     (case btree_get (bl_grants l) grant_id of
        None \<Rightarrow> (l, Rejected Rej_UnknownGrant)
      | Some rec \<Rightarrow>
          if gc_reserve_fence rec \<noteq> reserve_fence then (l, Rejected Rej_FenceMismatch)
          else (case gc_state rec of
                  GS_Reserved \<Rightarrow>
                    (let receipt = \<lparr>gr_grant_id = grant_id, gr_committed_at = p,
                           gr_terminal_fence = expected_release_fence dg (bl_config l) rec p,
                           gr_terminal = T_ReleasedBeforeClaim\<rparr>
                     in (put_grant grant_id (rec\<lparr>gc_state := GS_Released receipt\<rparr>) l,
                         Released_reply receipt))
                | GS_Released receipt \<Rightarrow> (l, Released_reply receipt)
                | _ \<Rightarrow> (l, Rejected Rej_ReleaseAfterClaim)))"

fun ledger_command ::
    "(bytes \<Rightarrow> string) \<Rightarrow> budget_ledger \<Rightarrow> committed_log_position \<Rightarrow> budget_command
     \<Rightarrow> budget_ledger \<times> budget_reply" where
  "ledger_command dg l p (Cmd_Reserve cmd) = ledger_reserve dg l p cmd"
| "ledger_command dg l p (Cmd_BeginDispatch cmd) = ledger_begin_dispatch dg l p cmd"
| "ledger_command dg l p (Cmd_Settle cmd) = ledger_settle dg l p cmd"
| "ledger_command dg l p (Cmd_ReleaseBeforeClaim grant_id fence) =
     ledger_release_before_claim dg l p grant_id fence"

definition ledger_apply ::
    "(bytes \<Rightarrow> string) \<Rightarrow> budget_ledger \<Rightarrow> u64 \<Rightarrow> u64 \<Rightarrow> budget_command \<Rightarrow> budget_ledger \<times> budget_reply" where
  "ledger_apply dg l log_term log_index command =
     (if \<not> is_ok (ledger_validate dg l) then (l, Rejected Rej_InvalidConfig)
      else ledger_command dg l \<lparr>clp_term = log_term, clp_index = log_index\<rparr> command)"

section \<open>The validity invariant\<close>

definition bound :: "grant_record \<Rightarrow> nat" where
  "bound rec = unat (rb_reserved_usd_nanos (gc_reserve rec))"

definition reserved_sum :: "budget_ledger \<Rightarrow> nat" where
  "reserved_sum l = (\<Sum>e \<leftarrow> bl_grants l. bound (snd e))"

definition record_ok :: "(bytes \<Rightarrow> string) \<Rightarrow> budget_cluster_config \<Rightarrow> budget_grant_id \<Rightarrow> grant_record \<Rightarrow> bool" where
  "record_ok dg c gid rec \<longleftrightarrow> gid = rb_grant_id (gc_reserve rec) \<and> valid_reserve c (gc_reserve rec)
     \<and> gc_reserve_fence rec = expected_reserve_fence dg c (gc_reserve rec) (gc_reserved_at rec)
     \<and> validate_state dg c rec (gc_state rec) = Ok ()"

text \<open>
  A well-formed ledger: its grants are an ordered map, which the type \<open>BTreeMap\<close>
  guarantees, and it passes its own validation.
\<close>

definition ledger_ok :: "(bytes \<Rightarrow> string) \<Rightarrow> budget_ledger \<Rightarrow> bool" where
  "ledger_ok dg l \<longleftrightarrow> btree_ok (bl_grants l) \<and> is_ok (ledger_validate dg l)"

lemma sum_ok_unit: "(r :: 'e + unit) = Ok () \<longleftrightarrow> is_ok r"
  by (cases r) auto

lemma validate_grants_Ok:
  "validate_grants dg c acc rs = Ok t \<longleftrightarrow> (\<forall>e \<in> set rs. record_ok dg c (fst e) (snd e))
     \<and> unat t = unat acc + (\<Sum>e \<leftarrow> rs. bound (snd e))
     \<and> unat acc + (\<Sum>e \<leftarrow> rs. bound (snd e)) < 2 ^ 64"
proof (induction dg c acc rs rule: validate_grants.induct)
  case (1 dg c acc)
  show ?case using unat_bounds(4) [of acc] by (auto simp: word_unat_eq_iff)
next
  case (2 dg c acc gid rec rs)
  let ?b = "rb_reserved_usd_nanos (gc_reserve rec)"
  show ?case
  proof (cases "checked_add acc ?b")
    case None
    then have "2 ^ 64 \<le> unat acc + unat ?b" by (simp add: checked_add_None)
    with None show ?thesis by (auto simp: bound_def)
  next
    case (Some a)
    then have a: "unat a = unat acc + unat ?b" by (simp add: checked_add_Some)
    have st: "(case validate_state dg c rec (gc_state rec) of Inl e \<Rightarrow> Err e | Inr _ \<Rightarrow> r) = Ok t
        \<longleftrightarrow> validate_state dg c rec (gc_state rec) = Ok () \<and> r = Ok t" for r
      by (cases "validate_state dg c rec (gc_state rec)") auto
    show ?thesis
      using 2 Some a by (auto simp: record_ok_def st bound_def add.assoc)
  qed
qed

lemma ledger_validate_ok:
  "is_ok (ledger_validate dg l) \<longleftrightarrow> config_validate dg (bl_config l) = Ok ()
     \<and> (\<forall>e \<in> set (bl_grants l). record_ok dg (bl_config l) (fst e) (snd e))
     \<and> reserved_sum l \<le> unat (bc_cap_usd_nanos (bl_config l))"
proof (cases "validate_grants dg (bl_config l) 0 (bl_grants l)")
  case (Inr t)
  then have "unat t = reserved_sum l" "\<forall>e \<in> set (bl_grants l). record_ok dg (bl_config l) (fst e) (snd e)"
    using validate_grants_Ok [of dg "bl_config l" 0 "bl_grants l" t] by (simp_all add: reserved_sum_def)
  with Inr show ?thesis
    by (auto simp: ledger_validate_def word_less_nat_alt not_less split: sum.splits)
next
  case (Inl e)
  have "\<not> ((\<forall>e \<in> set (bl_grants l). record_ok dg (bl_config l) (fst e) (snd e))
      \<and> reserved_sum l \<le> unat (bc_cap_usd_nanos (bl_config l)))"
  proof
    assume a: "(\<forall>e \<in> set (bl_grants l). record_ok dg (bl_config l) (fst e) (snd e))
      \<and> reserved_sum l \<le> unat (bc_cap_usd_nanos (bl_config l))"
    then have lt: "reserved_sum l < 2 ^ 64"
      using unat_bounds(4) [of "bc_cap_usd_nanos (bl_config l)"] by simp
    then have "unat (word_of_nat (reserved_sum l) :: u64) = reserved_sum l"
      by (simp add: unat_of_nat)
    with a lt have "validate_grants dg (bl_config l) 0 (bl_grants l) = Ok (word_of_nat (reserved_sum l))"
      by (simp add: validate_grants_Ok reserved_sum_def)
    with Inl show False by simp
  qed
  with Inl show ?thesis by (auto simp: ledger_validate_def split: sum.splits)
qed

lemma reserved_total_from_Some:
  "reserved_total_from acc rs = Some t \<longleftrightarrow> unat t = unat acc + (\<Sum>e \<leftarrow> rs. bound (snd e))
     \<and> unat acc + (\<Sum>e \<leftarrow> rs. bound (snd e)) < 2 ^ 64"
proof (induction acc rs rule: reserved_total_from.induct)
  case (1 acc)
  show ?case using unat_bounds(4) [of acc] by (auto simp: word_unat_eq_iff)
next
  case (2 acc gid rec rs)
  let ?b = "rb_reserved_usd_nanos (gc_reserve rec)"
  show ?case
  proof (cases "checked_add acc ?b")
    case None
    then have "2 ^ 64 \<le> unat acc + unat ?b" by (simp add: checked_add_None)
    with None show ?thesis by (auto simp: bound_def)
  next
    case (Some a)
    then have "unat a = unat acc + unat ?b" by (simp add: checked_add_Some)
    with 2 Some show ?thesis by (auto simp: bound_def add.assoc)
  qed
qed

lemma reserved_total_valid:
  assumes "ledger_ok dg l"
  shows "reserved_total l = Some (word_of_nat (reserved_sum l))" "reserved_sum l < 2 ^ 64"
proof -
  show lt: "reserved_sum l < 2 ^ 64"
    using assms unat_bounds(4) [of "bc_cap_usd_nanos (bl_config l)"]
    by (simp add: ledger_ok_def ledger_validate_ok)
  then have "unat (word_of_nat (reserved_sum l) :: u64) = reserved_sum l"
    by (simp add: unat_of_nat)
  with lt show "reserved_total l = Some (word_of_nat (reserved_sum l))"
    by (simp add: reserved_total_def reserved_total_from_Some reserved_sum_def)
qed

section \<open>Every command keeps the invariant\<close>

lemma put_grant_simps [simp]:
  "bl_config (put_grant gid rec l) = bl_config l"
  "bl_grants (put_grant gid rec l) = btree_insert gid rec (bl_grants l)"
  by (simp_all add: put_grant_def)

lemma put_grant_get [simp]:
  "btree_get (bl_grants (put_grant gid rec l)) g = (if g = gid then Some rec else btree_get (bl_grants l) g)"
  by (simp add: btree_get_insert)

lemma ledger_ok_record:
  "ledger_ok dg l \<Longrightarrow> btree_get (bl_grants l) g = Some rec \<Longrightarrow> record_ok dg (bl_config l) g rec"
  unfolding ledger_ok_def ledger_validate_ok by (force simp: btree_get_entries)

lemma put_grant_ok:
  assumes ok: "ledger_ok dg l" and rec: "record_ok dg (bl_config l) gid rec"
    and total: "reserved_sum (put_grant gid rec l) \<le> unat (bc_cap_usd_nanos (bl_config l))"
  shows "ledger_ok dg (put_grant gid rec l)"
proof -
  have m: "btree_ok (bl_grants l)" using ok by (simp add: ledger_ok_def)
  show ?thesis
    using ok rec total bt.entries_ins [OF m, of gid rec] btree_ok_insert [OF m]
    by (auto simp: ledger_ok_def ledger_validate_ok)
qed

lemma put_grant_sum:
  assumes "btree_ok (bl_grants l)" "btree_get (bl_grants l) gid = Some old" "gc_reserve rec = gc_reserve old"
  shows "reserved_sum (put_grant gid rec l) = reserved_sum l"
  using assms bt.sum_entries_replace [of "bl_grants l" gid old bound rec]
  by (simp add: reserved_sum_def bound_def)

lemma put_grant_sum_fresh:
  assumes "btree_ok (bl_grants l)" "btree_get (bl_grants l) gid = None"
  shows "reserved_sum (put_grant gid rec l) = bound rec + reserved_sum l"
  using assms bt.sum_entries_fresh [of "bl_grants l" gid bound rec]
  by (simp add: reserved_sum_def)

text \<open>Replacing the state of a grant by a state that validates keeps the ledger well formed.\<close>

lemma update_state_ok:
  assumes ok: "ledger_ok dg l" and get: "btree_get (bl_grants l) gid = Some rec"
    and st: "validate_state dg (bl_config l) (rec\<lparr>gc_state := st\<rparr>) st = Ok ()"
  shows "ledger_ok dg (put_grant gid (rec\<lparr>gc_state := st\<rparr>) l)"
proof (rule put_grant_ok [OF ok])
  show "record_ok dg (bl_config l) gid (rec\<lparr>gc_state := st\<rparr>)"
    using ledger_ok_record [OF ok get] st by (simp add: record_ok_def)
  show "reserved_sum (put_grant gid (rec\<lparr>gc_state := st\<rparr>) l) \<le> unat (bc_cap_usd_nanos (bl_config l))"
    using ok put_grant_sum [OF _ get] by (simp add: ledger_ok_def ledger_validate_ok)
qed

text \<open>The fences do not depend on the state of the record.\<close>

lemma fences_state [simp]:
  "expected_dispatch_fence dg c (rec\<lparr>gc_state := st\<rparr>) = expected_dispatch_fence dg c rec"
  "expected_settlement_fence dg c (rec\<lparr>gc_state := st\<rparr>) = expected_settlement_fence dg c rec"
  "expected_release_fence dg c (rec\<lparr>gc_state := st\<rparr>) = expected_release_fence dg c rec"
  "exceeds_bound (rec\<lparr>gc_state := st\<rparr>) = exceeds_bound rec"
  "charged_amount (rec\<lparr>gc_state := st\<rparr>) = charged_amount rec"
  "validate_claim dg c (rec\<lparr>gc_state := st\<rparr>) = validate_claim dg c rec"
  "validate_settlement dg c (rec\<lparr>gc_state := st\<rparr>) = validate_settlement dg c rec"
  by (simp_all add: fun_eq_iff expected_dispatch_fence_def expected_settlement_fence_def
      expected_release_fence_def exceeds_bound_def charged_amount_def validate_claim_def
      validate_settlement_def cong: option.case_cong)

lemma dispatch_fence_command:
  "expected_dispatch_fence dg c rec p \<lparr>bd_grant_id = bd_grant_id cmd, bd_reserve_fence = f,
     bd_owner = bd_owner cmd, bd_attempt_id = bd_attempt_id cmd,
     bd_provider_intent_id = bd_provider_intent_id cmd\<rparr> = expected_dispatch_fence dg c rec p cmd"
  by (simp add: expected_dispatch_fence_def)

text \<open>A reply that changes nothing reports what the ledger already holds.\<close>

fun reports :: "budget_ledger \<Rightarrow> budget_reply \<Rightarrow> bool" where
  "reports l (Reserved_reply _) = False"
| "reports l (NewClaimed _) = False"
| "reports l (AlreadyReserved g) = (\<exists>rec. btree_get (bl_grants l) (rg_grant_id g) = Some rec
     \<and> g = reserved_grant_of rec)"
| "reports l (AlreadyClaimed c) = (\<exists>rec. btree_get (bl_grants l) (cl_grant_id c) = Some rec
     \<and> gc_state rec = GS_Claimed c)"
| "reports l (ReconcileOnly c) = (\<exists>rec. btree_get (bl_grants l) (cl_grant_id c) = Some rec
     \<and> claim_of (gc_state rec) = Ok c)"
| "reports l (Settled_reply x) = (\<exists>rec c s. btree_get (bl_grants l) (gr_grant_id x) = Some rec
     \<and> gc_state rec = GS_Settled c s x)"
| "reports l (Released_reply x) = (\<exists>rec. btree_get (bl_grants l) (gr_grant_id x) = Some rec
     \<and> gc_state rec = GS_Released x)"
| "reports l (Rejected e) = (e \<noteq> Rej_InvalidConfig)"

text \<open>
  What a command can do to the ledger: nothing, add a fresh reserved grant within the cap,
  or move one grant along its life cycle.
\<close>

inductive ledger_move ::
    "(bytes \<Rightarrow> string) \<Rightarrow> committed_log_position \<Rightarrow> budget_ledger \<Rightarrow> budget_ledger \<Rightarrow> budget_reply \<Rightarrow> bool"
  for dg p l where
  move_none: "reports l r \<Longrightarrow> ledger_move dg p l l r"
| move_reserve: "btree_get (bl_grants l) (rb_grant_id cmd) = None \<Longrightarrow> valid_reserve (bl_config l) cmd
    \<Longrightarrow> rec = \<lparr>gc_reserve = cmd, gc_reserve_fence = expected_reserve_fence dg (bl_config l) cmd p,
          gc_reserved_at = p, gc_state = GS_Reserved\<rparr>
    \<Longrightarrow> reserved_sum l + unat (rb_reserved_usd_nanos cmd) \<le> unat (bc_cap_usd_nanos (bl_config l))
    \<Longrightarrow> ledger_move dg p l (put_grant (rb_grant_id cmd) rec l) (Reserved_reply (reserved_grant_of rec))"
| move_claim: "btree_get (bl_grants l) (cl_grant_id claim) = Some rec \<Longrightarrow> gc_state rec = GS_Reserved
    \<Longrightarrow> validate_claim dg (bl_config l) rec claim = Ok () \<Longrightarrow> cl_committed_at claim = p
    \<Longrightarrow> ledger_move dg p l (put_grant (cl_grant_id claim) (rec\<lparr>gc_state := GS_Claimed claim\<rparr>) l)
          (NewClaimed claim)"
| move_settle: "btree_get (bl_grants l) (sb_grant_id cmd) = Some rec \<Longrightarrow> gc_state rec = GS_Claimed claim
    \<Longrightarrow> validate_settlement dg (bl_config l) rec claim cmd receipt = Ok () \<Longrightarrow> gr_committed_at receipt = p
    \<Longrightarrow> ledger_move dg p l (put_grant (sb_grant_id cmd) (rec\<lparr>gc_state := GS_Settled claim cmd receipt\<rparr>) l)
          (Settled_reply receipt)"
| move_overrun: "btree_get (bl_grants l) (sb_grant_id cmd) = Some rec \<Longrightarrow> gc_state rec = GS_Claimed claim
    \<Longrightarrow> matches_settlement claim cmd \<Longrightarrow> exceeds_bound rec cmd
    \<Longrightarrow> f = expected_settlement_fence dg (bl_config l) rec claim p cmd
    \<Longrightarrow> ledger_move dg p l (put_grant (sb_grant_id cmd) (rec\<lparr>gc_state := GS_Overrun claim p f cmd\<rparr>) l)
          (Rejected Rej_Overrun)"
| move_release: "btree_get (bl_grants l) gid = Some rec \<Longrightarrow> gc_state rec = GS_Reserved
    \<Longrightarrow> receipt = \<lparr>gr_grant_id = gid, gr_committed_at = p,
          gr_terminal_fence = expected_release_fence dg (bl_config l) rec p,
          gr_terminal = T_ReleasedBeforeClaim\<rparr>
    \<Longrightarrow> ledger_move dg p l (put_grant gid (rec\<lparr>gc_state := GS_Released receipt\<rparr>) l)
          (Released_reply receipt)"

inductive_cases move_NewClaimed: "ledger_move dg p l l' (NewClaimed c)"
inductive_cases move_Released: "ledger_move dg p l l' (Released_reply r)"

lemma move_ok:
  assumes "ledger_move dg p l l' r" and ok: "ledger_ok dg l"
  shows "ledger_ok dg l' \<and> bl_config l' = bl_config l \<and> r \<noteq> Rejected Rej_InvalidConfig"
  using assms(1)
proof cases
  case (move_reserve cmd rec)
  have "ledger_ok dg (put_grant (rb_grant_id cmd) rec l)"
  proof (rule put_grant_ok [OF ok])
    show "record_ok dg (bl_config l) (rb_grant_id cmd) rec"
      using move_reserve by (simp add: record_ok_def)
    show "reserved_sum (put_grant (rb_grant_id cmd) rec l) \<le> unat (bc_cap_usd_nanos (bl_config l))"
      using move_reserve ok put_grant_sum_fresh [of l "rb_grant_id cmd" rec]
      by (simp add: ledger_ok_def bound_def)
  qed
  with move_reserve show ?thesis by simp
next
  case (move_claim claim rec)
  then show ?thesis using update_state_ok [OF ok] by simp
next
  case (move_settle cmd rec claim receipt)
  then have "validate_claim dg (bl_config l) rec claim = Ok ()"
    using ledger_ok_record [OF ok] by (fastforce simp: record_ok_def)
  with move_settle show ?thesis
    using update_state_ok [OF ok] by simp
next
  case (move_overrun cmd rec claim f)
  then have "validate_claim dg (bl_config l) rec claim = Ok ()"
    using ledger_ok_record [OF ok] by (fastforce simp: record_ok_def)
  with move_overrun show ?thesis
    using update_state_ok [OF ok] by (auto simp: exceeds_bound_def not_le split: option.splits)
next
  case (move_release gid rec receipt)
  then have "rb_grant_id (gc_reserve rec) = gid"
    using ledger_ok_record [OF ok] by (auto simp: record_ok_def)
  with move_release show ?thesis
    using update_state_ok [OF ok] by simp
qed (use ok in auto)

lemma claim_record:
  assumes "ledger_ok dg l" "btree_get (bl_grants l) g = Some rec" "claim_of (gc_state rec) = Ok claim"
  shows "validate_claim dg (bl_config l) rec claim = Ok ()" "cl_grant_id claim = g"
proof -
  have r: "record_ok dg (bl_config l) g rec" using assms by (simp add: ledger_ok_record)
  then show v: "validate_claim dg (bl_config l) rec claim = Ok ()"
    using assms(3) by (cases "gc_state rec") (auto simp: record_ok_def split: sum.splits)
  then show "cl_grant_id claim = g"
    using r by (auto simp: validate_claim_def Let_def record_ok_def split: if_splits)
qed

lemma record_ids:
  assumes ok: "ledger_ok dg l" and get: "btree_get (bl_grants l) g = Some rec"
  shows "rb_grant_id (gc_reserve rec) = g" "gc_state rec = GS_Settled c s x \<Longrightarrow> gr_grant_id x = g"
    "gc_state rec = GS_Released x \<Longrightarrow> gr_grant_id x = g"
proof -
  have r: "validate_state dg (bl_config l) rec (gc_state rec) = Ok ()"
    and g: "rb_grant_id (gc_reserve rec) = g"
    using ledger_ok_record [OF ok get] by (simp_all add: record_ok_def)
  show "rb_grant_id (gc_reserve rec) = g" by (rule g)
  show "gr_grant_id x = g" if "gc_state rec = GS_Settled c s x"
  proof -
    have "validate_settlement dg (bl_config l) rec c s x = Ok ()"
      using r that by (simp split: sum.splits)
    then show ?thesis using g by (simp add: validate_settlement_def split: if_splits)
  qed
  show "gr_grant_id x = g" if "gc_state rec = GS_Released x"
    using r that g by (simp split: if_splits)
qed

lemma reports_stored:
  assumes ok: "ledger_ok dg l" and get: "btree_get (bl_grants l) g = Some rec"
  shows "reports l (AlreadyReserved (reserved_grant_of rec))"
    "gc_state rec = GS_Claimed c \<Longrightarrow> reports l (AlreadyClaimed c)"
    "claim_of (gc_state rec) = Ok c \<Longrightarrow> reports l (ReconcileOnly c)"
    "gc_state rec = GS_Settled c s x \<Longrightarrow> reports l (Settled_reply x)"
    "gc_state rec = GS_Released x \<Longrightarrow> reports l (Released_reply x)"
proof -
  show "reports l (AlreadyReserved (reserved_grant_of rec))"
    using get record_ids(1) [OF ok get] by (simp add: reserved_grant_of_def)
  show "reports l (AlreadyClaimed c)" if "gc_state rec = GS_Claimed c"
    using that get claim_record(2) [OF ok get, of c] by simp
  show "reports l (ReconcileOnly c)" if "claim_of (gc_state rec) = Ok c"
    using that get claim_record(2) [OF ok get, of c] by simp
  show "reports l (Settled_reply x)" if "gc_state rec = GS_Settled c s x"
    using that get record_ids(2) [OF ok get, of c s x] by simp
  show "reports l (Released_reply x)" if "gc_state rec = GS_Released x"
    using that get record_ids(3) [OF ok get, of x] by simp
qed

lemma reject_move: "e \<noteq> Rej_InvalidConfig \<Longrightarrow> ledger_move dg p l l (Rejected e)"
  by (rule move_none) simp

lemmas report_moves = reports_stored(1,2,4,5) [THEN move_none] reject_move

lemma replay_move:
  assumes "ledger_ok dg l" "btree_get (bl_grants l) g = Some rec" "claim_of (gc_state rec) = Ok c"
    "\<not> b \<longrightarrow> gc_state rec = GS_Claimed c"
  shows "ledger_move dg p l l (replay_claim_reply c cmd b)"
  using assms reports_stored(2,3) [OF assms(1,2)]
  by (auto simp: replay_claim_reply_def intro: move_none)

lemma reserve_move:
  assumes ok: "ledger_ok dg l"
  shows "ledger_move dg p l (fst (ledger_reserve dg l p cmd)) (snd (ledger_reserve dg l p cmd))"
proof (cases "valid_reserve (bl_config l) cmd \<and> btree_get (bl_grants l) (rb_grant_id cmd) = None")
  case False
  then show ?thesis
    by (auto simp: ledger_reserve_def valid_reserve_def split: option.splits
        intro!: report_moves(1,5) ok)
next
  case True
  then have guards: "rb_scope_hash cmd = bc_scope_hash (bl_config l)" "rb_utc_window cmd = bc_utc_window (bl_config l)"
    by (simp_all add: valid_reserve_def)
  note t = reserved_total_valid [OF ok]
  have u: "unat (word_of_nat (reserved_sum l) :: u64) = reserved_sum l"
    using t(2) by (simp add: unat_of_nat)
  show ?thesis
  proof (cases "reserved_sum l + unat (rb_reserved_usd_nanos cmd) \<le> unat (bc_cap_usd_nanos (bl_config l))")
    case within: True
    then have lt: "reserved_sum l + unat (rb_reserved_usd_nanos cmd) < 2 ^ 64"
      using unat_bounds(4) [of "bc_cap_usd_nanos (bl_config l)"] by simp
    then obtain a where a: "checked_add (word_of_nat (reserved_sum l)) (rb_reserved_usd_nanos cmd) = Some a"
      using u by (cases "checked_add (word_of_nat (reserved_sum l)) (rb_reserved_usd_nanos cmd)")
        (auto simp: checked_add_None)
    then have "\<not> a > bc_cap_usd_nanos (bl_config l)"
      using within u by (simp add: checked_add_Some word_less_nat_alt not_less)
    with True guards t(1) a show ?thesis
      using move_reserve [where cmd = cmd and l = l and p = p and dg = dg, OF _ _ refl within]
      by (simp add: ledger_reserve_def Let_def reserved_grant_of_def)
  next
    case False
    then have "\<forall>a. checked_add (word_of_nat (reserved_sum l)) (rb_reserved_usd_nanos cmd) = Some a
        \<longrightarrow> a > bc_cap_usd_nanos (bl_config l)"
      using u by (auto simp: checked_add_Some word_less_nat_alt)
    with True guards t(1) show ?thesis
      by (auto simp: ledger_reserve_def split: option.splits intro!: reject_move)
  qed
qed

lemma begin_dispatch_move:
  "ledger_move dg p l (fst (ledger_begin_dispatch dg l p cmd)) (snd (ledger_begin_dispatch dg l p cmd))"
  if ok: "ledger_ok dg l"
proof -
  have step: "ledger_move dg p l (put_grant (bd_grant_id cmd) (rec\<lparr>gc_state := GS_Claimed receipt\<rparr>) l)
      (NewClaimed receipt)"
    if "btree_get (bl_grants l) (bd_grant_id cmd) = Some rec" "gc_state rec = GS_Reserved"
      "btree_get (bc_voters (bl_config l)) (bd_owner cmd) \<noteq> None" "is_identifier (bd_attempt_id cmd)"
      "rb_provider_intent_id (gc_reserve rec) = bd_provider_intent_id cmd"
      "receipt = \<lparr>cl_grant_id = bd_grant_id cmd,
         cl_dispatch_fence = expected_dispatch_fence dg (bl_config l) rec p cmd,
         cl_committed_at = p, cl_owner = bd_owner cmd, cl_attempt_id = bd_attempt_id cmd,
         cl_provider_intent_id = bd_provider_intent_id cmd\<rparr>" for rec receipt
  proof -
    have "rb_grant_id (gc_reserve rec) = bd_grant_id cmd"
      using ledger_ok_record [OF ok that(1)] by (simp add: record_ok_def)
    then show ?thesis
      using move_claim [of l receipt rec dg p] that
      by (simp add: validate_claim_def Let_def dispatch_fence_command)
  qed
  show ?thesis
    by (auto simp: ledger_begin_dispatch_def Let_def 
        split: option.splits grant_state.splits intro!: reject_move replay_move ok step)
qed

lemma settle_claimed_move:
  assumes ok: "ledger_ok dg l" and get: "btree_get (bl_grants l) (sb_grant_id cmd) = Some rec"
    and st: "gc_state rec = GS_Claimed claim" and m: "matches_settlement claim cmd"
  shows "ledger_move dg p l (fst (settle_claimed dg l p cmd rec claim)) (snd (settle_claimed dg l p cmd rec claim))"
proof (cases "exceeds_bound rec cmd")
  case True
  then show ?thesis
    using move_overrun [OF get st m True refl] by (simp add: settle_claimed_def Let_def)
next
  case False
  have "rb_grant_id (gc_reserve rec) = sb_grant_id cmd"
    using ledger_ok_record [OF ok get] by (simp add: record_ok_def)
  with False m show ?thesis
    using move_settle [OF get st, of dg "\<lparr>gr_grant_id = sb_grant_id cmd, gr_committed_at = p,
        gr_terminal_fence = expected_settlement_fence dg (bl_config l) rec claim p cmd,
        gr_terminal = T_Settled (charged_amount rec cmd) (sb_actual_usd_nanos cmd = None)\<rparr>" p]
    by (simp add: settle_claimed_def Let_def validate_settlement_def)
qed

lemma settle_move:
  assumes ok: "ledger_ok dg l"
  shows "ledger_move dg p l (fst (ledger_settle dg l p cmd)) (snd (ledger_settle dg l p cmd))"
proof -
  have step: "ledger_move dg p l (fst (settle_claimed dg l p cmd rec claim)) (snd (settle_claimed dg l p cmd rec claim))"
    if "btree_get (bl_grants l) (sb_grant_id cmd) = Some rec" "gc_state rec = GS_Claimed claim"
      "cl_dispatch_fence claim = sb_dispatch_fence cmd" "cl_owner claim = sb_owner cmd"
      "cl_attempt_id claim = sb_attempt_id cmd" for rec claim
    using that claim_record(2) [OF ok that(1), of claim] settle_claimed_move [OF ok that(1,2)]
    by (simp add: matches_settlement_def)
  show ?thesis
    by (cases "btree_get (bl_grants l) (sb_grant_id cmd)"; simp add: ledger_settle_def)
      (auto split: grant_state.splits sum.splits intro!: report_moves(3,5) ok step
        elim: claim_of.elims)
qed

lemma release_move:
  assumes ok: "ledger_ok dg l"
  shows "ledger_move dg p l (fst (ledger_release_before_claim dg l p g f)) (snd (ledger_release_before_claim dg l p g f))"
  by (auto simp: ledger_release_before_claim_def Let_def split: option.splits grant_state.splits
      intro!: report_moves(4,5) ok move_release)

lemma command_move:
  "ledger_ok dg l \<Longrightarrow> ledger_move dg p l (fst (ledger_command dg l p cmd)) (snd (ledger_command dg l p cmd))"
  by (cases cmd) (simp_all add: reserve_move begin_dispatch_move settle_move release_move)

lemma apply_move:
  assumes "ledger_ok dg l" "ledger_apply dg l t i cmd = (l', r)"
  shows "ledger_move dg \<lparr>clp_term = t, clp_index = i\<rparr> l l' r"
  using command_move [OF assms(1), of "\<lparr>clp_term = t, clp_index = i\<rparr>" cmd] assms
  by (simp add: ledger_apply_def ledger_ok_def)

end
