(* ===== verification/Budget_Run.thy ===== *)
theory Budget_Run
  imports Budget_Ledger
begin

text \<open>
  Runs of the budget ledger over committed logs, and what they guarantee: the cap, the
  life cycle of a grant, the single executable claim, idempotent replays, and the
  refinement of an abstract specification that knows only bounds and phases. A run applies
  the commands of a committed log in order, as
  \<open>src/SRC/neothd/src/cluster/budget_raft/state_machine.rs\<close> is driven.
\<close>

section \<open>Runs\<close>

type_synonym committed_entry = "u64 \<times> u64 \<times> budget_command"

fun ledger_run ::
    "(bytes \<Rightarrow> string) \<Rightarrow> budget_ledger \<Rightarrow> committed_entry list \<Rightarrow> budget_ledger \<times> budget_reply list" where
  "ledger_run dg l [] = (l, [])"
| "ledger_run dg l ((t, i, cmd) # es) =
     (case ledger_apply dg l t i cmd of
        (l1, r) \<Rightarrow> (case ledger_run dg l1 es of (l2, rs) \<Rightarrow> (l2, r # rs)))"

definition ledger_init :: "(bytes \<Rightarrow> string) \<Rightarrow> budget_ledger \<Rightarrow> bool" where
  "ledger_init dg l \<longleftrightarrow> (\<exists>c. ledger_new dg c = Ok l)"

definition ledger_step :: "(bytes \<Rightarrow> string) \<Rightarrow> budget_ledger \<Rightarrow> budget_ledger \<Rightarrow> bool" where
  "ledger_step dg l l' \<longleftrightarrow> (\<exists>t i cmd. l' = fst (ledger_apply dg l t i cmd))"

lemma ledger_new_ok: "ledger_new dg c = Ok l \<Longrightarrow> ledger_ok dg l \<and> bl_grants l = [] \<and> bl_config l = c"
  by (auto simp: ledger_new_def ledger_ok_def ledger_validate_ok reserved_sum_def split: sum.splits)

lemma apply_ok:
  assumes "ledger_ok dg l" "ledger_apply dg l t i cmd = (l', r)"
  shows "ledger_ok dg l'" "bl_config l' = bl_config l" "r \<noteq> Rejected Rej_InvalidConfig"
  using move_ok [OF apply_move [OF assms] assms(1)] by simp_all

interpretation budget: invariant_system "ledger_init dg" "ledger_step dg" "ledger_ok dg" for dg
proof
  show "ledger_ok dg l" if "ledger_init dg l" for l
    using that ledger_new_ok by (auto simp: ledger_init_def)
  show "ledger_ok dg l'" if "ledger_ok dg l" "ledger_step dg l l'" for l l'
    using that apply_ok(1) [OF that(1)] by (auto simp: ledger_step_def) (metis prod.collapse)
qed

section \<open>The life cycle of a grant\<close>

fun state_le :: "grant_state \<Rightarrow> grant_state \<Rightarrow> bool" where
  "state_le GS_Reserved s = True"
| "state_le (GS_Claimed c) s = (claim_of s = Ok c)"
| "state_le s t = (t = s)"

lemma state_le_refl [simp]: "state_le s s"
  by (cases s) simp_all

lemma state_le_trans: "state_le s t \<Longrightarrow> state_le t u \<Longrightarrow> state_le s u"
  by (cases s; cases t) auto

definition rec_le :: "grant_record \<Rightarrow> grant_record \<Rightarrow> bool" where
  "rec_le r r' \<longleftrightarrow> gc_reserve r' = gc_reserve r \<and> gc_reserve_fence r' = gc_reserve_fence r
     \<and> gc_reserved_at r' = gc_reserved_at r \<and> state_le (gc_state r) (gc_state r')"

definition ledger_le :: "budget_ledger \<Rightarrow> budget_ledger \<Rightarrow> bool" where
  "ledger_le l l' \<longleftrightarrow> bl_config l' = bl_config l \<and>
     (\<forall>g r. btree_get (bl_grants l) g = Some r \<longrightarrow>
        (\<exists>r'. btree_get (bl_grants l') g = Some r' \<and> rec_le r r'))"

lemma rec_le_refl [simp]: "rec_le r r"
  by (simp add: rec_le_def)

lemma rec_le_trans: "rec_le r s \<Longrightarrow> rec_le s t \<Longrightarrow> rec_le r t"
  by (auto simp: rec_le_def intro: state_le_trans)

lemma ledger_le_refl [simp]: "ledger_le l l"
  by (simp add: ledger_le_def)

lemma ledger_le_trans: "ledger_le l m \<Longrightarrow> ledger_le m n \<Longrightarrow> ledger_le l n"
  unfolding ledger_le_def by (metis rec_le_trans)

lemma put_grant_le:
  assumes "\<forall>r. btree_get (bl_grants l) g = Some r \<longrightarrow> rec_le r rec"
  shows "ledger_le l (put_grant g rec l)"
  using assms by (auto simp: ledger_le_def btree_get_insert)

lemma move_le: "ledger_move dg p l l' r \<Longrightarrow> ledger_le l l'"
  by (erule ledger_move.cases) (auto intro!: put_grant_le simp: rec_le_def)

lemma run_props:
  assumes "ledger_ok dg l" "ledger_run dg l es = (l', rs)"
  shows "ledger_ok dg l' \<and> ledger_le l l' \<and> Rejected Rej_InvalidConfig \<notin> set rs"
  using assms
proof (induction es arbitrary: l rs)
  case (Cons e es)
  obtain t i cmd where e: "e = (t, i, cmd)" by (cases e)
  obtain l1 r where a: "ledger_apply dg l t i cmd = (l1, r)" by fastforce
  obtain rs1 where b: "ledger_run dg l1 es = (l', rs1)" "rs = r # rs1"
    using Cons.prems(2) a by (auto simp: e split: prod.splits)
  have "ledger_le l l1" using move_le apply_move [OF Cons.prems(1) a] by blast
  with Cons.IH [OF apply_ok(1) [OF Cons.prems(1) a] b(1)] apply_ok(3) [OF Cons.prems(1) a] b(2)
  show ?case by (auto intro: ledger_le_trans)
qed simp

section \<open>One claim per grant\<close>

fun claims :: "budget_grant_id \<Rightarrow> budget_reply \<Rightarrow> bool" where
  "claims g (NewClaimed c) = (cl_grant_id c = g)"
| "claims g _ = False"

fun releases :: "budget_grant_id \<Rightarrow> budget_reply \<Rightarrow> bool" where
  "releases g (Released_reply x) = (gr_grant_id x = g)"
| "releases g _ = False"

lemma claims_iff: "claims g r \<longleftrightarrow> (\<exists>c. r = NewClaimed c \<and> cl_grant_id c = g)"
  by (cases r) auto

lemma releases_iff: "releases g r \<longleftrightarrow> (\<exists>x. r = Released_reply x \<and> gr_grant_id x = g)"
  by (cases r) auto

text \<open>A claim moves its grant from reserved to claimed, a release leaves it released.\<close>

lemma claim_step:
  assumes "ledger_move dg p l l' (NewClaimed c)"
  shows "\<exists>rec. btree_get (bl_grants l) (cl_grant_id c) = Some rec \<and> gc_state rec = GS_Reserved
      \<and> btree_get (bl_grants l') (cl_grant_id c) = Some (rec\<lparr>gc_state := GS_Claimed c\<rparr>)"
  using assms by (elim move_NewClaimed) (auto simp: btree_get_insert)

lemma release_step:
  assumes "ledger_move dg p l l' (Released_reply x)"
  shows "\<exists>rec. btree_get (bl_grants l') (gr_grant_id x) = Some rec \<and> gc_state rec = GS_Released x"
  using assms by (elim move_Released) (auto simp: btree_get_insert)

lemma le_state:
  assumes "ledger_le l l'" "btree_get (bl_grants l) g = Some r"
  obtains r' where "btree_get (bl_grants l') g = Some r'" "rec_le r r'"
  using assms unfolding ledger_le_def by blast

lemma claimed_no_more:
  assumes "ledger_ok dg l" "btree_get (bl_grants l) g = Some rec" "claim_of (gc_state rec) = Ok c"
    and "ledger_apply dg l t i cmd = (l', r)"
  shows "\<not> claims g r \<and> \<not> releases g r
    \<and> (\<exists>rec'. btree_get (bl_grants l') g = Some rec' \<and> claim_of (gc_state rec') = Ok c)"
proof -
  note mv = apply_move [OF assms(1,4)]
  obtain rec' where r': "btree_get (bl_grants l') g = Some rec'" "rec_le rec rec'"
    using le_state [OF move_le [OF mv] assms(2)] by blast
  then have c': "claim_of (gc_state rec') = Ok c"
    using assms(3) by (cases "gc_state rec") (auto simp: rec_le_def)
  have "\<not> claims g r" using claim_step mv assms(2,3) by (fastforce simp: claims_iff)
  moreover have "\<not> releases g r" using release_step mv r'(1) c' by (fastforce simp: releases_iff)
  ultimately show ?thesis using r'(1) c' by blast
qed

lemma run_after_claim:
  assumes "ledger_ok dg l" "btree_get (bl_grants l) g = Some rec" "claim_of (gc_state rec) = Ok c"
    and "ledger_run dg l es = (l', rs)"
  shows "filter (claims g) rs = [] \<and> filter (releases g) rs = []
    \<and> (\<exists>rec'. btree_get (bl_grants l') g = Some rec' \<and> claim_of (gc_state rec') = Ok c)"
  using assms
proof (induction es arbitrary: l rec rs)
  case (Cons e es)
  obtain t i cmd where e: "e = (t, i, cmd)" by (cases e)
  obtain l1 r where a: "ledger_apply dg l t i cmd = (l1, r)" by fastforce
  obtain rs1 where b: "ledger_run dg l1 es = (l', rs1)" "rs = r # rs1"
    using Cons.prems(4) a by (auto simp: e split: prod.splits)
  from claimed_no_more [OF Cons.prems(1-3) a]
  obtain rec1 where n: "\<not> claims g r" "\<not> releases g r" "btree_get (bl_grants l1) g = Some rec1"
      "claim_of (gc_state rec1) = Ok c" by blast
  from Cons.IH [OF apply_ok(1) [OF Cons.prems(1) a] n(3,4) b(1)] n(1,2) b(2) show ?case by simp
qed simp

lemma released_no_claim:
  assumes "ledger_ok dg l" "btree_get (bl_grants l) g = Some rec" "gc_state rec = GS_Released x"
    and "ledger_run dg l es = (l', rs)"
  shows "filter (claims g) rs = []"
  using assms
proof (induction es arbitrary: l rec rs)
  case (Cons e es)
  obtain t i cmd where e: "e = (t, i, cmd)" by (cases e)
  obtain l1 r where a: "ledger_apply dg l t i cmd = (l1, r)" by fastforce
  obtain rs1 where b: "ledger_run dg l1 es = (l', rs1)" "rs = r # rs1"
    using Cons.prems(4) a by (auto simp: e split: prod.splits)
  note mv = apply_move [OF Cons.prems(1) a]
  obtain rec1 where r1: "btree_get (bl_grants l1) g = Some rec1" "rec_le rec rec1"
    using le_state [OF move_le [OF mv] Cons.prems(2)] by blast
  then have "gc_state rec1 = GS_Released x" using Cons.prems(3) by (simp add: rec_le_def)
  moreover have "\<not> claims g r" using claim_step mv Cons.prems(2,3) by (fastforce simp: claims_iff)
  ultimately show ?case
    using Cons.IH [OF apply_ok(1) [OF Cons.prems(1) a] r1(1) _ b(1)] b(2) by simp
qed simp

lemma run_claims:
  assumes "ledger_ok dg l" "ledger_run dg l es = (l', rs)"
  shows "length (filter (claims g) rs) \<le> 1 \<and>
    (filter (claims g) rs \<noteq> [] \<longrightarrow> filter (releases g) rs = [])"
  using assms
proof (induction es arbitrary: l rs)
  case (Cons e es)
  obtain t i cmd where e: "e = (t, i, cmd)" by (cases e)
  obtain l1 r where a: "ledger_apply dg l t i cmd = (l1, r)" by fastforce
  obtain rs1 where b: "ledger_run dg l1 es = (l', rs1)" "rs = r # rs1"
    using Cons.prems(2) a by (auto simp: e split: prod.splits)
  note mv = apply_move [OF Cons.prems(1) a] and ok1 = apply_ok(1) [OF Cons.prems(1) a]
  consider (claim) c where "r = NewClaimed c" "cl_grant_id c = g"
    | (rel) x where "r = Released_reply x" "gr_grant_id x = g"
    | (other) "\<not> claims g r" "\<not> releases g r"
    by (cases r) auto
  then show ?case
  proof cases
    case claim
    then obtain rec where "btree_get (bl_grants l1) g = Some rec" "gc_state rec = GS_Claimed c"
      using claim_step mv by fastforce
    with run_after_claim [OF ok1 _ _ b(1), of g rec c] claim b(2) show ?thesis by simp
  next
    case rel
    then obtain rec where "btree_get (bl_grants l1) g = Some rec" "gc_state rec = GS_Released x"
      using release_step mv by fastforce
    with released_no_claim [OF ok1 _ _ b(1), of g rec x] rel b(2) show ?thesis by simp
  next
    case other
    then show ?thesis using Cons.IH [OF ok1 b(1)] b(2) by simp
  qed
qed simp

section \<open>Abstract specification\<close>

text \<open>
  A budget is a finite map from grants to a bound and a phase. A grant is reserved when its
  bound fits under the cap next to all earlier bounds, whatever became of them; it is then
  claimed once and settled or overrun, or released unclaimed.
\<close>

datatype phase = Ph_Reserved | Ph_Claimed | Ph_Settled | Ph_Overrun | Ph_Released

type_synonym budget_spec = "budget_grant_id \<Rightarrow> (nat \<times> phase) option"

definition spec_total :: "budget_spec \<Rightarrow> nat" where
  "spec_total a = (\<Sum>g \<in> dom a. fst (the (a g)))"

inductive spec_step :: "nat \<Rightarrow> budget_spec \<Rightarrow> budget_spec \<Rightarrow> bool" for cap where
  spec_reserve: "a g = None \<Longrightarrow> 0 < b \<Longrightarrow> spec_total a + b \<le> cap \<Longrightarrow> spec_step cap a (a(g \<mapsto> (b, Ph_Reserved)))"
| spec_claim: "a g = Some (b, Ph_Reserved) \<Longrightarrow> spec_step cap a (a(g \<mapsto> (b, Ph_Claimed)))"
| spec_settle: "a g = Some (b, Ph_Claimed) \<Longrightarrow> spec_step cap a (a(g \<mapsto> (b, Ph_Settled)))"
| spec_overrun: "a g = Some (b, Ph_Claimed) \<Longrightarrow> spec_step cap a (a(g \<mapsto> (b, Ph_Overrun)))"
| spec_release: "a g = Some (b, Ph_Reserved) \<Longrightarrow> spec_step cap a (a(g \<mapsto> (b, Ph_Released)))"

fun phase_of :: "grant_state \<Rightarrow> phase" where
  "phase_of GS_Reserved = Ph_Reserved"
| "phase_of (GS_Claimed _) = Ph_Claimed"
| "phase_of (GS_Settled _ _ _) = Ph_Settled"
| "phase_of (GS_Overrun _ _ _ _) = Ph_Overrun"
| "phase_of (GS_Released _) = Ph_Released"

definition abs_grant :: "grant_record \<Rightarrow> nat \<times> phase" where
  "abs_grant r = (bound r, phase_of (gc_state r))"

definition abs_ledger :: "budget_ledger \<Rightarrow> budget_spec" where
  "abs_ledger l g = map_option abs_grant (btree_get (bl_grants l) g)"

lemma abs_put_grant: "abs_ledger (put_grant g r l) = (abs_ledger l)(g \<mapsto> abs_grant r)"
  by (auto simp: abs_ledger_def fun_eq_iff btree_get_insert)

lemma spec_total_abs:
  assumes "btree_ok (bl_grants l)"
  shows "spec_total (abs_ledger l) = reserved_sum l"
proof -
  let ?m = "bl_grants l"
  have dom: "dom (abs_ledger l) = fst ` set ?m"
    using btree_get_entries [OF assms] by (force simp: abs_ledger_def dom_def)
  have inj: "inj_on fst (set ?m)"
    using bt.distinct_entries [OF assms] by (simp add: distinct_map)
  have "spec_total (abs_ledger l) = (\<Sum>e \<in> set ?m. fst (the (abs_ledger l (fst e))))"
    by (simp add: spec_total_def dom sum.reindex [OF inj])
  also have "\<dots> = (\<Sum>e \<in> set ?m. bound (snd e))"
    by (rule sum.cong) (auto simp: abs_ledger_def abs_grant_def btree_get_entries [OF assms, THEN iffD2])
  also have "\<dots> = reserved_sum l"
    using bt.distinct_pairs [OF assms] by (simp add: reserved_sum_def sum_list_distinct_conv_sum_set)
  finally show ?thesis .
qed

lemma move_refines:
  assumes "ledger_move dg p l l' r" and ok: "ledger_ok dg l"
  shows "l' = l \<or> spec_step (unat (bc_cap_usd_nanos (bl_config l))) (abs_ledger l) (abs_ledger l')"
  using assms(1)
proof cases
  case (move_reserve cmd rec)
  have "0 < unat (rb_reserved_usd_nanos cmd)"
    using move_reserve(4) by (simp add: valid_reserve_def unat_gt_0 word_neq_0_conv)
  with move_reserve ok show ?thesis
    using spec_reserve [of "abs_ledger l" "rb_grant_id cmd" "bound rec"]
    by (simp add: abs_put_grant abs_grant_def bound_def spec_total_abs ledger_ok_def abs_ledger_def)
qed (auto simp: abs_put_grant abs_grant_def abs_ledger_def bound_def
      intro!: spec_claim spec_settle spec_overrun spec_release)

section \<open>Replays\<close>

text \<open>
  What an acknowledged command leaves in the ledger: the record that a later replay of the
  same command is answered from.
\<close>

fun acknowledged :: "budget_reply \<Rightarrow> bool" where
  "acknowledged (Rejected e) = (e = Rej_Overrun)"
| "acknowledged _ = True"

fun replay_replies :: "budget_reply \<Rightarrow> budget_reply set" where
  "replay_replies (Reserved_reply g) = {AlreadyReserved g}"
| "replay_replies (NewClaimed c) = {AlreadyClaimed c, ReconcileOnly c}"
| "replay_replies (AlreadyClaimed c) = {AlreadyClaimed c, ReconcileOnly c}"
| "replay_replies r = {r}"

definition effective :: "budget_ledger \<Rightarrow> budget_command \<Rightarrow> grant_record \<Rightarrow> budget_reply \<Rightarrow> bool" where
  "effective l cmd rec r = (case cmd of
     Cmd_Reserve c \<Rightarrow> valid_reserve (bl_config l) c \<and> btree_get (bl_grants l) (rb_grant_id c) = Some rec
       \<and> gc_reserve rec = c \<and> r \<in> {Reserved_reply (reserved_grant_of rec), AlreadyReserved (reserved_grant_of rec)}
   | Cmd_BeginDispatch c \<Rightarrow> btree_get (bc_voters (bl_config l)) (bd_owner c) \<noteq> None
       \<and> is_identifier (bd_attempt_id c) \<and> btree_get (bl_grants l) (bd_grant_id c) = Some rec
       \<and> gc_reserve_fence rec = bd_reserve_fence c
       \<and> rb_provider_intent_id (gc_reserve rec) = bd_provider_intent_id c
       \<and> (\<exists>receipt. claim_of (gc_state rec) = Ok receipt \<and> cl_owner receipt = bd_owner c
            \<and> cl_attempt_id receipt = bd_attempt_id c \<and> cl_provider_intent_id receipt = bd_provider_intent_id c
            \<and> r \<in> {NewClaimed receipt, AlreadyClaimed receipt, ReconcileOnly receipt}
            \<and> (r = ReconcileOnly receipt \<longrightarrow> gc_state rec \<noteq> GS_Claimed receipt))
   | Cmd_Settle c \<Rightarrow> btree_get (bl_grants l) (sb_grant_id c) = Some rec
       \<and> (\<exists>claim. cl_dispatch_fence claim = sb_dispatch_fence c \<and> cl_owner claim = sb_owner c
            \<and> cl_attempt_id claim = sb_attempt_id c
            \<and> ((\<exists>x. gc_state rec = GS_Settled claim c x \<and> r = Settled_reply x)
                \<or> (\<exists>p f. gc_state rec = GS_Overrun claim p f c) \<and> r = Rejected Rej_Overrun))
   | Cmd_ReleaseBeforeClaim g f \<Rightarrow> btree_get (bl_grants l) g = Some rec \<and> gc_reserve_fence rec = f
       \<and> (\<exists>x. gc_state rec = GS_Released x \<and> r = Released_reply x))"

lemma acknowledged_effective:
  assumes "acknowledged r" "ledger_command dg l p cmd = (l', r)"
  shows "\<exists>rec. effective l' cmd rec r"
proof (cases cmd)
  case (Cmd_Reserve c)
  with assms show ?thesis
    by (auto simp: effective_def ledger_reserve_def Let_def reserved_grant_of_def btree_get_insert
        split: if_splits option.splits)
next
  case (Cmd_BeginDispatch c)
  with assms show ?thesis
    by (auto simp: effective_def ledger_begin_dispatch_def replay_claim_reply_def Let_def btree_get_insert
        split: if_splits option.splits grant_state.splits)
next
  case (Cmd_Settle c)
  with assms show ?thesis
    by (auto simp: effective_def ledger_settle_def settle_claimed_def Let_def btree_get_insert
        split: if_splits option.splits sum.splits grant_state.splits elim!: claim_of.elims)
next
  case (Cmd_ReleaseBeforeClaim g f)
  with assms show ?thesis
    by (auto simp: effective_def ledger_release_before_claim_def Let_def btree_get_insert
        split: if_splits option.splits grant_state.splits)
qed

lemma effective_le:
  assumes "effective l cmd rec r" "ledger_le l l'"
  shows "\<exists>rec'. effective l' cmd rec' r"
proof -
  have conf: "bl_config l' = bl_config l" using assms(2) by (simp add: ledger_le_def)
  have get: "\<exists>r'. btree_get (bl_grants l') g = Some r' \<and> rec_le x r'"
    if "btree_get (bl_grants l) g = Some x" for g x
    using that assms(2) by (simp add: ledger_le_def)
  show ?thesis
  proof (cases cmd)
    case (Cmd_Reserve c)
    with assms(1) get [of "rb_grant_id c" rec] show ?thesis
      by (auto simp: effective_def conf rec_le_def reserved_grant_of_def)
  next
    case (Cmd_BeginDispatch c)
    with assms(1) get [of "bd_grant_id c" rec] show ?thesis
      by (cases "gc_state rec") (auto simp: effective_def conf rec_le_def)
  next
    case (Cmd_Settle c)
    with assms(1) get [of "sb_grant_id c" rec] show ?thesis
      by (auto simp: effective_def rec_le_def)
  next
    case (Cmd_ReleaseBeforeClaim g f)
    with assms(1) get [of g rec] show ?thesis
      by (auto simp: effective_def rec_le_def)
  qed
qed

lemma effective_replay:
  assumes "effective l cmd rec r"
  shows "fst (ledger_command dg l p cmd) = l \<and> snd (ledger_command dg l p cmd) \<in> replay_replies r"
proof (cases cmd)
  case (Cmd_Reserve c)
  with assms show ?thesis
    by (auto simp: effective_def ledger_reserve_def valid_reserve_def)
next
  case (Cmd_BeginDispatch c)
  with assms show ?thesis
    by (auto simp: effective_def ledger_begin_dispatch_def replay_claim_reply_def
        split: grant_state.splits)
next
  case (Cmd_Settle c)
  with assms show ?thesis
    by (auto simp: effective_def ledger_settle_def)
next
  case (Cmd_ReleaseBeforeClaim g f)
  with assms show ?thesis
    by (auto simp: effective_def ledger_release_before_claim_def)
qed

lemma apply_command:
  "ledger_ok dg l \<Longrightarrow> ledger_apply dg l t i cmd = ledger_command dg l \<lparr>clp_term = t, clp_index = i\<rparr> cmd"
  by (simp add: ledger_apply_def ledger_ok_def)

section \<open>A sample cluster\<close>

definition sample_reserve :: reserve_budget where
  "sample_reserve = \<lparr>rb_grant_id = ''01890000-0000-7000-8000-000000000001'', rb_provider_intent_id = ''intent'',
     rb_request_fingerprint = replicate 64 CHR ''f'', rb_scope_hash = replicate 64 CHR ''a'',
     rb_reserved_usd_nanos = 60, rb_utc_window = 20260923\<rparr>"

definition sample_dispatch :: begin_dispatch_cmd where
  "sample_dispatch = \<lparr>bd_grant_id = ''01890000-0000-7000-8000-000000000001'',
     bd_reserve_fence = replicate 64 CHR ''a'', bd_owner = replicate 64 CHR ''1'', bd_attempt_id = ''try'',
     bd_provider_intent_id = ''intent''\<rparr>"

definition sample_ledger :: budget_ledger where
  "sample_ledger = \<lparr>bl_config = sample_config, bl_grants = []\<rparr>"

definition sample_log :: "committed_entry list" where
  "sample_log = [(1, 4, Cmd_Reserve sample_reserve), (1, 5, Cmd_BeginDispatch sample_dispatch)]"

lemma sample_uuid: "is_uuid_v7 ''01890000-0000-7000-8000-000000000001''"
  by (simp add: is_uuid_v7_def is_ascii_digit_def code_of_def)

lemma sample_new: "ledger_new sample_digest sample_config = Ok sample_ledger"
  by (simp add: ledger_new_def sample_valid sample_ledger_def)

definition sample_record :: grant_record where
  "sample_record = \<lparr>gc_reserve = sample_reserve, gc_reserve_fence = replicate 64 CHR ''a'',
     gc_reserved_at = \<lparr>clp_term = 1, clp_index = 4\<rparr>, gc_state = GS_Reserved\<rparr>"

definition sample_claim :: claim_receipt where
  "sample_claim = \<lparr>cl_grant_id = ''01890000-0000-7000-8000-000000000001'',
     cl_dispatch_fence = replicate 64 CHR ''a'', cl_committed_at = \<lparr>clp_term = 1, clp_index = 5\<rparr>,
     cl_owner = replicate 64 CHR ''1'', cl_attempt_id = ''try'', cl_provider_intent_id = ''intent''\<rparr>"

definition sample_ledger1 :: budget_ledger where
  "sample_ledger1 = \<lparr>bl_config = sample_config, bl_grants = [(rb_grant_id sample_reserve, sample_record)]\<rparr>"

definition sample_ledger2 :: budget_ledger where
  "sample_ledger2 = \<lparr>bl_config = sample_config, bl_grants = [(rb_grant_id sample_reserve,
     sample_record\<lparr>gc_state := GS_Claimed sample_claim\<rparr>)]\<rparr>"

lemma sample_fences:
  "expected_reserve_fence sample_digest c r p = replicate 64 CHR ''a''"
  "expected_dispatch_fence sample_digest c rec p cmd = replicate 64 CHR ''a''"
  "expected_settlement_fence sample_digest c rec claim p s = replicate 64 CHR ''a''"
  "expected_release_fence sample_digest c rec p = replicate 64 CHR ''a''"
  by (simp_all add: expected_reserve_fence_def expected_dispatch_fence_def expected_settlement_fence_def
      expected_release_fence_def fence_hash_def sample_digest_def)

lemma sample_ok: "ledger_ok sample_digest sample_ledger"
  using ledger_new_ok [OF sample_new] by simp

lemma sample_valid_reserve: "valid_reserve sample_config sample_reserve"
  by (simp add: valid_reserve_def sample_reserve_def sample_config_def sample_uuid sample_ids sample_hex)

lemma sample_apply1:
  "ledger_apply sample_digest sample_ledger 1 4 (Cmd_Reserve sample_reserve) =
     (sample_ledger1, Reserved_reply (reserved_grant_of sample_record))"
proof -
  have "checked_add 0 (60 :: u64) = Some 60" by (simp add: checked_add_def)
  then show ?thesis
    using sample_valid_reserve unfolding apply_command [OF sample_ok]
    by (simp add: ledger_reserve_def sample_ledger_def sample_ledger1_def
        sample_reserve_def sample_config_def sample_record_def reserved_total_def reserved_grant_of_def
        sample_fences put_grant_def Let_def)
qed

lemma sample_apply2:
  "ledger_apply sample_digest sample_ledger1 1 5 (Cmd_BeginDispatch sample_dispatch) =
     (sample_ledger2, NewClaimed sample_claim)"
  unfolding apply_command [OF apply_ok(1) [OF sample_ok sample_apply1]]
  by (simp add: ledger_begin_dispatch_def
      sample_ledger1_def sample_ledger2_def sample_dispatch_def sample_config_def sample_record_def
      sample_reserve_def sample_claim_def sample_fences sample_ids put_grant_def Let_def)

lemma sample_run:
  "ledger_run sample_digest sample_ledger sample_log =
     (sample_ledger2, [Reserved_reply (reserved_grant_of sample_record), NewClaimed sample_claim])"
  by (simp add: sample_log_def sample_apply1 sample_apply2)

lemma sample_reachable: "reachable (ledger_init sample_digest) (ledger_step sample_digest) sample_ledger2"
proof -
  have "reachable (ledger_init sample_digest) (ledger_step sample_digest) sample_ledger"
    by (rule reachable_init) (use sample_new in \<open>auto simp: ledger_init_def\<close>)
  moreover have "ledger_step sample_digest sample_ledger sample_ledger1"
    unfolding ledger_step_def using sample_apply1 by (metis fst_conv)
  moreover have "ledger_step sample_digest sample_ledger1 sample_ledger2"
    unfolding ledger_step_def using sample_apply2 by (metis fst_conv)
  ultimately show ?thesis by (blast intro: reachable_step)
qed

section \<open>Properties\<close>

text \<open>What a grant still holds of the cap: its charge once settled, nothing once released.\<close>

fun held :: "grant_record \<Rightarrow> nat" where
  "held rec = (case gc_state rec of
     GS_Settled _ _ x \<Rightarrow> (case gr_terminal x of T_Settled charged _ \<Rightarrow> unat charged | _ \<Rightarrow> 0)
   | GS_Released _ \<Rightarrow> 0
   | _ \<Rightarrow> bound rec)"

declare held.simps [simp del]

lemma held_le_bound:
  assumes "record_ok dg c g rec"
  shows "held rec \<le> bound rec"
proof (cases "gc_state rec")
  case (GS_Settled claim st x)
  then have "validate_settlement dg c rec claim st x = Ok ()"
    using assms by (simp add: record_ok_def split: sum.splits)
  with GS_Settled show ?thesis
    by (auto simp: held.simps validate_settlement_def exceeds_bound_def charged_amount_def bound_def
        word_less_nat_alt not_less split: if_splits option.splits)
qed (simp_all add: held.simps)

text \<open>
  C7: the budget is a hard ceiling. In every ledger that the commands of any log can
  produce, the sum of all reserved bounds, of settled and released grants too, stays within
  the cap of the frozen configuration, the money still held or charged never exceeds that
  sum, and the ledger passes its recovery validation.
\<close>

theorem reservations_stay_within_cap:
  assumes "reachable (ledger_init dg) (ledger_step dg) l"
  shows "ledger_validate dg l = Ok () \<and>
    (\<Sum>e \<leftarrow> bl_grants l. held (snd e)) \<le> (\<Sum>e \<leftarrow> bl_grants l. bound (snd e)) \<and>
    (\<Sum>e \<leftarrow> bl_grants l. bound (snd e)) \<le> unat (bc_cap_usd_nanos (bl_config l))"
proof -
  have ok: "ledger_ok dg l" using assms by (rule budget.reachable_inv)
  have "(\<Sum>e \<leftarrow> bl_grants l. held (snd e)) \<le> (\<Sum>e \<leftarrow> bl_grants l. bound (snd e))"
  proof (rule sum_list_mono)
    fix e assume "e \<in> set (bl_grants l)"
    then have "record_ok dg (bl_config l) (fst e) (snd e)"
      using ok by (simp add: ledger_ok_def ledger_validate_ok)
    then show "held (snd e) \<le> bound (snd e)" by (rule held_le_bound)
  qed
  then show ?thesis
    using ok by (simp add: ledger_ok_def ledger_validate_ok sum_ok_unit reserved_sum_def)
qed

theorem reservations_stay_within_cap_witness:
  "ledger_validate sample_digest sample_ledger2 = Ok () \<and> length (bl_grants sample_ledger2) = 1
     \<and> (\<Sum>e \<leftarrow> bl_grants sample_ledger2. bound (snd e)) \<le> 100"
  using reservations_stay_within_cap [OF sample_reachable]
  by (simp add: sample_ledger2_def sample_config_def)

text \<open>
  C8: a grant yields at most one executable claim. In the replies to any committed log, at
  most one is the first claim of a given grant, and no grant that was claimed is released.
\<close>

theorem one_claim_per_grant:
  assumes "ledger_new dg c = Ok l" and "ledger_run dg l es = (l', rs)"
  shows "length (filter (claims g) rs) \<le> 1 \<and>
    (filter (claims g) rs \<noteq> [] \<longrightarrow> filter (releases g) rs = [])"
  using run_claims [OF _ assms(2)] ledger_new_ok [OF assms(1)] by blast

theorem one_claim_per_grant_witness:
  "filter (claims (rb_grant_id sample_reserve))
     [Reserved_reply (reserved_grant_of sample_record), NewClaimed sample_claim] = [NewClaimed sample_claim] \<and>
   filter (releases (rb_grant_id sample_reserve))
     [Reserved_reply (reserved_grant_of sample_record), NewClaimed sample_claim] = []"
proof -
  have "filter (claims (rb_grant_id sample_reserve))
     [Reserved_reply (reserved_grant_of sample_record), NewClaimed sample_claim] = [NewClaimed sample_claim]"
    by (simp add: sample_claim_def sample_reserve_def)
  with one_claim_per_grant [OF sample_new sample_run, of "rb_grant_id sample_reserve"] show ?thesis
    by (simp del: filter.simps)
qed

text \<open>
  C22: a replayed command is idempotent. When a command was acknowledged, then after any
  further commands the same command at any later log position changes nothing and returns
  the original receipt: the reservation with its first position, the claim as already
  claimed or for reconciliation only, the settlement, the release or the recorded overrun.
\<close>

theorem replay_returns_original_receipt:
  assumes "ledger_ok dg l" and "ledger_apply dg l t i cmd = (l1, r)" and "acknowledged r"
    and "ledger_run dg l1 es = (l2, rs)"
  shows "fst (ledger_apply dg l2 t' i' cmd) = l2 \<and> snd (ledger_apply dg l2 t' i' cmd) \<in> replay_replies r"
proof -
  note ok1 = apply_ok(1) [OF assms(1,2)]
  have "ledger_command dg l \<lparr>clp_term = t, clp_index = i\<rparr> cmd = (l1, r)"
    using assms(2) by (simp add: apply_command [OF assms(1)])
  from acknowledged_effective [OF assms(3) this] obtain rec where "effective l1 cmd rec r" by blast
  with run_props [OF ok1 assms(4)] obtain rec' where "effective l2 cmd rec' r"
    using effective_le by blast
  then show ?thesis
    using run_props [OF ok1 assms(4)] effective_replay by (simp add: apply_command)
qed

theorem replay_returns_original_receipt_witness:
  "snd (ledger_apply sample_digest sample_ledger2 9 9 (Cmd_Reserve sample_reserve)) =
     AlreadyReserved (reserved_grant_of sample_record)"
  using replay_returns_original_receipt [OF sample_ok sample_apply1,
      of "[(1, 5, Cmd_BeginDispatch sample_dispatch)]" sample_ledger2 "[NewClaimed sample_claim]" 9 9]
  by (simp add: sample_apply2)

text \<open>
  C21: every applied command is a step of the abstract budget, or changes nothing: a fresh
  grant is reserved only within the cap, a grant is claimed only once and only while it is
  reserved, settled or overrun only after its claim, and released only before it.
\<close>

theorem ledger_refines_spec:
  assumes "ledger_ok dg l"
  shows "fst (ledger_apply dg l t i cmd) = l \<or>
    spec_step (unat (bc_cap_usd_nanos (bl_config l))) (abs_ledger l) (abs_ledger (fst (ledger_apply dg l t i cmd)))"
proof -
  obtain l' r where a: "ledger_apply dg l t i cmd = (l', r)" by fastforce
  show ?thesis using move_refines [OF apply_move [OF assms a] assms] a by simp
qed

theorem ledger_refines_spec_witness:
  "spec_step 100 (abs_ledger sample_ledger) (abs_ledger sample_ledger1)"
  using ledger_refines_spec [OF sample_ok, of 1 4 "Cmd_Reserve sample_reserve"]
  by (simp add: sample_apply1) (simp add: sample_ledger_def sample_ledger1_def sample_config_def)

text \<open>
  A well-formed reservation of a fresh grant is admitted exactly when its bound fits
  under the cap next to everything reserved before; otherwise it is refused as exceeding the
  cap and the ledger is unchanged. No overflow of the 64-bit sum can hide an excess.
\<close>

theorem reserve_admits_exactly:
  assumes ok: "ledger_ok dg l" and v: "valid_reserve (bl_config l) cmd"
    and fresh: "btree_get (bl_grants l) (rb_grant_id cmd) = None"
  shows "if (\<Sum>e \<leftarrow> bl_grants l. bound (snd e)) + unat (rb_reserved_usd_nanos cmd)
            \<le> unat (bc_cap_usd_nanos (bl_config l))
         then \<exists>g. snd (ledger_apply dg l t i (Cmd_Reserve cmd)) = Reserved_reply g \<and> rg_grant_id g = rb_grant_id cmd
         else ledger_apply dg l t i (Cmd_Reserve cmd) = (l, Rejected Rej_CapExceeded)"
proof -
  let ?w = "word_of_nat (reserved_sum l) :: u64" and ?b = "rb_reserved_usd_nanos cmd"
  have guards: "rb_scope_hash cmd = bc_scope_hash (bl_config l)" "rb_utc_window cmd = bc_utc_window (bl_config l)"
    using v by (simp_all add: valid_reserve_def)
  note t = reserved_total_valid [OF ok]
  have u: "unat ?w = reserved_sum l" using t(2) by (simp add: unat_of_nat)
  have cap: "unat (bc_cap_usd_nanos (bl_config l)) < 2 ^ 64"
    using unat_bounds(4) [of "bc_cap_usd_nanos (bl_config l)"] by simp
  show ?thesis
  proof (cases "checked_add ?w ?b")
    case None
    then have "2 ^ 64 \<le> reserved_sum l + unat ?b" by (simp add: checked_add_None u)
    with None v fresh guards t(1) cap show ?thesis
      by (simp add: apply_command [OF ok] ledger_reserve_def reserved_sum_def)
  next
    case (Some a)
    then have "unat a = reserved_sum l + unat ?b" by (simp add: checked_add_Some u)
    with Some v fresh guards t(1) show ?thesis
      by (simp add: apply_command [OF ok] ledger_reserve_def reserved_sum_def Let_def word_less_nat_alt not_le)
  qed
qed

theorem reserve_admits_exactly_witness:
  "\<exists>g. snd (ledger_apply sample_digest sample_ledger 1 4 (Cmd_Reserve sample_reserve)) = Reserved_reply g
     \<and> rg_grant_id g = rb_grant_id sample_reserve"
  using reserve_admits_exactly [OF sample_ok, of sample_reserve 1 4] sample_valid_reserve
  by (simp add: sample_ledger_def sample_config_def sample_reserve_def)

text \<open>
  The first settlement of a claim by its owner charges the reported cost when it is
  within the bound and the whole bound when the cost is unknown; a cost above the bound is
  recorded as an overrun, refused, and keeps the whole bound held.
\<close>

theorem settlement_is_exact:
  assumes ok: "ledger_ok dg l" and get: "btree_get (bl_grants l) (sb_grant_id cmd) = Some rec"
    and st: "gc_state rec = GS_Claimed claim" and m: "matches_settlement claim cmd"
    and ap: "ledger_apply dg l t i (Cmd_Settle cmd) = (l', r)"
  shows "\<exists>rec'. btree_get (bl_grants l') (sb_grant_id cmd) = Some rec' \<and> gc_reserve rec' = gc_reserve rec \<and>
    (case sb_actual_usd_nanos cmd of
       None \<Rightarrow> held rec' = bound rec \<and> (\<exists>x. r = Settled_reply x
         \<and> gr_terminal x = T_Settled (rb_reserved_usd_nanos (gc_reserve rec)) True)
     | Some actual \<Rightarrow>
         if unat actual \<le> bound rec
         then held rec' = unat actual \<and> (\<exists>x. r = Settled_reply x \<and> gr_terminal x = T_Settled actual False)
         else held rec' = bound rec \<and> r = Rejected Rej_Overrun)"
proof -
  have "ledger_apply dg l t i (Cmd_Settle cmd) =
      settle_claimed dg l \<lparr>clp_term = t, clp_index = i\<rparr> cmd rec claim"
    using get st m by (simp add: apply_command [OF ok] ledger_settle_def matches_settlement_def)
  with ap have "settle_claimed dg l \<lparr>clp_term = t, clp_index = i\<rparr> cmd rec claim = (l', r)" by simp
  then show ?thesis
    by (auto simp: settle_claimed_def Let_def exceeds_bound_def charged_amount_def btree_get_insert
        held.simps bound_def word_less_nat_alt not_le split: option.splits if_splits)
qed

theorem settlement_is_exact_witness:
  "\<exists>x. snd (ledger_apply sample_digest sample_ledger2 2 6 (Cmd_Settle \<lparr>sb_grant_id = rb_grant_id sample_reserve,
      sb_dispatch_fence = cl_dispatch_fence sample_claim, sb_owner = cl_owner sample_claim,
      sb_attempt_id = cl_attempt_id sample_claim, sb_actual_usd_nanos = Some 45\<rparr>)) = Settled_reply x
    \<and> gr_terminal x = T_Settled 45 False"
proof -
  let ?s = "\<lparr>sb_grant_id = rb_grant_id sample_reserve, sb_dispatch_fence = cl_dispatch_fence sample_claim,
    sb_owner = cl_owner sample_claim, sb_attempt_id = cl_attempt_id sample_claim, sb_actual_usd_nanos = Some 45\<rparr>"
  have ok: "ledger_ok sample_digest sample_ledger2"
    using budget.reachable_inv [OF sample_reachable] .
  obtain l' r where ap: "ledger_apply sample_digest sample_ledger2 2 6 (Cmd_Settle ?s) = (l', r)" by fastforce
  have get: "btree_get (bl_grants sample_ledger2) (sb_grant_id ?s) = Some (sample_record\<lparr>gc_state := GS_Claimed sample_claim\<rparr>)"
    by (simp add: sample_ledger2_def)
  have m: "matches_settlement sample_claim ?s"
    by (simp add: matches_settlement_def) (simp add: sample_claim_def sample_reserve_def)
  have "unat (45 :: u64) \<le> bound (sample_record\<lparr>gc_state := GS_Claimed sample_claim\<rparr>)"
    by (simp add: bound_def sample_record_def sample_reserve_def)
  then have "\<exists>x. r = Settled_reply x \<and> gr_terminal x = T_Settled 45 False"
    using settlement_is_exact [OF ok get _ m ap] by auto
  then show ?thesis using ap by simp
qed

text \<open>What a dispatch fence hashes.\<close>

definition dispatch_preimage :: "budget_cluster_config \<Rightarrow> grant_record \<Rightarrow> claim_receipt \<Rightarrow> bytes" where
  "dispatch_preimage c rec claim = fence_preimage (str_bytes ''neoth.budget.dispatch-fence.v2'' @ [0])
     [str_bytes (bc_cluster_id c), str_bytes (bc_scope_hash c), u64_to_le (bc_membership_epoch c),
      u64_to_le (clp_term (gc_reserved_at rec)), u64_to_le (clp_index (gc_reserved_at rec)),
      str_bytes (gc_reserve_fence rec), u64_to_le (clp_term (cl_committed_at claim)),
      u64_to_le (clp_index (cl_committed_at claim)), str_bytes (cl_grant_id claim),
      str_bytes (cl_owner claim), str_bytes (cl_attempt_id claim), str_bytes (cl_provider_intent_id claim)]"

text \<open>
  A dispatch fence identifies its claim. Two claims that validate against the same
  configuration and carry the same fence are the same claim, with the same grant, owner,
  attempt, intent and committed position, unless the hash collides on their two preimages.
\<close>

theorem dispatch_fence_pins_claim:
  assumes "validate_claim dg c rec claim = Ok ()" and "validate_claim dg c rec' claim' = Ok ()"
    and fence: "cl_dispatch_fence claim = cl_dispatch_fence claim'"
    and coll: "dg (dispatch_preimage c rec claim) = dg (dispatch_preimage c rec' claim')
      \<longrightarrow> dispatch_preimage c rec claim = dispatch_preimage c rec' claim'"
    and sizes: "\<forall>s \<in> {bc_cluster_id c, bc_scope_hash c, gc_reserve_fence rec, gc_reserve_fence rec', cl_grant_id claim,
      cl_grant_id claim', cl_owner claim, cl_owner claim', cl_attempt_id claim, cl_attempt_id claim',
      cl_provider_intent_id claim, cl_provider_intent_id claim'}. length s < 2 ^ 64"
  shows "claim = claim' \<and> gc_reserved_at rec = gc_reserved_at rec' \<and> gc_reserve_fence rec = gc_reserve_fence rec'"
proof -
  have f: "cl_dispatch_fence claim = dg (dispatch_preimage c rec claim)"
    "cl_dispatch_fence claim' = dg (dispatch_preimage c rec' claim')"
    using assms(1,2) by (auto simp: validate_claim_def Let_def expected_dispatch_fence_def fence_hash_def
        dispatch_preimage_def split: if_splits)
  then have "dispatch_preimage c rec claim = dispatch_preimage c rec' claim'"
    using fence coll by simp
  from fence_preimage_inj [OF _ _ _ this [unfolded dispatch_preimage_def]] sizes fence
  show ?thesis by (simp add: claim_receipt.equality committed_log_position.equality)
qed

theorem dispatch_fence_pins_claim_witness:
  "gc_reserve_fence sample_record = gc_reserve_fence (sample_record\<lparr>gc_state := GS_Claimed sample_claim\<rparr>)
   \<and> gc_reserved_at sample_record = gc_reserved_at (sample_record\<lparr>gc_state := GS_Claimed sample_claim\<rparr>)"
proof -
  let ?r = "sample_record\<lparr>gc_state := GS_Claimed sample_claim\<rparr>"
  have v: "validate_claim sample_digest sample_config sample_record sample_claim = Ok ()"
    by (simp add: validate_claim_def Let_def sample_fences)
      (simp add: sample_claim_def sample_record_def sample_reserve_def sample_config_def sample_ids)
  then have v': "validate_claim sample_digest sample_config ?r sample_claim = Ok ()" by simp
  have "dispatch_preimage sample_config sample_record sample_claim = dispatch_preimage sample_config ?r sample_claim"
    by (simp add: dispatch_preimage_def)
  moreover have "\<forall>s \<in> {bc_cluster_id sample_config, bc_scope_hash sample_config, gc_reserve_fence sample_record,
      gc_reserve_fence ?r, cl_grant_id sample_claim, cl_owner sample_claim, cl_attempt_id sample_claim,
      cl_provider_intent_id sample_claim}. length s < 2 ^ 64"
    by (simp add: sample_claim_def sample_config_def sample_record_def)
  ultimately show ?thesis
    using dispatch_fence_pins_claim [OF v v' refl] by simp
qed

end
