(* ===== verification/Budget_Membership.thy ===== *)
theory Budget_Membership
  imports Budget_Types
begin

text \<open>
  The durable membership proof behind the budget authority: the membership snapshot and its
  validation from \<open>src/SRC/neothd/src/cluster/membership.rs\<close>, and the derivation and
  re-verification of the frozen configuration against it from
  \<open>src/SRC/neothd/src/cluster/budget_raft/membership_validator.rs\<close>. An
  \<open>anyhow::Error\<close> is its chain of messages. \<open>hexd\<close> stands for
  \<open>hex::decode\<close>; reading the snapshot from the membership database is an argument of
  the operations that do it, and so is every reading of the clock.
\<close>

section \<open>Identities and epochs\<close>

type_synonym anyhow = "string list"

definition context_msg :: "string \<Rightarrow> anyhow + 'a \<Rightarrow> anyhow + 'a" where
  "context_msg m r = (case r of Inl e \<Rightarrow> Err (m # e) | Inr x \<Rightarrow> Ok x)"

datatype carrier_kind = Peeroxide | Iroh

datatype membership_state = MS_Discovered | MS_Pending | MS_Active | MS_Revoked

definition StableNodeId_parse :: "(string \<Rightarrow> anyhow + bytes) \<Rightarrow> string \<Rightarrow> anyhow + stable_node_id" where
  "StableNodeId_parse hexd v =
     (case context_msg ''stable node id is not hexadecimal'' (hexd v) of
        Inl e \<Rightarrow> Err e
      | Inr decoded \<Rightarrow>
          if length decoded = 32 \<and> length v = 64 \<and> v = to_ascii_lowercase v then Ok v
          else Err [''stable node id must be 32-byte lowercase hex''])"

definition TransportIdentity_parse :: "string \<Rightarrow> anyhow + transport_identity" where
  "TransportIdentity_parse v =
     (if v = [] then Err [''transport identity is empty'']
      else if \<not> length v \<le> 512 then Err [''transport identity exceeds 512-byte limit'']
      else if trim v \<noteq> v then Err [''transport identity contains surrounding whitespace'']
      else if list_ex (\<lambda>ch. is_control (scalar_of ch)) (utf8_chunks v)
        then Err [''transport identity contains control characters'']
      else Ok v)"

definition AuthEpoch_new :: "u64 \<Rightarrow> anyhow + u64" where
  "AuthEpoch_new v = (if v > 0 then Ok v else Err [''auth epoch must be positive''])"

definition MembershipEpoch_new :: "u64 \<Rightarrow> anyhow + u64" where
  "MembershipEpoch_new v = (if v > 0 then Ok v else Err [''membership epoch must be positive''])"

section \<open>Membership snapshots\<close>

record carrier_binding_snapshot =
  cb_carrier :: carrier_kind
  cb_transport_identity :: transport_identity
  cb_endpoint :: string
  cb_assurance :: string
  cb_auth_epoch :: u64
  cb_membership_epoch :: u64
  cb_expires_at_unix :: "int option"

record member_snapshot =
  mb_stable_node_id :: stable_node_id
  mb_label :: string
  mb_state :: membership_state
  mb_auth_epoch :: u64
  mb_membership_epoch :: u64
  mb_tombstoned :: bool
  mb_bindings :: "carrier_binding_snapshot list"

record membership_snapshot =
  ms_version :: u16
  ms_authority_path :: string
  ms_authority_epoch :: u64
  ms_revocation_floor :: u64
  ms_pending_outbox :: u64
  ms_members :: "member_snapshot list"

definition MEMBERSHIP_SNAPSHOT_VERSION :: u16 where "MEMBERSHIP_SNAPSHOT_VERSION = 1"

definition validate_binding :: "member_snapshot \<Rightarrow> carrier_kind list \<Rightarrow> carrier_binding_snapshot \<Rightarrow> anyhow + unit" where
  "validate_binding member carriers b = first_error [
     context_msg ''membership snapshot transport identity is invalid''
       (map_sum (\<lambda>e. e) (\<lambda>_. ()) (TransportIdentity_parse (cb_transport_identity b))),
     context_msg ''membership snapshot binding auth epoch is invalid''
       (map_sum (\<lambda>e. e) (\<lambda>_. ()) (AuthEpoch_new (cb_auth_epoch b))),
     context_msg ''membership snapshot binding membership epoch is invalid''
       (map_sum (\<lambda>e. e) (\<lambda>_. ()) (MembershipEpoch_new (cb_membership_epoch b))),
     ensure (cb_carrier b \<notin> set carriers) [''membership snapshot contains duplicate carrier binding''],
     ensure (trim (cb_endpoint b) \<noteq> [] \<and> trim (cb_endpoint b) = cb_endpoint b
         \<and> \<not> list_ex (\<lambda>ch. is_control (scalar_of ch)) (utf8_chunks (cb_endpoint b)))
       [''membership snapshot binding endpoint is invalid''],
     ensure (cb_assurance b = ''signed_attestation'' \<or> cb_assurance b = ''legacy_unattested'')
       [''membership snapshot binding assurance is invalid''],
     (if mb_state member = MS_Active
      then ensure (cb_assurance b = ''signed_attestation'' \<and> cb_auth_epoch b = mb_auth_epoch member
             \<and> cb_membership_epoch b = mb_membership_epoch member)
             [''active membership snapshot binding is not authority-exact'']
      else ensure (cb_auth_epoch b \<le> mb_auth_epoch member
             \<and> cb_membership_epoch b \<le> mb_membership_epoch member)
             [''inactive membership snapshot binding exceeds member generation''])]"

fun validate_bindings :: "member_snapshot \<Rightarrow> carrier_kind list \<Rightarrow> carrier_binding_snapshot list \<Rightarrow> anyhow + unit" where
  "validate_bindings member carriers [] = Ok ()"
| "validate_bindings member carriers (b # bs) =
     (case validate_binding member carriers b of
        Inl e \<Rightarrow> Err e
      | Inr _ \<Rightarrow> validate_bindings member (cb_carrier b # carriers) bs)"

definition validate_member ::
    "(string \<Rightarrow> anyhow + bytes) \<Rightarrow> u64 \<Rightarrow> stable_node_id list \<Rightarrow> member_snapshot \<Rightarrow> anyhow + unit" where
  "validate_member hexd authority_epoch member_ids m = first_error [
     context_msg ''membership snapshot stable node id is invalid''
       (map_sum (\<lambda>e. e) (\<lambda>_. ()) (StableNodeId_parse hexd (mb_stable_node_id m))),
     context_msg ''membership snapshot member auth epoch is invalid''
       (map_sum (\<lambda>e. e) (\<lambda>_. ()) (AuthEpoch_new (mb_auth_epoch m))),
     context_msg ''membership snapshot member membership epoch is invalid''
       (map_sum (\<lambda>e. e) (\<lambda>_. ()) (MembershipEpoch_new (mb_membership_epoch m))),
     ensure (trim (mb_label m) \<noteq> []) [''membership snapshot member label is empty''],
     ensure (mb_membership_epoch m \<le> authority_epoch)
       [''membership snapshot member epoch exceeds authority epoch''],
     ensure (mb_tombstoned m = (mb_state m = MS_Revoked)) [''membership snapshot tombstone/state mismatch''],
     ensure (mb_state m \<noteq> MS_Active \<or> mb_bindings m \<noteq> [])
       [''active membership snapshot has no carrier binding''],
     ensure (mb_stable_node_id m \<notin> set member_ids)
       [''membership snapshot contains duplicate stable node id''],
     validate_bindings m [] (mb_bindings m)]"

fun validate_members ::
    "(string \<Rightarrow> anyhow + bytes) \<Rightarrow> u64 \<Rightarrow> stable_node_id list \<Rightarrow> member_snapshot list \<Rightarrow> anyhow + unit" where
  "validate_members hexd authority_epoch member_ids [] = Ok ()"
| "validate_members hexd authority_epoch member_ids (m # ms) =
     (case validate_member hexd authority_epoch member_ids m of
        Inl e \<Rightarrow> Err e
      | Inr _ \<Rightarrow> validate_members hexd authority_epoch (mb_stable_node_id m # member_ids) ms)"

definition snapshot_validate :: "(string \<Rightarrow> anyhow + bytes) \<Rightarrow> membership_snapshot \<Rightarrow> anyhow + unit" where
  "snapshot_validate hexd s = first_error [
     ensure (ms_version s = MEMBERSHIP_SNAPSHOT_VERSION) [''unsupported membership snapshot version''],
     ensure (ms_authority_path s \<noteq> []) [''membership snapshot authority path is empty''],
     context_msg ''membership snapshot authority epoch is invalid''
       (map_sum (\<lambda>e. e) (\<lambda>_. ()) (MembershipEpoch_new (ms_authority_epoch s))),
     context_msg ''membership snapshot revocation floor is invalid''
       (map_sum (\<lambda>e. e) (\<lambda>_. ()) (MembershipEpoch_new (ms_revocation_floor s))),
     ensure (ms_revocation_floor s \<le> ms_authority_epoch s)
       [''membership snapshot revocation floor exceeds authority epoch''],
     validate_members hexd (ms_authority_epoch s) [] (ms_members s)]"

section \<open>Verification of the frozen voters\<close>

definition binding_current :: "member_snapshot \<Rightarrow> transport_identity \<Rightarrow> int \<Rightarrow> carrier_binding_snapshot \<Rightarrow> bool" where
  "binding_current m transport now_unix b \<longleftrightarrow> cb_carrier b = Peeroxide
     \<and> cb_transport_identity b = transport \<and> cb_auth_epoch b = mb_auth_epoch m
     \<and> cb_membership_epoch b = mb_membership_epoch m
     \<and> (case cb_expires_at_unix b of None \<Rightarrow> True | Some expiry \<Rightarrow> expiry > now_unix)"

definition snapshot_has_current_binding ::
    "membership_snapshot \<Rightarrow> stable_node_id \<Rightarrow> transport_identity \<Rightarrow> int \<Rightarrow> bool" where
  "snapshot_has_current_binding s node transport now_unix =
     (case List.find (\<lambda>m. mb_stable_node_id m = node) (ms_members s) of
        None \<Rightarrow> False
      | Some m \<Rightarrow> mb_state m = MS_Active \<and> \<not> mb_tombstoned m
          \<and> mb_membership_epoch m = ms_authority_epoch s
          \<and> mb_membership_epoch m \<ge> ms_revocation_floor s
          \<and> list_ex (binding_current m transport now_unix) (mb_bindings m))"

definition stale_voter_msg :: "stable_node_id \<Rightarrow> string" where
  "stale_voter_msg node = ''frozen budget voter '' @ node
     @ '' is inactive, revoked, expired, or has a changed Peeroxide binding''"

definition verify_snapshot ::
    "(string \<Rightarrow> anyhow + bytes) \<Rightarrow> budget_cluster_config \<Rightarrow> membership_snapshot \<Rightarrow> int \<Rightarrow> anyhow + unit" where
  "verify_snapshot hexd expected s now_unix = first_error
     ([context_msg ''membership snapshot is malformed'' (snapshot_validate hexd s),
       ensure (ms_pending_outbox s = 0) [''membership authority has pending outbox work''],
       ensure (ms_authority_epoch s = bc_membership_epoch expected)
         [''membership authority epoch differs from frozen budget epoch''],
       ensure (ms_revocation_floor s \<le> ms_authority_epoch s) [''membership revocation floor is invalid'']]
      @ map (\<lambda>(node, transport).
          ensure (snapshot_has_current_binding s node transport now_unix) [stale_voter_msg node])
        (bc_voters expected))"

record budget_raft_config =
  brc_enabled :: bool
  brc_cap_usd_nanos :: u64
  brc_utc_window :: int
  brc_membership_epoch :: u64
  brc_voters :: "(string \<times> string) list"

text \<open>\<open>collect::<Result<BTreeMap<_, _>>>\<close>: the first error, or the map with later entries winning.\<close>

fun collect_voters ::
    "(string \<Rightarrow> anyhow + bytes) \<Rightarrow> (string \<times> string) list \<Rightarrow> (stable_node_id, transport_identity) btree
     \<Rightarrow> anyhow + (stable_node_id, transport_identity) btree" where
  "collect_voters hexd [] acc = Ok acc"
| "collect_voters hexd ((node, key) # vs) acc =
     (case StableNodeId_parse hexd node of
        Inl e \<Rightarrow> Err e
      | Inr n \<Rightarrow> (case TransportIdentity_parse key of
                     Inl e \<Rightarrow> Err e
                   | Inr t \<Rightarrow> collect_voters hexd vs (btree_insert n t acc)))"

definition checked_voters ::
    "(string \<Rightarrow> anyhow + bytes) \<Rightarrow> budget_raft_config
     \<Rightarrow> anyhow + (stable_node_id, transport_identity) btree" where
  "checked_voters hexd configured =
     (if \<not> (brc_cap_usd_nanos configured > 0 \<and> brc_utc_window configured > 0)
        then Err [''budget cap and UTC window must be positive'']
      else if \<not> brc_membership_epoch configured > 0 then Err [''budget membership epoch must be positive'']
      else if length (brc_voters configured) \<noteq> 3
        then Err [''budget authority requires exactly three configured voters'']
      else case collect_voters hexd (brc_voters configured) [] of
             Inl e \<Rightarrow> Err e
           | Inr voters \<Rightarrow>
               if length voters \<noteq> 3
                 then Err [''budget authority has duplicate configured stable node ids'']
               else if card (set (map snd voters)) \<noteq> 3
                 then Err [''budget authority has duplicate configured peeroxide keys'']
               else Ok voters)"

definition derive_from_snapshot ::
    "(bytes \<Rightarrow> string) \<Rightarrow> (string \<Rightarrow> anyhow + bytes) \<Rightarrow> string \<Rightarrow> budget_raft_config \<Rightarrow> stable_node_id
     \<Rightarrow> transport_identity \<Rightarrow> membership_snapshot \<Rightarrow> int \<Rightarrow> anyhow + budget_cluster_config" where
  "derive_from_snapshot dg hexd cluster_id configured expected_local expected_transport s now_unix =
     (case checked_voters hexd configured of
        Inl e \<Rightarrow> Err e
      | Inr voters \<Rightarrow>
          (case config_new dg cluster_id (brc_membership_epoch configured) voters
                  (brc_cap_usd_nanos configured) (brc_utc_window configured) of
             Inl _ \<Rightarrow> Err [''invalid fixed budget configuration: InvalidConfig'']
           | Inr config \<Rightarrow>
               (case verify_snapshot hexd config s now_unix of
                  Inl e \<Rightarrow> Err e
                | Inr _ \<Rightarrow>
                    if btree_get (bc_voters config) expected_local = Some expected_transport then Ok config
                    else Err [''local stable identity and own Peeroxide transport key are not an exact configured budget voter''])))"

definition derive_frozen_config ::
    "(bytes \<Rightarrow> string) \<Rightarrow> (string \<Rightarrow> anyhow + bytes) \<Rightarrow> (anyhow + membership_snapshot) \<Rightarrow> int \<Rightarrow> string
     \<Rightarrow> budget_raft_config \<Rightarrow> stable_node_id \<Rightarrow> transport_identity \<Rightarrow> anyhow + budget_cluster_config" where
  "derive_frozen_config dg hexd read now_unix cluster_id configured local_node local_transport =
     (if \<not> brc_enabled configured then Err [''budget raft is not enabled'']
      else case read of
             Inl e \<Rightarrow> Err e
           | Inr s \<Rightarrow> derive_from_snapshot dg hexd cluster_id configured local_node local_transport s now_unix)"

section \<open>Revalidation\<close>

datatype budget_service_error = Configuration string | Recovery string | Unavailable string
  | ServiceRejected budget_rejection | UnexpectedReply | OriginMismatch

datatype budget_inbound_error = AuthenticationMismatch | InboundUnavailable string

record authenticated_identity =
  ai_stable_node_id :: stable_node_id
  ai_transport_identity :: transport_identity
  ai_membership_epoch :: u64

fun join_chain :: "anyhow \<Rightarrow> string" where
  "join_chain [] = []"
| "join_chain [m] = m"
| "join_chain (m # ms) = m @ '': '' @ join_chain ms"

definition revalidation_failed :: "anyhow \<Rightarrow> string" where
  "revalidation_failed e = ''durable budget membership revalidation failed: '' @ join_chain e"

text \<open>
  Each check reads the snapshot afresh (\<open>read\<close>) and reads the clock twice, once for the
  whole configuration (\<open>now1\<close>) and once for the binding in question (\<open>now2\<close>).
\<close>

definition revalidate_local ::
    "(string \<Rightarrow> anyhow + bytes) \<Rightarrow> transport_identity \<Rightarrow> (anyhow + membership_snapshot) \<Rightarrow> int \<Rightarrow> int
     \<Rightarrow> budget_cluster_config \<Rightarrow> stable_node_id \<Rightarrow> budget_service_error + authenticated_identity" where
  "revalidate_local hexd own_transport read now1 now2 expected expected_local =
     (case read of
        Inl e \<Rightarrow> Err (Unavailable (revalidation_failed e))
      | Inr s \<Rightarrow>
          (case verify_snapshot hexd expected s now1 of
             Inl e \<Rightarrow> Err (Unavailable (revalidation_failed e))
           | Inr _ \<Rightarrow>
               (case btree_get (bc_voters expected) expected_local of
                  None \<Rightarrow> Err (Configuration ''local stable identity is not a frozen budget voter'')
                | Some expected_transport \<Rightarrow>
                    if expected_transport \<noteq> own_transport
                       \<or> \<not> snapshot_has_current_binding s expected_local expected_transport now2
                    then Err (Unavailable
                      ''local stable identity or Peeroxide transport binding is no longer current'')
                    else Ok \<lparr>ai_stable_node_id = expected_local,
                              ai_transport_identity = expected_transport,
                              ai_membership_epoch = bc_membership_epoch expected\<rparr>)))"

definition revalidate_peer ::
    "(string \<Rightarrow> anyhow + bytes) \<Rightarrow> (anyhow + membership_snapshot) \<Rightarrow> int \<Rightarrow> int \<Rightarrow> authenticated_identity
     \<Rightarrow> budget_cluster_config \<Rightarrow> budget_inbound_error + unit" where
  "revalidate_peer hexd read now1 now2 peer expected =
     (case read of
        Inl e \<Rightarrow> Err (InboundUnavailable (revalidation_failed e))
      | Inr s \<Rightarrow>
          (case verify_snapshot hexd expected s now1 of
             Inl e \<Rightarrow> Err (InboundUnavailable (revalidation_failed e))
           | Inr _ \<Rightarrow>
               (case btree_get (bc_voters expected) (ai_stable_node_id peer) of
                  None \<Rightarrow> Err AuthenticationMismatch
                | Some expected_transport \<Rightarrow>
                    if ai_membership_epoch peer \<noteq> bc_membership_epoch expected
                       \<or> ai_transport_identity peer \<noteq> expected_transport
                       \<or> \<not> snapshot_has_current_binding s (ai_stable_node_id peer) expected_transport now2
                    then Err AuthenticationMismatch else Ok ())))"

section \<open>Lemmas\<close>

lemma context_Ok [simp]: "context_msg m r = Ok x \<longleftrightarrow> r = Ok x"
  by (auto simp: context_msg_def split: sum.splits)

lemma map_sum_unit [simp]: "map_sum (\<lambda>e. e) (\<lambda>_. ()) r = Ok () \<longleftrightarrow> is_ok r"
  by (cases r) auto

lemma parse_transport_Ok: "TransportIdentity_parse v = Ok t \<longleftrightarrow> t = v \<and> is_identifier v"
  by (auto simp: TransportIdentity_parse_def is_identifier_def)

lemma epoch_ok [simp]: "is_ok (AuthEpoch_new v) \<longleftrightarrow> v > 0" "is_ok (MembershipEpoch_new v) \<longleftrightarrow> v > 0"
  by (simp_all add: AuthEpoch_new_def MembershipEpoch_new_def)

lemma parse_node_Ok:
  "StableNodeId_parse hexd v = Ok n \<Longrightarrow> n = v \<and> length v = 64 \<and> v = to_ascii_lowercase v \<and> is_ok (hexd v)"
  by (auto simp: StableNodeId_parse_def is_ok_iff context_msg_def split: sum.splits if_splits)

text \<open>
  The documented behaviour of \<open>hex::decode\<close>: it fails on any byte that is not a
  hexadecimal digit.
\<close>

definition hex_decoder :: "(string \<Rightarrow> anyhow + bytes) \<Rightarrow> bool" where
  "hex_decoder hexd \<longleftrightarrow> (\<forall>v. is_ok (hexd v) \<longrightarrow> list_all is_ascii_hexdigit v)"

lemma parse_node_hex: "hex_decoder hexd \<Longrightarrow> StableNodeId_parse hexd v = Ok n \<Longrightarrow> n = v \<and> is_sha256_hex v"
  using parse_node_Ok [of hexd v n] by (simp add: hex_decoder_def is_sha256_hex_def)

lemma validate_binding_Ok:
  assumes "validate_binding m cs b = Ok ()"
  shows "cb_carrier b \<notin> set cs" "mb_state m = MS_Active \<Longrightarrow> cb_assurance b = ''signed_attestation''"
  using assms by (auto simp: validate_binding_def first_error_Ok)

lemma validate_bindings_Ok:
  assumes "validate_bindings m cs bs = Ok ()"
  shows "distinct (map cb_carrier bs) \<and> set cs \<inter> set (map cb_carrier bs) = {} \<and>
    (mb_state m = MS_Active \<longrightarrow> (\<forall>b \<in> set bs. cb_assurance b = ''signed_attestation''))"
  using assms
proof (induction m cs bs rule: validate_bindings.induct)
  case (2 m cs b bs)
  then have b: "validate_binding m cs b = Ok ()" "validate_bindings m (cb_carrier b # cs) bs = Ok ()"
    by (auto split: sum.splits)
  with "2.IH" validate_binding_Ok [OF b(1)] show ?case by auto
qed simp

lemma validate_member_Ok:
  assumes "validate_member hexd e ids m = Ok ()"
  shows "mb_stable_node_id m \<notin> set ids" "validate_bindings m [] (mb_bindings m) = Ok ()"
    "mb_tombstoned m = (mb_state m = MS_Revoked)"
  using assms by (auto simp: validate_member_def first_error_Ok)

lemma validate_members_Ok:
  assumes "validate_members hexd e ids ms = Ok ()"
  shows "distinct (map mb_stable_node_id ms) \<and> set ids \<inter> set (map mb_stable_node_id ms) = {} \<and>
    (\<forall>m \<in> set ms. validate_bindings m [] (mb_bindings m) = Ok ())"
  using assms
proof (induction hexd e ids ms rule: validate_members.induct)
  case (2 hexd e ids m ms)
  then have m: "validate_member hexd e ids m = Ok ()"
    "validate_members hexd e (mb_stable_node_id m # ids) ms = Ok ()"
    by (auto split: sum.splits)
  with "2.IH" validate_member_Ok [OF m(1)] show ?case by auto
qed simp

lemma snapshot_validate_Ok:
  assumes "snapshot_validate hexd s = Ok ()"
  shows "distinct (map mb_stable_node_id (ms_members s))"
    "\<forall>m \<in> set (ms_members s). validate_bindings m [] (mb_bindings m) = Ok ()"
  using assms validate_members_Ok [of hexd "ms_authority_epoch s" "[]" "ms_members s"]
  by (auto simp: snapshot_validate_def first_error_Ok)

lemma verify_snapshot_Ok:
  "verify_snapshot hexd c s now = Ok () \<longleftrightarrow> snapshot_validate hexd s = Ok () \<and> ms_pending_outbox s = 0
     \<and> ms_authority_epoch s = bc_membership_epoch c \<and> ms_revocation_floor s \<le> ms_authority_epoch s
     \<and> (\<forall>(n, t) \<in> set (bc_voters c). snapshot_has_current_binding s n t now)"
  by (auto simp: verify_snapshot_def first_error_Ok)

lemma current_binding_iff:
  assumes "distinct (map mb_stable_node_id (ms_members s))"
  shows "snapshot_has_current_binding s n t now \<longleftrightarrow>
    (\<exists>m \<in> set (ms_members s). mb_stable_node_id m = n \<and> mb_state m = MS_Active \<and> \<not> mb_tombstoned m
       \<and> mb_membership_epoch m = ms_authority_epoch s \<and> ms_revocation_floor s \<le> mb_membership_epoch m
       \<and> (\<exists>b \<in> set (mb_bindings m). binding_current m t now b))"
proof (cases "List.find (\<lambda>m. mb_stable_node_id m = n) (ms_members s)")
  case None
  then have "\<nexists>m. m \<in> set (ms_members s) \<and> mb_stable_node_id m = n" by (simp add: find_None_iff)
  with None show ?thesis by (auto simp: snapshot_has_current_binding_def)
next
  case (Some m)
  then have m: "m \<in> set (ms_members s)" "mb_stable_node_id m = n"
    by (auto simp: find_Some_iff)
  have "m' = m" if "m' \<in> set (ms_members s)" "mb_stable_node_id m' = n" for m'
    using assms m that by (metis distinct_map inj_onD)
  with m have "(\<exists>m' \<in> set (ms_members s). mb_stable_node_id m' = n \<and> P m') \<longleftrightarrow> P m" for P
    by blast
  then show ?thesis by (simp add: snapshot_has_current_binding_def Some list_ex_iff)
qed

lemma collect_voters_Ok:
  assumes "collect_voters hexd vs acc = Ok m" "btree_ok acc"
    and "\<forall>(n, t) \<in> set acc. StableNodeId_parse hexd n = Ok n \<and> TransportIdentity_parse t = Ok t"
  shows "btree_ok m \<and> (\<forall>(n, t) \<in> set m. StableNodeId_parse hexd n = Ok n \<and> TransportIdentity_parse t = Ok t)"
  using assms
proof (induction hexd vs acc rule: collect_voters.induct)
  case (2 hexd node key vs acc)
  obtain n t where p: "StableNodeId_parse hexd node = Ok n" "TransportIdentity_parse key = Ok t"
    using "2.prems"(1) by (auto split: sum.splits)
  then have e: "n = node" "t = key" using parse_node_Ok parse_transport_Ok by blast+
  have "\<forall>(n, t) \<in> set (btree_insert node key acc). StableNodeId_parse hexd n = Ok n \<and> TransportIdentity_parse t = Ok t"
    using bt.entries_ins [OF "2.prems"(2), of node key] "2.prems"(3) p e by auto
  moreover have "btree_ok (btree_insert node key acc)" using "2.prems"(2) by (rule btree_ok_insert)
  ultimately show ?case using "2.IH" [OF p] "2.prems"(1) p e by simp
qed auto

section \<open>A sample snapshot\<close>

definition sample_member :: "char \<Rightarrow> string \<Rightarrow> member_snapshot" where
  "sample_member c key = \<lparr>mb_stable_node_id = replicate 64 c, mb_label = ''voter'', mb_state = MS_Active,
     mb_auth_epoch = 4, mb_membership_epoch = 7, mb_tombstoned = False,
     mb_bindings = [\<lparr>cb_carrier = Peeroxide, cb_transport_identity = key, cb_endpoint = ''host'',
       cb_assurance = ''signed_attestation'', cb_auth_epoch = 4, cb_membership_epoch = 7,
       cb_expires_at_unix = None\<rparr>]\<rparr>"

definition sample_snapshot :: membership_snapshot where
  "sample_snapshot = \<lparr>ms_version = 1, ms_authority_path = ''db'', ms_authority_epoch = 7,
     ms_revocation_floor = 7, ms_pending_outbox = 0,
     ms_members = [sample_member CHR ''1'' ''ka'', sample_member CHR ''2'' ''kb'', sample_member CHR ''3'' ''kc'']\<rparr>"

definition sample_policy :: budget_raft_config where
  "sample_policy = \<lparr>brc_enabled = True, brc_cap_usd_nanos = 100, brc_utc_window = 20260923, brc_membership_epoch = 7,
     brc_voters = [(replicate 64 CHR ''1'', ''ka''), (replicate 64 CHR ''2'', ''kb''), (replicate 64 CHR ''3'', ''kc'')]\<rparr>"

definition sample_hexd :: "string \<Rightarrow> anyhow + bytes" where
  "sample_hexd v = (if list_all is_ascii_hexdigit v then Ok (replicate 32 0) else Err [''bad hex''])"

lemma sample_hexd_decoder: "hex_decoder sample_hexd"
  by (simp add: hex_decoder_def sample_hexd_def)

lemma sample_parse: "is_sha256_hex v \<Longrightarrow> StableNodeId_parse sample_hexd v = Ok v"
  by (simp add: StableNodeId_parse_def sample_hexd_def is_sha256_hex_def context_msg_def)

lemma sample_member_valid:
  assumes "is_sha256_hex (replicate 64 c)" "is_identifier key" "replicate 64 c \<notin> set ids"
  shows "validate_member sample_hexd 7 ids (sample_member c key) = Ok ()"
proof -
  have "trim ''host'' = ''host''" "trim ''voter'' = ''voter''"
    "\<not> list_ex (\<lambda>ch. is_control (scalar_of ch)) (utf8_chunks ''host'')"
    by (rule printable_ascii, simp add: code_of_def)+
  note str = this
  have "TransportIdentity_parse key = Ok key" using assms(2) by (simp add: parse_transport_Ok)
  then have "validate_binding (sample_member c key) [] (hd (mb_bindings (sample_member c key))) = Ok ()"
    using str(1,3) by (simp add: validate_binding_def sample_member_def first_error_Ok del: utf8_chunks.simps)
  moreover have "mb_bindings (sample_member c key) = [hd (mb_bindings (sample_member c key))]"
    by (simp add: sample_member_def)
  ultimately have "validate_bindings (sample_member c key) [] (mb_bindings (sample_member c key)) = Ok ()"
    by (metis validate_bindings.simps old.sum.simps(6))
  then show ?thesis
    using assms(1,3) str(2) sample_parse [OF assms(1)]
    by (simp add: validate_member_def first_error_Ok) (simp add: sample_member_def)
qed

lemma sample_member_id: "mb_stable_node_id (sample_member c key) = replicate 64 c"
  by (simp add: sample_member_def)

lemma sample_ordered: "\<not> replicate 64 CHR ''3'' < replicate 64 CHR ''2''" "\<not> replicate 64 CHR ''3'' < replicate 64 CHR ''1''"
  "\<not> replicate 64 CHR ''2'' < replicate 64 CHR ''1''"
proof -
  have "\<not> replicate 64 d < replicate 64 c" if "c < d" for c d :: char
  proof -
    have "replicate 64 c = c # replicate 63 c" "replicate 64 d = d # replicate 63 d"
      by (simp_all flip: replicate_Suc)
    then show ?thesis using that by auto
  qed
  then show "\<not> replicate 64 CHR ''3'' < replicate 64 CHR ''2''" "\<not> replicate 64 CHR ''3'' < replicate 64 CHR ''1''"
    "\<not> replicate 64 CHR ''2'' < replicate 64 CHR ''1''" by (simp_all add: less_char_def)
qed

lemma sample_verified: "verify_snapshot sample_hexd sample_config sample_snapshot 0 = Ok ()"
proof -
  have "snapshot_validate sample_hexd sample_snapshot = Ok ()"
    by (simp add: snapshot_validate_def sample_snapshot_def first_error_Ok MEMBERSHIP_SNAPSHOT_VERSION_def
        sample_member_valid sample_member_id sample_hex sample_ids)
  then show ?thesis
    by (simp add: verify_snapshot_Ok sample_snapshot_def sample_config_def snapshot_has_current_binding_def
        sample_member_def binding_current_def)
qed

section \<open>Properties\<close>

text \<open>
  A verified snapshot vouches for every frozen voter. When verification succeeds, each
  voter is exactly one member of the snapshot, active, not tombstoned and of the frozen
  epoch, and its only Peeroxide binding is a signed attestation of exactly the frozen
  transport key that has not expired.
\<close>

theorem verified_voters_are_current:
  assumes "verify_snapshot hexd c s now = Ok ()" and "btree_get (bc_voters c) n = Some t"
  shows "\<exists>m b. filter (\<lambda>x. mb_stable_node_id x = n) (ms_members s) = [m]
    \<and> mb_state m = MS_Active \<and> \<not> mb_tombstoned m \<and> mb_membership_epoch m = bc_membership_epoch c
    \<and> filter (\<lambda>x. cb_carrier x = Peeroxide) (mb_bindings m) = [b]
    \<and> cb_transport_identity b = t \<and> cb_assurance b = ''signed_attestation''
    \<and> (\<nexists>expiry. cb_expires_at_unix b = Some expiry \<and> expiry \<le> now)"
proof -
  from assms(1) have v: "snapshot_validate hexd s = Ok ()" and ep: "ms_authority_epoch s = bc_membership_epoch c"
    and all: "\<forall>(n, t) \<in> set (bc_voters c). snapshot_has_current_binding s n t now"
    by (simp_all add: verify_snapshot_Ok)
  note d = snapshot_validate_Ok [OF v]
  have "(n, t) \<in> set (bc_voters c)"
    using assms(2) by (rule btree_get_mem)
  with all obtain m b where m: "m \<in> set (ms_members s)" "mb_stable_node_id m = n" "mb_state m = MS_Active"
      "\<not> mb_tombstoned m" "mb_membership_epoch m = ms_authority_epoch s"
    and b: "b \<in> set (mb_bindings m)" "binding_current m t now b"
    using current_binding_iff [OF d(1)] by blast
  have db: "distinct (map cb_carrier (mb_bindings m))" "cb_assurance b = ''signed_attestation''"
    using d(2) m(1,3) b(1) validate_bindings_Ok [of m "[]" "mb_bindings m"] by auto
  have "filter (\<lambda>x. mb_stable_node_id x = n) (ms_members s) = [m]"
    using filter_unique [OF d(1) m(1,2)] .
  moreover have "filter (\<lambda>x. cb_carrier x = Peeroxide) (mb_bindings m) = [b]"
    using filter_unique [OF db(1) b(1)] b(2) by (simp add: binding_current_def)
  ultimately show ?thesis
    using m b(2) db(2) ep by (auto simp: binding_current_def split: option.splits)
qed

theorem verified_voters_are_current_witness:
  "\<exists>m b. filter (\<lambda>x. mb_stable_node_id x = replicate 64 CHR ''2'') (ms_members sample_snapshot) = [m]
     \<and> mb_state m = MS_Active \<and> filter (\<lambda>x. cb_carrier x = Peeroxide) (mb_bindings m) = [b]
     \<and> cb_transport_identity b = ''kb''"
  using verified_voters_are_current [OF sample_verified, of "replicate 64 CHR ''2''" "''kb''"]
  by (auto simp: sample_config_def)

text \<open>
  A derived frozen configuration is sound. It passes the configuration validation with
  its scope hash, has three voters with pairwise different identities and transport keys,
  all current in the snapshot it was derived from, and binds the local node to its own key.
\<close>

theorem derived_config_is_sound:
  assumes "derive_from_snapshot dg hexd cid cfg self_node self_key s now = Ok c"
    and "\<And>b. is_sha256_hex (dg b)"
  shows "config_validate dg c = Ok () \<and> btree_ok (bc_voters c) \<and> length (bc_voters c) = 3
    \<and> distinct (map snd (bc_voters c)) \<and> verify_snapshot hexd c s now = Ok ()
    \<and> btree_get (bc_voters c) self_node = Some self_key \<and> bc_cap_usd_nanos c = brc_cap_usd_nanos cfg"
proof -
  obtain voters where v: "checked_voters hexd cfg = Ok voters"
    and n: "config_new dg cid (brc_membership_epoch cfg) voters (brc_cap_usd_nanos cfg) (brc_utc_window cfg) = Ok c"
    and s: "verify_snapshot hexd c s now = Ok ()" "btree_get (bc_voters c) self_node = Some self_key"
    using assms(1) by (auto simp: derive_from_snapshot_def split: sum.splits if_splits)
  have c: "collect_voters hexd (brc_voters cfg) [] = Ok voters" "length voters = 3"
    using v by (auto simp: checked_voters_def split: sum.splits if_splits)
  have "btree_ok voters" using collect_voters_Ok [OF c(1)] by simp
  moreover have k: "config_validate dg c = Ok ()" "bc_voters c = voters" "bc_cap_usd_nanos c = brc_cap_usd_nanos cfg"
    using config_new_Ok [OF n assms(2)] by simp_all
  moreover have "distinct (map snd voters)"
    using k by (simp add: config_validate_Ok validate_shape_Ok validate_voters_iff)
  ultimately show ?thesis using s c(2) by simp
qed

theorem derived_config_is_sound_witness:
  "config_validate sample_digest sample_config = Ok () \<and>
   derive_from_snapshot sample_digest sample_hexd ''mesh'' sample_policy (replicate 64 CHR ''1'') ''ka''
     sample_snapshot 0 = Ok sample_config"
proof -
  have "checked_voters sample_hexd sample_policy = Ok (bc_voters sample_config)"
    by (simp add: checked_voters_def sample_policy_def sample_config_def sample_parse sample_hex
        parse_transport_Ok [THEN iffD2] sample_ids sample_ordered)
  moreover have "config_new sample_digest ''mesh'' 7 (bc_voters sample_config) 100 20260923 = Ok sample_config"
    by (simp add: config_new_def Let_def validate_shape_def sample_config_def sample_hex sample_ids
        expected_scope_hash_def sample_digest_def)
  ultimately have d: "derive_from_snapshot sample_digest sample_hexd ''mesh'' sample_policy
      (replicate 64 CHR ''1'') ''ka'' sample_snapshot 0 = Ok sample_config"
    using sample_verified by (simp add: derive_from_snapshot_def sample_policy_def)
      (simp add: sample_config_def)
  moreover have "is_sha256_hex (sample_digest b)" for b
    by (simp add: sample_digest_def sample_hex)
  ultimately show ?thesis using derived_config_is_sound by blast
qed

end
