(* ===== verification/Budget_Service.thy ===== *)
theory Budget_Service
  imports Budget_Run Budget_Membership
begin

text \<open>
  The budget service facade, \<open>src/SRC/neothd/src/cluster/budget_raft/service.rs\<close>, and
  the routes of \<open>network.rs\<close>. OpenRaft and the carrier are a parameter of every write: the
  function \<open>we_quorum\<close> takes a command and the replicated ledger and returns the ledger
  afterwards with the reply or a failure. What the service relies on is
  \<open>raft_commits\<close>: a reply belongs to the committed command, and a failed write was either
  not committed or was committed with its reply lost. Every reading of the membership authority
  is an argument, as are fresh UUIDs.
\<close>

section \<open>State\<close>

record budget_peer_route =
  br_node_id :: nat
  br_stable_node_id :: stable_node_id
  br_transport_identity :: transport_identity

record budget_service =
  sv_config :: budget_cluster_config
  sv_local_node_id :: nat
  sv_local_stable_node_id :: stable_node_id
  sv_local_transport_identity :: transport_identity
  sv_stopping :: bool
  sv_routes :: "(nat, budget_peer_route) btree"

record new_dispatch_permit =
  np_grant_id :: budget_grant_id
  np_dispatch_fence :: string
  np_owner :: stable_node_id
  np_attempt_id :: string
  np_provider_intent_id :: string
  np_claim_receipt :: claim_receipt

record budget_provider_request =
  bp_invocation_id :: string
  bp_provider_intent_id :: string
  bp_provider :: string
  bp_model :: string
  bp_task_id :: string
  bp_request_binding_sha256 :: string
  bp_bound_usd_nanos :: u64

record budget_provider_dispatch =
  pd_claim :: claim_receipt
  pd_permit :: "new_dispatch_permit option"

section \<open>Recovery of a voter\<close>

definition service_validate_config :: "(bytes \<Rightarrow> string) \<Rightarrow> budget_cluster_config \<Rightarrow> budget_service_error + unit" where
  "service_validate_config dg c =
     (case ledger_new dg c of
        Inl e \<Rightarrow> Err (ServiceRejected e)
      | Inr _ \<Rightarrow>
          if length (bc_voters c) \<noteq> 3 \<or> bc_membership_epoch c = 0 \<or> bc_cap_usd_nanos c = 0
          then Err (Configuration ''budget config must contain exactly three voters, a positive epoch, and a positive cap'')
          else if \<not> distinct (map snd (bc_voters c))
          then Err (Configuration ''budget config has duplicate transport identities'')
          else Ok ())"

fun derive_routes_from ::
    "budget_cluster_config \<Rightarrow> (nat, budget_peer_route) btree \<Rightarrow> (stable_node_id \<times> transport_identity) list
     \<Rightarrow> budget_service_error + (nat, budget_peer_route) btree" where
  "derive_routes_from c routes [] = Ok routes"
| "derive_routes_from c routes ((node, transport) # vs) =
     (case raft_node_id c node of
        None \<Rightarrow> Err (Configuration ''frozen voter lacks a canonical Raft node id'')
      | Some node_id \<Rightarrow>
          if btree_get routes node_id \<noteq> None
          then Err (Configuration ''canonical frozen voter mapping collided'')
          else derive_routes_from c (btree_insert node_id
            \<lparr>br_node_id = node_id, br_stable_node_id = node, br_transport_identity = transport\<rparr> routes) vs)"

definition derive_routes :: "budget_cluster_config \<Rightarrow> budget_service_error + (nat, budget_peer_route) btree" where
  "derive_routes c =
     (case derive_routes_from c [] (bc_voters c) of
        Inl e \<Rightarrow> Err e
      | Inr routes \<Rightarrow>
          if length routes \<noteq> 3 then Err (Configuration ''frozen voter routing is incomplete'') else Ok routes)"

definition network_factory_new :: "(nat, budget_peer_route) btree \<Rightarrow> nat \<Rightarrow> string + unit" where
  "network_factory_new routes request_timeout =
     (if length routes \<noteq> 3 \<or> request_timeout = 0
        then Err ''budget raft network requires three routes and a non-zero timeout''
      else if list_ex (\<lambda>(i, route). i \<noteq> br_node_id route) routes
        then Err ''budget raft route key does not match route node id''
      else if length (remdups (map (\<lambda>e. br_stable_node_id (snd e)) routes)) \<noteq> 3
        then Err ''budget raft routes do not bind three distinct stable nodes''
      else Ok ())"

definition RPC_TIMEOUT_MS :: nat where "RPC_TIMEOUT_MS = 4000"

text \<open>
  \<open>opened\<close>, \<open>runtime\<close> and \<open>started\<close> are the outcomes of opening the store, of the
  OpenRaft configuration check and of starting OpenRaft.
\<close>

definition service_recover ::
    "(bytes \<Rightarrow> string) \<Rightarrow> budget_cluster_config \<Rightarrow> stable_node_id \<Rightarrow> (string + unit) \<Rightarrow> bool \<Rightarrow> (string + unit)
     \<Rightarrow> budget_service_error + budget_service" where
  "service_recover dg c local_id opened runtime started =
     (case service_validate_config dg c of
        Inl e \<Rightarrow> Err e
      | Inr _ \<Rightarrow> (case derive_routes c of
        Inl e \<Rightarrow> Err e
      | Inr routes \<Rightarrow> (case raft_node_id c local_id of
        None \<Rightarrow> Err (Configuration ''local stable identity is not a frozen voter'')
      | Some node_id \<Rightarrow> (case btree_get (bc_voters c) local_id of
        None \<Rightarrow> Err (Configuration ''local voter lacks a transport binding'')
      | Some transport \<Rightarrow> (case ledger_new dg c of
        Inl e \<Rightarrow> Err (ServiceRejected e)
      | Inr _ \<Rightarrow> (case opened of
        Inl m \<Rightarrow> Err (Recovery m)
      | Inr _ \<Rightarrow> (case network_factory_new routes RPC_TIMEOUT_MS of
        Inl m \<Rightarrow> Err (Configuration m)
      | Inr _ \<Rightarrow>
          if \<not> runtime then Err (Configuration
            ''OpenRaft runtime configuration rejected the frozen timing bounds'')
          else (case started of
            Inl m \<Rightarrow> Err (Recovery (''start OpenRaft: '' @ m))
          | Inr _ \<Rightarrow> Ok \<lparr>sv_config = c, sv_local_node_id = node_id, sv_local_stable_node_id = local_id,
              sv_local_transport_identity = transport, sv_stopping = False, sv_routes = routes\<rparr>))))))))"

datatype initialize_result = Init_Ok | Init_NotAllowed | Init_Failed string

definition bootstrap_fixed_voters :: "(string + bool) \<Rightarrow> initialize_result \<Rightarrow> budget_service_error + unit" where
  "bootstrap_fixed_voters initialized result =
     (case initialized of
        Inl m \<Rightarrow> Err (Unavailable m)
      | Inr b \<Rightarrow> if b then Ok ()
          else (case result of
                  Init_Ok \<Rightarrow> Ok ()
                | Init_NotAllowed \<Rightarrow> Ok ()
                | Init_Failed m \<Rightarrow> Err (Unavailable (''bootstrap fixed voters: '' @ m))))"

definition service_shutdown :: "(string + unit) \<Rightarrow> budget_service \<Rightarrow> budget_service \<times> (budget_service_error + unit)" where
  "service_shutdown stopped svc = (svc\<lparr>sv_stopping := True\<rparr>,
     case stopped of Inl m \<Rightarrow> Err (Unavailable (''shutdown OpenRaft: '' @ m)) | Inr _ \<Rightarrow> Ok ())"

section \<open>Quorum writes\<close>

datatype quorum_failure = RaftFailure string | StopChanged | DeadlineElapsed

record write_env =
  we_local :: "budget_service_error + authenticated_identity"
  we_leader :: "nat option"
  we_quorum :: "budget_command \<Rightarrow> budget_ledger \<Rightarrow> budget_ledger \<times> (quorum_failure + budget_reply)"

fun failure_message :: "quorum_failure \<Rightarrow> string" where
  "failure_message (RaftFailure m) = m"
| "failure_message StopChanged = ''budget service stopped before a quorum reply''"
| "failure_message DeadlineElapsed =
     ''quorum write timed out; reconcile immutable grant state before retrying''"

definition verify_local_origin ::
    "budget_service \<Rightarrow> authenticated_identity \<Rightarrow> stable_node_id \<Rightarrow> budget_service_error + unit" where
  "verify_local_origin svc origin requested_owner =
     (if ai_stable_node_id origin \<noteq> sv_local_stable_node_id svc
         \<or> ai_transport_identity origin \<noteq> sv_local_transport_identity svc
         \<or> ai_membership_epoch origin \<noteq> bc_membership_epoch (sv_config svc)
         \<or> requested_owner \<noteq> sv_local_stable_node_id svc
         \<or> sv_local_node_id svc = 0
      then Err OriginMismatch else Ok ())"

definition service_write ::
    "budget_service \<Rightarrow> write_env \<Rightarrow> budget_command \<Rightarrow> budget_ledger
     \<Rightarrow> budget_ledger \<times> (budget_service_error + budget_reply)" where
  "service_write svc env cmd l =
     (if sv_stopping svc then (l, Err (Unavailable ''budget service is stopping''))
      else case we_local env of
        Inl e \<Rightarrow> (l, Err e)
      | Inr origin \<Rightarrow> (case verify_local_origin svc origin (sv_local_stable_node_id svc) of
        Inl e \<Rightarrow> (l, Err e)
      | Inr _ \<Rightarrow> (case we_leader env of
        None \<Rightarrow> (l, Err (Unavailable ''budget Raft has no known leader''))
      | Some leader \<Rightarrow>
          if leader \<noteq> sv_local_node_id svc \<and> btree_get (sv_routes svc) leader = None
          then (l, Err (Unavailable ''known leader is not a frozen budget voter''))
          else (case we_quorum env cmd l of
                  (l', Inl f) \<Rightarrow> (l', Err (Unavailable (failure_message f)))
                | (l', Inr reply) \<Rightarrow> (l', Ok reply)))))"

section \<open>Operations\<close>

definition service_reserve ::
    "budget_service \<Rightarrow> write_env \<Rightarrow> reserve_budget \<Rightarrow> budget_ledger
     \<Rightarrow> budget_ledger \<times> (budget_service_error + reserved_grant)" where
  "service_reserve svc env request l =
     (case service_write svc env (Cmd_Reserve request) l of
        (l', Inl e) \<Rightarrow> (l', Err e)
      | (l', Inr reply) \<Rightarrow> (l', case reply of
          Reserved_reply grant \<Rightarrow> Ok grant
        | AlreadyReserved grant \<Rightarrow> Ok grant
        | Rejected reason \<Rightarrow> Err (ServiceRejected reason)
        | _ \<Rightarrow> Err UnexpectedReply))"

definition permit_of :: "claim_receipt \<Rightarrow> new_dispatch_permit" where
  "permit_of receipt = \<lparr>np_grant_id = cl_grant_id receipt, np_dispatch_fence = cl_dispatch_fence receipt,
     np_owner = cl_owner receipt, np_attempt_id = cl_attempt_id receipt,
     np_provider_intent_id = cl_provider_intent_id receipt, np_claim_receipt = receipt\<rparr>"

definition begin_dispatch ::
    "budget_service \<Rightarrow> (budget_service_error + authenticated_identity) \<Rightarrow> write_env \<Rightarrow> authenticated_identity
     \<Rightarrow> begin_dispatch_cmd \<Rightarrow> budget_ledger \<Rightarrow> budget_ledger \<times> (budget_service_error + new_dispatch_permit)" where
  "begin_dispatch svc fresh_read env origin request l =
     (case fresh_read of
        Inl e \<Rightarrow> (l, Err e)
      | Inr fresh \<Rightarrow>
          if fresh \<noteq> origin then (l, Err OriginMismatch)
          else case verify_local_origin svc fresh (bd_owner request) of
            Inl e \<Rightarrow> (l, Err e)
          | Inr _ \<Rightarrow> (case service_write svc env (Cmd_BeginDispatch request) l of
              (l', Inl e) \<Rightarrow> (l', Err e)
            | (l', Inr reply) \<Rightarrow> (l', case reply of
                NewClaimed receipt \<Rightarrow> Ok (permit_of receipt)
              | AlreadyClaimed _ \<Rightarrow> Err (Unavailable
                  ''claim is already committed; reconcile before any provider retry'')
              | ReconcileOnly _ \<Rightarrow> Err (Unavailable
                  ''claim is already committed; reconcile before any provider retry'')
              | Rejected reason \<Rightarrow> Err (ServiceRejected reason)
              | _ \<Rightarrow> Err UnexpectedReply)))"

definition claim_provider_dispatch ::
    "budget_service \<Rightarrow> (budget_service_error + authenticated_identity)
     \<Rightarrow> (budget_service_error + authenticated_identity) \<Rightarrow> write_env \<Rightarrow> reserved_grant \<Rightarrow> string
     \<Rightarrow> budget_ledger \<Rightarrow> budget_ledger \<times> (budget_service_error + budget_provider_dispatch)" where
  "claim_provider_dispatch svc origin_read fresh_read env grant attempt_id l =
     (case origin_read of
        Inl e \<Rightarrow> (l, Err e)
      | Inr origin \<Rightarrow>
          (case begin_dispatch svc fresh_read env origin
                  \<lparr>bd_grant_id = rg_grant_id grant, bd_reserve_fence = rg_reserve_fence grant,
                    bd_owner = sv_local_stable_node_id svc, bd_attempt_id = attempt_id,
                    bd_provider_intent_id = rg_provider_intent_id grant\<rparr> l of
             (l', Inl e) \<Rightarrow> (l', Err e)
           | (l', Inr permit) \<Rightarrow>
               (l', Ok \<lparr>pd_claim = np_claim_receipt permit, pd_permit = Some permit\<rparr>)))"

definition settle_result :: "budget_service_error + budget_reply \<Rightarrow> budget_service_error + grant_receipt" where
  "settle_result r = (case r of
     Inl e \<Rightarrow> Err e
   | Inr (Settled_reply receipt) \<Rightarrow> Ok receipt
   | Inr (Rejected reason) \<Rightarrow> Err (ServiceRejected reason)
   | Inr _ \<Rightarrow> Err UnexpectedReply)"

definition service_settle ::
    "budget_service \<Rightarrow> write_env \<Rightarrow> new_dispatch_permit \<Rightarrow> u64 option \<Rightarrow> budget_ledger
     \<Rightarrow> budget_ledger \<times> (budget_service_error + grant_receipt)" where
  "service_settle svc env permit actual l =
     (if np_provider_intent_id permit \<noteq> cl_provider_intent_id (np_claim_receipt permit)
      then (l, Err (ServiceRejected Rej_IntentMismatch))
      else case service_write svc env (Cmd_Settle
              \<lparr>sb_grant_id = np_grant_id permit, sb_dispatch_fence = np_dispatch_fence permit,
                sb_owner = np_owner permit, sb_attempt_id = np_attempt_id permit,
                sb_actual_usd_nanos = actual\<rparr>) l of
            (l', r) \<Rightarrow> (l', settle_result r))"

definition settle_reconciliation ::
    "budget_service \<Rightarrow> write_env \<Rightarrow> claim_receipt \<Rightarrow> u64 option \<Rightarrow> budget_ledger
     \<Rightarrow> budget_ledger \<times> (budget_service_error + grant_receipt)" where
  "settle_reconciliation svc env receipt actual l =
     (case service_write svc env (Cmd_Settle
          \<lparr>sb_grant_id = cl_grant_id receipt, sb_dispatch_fence = cl_dispatch_fence receipt,
            sb_owner = cl_owner receipt, sb_attempt_id = cl_attempt_id receipt,
            sb_actual_usd_nanos = actual\<rparr>) l of
        (l', r) \<Rightarrow> (l', settle_result r))"

definition service_release_before_claim ::
    "budget_service \<Rightarrow> write_env \<Rightarrow> budget_grant_id \<Rightarrow> string \<Rightarrow> budget_ledger
     \<Rightarrow> budget_ledger \<times> (budget_service_error + grant_receipt)" where
  "service_release_before_claim svc env grant_id reserve_fence l =
     (case service_write svc env (Cmd_ReleaseBeforeClaim grant_id reserve_fence) l of
        (l', r) \<Rightarrow> (l', case r of
          Inl e \<Rightarrow> Err e
        | Inr (Released_reply receipt) \<Rightarrow> Ok receipt
        | Inr (Rejected reason) \<Rightarrow> Err (ServiceRejected reason)
        | Inr _ \<Rightarrow> Err UnexpectedReply))"

definition take_provider_permit ::
    "budget_provider_dispatch \<Rightarrow> budget_provider_dispatch \<times> (budget_service_error + new_dispatch_permit)" where
  "take_provider_permit d = (d\<lparr>pd_permit := None\<rparr>, case pd_permit d of
     Some p \<Rightarrow> Ok p
   | None \<Rightarrow> Err (Unavailable ''provider permit was already consumed; reconcile or settle only''))"

definition settle_after_provider_call ::
    "budget_service \<Rightarrow> write_env \<Rightarrow> budget_provider_dispatch \<Rightarrow> u64 option \<Rightarrow> budget_ledger
     \<Rightarrow> budget_ledger \<times> (budget_service_error + grant_receipt)" where
  "settle_after_provider_call svc env d actual l =
     (if pd_permit d \<noteq> None
      then (l, Err (Unavailable ''provider permit was not consumed; release before claim instead''))
      else settle_reconciliation svc env (pd_claim d) actual l)"

definition provider_request_preimage ::
    "budget_cluster_config \<Rightarrow> stable_node_id \<Rightarrow> budget_provider_request \<Rightarrow> bytes" where
  "provider_request_preimage c owner r = fence_preimage (str_bytes ''neoth.budget.provider-request.v1'' @ [0])
     [str_bytes (bp_invocation_id r), str_bytes (bp_provider_intent_id r), str_bytes (bp_provider r),
      str_bytes (bp_model r), str_bytes (bp_task_id r), str_bytes (bp_request_binding_sha256 r),
      str_bytes owner, i64_to_le (bc_utc_window c), str_bytes (bc_scope_hash c)]"

definition provider_request_fingerprint ::
    "(bytes \<Rightarrow> string) \<Rightarrow> budget_cluster_config \<Rightarrow> stable_node_id \<Rightarrow> budget_provider_request \<Rightarrow> string" where
  "provider_request_fingerprint dg c owner r = dg (provider_request_preimage c owner r)"

definition reserve_and_begin_provider_dispatch ::
    "(bytes \<Rightarrow> string) \<Rightarrow> budget_service \<Rightarrow> string \<Rightarrow> string \<Rightarrow> (budget_service_error + authenticated_identity)
     \<Rightarrow> (budget_service_error + authenticated_identity) \<Rightarrow> write_env \<Rightarrow> write_env \<Rightarrow> write_env
     \<Rightarrow> budget_provider_request \<Rightarrow> budget_ledger
     \<Rightarrow> budget_ledger \<times> (budget_service_error + budget_provider_dispatch)" where
  "reserve_and_begin_provider_dispatch dg svc grant_uuid attempt_uuid origin_read fresh_read env1 env2 env3 r l =
     (if bp_invocation_id r = [] \<or> bp_provider_intent_id r = [] \<or> bp_provider r = [] \<or> bp_model r = []
         \<or> bp_task_id r = [] \<or> \<not> is_sha256_hex (bp_request_binding_sha256 r) \<or> bp_bound_usd_nanos r = 0
      then (l, Err (Configuration ''provider budget request has an empty identity or zero bound''))
      else case service_reserve svc env1
          \<lparr>rb_grant_id = grant_uuid, rb_provider_intent_id = bp_provider_intent_id r,
            rb_request_fingerprint = provider_request_fingerprint dg (sv_config svc) (sv_local_stable_node_id svc) r,
            rb_scope_hash = bc_scope_hash (sv_config svc), rb_reserved_usd_nanos = bp_bound_usd_nanos r,
            rb_utc_window = bc_utc_window (sv_config svc)\<rparr> l of
        (l1, Inl e) \<Rightarrow> (l1, Err e)
      | (l1, Inr grant) \<Rightarrow>
          (case claim_provider_dispatch svc origin_read fresh_read env2 grant attempt_uuid l1 of
             (l2, Inr ticket) \<Rightarrow> (l2, Ok ticket)
           | (l2, Inl e) \<Rightarrow>
               (fst (service_release_before_claim svc env3 (rg_grant_id grant) (rg_reserve_fence grant) l2), Err e)))"

section \<open>Inbound commands\<close>

definition verify_authenticated_peer ::
    "budget_service \<Rightarrow> (budget_inbound_error + unit) \<Rightarrow> authenticated_identity \<Rightarrow> budget_inbound_error + unit" where
  "verify_authenticated_peer svc revalidated peer =
     (if sv_stopping svc then Err (InboundUnavailable ''budget service is stopping'')
      else if ai_membership_epoch peer \<noteq> bc_membership_epoch (sv_config svc)
         \<or> btree_get (bc_voters (sv_config svc)) (ai_stable_node_id peer) \<noteq> Some (ai_transport_identity peer)
      then Err AuthenticationMismatch
      else revalidated)"

fun command_owner :: "budget_command \<Rightarrow> stable_node_id option" where
  "command_owner (Cmd_BeginDispatch request) = Some (bd_owner request)"
| "command_owner (Cmd_Settle request) = Some (sb_owner request)"
| "command_owner _ = None"

definition command_from_authenticated_peer ::
    "budget_service \<Rightarrow> (budget_inbound_error + unit) \<Rightarrow> nat option
     \<Rightarrow> (budget_command \<Rightarrow> budget_ledger \<Rightarrow> budget_ledger \<times> (quorum_failure + budget_reply))
     \<Rightarrow> authenticated_identity \<Rightarrow> budget_command \<Rightarrow> budget_ledger
     \<Rightarrow> budget_ledger \<times> (budget_inbound_error + budget_reply)" where
  "command_from_authenticated_peer svc revalidated leader quorum peer command l =
     (case verify_authenticated_peer svc revalidated peer of
        Inl e \<Rightarrow> (l, Err e)
      | Inr _ \<Rightarrow>
          if (case command_owner command of Some owner \<Rightarrow> owner \<noteq> ai_stable_node_id peer | None \<Rightarrow> False)
          then (l, Err AuthenticationMismatch)
          else if leader \<noteq> Some (sv_local_node_id svc)
          then (l, Err (InboundUnavailable ''budget command reached a nonleader; no forwarding is permitted''))
          else (case quorum command l of
                  (l', Inr reply) \<Rightarrow> (l', Ok reply)
                | (l', Inl (RaftFailure m)) \<Rightarrow> (l', Err (InboundUnavailable m))
                | (l', Inl _) \<Rightarrow> (l', Err (InboundUnavailable ''leader budget command timed out''))))"

section \<open>What a write does to the ledger\<close>

definition raft_commits ::
    "(bytes \<Rightarrow> string) \<Rightarrow> (budget_command \<Rightarrow> budget_ledger \<Rightarrow> budget_ledger \<times> (quorum_failure + budget_reply)) \<Rightarrow> bool" where
  "raft_commits dg q \<longleftrightarrow> (\<forall>cmd l l' r. q cmd l = (l', r) \<longrightarrow>
     (l' = l \<and> \<not> is_ok r) \<or>
     (\<exists>t i x. ledger_apply dg l t i cmd = (l', x) \<and> (\<forall>y. r = Ok y \<longrightarrow> y = x)))"

lemma write_cases:
  assumes "service_write svc env cmd l = (l', r)" and "raft_commits dg (we_quorum env)"
  obtains (none) "l' = l" "\<not> is_ok r"
  | (committed) t i x where "ledger_apply dg l t i cmd = (l', x)" "\<And>y. r = Ok y \<Longrightarrow> y = x"
proof (cases "\<exists>org. \<not> sv_stopping svc \<and> we_local env = Ok org \<and> verify_local_origin svc org (sv_local_stable_node_id svc) = Ok ()
    \<and> (\<exists>n. we_leader env = Some n \<and> (n = sv_local_node_id svc \<or> btree_get (sv_routes svc) n \<noteq> None))")
  case True
  obtain l1 q where q: "we_quorum env cmd l = (l1, q)" by fastforce
  with True assms(1) have "l' = l1" "r = (case q of Inl f \<Rightarrow> Err (Unavailable (failure_message f)) | Inr x \<Rightarrow> Ok x)"
    by (auto simp: service_write_def split: sum.splits)
  moreover have "(l1 = l \<and> \<not> is_ok q) \<or> (\<exists>t i x. ledger_apply dg l t i cmd = (l1, x) \<and> (\<forall>y. q = Ok y \<longrightarrow> y = x))"
    by (rule assms(2) [unfolded raft_commits_def, rule_format, OF q])
  ultimately show ?thesis
    by (cases q) (auto intro: none committed split: sum.splits)
next
  case False
  with assms(1) have "l' = l" "\<not> is_ok r"
    by (auto simp: service_write_def split: if_splits sum.splits option.splits)
  then show ?thesis by (rule none)
qed

lemma write_steps:
  assumes "service_write svc env cmd l = (l', r)" and "raft_commits dg (we_quorum env)"
  shows "(ledger_step dg)\<^sup>*\<^sup>* l l'"
  using assms
proof (cases rule: write_cases)
  case (committed t i x)
  then have "ledger_step dg l l'" unfolding ledger_step_def by (metis fst_conv)
  then show ?thesis by blast
qed simp

text \<open>An operation that moves the ledger and mints the permits \<open>ps\<close>.\<close>

definition mints ::
    "(bytes \<Rightarrow> string) \<Rightarrow> budget_ledger \<Rightarrow> budget_ledger \<Rightarrow> new_dispatch_permit list \<Rightarrow> bool" where
  "mints dg l l' ps \<longleftrightarrow> (ps = [] \<and> (ledger_step dg)\<^sup>*\<^sup>* l l') \<or>
     (\<exists>l1 t i cmd c. (ledger_step dg)\<^sup>*\<^sup>* l l1 \<and> ledger_apply dg l1 t i (Cmd_BeginDispatch cmd) = (l', NewClaimed c)
        \<and> ps = [permit_of c])"

fun permit_list :: "'e + new_dispatch_permit \<Rightarrow> new_dispatch_permit list" where
  "permit_list (Inl _) = []"
| "permit_list (Inr p) = [p]"

fun ticket_list :: "'e + budget_provider_dispatch \<Rightarrow> new_dispatch_permit list" where
  "ticket_list (Inl _) = []"
| "ticket_list (Inr d) = (case pd_permit d of None \<Rightarrow> [] | Some p \<Rightarrow> [p])"

lemma begin_dispatch_mints:
  assumes "begin_dispatch svc fresh env origin req l = (l', r)" and "raft_commits dg (we_quorum env)"
  shows "mints dg l l' (permit_list r)"
proof (cases "fresh = Ok origin \<and> verify_local_origin svc origin (bd_owner req) = Ok ()")
  case True
  obtain l1 w where w: "service_write svc env (Cmd_BeginDispatch req) l = (l1, w)" by fastforce
  have l': "l' = l1" using assms(1) True w by (auto simp: begin_dispatch_def split: sum.splits)
  have steps: "(ledger_step dg)\<^sup>*\<^sup>* l l'" using write_steps [OF w assms(2)] l' by simp
  show ?thesis
  proof (cases "\<exists>c. w = Ok (NewClaimed c)")
    case new: True
    then obtain c where c: "w = Ok (NewClaimed c)" by blast
    then have r: "r = Ok (permit_of c)" using assms(1) True w by (simp add: begin_dispatch_def)
    have "\<exists>t i. ledger_apply dg l t i (Cmd_BeginDispatch req) = (l1, NewClaimed c)"
      using w assms(2) by (cases rule: write_cases) (use c in auto)
    then obtain t i where "ledger_apply dg l t i (Cmd_BeginDispatch req) = (l1, NewClaimed c)" by blast
    then show ?thesis using r l' unfolding mints_def by (intro disjI2) (auto intro!: exI [of _ l])
  next
    case False
    then have "\<exists>e. r = Err e" using assms(1) True w
      by (auto simp: begin_dispatch_def split: sum.splits budget_reply.splits)
    with steps show ?thesis by (auto simp: mints_def)
  qed
next
  case False
  then have "l' = l" "\<exists>e. r = Err e" using assms(1)
    by (auto simp: begin_dispatch_def split: sum.splits if_splits)
  then show ?thesis by (auto simp: mints_def)
qed

lemma claim_provider_dispatch_mints:
  assumes "claim_provider_dispatch svc o1 fresh env grant att l = (l', r)" and "raft_commits dg (we_quorum env)"
  shows "mints dg l l' (ticket_list r)"
proof (cases o1)
  case (Inl e)
  with assms(1) show ?thesis by (auto simp: claim_provider_dispatch_def mints_def)
next
  case (Inr origin)
  let ?req = "\<lparr>bd_grant_id = rg_grant_id grant, bd_reserve_fence = rg_reserve_fence grant,
    bd_owner = sv_local_stable_node_id svc, bd_attempt_id = att, bd_provider_intent_id = rg_provider_intent_id grant\<rparr>"
  obtain l1 q where q: "begin_dispatch svc fresh env origin ?req l = (l1, q)" by fastforce
  with Inr assms(1) have "l' = l1" "ticket_list r = permit_list q"
    by (auto simp: claim_provider_dispatch_def split: sum.splits)
  with begin_dispatch_mints [OF q assms(2)] show ?thesis by simp
qed

lemma mints_steps_after: "mints dg l l' [] \<Longrightarrow> (ledger_step dg)\<^sup>*\<^sup>* l l'"
  by (auto simp: mints_def)

lemma mints_before: "(ledger_step dg)\<^sup>*\<^sup>* l l1 \<Longrightarrow> mints dg l1 l' ps \<Longrightarrow> mints dg l l' ps"
  unfolding mints_def by (elim disjE exE conjE) (blast intro: rtranclp_trans)+

lemma reserve_and_begin_mints:
  assumes "reserve_and_begin_provider_dispatch dg svc g a o1 fresh e1 e2 e3 r l = (l', res)"
    and q: "raft_commits dg (we_quorum e1)" "raft_commits dg (we_quorum e2)" "raft_commits dg (we_quorum e3)"
  shows "mints dg l l' (ticket_list res)"
proof -
  let ?cmd = "\<lparr>rb_grant_id = g, rb_provider_intent_id = bp_provider_intent_id r,
    rb_request_fingerprint = provider_request_fingerprint dg (sv_config svc) (sv_local_stable_node_id svc) r,
    rb_scope_hash = bc_scope_hash (sv_config svc), rb_reserved_usd_nanos = bp_bound_usd_nanos r,
    rb_utc_window = bc_utc_window (sv_config svc)\<rparr>"
  obtain l1 s where s: "service_reserve svc e1 ?cmd l = (l1, s)" by fastforce
  have a: "(ledger_step dg)\<^sup>*\<^sup>* l l1"
    using s write_steps [OF _ q(1)] by (auto simp: service_reserve_def split: prod.splits sum.splits)
  consider (bad) "l' = l" "\<exists>e. res = Err e" | (unreserved) "l' = l1" "\<exists>e. res = Err e"
    | (grant) gr where "s = Ok gr" "res = snd (claim_provider_dispatch svc o1 fresh e2 gr a l1)"
        "l' = (let l2 = fst (claim_provider_dispatch svc o1 fresh e2 gr a l1) in
           if is_ok res then l2 else fst (service_release_before_claim svc e3 (rg_grant_id gr) (rg_reserve_fence gr) l2))"
    using assms(1) s
    by (auto simp: reserve_and_begin_provider_dispatch_def Let_def split: if_splits sum.splits prod.splits)
  then show ?thesis
  proof cases
    case grant
    obtain l2 c where c: "claim_provider_dispatch svc o1 fresh e2 gr a l1 = (l2, c)" by fastforce
    have m: "mints dg l l2 (ticket_list c)"
      using mints_before [OF a claim_provider_dispatch_mints [OF c q(2)]] .
    show ?thesis
    proof (cases "is_ok c")
      case True
      with grant c m show ?thesis by (simp add: Let_def)
    next
      case False
      then have none: "ticket_list c = []" by (cases c) auto
      obtain l3 w where w: "service_write svc e3 (Cmd_ReleaseBeforeClaim (rg_grant_id gr) (rg_reserve_fence gr)) l2 = (l3, w)"
        by fastforce
      then have "l' = l3" using grant c False by (simp add: Let_def service_release_before_claim_def)
      with write_steps [OF w q(3)] m none grant c show ?thesis by (auto simp: mints_def)
    qed
  qed (use a in \<open>auto simp: mints_def\<close>)
qed

section \<open>Executions\<close>

text \<open>
  The replicated ledger with all permits that were ever minted, on any voter and across
  restarts. Besides the operations of any recovered service, any command of anybody may be
  committed at any moment.
\<close>

type_synonym svc_state = "budget_ledger \<times> new_dispatch_permit list"

inductive svc_step :: "(bytes \<Rightarrow> string) \<Rightarrow> svc_state \<Rightarrow> svc_state \<Rightarrow> bool" for dg where
  svc_foreign: "ledger_apply dg l t i cmd = (l', x) \<Longrightarrow> svc_step dg (l, ps) (l', ps)"
| svc_begin: "raft_commits dg (we_quorum env) \<Longrightarrow> begin_dispatch svc fresh env origin req l = (l', r)
    \<Longrightarrow> svc_step dg (l, ps) (l', permit_list r @ ps)"
| svc_claim: "raft_commits dg (we_quorum env) \<Longrightarrow> claim_provider_dispatch svc o1 fresh env grant att l = (l', t)
    \<Longrightarrow> svc_step dg (l, ps) (l', ticket_list t @ ps)"
| svc_reserve_and_begin: "raft_commits dg (we_quorum e1) \<Longrightarrow> raft_commits dg (we_quorum e2)
    \<Longrightarrow> raft_commits dg (we_quorum e3)
    \<Longrightarrow> reserve_and_begin_provider_dispatch dg svc g a o1 fresh e1 e2 e3 r l = (l', t)
    \<Longrightarrow> svc_step dg (l, ps) (l', ticket_list t @ ps)"
| svc_write: "raft_commits dg (we_quorum env) \<Longrightarrow> service_write svc env cmd l = (l', r)
    \<Longrightarrow> svc_step dg (l, ps) (l', ps)"

definition svc_init :: "(bytes \<Rightarrow> string) \<Rightarrow> svc_state \<Rightarrow> bool" where
  "svc_init dg y \<longleftrightarrow> (\<exists>c l. ledger_new dg c = Ok l \<and> y = (l, []))"

definition permit_backed :: "budget_ledger \<Rightarrow> new_dispatch_permit \<Rightarrow> bool" where
  "permit_backed l p \<longleftrightarrow> (\<exists>rec. btree_get (bl_grants l) (np_grant_id p) = Some rec
     \<and> claim_of (gc_state rec) = Ok (np_claim_receipt p)) \<and> p = permit_of (np_claim_receipt p)"

definition svc_inv :: "(bytes \<Rightarrow> string) \<Rightarrow> svc_state \<Rightarrow> bool" where
  "svc_inv dg y \<longleftrightarrow> (case y of (l, ps) \<Rightarrow> ledger_ok dg l \<and> distinct (map np_grant_id ps)
     \<and> (\<forall>p \<in> set ps. permit_backed l p))"

lemma writes_inv:
  assumes "(ledger_step dg)\<^sup>*\<^sup>* l l'" "ledger_ok dg l"
  shows "ledger_ok dg l' \<and> (permit_backed l p \<longrightarrow> permit_backed l' p)"
  using assms
proof (induction rule: rtranclp_induct)
  case (step m n)
  then have ok: "ledger_ok dg m" by simp
  obtain t i cmd where n: "n = fst (ledger_apply dg m t i cmd)" using step(2) by (auto simp: ledger_step_def)
  then obtain x where x: "ledger_apply dg m t i cmd = (n, x)" by (metis prod.collapse)
  have "permit_backed n p" if "permit_backed m p"
    using that claimed_no_more [OF ok _ _ x] unfolding permit_backed_def by blast
  with step x apply_ok(1) [OF ok x] show ?case by blast
qed simp

lemma mints_inv:
  assumes "mints dg l l' qs" and "svc_inv dg (l, ps)"
  shows "svc_inv dg (l', qs @ ps)"
proof -
  have ok: "ledger_ok dg l" and ps: "distinct (map np_grant_id ps)" "\<And>p. p \<in> set ps \<Longrightarrow> permit_backed l p"
    using assms(2) by (simp_all add: svc_inv_def)
  consider (none) "qs = []" "(ledger_step dg)\<^sup>*\<^sup>* l l'"
    | (one) l1 t i cmd c where "(ledger_step dg)\<^sup>*\<^sup>* l l1" "ledger_apply dg l1 t i (Cmd_BeginDispatch cmd) = (l', NewClaimed c)"
      "qs = [permit_of c]" using assms(1) by (auto simp: mints_def)
  then show ?thesis
  proof cases
    case none
    then show ?thesis using writes_inv [OF none(2) ok] ps by (auto simp: svc_inv_def)
  next
    case one
    note ok1 = writes_inv [OF one(1) ok, THEN conjunct1]
    have b1: "\<And>p. p \<in> set ps \<Longrightarrow> permit_backed l1 p" using writes_inv [OF one(1) ok] ps(2) by blast
    obtain rec where rec: "btree_get (bl_grants l1) (cl_grant_id c) = Some rec" "gc_state rec = GS_Reserved"
      "btree_get (bl_grants l') (cl_grant_id c) = Some (rec\<lparr>gc_state := GS_Claimed c\<rparr>)"
      using claim_step [OF apply_move [OF ok1 one(2)]] by blast
    have "cl_grant_id c \<noteq> np_grant_id p" if "p \<in> set ps" for p
      using b1 [OF that] rec(1,2) by (auto simp: permit_backed_def)
    moreover have "permit_backed l' p" if "p \<in> set ps" for p
      using b1 [OF that] claimed_no_more [OF ok1 _ _ one(2)] unfolding permit_backed_def by blast
    moreover have "permit_backed l' (permit_of c)" using rec(3) by (simp add: permit_backed_def permit_of_def)
    moreover have "ledger_ok dg l'" by (rule apply_ok(1) [OF ok1 one(2)])
    ultimately show ?thesis using ps(1) one(3) by (auto simp: svc_inv_def permit_of_def)
  qed
qed

lemma svc_step_mints:
  assumes "svc_step dg (l, ps) (l', ps')"
  shows "\<exists>qs. mints dg l l' qs \<and> ps' = qs @ ps"
  using assms
proof cases
  case (svc_foreign t i cmd x)
  then have "ledger_step dg l l'" unfolding ledger_step_def by (metis fst_conv)
  with svc_foreign show ?thesis by (auto simp: mints_def)
next
  case (svc_write env svc cmd r)
  then show ?thesis using write_steps by (auto simp: mints_def)
next
  case (svc_begin env svc fresh origin req r)
  with begin_dispatch_mints [OF svc_begin(3,2)] show ?thesis by blast
next
  case (svc_claim env svc o1 fresh grant att t)
  with claim_provider_dispatch_mints [OF svc_claim(3,2)] show ?thesis by blast
next
  case (svc_reserve_and_begin e1 e2 e3 svc g a o1 fresh r t)
  with reserve_and_begin_mints [OF svc_reserve_and_begin(5,2,3,4)] show ?thesis by blast
qed

interpretation svc: invariant_system "svc_init dg" "svc_step dg" "svc_inv dg" for dg
proof
  show "svc_inv dg y" if "svc_init dg y" for y
    using that ledger_new_ok by (auto simp: svc_init_def svc_inv_def)
  show "svc_inv dg z" if "svc_inv dg y" "svc_step dg y z" for y z
  proof -
    obtain l ps l' ps' where yz: "y = (l, ps)" "z = (l', ps')" by (cases y; cases z)
    with svc_step_mints that mints_inv show ?thesis by blast
  qed
qed

section \<open>Properties\<close>

lemma sum_permits_le:
  assumes ok: "btree_ok m" and d: "distinct ks" and get: "\<And>k. k \<in> set ks \<Longrightarrow> btree_get m k \<noteq> None"
  shows "(\<Sum>k \<leftarrow> ks. f (the (btree_get m k))) \<le> (\<Sum>e \<leftarrow> m. f (snd e) :: nat)"
proof -
  have e: "the (btree_get m (fst x)) = snd x" if "x \<in> set m" for x
    using that ok by (metis btree_get_entries option.sel prod.collapse)
  have "(\<Sum>k \<leftarrow> ks. f (the (btree_get m k))) = (\<Sum>k \<in> set ks. f (the (btree_get m k)))"
    using d by (simp add: sum_list_distinct_conv_sum_set)
  also have "\<dots> \<le> (\<Sum>k \<in> fst ` set m. f (the (btree_get m k)))"
  proof (rule sum_mono2)
    show "set ks \<subseteq> fst ` set m" using get by (force dest: btree_get_mem)
  qed simp_all
  also have "\<dots> = (\<Sum>k \<leftarrow> map fst m. f (the (btree_get m k)))"
    by (subst sum_list_distinct_conv_sum_set) (simp_all add: bt.distinct_entries [OF ok])
  also have "\<dots> = (\<Sum>e \<leftarrow> m. f (snd e))"
    using e by (auto intro!: arg_cong [where f = sum_list])
  finally show ?thesis .
qed

text \<open>
  C9: permits are unique and funded. Whatever the voters do, with writes that fail before or
  after their commit, lost replies, restarts and commands of other nodes in between, at most
  one provider permit is ever minted for a grant, each permit is backed by the committed claim
  of its grant, and the bounds of all permits together stay within the cap.
\<close>

theorem permits_are_unique_and_funded:
  assumes "reachable (svc_init dg) (svc_step dg) (l, ps)"
  shows "distinct (map np_grant_id ps)
    \<and> (\<forall>p \<in> set ps. \<exists>rec. btree_get (bl_grants l) (np_grant_id p) = Some rec
          \<and> claim_of (gc_state rec) = Ok (np_claim_receipt p))
    \<and> (\<Sum>p \<leftarrow> ps. bound (the (btree_get (bl_grants l) (np_grant_id p)))) \<le> unat (bc_cap_usd_nanos (bl_config l))"
proof -
  have inv: "svc_inv dg (l, ps)" by (rule svc.reachable_inv [OF assms])
  then have ok: "ledger_ok dg l" and d: "distinct (map np_grant_id ps)"
    and b: "\<And>p. p \<in> set ps \<Longrightarrow> permit_backed l p" by (simp_all add: svc_inv_def)
  have "(\<Sum>k \<leftarrow> map np_grant_id ps. bound (the (btree_get (bl_grants l) k))) \<le> (\<Sum>e \<leftarrow> bl_grants l. bound (snd e))"
    using ok d b by (intro sum_permits_le) (auto simp: ledger_ok_def permit_backed_def)
  also have "\<dots> \<le> unat (bc_cap_usd_nanos (bl_config l))"
    using ok by (simp add: ledger_ok_def ledger_validate_ok reserved_sum_def)
  finally show ?thesis using d b by (auto simp: permit_backed_def comp_def)
qed

lemma claim_owner:
  assumes "ledger_ok dg l" and "ledger_apply dg l t i (Cmd_BeginDispatch cmd) = (l', NewClaimed c)"
  shows "cl_owner c = bd_owner cmd \<and> cl_grant_id c = bd_grant_id cmd"
  using assms(2) unfolding apply_command [OF assms(1)]
  by (auto simp: ledger_begin_dispatch_def replay_claim_reply_def Let_def
      split: if_splits option.splits grant_state.splits)

text \<open>
  A permit is minted only under current membership. When dispatch begins with the
  durable membership authority as validator and returns a permit, the permit is for the
  requested grant and for the local voter itself, the membership snapshot just read verifies
  against the frozen configuration, and it currently binds the local voter to its transport key.
\<close>

theorem minting_needs_current_membership:
  assumes "begin_dispatch svc (revalidate_local hexd own read now1 now2 (sv_config svc) (sv_local_stable_node_id svc))
      env origin req l = (l', Ok p)"
    and "raft_commits dg (we_quorum env)" and "ledger_ok dg l"
  shows "np_grant_id p = bd_grant_id req \<and> np_owner p = sv_local_stable_node_id svc \<and> \<not> sv_stopping svc
    \<and> (\<exists>s. read = Ok s \<and> verify_snapshot hexd (sv_config svc) s now1 = Ok ()
          \<and> snapshot_has_current_binding s (sv_local_stable_node_id svc) (sv_local_transport_identity svc) now2)"
proof -
  let ?fresh = "revalidate_local hexd own read now1 now2 (sv_config svc) (sv_local_stable_node_id svc)"
  obtain w c where v: "?fresh = Ok origin" "verify_local_origin svc origin (bd_owner req) = Ok ()"
    and w: "service_write svc env (Cmd_BeginDispatch req) l = (l', Ok (NewClaimed c))" and p: "p = permit_of c"
    using assms(1) by (auto simp: begin_dispatch_def split: sum.splits if_splits prod.splits budget_reply.splits)
  have "\<exists>t i. ledger_apply dg l t i (Cmd_BeginDispatch req) = (l', NewClaimed c)"
    using w assms(2) by (cases rule: write_cases) auto
  then have "cl_owner c = bd_owner req" "cl_grant_id c = bd_grant_id req" using claim_owner [OF assms(3)] by blast+
  moreover have "bd_owner req = sv_local_stable_node_id svc" "ai_transport_identity origin = sv_local_transport_identity svc"
    using v(2) by (auto simp: verify_local_origin_def split: if_splits)
  moreover have "\<not> sv_stopping svc" using w by (auto simp: service_write_def split: if_splits)
  ultimately show ?thesis
    using v(1) p by (auto simp: revalidate_local_def permit_of_def split: sum.splits option.splits if_splits)
qed

text \<open>
  A peer acts only for itself. A command that an authenticated peer submits is committed
  only when the peer is a frozen voter with its frozen key and epoch, revalidated, and the
  local node leads; a claim that results belongs to that peer. A refused command leaves the
  ledger unchanged.
\<close>

theorem peers_act_for_themselves:
  assumes "command_from_authenticated_peer svc revalidated leader quorum peer command l = (l', r)"
    and "raft_commits dg quorum" and "ledger_ok dg l"
  shows "(l' \<noteq> l \<or> is_ok r \<longrightarrow> revalidated = Ok () \<and> leader = Some (sv_local_node_id svc) \<and> \<not> sv_stopping svc
      \<and> ai_membership_epoch peer = bc_membership_epoch (sv_config svc)
      \<and> btree_get (bc_voters (sv_config svc)) (ai_stable_node_id peer) = Some (ai_transport_identity peer))
    \<and> (\<forall>c. r = Ok (NewClaimed c) \<longrightarrow> cl_owner c = ai_stable_node_id peer)"
proof (cases "verify_authenticated_peer svc revalidated peer = Ok ()
    \<and> \<not> (case command_owner command of Some owner \<Rightarrow> owner \<noteq> ai_stable_node_id peer | None \<Rightarrow> False)
    \<and> leader = Some (sv_local_node_id svc)")
  case True
  then have v: "revalidated = Ok ()" "\<not> sv_stopping svc" "ai_membership_epoch peer = bc_membership_epoch (sv_config svc)"
      "btree_get (bc_voters (sv_config svc)) (ai_stable_node_id peer) = Some (ai_transport_identity peer)"
    by (auto simp: verify_authenticated_peer_def split: if_splits)
  have "cl_owner c = ai_stable_node_id peer" if "r = Ok (NewClaimed c)" for c
  proof -
    have q: "quorum command l = (l', Ok (NewClaimed c))"
      using assms(1) True that
      by (auto simp: command_from_authenticated_peer_def split: prod.splits sum.splits quorum_failure.splits)
    obtain t i where a: "ledger_apply dg l t i command = (l', NewClaimed c)"
      using assms(2) [unfolded raft_commits_def, rule_format, OF q] by auto
    then obtain req where req: "command = Cmd_BeginDispatch req"
      unfolding apply_command [OF assms(3)]
      by (cases command) (auto simp: ledger_reserve_def ledger_settle_def settle_claimed_def
          ledger_release_before_claim_def Let_def split: if_splits option.splits grant_state.splits sum.splits)
    then show ?thesis using claim_owner [OF assms(3)] a True by auto
  qed
  with v True show ?thesis by auto
next
  case False
  then have "l' = l" "\<not> is_ok r" using assms(1)
    by (auto simp: command_from_authenticated_peer_def split: if_splits sum.splits option.splits)
  then show ?thesis by auto
qed

section \<open>Recovery\<close>

definition frozen_routes :: "budget_cluster_config \<Rightarrow> (nat, budget_peer_route) btree" where
  "frozen_routes c = map (\<lambda>(i, node, transport). (i + 1,
     \<lparr>br_node_id = i + 1, br_stable_node_id = node, br_transport_identity = transport\<rparr>))
     (List.enumerate 0 (bc_voters c))"

lemma three_voters:
  assumes "length (bc_voters c) = 3" and "btree_ok (bc_voters c)"
  obtains n1 t1 n2 t2 n3 t3 where "bc_voters c = [(n1, t1), (n2, t2), (n3, t3)]" "n1 \<noteq> n2" "n1 \<noteq> n3" "n2 \<noteq> n3"
proof -
  obtain a b d where v: "bc_voters c = [a, b, d]"
    using assms(1) by (auto simp: numeral_3_eq_3 length_Suc_conv)
  moreover have "distinct (map fst (bc_voters c))" using bt.distinct_entries [OF assms(2)] by simp
  ultimately show thesis by (intro that [of "fst a" "snd a" "fst b" "snd b" "fst d" "snd d"]) auto
qed

lemma derive_routes_frozen:
  assumes "length (bc_voters c) = 3" and "btree_ok (bc_voters c)"
  shows "derive_routes c = Ok (frozen_routes c)"
proof -
  obtain n1 t1 n2 t2 n3 t3 where v: "bc_voters c = [(n1, t1), (n2, t2), (n3, t3)]" "n1 \<noteq> n2" "n1 \<noteq> n3" "n2 \<noteq> n3"
    using three_voters [OF assms] .
  then have "raft_node_id c n1 = Some 1" "raft_node_id c n2 = Some 2" "raft_node_id c n3 = Some 3"
    by (simp_all add: raft_node_id_def)
  with v show ?thesis by (simp add: derive_routes_def frozen_routes_def)
qed

lemma network_accepts_frozen:
  assumes "length (bc_voters c) = 3" and "btree_ok (bc_voters c)"
  shows "network_factory_new (frozen_routes c) RPC_TIMEOUT_MS = Ok ()"
proof -
  obtain n1 t1 n2 t2 n3 t3 where v: "bc_voters c = [(n1, t1), (n2, t2), (n3, t3)]" "n1 \<noteq> n2" "n1 \<noteq> n3" "n2 \<noteq> n3"
    using three_voters [OF assms] .
  then show ?thesis by (simp add: network_factory_new_def frozen_routes_def RPC_TIMEOUT_MS_def)
qed

text \<open>
  A voter recovers exactly when it may. For a configuration whose voters are an ordered
  map, recovery succeeds exactly when the configuration validates, the local identity is one
  of its voters and the store, the runtime configuration and OpenRaft come up; the routes of
  the recovered service are exactly the frozen voters under their canonical node ids.
\<close>

theorem recovery_succeeds_exactly:
  assumes "btree_ok (bc_voters c)"
  shows "((\<exists>svc. service_recover dg c me opened runtime started = Ok svc) \<longleftrightarrow>
      config_validate dg c = Ok () \<and> btree_get (bc_voters c) me \<noteq> None \<and> is_ok opened \<and> runtime \<and> is_ok started)
    \<and> (\<forall>svc. service_recover dg c me opened runtime started = Ok svc \<longrightarrow> sv_routes svc = frozen_routes c
      \<and> raft_node_id c me = Some (sv_local_node_id svc)
      \<and> btree_get (bc_voters c) me = Some (sv_local_transport_identity svc) \<and> \<not> sv_stopping svc)"
proof (cases "config_validate dg c = Ok () \<and> btree_get (bc_voters c) me \<noteq> None")
  case True
  then obtain t where t: "btree_get (bc_voters c) me = Some t" by blast
  have l: "length (bc_voters c) = 3" and e: "bc_membership_epoch c \<noteq> 0" "bc_cap_usd_nanos c \<noteq> 0"
    and d: "distinct (map snd (bc_voters c))"
    using True by (simp_all add: config_validate_Ok validate_shape_Ok validate_voters_iff)
  have new: "ledger_new dg c = Ok \<lparr>bl_config = c, bl_grants = []\<rparr>" using True by (simp add: ledger_new_def)
  have "me \<in> set (map fst (bc_voters c))" using btree_get_mem [OF t] by force
  then have "raft_node_id c me \<noteq> None" unfolding raft_node_id_def option.map_disc_iff position_None by blast
  then obtain i where i: "raft_node_id c me = Some i" by blast
  have "service_validate_config dg c = Ok ()" using new l e d by (simp add: service_validate_config_def)
  with True t i new derive_routes_frozen [OF l assms] network_accepts_frozen [OF l assms] show ?thesis
    by (auto simp: service_recover_def split: sum.splits)
next
  case False
  then have "\<nexists>svc. service_recover dg c me opened runtime started = Ok svc"
    by (auto simp: service_recover_def service_validate_config_def ledger_new_def
        split: sum.splits option.splits if_splits)
  with False show ?thesis by blast
qed

section \<open>A sample dispatch\<close>

definition sample_quorum :: "budget_command \<Rightarrow> budget_ledger \<Rightarrow> budget_ledger \<times> (quorum_failure + budget_reply)" where
  "sample_quorum cmd l = (case ledger_apply sample_digest l 1 5 cmd of (l', x) \<Rightarrow> (l', Ok x))"

definition sample_identity :: authenticated_identity where
  "sample_identity = \<lparr>ai_stable_node_id = replicate 64 CHR ''1'', ai_transport_identity = ''ka'', ai_membership_epoch = 7\<rparr>"

definition sample_service :: budget_service where
  "sample_service = \<lparr>sv_config = sample_config, sv_local_node_id = 1, sv_local_stable_node_id = replicate 64 CHR ''1'',
     sv_local_transport_identity = ''ka'', sv_stopping = False, sv_routes = []\<rparr>"

definition sample_write_env :: write_env where
  "sample_write_env = \<lparr>we_local = Ok sample_identity, we_leader = Some 1, we_quorum = sample_quorum\<rparr>"

lemma sample_quorum_commits: "raft_commits sample_digest sample_quorum"
  unfolding raft_commits_def sample_quorum_def by (auto split: prod.splits)

lemma sample_revalidated:
  "revalidate_local sample_hexd ''ka'' (Ok sample_snapshot) 0 0 sample_config (replicate 64 CHR ''1'') = Ok sample_identity"
proof -
  have "snapshot_has_current_binding sample_snapshot (replicate 64 CHR ''1'') ''ka'' 0"
    by (simp add: snapshot_has_current_binding_def sample_snapshot_def sample_member_def binding_current_def)
  then show ?thesis
    by (simp add: revalidate_local_def sample_verified) (simp add: sample_config_def sample_identity_def)
qed

lemma sample_begin:
  "begin_dispatch sample_service (Ok sample_identity) sample_write_env sample_identity sample_dispatch sample_ledger1
     = (sample_ledger2, Ok (permit_of sample_claim))"
proof -
  have "verify_local_origin sample_service sample_identity (replicate 64 CHR ''1'') = Ok ()"
    by (simp add: verify_local_origin_def sample_service_def sample_identity_def sample_config_def)
  moreover have "service_write sample_service sample_write_env (Cmd_BeginDispatch sample_dispatch) sample_ledger1
      = (sample_ledger2, Ok (NewClaimed sample_claim))"
    using calculation sample_apply2
    by (simp add: service_write_def sample_write_env_def) (simp add: sample_service_def sample_quorum_def)
  moreover have "bd_owner sample_dispatch = replicate 64 CHR ''1''" by (simp add: sample_dispatch_def)
  ultimately show ?thesis by (simp add: begin_dispatch_def)
qed

theorem permits_are_unique_and_funded_witness:
  "bound (the (btree_get (bl_grants sample_ledger2) (np_grant_id (permit_of sample_claim)))) \<le> 100 \<and>
   reachable (svc_init sample_digest) (svc_step sample_digest) (sample_ledger2, [permit_of sample_claim])"
proof -
  let ?R = "reachable (svc_init sample_digest) (svc_step sample_digest)"
  have "?R (sample_ledger, [])"
    by (rule reachable_init) (use sample_new in \<open>auto simp: svc_init_def\<close>)
  then have "?R (sample_ledger1, [])"
    by (rule reachable_step) (rule svc_foreign [OF sample_apply1])
  moreover have "svc_step sample_digest (sample_ledger1, []) (sample_ledger2, [permit_of sample_claim])"
    using svc_begin [OF _ sample_begin, of sample_digest "[]"] sample_quorum_commits by (simp add: sample_write_env_def)
  ultimately have r: "?R (sample_ledger2, [permit_of sample_claim])" by (rule reachable_step)
  have "unat (bc_cap_usd_nanos (bl_config sample_ledger2)) = 100"
    by (simp add: sample_ledger2_def sample_config_def)
  with permits_are_unique_and_funded [OF r] r show ?thesis by simp
qed

theorem minting_needs_current_membership_witness:
  "np_owner (permit_of sample_claim) = replicate 64 CHR ''1'' \<and>
   snapshot_has_current_binding sample_snapshot (replicate 64 CHR ''1'') ''ka'' 0"
proof -
  have "begin_dispatch sample_service (revalidate_local sample_hexd ''ka'' (Ok sample_snapshot) 0 0
      (sv_config sample_service) (sv_local_stable_node_id sample_service)) sample_write_env sample_identity
      sample_dispatch sample_ledger1 = (sample_ledger2, Ok (permit_of sample_claim))"
    using sample_begin sample_revalidated by (simp add: sample_service_def)
  from minting_needs_current_membership [OF this, of sample_digest] show ?thesis
    using sample_quorum_commits apply_ok(1) [OF sample_ok sample_apply1]
    by (simp add: sample_write_env_def sample_service_def)
qed

theorem peers_act_for_themselves_witness:
  "snd (command_from_authenticated_peer sample_service (Ok ()) (Some 1) sample_quorum sample_identity
     (Cmd_BeginDispatch sample_dispatch) sample_ledger1) = Ok (NewClaimed sample_claim)
   \<and> cl_owner sample_claim = replicate 64 CHR ''1''"
proof -
  have "verify_authenticated_peer sample_service (Ok ()) sample_identity = Ok ()"
    by (simp add: verify_authenticated_peer_def sample_service_def sample_identity_def sample_config_def)
  then have c: "command_from_authenticated_peer sample_service (Ok ()) (Some 1) sample_quorum sample_identity
     (Cmd_BeginDispatch sample_dispatch) sample_ledger1 = (sample_ledger2, Ok (NewClaimed sample_claim))"
    using sample_apply2
    by (simp add: command_from_authenticated_peer_def sample_quorum_def)
      (simp add: sample_service_def sample_dispatch_def sample_identity_def)
  from peers_act_for_themselves [OF this sample_quorum_commits apply_ok(1) [OF sample_ok sample_apply1]] c
  show ?thesis by (simp add: sample_identity_def)
qed

theorem recovery_succeeds_exactly_witness:
  "\<exists>svc. service_recover sample_digest sample_config (replicate 64 CHR ''2'') (Ok ()) True (Ok ()) = Ok svc
     \<and> sv_routes svc = frozen_routes sample_config"
proof -
  have "btree_ok (bc_voters sample_config)"
    using sample_ordered by (auto simp: sample_config_def btree_ok_def not_less_iff_gr_or_eq)
  from recovery_succeeds_exactly [OF this, of sample_digest "replicate 64 CHR ''2''" "Ok ()" True "Ok ()"]
  show ?thesis using sample_valid by (auto simp: sample_config_def)
qed

end
