(* ===== verification/Budget_Store.thy ===== *)
theory Budget_Store
  imports Budget_Run Budget_Membership
begin

text \<open>
  The durable store of the budget authority, \<open>src/SRC/neothd/src/cluster/budget_raft/store.rs\<close>.
  The SQLite database is a record of its four tables; an operation maps the tables to the
  tables after its transaction and a result, and a refused operation leaves them unchanged.
  The JSON encodings (\<open>serde_json\<close>) are the functions of a record \<open>store_json\<close> into
  blobs of any type \<open>'b\<close>, with their byte size;
  \<open>json_ok\<close> says that decoding inverts encoding and yields ordered maps. The data types of OpenRaft appear with the
  fields the store reads. An index is kept as the natural number of its SQLite integer.
\<close>

section \<open>OpenRaft data\<close>

record log_id =
  li_term :: u64
  li_node :: u64
  li_index :: u64

record raft_membership =
  rm_configs :: "nat list list"
  rm_nodes :: "(nat, string) btree"

record stored_membership =
  sm_log_id :: "log_id option"
  sm_membership :: raft_membership

datatype entry_payload = P_Blank | P_Normal budget_command | P_Membership raft_membership

record raft_entry =
  en_log_id :: log_id
  en_payload :: entry_payload

record raft_vote =
  vo_term :: u64
  vo_node :: u64
  vo_committed :: bool

record snapshot_meta =
  mt_last_log_id :: "log_id option"
  mt_last_membership :: stored_membership
  mt_snapshot_id :: string

type_synonym raft_state = "log_id option \<times> stored_membership \<times> budget_ledger"

record 'b store_json =
  j_config :: "budget_cluster_config \<Rightarrow> 'b"
  u_config :: "'b \<Rightarrow> anyhow + budget_cluster_config"
  j_ledger :: "budget_ledger \<Rightarrow> 'b"
  u_ledger :: "'b \<Rightarrow> anyhow + budget_ledger"
  j_log_id :: "log_id \<Rightarrow> 'b"
  u_log_id :: "'b \<Rightarrow> anyhow + log_id"
  j_log_id_option :: "log_id option \<Rightarrow> 'b"
  j_membership :: "stored_membership \<Rightarrow> 'b"
  u_membership :: "'b \<Rightarrow> anyhow + stored_membership"
  j_entry :: "raft_entry \<Rightarrow> 'b"
  u_entry :: "'b \<Rightarrow> anyhow + raft_entry"
  j_vote :: "raft_vote \<Rightarrow> 'b"
  u_vote :: "'b \<Rightarrow> anyhow + raft_vote"
  j_meta :: "snapshot_meta \<Rightarrow> 'b"
  u_meta :: "'b \<Rightarrow> anyhow + snapshot_meta"
  j_state :: "raft_state \<Rightarrow> 'b"
  u_state :: "'b \<Rightarrow> anyhow + raft_state"
  j_size :: "'b \<Rightarrow> nat"

definition json_ok :: "'b store_json \<Rightarrow> bool" where
  "json_ok J \<longleftrightarrow> (\<forall>x. u_config J (j_config J x) = Ok x) \<and> (\<forall>x. u_ledger J (j_ledger J x) = Ok x)
     \<and> (\<forall>x. u_log_id J (j_log_id J x) = Ok x) \<and> (\<forall>x. u_membership J (j_membership J x) = Ok x)
     \<and> (\<forall>x. u_entry J (j_entry J x) = Ok x) \<and> (\<forall>x. u_vote J (j_vote J x) = Ok x)
     \<and> (\<forall>x. u_meta J (j_meta J x) = Ok x) \<and> (\<forall>a m l. btree_ok (bl_grants l) \<longrightarrow> u_state J (j_state J (a, m, l)) = Ok (a, m, l))
     \<and> (\<forall>x. j_log_id_option J (Some x) = j_log_id J x)
     \<and> (\<forall>b a m l. u_state J b = Ok (a, m, l) \<longrightarrow> btree_ok (bl_grants l))"

section \<open>Tables\<close>

record 'b raft_tables =
  tb_config :: "'b option"
  tb_vote :: "'b option"
  tb_committed :: "'b option"
  tb_purged :: "'b option"
  tb_log :: "(nat, u64 \<times> 'b) btree"
  tb_state :: "('b option \<times> 'b \<times> 'b) option"
  tb_snapshot :: "('b \<times> 'b) option"
  tb_legacy_values :: bool

definition MAX_BUDGET_SNAPSHOT_BYTES :: nat where "MAX_BUDGET_SNAPSHOT_BYTES = 8 * 1024 * 1024"

text \<open>\<open>Result::and_then\<close>, the meaning of the question mark.\<close>

definition and_then :: "'e + 'a \<Rightarrow> ('a \<Rightarrow> 'e + 'b) \<Rightarrow> 'e + 'b" where
  "and_then r f = (case r of Inl e \<Rightarrow> Err e | Inr x \<Rightarrow> f x)"

fun try_map :: "('a \<Rightarrow> 'e + 'b) \<Rightarrow> 'a list \<Rightarrow> 'e + 'b list" where
  "try_map f [] = Ok []"
| "try_map f (x # xs) = and_then (f x) (\<lambda>y. and_then (try_map f xs) (\<lambda>ys. Ok (y # ys)))"

definition opt_transpose :: "('a \<Rightarrow> 'e + 'b) \<Rightarrow> 'a option \<Rightarrow> 'e + 'b option" where
  "opt_transpose f x = (case x of None \<Rightarrow> Ok None | Some v \<Rightarrow> and_then (f v) (\<lambda>y. Ok (Some y)))"

fun rejection_debug :: "budget_rejection \<Rightarrow> string" where
  "rejection_debug Rej_InvalidConfig = ''InvalidConfig''"
| "rejection_debug Rej_InvalidCommand = ''InvalidCommand''"
| "rejection_debug Rej_GrantConflict = ''GrantConflict''"
| "rejection_debug Rej_CapExceeded = ''CapExceeded''"
| "rejection_debug Rej_UnknownGrant = ''UnknownGrant''"
| "rejection_debug Rej_FenceMismatch = ''FenceMismatch''"
| "rejection_debug Rej_OwnerMismatch = ''OwnerMismatch''"
| "rejection_debug Rej_UnauthorizedOwner = ''UnauthorizedOwner''"
| "rejection_debug Rej_AttemptMismatch = ''AttemptMismatch''"
| "rejection_debug Rej_IntentMismatch = ''IntentMismatch''"
| "rejection_debug Rej_NotClaimed = ''NotClaimed''"
| "rejection_debug Rej_ReleaseAfterClaim = ''ReleaseAfterClaim''"
| "rejection_debug Rej_AlreadyReleased = ''AlreadyReleased''"
| "rejection_debug Rej_Overrun = ''Overrun''"
| "rejection_debug Rej_ScopeMismatch = ''ScopeMismatch''"
| "rejection_debug Rej_WindowMismatch = ''WindowMismatch''"

definition checked_ledger :: "(bytes \<Rightarrow> string) \<Rightarrow> string \<Rightarrow> budget_ledger \<Rightarrow> anyhow + unit" where
  "checked_ledger dg msg l =
     (case ledger_validate dg l of Inl e \<Rightarrow> Err [msg @ '': '' @ rejection_debug e] | Inr _ \<Rightarrow> Ok ())"

definition sql_index :: "u64 \<Rightarrow> anyhow + nat" where
  "sql_index i = (if is_i64 (uint i) then Ok (unat i) else Err [''raft index exceeds SQLite INTEGER range''])"

definition read_meta :: "('b \<Rightarrow> anyhow + 'a) \<Rightarrow> 'b option \<Rightarrow> anyhow + 'a option" where
  "read_meta dec v = opt_transpose dec v"

text \<open>\<open>storage\<close> with a failure of SQLite or of the blocking task.\<close>

definition storage ::
    "anyhow option \<Rightarrow> ('b raft_tables \<Rightarrow> 'b raft_tables \<times> (anyhow + 'a)) \<Rightarrow> 'b raft_tables \<Rightarrow> 'b raft_tables \<times> (anyhow + 'a)" where
  "storage failure f t = (case failure of Some e \<Rightarrow> (t, Err e) | None \<Rightarrow> f t)"

text \<open>A transaction: on success the new tables are committed, on an error nothing is.\<close>

definition transact ::
    "('b raft_tables \<Rightarrow> anyhow + 'b raft_tables \<times> 'a) \<Rightarrow> 'b raft_tables \<Rightarrow> 'b raft_tables \<times> (anyhow + 'a)" where
  "transact f t = (case f t of Inl e \<Rightarrow> (t, Err e) | Inr (t', x) \<Rightarrow> (t', Ok x))"

section \<open>The applied state\<close>

definition validate_membership ::
    "budget_cluster_config \<Rightarrow> log_id option \<Rightarrow> stored_membership \<Rightarrow> anyhow + unit" where
  "validate_membership c last_applied stored =
     (let m = sm_membership stored
      in if last_applied = None \<and> sm_log_id stored = None \<and> rm_configs m = [] \<and> rm_nodes m = [] then Ok ()
         else case sm_log_id stored of
           None \<Rightarrow> Err [''non-pristine budget membership has no log id'']
         | Some membership_log \<Rightarrow> (case last_applied of
           None \<Rightarrow> Err [''non-pristine budget membership has no applied index'']
         | Some applied \<Rightarrow>
             if li_index membership_log > li_index applied
               then Err [''budget membership is newer than applied state'']
             else if rm_configs m \<noteq> [map fst (raft_voters c)]
               then Err [''budget membership is dynamic, joint, or has an unexpected voter set'']
             else if rm_nodes m \<noteq> raft_voters c
               then Err [''budget membership nodes do not match canonical frozen voter ids'']
             else Ok ()))"

definition load_state :: "(bytes \<Rightarrow> string) \<Rightarrow> 'b store_json \<Rightarrow> 'b raft_tables \<Rightarrow> anyhow + raft_state" where
  "load_state dg J t =
     (case tb_state t of
        None \<Rightarrow> Err [''Query returned no rows'']
      | Some (la, membership, ledger) \<Rightarrow>
          and_then (u_ledger J ledger) (\<lambda>l.
          and_then (checked_ledger dg ''persisted budget ledger violates recovery invariants'' l) (\<lambda>_.
          and_then (opt_transpose (u_log_id J) la) (\<lambda>a.
          and_then (u_membership J membership) (\<lambda>m.
          and_then (validate_membership (bl_config l) a m) (\<lambda>_. Ok (a, m, l)))))))"

definition save_state :: "'b store_json \<Rightarrow> raft_state \<Rightarrow> 'b raft_tables \<Rightarrow> anyhow + 'b raft_tables" where
  "save_state J s t = (case s of (a, m, l) \<Rightarrow>
     and_then (validate_membership (bl_config l) a m) (\<lambda>_.
       Ok (t\<lparr>tb_state := (case tb_state t of None \<Rightarrow> None
             | Some _ \<Rightarrow> Some (map_option (j_log_id J) a, j_membership J m, j_ledger J l))\<rparr>)))"

definition pristine_membership :: stored_membership where
  "pristine_membership = \<lparr>sm_log_id = None, sm_membership = \<lparr>rm_configs = [], rm_nodes = []\<rparr>\<rparr>"

section \<open>Opening\<close>

definition validate_persisted_snapshot ::
    "(bytes \<Rightarrow> string) \<Rightarrow> 'b store_json \<Rightarrow> budget_cluster_config \<Rightarrow> 'b raft_tables \<Rightarrow> anyhow + unit" where
  "validate_persisted_snapshot dg J c t =
     (case tb_snapshot t of
        None \<Rightarrow> Ok ()
      | Some (metadata, blob) \<Rightarrow>
          if j_size J blob > MAX_BUDGET_SNAPSHOT_BYTES
          then Err [''persisted budget raft snapshot exceeds byte bound'']
          else and_then (u_meta J metadata) (\<lambda>meta.
               and_then (u_state J blob) (\<lambda>(a, m, l).
               and_then (checked_ledger dg ''persisted budget raft snapshot violates recovery invariants'' l) (\<lambda>_.
               and_then (validate_membership c a m) (\<lambda>_.
                 if a \<noteq> mt_last_log_id meta \<or> m \<noteq> mt_last_membership meta \<or> bl_config l \<noteq> c
                 then Err [''persisted budget raft snapshot does not match durable metadata/configuration'']
                 else Ok ())))))"

definition open_existing ::
    "(bytes \<Rightarrow> string) \<Rightarrow> 'b store_json \<Rightarrow> budget_ledger \<Rightarrow> 'b \<Rightarrow> 'b raft_tables \<Rightarrow> anyhow + unit" where
  "open_existing dg J initial blob t =
     and_then (context_msg ''decode frozen budget config'' (u_config J blob)) (\<lambda>existing.
       if existing \<noteq> bl_config initial \<or> blob \<noteq> j_config J (bl_config initial)
       then Err [''budget raft frozen configuration does not match existing store'']
       else case tb_state t of
         None \<Rightarrow> Err [''budget raft config exists but applied ledger is absent'']
       | Some (_, _, ledger) \<Rightarrow>
           and_then (context_msg ''decode persisted budget ledger'' (u_ledger J ledger)) (\<lambda>recovered.
           and_then (checked_ledger dg ''persisted budget ledger violates recovery invariants'' recovered) (\<lambda>_.
             if bl_config recovered \<noteq> bl_config initial
             then Err [''persisted ledger configuration does not match frozen store config'']
             else and_then (load_state dg J t) (\<lambda>_. validate_persisted_snapshot dg J (bl_config initial) t))))"

definition open_store ::
    "(bytes \<Rightarrow> string) \<Rightarrow> 'b store_json \<Rightarrow> budget_ledger \<Rightarrow> 'b raft_tables \<Rightarrow> 'b raft_tables \<times> (anyhow + unit)" where
  "open_store dg J initial t =
     (case checked_ledger dg ''initial budget ledger violates frozen configuration invariants'' initial of
        Inl e \<Rightarrow> (t, Err e)
      | Inr _ \<Rightarrow> (case tb_config t of
          Some blob \<Rightarrow> (t, open_existing dg J initial blob t)
        | None \<Rightarrow>
            if tb_log t \<noteq> [] \<or> tb_state t \<noteq> None \<or> tb_vote t \<noteq> None \<or> tb_committed t \<noteq> None
               \<or> tb_purged t \<noteq> None \<or> tb_snapshot t \<noteq> None \<or> tb_legacy_values t
            then (t, Err [''budget raft store has durable state but no frozen configuration marker''])
            else (t\<lparr>tb_config := Some (j_config J (bl_config initial)),
                    tb_state := Some (None, j_membership J pristine_membership, j_ledger J initial)\<rparr>, Ok ())))"

section \<open>Votes and log\<close>

definition save_vote :: "'b store_json \<Rightarrow> raft_vote \<Rightarrow> 'b raft_tables \<Rightarrow> 'b raft_tables \<times> (anyhow + unit)" where
  "save_vote J v t = (t\<lparr>tb_vote := Some (j_vote J v)\<rparr>, Ok ())"

definition read_vote :: "'b store_json \<Rightarrow> 'b raft_tables \<Rightarrow> anyhow + raft_vote option" where
  "read_vote J t = read_meta (u_vote J) (tb_vote t)"

definition save_committed :: "'b store_json \<Rightarrow> log_id option \<Rightarrow> 'b raft_tables \<Rightarrow> 'b raft_tables \<times> (anyhow + unit)" where
  "save_committed J c t = (t\<lparr>tb_committed := Some (j_log_id_option J c)\<rparr>, Ok ())"

definition read_committed :: "'b store_json \<Rightarrow> 'b raft_tables \<Rightarrow> anyhow + log_id option" where
  "read_committed J t = read_meta (u_log_id J) (tb_committed t)"

text \<open>\<open>SELECT entry ... ORDER BY log_index DESC LIMIT 1\<close>, or else the purged id.\<close>

definition last_log_id :: "'b store_json \<Rightarrow> log_id option \<Rightarrow> 'b raft_tables \<Rightarrow> anyhow + log_id option" where
  "last_log_id J purged t =
     and_then (opt_transpose (\<lambda>b. and_then (u_entry J b) (\<lambda>e. Ok (en_log_id e)))
       (if tb_log t = [] then None else Some (snd (snd (last (tb_log t))))))
       (\<lambda>l. Ok (case l of None \<Rightarrow> purged | Some x \<Rightarrow> Some x))"

definition get_log_state :: "'b store_json \<Rightarrow> 'b raft_tables \<Rightarrow> anyhow + log_id option \<times> log_id option" where
  "get_log_state J t =
     and_then (read_meta (u_log_id J) (tb_purged t)) (\<lambda>purged.
     and_then (last_log_id J purged t) (\<lambda>l. Ok (purged, l)))"

datatype range_bound = Included u64 | Excluded u64 | Unbounded

definition range_lower :: "range_bound \<Rightarrow> u64" where
  "range_lower b = (case b of Included v \<Rightarrow> v | Excluded v \<Rightarrow> saturating_add v 1 | Unbounded \<Rightarrow> 0)"

definition range_upper :: "range_bound \<Rightarrow> u64 option" where
  "range_upper b = (case b of Included v \<Rightarrow> checked_add v 1 | Excluded v \<Rightarrow> Some v | Unbounded \<Rightarrow> None)"

definition try_get_log_entries ::
    "'b store_json \<Rightarrow> range_bound \<Rightarrow> range_bound \<Rightarrow> 'b raft_tables \<Rightarrow> anyhow + raft_entry list" where
  "try_get_log_entries J lo hi t =
     (case range_upper hi of
        Some end_index \<Rightarrow>
          and_then (sql_index (range_lower lo)) (\<lambda>a. and_then (sql_index end_index) (\<lambda>b.
            try_map (\<lambda>r. u_entry J (snd (snd r))) (filter (\<lambda>r. a \<le> fst r \<and> fst r < b) (tb_log t))))
      | None \<Rightarrow>
          and_then (sql_index (range_lower lo)) (\<lambda>a.
            try_map (\<lambda>r. u_entry J (snd (snd r))) (filter (\<lambda>r. a \<le> fst r) (tb_log t))))"

fun append_check :: "log_id option \<Rightarrow> log_id option \<Rightarrow> raft_entry list \<Rightarrow> anyhow + unit" where
  "append_check purged previous [] = Ok ()"
| "append_check purged previous (e # es) =
     (if (case purged of Some p \<Rightarrow> li_index (en_log_id e) \<le> li_index p | None \<Rightarrow> False)
        then Err [''append would restore a purged Raft log'']
      else if (case previous of Some prev \<Rightarrow> li_index (en_log_id e) > saturating_add (li_index prev) 1 | None \<Rightarrow> False)
        then Err [''Raft append would leave a log hole'']
      else append_check purged (Some (en_log_id e)) es)"

fun append_rows :: "'b store_json \<Rightarrow> raft_entry list \<Rightarrow> 'b raft_tables \<Rightarrow> anyhow + 'b raft_tables" where
  "append_rows J [] t = Ok t"
| "append_rows J (e # es) t =
     and_then (sql_index (li_index (en_log_id e))) (\<lambda>i.
     and_then (sql_index (li_term (en_log_id e))) (\<lambda>_.
       append_rows J es (t\<lparr>tb_log := btree_insert i (li_term (en_log_id e), j_entry J e) (tb_log t)\<rparr>)))"

definition append_log :: "'b store_json \<Rightarrow> raft_entry list \<Rightarrow> 'b raft_tables \<Rightarrow> 'b raft_tables \<times> (anyhow + unit)" where
  "append_log J es = transact (\<lambda>t.
     and_then (read_meta (u_log_id J) (tb_purged t)) (\<lambda>purged.
     and_then (last_log_id J purged t) (\<lambda>previous.
     and_then (append_check purged previous es) (\<lambda>_.
     and_then (append_rows J es t) (\<lambda>t'. Ok (t', ()))))))"

definition truncate_log ::
    "(bytes \<Rightarrow> string) \<Rightarrow> 'b store_json \<Rightarrow> log_id \<Rightarrow> 'b raft_tables \<Rightarrow> 'b raft_tables \<times> (anyhow + unit)" where
  "truncate_log dg J lid = transact (\<lambda>t.
     and_then (load_state dg J t) (\<lambda>(applied, _, _).
       if (case applied of Some a \<Rightarrow> li_index a \<ge> li_index lid | None \<Rightarrow> False)
       then Err [''would truncate an applied Raft log'']
       else and_then (sql_index (li_index lid)) (\<lambda>i.
              Ok (t\<lparr>tb_log := filter (\<lambda>r. \<not> i \<le> fst r) (tb_log t)\<rparr>, ()))))"

definition purge_log ::
    "(bytes \<Rightarrow> string) \<Rightarrow> 'b store_json \<Rightarrow> log_id \<Rightarrow> 'b raft_tables \<Rightarrow> 'b raft_tables \<times> (anyhow + unit)" where
  "purge_log dg J lid = transact (\<lambda>t.
     and_then (load_state dg J t) (\<lambda>(applied, _, _).
       if (case applied of Some a \<Rightarrow> li_index a < li_index lid | None \<Rightarrow> True)
       then Err [''would purge a non-applied Raft log'']
       else and_then (read_meta (u_log_id J) (tb_purged t)) (\<lambda>old.
         if (case old of Some previous \<Rightarrow> li_index previous > li_index lid | None \<Rightarrow> False)
         then Err [''would move last-purged Raft log backwards'']
         else and_then (sql_index (li_index lid)) (\<lambda>i.
                Ok (t\<lparr>tb_purged := Some (j_log_id J lid),
                      tb_log := filter (\<lambda>r. \<not> fst r \<le> i) (tb_log t)\<rparr>, ())))))"

section \<open>The state machine\<close>

definition applied_state :: "(bytes \<Rightarrow> string) \<Rightarrow> 'b store_json \<Rightarrow> 'b raft_tables \<Rightarrow> anyhow + log_id option \<times> stored_membership" where
  "applied_state dg J t = and_then (load_state dg J t) (\<lambda>(a, m, _). Ok (a, m))"

fun apply_entry :: "(bytes \<Rightarrow> string) \<Rightarrow> raft_state \<Rightarrow> raft_entry \<Rightarrow> anyhow + raft_state \<times> budget_reply" where
  "apply_entry dg (a, m, l) e =
     (if (case a of Some previous \<Rightarrow> li_index (en_log_id e) \<noteq> saturating_add (li_index previous) 1 | None \<Rightarrow> False)
      then Err [''would apply a non-consecutive Raft log'']
      else case en_payload e of
        P_Blank \<Rightarrow> Ok ((Some (en_log_id e), m, l), Rejected Rej_InvalidConfig)
      | P_Normal command \<Rightarrow>
          (case ledger_apply dg l (li_term (en_log_id e)) (li_index (en_log_id e)) command of
             (l', reply) \<Rightarrow> Ok ((Some (en_log_id e), m, l'), reply))
      | P_Membership config \<Rightarrow>
          Ok ((Some (en_log_id e), \<lparr>sm_log_id = Some (en_log_id e), sm_membership = config\<rparr>, l),
              Rejected Rej_InvalidConfig))"

fun apply_entries ::
    "(bytes \<Rightarrow> string) \<Rightarrow> raft_state \<Rightarrow> raft_entry list \<Rightarrow> anyhow + raft_state \<times> budget_reply list" where
  "apply_entries dg s [] = Ok (s, [])"
| "apply_entries dg s (e # es) =
     and_then (apply_entry dg s e) (\<lambda>(s1, r).
     and_then (apply_entries dg s1 es) (\<lambda>(s2, rs). Ok (s2, r # rs)))"

definition apply_batch ::
    "(bytes \<Rightarrow> string) \<Rightarrow> 'b store_json \<Rightarrow> raft_entry list \<Rightarrow> 'b raft_tables \<Rightarrow> 'b raft_tables \<times> (anyhow + budget_reply list)" where
  "apply_batch dg J es = transact (\<lambda>t.
     and_then (load_state dg J t) (\<lambda>s.
     and_then (apply_entries dg s es) (\<lambda>(s', replies).
     and_then (checked_ledger dg ''committed budget ledger transition violates invariants'' (snd (snd s'))) (\<lambda>_.
     and_then (save_state J s' t) (\<lambda>t'. Ok (t', replies))))))"

section \<open>Snapshots\<close>

definition install_snapshot ::
    "(bytes \<Rightarrow> string) \<Rightarrow> 'b store_json \<Rightarrow> snapshot_meta \<Rightarrow> 'b \<Rightarrow> 'b raft_tables \<Rightarrow> 'b raft_tables \<times> (anyhow + unit)" where
  "install_snapshot dg J meta blob = transact (\<lambda>t.
     if j_size J blob > MAX_BUDGET_SNAPSHOT_BYTES then Err [''received budget raft snapshot exceeds byte bound'']
     else and_then (context_msg ''decode budget raft snapshot'' (u_state J blob)) (\<lambda>(a, m, l).
       if a \<noteq> mt_last_log_id meta \<or> m \<noteq> mt_last_membership meta
       then Err [''budget raft snapshot metadata does not match state'']
       else and_then (checked_ledger dg ''budget raft snapshot violates recovery invariants'' l) (\<lambda>_.
            and_then (validate_membership (bl_config l) a m) (\<lambda>_.
            and_then (load_state dg J t) (\<lambda>(_, _, current).
              if bl_config l \<noteq> bl_config current
              then Err [''budget raft snapshot frozen configuration does not match this store'']
              else and_then (save_state J (a, m, l) t) (\<lambda>t'.
                     Ok (t'\<lparr>tb_snapshot := Some (j_meta J meta, blob)\<rparr>, ())))))))"

definition get_current_snapshot ::
    "(bytes \<Rightarrow> string) \<Rightarrow> 'b store_json \<Rightarrow> 'b raft_tables \<Rightarrow> anyhow + (snapshot_meta \<times> 'b) option" where
  "get_current_snapshot dg J t =
     opt_transpose (\<lambda>(metadata, blob).
       if j_size J blob > MAX_BUDGET_SNAPSHOT_BYTES then Err [''persisted budget raft snapshot exceeds byte bound'']
       else and_then (u_meta J metadata) (\<lambda>meta.
            and_then (u_state J blob) (\<lambda>(a, m, l).
            and_then (load_state dg J t) (\<lambda>(_, _, current).
            and_then (checked_ledger dg ''persisted budget raft snapshot violates recovery invariants'' l) (\<lambda>_.
            and_then (validate_membership (bl_config l) a m) (\<lambda>_.
              if a \<noteq> mt_last_log_id meta \<or> m \<noteq> mt_last_membership meta \<or> bl_config l \<noteq> bl_config current
              then Err [''persisted budget raft snapshot does not match durable metadata/configuration'']
              else Ok (meta, blob))))))) (tb_snapshot t)"

definition snapshot_id_of :: "log_id option \<Rightarrow> string" where
  "snapshot_id_of a = (case a of
     Some lid \<Rightarrow> ''budget-'' @ nat_dec (unat (li_term lid)) @ ''-'' @ nat_dec (unat (li_index lid))
   | None \<Rightarrow> ''budget-empty'')"

definition build_snapshot ::
    "(bytes \<Rightarrow> string) \<Rightarrow> 'b store_json \<Rightarrow> 'b raft_tables \<Rightarrow> 'b raft_tables \<times> (anyhow + snapshot_meta \<times> 'b)" where
  "build_snapshot dg J = transact (\<lambda>t.
     and_then (load_state dg J t) (\<lambda>(a, m, l).
       let blob = j_state J (a, m, l)
       in if j_size J blob > MAX_BUDGET_SNAPSHOT_BYTES then Err [''built budget raft snapshot exceeds byte bound'']
          else let meta = \<lparr>mt_last_log_id = a, mt_last_membership = m, mt_snapshot_id = snapshot_id_of a\<rparr>
               in Ok (t\<lparr>tb_snapshot := Some (j_meta J meta, blob)\<rparr>, (meta, blob))))"

section \<open>Lemmas on results\<close>

lemma and_then_Ok [simp]: "and_then r f = Ok y \<longleftrightarrow> (\<exists>x. r = Ok x \<and> f x = Ok y)"
  by (cases r) (simp_all add: and_then_def)

lemma and_then_simps [simp]: "and_then (Ok x) f = f x" "and_then (Err e) f = Err e"
  by (simp_all add: and_then_def)

lemma transact_Ok: "transact f t = (t', Ok x) \<longleftrightarrow> f t = Ok (t', x)"
  by (auto simp: transact_def split: sum.splits prod.splits)

lemma transact_Err: "transact f t = (t', Err e) \<Longrightarrow> t' = t"
  by (auto simp: transact_def split: sum.splits prod.splits)

lemma checked_ledger_Ok [simp]: "checked_ledger dg msg l = Ok () \<longleftrightarrow> is_ok (ledger_validate dg l)"
  by (auto simp: checked_ledger_def split: sum.splits)

lemma opt_transpose_Some [simp]: "opt_transpose f (Some v) = and_then (f v) (\<lambda>y. Ok (Some y))"
  and opt_transpose_None [simp]: "opt_transpose f None = Ok None"
  by (simp_all add: opt_transpose_def)

lemma json_rt:
  assumes "json_ok J"
  shows "u_config J (j_config J c) = Ok c" "u_ledger J (j_ledger J l) = Ok l" "u_log_id J (j_log_id J i) = Ok i"
    "u_membership J (j_membership J m) = Ok m" "u_entry J (j_entry J e) = Ok e" "u_vote J (j_vote J v) = Ok v"
    "u_meta J (j_meta J mt) = Ok mt"
    "btree_ok (bl_grants l) \<Longrightarrow> u_state J (j_state J (a, m, l)) = Ok (a, m, l)"
  using assms by (simp_all add: json_ok_def)

section \<open>The state a store holds\<close>

fun holds :: "(bytes \<Rightarrow> string) \<Rightarrow> 'b store_json \<Rightarrow> budget_cluster_config \<Rightarrow> 'b raft_tables \<Rightarrow> raft_state \<Rightarrow> bool" where
  "holds dg J c t (a, m, l) \<longleftrightarrow> tb_config t = Some (j_config J c)
     \<and> tb_state t = Some (map_option (j_log_id J) a, j_membership J m, j_ledger J l)
     \<and> ledger_ok dg l \<and> bl_config l = c \<and> validate_membership c a m = Ok ()"

lemma holds_load:
  assumes "json_ok J" "holds dg J c t s"
  shows "load_state dg J t = Ok s"
proof -
  obtain a m l where s: "s = (a, m, l)" by (cases s)
  have "opt_transpose (u_log_id J) (map_option (j_log_id J) a) = Ok a"
    using json_rt(3) [OF assms(1)] by (cases a) simp_all
  then show ?thesis using assms(2) json_rt [OF assms(1)]
    by (auto simp: s load_state_def ledger_ok_def)
qed

lemma holds_save:
  assumes "holds dg J c t s" "ledger_ok dg l" "bl_config l = c" "save_state J (a, m, l) t = Ok t'"
  shows "holds dg J c t' (a, m, l) \<and> t' = t\<lparr>tb_state := tb_state t'\<rparr>"
  using assms by (cases s) (auto simp: save_state_def)

fun commands :: "raft_entry list \<Rightarrow> committed_entry list" where
  "commands [] = []"
| "commands (e # es) = (case en_payload e of
     P_Normal cmd \<Rightarrow> [(li_term (en_log_id e), li_index (en_log_id e), cmd)] | _ \<Rightarrow> []) @ commands es"

fun command_replies :: "raft_entry list \<Rightarrow> budget_reply list \<Rightarrow> budget_reply list" where
  "command_replies (e # es) (r # rs) =
     (case en_payload e of P_Normal _ \<Rightarrow> [r] | _ \<Rightarrow> []) @ command_replies es rs"
| "command_replies _ _ = []"

lemma apply_entries_run:
  assumes "apply_entries dg (a, m, l) es = Ok ((a', m', l'), rs)"
  shows "ledger_run dg l (commands es) = (l', command_replies es rs) \<and> length rs = length es"
  using assms
proof (induction es arbitrary: a m l rs)
  case (Cons e es)
  obtain a1 m1 l1 r rs1 where 1: "apply_entry dg (a, m, l) e = Ok ((a1, m1, l1), r)"
    and 2: "apply_entries dg (a1, m1, l1) es = Ok ((a', m', l'), rs1)" and rs: "rs = r # rs1"
    using Cons.prems by (auto split: prod.splits)
  have "ledger_run dg l1 (commands es) = (l', command_replies es rs1)" "length rs1 = length es"
    using Cons.IH [OF 2] by simp_all
  with 1 rs show ?case
    by (auto split: if_splits entry_payload.splits prod.splits)
qed simp

lemma apply_entries_append:
  "apply_entries dg s (xs @ ys) = and_then (apply_entries dg s xs) (\<lambda>(s1, rs1).
     and_then (apply_entries dg s1 ys) (\<lambda>(s2, rs2). Ok (s2, rs1 @ rs2)))"
proof (induction xs arbitrary: s)
  case Nil
  show ?case by (cases "apply_entries dg s ys") (auto simp: and_then_def)
next
  case (Cons x xs)
  then show ?case by (auto simp: and_then_def split: sum.splits prod.splits)
qed

lemma apply_batch_Ok:
  assumes J: "json_ok J" and h: "holds dg J c t (a, m, l)"
  shows "apply_batch dg J es t = (t', Ok rs) \<longleftrightarrow> (\<exists>a' m' l'. apply_entries dg (a, m, l) es = Ok ((a', m', l'), rs)
     \<and> save_state J (a', m', l') t = Ok t')" (is "_ \<longleftrightarrow> ?R")
proof
  show "?R" if "apply_batch dg J es t = (t', Ok rs)"
    using that holds_load [OF J h] by (auto simp: apply_batch_def transact_Ok)
next
  assume ?R
  then obtain a' m' l' where r: "apply_entries dg (a, m, l) es = Ok ((a', m', l'), rs)" "save_state J (a', m', l') t = Ok t'"
    by blast
  have "ledger_ok dg l'" using run_props apply_entries_run [OF r(1)] h by auto
  with r holds_load [OF J h] show "apply_batch dg J es t = (t', Ok rs)"
    by (auto simp: apply_batch_def transact_Ok ledger_ok_def)
qed

lemma apply_batch_holds:
  assumes J: "json_ok J" and h: "holds dg J c t (a, m, l)" and b: "apply_batch dg J es t = (t', Ok rs)"
  obtains a' m' where "holds dg J c t' (a', m', fst (ledger_run dg l (commands es)))"
    "apply_entries dg (a, m, l) es = Ok ((a', m', fst (ledger_run dg l (commands es))), rs)"
    "snd (ledger_run dg l (commands es)) = command_replies es rs" "t' = t\<lparr>tb_state := tb_state t'\<rparr>"
proof -
  obtain a' m' l' where r: "apply_entries dg (a, m, l) es = Ok ((a', m', l'), rs)" "save_state J (a', m', l') t = Ok t'"
    using b apply_batch_Ok [OF J h] by blast
  have run: "ledger_run dg l (commands es) = (l', command_replies es rs)" using apply_entries_run [OF r(1)] by simp
  have "ledger_ok dg l' \<and> bl_config l' = c" using run_props [OF _ run] h by (auto simp: ledger_le_def)
  then have "holds dg J c t' (a', m', l') \<and> t' = t\<lparr>tb_state := tb_state t'\<rparr>" using holds_save [OF h _ _ r(2)] by blast
  then show thesis using that [of a' m'] r(1) run by (metis fst_conv snd_conv)
qed

declare holds.simps [simp del]

end
