(* ===== verification/Budget_Durable.thy ===== *)
theory Budget_Durable
  imports Budget_Store
begin

text \<open>
  Executions of the budget store: any sequence of votes, commits, appends, truncations,
  purges, applied batches and snapshots, successful or refused, from a freshly opened store.
  The invariant says which applied state, which snapshot and which window of the log the
  tables hold; the properties derive recovery after a restart and a log without holes.
\<close>

section \<open>The log window\<close>

definition log_base :: "'b store_json \<Rightarrow> 'b raft_tables \<Rightarrow> nat" where
  "log_base J t = (case tb_purged t of
     None \<Rightarrow> 0
   | Some b \<Rightarrow> (case u_log_id J b of Inl _ \<Rightarrow> 0 | Inr p \<Rightarrow> Suc (unat (li_index p))))"

definition row_ok :: "'b store_json \<Rightarrow> nat \<times> u64 \<times> 'b \<Rightarrow> bool" where
  "row_ok J r \<longleftrightarrow> (\<exists>e. snd (snd r) = j_entry J e \<and> unat (li_index (en_log_id e)) = fst r
     \<and> fst (snd r) = li_term (en_log_id e))"

definition log_ok :: "'b store_json \<Rightarrow> 'b raft_tables \<Rightarrow> bool" where
  "log_ok J t \<longleftrightarrow> (\<forall>b. tb_purged t = Some b \<longrightarrow> (\<exists>p. b = j_log_id J p)) \<and> btree_ok (tb_log t)
     \<and> (\<exists>n. fst ` set (tb_log t) = {log_base J t..<log_base J t + n}) \<and> (\<forall>r \<in> set (tb_log t). row_ok J r)"

lemma log_base_simps [simp]:
  "log_base J (t\<lparr>tb_log := x\<rparr>) = log_base J t" "log_base J (t\<lparr>tb_state := y\<rparr>) = log_base J t"
  "log_base J (t\<lparr>tb_snapshot := z\<rparr>) = log_base J t" "log_base J (t\<lparr>tb_vote := v\<rparr>) = log_base J t"
  "log_base J (t\<lparr>tb_committed := v\<rparr>) = log_base J t"
  by (simp_all add: log_base_def)

lemma log_ok_simps [simp]:
  "log_ok J (t\<lparr>tb_state := y\<rparr>) = log_ok J t" "log_ok J (t\<lparr>tb_snapshot := z\<rparr>) = log_ok J t"
  "log_ok J (t\<lparr>tb_vote := v\<rparr>) = log_ok J t" "log_ok J (t\<lparr>tb_committed := v\<rparr>) = log_ok J t"
  by (simp_all add: log_ok_def)

lemma btree_insert_subset: "set (btree_insert k v m) \<subseteq> insert (k, v) (set m)"
  by (induction k v m rule: btree_insert.induct) auto

lemma log_ok_insert:
  assumes "log_ok J t" and "fst ` set (tb_log t) = {log_base J t..<log_base J t + n}"
    and "log_base J t \<le> i" "i \<le> log_base J t + n" and "row_ok J (i, tm, b)"
  shows "log_ok J (t\<lparr>tb_log := btree_insert i (tm, b) (tb_log t)\<rparr>)
    \<and> (\<exists>k. fst ` set (btree_insert i (tm, b) (tb_log t)) = {log_base J t..<log_base J t + k} \<and> i < log_base J t + k)"
proof -
  have "insert i {log_base J t..<log_base J t + n} = {log_base J t..<log_base J t + (if i = log_base J t + n then Suc n else n)}"
    using assms(3,4) by (auto simp: not_less)
  then have "\<exists>k. fst ` set (btree_insert i (tm, b) (tb_log t)) = {log_base J t..<log_base J t + k} \<and> i < log_base J t + k"
    using assms(2-4) set_btree_insert [of i "(tm, b)" "tb_log t"]
    by (intro exI [of _ "if i = log_base J t + n then Suc n else n"]) auto
  moreover have "\<forall>r \<in> set (btree_insert i (tm, b) (tb_log t)). row_ok J r"
    using assms(1,5) btree_insert_subset [of i "(tm, b)" "tb_log t"] by (auto simp: log_ok_def)
  ultimately show ?thesis
    using assms(1) by (auto simp: log_ok_def btree_ok_insert)
qed

text \<open>The id before the next appended entry: the last row, or the purged id, or nothing.\<close>

definition previous_ok :: "'b store_json \<Rightarrow> 'b raft_tables \<Rightarrow> log_id option \<Rightarrow> bool" where
  "previous_ok J t prev \<longleftrightarrow> (case prev of
     None \<Rightarrow> tb_log t = [] \<and> tb_purged t = None
   | Some pv \<Rightarrow> unat (li_index pv) \<in> fst ` set (tb_log t) \<or> (tb_log t = [] \<and> tb_purged t = Some (j_log_id J pv)))"

definition keeps :: "'b raft_tables \<Rightarrow> 'b raft_tables \<Rightarrow> bool" where
  "keeps t t' \<longleftrightarrow> tb_config t' = tb_config t \<and> tb_state t' = tb_state t \<and> tb_snapshot t' = tb_snapshot t"

lemma keeps_simps [simp]: "keeps t t" "keeps t (t\<lparr>tb_log := x\<rparr>)" "keeps (t\<lparr>tb_log := x\<rparr>) u = keeps t u"
    "keeps t (t\<lparr>tb_purged := y, tb_log := x\<rparr>)"
  by (simp_all add: keeps_def)

lemma sql_index_Ok: "sql_index i = Ok k \<longleftrightarrow> k = unat i \<and> is_i64 (uint i)"
  by (auto simp: sql_index_def)

lemma append_rows_ok:
  assumes J: "json_ok J" and "log_ok J t" and "previous_ok J t prev"
    and purged: "read_meta (u_log_id J) (tb_purged t) = Ok purged"
    and "append_check purged prev es = Ok ()" and "append_rows J es t = Ok t'"
    and start: "es \<noteq> [] \<Longrightarrow> prev = None \<Longrightarrow> li_index (en_log_id (hd es)) = 0"
  shows "log_ok J t' \<and> keeps t t'"
  using assms(2-)
proof (induction es arbitrary: t prev)
  case Nil
  then show ?case by simp
next
  case (Cons e es)
  let ?i = "li_index (en_log_id e)"
  obtain n where n: "fst ` set (tb_log t) = {log_base J t..<log_base J t + n}" using Cons.prems(1) by (auto simp: log_ok_def)
  have lo: "log_base J t \<le> unat ?i"
    using Cons.prems(1,3,4) json_rt(3) [OF J]
    by (auto simp: log_base_def log_ok_def read_meta_def word_le_nat_alt split: option.splits if_splits)
  have hi: "unat ?i \<le> log_base J t + n"
  proof (cases prev)
    case None
    then show ?thesis using Cons.prems(6) by simp
  next
    case (Some pv)
    then have "unat ?i \<le> Suc (unat (li_index pv))"
      using Cons.prems(4) by (auto simp: word_less_nat_alt not_less unat_saturating_add split: if_splits option.splits)
    moreover have "Suc (unat (li_index pv)) \<le> log_base J t + n"
    proof (cases "unat (li_index pv) \<in> fst ` set (tb_log t)")
      case True
      then show ?thesis using n by auto
    next
      case False
      then have "tb_purged t = Some (j_log_id J pv)" using Cons.prems(2) Some by (auto simp: previous_ok_def)
      then show ?thesis using json_rt(3) [OF J] by (simp add: log_base_def)
    qed
    ultimately show ?thesis by simp
  qed
  let ?t = "t\<lparr>tb_log := btree_insert (unat ?i) (li_term (en_log_id e), j_entry J e) (tb_log t)\<rparr>"
  have "row_ok J (unat ?i, li_term (en_log_id e), j_entry J e)" by (auto simp: row_ok_def)
  then have ok: "log_ok J ?t" using log_ok_insert [OF Cons.prems(1) n lo hi] by blast
  have mem: "unat ?i \<in> fst ` set (tb_log ?t)" by (simp add: set_btree_insert)
  have "append_rows J es ?t = Ok t'" using Cons.prems(5) by (auto simp: sql_index_Ok)
  moreover have "append_check purged (Some (en_log_id e)) es = Ok ()" using Cons.prems(4) by (auto split: if_splits)
  moreover have "previous_ok J ?t (Some (en_log_id e))" using mem by (simp add: previous_ok_def)
  ultimately have "log_ok J t' \<and> keeps ?t t'"
    using Cons.IH [OF ok, of "Some (en_log_id e)"] Cons.prems(3) by simp
  then show ?case by simp
qed

lemma last_log_id_previous:
  assumes J: "json_ok J" and "log_ok J t" "read_meta (u_log_id J) (tb_purged t) = Ok purged"
    and l: "last_log_id J purged t = Ok prev"
  shows "previous_ok J t prev"
proof (cases "tb_log t = []")
  case True
  then show ?thesis using assms json_rt(3) [OF J]
    by (cases "tb_purged t") (auto simp: previous_ok_def last_log_id_def read_meta_def log_ok_def)
next
  case False
  then obtain e where e: "snd (snd (last (tb_log t))) = j_entry J e" "unat (li_index (en_log_id e)) = fst (last (tb_log t))"
    using assms(2) by (auto simp: log_ok_def row_ok_def dest!: bspec [OF _ last_in_set])
  then have "prev = Some (en_log_id e)"
    using l False json_rt(5) [OF J] by (auto simp: last_log_id_def)
  then show ?thesis using False e(2) last_in_set [OF False] by (auto simp: previous_ok_def)
qed

lemma append_log_ok:
  assumes J: "json_ok J" and ok: "log_ok J t" and a: "append_log J es t = (t', r)"
    and start: "es \<noteq> [] \<Longrightarrow> tb_log t = [] \<Longrightarrow> tb_purged t = None \<Longrightarrow> li_index (en_log_id (hd es)) = 0"
  shows "log_ok J t' \<and> keeps t t'"
proof (cases r)
  case (Inl e)
  then show ?thesis using a ok transact_Err by (fastforce simp: append_log_def)
next
  case (Inr u)
  then obtain purged prev where p: "read_meta (u_log_id J) (tb_purged t) = Ok purged"
      "last_log_id J purged t = Ok prev" "append_check purged prev es = Ok ()" "append_rows J es t = Ok t'"
    using a by (auto simp: append_log_def transact_Ok)
  note prev = last_log_id_previous [OF J ok p(1,2)]
  show ?thesis
  proof (rule append_rows_ok [OF J ok prev p(1,3,4)])
    show "li_index (en_log_id (hd es)) = 0" if "es \<noteq> []" "prev = None"
      using start that prev by (simp add: previous_ok_def)
  qed
qed

lemma filter_keys:
  "fst ` set (filter (\<lambda>r. \<not> i \<le> fst r) m) = {k \<in> fst ` set m. \<not> i \<le> k}"
  "fst ` set (filter (\<lambda>r. \<not> fst r \<le> i) m) = {k \<in> fst ` set m. \<not> k \<le> i}"
  for i :: nat
  by auto

lemma truncate_log_ok:
  assumes "log_ok J t" and "truncate_log dg J lid t = (t', r)"
  shows "log_ok J t' \<and> keeps t t'"
proof (cases r)
  case (Inl e)
  then show ?thesis using assms transact_Err by (fastforce simp: truncate_log_def)
next
  case (Inr u)
  then have t': "t' = t\<lparr>tb_log := filter (\<lambda>r. \<not> unat (li_index lid) \<le> fst r) (tb_log t)\<rparr>"
    using assms(2) by (auto simp: truncate_log_def transact_Ok sql_index_Ok split: if_splits)
  obtain n where n: "fst ` set (tb_log t) = {log_base J t..<log_base J t + n}" using assms(1) by (auto simp: log_ok_def)
  have "{k \<in> {log_base J t..<log_base J t + n}. \<not> unat (li_index lid) \<le> k}
      = {log_base J t..<log_base J t + min n (unat (li_index lid) - log_base J t)}" by auto
  then have "\<exists>k. fst ` set (filter (\<lambda>r. \<not> unat (li_index lid) \<le> fst r) (tb_log t)) = {log_base J t..<log_base J t + k}"
    by (intro exI) (simp only: filter_keys n)
  then have "log_ok J t'"
    using assms(1) unfolding log_ok_def t' by (simp add: btree_ok_filter)
  then show ?thesis by (simp add: t')
qed

lemma purge_log_ok:
  assumes J: "json_ok J" and ok: "log_ok J t" and "purge_log dg J lid t = (t', r)"
  shows "log_ok J t' \<and> keeps t t'"
proof (cases r)
  case (Inl e)
  then show ?thesis using assms transact_Err by (fastforce simp: purge_log_def)
next
  case (Inr u)
  let ?i = "unat (li_index lid)"
  obtain old where old: "read_meta (u_log_id J) (tb_purged t) = Ok old"
      "\<not> (case old of Some previous \<Rightarrow> li_index previous > li_index lid | None \<Rightarrow> False)"
    and t': "t' = t\<lparr>tb_purged := Some (j_log_id J lid), tb_log := filter (\<lambda>r. \<not> fst r \<le> ?i) (tb_log t)\<rparr>"
    using assms(3) Inr by (auto simp: purge_log_def transact_Ok sql_index_Ok split: if_splits)
  have base: "log_base J t \<le> Suc ?i"
    using old ok json_rt(3) [OF J]
    by (auto simp: log_base_def log_ok_def read_meta_def word_less_nat_alt not_less split: option.splits)
  have base': "log_base J t' = Suc ?i" using t' json_rt(3) [OF J] by (simp add: log_base_def)
  obtain n where n: "fst ` set (tb_log t) = {log_base J t..<log_base J t + n}" using ok by (auto simp: log_ok_def)
  have "{k \<in> {log_base J t..<log_base J t + n}. \<not> k \<le> ?i} = {Suc ?i..<Suc ?i + (log_base J t + n - Suc ?i)}"
    using base by auto
  then have "\<exists>k. fst ` set (filter (\<lambda>r. \<not> fst r \<le> ?i) (tb_log t)) = {log_base J t'..<log_base J t' + k}"
    by (intro exI) (simp only: filter_keys n base')
  moreover have "tb_log t' = filter (\<lambda>r. \<not> fst r \<le> ?i) (tb_log t)" "tb_purged t' = Some (j_log_id J lid)"
    by (simp_all add: t')
  ultimately have "log_ok J t'" using ok unfolding log_ok_def by (simp add: btree_ok_filter) blast
  then show ?thesis by (simp add: t')
qed

section \<open>The invariant\<close>

fun snapshot_ok :: "(bytes \<Rightarrow> string) \<Rightarrow> 'b store_json \<Rightarrow> budget_cluster_config \<Rightarrow> ('b \<times> 'b) option \<Rightarrow> bool" where
  "snapshot_ok dg J c None = True"
| "snapshot_ok dg J c (Some (md, blob)) \<longleftrightarrow> j_size J blob \<le> MAX_BUDGET_SNAPSHOT_BYTES \<and>
     (\<exists>meta l. md = j_meta J meta \<and> u_state J blob = Ok (mt_last_log_id meta, mt_last_membership meta, l)
        \<and> is_ok (ledger_validate dg l) \<and> bl_config l = c
        \<and> validate_membership c (mt_last_log_id meta) (mt_last_membership meta) = Ok ())"

definition store_inv :: "(bytes \<Rightarrow> string) \<Rightarrow> 'b store_json \<Rightarrow> budget_cluster_config \<Rightarrow> 'b raft_tables \<Rightarrow> bool" where
  "store_inv dg J c t \<longleftrightarrow> (\<exists>s. holds dg J c t s) \<and> snapshot_ok dg J c (tb_snapshot t) \<and> log_ok J t"

inductive store_step :: "(bytes \<Rightarrow> string) \<Rightarrow> 'b store_json \<Rightarrow> 'b raft_tables \<Rightarrow> 'b raft_tables \<Rightarrow> bool" for dg J where
  st_vote: "store_step dg J t (fst (save_vote J v t))"
| st_committed: "store_step dg J t (fst (save_committed J c t))"
| st_append: "(es \<noteq> [] \<longrightarrow> tb_log t = [] \<longrightarrow> tb_purged t = None \<longrightarrow> li_index (en_log_id (hd es)) = 0)
    \<Longrightarrow> store_step dg J t (fst (append_log J es t))"
| st_truncate: "store_step dg J t (fst (truncate_log dg J lid t))"
| st_purge: "store_step dg J t (fst (purge_log dg J lid t))"
| st_apply: "store_step dg J t (fst (apply_batch dg J es t))"
| st_install: "store_step dg J t (fst (install_snapshot dg J meta blob t))"
| st_build: "store_step dg J t (fst (build_snapshot dg J t))"
| st_open: "store_step dg J t (fst (open_store dg J initial t))"

definition empty_tables :: "'b raft_tables" where
  "empty_tables = \<lparr>tb_config = None, tb_vote = None, tb_committed = None, tb_purged = None, tb_log = [],
     tb_state = None, tb_snapshot = None, tb_legacy_values = False\<rparr>"

definition store_init :: "(bytes \<Rightarrow> string) \<Rightarrow> 'b store_json \<Rightarrow> budget_cluster_config \<Rightarrow> 'b raft_tables \<Rightarrow> bool" where
  "store_init dg J c t \<longleftrightarrow>
     (\<exists>initial. ledger_new dg c = Ok initial \<and> open_store dg J initial empty_tables = (t, Ok ()))"

lemma holds_frame:
  "tb_config u = tb_config t \<Longrightarrow> tb_state u = tb_state t \<Longrightarrow> holds dg J c u s = holds dg J c t s"
  by (cases s) (simp add: holds.simps)

lemma store_inv_frame:
  assumes "store_inv dg J c t" "keeps t u" "log_ok J u"
  shows "store_inv dg J c u"
  using assms holds_frame [of u t] by (auto simp: store_inv_def keeps_def)

lemma inv_open:
  assumes "store_inv dg J c t"
  shows "fst (open_store dg J initial t) = t"
proof -
  obtain s where "holds dg J c t s" using assms by (auto simp: store_inv_def)
  then have "tb_config t = Some (j_config J c)" by (cases s) (simp add: holds.simps)
  then show ?thesis by (simp add: open_store_def split: sum.splits)
qed

lemma inv_apply:
  assumes J: "json_ok J" and "store_inv dg J c t"
  shows "store_inv dg J c (fst (apply_batch dg J es t))"
proof -
  obtain a m l where h: "holds dg J c t (a, m, l)" using assms(2) by (auto simp: store_inv_def)
  obtain t' r where b: "apply_batch dg J es t = (t', r)" by fastforce
  show ?thesis
  proof (cases r)
    case (Inl e)
    then have "t' = t" using b transact_Err by (fastforce simp: apply_batch_def)
    then show ?thesis using b assms(2) by simp
  next
    case (Inr rs)
    then obtain a' m' where "holds dg J c t' (a', m', fst (ledger_run dg l (commands es)))"
      "t' = t\<lparr>tb_state := tb_state t'\<rparr>" using apply_batch_holds [OF J h, of es t' rs] b by blast
    moreover have "log_ok J (t\<lparr>tb_state := tb_state t'\<rparr>)" "tb_snapshot (t\<lparr>tb_state := tb_state t'\<rparr>) = tb_snapshot t"
      using assms(2) by (simp_all add: store_inv_def)
    ultimately have "log_ok J t'" "tb_snapshot t' = tb_snapshot t" by metis+
    moreover note \<open>holds dg J c t' _\<close>
    ultimately show ?thesis using b assms(2) by (auto simp: store_inv_def)
  qed
qed

lemma load_holds_config:
  assumes "json_ok J" "holds dg J c t s" "load_state dg J t = Ok (a, m, l)"
  shows "s = (a, m, l) \<and> bl_config l = c \<and> ledger_ok dg l \<and> validate_membership c a m = Ok ()"
proof -
  have "s = (a, m, l)" using holds_load [OF assms(1,2)] assms(3) by simp
  then show ?thesis using assms(2) by (simp add: holds.simps)
qed

lemma inv_install:
  assumes J: "json_ok J" and inv: "store_inv dg J c t"
  shows "store_inv dg J c (fst (install_snapshot dg J meta blob t))"
proof -
  obtain s where h: "holds dg J c t s" using inv by (auto simp: store_inv_def)
  obtain t' r where b: "install_snapshot dg J meta blob t = (t', r)" by fastforce
  show ?thesis
  proof (cases r)
    case (Inl e)
    then have "t' = t" using b transact_Err by (fastforce simp: install_snapshot_def)
    then show ?thesis using b inv by simp
  next
    case (Inr u)
    then obtain a m l a0 m0 l0 t1 where u: "j_size J blob \<le> MAX_BUDGET_SNAPSHOT_BYTES" "u_state J blob = Ok (a, m, l)"
      "a = mt_last_log_id meta" "m = mt_last_membership meta" "is_ok (ledger_validate dg l)"
      "validate_membership (bl_config l) a m = Ok ()" "load_state dg J t = Ok (a0, m0, l0)" "bl_config l = bl_config l0"
      "save_state J (a, m, l) t = Ok t1" "t' = t1\<lparr>tb_snapshot := Some (j_meta J meta, blob)\<rparr>"
      using b by (auto simp: install_snapshot_def transact_Ok split: if_splits)
    have c: "bl_config l = c" using load_holds_config [OF J h u(7)] u(8) by simp
    have "ledger_ok dg l" using J u(2,5) by (auto simp: json_ok_def ledger_ok_def)
    from holds_save [OF h this c u(9)] have h1: "holds dg J c t1 (a, m, l)" "t1 = t\<lparr>tb_state := tb_state t1\<rparr>" by simp_all
    have "log_ok J (t\<lparr>tb_state := tb_state t1\<rparr>)" using inv by (simp add: store_inv_def)
    then have "log_ok J t'" using h1(2) u(10) log_ok_simps(2) by metis
    moreover have "snapshot_ok dg J c (Some (j_meta J meta, blob))" using u c by auto
    moreover have "holds dg J c t' (a, m, l)" using h1(1) holds_frame [of t' t1] by (simp add: u(10))
    moreover have "tb_snapshot t' = Some (j_meta J meta, blob)" by (simp add: u(10))
    ultimately show ?thesis using b unfolding store_inv_def by auto
  qed
qed

lemma inv_build:
  assumes J: "json_ok J" and inv: "store_inv dg J c t"
  shows "store_inv dg J c (fst (build_snapshot dg J t))"
proof -
  obtain s where h: "holds dg J c t s" using inv by (auto simp: store_inv_def)
  obtain a m l where s: "s = (a, m, l)" by (cases s)
  have ld: "load_state dg J t = Ok (a, m, l)" using holds_load [OF J h] s by simp
  note k = load_holds_config [OF J h ld]
  have rt: "u_state J (j_state J (a, m, l)) = Ok (a, m, l)" using k by (intro json_rt(8) [OF J]) (simp add: ledger_ok_def)
  then have "snapshot_ok dg J c (tb_snapshot (fst (build_snapshot dg J t)))"
    using inv ld k by (auto simp: build_snapshot_def transact_def Let_def store_inv_def ledger_ok_def
        intro!: exI [of _ "\<lparr>mt_last_log_id = a, mt_last_membership = m, mt_snapshot_id = snapshot_id_of a\<rparr>"])
  moreover have "tb_config (fst (build_snapshot dg J t)) = tb_config t" "tb_state (fst (build_snapshot dg J t)) = tb_state t"
      "log_ok J (fst (build_snapshot dg J t))"
    using ld inv by (auto simp: build_snapshot_def transact_def Let_def store_inv_def)
  ultimately show ?thesis unfolding store_inv_def using h holds_frame [of "fst (build_snapshot dg J t)" t] by blast
qed

lemma store_inv_step:
  assumes J: "json_ok J" and inv: "store_inv dg J c t" and "store_step dg J t u"
  shows "store_inv dg J c u"
  using assms(3)
proof cases
  case (st_vote v)
  then show ?thesis using inv by (intro store_inv_frame [OF inv]) (simp_all add: save_vote_def store_inv_def keeps_def)
next
  case (st_committed k)
  then show ?thesis using inv by (intro store_inv_frame [OF inv]) (simp_all add: save_committed_def store_inv_def keeps_def)
next
  case (st_append es)
  have "log_ok J u \<and> keeps t u"
    using append_log_ok [OF J, of t es u "snd (append_log J es t)"] inv st_append by (simp add: store_inv_def)
  then show ?thesis by (intro store_inv_frame [OF inv]) simp_all
next
  case (st_truncate lid)
  have "log_ok J u \<and> keeps t u"
    using truncate_log_ok [of J t dg lid u "snd (truncate_log dg J lid t)"] inv st_truncate by (simp add: store_inv_def)
  then show ?thesis by (intro store_inv_frame [OF inv]) simp_all
next
  case (st_purge lid)
  have "log_ok J u \<and> keeps t u"
    using purge_log_ok [OF J, of t dg lid u "snd (purge_log dg J lid t)"] inv st_purge by (simp add: store_inv_def)
  then show ?thesis by (intro store_inv_frame [OF inv]) simp_all
next
  case (st_open initial)
  then show ?thesis using inv_open [OF inv] inv by simp
qed (use inv_apply [OF J inv] inv_install [OF J inv] inv_build [OF J inv] in simp_all)

lemma validate_pristine: "validate_membership c None pristine_membership = Ok ()"
  by (simp add: validate_membership_def pristine_membership_def)

lemma store_inv_init:
  assumes "store_init dg J c t"
  shows "store_inv dg J c t"
proof -
  obtain initial where i: "ledger_new dg c = Ok initial" "open_store dg J initial empty_tables = (t, Ok ())"
    using assms by (auto simp: store_init_def)
  have "ledger_ok dg initial" "bl_config initial = c" using ledger_new_ok [OF i(1)] by simp_all
  then have "holds dg J c t (None, pristine_membership, initial)"
    using i(2) validate_pristine by (auto simp: open_store_def empty_tables_def holds.simps split: sum.splits)
  moreover have "tb_snapshot t = None" "tb_log t = []" "tb_purged t = None"
    using i(2) by (auto simp: open_store_def empty_tables_def split: sum.splits)
  moreover have "log_ok J t" using calculation(3,4) by (auto simp: log_ok_def intro!: exI [of _ 0])
  ultimately show ?thesis unfolding store_inv_def by auto
qed

interpretation store: invariant_system "store_init dg J c" "store_step dg J" "\<lambda>t. json_ok J \<longrightarrow> store_inv dg J c t"
  for dg and J :: "'b store_json" and c
  by unfold_locales (auto intro: store_inv_init store_inv_step)

section \<open>Properties\<close>

lemma inv_snapshot_valid:
  assumes J: "json_ok J" and "snapshot_ok dg J c (tb_snapshot t)"
  shows "validate_persisted_snapshot dg J c t = Ok ()"
proof (cases "tb_snapshot t")
  case (Some x)
  then obtain md blob where x: "tb_snapshot t = Some (md, blob)" by (cases x) auto
  then show ?thesis using assms(2) json_rt(7) [OF J]
    by (auto simp: validate_persisted_snapshot_def)
qed (simp add: validate_persisted_snapshot_def)

text \<open>
  C11: a restart recovers. After any history of operations on a store, accepted or refused,
  opening it again under its frozen configuration succeeds without changing it and finds an
  applied ledger of that configuration that passes its validation; opening it under any other
  configuration is refused and changes nothing.
\<close>

theorem reopening_recovers:
  assumes "json_ok J" and "ledger_new dg c = Ok initial" and "reachable (store_init dg J c) (store_step dg J) t"
  shows "open_store dg J initial t = (t, Ok ())
    \<and> (\<exists>a m l. load_state dg J t = Ok (a, m, l) \<and> ledger_validate dg l = Ok () \<and> bl_config l = c)
    \<and> (\<forall>other ol. ledger_new dg other = Ok ol \<and> other \<noteq> c \<longrightarrow>
          (\<exists>e. open_store dg J ol t = (t, Err e)))"
proof -
  have inv: "store_inv dg J c t" using store.reachable_inv [OF assms(3)] assms(1) by blast
  then obtain a m l where h: "holds dg J c t (a, m, l)" by (auto simp: store_inv_def)
  have ld: "load_state dg J t = Ok (a, m, l)" by (rule holds_load [OF assms(1) h])
  note k = load_holds_config [OF assms(1) h ld]
  have cfg: "tb_config t = Some (j_config J c)" and st: "\<exists>x y. tb_state t = Some (x, y, j_ledger J l)"
    using h by (auto simp: holds.simps)
  have i: "is_ok (ledger_validate dg initial)" "bl_config initial = c"
    using ledger_new_ok [OF assms(2)] by (simp_all add: ledger_ok_def)
  have "validate_persisted_snapshot dg J c t = Ok ()"
    using inv by (intro inv_snapshot_valid [OF assms(1)]) (simp add: store_inv_def)
  then have "open_existing dg J initial (j_config J c) t = Ok ()"
    using st k i(2) ld json_rt(1,2) [OF assms(1)] by (auto simp: open_existing_def context_msg_def ledger_ok_def)
  then have "open_store dg J initial t = (t, Ok ())"
    using cfg i(1) by (simp add: open_store_def checked_ledger_Ok [THEN iffD2])
  moreover have "\<exists>e. open_store dg J ol t = (t, Err e)" if "ledger_new dg other = Ok ol" "other \<noteq> c" for other ol
  proof -
    have "bl_config ol = other" using ledger_new_ok [OF that(1)] by simp
    then show ?thesis using cfg that(2) json_rt(1) [OF assms(1)]
      by (auto simp: open_store_def open_existing_def context_msg_def split: sum.splits)
  qed
  ultimately show ?thesis using ld k by (auto simp: ledger_ok_def sum_ok_unit)
qed

lemma try_map_Ok:
  "(\<And>x. x \<in> set xs \<Longrightarrow> f x = Ok (g x)) \<Longrightarrow> try_map f xs = Ok (map g xs)"
  by (induction xs) auto

lemma window_keys:
  assumes "btree_ok m" and "fst ` set m = {b..<b + n}"
  shows "map fst (filter (\<lambda>r. lo \<le> fst r \<and> fst r < hi) m) = [max lo b..<min hi (b + n)]"
proof -
  have "sorted_wrt (<) (map fst (filter (\<lambda>r. lo \<le> fst r \<and> fst r < hi) m))"
    using btree_ok_filter [OF assms(1)] by (simp add: btree_ok_def)
  moreover have "set (map fst (filter (\<lambda>r. lo \<le> fst r \<and> fst r < hi) m)) = set [max lo b..<min hi (b + n)]"
    using assms(2) by (auto simp: image_iff) force+
  ultimately show ?thesis
    by (intro strict_sorted_equal) simp_all
qed

text \<open>
  The log has no holes. After any history in which the log of a fresh store starts at
  index zero, reading any range of indices succeeds and yields the stored entries in order
  with consecutive indices: exactly those of the range that lie behind the purged prefix and
  before the end of the log.
\<close>

theorem log_reads_are_gapless:
  assumes "json_ok J" and "reachable (store_init dg J c) (store_step dg J) t"
    and "is_i64 (uint lo)" and "is_i64 (uint hi)"
  shows "\<exists>es. try_get_log_entries J (Included lo) (Excluded hi) t = Ok es
    \<and> map (\<lambda>e. unat (li_index (en_log_id e))) es =
        [max (unat lo) (log_base J t)..<min (unat hi) (log_base J t + length (tb_log t))]"
proof -
  have ok: "log_ok J t" using store.reachable_inv [OF assms(2)] assms(1) by (auto simp: store_inv_def)
  then obtain n where n: "fst ` set (tb_log t) = {log_base J t..<log_base J t + n}" by (auto simp: log_ok_def)
  have "distinct (map fst (tb_log t))" using ok bt.distinct_entries by (auto simp: log_ok_def)
  then have "card (fst ` set (tb_log t)) = length (tb_log t)" by (metis distinct_card length_map list.set_map)
  then have len: "n = length (tb_log t)" using n by simp
  let ?rows = "filter (\<lambda>r. unat lo \<le> fst r \<and> fst r < unat hi) (tb_log t)"
  have rows: "set ?rows \<subseteq> set (tb_log t)" by (rule filter_is_subset)
  have "\<forall>r \<in> set (tb_log t). row_ok J r" using ok by (simp add: log_ok_def)
  then have "\<forall>r \<in> set ?rows. \<exists>e. snd (snd r) = j_entry J e \<and> unat (li_index (en_log_id e)) = fst r"
    using rows unfolding row_ok_def by blast
  then have "\<exists>g. \<forall>r \<in> set ?rows. snd (snd r) = j_entry J (g r) \<and> unat (li_index (en_log_id (g r))) = fst r"
    by (rule bchoice)
  then obtain g where g: "\<And>r. r \<in> set ?rows \<Longrightarrow> snd (snd r) = j_entry J (g r) \<and> unat (li_index (en_log_id (g r))) = fst r"
    by blast
  have "try_map (\<lambda>r. u_entry J (snd (snd r))) ?rows = Ok (map g ?rows)"
  proof (rule try_map_Ok)
    fix r assume "r \<in> set ?rows"
    then have "snd (snd r) = j_entry J (g r)" using g by blast
    then show "u_entry J (snd (snd r)) = Ok (g r)" by (simp only: json_rt(5) [OF assms(1)])
  qed
  then have read: "try_get_log_entries J (Included lo) (Excluded hi) t = Ok (map g ?rows)"
    using assms(3,4) by (simp add: try_get_log_entries_def range_lower_def range_upper_def sql_index_def)
  have "map (\<lambda>e. unat (li_index (en_log_id e))) (map g ?rows) = map fst ?rows"
    unfolding map_map comp_def by (rule map_cong [OF refl]) (use g in blast)
  also have "map fst ?rows = [max (unat lo) (log_base J t)..<min (unat hi) (log_base J t + n)]"
    by (rule window_keys [OF _ n]) (use ok in \<open>unfold log_ok_def, blast\<close>)
  finally show ?thesis using read unfolding len by blast
qed

lemma apply_entries_last:
  "apply_entries dg (a, m, l) es = Ok ((a', m', l'), rs) \<Longrightarrow> a' = (if es = [] then a else Some (en_log_id (last es)))"
proof (induction es arbitrary: a m l rs)
  case (Cons e es)
  obtain a1 m1 l1 r rs1 where 1: "apply_entry dg (a, m, l) e = Ok ((a1, m1, l1), r)"
    and 2: "apply_entries dg (a1, m1, l1) es = Ok ((a', m', l'), rs1)"
    using Cons.prems by (auto split: prod.splits)
  have "a1 = Some (en_log_id e)" using 1 by (auto split: if_splits entry_payload.splits prod.splits)
  with Cons.IH [OF 2] show ?case by simp
qed simp

text \<open>
  When a batch is accepted, stated on the entries alone: each entry follows its predecessor, and the
  membership the batch leaves is the initial one of an untouched store or the frozen voter set.
\<close>

fun consecutive :: "log_id option \<Rightarrow> raft_entry list \<Rightarrow> bool" where
  "consecutive a [] \<longleftrightarrow> True"
| "consecutive a (e # es) \<longleftrightarrow>
     (\<forall>p. a = Some p \<longrightarrow> li_index (en_log_id e) = saturating_add (li_index p) 1) \<and> consecutive (Some (en_log_id e)) es"

fun last_membership :: "stored_membership \<Rightarrow> raft_entry list \<Rightarrow> stored_membership" where
  "last_membership m [] = m"
| "last_membership m (e # es) =
     last_membership (case en_payload e of P_Membership config \<Rightarrow> \<lparr>sm_log_id = Some (en_log_id e), sm_membership = config\<rparr> | _ \<Rightarrow> m) es"

definition frozen_membership :: "budget_cluster_config \<Rightarrow> log_id option \<Rightarrow> stored_membership \<Rightarrow> bool" where
  "frozen_membership c a m \<longleftrightarrow> a = None \<and> m = pristine_membership
     \<or> (\<exists>applied logged. a = Some applied \<and> sm_log_id m = Some logged \<and> li_index logged \<le> li_index applied
          \<and> sm_membership m = \<lparr>rm_configs = [map fst (raft_voters c)], rm_nodes = raft_voters c\<rparr>)"

lemma raft_membership_eq: "m = \<lparr>rm_configs = cs, rm_nodes = ns\<rparr> \<longleftrightarrow> rm_configs m = cs \<and> rm_nodes m = ns"
  by (cases m) auto

lemma validate_membership_frozen: "validate_membership c a m = Ok () \<longleftrightarrow> frozen_membership c a m"
proof -
  have "m = pristine_membership \<longleftrightarrow> sm_log_id m = None \<and> rm_configs (sm_membership m) = [] \<and> rm_nodes (sm_membership m) = []"
    by (cases m) (auto simp: pristine_membership_def raft_membership_eq)
  then show ?thesis
    by (auto simp: validate_membership_def frozen_membership_def raft_membership_eq Let_def not_less split: option.splits)
qed

lemma apply_entry_Ok:
  "(\<exists>s' r. apply_entry dg (a, m, l) e = Ok (s', r)) \<longleftrightarrow> (\<forall>p. a = Some p \<longrightarrow> li_index (en_log_id e) = saturating_add (li_index p) 1)"
  "apply_entry dg (a, m, l) e = Ok (s', r) \<Longrightarrow> fst s' = Some (en_log_id e) \<and> fst (snd s') = last_membership m [e]"
  by (auto split: entry_payload.splits prod.splits option.splits if_splits)

lemma apply_entries_accepts: "(\<exists>s' rs. apply_entries dg (a, m, l) es = Ok (s', rs)) \<longleftrightarrow> consecutive a es"
proof (induction es arbitrary: a m l)
  case (Cons e es)
  show ?case
  proof (cases "apply_entry dg (a, m, l) e")
    case (Inl x)
    then show ?thesis using apply_entry_Ok(1) [of dg a m l e] by auto
  next
    case (Inr y)
    obtain a1 m1 l1 r where y: "y = ((a1, m1, l1), r)" by (cases y) auto
    have "a1 = Some (en_log_id e)" using apply_entry_Ok(2) [of dg a m l e] Inr y by force
    with Cons.IH [of "Some (en_log_id e)" m1 l1] apply_entry_Ok(1) [of dg a m l e] Inr y
    show ?thesis by (auto simp: and_then_def split: sum.splits)
  qed
qed simp

lemma apply_entries_membership:
  "apply_entries dg (a, m, l) es = Ok ((a', m', l'), rs) \<Longrightarrow> m' = last_membership m es"
proof (induction es arbitrary: a m l rs)
  case (Cons e es)
  obtain a1 m1 l1 r rs1 where 1: "apply_entry dg (a, m, l) e = Ok ((a1, m1, l1), r)"
    and 2: "apply_entries dg (a1, m1, l1) es = Ok ((a', m', l'), rs1)"
    using Cons.prems by (auto split: prod.splits)
  from apply_entry_Ok(2) [OF 1] Cons.IH [OF 2] show ?case by simp
qed simp

text \<open>
  C10: the durable state machine implements the ledger. Applying a batch of log entries to a
  store either changes nothing and reports an error, or moves the stored ledger exactly as the
  commands of the batch move the ledger, with their replies in order, advances the applied
  index to the last entry and stores the last membership of the batch. The batch is refused
  exactly when its entries are not consecutive, starting behind the applied index, or the membership
  it leaves is not the frozen one; never for what a command did.
\<close>

theorem durable_apply_refines_ledger:
  assumes "json_ok J" and "reachable (store_init dg J c) (store_step dg J) t"
    and "load_state dg J t = Ok (a, m, l)" and "apply_batch dg J es t = (t', r)"
  defines "a' \<equiv> if es = [] then a else Some (en_log_id (last es))"
  shows "(\<forall>e. r = Err e \<longrightarrow> t' = t)
    \<and> (\<forall>rs. r = Ok rs \<longrightarrow> load_state dg J t' = Ok (a', last_membership m es, fst (ledger_run dg l (commands es)))
          \<and> command_replies es rs = snd (ledger_run dg l (commands es)) \<and> length rs = length es)
    \<and> (is_ok r \<longleftrightarrow> consecutive a es \<and> frozen_membership c a' (last_membership m es))"
proof -
  have inv: "store_inv dg J c t" using store.reachable_inv [OF assms(2)] assms(1) by blast
  then obtain s where hs: "holds dg J c t s" by (auto simp: store_inv_def)
  then have h: "holds dg J c t (a, m, l)" using holds_load [OF assms(1) hs] assms(3) by simp
  have "t' = t" if "r = Err e" for e
    using assms(4) that transact_Err by (fastforce simp: apply_batch_def)
  moreover have ok: "load_state dg J t' = Ok (a', last_membership m es, fst (ledger_run dg l (commands es)))
      \<and> command_replies es rs = snd (ledger_run dg l (commands es)) \<and> length rs = length es
      \<and> consecutive a es \<and> frozen_membership c a' (last_membership m es)" if "r = Ok rs" for rs
  proof -
    have b: "apply_batch dg J es t = (t', Ok rs)" using assms(4) that by simp
    obtain a2 m2 where x: "holds dg J c t' (a2, m2, fst (ledger_run dg l (commands es)))"
      "apply_entries dg (a, m, l) es = Ok ((a2, m2, fst (ledger_run dg l (commands es))), rs)"
      "snd (ledger_run dg l (commands es)) = command_replies es rs"
      using apply_batch_holds [OF assms(1) h b] by blast
    have "validate_membership c a2 m2 = Ok ()" using x(1) by (auto simp: holds.simps)
    moreover have "a2 = a'" "m2 = last_membership m es" "consecutive a es"
      using apply_entries_last [OF x(2)] apply_entries_membership [OF x(2)] apply_entries_accepts [of dg a m l es] x(2)
      by (auto simp: a'_def)
    ultimately show ?thesis
      using holds_load [OF assms(1) x(1)] x(3) apply_entries_run [OF x(2)] by (auto simp: validate_membership_frozen)
  qed
  moreover have "is_ok r" if acc: "consecutive a es" "frozen_membership c a' (last_membership m es)"
  proof -
    obtain a2 m2 l2 rs where e: "apply_entries dg (a, m, l) es = Ok ((a2, m2, l2), rs)"
      using apply_entries_accepts [of dg a m l es] acc(1) by (metis prod_cases3)
    have v: "validate_membership c a2 m2 = Ok ()"
      using acc(2) apply_entries_last [OF e] apply_entries_membership [OF e] by (simp add: validate_membership_frozen a'_def)
    have "ledger_ok dg l" "bl_config l = c" using h by (simp_all add: holds.simps)
    then have "bl_config l2 = c" using run_props apply_entries_run [OF e] by (auto simp: ledger_le_def)
    then obtain u where "save_state J (a2, m2, l2) t = Ok u" using v by (auto simp: save_state_def)
    with e have "apply_batch dg J es t = (u, Ok rs)" using apply_batch_Ok [OF assms(1) h, of es u rs] by blast
    then show ?thesis using assms(4) by simp
  qed
  moreover have "is_ok r \<longleftrightarrow> (\<exists>rs. r = Ok rs)" by (auto simp: is_ok_iff)
  ultimately show ?thesis by blast
qed

text \<open>
  C23: batches compose once the first is applied. After a batch was applied, a further batch is accepted if and only
  if both together are accepted as one batch from the tables before, and then tables and
  replies agree. If the further batch is refused, so is the joined one, with the same error; the
  joined batch then leaves the tables before both, while the separate ones keep the first. (A
  batch that is refused alone may be accepted as part of a longer one that brings the membership.)
\<close>

theorem batches_compose:
  assumes "json_ok J" and "reachable (store_init dg J c) (store_step dg J) t"
    and "apply_batch dg J xs t = (t1, Ok rs1)" and "apply_batch dg J ys t1 = (t2, r2)"
  shows "apply_batch dg J (xs @ ys) t = (case r2 of Inr rs2 \<Rightarrow> (t2, Ok (rs1 @ rs2)) | Inl e \<Rightarrow> (t, Err e))
    \<and> (\<not> is_ok r2 \<longrightarrow> t2 = t1)"
proof -
  have "store_inv dg J c t" using store.reachable_inv [OF assms(2)] assms(1) by blast
  then obtain a m l where h: "holds dg J c t (a, m, l)" by (auto simp: store_inv_def)
  obtain a1 m1 l1 where x: "holds dg J c t1 (a1, m1, l1)" "apply_entries dg (a, m, l) xs = Ok ((a1, m1, l1), rs1)"
      "t1 = t\<lparr>tb_state := tb_state t1\<rparr>"
    using apply_batch_holds [OF assms(1) h assms(3)] by blast
  have ap: "apply_entries dg (a, m, l) (xs @ ys) =
      and_then (apply_entries dg (a1, m1, l1) ys) (\<lambda>(s2, rs2). Ok (s2, rs1 @ rs2))"
    using x(2) by (simp add: apply_entries_append)
  have sv: "save_state J s t1 = save_state J s t" for s
  proof -
    have "tb_state t1 \<noteq> None" "tb_state t \<noteq> None" using x(1) h by (auto simp: holds.simps)
    moreover have "t1\<lparr>tb_state := z\<rparr> = t\<lparr>tb_state := z\<rparr>" for z using x(3) by (metis raft_tables.update_convs(6) raft_tables.surjective)
    ultimately show ?thesis by (cases s) (auto simp: save_state_def)
  qed
  note l1 = holds_load [OF assms(1) x(1)] and l0 = holds_load [OF assms(1) h]
  have "apply_batch dg J (xs @ ys) t = (case apply_batch dg J ys t1 of
      (t2, Inr rs2) \<Rightarrow> (t2, Ok (rs1 @ rs2)) | (_, Inl e) \<Rightarrow> (t, Err e))"
    by (cases "apply_entries dg (a1, m1, l1) ys")
      (auto simp: apply_batch_def transact_def l0 l1 ap sv and_then_def simp del: checked_ledger_Ok
        split: sum.splits prod.splits)
  moreover have "t2 = t1" if "r2 = Err e" for e
    using assms(4) that transact_Err by (fastforce simp: apply_batch_def)
  ultimately show ?thesis using assms(4) by (cases r2) auto
qed

text \<open>
  A snapshot carries the whole state. A snapshot built by one store and installed by
  another store of the same frozen configuration makes their applied states equal, and is
  afterwards the current snapshot of both.
\<close>

theorem snapshot_transfers_state:
  assumes "json_ok J" and "reachable (store_init dg J c) (store_step dg J) t"
    and "reachable (store_init dg J c) (store_step dg J) u"
    and "build_snapshot dg J t = (t', Ok (meta, blob))"
  shows "\<exists>u'. install_snapshot dg J meta blob u = (u', Ok ()) \<and> load_state dg J u' = load_state dg J t
    \<and> get_current_snapshot dg J u' = Ok (Some (meta, blob)) \<and> get_current_snapshot dg J t' = Ok (Some (meta, blob))"
proof -
  have inv: "store_inv dg J c t" "store_inv dg J c u"
    using store.reachable_inv [OF assms(2)] store.reachable_inv [OF assms(3)] assms(1) by blast+
  then obtain a m l s where h: "holds dg J c t (a, m, l)" "holds dg J c u s" by (auto simp: store_inv_def)
  note ld = holds_load [OF assms(1) h(1)] and lu = holds_load [OF assms(1) h(2)]
  note k = load_holds_config [OF assms(1) h(1) ld]
  obtain a0 m0 l0 where s: "s = (a0, m0, l0)" by (cases s)
  have c0: "bl_config l0 = c" using h(2) by (simp add: s holds.simps)
  have b: "blob = j_state J (a, m, l)" "j_size J blob \<le> MAX_BUDGET_SNAPSHOT_BYTES"
      "meta = \<lparr>mt_last_log_id = a, mt_last_membership = m, mt_snapshot_id = snapshot_id_of a\<rparr>"
      "t' = t\<lparr>tb_snapshot := Some (j_meta J meta, blob)\<rparr>"
    using assms(4) ld by (auto simp: build_snapshot_def transact_Ok Let_def split: if_splits)
  have rt: "u_state J blob = Ok (a, m, l)" unfolding b(1) using k by (intro json_rt(8) [OF assms(1)]) (simp add: ledger_ok_def)
  have v: "is_ok (ledger_validate dg l)" "bl_config l = c" "validate_membership c a m = Ok ()" using k by (auto simp: ledger_ok_def)
  obtain u1 where u1: "save_state J (a, m, l) u = Ok u1" using v by (auto simp: save_state_def)
  have h1: "holds dg J c u1 (a, m, l)" using holds_save [OF h(2) _ v(2) u1] k by blast
  define u' where "u' = u1\<lparr>tb_snapshot := Some (j_meta J meta, blob)\<rparr>"
  have "install_snapshot dg J meta blob u = (u', Ok ())"
    using b(2,3) rt v lu s c0 u1 by (simp add: install_snapshot_def transact_Ok context_msg_def u'_def)
  moreover have lu': "load_state dg J u' = Ok (a, m, l)"
    using h1 holds_frame [of u' u1] by (intro holds_load [OF assms(1)]) (simp add: u'_def)
  moreover have lt': "load_state dg J t' = Ok (a, m, l)"
    using h(1) holds_frame [of t' t] by (intro holds_load [OF assms(1)]) (simp add: b(4))
  ultimately show ?thesis
    using b(2,3) rt v json_rt(7) [OF assms(1)] ld
    by (intro exI [of _ u']) (simp add: get_current_snapshot_def u'_def b(4))
qed

section \<open>A sample store\<close>

datatype sample_blob = SB_config budget_cluster_config | SB_ledger budget_ledger | SB_log_id log_id | SB_null
  | SB_membership stored_membership | SB_entry raft_entry | SB_vote raft_vote | SB_meta snapshot_meta
  | SB_state raft_state

definition sample_json :: "sample_blob store_json" where
  "sample_json = \<lparr>
     j_config = SB_config, u_config = (\<lambda>b. case b of SB_config x \<Rightarrow> Ok x | _ \<Rightarrow> Err [''json'']),
     j_ledger = SB_ledger, u_ledger = (\<lambda>b. case b of SB_ledger x \<Rightarrow> Ok x | _ \<Rightarrow> Err [''json'']),
     j_log_id = SB_log_id, u_log_id = (\<lambda>b. case b of SB_log_id x \<Rightarrow> Ok x | _ \<Rightarrow> Err [''json'']),
     j_log_id_option = (\<lambda>x. case x of None \<Rightarrow> SB_null | Some y \<Rightarrow> SB_log_id y),
     j_membership = SB_membership, u_membership = (\<lambda>b. case b of SB_membership x \<Rightarrow> Ok x | _ \<Rightarrow> Err [''json'']),
     j_entry = SB_entry, u_entry = (\<lambda>b. case b of SB_entry x \<Rightarrow> Ok x | _ \<Rightarrow> Err [''json'']),
     j_vote = SB_vote, u_vote = (\<lambda>b. case b of SB_vote x \<Rightarrow> Ok x | _ \<Rightarrow> Err [''json'']),
     j_meta = SB_meta, u_meta = (\<lambda>b. case b of SB_meta x \<Rightarrow> Ok x | _ \<Rightarrow> Err [''json'']),
     j_state = SB_state, u_state = (\<lambda>b. case b of
        SB_state (a, m, l) \<Rightarrow> (if btree_ok (bl_grants l) then Ok (a, m, l) else Err [''json'']) | _ \<Rightarrow> Err [''json'']),
     j_size = (\<lambda>_. 100)\<rparr>"

lemma sample_json_ok: "json_ok sample_json"
  by (auto simp: json_ok_def sample_json_def split: sample_blob.splits if_splits prod.splits)

definition sample_tables :: "sample_blob raft_tables" where
  "sample_tables = fst (open_store sample_digest sample_json sample_ledger empty_tables)"

lemma sample_opened: "open_store sample_digest sample_json sample_ledger empty_tables = (sample_tables, Ok ())"
proof -
  have "is_ok (ledger_validate sample_digest sample_ledger)" using sample_ok by (simp add: ledger_ok_def)
  then have "checked_ledger sample_digest msg sample_ledger = Ok ()" for msg by simp
  then show ?thesis by (simp add: sample_tables_def open_store_def empty_tables_def del: checked_ledger_Ok)
qed

lemma sample_store_reachable:
  "reachable (store_init sample_digest sample_json sample_config) (store_step sample_digest sample_json) sample_tables"
  by (rule reachable_init) (use sample_new sample_opened in \<open>auto simp: store_init_def\<close>)

lemma sample_tables_eq:
  "sample_tables = empty_tables\<lparr>tb_config := Some (j_config sample_json sample_config),
     tb_state := Some (None, j_membership sample_json pristine_membership, j_ledger sample_json sample_ledger)\<rparr>"
proof -
  have "is_ok (ledger_validate sample_digest sample_ledger)" using sample_ok by (simp add: ledger_ok_def)
  then have "checked_ledger sample_digest msg sample_ledger = Ok ()" for msg by simp
  then show ?thesis
    by (simp add: sample_tables_def open_store_def empty_tables_def sample_ledger_def del: checked_ledger_Ok)
qed

lemma sample_holds:
  "holds sample_digest sample_json sample_config sample_tables (None, pristine_membership, sample_ledger)"
  using sample_ok validate_pristine by (simp add: sample_tables_eq holds.simps sample_ledger_def)

lemma sample_load: "load_state sample_digest sample_json sample_tables = Ok (None, pristine_membership, sample_ledger)"
  by (rule holds_load [OF sample_json_ok sample_holds])

theorem reopening_recovers_witness:
  "open_store sample_digest sample_json sample_ledger sample_tables = (sample_tables, Ok ())"
  using reopening_recovers [OF sample_json_ok sample_new sample_store_reachable] by blast

definition sample_entry :: "u64 \<Rightarrow> entry_payload \<Rightarrow> raft_entry" where
  "sample_entry i pl = \<lparr>en_log_id = \<lparr>li_term = 1, li_node = 1, li_index = i\<rparr>, en_payload = pl\<rparr>"

definition sample_membership_entry :: raft_entry where
  "sample_membership_entry = sample_entry 3 (P_Membership
     \<lparr>rm_configs = [map fst (raft_voters sample_config)], rm_nodes = raft_voters sample_config\<rparr>)"

definition sample_batch :: "raft_entry list" where
  "sample_batch = [sample_membership_entry, sample_entry 4 (P_Normal (Cmd_Reserve sample_reserve))]"

theorem log_reads_are_gapless_witness:
  "\<exists>es. try_get_log_entries sample_json (Included 0) (Excluded 9)
       (fst (append_log sample_json [sample_entry 0 P_Blank, sample_entry 1 P_Blank] sample_tables)) = Ok es
     \<and> map (\<lambda>e. unat (li_index (en_log_id e))) es = [0, 1]"
proof -
  let ?es = "[sample_entry 0 P_Blank, sample_entry 1 P_Blank]"
  let ?t = "fst (append_log sample_json ?es sample_tables)"
  have "store_step sample_digest sample_json sample_tables ?t"
    by (rule st_append) (simp add: sample_entry_def)
  then have r: "reachable (store_init sample_digest sample_json sample_config) (store_step sample_digest sample_json) ?t"
    by (rule reachable_step [OF sample_store_reachable])
  have i: "is_i64 (uint (0 :: u64))" "is_i64 (uint (9 :: u64))" "is_i64 (uint (1 :: u64))"
    by (simp_all add: is_i64_def i64_min_def i64_max_def)
  have t0: "tb_log sample_tables = []" "tb_purged sample_tables = None"
    by (simp_all add: sample_tables_eq empty_tables_def)
  have "tb_log ?t = [(0, 1, SB_entry (sample_entry 0 P_Blank)), (1, 1, SB_entry (sample_entry 1 P_Blank))]
      \<and> tb_purged ?t = None"
    using t0 i by (simp add: append_log_def transact_def read_meta_def last_log_id_def sample_entry_def sql_index_def
        sample_json_def saturating_add_def)
  then have "length (tb_log ?t) = 2" "log_base sample_json ?t = 0" by (simp_all add: log_base_def)
  with log_reads_are_gapless [OF sample_json_ok r i(1,2)] show ?thesis by (simp add: upt_rec)
qed

lemma sample_apply_entries:
  "apply_entries sample_digest (None, pristine_membership, sample_ledger) [sample_membership_entry] =
     Ok ((Some (en_log_id sample_membership_entry), \<lparr>sm_log_id = Some (en_log_id sample_membership_entry),
       sm_membership = \<lparr>rm_configs = [map fst (raft_voters sample_config)], rm_nodes = raft_voters sample_config\<rparr>\<rparr>,
       sample_ledger), [Rejected Rej_InvalidConfig])"
  by (simp add: sample_membership_entry_def sample_entry_def)

lemma sample_batch_runs:
  assumes "apply_entries sample_digest (None, pristine_membership, sample_ledger) es = Ok ((a, m, l), rs)"
    and "\<exists>u. save_state sample_json (a, m, l) sample_tables = Ok u"
  shows "is_ok (snd (apply_batch sample_digest sample_json es sample_tables))"
proof -
  obtain u where "save_state sample_json (a, m, l) sample_tables = Ok u" using assms(2) by blast
  with assms(1) have "apply_batch sample_digest sample_json es sample_tables = (u, Ok rs)"
    unfolding apply_batch_Ok [OF sample_json_ok sample_holds] by blast
  then show ?thesis by simp
qed

lemma sample_apply_batch:
  "is_ok (snd (apply_batch sample_digest sample_json [sample_membership_entry] sample_tables))"
  "is_ok (snd (apply_batch sample_digest sample_json sample_batch sample_tables))"
proof -
  let ?m = "\<lparr>sm_log_id = Some (en_log_id sample_membership_entry),
     sm_membership = \<lparr>rm_configs = [map fst (raft_voters sample_config)], rm_nodes = raft_voters sample_config\<rparr>\<rparr>"
  have v: "validate_membership sample_config (Some \<lparr>li_term = 1, li_node = 1, li_index = i\<rparr>) ?m = Ok ()" if "i \<ge> 3" for i
    using that by (simp add: validate_membership_def sample_membership_entry_def sample_entry_def Let_def not_less)
  have "apply_entries sample_digest (None, pristine_membership, sample_ledger) sample_batch =
      Ok ((Some \<lparr>li_term = 1, li_node = 1, li_index = 4\<rparr>, ?m, sample_ledger1),
        [Rejected Rej_InvalidConfig, Reserved_reply (reserved_grant_of sample_record)])"
    using sample_apply1
    by (simp add: sample_batch_def sample_membership_entry_def sample_entry_def saturating_add_def)
  moreover have "\<exists>u. save_state sample_json (Some \<lparr>li_term = 1, li_node = 1, li_index = 4\<rparr>, ?m, sample_ledger1) sample_tables = Ok u"
    using v [of 4] by (simp add: save_state_def sample_ledger1_def)
  ultimately show "is_ok (snd (apply_batch sample_digest sample_json sample_batch sample_tables))"
    by (rule sample_batch_runs)
  have "\<exists>u. save_state sample_json (Some (en_log_id sample_membership_entry), ?m, sample_ledger) sample_tables = Ok u"
    using v [of 3] by (simp add: save_state_def sample_ledger_def sample_membership_entry_def sample_entry_def)
  then show "is_ok (snd (apply_batch sample_digest sample_json [sample_membership_entry] sample_tables))"
    by (rule sample_batch_runs [OF sample_apply_entries])
qed

theorem durable_apply_refines_ledger_witness:
  "\<exists>a m. load_state sample_digest sample_json
      (fst (apply_batch sample_digest sample_json sample_batch sample_tables)) = Ok (a, m, sample_ledger1)"
proof -
  obtain t r where b: "apply_batch sample_digest sample_json sample_batch sample_tables = (t, r)" by fastforce
  then obtain rs where "r = Ok rs" using sample_apply_batch(2) by (auto simp: is_ok_iff)
  moreover have "fst (ledger_run sample_digest sample_ledger (commands sample_batch)) = sample_ledger1"
    using sample_apply1 by (simp add: sample_batch_def sample_membership_entry_def sample_entry_def)
  ultimately show ?thesis
    using durable_apply_refines_ledger [OF sample_json_ok sample_store_reachable sample_load b] b by auto
qed

theorem batches_compose_witness:
  "is_ok (snd (apply_batch sample_digest sample_json [sample_entry 4 (P_Normal (Cmd_Reserve sample_reserve))]
     (fst (apply_batch sample_digest sample_json [sample_membership_entry] sample_tables))))"
proof -
  let ?ys = "[sample_entry 4 (P_Normal (Cmd_Reserve sample_reserve))]"
  obtain t1 r1 where b: "apply_batch sample_digest sample_json [sample_membership_entry] sample_tables = (t1, r1)" by fastforce
  then obtain rs1 where "r1 = Ok rs1" using sample_apply_batch(1) by (auto simp: is_ok_iff)
  with b have b1: "apply_batch sample_digest sample_json [sample_membership_entry] sample_tables = (t1, Ok rs1)" by simp
  obtain t2 r2 where b2: "apply_batch sample_digest sample_json ?ys t1 = (t2, r2)" by fastforce
  from batches_compose [OF sample_json_ok sample_store_reachable b1 b2] sample_apply_batch(2) b1 b2
  show ?thesis by (cases r2) (auto simp: sample_batch_def)
qed

theorem snapshot_transfers_state_witness:
  "\<exists>u' meta blob. install_snapshot sample_digest sample_json meta blob sample_tables = (u', Ok ())
     \<and> load_state sample_digest sample_json u' = Ok (None, pristine_membership, sample_ledger)"
proof -
  obtain t' meta blob where "build_snapshot sample_digest sample_json sample_tables = (t', Ok (meta, blob))"
    using sample_load by (auto simp: build_snapshot_def transact_def Let_def sample_json_def MAX_BUDGET_SNAPSHOT_BYTES_def)
  from snapshot_transfers_state [OF sample_json_ok sample_store_reachable sample_store_reachable this] sample_load
  show ?thesis by auto
qed

end
