(* ===== verification/Token_Budget.thy ===== *)
theory Token_Budget
  imports Neoth_Prelude
begin

text \<open>
  The prompt budget, \<open>src/SRC/neothd/src/tokens/budget.rs\<close>. A prompt is a list of typed
  items; when their byte counts exceed the cap, the oldest half of the recall items (block D),
  the least important half of the profile items (block C) and half of each orchestrator item
  (Conductor) go, and the boundary variant repeats that pass until the prompt fits or a pass
  gains nothing. Its loop is a \<open>partial_function\<close>, so that a run that never ends is
  \<open>None\<close>. \<open>sort_by\<close> of the standard library is stable; for a comparison that is not a
  total order (a NaN importance beside others) Rust may panic or return any order. What it does then is an
  argument of the definitions (\<open>so\<close>), and every theorem holds for all its values.
\<close>

section \<open>Items\<close>

text \<open>\<open>u32::try_from(n).unwrap_or(u32::MAX)\<close> and \<open>div_ceil\<close>.\<close>

definition u32_clamp :: "nat \<Rightarrow> u32" where
  "u32_clamp n = (if n < 2 ^ 32 then word_of_nat n else - 1)"

definition div_ceil :: "nat \<Rightarrow> nat \<Rightarrow> nat" where
  "div_ceil n k = (n + k - 1) div k"

definition count_tokens :: "string \<Rightarrow> u32" where
  "count_tokens t = u32_clamp (div_ceil (length (utf8_chunks t)) 4)"

definition count_tokens_upper_bound :: "string \<Rightarrow> u32" where
  "count_tokens_upper_bound t = u32_clamp (length t)"

datatype prompt_block = BlockA | BlockB | BlockC | BlockD | BlockE | BlockConductor

datatype prompt_tax_source = TaxSkill | TaxMemory | TaxRepoContext | TaxCouncil | TaxUnattributed

datatype prompt_origin = OriginSystem | OriginWorkflow | OriginSkill | OriginRetrieval | OriginToolResult
  | OriginUser | OriginUnattributed

datatype atomic_group = McpCatalogue

datatype prompt_retention = Degradable | Required

record block_item =
  it_block :: prompt_block
  it_prompt_origin :: "prompt_origin option"
  it_prompt_tax_source :: "prompt_tax_source option"
  it_atomic_group :: "atomic_group option"
  it_retention :: prompt_retention
  it_importance :: f32
  it_ts_ns :: int
  it_tokens :: u32
  it_content :: string

definition is_degradable :: "prompt_block \<Rightarrow> bool" where
  "is_degradable b \<longleftrightarrow> b \<in> {BlockC, BlockD, BlockConductor}"

definition item_new :: "prompt_block \<Rightarrow> string \<Rightarrow> block_item" where
  "item_new b content = \<lparr>it_block = b, it_prompt_origin = None, it_prompt_tax_source = None,
     it_atomic_group = None, it_retention = Degradable, it_importance = 0x3F000000, it_ts_ns = 0,
     it_tokens = count_tokens_upper_bound content, it_content = content\<rparr>"

definition replace_content :: "string \<Rightarrow> block_item \<Rightarrow> block_item" where
  "replace_content content it =
     it\<lparr>it_content := content, it_tokens := count_tokens_upper_bound content\<rparr>"

definition with_atomic_group :: "atomic_group \<Rightarrow> block_item \<Rightarrow> block_item" where
  "with_atomic_group g it = it\<lparr>it_atomic_group := Some g\<rparr>"

definition with_required_retention :: "block_item \<Rightarrow> block_item" where
  "with_required_retention it = it\<lparr>it_retention := Required\<rparr>"

definition with_prompt_tax_source :: "prompt_tax_source \<Rightarrow> block_item \<Rightarrow> block_item" where
  "with_prompt_tax_source s it = it\<lparr>it_prompt_tax_source := Some s\<rparr>"

definition with_prompt_origin :: "prompt_origin \<Rightarrow> block_item \<Rightarrow> block_item" where
  "with_prompt_origin orig it = it\<lparr>it_prompt_origin := Some orig\<rparr>"

section \<open>Rendering\<close>

definition validate_atomic_groups :: "block_item list \<Rightarrow> string + unit" where
  "validate_atomic_groups items =
     (if list_ex (\<lambda>it. it_atomic_group it \<noteq> None \<and> it_retention it = Required) items
      then Err ''atomic groups cannot contain required-retention items''
      else let mcp = filter (\<lambda>it. it_atomic_group it = Some McpCatalogue) items;
               mcp_a = length (filter (\<lambda>it. it_block it = BlockA) mcp);
               mcp_d = length (filter (\<lambda>it. it_block it = BlockD) mcp);
               mcp_other = length (filter (\<lambda>it. it_block it \<noteq> BlockA \<and> it_block it \<noteq> BlockD) mcp)
           in if (mcp_a = 0 \<and> mcp_d = 0 \<and> mcp_other = 0) \<or> (mcp_a = 1 \<and> mcp_d = 1 \<and> mcp_other = 0)
              then Ok ()
              else Err ''MCP catalogue atomic group requires exactly one Block A protocol and one Block D data item'')"

fun render_items :: "block_item list \<Rightarrow> string option \<Rightarrow> string list \<Rightarrow> string + (string option \<times> string list)" where
  "render_items [] prompt parts = Ok (prompt, parts)"
| "render_items (it # items) prompt parts =
     (if it_block it = BlockE
      then (if prompt \<noteq> None then Err ''token-budget bundle contains multiple Block E items''
            else render_items items (Some (it_content it)) parts)
      else render_items items prompt (parts @ [it_content it]))"

fun join_parts :: "string \<Rightarrow> string list \<Rightarrow> string" where
  "join_parts sep [] = []"
| "join_parts sep [p] = p"
| "join_parts sep (p # ps) = p @ sep @ join_parts sep ps"

definition LF :: char where "LF = char_of (10 :: nat)"

definition render_request :: "block_item list \<Rightarrow> string + (string \<times> string option)" where
  "render_request items =
     (case validate_atomic_groups items of
        Inl e \<Rightarrow> Err e
      | Inr _ \<Rightarrow> (case render_items items None [] of
          Inl e \<Rightarrow> Err e
        | Inr (None, _) \<Rightarrow> Err ''token-budget bundle is missing Block E''
        | Inr (Some prompt, parts) \<Rightarrow>
            Ok (prompt, if parts = [] then None else Some (join_parts [LF, LF] parts))))"

definition replace_user_message :: "string \<Rightarrow> block_item list \<Rightarrow> block_item list \<times> (string + unit)" where
  "replace_user_message content items =
     (case position (\<lambda>it. it_block it = BlockE) items of
        None \<Rightarrow> (items, Err ''token-budget bundle is missing Block E'')
      | Some i \<Rightarrow>
          if list_ex (\<lambda>it. it_block it = BlockE) (drop (Suc i) items)
          then (items, Err ''token-budget bundle contains multiple Block E items'')
          else let it = items ! i;
                   it = (if it_content it \<noteq> content then it\<lparr>it_prompt_origin := None\<rparr> else it)
               in (items[i := replace_content content it], Ok ()))"

section \<open>Accounting\<close>

record block_tokens =
  bt_block :: prompt_block
  bt_tokens_before :: u32
  bt_tokens_after :: u32
  bt_items_before :: u32
  bt_items_after :: u32

record budget_exceeded_detail =
  bx_cap :: u32
  bx_original_total :: u32
  bx_new_total :: u32
  bx_dropped_d_count :: u32
  bx_dropped_c_count :: u32
  bx_conductor_truncated :: bool
  bx_per_block :: "block_tokens list"

definition count_total :: "block_item list \<Rightarrow> u32" where
  "count_total items = foldl (\<lambda>n it. saturating_add n (it_tokens it)) 0 items"

fun block_discrim :: "prompt_block \<Rightarrow> nat" where
  "block_discrim BlockA = 0"
| "block_discrim BlockB = 1"
| "block_discrim BlockC = 2"
| "block_discrim BlockD = 3"
| "block_discrim BlockE = 4"
| "block_discrim BlockConductor = 5"

definition snapshot_item ::
    "(nat, prompt_block \<times> u32 \<times> u32) btree \<Rightarrow> block_item \<Rightarrow> (nat, prompt_block \<times> u32 \<times> u32) btree" where
  "snapshot_item m it =
     (case (case btree_get m (block_discrim (it_block it)) of None \<Rightarrow> (it_block it, 0, 0) | Some e \<Rightarrow> e) of
        (b, toks, cnt) \<Rightarrow> btree_insert (block_discrim (it_block it))
          (b, saturating_add toks (it_tokens it), saturating_add cnt 1) m)"

definition snapshot_per_block :: "block_item list \<Rightarrow> (prompt_block \<times> u32 \<times> u32) list" where
  "snapshot_per_block items = map snd (foldl snapshot_item [] items)"

definition build_per_block ::
    "(prompt_block \<times> u32 \<times> u32) list \<Rightarrow> (prompt_block \<times> u32 \<times> u32) list \<Rightarrow> block_tokens list" where
  "build_per_block pre post = map (\<lambda>(b, toks, cnt).
     case (case map_of post b of None \<Rightarrow> (0, 0) | Some e \<Rightarrow> e) of
       (toks', cnt') \<Rightarrow> \<lparr>bt_block = b, bt_tokens_before = toks, bt_tokens_after = toks',
                         bt_items_before = cnt, bt_items_after = cnt'\<rparr>) pre"

section \<open>One degradation pass\<close>

definition expand_atomic_removals :: "block_item list \<Rightarrow> nat list \<Rightarrow> nat list" where
  "expand_atomic_removals items indices =
     (let selected_groups = concat (map (\<lambda>i. if i < length items
            then (case it_atomic_group (items ! i) of None \<Rightarrow> [] | Some g \<Rightarrow> [g]) else []) indices)
      in if selected_groups = [] then indices
         else remdups_adj (sort (indices @ filter (\<lambda>i. case it_atomic_group (items ! i) of
                None \<Rightarrow> False | Some g \<Rightarrow> g \<in> set selected_groups) [0..<length items])))"

definition degradable_indices :: "prompt_block \<Rightarrow> block_item list \<Rightarrow> nat list" where
  "degradable_indices b items =
     filter (\<lambda>i. it_block (items ! i) = b \<and> it_retention (items ! i) = Degradable) [0..<length items]"

fun remove_counting :: "prompt_block \<Rightarrow> nat list \<Rightarrow> block_item list \<Rightarrow> u32 \<Rightarrow> block_item list \<times> u32" where
  "remove_counting b [] items n = (items, n)"
| "remove_counting b (i # is) items n =
     remove_counting b is (remove_at i items) (if it_block (items ! i) = b then n + 1 else n)"

definition drop_first_half :: "prompt_block \<Rightarrow> nat list \<Rightarrow> block_item list \<Rightarrow> block_item list \<times> u32" where
  "drop_first_half b sorted_indices items =
     (let half = div_ceil (length sorted_indices) 2;
          to_remove = expand_atomic_removals items (take half sorted_indices)
      in remove_counting b (rev (sort to_remove)) items 0)"

fun insert_by :: "('a \<Rightarrow> 'a \<Rightarrow> bool) \<Rightarrow> 'a \<Rightarrow> 'a list \<Rightarrow> 'a list" where
  "insert_by gt x [] = [x]"
| "insert_by gt x (y # ys) = (if gt x y then y # insert_by gt x ys else x # y # ys)"

text \<open>
  \<open>slice::sort_by\<close>: for a comparison under which the elements are totally ordered up to
  equivalence, the stable sort; otherwise a panic (\<open>None\<close>) or some order, given by a relation.
\<close>

definition total_order_on :: "('a \<Rightarrow> 'a \<Rightarrow> bool) \<Rightarrow> 'a list \<Rightarrow> bool" where
  "total_order_on gt xs \<longleftrightarrow> (\<forall>x \<in> set xs. \<forall>y \<in> set xs. (gt x y \<longrightarrow> \<not> gt y x)
     \<and> (\<forall>z \<in> set xs. (gt x y \<longrightarrow> gt y z \<longrightarrow> gt x z) \<and> (gt x z \<longrightarrow> gt x y \<or> gt y z)))"

definition insertion_sort :: "('a \<Rightarrow> 'a \<Rightarrow> bool) \<Rightarrow> 'a list \<Rightarrow> 'a list" where
  "insertion_sort gt xs = foldr (insert_by gt) xs []"

definition sort_by :: "('a \<Rightarrow> 'a \<Rightarrow> bool) option \<Rightarrow> ('a \<Rightarrow> 'a \<Rightarrow> bool) \<Rightarrow> 'a list \<Rightarrow> 'a list option" where
  "sort_by other gt xs =
     (if total_order_on gt xs then Some (insertion_sort gt xs)
      else map_option (\<lambda>gt'. insertion_sort gt' xs) other)"

text \<open>What the sort of a pass does when the importances are not totally ordered.\<close>

type_synonym sort_outcome = "block_item list \<Rightarrow> (nat \<Rightarrow> nat \<Rightarrow> bool) option"

definition drop_d_step :: "u32 \<Rightarrow> block_item list \<Rightarrow> block_item list \<times> u32" where
  "drop_d_step cap items =
     (let d_indices = degradable_indices BlockD items
      in if count_total items > cap \<and> d_indices \<noteq> []
         then drop_first_half BlockD (sort_key (\<lambda>i. it_ts_ns (items ! i)) d_indices) items
         else (items, 0))"

definition drop_c_step :: "sort_outcome \<Rightarrow> u32 \<Rightarrow> block_item list \<Rightarrow> (block_item list \<times> u32) option" where
  "drop_c_step so cap items =
     (let c_indices = degradable_indices BlockC items
      in if count_total items > cap \<and> c_indices \<noteq> []
         then map_option (\<lambda>sorted_indices. drop_first_half BlockC sorted_indices items)
           (sort_by (so items) (\<lambda>a b. f32_lt (it_importance (items ! b)) (it_importance (items ! a))) c_indices)
         else Some (items, 0))"

definition truncatable :: "block_item \<Rightarrow> bool" where
  "truncatable it \<longleftrightarrow> it_block it = BlockConductor \<and> it_retention it = Degradable \<and> it_tokens it > 1"

definition truncate_item :: "block_item \<Rightarrow> block_item" where
  "truncate_item it =
     (if truncatable it
      then let keep_chars = max (div_ceil (length (utf8_chunks (it_content it))) 2) 1
           in replace_content (concat (take keep_chars (utf8_chunks (it_content it)))) it
      else it)"

definition truncate_conductor :: "u32 \<Rightarrow> block_item list \<Rightarrow> block_item list \<times> bool" where
  "truncate_conductor cap items =
     (if count_total items > cap then (map truncate_item items, list_ex truncatable items)
      else (items, False))"

text \<open>An error the code returns, or a panic.\<close>

datatype fit_error = FitErr string | FitPanic string

definition enforce_budget ::
    "sort_outcome \<Rightarrow> block_item list \<Rightarrow> u32 \<Rightarrow> block_item list \<times> (fit_error + budget_exceeded_detail option)" where
  "enforce_budget so items cap =
     (case validate_atomic_groups items of
        Inl e \<Rightarrow> (items, Err (FitErr e))
      | Inr _ \<Rightarrow>
          if count_total items \<le> cap then (items, Ok None)
          else case drop_d_step cap items of (items1, dropped_d) \<Rightarrow>
               (case drop_c_step so cap items1 of
                  None \<Rightarrow> (items1, Err (FitPanic ''sort_by''))
                | Some (items2, dropped_c) \<Rightarrow>
                    (case truncate_conductor cap items2 of (items3, truncated) \<Rightarrow>
                     (items3, Ok (Some \<lparr>bx_cap = cap, bx_original_total = count_total items,
                        bx_new_total = count_total items3, bx_dropped_d_count = dropped_d,
                        bx_dropped_c_count = dropped_c, bx_conductor_truncated = truncated,
                        bx_per_block = build_per_block (snapshot_per_block items) (snapshot_per_block items3)\<rparr>)))))"

section \<open>The provider boundary\<close>

partial_function (option) fit_loop ::
    "sort_outcome \<Rightarrow> u32 \<Rightarrow> block_item list \<Rightarrow> u32 \<Rightarrow> u32 \<Rightarrow> bool
     \<Rightarrow> (block_item list \<times> (fit_error + u32 \<times> u32 \<times> bool)) option" where
  "fit_loop so cap items dropped_d dropped_c truncated =
     (if count_total items > cap
      then case enforce_budget so items cap of
             (items1, Inl e) \<Rightarrow> Some (items1, Err e)
           | (items1, Inr None) \<Rightarrow>
               Some (items1, Err (FitPanic ''over-cap pass returns detail after validated input''))
           | (items1, Inr (Some d)) \<Rightarrow>
               (if count_total items1 \<ge> count_total items
                then Some (items1, Ok (saturating_add dropped_d (bx_dropped_d_count d),
                       saturating_add dropped_c (bx_dropped_c_count d), truncated \<or> bx_conductor_truncated d))
                else fit_loop so cap items1 (saturating_add dropped_d (bx_dropped_d_count d))
                       (saturating_add dropped_c (bx_dropped_c_count d)) (truncated \<or> bx_conductor_truncated d))
      else Some (items, Ok (dropped_d, dropped_c, truncated)))"

declare fit_loop.simps [code]

definition enforce_budget_to_fit ::
    "sort_outcome \<Rightarrow> block_item list \<Rightarrow> u32 \<Rightarrow> (block_item list \<times> (fit_error + budget_exceeded_detail option)) option" where
  "enforce_budget_to_fit so items cap =
     (case validate_atomic_groups items of
        Inl e \<Rightarrow> Some (items, Err (FitErr e))
      | Inr _ \<Rightarrow>
          if count_total items \<le> cap then Some (items, Ok None)
          else case fit_loop so cap items 0 0 False of
            None \<Rightarrow> None
          | Some (items1, Inl e) \<Rightarrow> Some (items1, Err e)
          | Some (items1, Inr (dropped_d, dropped_c, truncated)) \<Rightarrow>
              Some (items1, Ok (Some \<lparr>bx_cap = cap, bx_original_total = count_total items,
                bx_new_total = count_total items1, bx_dropped_d_count = dropped_d,
                bx_dropped_c_count = dropped_c, bx_conductor_truncated = truncated,
                bx_per_block = build_per_block (snapshot_per_block items) (snapshot_per_block items1)\<rparr>)))"

record daemon_budget_out =
  do_system :: "string option"
  do_prompt :: string
  do_total_tokens :: u32

definition finalize_daemon_request ::
    "sort_outcome \<Rightarrow> string \<Rightarrow> string option \<Rightarrow> u32 \<Rightarrow> (fit_error + daemon_budget_out) option" where
  "finalize_daemon_request so prompt system cap =
     (let items = (case system of None \<Rightarrow> [] | Some sys \<Rightarrow> [item_new BlockA sys]) @ [item_new BlockE prompt]
      in case enforce_budget_to_fit so items cap of
           None \<Rightarrow> None
         | Some (_, Inl e) \<Rightarrow> Some (Err e)
         | Some (items1, Inr _) \<Rightarrow>
             if count_total items1 > cap
             then Some (Err (FitErr ''daemon prompt + system exceeds token cap; protected A/E cannot be degraded''))
             else (case render_request items1 of
                     Inl e \<Rightarrow> Some (Err (FitErr e))
                   | Inr (prompt_out, system_out) \<Rightarrow> Some (Ok \<lparr>do_system = system_out, do_prompt = prompt_out,
                       do_total_tokens = count_total items1\<rparr>)))"

section \<open>The cap of a model\<close>

text \<open>
  \<open>window as f64 * 0.85\<close> in double precision: 0.85 is the double with significand
  \<open>0x1B333333333333\<close> and exponent -53, and the product is rounded to 53 significant
  bits, halves to even; \<open>as u32\<close> then truncates.
\<close>

definition CAP_200K :: u32 where "CAP_200K = 200000"

definition WINDOW_SCALE_FRAC :: nat where "WINDOW_SCALE_FRAC = 0x1B333333333333"

definition scale_window :: "nat \<Rightarrow> u32" where
  "scale_window window =
     (let p = window * WINDOW_SCALE_FRAC; k = bit_length p - 53
      in word_of_nat (round_half_even p k * 2 ^ k div 2 ^ 53))"

definition KNOWN_CONTEXT_WINDOWS :: "(string \<times> nat) list" where
  "KNOWN_CONTEXT_WINDOWS =
     [(''claude-opus-4-7'', 200000), (''claude-sonnet-4-6'', 200000), (''claude-haiku-4-5'', 200000),
      (''claude-opus-4'', 200000), (''claude-sonnet-4'', 200000), (''gpt-4.1'', 1047576), (''gpt-4o'', 128000),
      (''gemini-2.5-pro'', 1000000), (''gemini-2.5-flash'', 1000000), (''gemini-2.0'', 1000000)]"

fun str_contains :: "string \<Rightarrow> string \<Rightarrow> bool" where
  "str_contains s p = (starts_with s p \<or> (case s of [] \<Rightarrow> False | _ # t \<Rightarrow> str_contains t p))"

declare str_contains.simps [simp del]

text \<open>\<open>Iterator::max_by_key\<close> returns the last of several maximal elements.\<close>

fun max_by_key :: "('a \<Rightarrow> nat) \<Rightarrow> 'a list \<Rightarrow> 'a option" where
  "max_by_key f [] = None"
| "max_by_key f (x # xs) = (case max_by_key f xs of None \<Rightarrow> Some x | Some y \<Rightarrow> Some (if f x \<le> f y then y else x))"

definition effective_cap :: "string \<Rightarrow> string \<Rightarrow> u32 \<Rightarrow> u32" where
  "effective_cap provider_name model_name operator_cap =
     (let lower = to_ascii_lowercase model_name;
          best = max_by_key (\<lambda>(stem, _). length stem)
            (filter (\<lambda>(stem, _). str_contains lower stem) KNOWN_CONTEXT_WINDOWS)
      in case best of None \<Rightarrow> operator_cap
         | Some (_, window) \<Rightarrow> min (min (scale_window window) CAP_200K) operator_cap)"

section \<open>Totals\<close>

definition sum_tokens :: "block_item list \<Rightarrow> nat" where
  "sum_tokens items = (\<Sum>it \<leftarrow> items. unat (it_tokens it))"

lemma sum_tokens_simps [simp]:
  "sum_tokens [] = 0" "sum_tokens (it # items) = unat (it_tokens it) + sum_tokens items"
  "sum_tokens (xs @ ys) = sum_tokens xs + sum_tokens ys"
  by (simp_all add: sum_tokens_def)

lemma unat_count_total: "unat (count_total items) = min (sum_tokens items) (2 ^ 32 - 1)"
proof -
  have "unat (foldl (\<lambda>n it. saturating_add n (it_tokens it)) a items) = min (unat a + sum_tokens items) (2 ^ 32 - 1)" for a
  proof (induction items arbitrary: a)
    case Nil
    show ?case using unat_bounds(3) [of a] by simp
  next
    case (Cons it items)
    then show ?case by (simp add: unat_saturating_add)
  qed
  from this [of 0] show ?thesis by (simp add: count_total_def)
qed

lemma unat_u32_clamp: "unat (u32_clamp n) = min n (2 ^ 32 - 1)"
  by (auto simp: u32_clamp_def unat_of_nat unsigned_minus_1_eq_mask mask_eq_exp_minus_1)

section \<open>Removing items by index\<close>

lemma nths_cong_index: "(\<And>i. i < length xs \<Longrightarrow> i \<in> A \<longleftrightarrow> i \<in> B) \<Longrightarrow> nths xs A = nths xs B"
  unfolding nths_def by (rule arg_cong [where f = "map fst"], rule filter_cong) (auto simp: set_zip)

text \<open>Removing from the highest index down keeps exactly the other items.\<close>

lemma nths_remove_at:
  assumes "i < length xs" "\<forall>j \<in> A. j < i"
  shows "nths (remove_at i xs) (- A) = nths xs (- insert i A)"
proof -
  obtain us x vs where xs: "xs = us @ x # vs" and l: "length us = i"
    using id_take_nth_drop [OF assms(1)] assms(1) by (metis length_take min.absorb4)
  have "nths vs {j. j + i \<in> - A} = vs" "nths vs {j. Suc (j + i) \<in> - insert i A} = vs"
    using assms(2) by (intro nths_all; force)+
  moreover have "nths us (- insert i A) = nths us (- A)"
    using l by (intro nths_cong_index) auto
  ultimately show ?thesis
    by (simp add: xs remove_at_def l nths_append nths_Cons)
qed

lemma remove_counting_nths:
  assumes "sorted is" "distinct is" "\<forall>i \<in> set is. i < length items"
  shows "remove_counting b (rev is) items n = (nths items (- set is),
     n + word_of_nat (length (filter (\<lambda>i. it_block (items ! i) = b) is)))"
  using assms
proof (induction "is" arbitrary: items n rule: rev_induct)
  case Nil
  then show ?case by (simp add: nths_all)
next
  case (snoc i "is")
  have less: "\<forall>j \<in> set is. j < i" using snoc.prems by (auto simp: sorted_append order.strict_iff_order)
  have len: "\<forall>j \<in> set is. j < length (remove_at i items)" using less snoc.prems by (auto simp: remove_at_def)
  have same: "filter (\<lambda>j. it_block (remove_at i items ! j) = b) is = filter (\<lambda>j. it_block (items ! j) = b) is"
    using less snoc.prems by (intro filter_cong) (auto simp: remove_at_def nth_append)
  have "nths (remove_at i items) (- set is) = nths items (- insert i (set is))"
    using less snoc.prems by (intro nths_remove_at) auto
  moreover have "remove_counting b (rev is) (remove_at i items) m =
      (nths (remove_at i items) (- set is), m + word_of_nat (length (filter (\<lambda>j. it_block (items ! j) = b) is)))" for m
    using snoc.IH [of "remove_at i items" m] snoc.prems len by (simp add: sorted_append same)
  ultimately show ?case by simp
qed

abbreviation grouped :: "block_item \<Rightarrow> bool" where
  "grouped it \<equiv> it_atomic_group it \<noteq> None"

lemma one_group: "(g :: atomic_group) = h"
  by (cases g; cases h) simp

lemma grouped_iff: "it_atomic_group it = Some McpCatalogue \<longleftrightarrow> grouped it"
  using one_group by auto

text \<open>
  The indices that expansion yields: the given ones, and with a grouped item every grouped item.
\<close>

lemma expand_atomic_removals_set:
  assumes "set is \<subseteq> {..<length items}"
  shows "set (expand_atomic_removals items is) =
     (if \<exists>i \<in> set is. grouped (items ! i) then set is \<union> {i. i < length items \<and> grouped (items ! i)} else set is)"
proof -
  let ?g = "concat (map (\<lambda>i. if i < length items
            then (case it_atomic_group (items ! i) of None \<Rightarrow> [] | Some g \<Rightarrow> [g]) else []) is)"
  have none: "?g = [] \<longleftrightarrow> \<not> (\<exists>i \<in> set is. grouped (items ! i))"
    using assms by (fastforce simp: concat_eq_Nil_conv split: option.splits)
  show ?thesis
  proof (cases "?g = []")
    case True
    then show ?thesis using none by (simp add: expand_atomic_removals_def Let_def del: concat_eq_Nil_conv)
  next
    case False
    then obtain g where "g \<in> set ?g" by (meson last_in_set)
    then have "h \<in> set ?g" for h using one_group [of g h] by simp
    then have "{i. i < length items \<and> (case it_atomic_group (items ! i) of None \<Rightarrow> False | Some g \<Rightarrow> g \<in> set ?g)} =
        {i. i < length items \<and> grouped (items ! i)}"
      by (auto split: option.splits)
    then show ?thesis using False none
      by (simp add: expand_atomic_removals_def Let_def atLeast0LessThan Collect_conj_eq inf_commute lessThan_def
          del: concat_eq_Nil_conv set_concat)
  qed
qed

lemma distinct_remdups_adj_sorted: "sorted xs \<Longrightarrow> distinct (remdups_adj xs)"
proof (induction xs rule: remdups_adj.induct)
  case (3 x y ys)
  then show ?case by (auto simp: order.antisym)
qed simp_all

lemma distinct_expand_atomic_removals: "distinct is \<Longrightarrow> distinct (expand_atomic_removals items is)"
  by (simp add: expand_atomic_removals_def Let_def distinct_remdups_adj_sorted)

lemma filter_nths_all:
  "(\<And>i. i < length xs \<Longrightarrow> P (xs ! i) \<Longrightarrow> i \<in> A) \<Longrightarrow> filter P (nths xs A) = filter P xs"
proof (induction xs arbitrary: A)
  case (Cons x xs)
  have "filter P (nths xs {j. Suc j \<in> A}) = filter P xs"
    using Cons.prems [of "Suc i" for i] by (intro Cons.IH) auto
  then show ?case using Cons.prems [of 0] by (auto simp: nths_Cons)
qed simp

lemma filter_nths_none:
  "(\<And>i. i < length xs \<Longrightarrow> P (xs ! i) \<Longrightarrow> i \<notin> A) \<Longrightarrow> filter P (nths xs A) = []"
  by (auto simp: filter_empty_conv set_nths)

lemma sum_tokens_nths:
  "sum_tokens (nths items A) + (\<Sum>i \<leftarrow> filter (\<lambda>i. i \<notin> A) [0..<length items]. unat (it_tokens (items ! i))) = sum_tokens items"
proof (induction items arbitrary: A)
  case (Cons it items)
  have "[0..<length (it # items)] = 0 # map Suc [0..<length items]"
    by (simp add: map_Suc_upt upt_conv_Cons del: upt_Suc)
  then show ?case using Cons.IH [of "{j. Suc j \<in> A}"]
    by (auto simp: nths_Cons filter_map comp_def simp del: upt_Suc)
qed simp

lemma sum_tokens_nths_le: "sum_tokens (nths items A) \<le> sum_tokens items"
  using sum_tokens_nths [of items A] by simp

lemma sum_tokens_nths_less:
  assumes "i < length items" "i \<notin> A" "it_tokens (items ! i) \<noteq> 0"
  shows "sum_tokens (nths items A) < sum_tokens items"
proof -
  have "unat (it_tokens (items ! i)) \<le> (\<Sum>j \<leftarrow> filter (\<lambda>j. j \<notin> A) [0..<length items]. unat (it_tokens (items ! j)))"
    using assms(1,2) by (intro member_le_sum_list) auto
  moreover have "0 < unat (it_tokens (items ! i))" using assms(3) by (simp add: unat_gt_0)
  ultimately show ?thesis using sum_tokens_nths [of items A] by linarith
qed

lemma drop_first_half_nths:
  assumes "set is \<subseteq> {..<length items}" "distinct is"
  defines "R \<equiv> set (expand_atomic_removals items (take (div_ceil (length is) 2) is))"
  shows "fst (drop_first_half b is items) = nths items (- R)"
    and "snd (drop_first_half b is items) = word_of_nat (card {i \<in> R. it_block (items ! i) = b})"
    and "R \<subseteq> {..<length items}"
proof -
  let ?t = "take (div_ceil (length is) 2) is"
  let ?r = "expand_atomic_removals items ?t"
  have t: "set ?t \<subseteq> {..<length items}" using assms(1) set_take_subset by fastforce
  then show R: "R \<subseteq> {..<length items}" unfolding R_def expand_atomic_removals_set [OF t] by auto
  have d: "distinct ?r" by (rule distinct_expand_atomic_removals) (simp add: assms(2))
  then have s: "sorted (sort ?r)" "distinct (sort ?r)" "\<forall>i \<in> set (sort ?r). i < length items"
    using R by (auto simp: R_def)
  have "length (filter (\<lambda>i. it_block (items ! i) = b) (sort ?r)) = card {i \<in> R. it_block (items ! i) = b}"
    using s(2) by (simp add: R_def distinct_length_filter Int_def conj_commute)
  then show "fst (drop_first_half b is items) = nths items (- R)"
    "snd (drop_first_half b is items) = word_of_nat (card {i \<in> R. it_block (items ! i) = b})"
    using remove_counting_nths [OF s, of b 0] by (simp_all add: drop_first_half_def R_def Let_def)
qed

section \<open>What a pass keeps\<close>

text \<open>
  An item is protected when it stands alone and is either required or of a block that is never
  degraded. \<open>degrades\<close> relates a prompt to one with the same protected items in the same
  order and with the atomic group kept whole or gone.
\<close>

definition protected_item :: "block_item \<Rightarrow> bool" where
  "protected_item it \<longleftrightarrow> \<not> grouped it \<and> (\<not> is_degradable (it_block it) \<or> it_retention it = Required)"

definition degrades :: "block_item list \<Rightarrow> block_item list \<Rightarrow> bool" where
  "degrades items items' \<longleftrightarrow> filter protected_item items' = filter protected_item items
     \<and> (filter grouped items' = filter grouped items \<or> filter grouped items' = [])"

definition well_bound :: "block_item list \<Rightarrow> bool" where
  "well_bound items \<longleftrightarrow> (\<forall>it \<in> set items. it_tokens it = count_tokens_upper_bound (it_content it))"

definition context_nonempty :: "block_item list \<Rightarrow> bool" where
  "context_nonempty items \<longleftrightarrow>
     (\<forall>it \<in> set items. it_block it \<in> {BlockC, BlockD} \<and> it_retention it = Degradable \<longrightarrow> it_content it \<noteq> [])"

definition exhausted :: "block_item list \<Rightarrow> bool" where
  "exhausted items \<longleftrightarrow> (\<forall>it \<in> set items. it_retention it = Degradable \<longrightarrow>
     it_block it \<notin> {BlockC, BlockD} \<and> (it_block it = BlockConductor \<longrightarrow> length (utf8_chunks (it_content it)) \<le> 1))"

lemma degrades_refl: "degrades items items"
  by (simp add: degrades_def)

lemma degrades_trans: "degrades xs ys \<Longrightarrow> degrades ys zs \<Longrightarrow> degrades xs zs"
  by (auto simp: degrades_def)

lemma validate_grouped: "validate_atomic_groups items = validate_atomic_groups (filter grouped items)"
proof -
  have "filter (\<lambda>it. it_atomic_group it = Some McpCatalogue) (filter grouped items) =
      filter (\<lambda>it. it_atomic_group it = Some McpCatalogue) items"
    by (simp add: grouped_iff conj_commute)
  moreover have "list_ex (\<lambda>it. grouped it \<and> it_retention it = Required) (filter grouped items) =
      list_ex (\<lambda>it. grouped it \<and> it_retention it = Required) items"
    by (auto simp: list_ex_iff)
  ultimately show ?thesis by (simp only: validate_atomic_groups_def)
qed

lemma validate_degrades: "degrades items items' \<Longrightarrow> validate_atomic_groups items = Ok () \<Longrightarrow> validate_atomic_groups items' = Ok ()"
proof -
  assume d: "degrades items items'" and v: "validate_atomic_groups items = Ok ()"
  have "validate_atomic_groups [] = Ok ()" by (simp add: validate_atomic_groups_def)
  with d v show "validate_atomic_groups items' = Ok ()"
    unfolding degrades_def validate_grouped [of items] validate_grouped [of items'] by metis
qed

lemma valid_grouped_item:
  assumes "validate_atomic_groups items = Ok ()" "it \<in> set items" "grouped it"
  shows "it_block it \<in> {BlockA, BlockD}" "it_retention it = Degradable"
proof -
  have "filter (\<lambda>it. it_block it \<noteq> BlockA \<and> it_block it \<noteq> BlockD)
      (filter (\<lambda>it. it_atomic_group it = Some McpCatalogue) items) = []"
    "\<not> list_ex (\<lambda>it. grouped it \<and> it_retention it = Required) items"
    using assms(1) by (auto simp: validate_atomic_groups_def Let_def simp del: filter_filter split: if_splits)
  then have n: "\<not> (it_block it \<noteq> BlockA \<and> it_block it \<noteq> BlockD)" "it_retention it \<noteq> Required"
    using assms(2,3) grouped_iff [of it] by (simp add: filter_empty_conv, fastforce simp: list_ex_iff)
  from n(1) show "it_block it \<in> {BlockA, BlockD}" by blast
  show "it_retention it = Degradable" using n(2) by (cases "it_retention it") auto
qed

lemma half_step:
  assumes idx: "set is = set (degradable_indices b items)" "distinct is" and b: "is_degradable b"
  defines "items' \<equiv> fst (drop_first_half b is items)"
  shows "degrades items items'" and "set items' \<subseteq> set items" and "sum_tokens items' \<le> sum_tokens items"
    and "is \<noteq> [] \<Longrightarrow> (\<And>it. it \<in> set items \<Longrightarrow> it_block it = b \<Longrightarrow> it_retention it = Degradable \<Longrightarrow> it_tokens it \<noteq> 0)
      \<Longrightarrow> sum_tokens items' < sum_tokens items"
proof -
  let ?t = "take (div_ceil (length is) 2) is"
  let ?R = "set (expand_atomic_removals items ?t)"
  have sub: "set is \<subseteq> {..<length items}" using idx(1) by (auto simp: degradable_indices_def)
  have items': "items' = nths items (- ?R)" unfolding items'_def by (rule drop_first_half_nths [OF sub idx(2)])
  have t: "set ?t \<subseteq> set is" by (rule set_take_subset)
  then have tl: "set ?t \<subseteq> {..<length items}" using sub by blast
  have R: "?R = (if \<exists>i \<in> set ?t. grouped (items ! i) then set ?t \<union> {i. i < length items \<and> grouped (items ! i)} else set ?t)"
    by (rule expand_atomic_removals_set [OF tl])
  have tb: "it_block (items ! i) = b \<and> it_retention (items ! i) = Degradable" if "i \<in> set ?t" for i
    using t idx(1) that by (auto simp: degradable_indices_def)
  have "filter protected_item items' = filter protected_item items"
    unfolding items' using tb b by (intro filter_nths_all) (auto simp: R protected_item_def split: if_splits)
  moreover have "filter grouped items' = filter grouped items \<or> filter grouped items' = []"
  proof (cases "\<exists>i \<in> set ?t. grouped (items ! i)")
    case True
    then show ?thesis unfolding items' R by (intro disjI2 filter_nths_none) auto
  next
    case False
    then show ?thesis unfolding items' R by (intro disjI1 filter_nths_all) auto
  qed
  ultimately show "degrades items items'" by (simp add: degrades_def)
  show "set items' \<subseteq> set items" unfolding items' by (rule set_nths_subset)
  show "sum_tokens items' \<le> sum_tokens items" unfolding items' by (rule sum_tokens_nths_le)
  show "sum_tokens items' < sum_tokens items" if "is \<noteq> []"
    "\<And>it. it \<in> set items \<Longrightarrow> it_block it = b \<Longrightarrow> it_retention it = Degradable \<Longrightarrow> it_tokens it \<noteq> 0"
  proof -
    obtain i rest where i: "is = i # rest" using \<open>is \<noteq> []\<close> by (cases "is") auto
    then have it: "i \<in> set ?t" by (simp add: div_ceil_def take_Cons')
    then have "i \<in> ?R" "i < length items" using tl by (auto simp: R)
    moreover from this tb [OF it] have "it_tokens (items ! i) \<noteq> 0" by (intro that(2)) auto
    ultimately show ?thesis unfolding items' by (intro sum_tokens_nths_less) auto
  qed
qed

section \<open>Truncation\<close>

lemma utf8_chunks_nonempty: "ch \<in> set (utf8_chunks s) \<Longrightarrow> ch \<noteq> []"
  by (induction s rule: utf8_chunks.induct) auto

lemma concat_utf8_chunks [simp]: "concat (utf8_chunks s) = s"
  by (induction s rule: utf8_chunks.induct) auto

lemma truncate_length_less:
  assumes "2 \<le> length (utf8_chunks s)"
  shows "length (concat (take (max (div_ceil (length (utf8_chunks s)) 2) 1) (utf8_chunks s))) < length s"
proof -
  let ?n = "length (utf8_chunks s)" and ?k = "max (div_ceil (length (utf8_chunks s)) 2) 1"
  have k: "?k < ?n" using assms by (auto simp: div_ceil_def)
  then have "drop ?k (utf8_chunks s) \<noteq> []" by (simp only: drop_eq_Nil not_le not_False_eq_True)
  then obtain ch chs where d: "drop ?k (utf8_chunks s) = ch # chs" by (meson list.exhaust)
  then have "ch \<noteq> []" by (metis in_set_dropD list.set_intros(1) utf8_chunks_nonempty)
  then have "concat (drop ?k (utf8_chunks s)) \<noteq> []" unfolding d by simp
  moreover have "s = concat (take ?k (utf8_chunks s)) @ concat (drop ?k (utf8_chunks s))"
    by (metis append_take_drop_id concat_append concat_utf8_chunks)
  ultimately show ?thesis by (metis length_append length_greater_0_conv less_add_same_cancel1)
qed

lemma truncate_length_le: "length (concat (take k (utf8_chunks s))) \<le> length s"
  by (metis append_take_drop_id concat_append concat_utf8_chunks le_add1 length_append)

lemma truncate_item_fields [simp]:
  "it_block (truncate_item it) = it_block it" "it_retention (truncate_item it) = it_retention it"
  "it_atomic_group (truncate_item it) = it_atomic_group it"
  by (simp_all add: truncate_item_def replace_content_def Let_def)

lemma truncate_item_id: "\<not> truncatable it \<Longrightarrow> truncate_item it = it"
  by (simp add: truncate_item_def)

lemma truncate_item_bound:
  "it_tokens it = count_tokens_upper_bound (it_content it) \<Longrightarrow>
   it_tokens (truncate_item it) = count_tokens_upper_bound (it_content (truncate_item it))"
  by (simp add: truncate_item_def replace_content_def Let_def)

lemma truncate_item_tokens:
  assumes "it_tokens it = count_tokens_upper_bound (it_content it)"
  shows "unat (it_tokens (truncate_item it)) \<le> unat (it_tokens it)"
    and "unat (it_tokens it) < 2 ^ 32 - 1 \<Longrightarrow> truncatable it \<Longrightarrow> 2 \<le> length (utf8_chunks (it_content it))
      \<Longrightarrow> unat (it_tokens (truncate_item it)) < unat (it_tokens it)"
proof -
  define s' where "s' = concat (take (max (div_ceil (length (utf8_chunks (it_content it))) 2) 1) (utf8_chunks (it_content it)))"
  have le: "length s' \<le> length (it_content it)" unfolding s'_def by (rule truncate_length_le)
  have t: "it_tokens (truncate_item it) = (if truncatable it then u32_clamp (length s') else it_tokens it)"
    by (simp add: truncate_item_def replace_content_def Let_def s'_def count_tokens_upper_bound_def)
  show "unat (it_tokens (truncate_item it)) \<le> unat (it_tokens it)"
    using le assms unfolding t by (auto simp: count_tokens_upper_bound_def unat_u32_clamp)
  show "unat (it_tokens (truncate_item it)) < unat (it_tokens it)" if "unat (it_tokens it) < 2 ^ 32 - 1"
    "truncatable it" "2 \<le> length (utf8_chunks (it_content it))"
    using truncate_length_less [OF that(3), folded s'_def] that(1,2) assms
    unfolding t by (simp add: count_tokens_upper_bound_def unat_u32_clamp)
qed

lemma length_utf8_chunks_le: "length (utf8_chunks s) \<le> length s"
proof (induction s rule: utf8_chunks.induct)
  case (2 c cs)
  then show ?case by (simp add: le_diff_conv)
qed simp

lemma truncate_item_short:
  assumes "it_tokens it = count_tokens_upper_bound (it_content it)"
    and "it_block it = BlockConductor" "it_retention it = Degradable"
    and "truncatable it \<Longrightarrow> length (utf8_chunks (it_content it)) \<le> 1"
  shows "length (utf8_chunks (it_content (truncate_item it))) \<le> 1"
proof (cases "truncatable it")
  case True
  have one: "length (utf8_chunks (it_content it)) \<le> 1" using assms(4) True by blast
  then have "take (max (div_ceil (length (utf8_chunks (it_content it))) 2) 1) (utf8_chunks (it_content it)) = utf8_chunks (it_content it)"
    by (simp add: le_max_iff_disj)
  then have "it_content (truncate_item it) = it_content it"
    by (simp only: truncate_item_def True if_True Let_def replace_content_def concat_utf8_chunks) simp
  then show ?thesis using one by simp
next
  case False
  then have "unat (it_tokens it) \<le> 1" using assms(2,3) by (simp add: truncatable_def not_less word_le_nat_alt)
  then have "length (it_content it) \<le> 1"
    using assms(1) by (simp add: count_tokens_upper_bound_def unat_u32_clamp min_def split: if_splits)
  then show ?thesis using length_utf8_chunks_le [of "it_content it"] False by (simp add: truncate_item_id)
qed

lemma truncate_degrades:
  assumes "validate_atomic_groups items = Ok ()"
  shows "degrades items (map truncate_item items)"
proof -
  have id: "truncate_item it = it" if "it \<in> set items" "protected_item it \<or> grouped it" for it
    using that valid_grouped_item [OF assms that(1)]
    by (intro truncate_item_id) (auto simp: truncatable_def protected_item_def is_degradable_def)
  have "filter P (map truncate_item items) = filter P items"
    if "\<And>it. P (truncate_item it) = P it" "\<And>it. it \<in> set items \<Longrightarrow> P it \<Longrightarrow> truncate_item it = it" for P
    unfolding filter_map comp_def that(1) using that(2) by (intro map_idI) auto
  from this [of protected_item] this [of grouped] id show ?thesis
    by (simp add: degrades_def protected_item_def)
qed

lemma truncate_sum_le: "well_bound items \<Longrightarrow> sum_tokens (map truncate_item items) \<le> sum_tokens items"
proof (induction items)
  case (Cons it items)
  then show ?case using truncate_item_tokens(1) [of it] by (simp add: well_bound_def add_mono)
qed simp

lemma truncate_sum_less:
  assumes "well_bound items" "it \<in> set items" "truncatable it" "2 \<le> length (utf8_chunks (it_content it))"
    "sum_tokens items < 2 ^ 32 - 1"
  shows "sum_tokens (map truncate_item items) < sum_tokens items"
proof -
  obtain us vs where items: "items = us @ it # vs" using assms(2) by (auto simp: in_set_conv_decomp)
  have "sum_tokens (map truncate_item us) \<le> sum_tokens us" "sum_tokens (map truncate_item vs) \<le> sum_tokens vs"
    using assms(1) by (auto simp: items well_bound_def intro!: truncate_sum_le)
  moreover have "unat (it_tokens (truncate_item it)) < unat (it_tokens it)"
    using assms by (intro truncate_item_tokens(2)) (auto simp: items well_bound_def)
  ultimately show ?thesis by (simp add: items)
qed

section \<open>One pass\<close>

lemma set_insert_by [simp]: "set (insert_by gt x xs) = insert x (set xs)"
  by (induction xs) auto

lemma distinct_insert_by [simp]: "distinct (insert_by gt x xs) \<longleftrightarrow> x \<notin> set xs \<and> distinct xs"
  by (induction xs) auto

lemma set_insertion_sort: "set (insertion_sort gt xs) = set xs"
  unfolding insertion_sort_def by (induction xs) auto

lemma distinct_insertion_sort: "distinct (insertion_sort gt xs) \<longleftrightarrow> distinct xs"
proof (induction xs)
  case (Cons x xs)
  then show ?case using set_insertion_sort [of gt xs] by (simp add: insertion_sort_def)
qed (simp add: insertion_sort_def)

lemma sort_by_Some: "sort_by other gt xs = Some ys \<Longrightarrow> set ys = set xs \<and> (distinct ys \<longleftrightarrow> distinct xs)"
  by (auto simp: sort_by_def set_insertion_sort distinct_insertion_sort split: if_splits)

text \<open>Importances that are numbers are totally ordered.\<close>

lemma total_order_numbers:
  "\<forall>i \<in> set is. \<not> f32_is_nan (v i) \<Longrightarrow> total_order_on (\<lambda>a b. f32_lt (v b) (v a)) is"
  by (auto simp: total_order_on_def f32_lt_def)

definition nan_profile :: "block_item list \<Rightarrow> bool" where
  "nan_profile items \<longleftrightarrow> (\<exists>it \<in> set items. it_block it = BlockC \<and> it_retention it = Degradable \<and> f32_is_nan (it_importance it))"

lemma degradable_indices_simps [simp]:
  "distinct (degradable_indices b items)"
  "degradable_indices b items = [] \<longleftrightarrow> (\<forall>it \<in> set items. it_block it = b \<longrightarrow> it_retention it \<noteq> Degradable)"
  by (auto simp: degradable_indices_def filter_empty_conv all_set_conv_all_nth)

lemma bound_tokens_nonzero:
  "it_tokens it = count_tokens_upper_bound (it_content it) \<Longrightarrow> it_content it \<noteq> [] \<Longrightarrow> it_tokens it \<noteq> 0"
proof
  assume "it_tokens it = count_tokens_upper_bound (it_content it)" "it_content it \<noteq> []" "it_tokens it = 0"
  then have "min (length (it_content it)) (2 ^ 32 - 1) = 0"
    using unat_u32_clamp [of "length (it_content it)"] by (simp add: count_tokens_upper_bound_def)
  with \<open>it_content it \<noteq> []\<close> show False by (simp add: min_def split: if_splits)
qed

lemma drop_c_panic: "drop_c_step so cap items = None \<Longrightarrow> nan_profile items"
proof (rule ccontr)
  assume n: "drop_c_step so cap items = None" "\<not> nan_profile items"
  have "\<forall>i \<in> set (degradable_indices BlockC items). \<not> f32_is_nan (it_importance (items ! i))"
    using n(2) by (auto simp: nan_profile_def degradable_indices_def)
  then have "total_order_on (\<lambda>a b. f32_lt (it_importance (items ! b)) (it_importance (items ! a))) (degradable_indices BlockC items)"
    by (rule total_order_numbers)
  with n(1) show False by (simp add: drop_c_step_def sort_by_def Let_def split: if_splits)
qed

lemma drop_step:
  fixes items :: "block_item list" and cap :: u32
  assumes "b = BlockD \<and> items' = fst (drop_d_step cap items) \<or> b = BlockC \<and> (\<exists>n. drop_c_step so cap items = Some (items', n))"
  shows "degrades items items'" and "set items' \<subseteq> set items" and "sum_tokens items' \<le> sum_tokens items"
    and "cap < count_total items \<Longrightarrow> well_bound items \<Longrightarrow> context_nonempty items \<Longrightarrow> sum_tokens items \<le> sum_tokens items'
      \<Longrightarrow> \<forall>it \<in> set items. it_block it = b \<longrightarrow> it_retention it \<noteq> Degradable"
proof -
  obtain "is" where idx: "set is = set (degradable_indices b items)" "distinct is"
    and st: "items' = (if cap < count_total items \<and> degradable_indices b items \<noteq> []
      then fst (drop_first_half b is items) else items)"
  proof (cases "b = BlockD")
    case True
    let ?is = "sort_key (\<lambda>i. it_ts_ns (items ! i)) (degradable_indices b items)"
    show ?thesis
      using assms True by (intro that [of ?is]) (auto simp: drop_d_step_def Let_def simp del: degradable_indices_simps(2))
  next
    case False
    then obtain n where c: "b = BlockC" "drop_c_step so cap items = Some (items', n)" using assms by auto
    let ?gt = "\<lambda>i j. f32_lt (it_importance (items ! j)) (it_importance (items ! i))"
    show ?thesis
    proof (cases "cap < count_total items \<and> degradable_indices b items \<noteq> []")
      case True
      then obtain ys where "sort_by (so items) ?gt (degradable_indices b items) = Some ys" "items' = fst (drop_first_half b ys items)"
        using c by (auto simp: drop_c_step_def Let_def simp del: degradable_indices_simps(2))
      with sort_by_Some [OF this(1)] True show ?thesis by (intro that [of ys]) auto
    next
      case no: False
      then have "items' = items" using c by (auto simp: drop_c_step_def Let_def simp del: degradable_indices_simps(2))
      with no show ?thesis by (intro that [of "degradable_indices b items"]) auto
    qed
  qed
  have b: "is_degradable b" using assms(1) by (auto simp: is_degradable_def)
  note h = half_step [OF idx b]
  show "degrades items items'" "set items' \<subseteq> set items" "sum_tokens items' \<le> sum_tokens items"
    using h(1-3) degrades_refl by (simp_all add: st)
  show "\<forall>it \<in> set items. it_block it = b \<longrightarrow> it_retention it \<noteq> Degradable"
    if "cap < count_total items" "well_bound items" "context_nonempty items" "sum_tokens items \<le> sum_tokens items'"
  proof (rule ccontr)
    assume n: "\<not> ?thesis"
    then have "is \<noteq> []" using idx(1) by (metis degradable_indices_simps(2) set_empty)
    moreover have "it_tokens it \<noteq> 0" if "it \<in> set items" "it_block it = b" "it_retention it = Degradable" for it
      using that assms(1) \<open>well_bound items\<close> \<open>context_nonempty items\<close>
      by (intro bound_tokens_nonzero) (auto simp: well_bound_def context_nonempty_def)
    ultimately have "sum_tokens (fst (drop_first_half b is items)) < sum_tokens items" by (rule h(4))
    then show False using that(1,4) n by (simp add: st split: if_splits)
  qed
qed

lemma bound_subset: "set items' \<subseteq> set items \<Longrightarrow> well_bound items \<Longrightarrow> well_bound items'"
  "set items' \<subseteq> set items \<Longrightarrow> context_nonempty items \<Longrightarrow> context_nonempty items'"
  by (auto simp: well_bound_def context_nonempty_def)

lemma pass_truncate:
  assumes v: "validate_atomic_groups items = Ok ()" and c: "cap < count_total items"
    and items1: "items1 = fst (drop_d_step cap items)" and some: "drop_c_step so cap items1 = Some (items2, n)"
  obtains items' d where "enforce_budget so items cap = (items', Ok (Some d))"
    and "degrades items items'" and "nan_profile items' \<Longrightarrow> nan_profile items"
    and "well_bound items \<Longrightarrow> well_bound items' \<and> sum_tokens items' \<le> sum_tokens items"
    and "well_bound items \<Longrightarrow> context_nonempty items \<Longrightarrow> context_nonempty items'"
    and "well_bound items \<Longrightarrow> context_nonempty items \<Longrightarrow> sum_tokens items < 2 ^ 32 - 1
      \<Longrightarrow> count_total items \<le> count_total items' \<Longrightarrow> exhausted items'"
proof -
  define items' where "items' = fst (truncate_conductor cap items2)"
  note s1 = drop_step [where b = BlockD and items = items and items' = items1 and cap = cap, unfolded items1, simplified, folded items1]
  have "BlockC = BlockD \<and> items2 = fst (drop_d_step cap items1) \<or> BlockC = BlockC \<and> (\<exists>n. drop_c_step so cap items1 = Some (items2, n))"
    using some by blast
  note s2 = drop_step [OF this]
  have v2: "validate_atomic_groups items2 = Ok ()"
    using v s1(1) s2(1) validate_degrades by blast
  have d3: "degrades items2 items'"
    using truncate_degrades [OF v2] degrades_refl by (simp add: items'_def truncate_conductor_def)
  have d: "degrades items items'" using s1(1) s2(1) d3 degrades_trans by blast
  have wb: "well_bound items2 \<and> well_bound items' \<and> sum_tokens items' \<le> sum_tokens items2
      \<and> sum_tokens items2 \<le> sum_tokens items1 \<and> sum_tokens items1 \<le> sum_tokens items"
    if w: "well_bound items"
  proof -
    have w2: "well_bound items2" using w s1(2) s2(2) bound_subset(1) by blast
    then have "well_bound (map truncate_item items2)"
      by (auto simp: well_bound_def intro: truncate_item_bound)
    then show ?thesis using w2 truncate_sum_le [OF w2] s1(3) s2(3)
      by (simp add: items'_def truncate_conductor_def)
  qed
  obtain dd where dd: "drop_d_step cap items = (items1, dd)" using items1 by (cases "drop_d_step cap items") auto
  obtain tr where tr: "truncate_conductor cap items2 = (items', tr)"
    using items'_def by (cases "truncate_conductor cap items2") auto
  have "\<exists>dt. enforce_budget so items cap = (items', Ok (Some dt))"
    using v c by (simp add: enforce_budget_def dd some tr not_le [symmetric])
  then obtain dt where e: "enforce_budget so items cap = (items', Ok (Some dt))" by blast
  have nan: "nan_profile items" if "nan_profile items'"
  proof -
    have "nan_profile items2"
      using that by (auto simp: items'_def truncate_conductor_def nan_profile_def truncate_item_id truncatable_def split: if_splits)
    then show ?thesis using s1(2) s2(2) by (auto simp: nan_profile_def)
  qed
  show thesis
  proof (rule that [OF e d nan])
    show "well_bound items' \<and> sum_tokens items' \<le> sum_tokens items" if "well_bound items"
      using wb [OF that] by linarith
    show "context_nonempty items'" if "well_bound items" "context_nonempty items"
    proof -
      have "context_nonempty items2" using that(2) s1(2) s2(2) bound_subset(2) by blast
      then show ?thesis
        by (auto simp: items'_def truncate_conductor_def context_nonempty_def truncate_item_id truncatable_def)
    qed
    show "exhausted items'" if w: "well_bound items" and n: "context_nonempty items"
      and l: "sum_tokens items < 2 ^ 32 - 1" and t: "count_total items \<le> count_total items'"
    proof -
      note b = wb [OF w]
      have "unat (count_total items) \<le> unat (count_total items')" using t by (simp add: word_le_nat_alt)
      then have eq: "sum_tokens items1 = sum_tokens items" "sum_tokens items2 = sum_tokens items1"
        "sum_tokens items' = sum_tokens items2"
        using l b by (auto simp: unat_count_total)
      have same: "count_total xs = count_total items" if "sum_tokens xs = sum_tokens items" for xs
        using that by (simp add: word_unat_eq_iff unat_count_total)
      have "count_total items1 = count_total items" "count_total items2 = count_total items"
        using eq by (intro same; simp)+
      with c have o1: "cap < count_total items1" and o2: "cap < count_total items2" by simp_all
      have nd: "\<forall>it \<in> set items. it_block it = BlockD \<longrightarrow> it_retention it \<noteq> Degradable"
        using s1(4) [OF c w n] eq by simp
      have nc: "\<forall>it \<in> set items1. it_block it = BlockC \<longrightarrow> it_retention it \<noteq> Degradable"
        using s2(4) [OF o1 bound_subset(1) [OF s1(2) w] bound_subset(2) [OF s1(2) n]] eq by simp
      have "length (utf8_chunks (it_content it)) \<le> 1" if "it \<in> set items2" "truncatable it" for it
      proof (rule ccontr)
        assume "\<not> ?thesis"
        then have "sum_tokens (map truncate_item items2) < sum_tokens items2"
          using that b l eq by (intro truncate_sum_less) auto
        then show False using eq(3) o2 by (simp add: items'_def truncate_conductor_def)
      qed
      then have "length (utf8_chunks (it_content (truncate_item it))) \<le> 1"
        if "it \<in> set items2" "it_block it = BlockConductor" "it_retention it = Degradable" for it
        using that b by (intro truncate_item_short) (auto simp: well_bound_def)
      then show ?thesis
        using nd nc s1(2) s2(2) o2 by (auto simp: exhausted_def items'_def truncate_conductor_def subset_iff)
    qed
  qed
qed

text \<open>A pass panics in the sort, for a NaN importance, or shrinks the prompt.\<close>

lemma pass_cases:
  assumes v: "validate_atomic_groups items = Ok ()" and c: "cap < count_total items"
  obtains (panic) items' where "enforce_budget so items cap = (items', Err (FitPanic ''sort_by''))" "degrades items items'" "nan_profile items"
  | (pass) items' d where "enforce_budget so items cap = (items', Ok (Some d))"
    and "degrades items items'" and "nan_profile items' \<Longrightarrow> nan_profile items"
    and "well_bound items \<Longrightarrow> well_bound items' \<and> sum_tokens items' \<le> sum_tokens items"
    and "well_bound items \<Longrightarrow> context_nonempty items \<Longrightarrow> context_nonempty items'"
    and "well_bound items \<Longrightarrow> context_nonempty items \<Longrightarrow> sum_tokens items < 2 ^ 32 - 1
      \<Longrightarrow> count_total items \<le> count_total items' \<Longrightarrow> exhausted items'"
proof -
  define items1 where "items1 = fst (drop_d_step cap items)"
  note s1 = drop_step [where b = BlockD and items = items and items' = items1 and cap = cap, unfolded items1_def, simplified, folded items1_def]
  show thesis
  proof (cases "drop_c_step so cap items1")
    case None
    obtain dd where dd: "drop_d_step cap items = (items1, dd)" using items1_def by (cases "drop_d_step cap items") auto
    have "nan_profile items" using drop_c_panic [OF None] s1(2) by (auto simp: nan_profile_def)
    moreover have "enforce_budget so items cap = (items1, Err (FitPanic ''sort_by''))"
      using v c by (simp add: enforce_budget_def dd None not_le [symmetric])
    ultimately show thesis using panic s1(1) by blast
  next
    case (Some p)
    then obtain items2 n where some: "drop_c_step so cap items1 = Some (items2, n)" by (cases p) auto
    show thesis using pass_truncate [OF v c items1_def some] pass by blast
  qed
qed

section \<open>The loop\<close>

lemma fit_loop_spec:
  assumes "validate_atomic_groups items = Ok ()"
  shows "\<exists>items' r. fit_loop so cap items a b t = Some (items', r) \<and> degrades items items'
    \<and> (is_ok r \<or> r = Err (FitPanic ''sort_by'') \<and> nan_profile items)
    \<and> (is_ok r \<and> well_bound items \<and> context_nonempty items \<and> sum_tokens items < 2 ^ 32 - 1 \<longrightarrow>
        count_total items' \<le> cap \<or> exhausted items')"
  using assms
proof (induction "unat (count_total items)" arbitrary: items a b t rule: less_induct)
  case less
  show ?case
  proof (cases "cap < count_total items")
    case False
    then have "fit_loop so cap items a b t = Some (items, Ok (a, b, t))" by (subst fit_loop.simps) simp
    with False degrades_refl show ?thesis by (auto simp: not_less)
  next
    case over: True
    show ?thesis
    proof (rule pass_cases [OF less.prems over, of so], goal_cases)
      case panic: (1 items1)
      then show ?thesis using over by (simp add: fit_loop.simps [of so cap items a b t])
    next
      case pass: (2 items1 d)
      have v1: "validate_atomic_groups items1 = Ok ()" using validate_degrades pass(2) less.prems by blast
      show ?thesis
      proof (cases "count_total items \<le> count_total items1")
        case True
        with over pass(2,6) show ?thesis by (simp add: fit_loop.simps [of so cap items a b t] pass(1))
      next
        case False
        then have "unat (count_total items1) < unat (count_total items)" by (simp add: word_less_nat_alt not_le)
        from less.hyps [OF this v1] obtain items2 r where
          r: "fit_loop so cap items1 (saturating_add a (bx_dropped_d_count d)) (saturating_add b (bx_dropped_c_count d))
               (t \<or> bx_conductor_truncated d) = Some (items2, r)"
          and i: "degrades items1 items2" "is_ok r \<or> r = Err (FitPanic ''sort_by'') \<and> nan_profile items1"
          and f: "is_ok r \<and> well_bound items1 \<and> context_nonempty items1 \<and> sum_tokens items1 < 2 ^ 32 - 1 \<longrightarrow>
            count_total items2 \<le> cap \<or> exhausted items2" by blast
        have "fit_loop so cap items a b t = Some (items2, r)"
          using over False r by (simp add: fit_loop.simps [of so cap items a b t] pass(1))
        moreover have "is_ok r \<and> well_bound items \<and> context_nonempty items \<and> sum_tokens items < 2 ^ 32 - 1 \<longrightarrow>
            count_total items2 \<le> cap \<or> exhausted items2"
          using f pass(4,5) by (meson le_less_trans)
        ultimately show ?thesis using i pass(3) degrades_trans [OF pass(2) i(1)] by blast
      qed
    qed
  qed
qed

lemma enforce_result:
  assumes "validate_atomic_groups items = Ok ()"
  obtains items' r where "enforce_budget_to_fit so items cap = Some (items', r)" "degrades items items'"
    "is_ok r \<or> r = Err (FitPanic ''sort_by'') \<and> nan_profile items"
    "is_ok r \<Longrightarrow> well_bound items \<Longrightarrow> context_nonempty items \<Longrightarrow> sum_tokens items < 2 ^ 32 - 1 \<Longrightarrow>
      count_total items' \<le> cap \<or> exhausted items'"
proof (cases "count_total items \<le> cap")
  case True
  then have "enforce_budget_to_fit so items cap = Some (items, Ok None)"
    by (simp add: enforce_budget_to_fit_def assms)
  then show thesis using that True degrades_refl by auto
next
  case False
  obtain items' q where r: "fit_loop so cap items 0 0 False = Some (items', q)"
    and d: "degrades items items'" "is_ok q \<or> q = Err (FitPanic ''sort_by'') \<and> nan_profile items"
    and f: "is_ok q \<and> well_bound items \<and> context_nonempty items \<and> sum_tokens items < 2 ^ 32 - 1 \<longrightarrow>
        count_total items' \<le> cap \<or> exhausted items'"
    using fit_loop_spec [OF assms, of so cap 0 0 False] by blast
  obtain res where "enforce_budget_to_fit so items cap = Some (items', res)" "is_ok res = is_ok q"
    "q = Err (FitPanic ''sort_by'') \<longrightarrow> res = Err (FitPanic ''sort_by'')"
    using False by (cases q) (auto simp: enforce_budget_to_fit_def assms r)
  then show thesis using that [of items' res] d f by auto
qed

section \<open>Properties\<close>

text \<open>
  C28: the loop at the provider boundary ends. For every prompt and cap, and whatever \<open>sort_by\<close> does
  with importances that are not totally ordered, the enforcer returns; its \<open>expect\<close> never fails, and
  the one panic it may end with is that of \<open>sort_by\<close>, only for a degradable profile item with a NaN
  importance. It reports an error exactly for a malformed atomic group, leaving the prompt
  untouched; otherwise the groups of the prompt are well formed afterwards.
\<close>

theorem budget_loop_terminates:
  "\<exists>items' r. enforce_budget_to_fit so items cap = Some (items', r)
    \<and> (\<forall>m. r = Err (FitPanic m) \<longrightarrow> m = ''sort_by'' \<and> nan_profile items)
    \<and> ((\<exists>m. r = Err (FitErr m)) \<longleftrightarrow> validate_atomic_groups items \<noteq> Ok ())
    \<and> (if validate_atomic_groups items = Ok () then validate_atomic_groups items' = Ok () else items' = items)"
proof (cases "validate_atomic_groups items")
  case (Inl e)
  then show ?thesis by (simp add: enforce_budget_to_fit_def)
next
  case (Inr u)
  then have v: "validate_atomic_groups items = Ok ()" by simp
  from enforce_result [OF v, of so cap] obtain items' r
    where e: "enforce_budget_to_fit so items cap = Some (items', r)" and d: "degrades items items'"
      and r: "is_ok r \<or> r = Err (FitPanic ''sort_by'') \<and> nan_profile items" by metis
  from validate_degrades [OF d v] e v r show ?thesis by (auto simp: is_ok_iff)
qed

theorem budget_loop_terminates_witness:
  "\<exists>items' r. enforce_budget_to_fit (\<lambda>_. None) [] 0 = Some (items', r) \<and> r \<noteq> Err (FitPanic ''sort_by'')"
  using budget_loop_terminates [of "\<lambda>_. None" "[]" 0] by (auto simp: nan_profile_def)

text \<open>
  C26: the prompt fits or nothing degradable is left. For a prompt with well-formed groups whose token counts are those of
  its texts, without empty recall, profile or orchestrator items and with a total below the 32-bit maximum,
  the enforcer ends with a prompt within the cap, or with one in which no degradable recall or profile
  item and no degradable orchestrator text of more than one character is left, unless the sort of
  the profile items panicked on a NaN importance.
\<close>

theorem budget_fits_or_is_exhausted:
  assumes "validate_atomic_groups items = Ok ()" and "well_bound items" and "context_nonempty items"
    and "sum_tokens items < 2 ^ 32 - 1"
  shows "\<exists>items' r. enforce_budget_to_fit so items cap = Some (items', r)
    \<and> (is_ok r \<and> (count_total items' \<le> cap \<or> exhausted items') \<or> r = Err (FitPanic ''sort_by'') \<and> nan_profile items)"
  using enforce_result [OF assms(1), of so cap] assms(2-4) by metis

text \<open>
  C27: protected prompt items survive. Whatever the cap, enforcement keeps every item that
  stands alone and is required or of a block A, B or E, unchanged and in order, and keeps or
  drops the members of the atomic group together.
\<close>

theorem protected_items_survive:
  "\<exists>items' r. enforce_budget_to_fit so items cap = Some (items', r)
    \<and> filter protected_item items' = filter protected_item items
    \<and> (filter (\<lambda>it. it_atomic_group it \<noteq> None) items' = filter (\<lambda>it. it_atomic_group it \<noteq> None) items
       \<or> filter (\<lambda>it. it_atomic_group it \<noteq> None) items' = [])"
proof (cases "validate_atomic_groups items")
  case (Inl e)
  then show ?thesis by (simp add: enforce_budget_to_fit_def)
next
  case (Inr u)
  then have "validate_atomic_groups items = Ok ()" by simp
  from enforce_result [OF this, of so cap] show ?thesis unfolding degrades_def by metis
qed

lemma max_by_key_mem: "max_by_key f xs = Some x \<Longrightarrow> x \<in> set xs"
  by (induction xs arbitrary: x) (auto split: option.splits if_splits)

lemma scaled_windows:
  "scale_window 200000 = 170000" "scale_window 1047576 = 890439" "scale_window 128000 = 108800"
  "scale_window 1000000 = 850000"
proof -
  have p: "200000 * WINDOW_SCALE_FRAC = 1531223873305968600000" "1047576 * WINDOW_SCALE_FRAC = 8020366901511866810568"
    "128000 * WINDOW_SCALE_FRAC = 979983278915819904000" "1000000 * WINDOW_SCALE_FRAC = 7656119366529843000000"
    by (simp_all add: WINDOW_SCALE_FRAC_def)
  have b: "bit_length 1531223873305968600000 = 71" "bit_length 8020366901511866810568 = 73"
    "bit_length 979983278915819904000 = 70" "bit_length 7656119366529843000000 = 73"
    using bit_length_eq [of 70 1531223873305968600000] bit_length_eq [of 72 8020366901511866810568]
      bit_length_eq [of 69 979983278915819904000] bit_length_eq [of 72 7656119366529843000000] by simp_all
  show "scale_window 200000 = 170000" "scale_window 1047576 = 890439" "scale_window 128000 = 108800"
    "scale_window 1000000 = 850000"
    by (simp_all add: scale_window_def p b round_half_even_def Let_def)
qed

text \<open>
  The effective cap never exceeds what the operator set, and for a model with a known
  context window it is additionally at most 85 percent of that window, rounded down, and
  200000.
\<close>

theorem effective_cap_is_bounded:
  "effective_cap provider model cap \<le> cap
   \<and> (effective_cap provider model cap \<noteq> cap \<longrightarrow> effective_cap provider model cap \<in> {170000, 200000, 108800}
       \<and> (\<exists>(stem, window) \<in> set KNOWN_CONTEXT_WINDOWS. str_contains (to_ascii_lowercase model) stem
            \<and> 100 * unat (effective_cap provider model cap) \<le> 85 * window))"
proof (cases "max_by_key (\<lambda>(stem, _). length stem)
    (filter (\<lambda>(stem, _). str_contains (to_ascii_lowercase model) stem) KNOWN_CONTEXT_WINDOWS)")
  case None
  then show ?thesis by (simp add: effective_cap_def)
next
  case (Some e)
  obtain stem window where e: "e = (stem, window)" by (cases e)
  from max_by_key_mem [OF Some] have m: "(stem, window) \<in> set KNOWN_CONTEXT_WINDOWS"
    "str_contains (to_ascii_lowercase model) stem" by (auto simp: e)
  have eff: "effective_cap provider model cap = min (min (scale_window window) CAP_200K) cap"
    by (simp add: effective_cap_def Some e)
  from m(1) have "min (scale_window window) CAP_200K \<in> {170000, 200000, 108800}
      \<and> 100 * unat (min (scale_window window) CAP_200K) \<le> 85 * window"
    by (auto simp: KNOWN_CONTEXT_WINDOWS_def scaled_windows CAP_200K_def)
  with m show ?thesis unfolding eff by (auto simp: min_def split: if_splits intro!: bexI [of _ "(stem, window)"])
qed

text \<open>A prompt without degradable items passes through the enforcer unchanged.\<close>

lemma enforce_undegradable:
  assumes "\<forall>it \<in> set items. \<not> is_degradable (it_block it) \<and> it_atomic_group it = None"
  shows "\<exists>r. enforce_budget_to_fit so items cap = Some (items, Ok r)"
proof (cases "cap < count_total items")
  case True
  have v: "validate_atomic_groups items = Ok ()"
    using assms by (simp add: validate_atomic_groups_def list_ex_iff filter_empty_conv Let_def)
  have b: "degradable_indices BlockD items = []" "degradable_indices BlockC items = []"
    using assms by (auto simp: is_degradable_def)
  have t: "truncate_conductor cap items = (items, False)"
    using assms True by (auto simp: truncate_conductor_def is_degradable_def truncatable_def list_ex_iff
        intro!: map_idI truncate_item_id)
  have "\<exists>d. enforce_budget so items cap = (items, Ok (Some d))"
    using True unfolding enforce_budget_def by (simp add: v not_le [symmetric] drop_d_step_def drop_c_step_def b t
        del: degradable_indices_simps(2))
  then obtain d where "enforce_budget so items cap = (items, Ok (Some d))" by blast
  then show ?thesis using True
    by (simp add: enforce_budget_to_fit_def v not_le [symmetric] fit_loop.simps [of so cap items])
next
  case False
  then show ?thesis using assms
    by (simp add: enforce_budget_to_fit_def validate_atomic_groups_def list_ex_iff filter_empty_conv Let_def not_less)
qed

lemma saturating_add_0 [simp]: "saturating_add 0 x = x"
  using unsigned_less [of x] by (simp add: saturating_add_def)

text \<open>
  The daemon path accepts exactly what fits. The system text and the prompt pass through
  unchanged when their byte counts together, saturating, are within the cap, and are refused
  otherwise; nothing is ever cut.
\<close>

theorem daemon_request_is_exact:
  "finalize_daemon_request so prompt system cap =
    (let total_tokens = (case system of None \<Rightarrow> u32_clamp (length prompt)
           | Some sys \<Rightarrow> saturating_add (u32_clamp (length sys)) (u32_clamp (length prompt)))
     in Some (if total_tokens \<le> cap
              then Ok \<lparr>do_system = system, do_prompt = prompt, do_total_tokens = total_tokens\<rparr>
              else Err (FitErr ''daemon prompt + system exceeds token cap; protected A/E cannot be degraded'')))"
proof -
  let ?items = "(case system of None \<Rightarrow> [] | Some sys \<Rightarrow> [item_new BlockA sys]) @ [item_new BlockE prompt]"
  have f: "it_block (item_new b s) = b" "it_atomic_group (item_new b s) = None" "it_content (item_new b s) = s"
    "it_tokens (item_new b s) = u32_clamp (length s)" for b s
    by (simp_all add: item_new_def count_tokens_upper_bound_def)
  obtain r where r: "enforce_budget_to_fit so ?items cap = Some (?items, Ok r)"
    using enforce_undegradable [of ?items so cap] by (cases system) (auto simp: f is_degradable_def)
  have v: "validate_atomic_groups ?items = Ok ()"
    by (simp add: validate_atomic_groups_def f split: option.split)
  have "render_request ?items = Ok (prompt, system)"
    unfolding render_request_def v by (cases system) (simp_all add: f)
  then show ?thesis unfolding finalize_daemon_request_def Let_def r
    by (cases system) (simp_all add: count_total_def f not_less [symmetric])
qed

section \<open>Samples and the empty item\<close>

definition sample_prompt :: "block_item list" where
  "sample_prompt = [item_new BlockA ''sys'', (item_new BlockD ''older'')\<lparr>it_ts_ns := 1\<rparr>,
     (item_new BlockD ''newer'')\<lparr>it_ts_ns := 2\<rparr>, item_new BlockC ''profile'', item_new BlockConductor ''plan'',
     item_new BlockE ''hi'']"

theorem budget_fits_or_is_exhausted_witness:
  "\<exists>items' r. enforce_budget_to_fit (\<lambda>_. None) sample_prompt 8 = Some (items', r) \<and> is_ok r
    \<and> (count_total items' \<le> 8 \<or> exhausted items')"
proof -
  have "\<not> nan_profile sample_prompt" by (simp add: nan_profile_def sample_prompt_def item_new_def f32_is_nan_def f32_mag_def)
  moreover have "\<exists>items' r. enforce_budget_to_fit (\<lambda>_. None) sample_prompt 8 = Some (items', r)
    \<and> (is_ok r \<and> (count_total items' \<le> 8 \<or> exhausted items') \<or> r = Err (FitPanic ''sort_by'') \<and> nan_profile sample_prompt)"
    by (rule budget_fits_or_is_exhausted)
      (simp_all add: sample_prompt_def item_new_def validate_atomic_groups_def well_bound_def context_nonempty_def
        count_tokens_upper_bound_def u32_clamp_def)
  ultimately show ?thesis by blast
qed

text \<open>
  C37: an empty recall item stops the degradation early. With an empty recall item older than
  another one, the pass drops the empty item, gains nothing and ends, although the other recall
  item is degradable and without it the prompt would fit.
\<close>

theorem empty_item_stops_degradation:
  "\<exists>items' r. enforce_budget_to_fit so [item_new BlockE ''hi'', item_new BlockD [],
       (item_new BlockD ''recall'')\<lparr>it_ts_ns := 1\<rparr>] 4 = Some (items', Ok r)
    \<and> 4 < count_total items' \<and> \<not> exhausted items' \<and> count_total [item_new BlockE ''hi''] \<le> 4"
proof -
  let ?d = "(item_new BlockD ''recall'')\<lparr>it_ts_ns := 1\<rparr>"
  let ?p = "[item_new BlockE ''hi'', item_new BlockD [], ?d]" and ?l = "[item_new BlockE ''hi'', ?d]"
  note eval = item_new_def count_tokens_upper_bound_def u32_clamp_def count_total_def saturating_add_def
  have v: "validate_atomic_groups ?p = Ok ()" by (simp add: validate_atomic_groups_def item_new_def)
  have t: "it_tokens (item_new BlockE ''hi'') = 2" "it_tokens (item_new BlockD []) = 0" "it_tokens ?d = 6"
    by (simp_all add: eval)
  have c: "count_total ?p = 8" "count_total [item_new BlockE ''hi'', ?d] = 8" "count_total [item_new BlockE ''hi''] = 2"
    by (simp_all add: count_total_def t saturating_add_def)
  have b: "it_block (item_new b s) = b" "it_retention (item_new b s) = Degradable" "it_ts_ns (item_new b s) = 0"
    "it_atomic_group (item_new b s) = None" for b s
    by (simp_all add: item_new_def)
  have d: "fst (drop_d_step 4 ?p) = [item_new BlockE ''hi'', ?d]"
    by (simp add: drop_d_step_def c degradable_indices_def b upt_rec drop_first_half_def div_ceil_def
        expand_atomic_removals_def Let_def remove_at_def)
  then obtain n where dd: "drop_d_step 4 ?p = (?l, n)" by (metis prod.collapse)
  have cc: "drop_c_step so 4 ?l = Some (?l, 0)"
    by (simp add: drop_c_step_def b Let_def)
  have tc: "truncate_conductor 4 ?l = (?l, False)"
    by (simp add: truncate_conductor_def c truncate_item_def truncatable_def b)
  have "\<exists>x. enforce_budget so ?p 4 = (?l, Ok (Some x))"
    unfolding enforce_budget_def by (simp only: v c dd cc tc sum.case prod.case option.case) simp
  then obtain x where "enforce_budget so ?p 4 = (?l, Ok (Some x))" by blast
  then have "\<exists>r. enforce_budget_to_fit so ?p 4 = Some ([item_new BlockE ''hi'', ?d], Ok r)"
    by (simp add: enforce_budget_to_fit_def v c fit_loop.simps)
  then obtain r where "enforce_budget_to_fit so ?p 4 = Some ([item_new BlockE ''hi'', ?d], Ok r)" by blast
  moreover have "4 < count_total [item_new BlockE ''hi'', ?d]" "count_total [item_new BlockE ''hi''] \<le> 4"
    by (simp_all add: c)
  moreover have "\<not> exhausted [item_new BlockE ''hi'', ?d]" by (simp add: exhausted_def item_new_def)
  ultimately show ?thesis by blast
qed

end
