(* ===== verification/Token_Attribution.thy ===== *)
theory Token_Attribution
  imports Token_Budget
begin

text \<open>
  Content-free accounting of a prompt: the prompt tax of \<open>src/SRC/neothd/src/tokens/budget.rs\<close>,
  the attribution of a request to origins in \<open>tokens/prompt_attribution.rs\<close> and the partial
  evidence of \<open>tokens/partial_prompt_origin.rs\<close>. Attributions are validated by every
  constructor; the serde derive goes through \<open>attribution_try_from\<close>.
\<close>

section \<open>Prompt tax\<close>

record prompt_tax =
  tx_skill_tokens :: u32
  tx_memory_tokens :: u32
  tx_repo_context_tokens :: u32
  tx_council_tokens :: u32
  tx_unattributed_tokens :: u32

definition tax_default :: prompt_tax where
  "tax_default = \<lparr>tx_skill_tokens = 0, tx_memory_tokens = 0, tx_repo_context_tokens = 0,
     tx_council_tokens = 0, tx_unattributed_tokens = 0\<rparr>"

fun tax_add :: "prompt_tax_source \<Rightarrow> u32 \<Rightarrow> prompt_tax \<Rightarrow> prompt_tax" where
  "tax_add TaxSkill n t = t\<lparr>tx_skill_tokens := saturating_add (tx_skill_tokens t) n\<rparr>"
| "tax_add TaxMemory n t = t\<lparr>tx_memory_tokens := saturating_add (tx_memory_tokens t) n\<rparr>"
| "tax_add TaxRepoContext n t = t\<lparr>tx_repo_context_tokens := saturating_add (tx_repo_context_tokens t) n\<rparr>"
| "tax_add TaxCouncil n t = t\<lparr>tx_council_tokens := saturating_add (tx_council_tokens t) n\<rparr>"
| "tax_add TaxUnattributed n t = t\<lparr>tx_unattributed_tokens := saturating_add (tx_unattributed_tokens t) n\<rparr>"

definition tax_from_retained_items :: "block_item list \<Rightarrow> prompt_tax" where
  "tax_from_retained_items items = foldl (\<lambda>t it.
     case it_prompt_tax_source it of None \<Rightarrow> t | Some s \<Rightarrow> tax_add s (it_tokens it) t) tax_default items"

definition tax_total_tokens :: "prompt_tax \<Rightarrow> u32" where
  "tax_total_tokens t = saturating_add (saturating_add (saturating_add (saturating_add
     (tx_skill_tokens t) (tx_memory_tokens t)) (tx_repo_context_tokens t)) (tx_council_tokens t))
     (tx_unattributed_tokens t)"

section \<open>Attribution of a request\<close>

datatype prompt_estimator = Utf8ByteUpperBoundV1

record prompt_attribution =
  pa_system :: u32
  pa_workflow :: u32
  pa_skill :: u32
  pa_retrieval :: u32
  pa_tool_result :: u32
  pa_user :: u32
  pa_unattributed :: u32
  pa_request_upper_bound :: u32
  pa_envelope_residual :: u32
  pa_estimator :: prompt_estimator

definition counts :: "prompt_attribution \<Rightarrow> u32 list" where
  "counts a = [pa_system a, pa_workflow a, pa_skill a, pa_retrieval a, pa_tool_result a, pa_user a, pa_unattributed a]"

text \<open>\<open>try_fold\<close> with \<open>checked_add\<close>.\<close>

fun checked_sum :: "u32 \<Rightarrow> u32 list \<Rightarrow> u32 option" where
  "checked_sum acc [] = Some acc"
| "checked_sum acc (n # ns) = (case checked_add acc n of None \<Rightarrow> None | Some acc' \<Rightarrow> checked_sum acc' ns)"

definition checked_sub :: "u32 \<Rightarrow> u32 \<Rightarrow> u32 option" where
  "checked_sub a b = (if b \<le> a then Some (a - b) else None)"

definition attribution_validate :: "prompt_attribution \<Rightarrow> string + unit" where
  "attribution_validate a =
     (case checked_sum 0 (counts a @ [pa_envelope_residual a]) of
        None \<Rightarrow> Err ''prompt component total overflow''
      | Some t \<Rightarrow> if t \<noteq> pa_request_upper_bound a
          then Err ''prompt components do not match request upper bound'' else Ok ())"

fun attribution_add :: "prompt_origin \<Rightarrow> u32 \<Rightarrow> prompt_attribution \<Rightarrow> prompt_attribution option" where
  "attribution_add OriginSystem n a = map_option (\<lambda>v. a\<lparr>pa_system := v\<rparr>) (checked_add (pa_system a) n)"
| "attribution_add OriginWorkflow n a = map_option (\<lambda>v. a\<lparr>pa_workflow := v\<rparr>) (checked_add (pa_workflow a) n)"
| "attribution_add OriginSkill n a = map_option (\<lambda>v. a\<lparr>pa_skill := v\<rparr>) (checked_add (pa_skill a) n)"
| "attribution_add OriginRetrieval n a = map_option (\<lambda>v. a\<lparr>pa_retrieval := v\<rparr>) (checked_add (pa_retrieval a) n)"
| "attribution_add OriginToolResult n a = map_option (\<lambda>v. a\<lparr>pa_tool_result := v\<rparr>) (checked_add (pa_tool_result a) n)"
| "attribution_add OriginUser n a = map_option (\<lambda>v. a\<lparr>pa_user := v\<rparr>) (checked_add (pa_user a) n)"
| "attribution_add OriginUnattributed n a = map_option (\<lambda>v. a\<lparr>pa_unattributed := v\<rparr>) (checked_add (pa_unattributed a) n)"

definition origin_of :: "block_item \<Rightarrow> prompt_origin" where
  "origin_of it = (case it_prompt_origin it of None \<Rightarrow> OriginUnattributed | Some og \<Rightarrow> og)"

fun attribute_items :: "prompt_attribution \<Rightarrow> block_item list \<Rightarrow> string + prompt_attribution" where
  "attribute_items a [] = Ok a"
| "attribute_items a (it # items) =
     (if it_tokens it \<noteq> count_tokens_upper_bound (it_content it)
      then Err ''retained item estimate does not match UTF-8 byte count''
      else case attribution_add (origin_of it) (it_tokens it) a of
             None \<Rightarrow> Err ''prompt component overflow''
           | Some a' \<Rightarrow> attribute_items a' items)"

definition attribution_zero :: "u32 \<Rightarrow> prompt_attribution" where
  "attribution_zero bound = \<lparr>pa_system = 0, pa_workflow = 0, pa_skill = 0, pa_retrieval = 0, pa_tool_result = 0,
     pa_user = 0, pa_unattributed = 0, pa_request_upper_bound = bound, pa_envelope_residual = 0,
     pa_estimator = Utf8ByteUpperBoundV1\<rparr>"

definition attribution_from_retained_items :: "block_item list \<Rightarrow> u32 \<Rightarrow> string + prompt_attribution" where
  "attribution_from_retained_items items bound =
     (case attribute_items (attribution_zero bound) items of
        Inl e \<Rightarrow> Err e
      | Inr a \<Rightarrow> (case checked_sum 0 (counts a) of
          None \<Rightarrow> Err ''prompt component total overflow''
        | Some retained \<Rightarrow> (case checked_sub bound retained of
            None \<Rightarrow> Err ''retained components exceed request upper bound''
          | Some rest \<Rightarrow>
              let a' = a\<lparr>pa_envelope_residual := rest\<rparr>
              in (case attribution_validate a' of Inl e \<Rightarrow> Err e | Inr _ \<Rightarrow> Ok a'))))"

definition with_appended_tool_results ::
    "u32 \<Rightarrow> u32 \<Rightarrow> u32 \<Rightarrow> prompt_attribution \<Rightarrow> string + prompt_attribution" where
  "with_appended_tool_results appended tool_bytes final_bound a =
     (case attribution_validate a of
        Inl e \<Rightarrow> Err e
      | Inr _ \<Rightarrow>
          if tool_bytes > appended then Err ''tool bytes exceed appended bytes''
          else if checked_sub final_bound appended \<noteq> Some (pa_request_upper_bound a)
          then Err ''request envelope changed''
          else case checked_add (pa_tool_result a) tool_bytes of
                 None \<Rightarrow> Err ''tool result attribution overflow''
               | Some t \<Rightarrow> (case checked_add (pa_unattributed a) (appended - tool_bytes) of
                   None \<Rightarrow> Err ''unattributed attribution overflow''
                 | Some u \<Rightarrow>
                     let a' = a\<lparr>pa_tool_result := t, pa_unattributed := u, pa_request_upper_bound := final_bound\<rparr>
                     in (case attribution_validate a' of Inl e \<Rightarrow> Err e | Inr _ \<Rightarrow> Ok a')))"

text \<open>The wire record has the fields of the attribution; decoding validates it.\<close>

definition attribution_try_from :: "prompt_attribution \<Rightarrow> string + prompt_attribution" where
  "attribution_try_from wire = (case attribution_validate wire of Inl e \<Rightarrow> Err e | Inr _ \<Rightarrow> Ok wire)"

section \<open>Totals over calls\<close>

record prompt_component_totals =
  ct_observed_call_count :: u64
  ct_system :: u64
  ct_workflow :: u64
  ct_skill :: u64
  ct_retrieval :: u64
  ct_tool_result :: u64
  ct_user :: u64
  ct_unattributed :: u64
  ct_request_upper_bound :: u64
  ct_envelope_residual :: u64

definition widen :: "u32 \<Rightarrow> u64" where "widen n = word_of_nat (unat n)"

definition try_absorb :: "prompt_attribution \<Rightarrow> prompt_component_totals \<Rightarrow> prompt_component_totals \<times> (string + unit)" where
  "try_absorb a t =
     (case attribution_validate a of
        Inl e \<Rightarrow> (t, Err e)
      | Inr _ \<Rightarrow>
          (case (checked_add (ct_observed_call_count t) 1, checked_add (ct_system t) (widen (pa_system a)),
                 checked_add (ct_workflow t) (widen (pa_workflow a)), checked_add (ct_skill t) (widen (pa_skill a)),
                 checked_add (ct_retrieval t) (widen (pa_retrieval a)),
                 checked_add (ct_tool_result t) (widen (pa_tool_result a)),
                 checked_add (ct_user t) (widen (pa_user a)),
                 checked_add (ct_unattributed t) (widen (pa_unattributed a)),
                 checked_add (ct_request_upper_bound t) (widen (pa_request_upper_bound a)),
                 checked_add (ct_envelope_residual t) (widen (pa_envelope_residual a))) of
             (Some n, Some sy, Some wo, Some sk, Some re, Some tr, Some us, Some ua, Some ub, Some er) \<Rightarrow>
               (\<lparr>ct_observed_call_count = n, ct_system = sy, ct_workflow = wo, ct_skill = sk, ct_retrieval = re,
                  ct_tool_result = tr, ct_user = us, ct_unattributed = ua, ct_request_upper_bound = ub,
                  ct_envelope_residual = er\<rparr>, Ok ())
           | _ \<Rightarrow> (t, Err ''prompt component rollup overflow'')))"

section \<open>Partial evidence\<close>

datatype partial_coverage = PostCompactionAppendsV1

record partial_prompt_origin =
  po_known_tool_result_bytes :: u32
  po_request_upper_bound :: u32
  po_coverage :: partial_coverage
  po_estimator :: prompt_estimator

record partial_origin_totals =
  pt_observed_call_count :: u64
  pt_known_tool_result_bytes :: u64
  pt_request_upper_bound :: u64

definition partial_new :: "u32 \<Rightarrow> u32 \<Rightarrow> string + partial_prompt_origin" where
  "partial_new known bound =
     (if known > bound then Err ''partial tool bytes exceed final request bound''
      else Ok \<lparr>po_known_tool_result_bytes = known, po_request_upper_bound = bound,
        po_coverage = PostCompactionAppendsV1, po_estimator = Utf8ByteUpperBoundV1\<rparr>)"

definition partial_try_from :: "partial_prompt_origin \<Rightarrow> string + partial_prompt_origin" where
  "partial_try_from wire =
     (case partial_new (po_known_tool_result_bytes wire) (po_request_upper_bound wire) of
        Inl e \<Rightarrow> Err e
      | Inr p \<Rightarrow> Ok (p\<lparr>po_coverage := po_coverage wire, po_estimator := po_estimator wire\<rparr>))"

definition partial_try_absorb :: "partial_prompt_origin \<Rightarrow> partial_origin_totals \<Rightarrow> partial_origin_totals \<times> bool" where
  "partial_try_absorb e t =
     (case checked_add (pt_observed_call_count t) 1 of
        None \<Rightarrow> (t, False)
      | Some n \<Rightarrow> (case checked_add (pt_known_tool_result_bytes t) (widen (po_known_tool_result_bytes e)) of
          None \<Rightarrow> (t, False)
        | Some k \<Rightarrow> (case checked_add (pt_request_upper_bound t) (widen (po_request_upper_bound e)) of
            None \<Rightarrow> (t, False)
          | Some b \<Rightarrow> (\<lparr>pt_observed_call_count = n, pt_known_tool_result_bytes = k,
                         pt_request_upper_bound = b\<rparr>, True))))"

section \<open>Sums\<close>

lemma checked_sum_eq:
  "checked_sum acc ns = (if unat acc + (\<Sum>n \<leftarrow> ns. unat n) < 2 ^ 32
     then Some (word_of_nat (unat acc + (\<Sum>n \<leftarrow> ns. unat n))) else None)"
proof (induction ns arbitrary: acc)
  case Nil
  then show ?case using unat_bounds(3) [of acc] by simp
next
  case (Cons n ns)
  show ?case
  proof (cases "checked_add acc n")
    case None
    then show ?thesis using None [unfolded checked_add_None] by simp
  next
    case (Some m)
    then have "unat m = unat acc + unat n" by (simp add: checked_add_Some)
    then show ?thesis using Cons.IH [of m] Some by (simp add: add.assoc del: of_nat_add)
  qed
qed

lemma checked_sum_Some:
  "checked_sum acc ns = Some t \<longleftrightarrow> unat acc + (\<Sum>n \<leftarrow> ns. unat n) < 2 ^ 32 \<and> unat t = unat acc + (\<Sum>n \<leftarrow> ns. unat n)"
  by (auto simp: checked_sum_eq unat_of_nat word_unat_eq_iff simp del: of_nat_add)

definition parts :: "prompt_attribution \<Rightarrow> nat" where
  "parts a = (\<Sum>n \<leftarrow> counts a. unat n)"

lemma attribution_valid_iff:
  "attribution_validate a = Ok () \<longleftrightarrow> parts a + unat (pa_envelope_residual a) = unat (pa_request_upper_bound a)"
proof -
  have "parts a + unat (pa_envelope_residual a) < 2 ^ 32"
    if "parts a + unat (pa_envelope_residual a) = unat (pa_request_upper_bound a)"
    using unat_bounds(3) [of "pa_request_upper_bound a"] that by simp
  then show ?thesis
    by (auto simp: attribution_validate_def checked_sum_eq parts_def word_unat_eq_iff unat_of_nat simp del: of_nat_add)
qed

fun count_of :: "prompt_origin \<Rightarrow> prompt_attribution \<Rightarrow> u32" where
  "count_of OriginSystem a = pa_system a"
| "count_of OriginWorkflow a = pa_workflow a"
| "count_of OriginSkill a = pa_skill a"
| "count_of OriginRetrieval a = pa_retrieval a"
| "count_of OriginToolResult a = pa_tool_result a"
| "count_of OriginUser a = pa_user a"
| "count_of OriginUnattributed a = pa_unattributed a"

definition tokens_of :: "prompt_origin \<Rightarrow> block_item list \<Rightarrow> nat" where
  "tokens_of og items = sum_tokens (filter (\<lambda>it. origin_of it = og) items)"

lemma count_of_le: "unat (count_of og a) \<le> parts a"
  by (cases og) (simp_all add: parts_def counts_def)

lemma attribution_add_Some:
  assumes "attribution_add og n a = Some a'"
  shows "parts a' = parts a + unat n" "pa_request_upper_bound a' = pa_request_upper_bound a"
    "pa_envelope_residual a' = pa_envelope_residual a"
    "unat (count_of og' a') = unat (count_of og' a) + (if og' = og then unat n else 0)"
  using assms by (cases og; cases og'; auto simp: parts_def counts_def checked_add_Some)+

lemma attribution_add_fits:
  "parts a + unat n < 2 ^ 32 \<Longrightarrow> attribution_add og n a \<noteq> None"
  using count_of_le [of og a] by (cases og) (auto simp: checked_add_None)

lemma attribute_items_Ok:
  "attribute_items a items = Ok a' \<Longrightarrow> well_bound items \<and> parts a' = parts a + sum_tokens items
     \<and> pa_request_upper_bound a' = pa_request_upper_bound a \<and> pa_envelope_residual a' = pa_envelope_residual a
     \<and> (\<forall>og. unat (count_of og a') = unat (count_of og a) + tokens_of og items)"
proof (induction a items rule: attribute_items.induct)
  case (2 a it items)
  then obtain a1 where a1: "attribution_add (origin_of it) (it_tokens it) a = Some a1" "attribute_items a1 items = Ok a'"
    and b: "it_tokens it = count_tokens_upper_bound (it_content it)"
    by (auto split: if_splits option.splits)
  note ih = "2.IH" [OF _ a1]
  from ih b attribution_add_Some [OF a1(1)] show ?case by (auto simp: well_bound_def tokens_of_def)
qed (simp add: well_bound_def tokens_of_def)

lemma attribute_items_fits:
  "well_bound items \<Longrightarrow> parts a + sum_tokens items < 2 ^ 32 \<Longrightarrow> \<exists>a'. attribute_items a items = Ok a'"
proof (induction items arbitrary: a)
  case (Cons it items)
  then obtain a1 where a1: "attribution_add (origin_of it) (it_tokens it) a = Some a1"
    using attribution_add_fits [of a "it_tokens it" "origin_of it"] by (auto simp del: attribution_add.simps)
  have "\<exists>a'. attribute_items a1 items = Ok a'"
    using Cons.prems attribution_add_Some(1) [OF a1] by (intro Cons.IH) (auto simp: well_bound_def)
  then show ?case using Cons.prems a1 by (simp add: well_bound_def)
qed simp

lemma parts_zero [simp]: "parts (attribution_zero b) = 0" "pa_request_upper_bound (attribution_zero b) = b"
  "pa_envelope_residual (attribution_zero b) = 0" "count_of og (attribution_zero b) = 0"
  by (cases og; simp add: parts_def counts_def attribution_zero_def)+

lemma checked_sub_Some: "checked_sub a b = Some c \<longleftrightarrow> unat b \<le> unat a \<and> unat c = unat a - unat b"
  by (auto simp: checked_sub_def word_le_nat_alt unat_sub word_unat_eq_iff)

lemma parts_residual [simp]: "parts (a\<lparr>pa_envelope_residual := r\<rparr>) = parts a"
  "count_of og (a\<lparr>pa_envelope_residual := r\<rparr>) = count_of og a"
  by (cases og; simp add: parts_def counts_def)+

section \<open>Properties\<close>

text \<open>
  An attribution is built exactly for consistent items that fit. Building succeeds exactly
  when every item carries the byte count of its content and all of them together are within the
  bound of the request; then each origin is charged its own items and the residual is the rest
  of the bound.
\<close>

theorem attribution_is_exact:
  "((\<exists>a. attribution_from_retained_items items bound = Ok a) \<longleftrightarrow> well_bound items \<and> sum_tokens items \<le> unat bound)
   \<and> (\<forall>a. attribution_from_retained_items items bound = Ok a \<longrightarrow> pa_request_upper_bound a = bound
        \<and> (\<forall>og. unat (count_of og a) = tokens_of og items)
        \<and> unat (pa_envelope_residual a) + sum_tokens items = unat bound)"
proof -
  have fwd: "well_bound items \<and> pa_request_upper_bound a = bound \<and> (\<forall>og. unat (count_of og a) = tokens_of og items)
      \<and> unat (pa_envelope_residual a) + sum_tokens items = unat bound"
    if f: "attribution_from_retained_items items bound = Ok a" for a
  proof -
    obtain a0 t r where a0: "attribute_items (attribution_zero bound) items = Ok a0" "checked_sum 0 (counts a0) = Some t"
      "checked_sub bound t = Some r" "a = a0\<lparr>pa_envelope_residual := r\<rparr>"
      using f by (auto simp: attribution_from_retained_items_def Let_def split: sum.splits option.splits)
    from attribute_items_Ok [OF a0(1)] a0(2,3) show ?thesis
      by (auto simp: a0(4) checked_sum_Some checked_sub_Some simp flip: parts_def)
  qed
  moreover have "\<exists>a. attribution_from_retained_items items bound = Ok a"
    if w: "well_bound items" and le: "sum_tokens items \<le> unat bound"
  proof -
    have l: "sum_tokens items < 2 ^ 32" using le unat_bounds(3) [of bound] by simp
    then obtain a0 where a0: "attribute_items (attribution_zero bound) items = Ok a0"
      using attribute_items_fits [OF w, of "attribution_zero bound"] by auto
    note p = attribute_items_Ok [OF a0]
    have "parts a0 = sum_tokens items" using p by simp
    then have "checked_sum 0 (counts a0) = Some (word_of_nat (sum_tokens items))"
      using l unfolding checked_sum_eq parts_def by simp
    then obtain t where t: "checked_sum 0 (counts a0) = Some t" "unat t = sum_tokens items"
      using l by (simp add: unat_of_nat)
    then obtain r where r: "checked_sub bound t = Some r" "unat r = unat bound - sum_tokens items"
      using le by (simp add: checked_sub_def word_le_nat_alt unat_sub)
    have "attribution_validate (a0\<lparr>pa_envelope_residual := r\<rparr>) = Ok ()"
      using p r le by (simp add: attribution_valid_iff)
    then show ?thesis using a0 t r by (simp add: attribution_from_retained_items_def)
  qed
  ultimately show ?thesis by fastforce
qed

text \<open>The attributions that exist: built from items, extended by tool results, or decoded.\<close>

inductive attribution_built :: "prompt_attribution \<Rightarrow> bool" where
  built_items: "attribution_from_retained_items items bound = Ok a \<Longrightarrow> attribution_built a"
| built_append: "attribution_built a \<Longrightarrow> with_appended_tool_results n k b a = Ok a' \<Longrightarrow> attribution_built a'"
| built_wire: "attribution_try_from wire = Ok a \<Longrightarrow> attribution_built a"

text \<open>
  C29: the type invariant of attributions. Every attribution that the constructors, the
  extension by tool results and the decoder can yield adds up: its seven components and the
  residual are together exactly the bound of the request, without overflow.
\<close>

theorem attribution_adds_up:
  assumes "attribution_built a"
  shows "unat (pa_system a) + unat (pa_workflow a) + unat (pa_skill a) + unat (pa_retrieval a)
    + unat (pa_tool_result a) + unat (pa_user a) + unat (pa_unattributed a) + unat (pa_envelope_residual a)
    = unat (pa_request_upper_bound a)"
proof -
  have "attribution_validate a = Ok ()" using assms
  proof cases
    case (built_items items bound)
    then show ?thesis
      by (auto simp: attribution_from_retained_items_def Let_def split: sum.splits option.splits)
  next
    case (built_append b n k c)
    then show ?thesis
      by (auto simp: with_appended_tool_results_def Let_def split: sum.splits option.splits if_splits)
  next
    case (built_wire wire)
    then show ?thesis by (auto simp: attribution_try_from_def split: sum.splits)
  qed
  then show ?thesis by (simp add: attribution_valid_iff parts_def counts_def)
qed

theorem attribution_adds_up_witness:
  "\<exists>a. attribution_from_retained_items [item_new BlockE ''hi''] 5 = Ok a
     \<and> unat (pa_system a) + unat (pa_workflow a) + unat (pa_skill a) + unat (pa_retrieval a)
    + unat (pa_tool_result a) + unat (pa_user a) + unat (pa_unattributed a) + unat (pa_envelope_residual a)
    = unat (pa_request_upper_bound a)"
proof -
  have "attribution_from_retained_items [item_new BlockE ''hi''] 5 = Ok ((attribution_zero 5)\<lparr>pa_unattributed := 2,
     pa_envelope_residual := 3\<rparr>)"
    by (simp add: attribution_from_retained_items_def item_new_def origin_of_def count_tokens_upper_bound_def
        u32_clamp_def checked_add_def attribution_zero_def counts_def checked_sub_def attribution_validate_def)
  then show ?thesis using attribution_adds_up [OF built_items] by blast
qed

text \<open>The roll-up over calls: all counters move together, and their sum is conserved.\<close>

definition totals_conserved :: "prompt_component_totals \<Rightarrow> bool" where
  "totals_conserved t \<longleftrightarrow> unat (ct_system t) + unat (ct_workflow t) + unat (ct_skill t) + unat (ct_retrieval t)
     + unat (ct_tool_result t) + unat (ct_user t) + unat (ct_unattributed t) + unat (ct_envelope_residual t)
     = unat (ct_request_upper_bound t)"

lemma unat_widen [simp]: "unat (widen n) = unat n"
proof -
  have "unat n < 2 ^ 64" using unat_bounds(3) [of n] by simp
  then show ?thesis unfolding widen_def unat_of_nat by simp
qed

lemma try_absorb_cases:
  assumes "try_absorb a t = (t', r)"
  shows "(\<exists>e. r = Err e) \<and> t' = t \<or> r = Ok () \<and> attribution_validate a = Ok ()
    \<and> unat (ct_observed_call_count t') = unat (ct_observed_call_count t) + 1
    \<and> unat (ct_system t') = unat (ct_system t) + unat (pa_system a)
    \<and> unat (ct_workflow t') = unat (ct_workflow t) + unat (pa_workflow a)
    \<and> unat (ct_skill t') = unat (ct_skill t) + unat (pa_skill a)
    \<and> unat (ct_retrieval t') = unat (ct_retrieval t) + unat (pa_retrieval a)
    \<and> unat (ct_tool_result t') = unat (ct_tool_result t) + unat (pa_tool_result a)
    \<and> unat (ct_user t') = unat (ct_user t) + unat (pa_user a)
    \<and> unat (ct_unattributed t') = unat (ct_unattributed t) + unat (pa_unattributed a)
    \<and> unat (ct_request_upper_bound t') = unat (ct_request_upper_bound t) + unat (pa_request_upper_bound a)
    \<and> unat (ct_envelope_residual t') = unat (ct_envelope_residual t) + unat (pa_envelope_residual a)"
proof (cases "attribution_validate a")
  case (Inl e)
  then have "try_absorb a t = (t, Err e)" by (simp add: try_absorb_def)
  with assms have "r = Err e" "t' = t" by simp_all
  then show ?thesis by blast
next
  case (Inr u)
  have w: "unat v = unat x + unat y" if "checked_add x y = Some v" for x y v :: u64
    using that by (simp add: checked_add_Some)
  show ?thesis using assms Inr unfolding try_absorb_def
    by (simp split: option.splits) (auto dest!: w)
qed

lemma rollup_conserves:
  assumes "totals_conserved t" "try_absorb a t = (t', r)"
  shows "totals_conserved t'"
  using try_absorb_cases [OF assms(2)] assms(1)
  by (auto simp: totals_conserved_def attribution_valid_iff parts_def counts_def)

end
