(* ===== verification/Provider_Breaker.thy ===== *)
theory Provider_Breaker
  imports Neoth_Prelude
begin

text \<open>
  The circuit breaker of provider calls, \<open>src/SRC/neothd/src/providers/circuit_breaker.rs\<close>, and
  the stream guards of \<open>providers/circuit_breaker_stream.rs\<close>. Every method runs under the
  mutex of its breaker, so that one method is one step; \<open>Instant::now()\<close> is an argument, in
  nanoseconds. An execution interleaves any number of callers that hold permits. Decoding of the
  state file is an argument of \<open>restore_from_disk\<close>: the list of the rows that parsed.
\<close>

section \<open>State\<close>

datatype breaker_state = Closed | Open | HalfOpen

fun breaker_state_as_str :: "breaker_state \<Rightarrow> string" where
  "breaker_state_as_str Closed = ''closed''"
| "breaker_state_as_str Open = ''open''"
| "breaker_state_as_str HalfOpen = ''half_open''"

record breaker_config =
  bk_failure_threshold :: u32
  bk_reset_after :: nat
  bk_success_threshold :: u32

definition breaker_config_default :: breaker_config where
  "breaker_config_default = \<lparr>bk_failure_threshold = 5, bk_reset_after = 30000000000, bk_success_threshold = 1\<rparr>"

record breaker =
  br_state :: breaker_state
  br_consecutive_failures :: u32
  br_consecutive_successes :: u32
  br_opened_at :: "nat option"
  br_half_open_probe_inflight :: bool

definition breaker_fresh :: breaker where
  "breaker_fresh = \<lparr>br_state = Closed, br_consecutive_failures = 0, br_consecutive_successes = 0,
     br_opened_at = None, br_half_open_probe_inflight = False\<rparr>"

datatype breaker_error = BreakerOpen nat | HalfOpenBusy

datatype acquire_result = Permit | Refused breaker_error | AcquirePanic

section \<open>Methods\<close>

definition try_acquire :: "breaker_config \<Rightarrow> nat \<Rightarrow> breaker \<Rightarrow> breaker \<times> acquire_result" where
  "try_acquire cfg now b =
     (case br_state b of
        Closed \<Rightarrow> (b, Permit)
      | HalfOpen \<Rightarrow>
          if br_half_open_probe_inflight b then (b, Refused HalfOpenBusy)
          else (b\<lparr>br_half_open_probe_inflight := True\<rparr>, Permit)
      | Open \<Rightarrow>
          (case br_opened_at b of
             None \<Rightarrow> (b, AcquirePanic)
           | Some opened_at \<Rightarrow>
               let elapsed = now - opened_at
               in if elapsed \<ge> bk_reset_after cfg
                  then (b\<lparr>br_state := HalfOpen, br_half_open_probe_inflight := True\<rparr>, Permit)
                  else (b, Refused (BreakerOpen (bk_reset_after cfg - elapsed)))))"

definition record_success :: "breaker_config \<Rightarrow> breaker \<Rightarrow> breaker" where
  "record_success cfg b =
     (let b = b\<lparr>br_consecutive_failures := 0\<rparr>
      in case br_state b of
           Closed \<Rightarrow> b
         | HalfOpen \<Rightarrow>
             let b = b\<lparr>br_consecutive_successes := saturating_add (br_consecutive_successes b) 1,
                       br_half_open_probe_inflight := False\<rparr>
             in if br_consecutive_successes b \<ge> bk_success_threshold cfg
                then b\<lparr>br_state := Closed, br_opened_at := None, br_consecutive_successes := 0\<rparr>
                else b
         | Open \<Rightarrow> b\<lparr>br_state := Closed, br_opened_at := None\<rparr>)"

definition record_failure :: "breaker_config \<Rightarrow> nat \<Rightarrow> breaker \<Rightarrow> breaker" where
  "record_failure cfg now b =
     (let b = b\<lparr>br_consecutive_successes := 0\<rparr>
      in case br_state b of
           Closed \<Rightarrow>
             let b = b\<lparr>br_consecutive_failures := saturating_add (br_consecutive_failures b) 1\<rparr>
             in if br_consecutive_failures b \<ge> bk_failure_threshold cfg
                then b\<lparr>br_state := Open, br_opened_at := Some now\<rparr>
                else b
         | HalfOpen \<Rightarrow>
             b\<lparr>br_state := Open, br_opened_at := Some now, br_half_open_probe_inflight := False,
               br_consecutive_failures := saturating_add (br_consecutive_failures b) 1\<rparr>
         | Open \<Rightarrow> b)"

text \<open>A permit dropped without a settlement counts as a failure.\<close>

definition permit_drop :: "breaker_config \<Rightarrow> nat \<Rightarrow> bool \<Rightarrow> breaker \<Rightarrow> breaker" where
  "permit_drop cfg now settled b = (if settled then b else record_failure cfg now b)"

section \<open>Registry and persistence\<close>

record breaker_registry =
  rg_breakers :: "(string, breaker) btree"
  rg_config :: breaker_config

definition registry_new :: "breaker_config \<Rightarrow> breaker_registry" where
  "registry_new cfg = \<lparr>rg_breakers = [], rg_config = cfg\<rparr>"

definition breaker_for :: "string \<Rightarrow> breaker_registry \<Rightarrow> breaker_registry \<times> breaker" where
  "breaker_for pid r =
     (case btree_get (rg_breakers r) pid of
        Some b \<Rightarrow> (r, b)
      | None \<Rightarrow> (r\<lparr>rg_breakers := btree_insert pid breaker_fresh (rg_breakers r)\<rparr>, breaker_fresh))"

definition acquire_for :: "nat \<Rightarrow> string \<Rightarrow> breaker_registry \<Rightarrow> breaker_registry \<times> acquire_result" where
  "acquire_for now pid r =
     (case breaker_for pid r of (r, b) \<Rightarrow>
      case try_acquire (rg_config r) now b of (b', res) \<Rightarrow>
        (r\<lparr>rg_breakers := btree_insert pid b' (rg_breakers r)\<rparr>, res))"

text \<open>
  Settlement of an owned permit, which shares the breaker with the registry. \<open>run_with_breaker\<close>
  runs \<open>fut\<close> between the two; \<open>others\<close> is what other tasks do to the registry meanwhile.
\<close>

datatype settlement = Success | Failure

definition settle_breaker :: "breaker_config \<Rightarrow> nat \<Rightarrow> settlement \<Rightarrow> breaker \<Rightarrow> breaker" where
  "settle_breaker cfg now x b = (case x of Success \<Rightarrow> record_success cfg b | Failure \<Rightarrow> record_failure cfg now b)"

definition settle_for :: "nat \<Rightarrow> string \<Rightarrow> settlement \<Rightarrow> breaker_registry \<Rightarrow> breaker_registry" where
  "settle_for now pid x r =
     (case btree_get (rg_breakers r) pid of
        None \<Rightarrow> r
      | Some b \<Rightarrow> r\<lparr>rg_breakers := btree_insert pid (settle_breaker (rg_config r) now x b) (rg_breakers r)\<rparr>)"

definition run_with_breaker ::
    "nat \<Rightarrow> nat \<Rightarrow> string \<Rightarrow> ('e + 'a) \<Rightarrow> (breaker_registry \<Rightarrow> breaker_registry) \<Rightarrow> breaker_registry
     \<Rightarrow> breaker_registry \<times> ((breaker_error + 'e) + 'a) option" where
  "run_with_breaker t0 t1 pid fut others r =
     (case acquire_for t0 pid r of
        (r, AcquirePanic) \<Rightarrow> (r, None)
      | (r, Refused e) \<Rightarrow> (r, Some (Err (Inl e)))
      | (r, Permit) \<Rightarrow>
          (let r = others r
           in case fut of
                Ok a \<Rightarrow> (settle_for t1 pid Success r, Some (Ok a))
              | Err e \<Rightarrow> (settle_for t1 pid Failure r, Some (Err (Inr e)))))"

record breaker_persisted_row =
  rw_provider_id :: string
  rw_consecutive_failures :: u32
  rw_last_seen_ts_unix :: int

definition snapshot_rows :: "int \<Rightarrow> breaker_registry \<Rightarrow> breaker_persisted_row list" where
  "snapshot_rows now r = map (\<lambda>(pid, b). \<lparr>rw_provider_id = pid, rw_consecutive_failures = br_consecutive_failures b,
       rw_last_seen_ts_unix = now\<rparr>)
     (filter (\<lambda>e. br_consecutive_failures (snd e) > 0) (rg_breakers r))"

fun restore_rows :: "int \<Rightarrow> int \<Rightarrow> breaker_persisted_row list \<Rightarrow> breaker_registry \<Rightarrow> nat \<Rightarrow> breaker_registry \<times> nat" where
  "restore_rows now stale [] r n = (r, n)"
| "restore_rows now stale (row # rows) r n =
     (if now - rw_last_seen_ts_unix row > stale then restore_rows now stale rows r n
      else case breaker_for (rw_provider_id row) r of (r1, b) \<Rightarrow>
        restore_rows now stale rows
          (r1\<lparr>rg_breakers := btree_insert (rw_provider_id row)
             (b\<lparr>br_consecutive_failures := rw_consecutive_failures row\<rparr>) (rg_breakers r1)\<rparr>) (Suc n))"

text \<open>\<open>file\<close> is the content of the state file (absent, unreadable, or its parsed rows).\<close>

datatype restore_file = StateMissing | StateUnreadable string | StateRows "breaker_persisted_row list"

definition restore_from_disk ::
    "restore_file \<Rightarrow> int option \<Rightarrow> int \<Rightarrow> breaker_registry \<Rightarrow> breaker_registry \<times> (string + nat)" where
  "restore_from_disk file now stale r =
     (case file of
        StateMissing \<Rightarrow> (r, Ok 0)
      | StateUnreadable e \<Rightarrow> (r, Err e)
      | StateRows rows \<Rightarrow>
          (case now of
             None \<Rightarrow> (r, Err ''system clock is before UNIX_EPOCH; skipping breaker restore'')
           | Some t \<Rightarrow> (case restore_rows t stale rows r 0 of (r', n) \<Rightarrow> (r', Ok n))))"

section \<open>Stream guards\<close>

datatype 'e stream_poll = Pending | Item bool | ItemErr 'e | EndOfStream

text \<open>
  \<open>Item done\<close> is a chunk with its \<open>done\<close> flag, or an event that is \<open>Done\<close>. The state
  of a guard is whether it still holds its permit.
\<close>

fun guard_poll :: "'e stream_poll \<Rightarrow> bool \<Rightarrow> bool \<times> settlement option" where
  "guard_poll Pending held = (held, None)"
| "guard_poll (Item done) held = (if done \<and> held then (False, Some Success) else (held, None))"
| "guard_poll (ItemErr e) held = (if held then (False, Some Failure) else (held, None))"
| "guard_poll EndOfStream held = (if held then (False, Some Failure) else (held, None))"

definition guard_drop :: "bool \<Rightarrow> settlement option" where
  "guard_drop held = (if held then Some Failure else None)"

fun guard_run :: "'e stream_poll list \<Rightarrow> bool \<Rightarrow> settlement list" where
  "guard_run [] held = (case guard_drop held of None \<Rightarrow> [] | Some s \<Rightarrow> [s])"
| "guard_run (p # ps) held = (case guard_poll p held of (held', s) \<Rightarrow>
     (case s of None \<Rightarrow> [] | Some x \<Rightarrow> [x]) @ guard_run ps held')"

text \<open>
  \<open>run_stream_with_breaker\<close> and \<open>run_event_stream_with_breaker\<close>: \<open>built\<close> is the outcome of
  the future that builds the stream, with the polls its consumer will make of it before it
  drops the guard.
\<close>

definition run_stream_with_breaker ::
    "nat \<Rightarrow> nat \<Rightarrow> string \<Rightarrow> ('e + 'p stream_poll list) \<Rightarrow> (breaker_registry \<Rightarrow> breaker_registry) \<Rightarrow> breaker_registry
     \<Rightarrow> breaker_registry \<times> ((breaker_error + 'e) + unit) option" where
  "run_stream_with_breaker t0 t1 pid built others r =
     (case acquire_for t0 pid r of
        (r, AcquirePanic) \<Rightarrow> (r, None)
      | (r, Refused e) \<Rightarrow> (r, Some (Err (Inl e)))
      | (r, Permit) \<Rightarrow>
          (let r = others r
           in case built of
                Err e \<Rightarrow> (settle_for t1 pid Failure r, Some (Err (Inr e)))
              | Ok polls \<Rightarrow> (fold (settle_for t1 pid) (guard_run polls True) r, Some (Ok ()))))"

section \<open>Executions\<close>

text \<open>
  A state of an execution: the breaker, the number of outstanding permits of normal calls and
  of probes, and the clock.
\<close>

record breaker_run =
  rn_breaker :: breaker
  rn_calls :: nat
  rn_probes :: nat
  rn_now :: nat

inductive breaker_step :: "breaker_config \<Rightarrow> breaker_run \<Rightarrow> breaker_run \<Rightarrow> bool" for cfg where
  bs_call: "try_acquire cfg (rn_now s) (rn_breaker s) = (b, Permit) \<Longrightarrow> br_state (rn_breaker s) = Closed \<Longrightarrow>
    breaker_step cfg s (s\<lparr>rn_breaker := b, rn_calls := Suc (rn_calls s)\<rparr>)"
| bs_probe: "try_acquire cfg (rn_now s) (rn_breaker s) = (b, Permit) \<Longrightarrow> br_state (rn_breaker s) \<noteq> Closed \<Longrightarrow>
    breaker_step cfg s (s\<lparr>rn_breaker := b, rn_probes := Suc (rn_probes s)\<rparr>)"
| bs_refused: "try_acquire cfg (rn_now s) (rn_breaker s) = (b, Refused e) \<Longrightarrow>
    breaker_step cfg s (s\<lparr>rn_breaker := b\<rparr>)"
| bs_call_ok: "rn_calls s = Suc n \<Longrightarrow>
    breaker_step cfg s (s\<lparr>rn_breaker := record_success cfg (rn_breaker s), rn_calls := n\<rparr>)"
| bs_call_fails: "rn_calls s = Suc n \<Longrightarrow>
    breaker_step cfg s (s\<lparr>rn_breaker := record_failure cfg (rn_now s) (rn_breaker s), rn_calls := n\<rparr>)"
| bs_probe_ok: "rn_probes s = Suc n \<Longrightarrow>
    breaker_step cfg s (s\<lparr>rn_breaker := record_success cfg (rn_breaker s), rn_probes := n\<rparr>)"
| bs_probe_fails: "rn_probes s = Suc n \<Longrightarrow>
    breaker_step cfg s (s\<lparr>rn_breaker := record_failure cfg (rn_now s) (rn_breaker s), rn_probes := n\<rparr>)"
| bs_tick: "rn_now s \<le> t \<Longrightarrow> breaker_step cfg s (s\<lparr>rn_now := t\<rparr>)"

definition breaker_init :: "breaker_run \<Rightarrow> bool" where
  "breaker_init s \<longleftrightarrow> rn_breaker s = breaker_fresh \<and> rn_calls s = 0 \<and> rn_probes s = 0"

definition breaker_ok :: "breaker_config \<Rightarrow> nat \<Rightarrow> nat \<Rightarrow> breaker \<Rightarrow> bool" where
  "breaker_ok cfg now probes b \<longleftrightarrow>
     (br_state b = Open \<longrightarrow> (\<exists>t \<le> now. br_opened_at b = Some t))
     \<and> (br_half_open_probe_inflight b \<longrightarrow> br_state b = HalfOpen \<and> 0 < probes)
     \<and> (br_state b = Closed \<longrightarrow> br_consecutive_failures b < bk_failure_threshold cfg \<or> br_consecutive_failures b = 0)"

definition breaker_inv :: "breaker_config \<Rightarrow> breaker_run \<Rightarrow> bool" where
  "breaker_inv cfg s \<longleftrightarrow> breaker_ok cfg (rn_now s) (rn_probes s) (rn_breaker s)"

lemmas breaker_methods = try_acquire_def record_success_def record_failure_def Let_def

lemma try_acquire_cases:
  assumes "try_acquire cfg now b = (b', r)" "breaker_ok cfg now n b"
  shows "r = Permit \<and> breaker_ok cfg now (if br_state b = Closed then n else Suc n) b'
    \<or> r = Refused HalfOpenBusy \<and> b' = b \<and> br_state b = HalfOpen \<and> 0 < n
    \<or> (\<exists>t. br_state b = Open \<and> br_opened_at b = Some t \<and> t \<le> now \<and> now - t < bk_reset_after cfg
         \<and> r = Refused (BreakerOpen (bk_reset_after cfg - (now - t))) \<and> b' = b)"
  using assms by (cases "br_state b") (auto simp: breaker_ok_def breaker_methods split: if_splits)

lemma record_ok:
  assumes "breaker_ok cfg now n b"
  shows "breaker_ok cfg now m (record_success cfg b)" "breaker_ok cfg now m (record_failure cfg now b)"
  using assms by (cases "br_state b"; auto simp: breaker_ok_def breaker_methods not_le)+

lemma breaker_inv_step: "breaker_inv cfg s \<Longrightarrow> breaker_step cfg s t \<Longrightarrow> breaker_inv cfg t"
proof -
  assume inv: "breaker_inv cfg s" and step: "breaker_step cfg s t"
  from step show ?thesis
  proof cases
    case (bs_tick u)
    then show ?thesis using inv by (auto simp: breaker_inv_def breaker_ok_def)
  qed (use inv in \<open>auto simp: breaker_inv_def dest: try_acquire_cases intro: record_ok\<close>)
qed

interpretation breaker: invariant_system breaker_init "breaker_step cfg" "breaker_inv cfg" for cfg
proof
  show "breaker_init s \<Longrightarrow> breaker_inv cfg s" for s
    by (simp add: breaker_init_def breaker_inv_def breaker_ok_def breaker_fresh_def)
qed (rule breaker_inv_step)

section \<open>Properties\<close>

text \<open>
  C32: a refusal is temporary. In every execution the breaker never hits its expect; a refusal
  for the cooldown names exactly the time after which, and not before which, a call is admitted;
  a refusal for a running probe happens only while one is outstanding; and from every state some
  continuation leads to a state in which a call is admitted.
\<close>

theorem breaker_refusals_are_temporary:
  assumes "reachable breaker_init (breaker_step cfg) s"
  shows "(case snd (try_acquire cfg (rn_now s) (rn_breaker s)) of
      AcquirePanic \<Rightarrow> False
    | Permit \<Rightarrow> True
    | Refused HalfOpenBusy \<Rightarrow> 0 < rn_probes s
    | Refused (BreakerOpen d) \<Rightarrow> 0 < d \<and> d \<le> bk_reset_after cfg
        \<and> (\<forall>e. snd (try_acquire cfg (rn_now s + e) (rn_breaker s)) = Permit \<longleftrightarrow> d \<le> e))
    \<and> (\<exists>t. (breaker_step cfg)\<^sup>*\<^sup>* s t \<and> snd (try_acquire cfg (rn_now t) (rn_breaker t)) = Permit)"
proof -
  let ?b = "rn_breaker s" and ?now = "rn_now s"
  have ok: "breaker_ok cfg ?now (rn_probes s) ?b"
    using breaker.reachable_inv [OF assms] by (simp add: breaker_inv_def)
  have late: "snd (try_acquire cfg u b) = Permit \<longleftrightarrow> bk_reset_after cfg \<le> u - t"
    if "br_state b = Open" "br_opened_at b = Some t" for b u t
    using that by (simp add: try_acquire_def Let_def)
  have wait: "breaker_step cfg x (x\<lparr>rn_now := rn_now x + d\<rparr>)" for x d by (rule bs_tick) simp
  consider (permit) "snd (try_acquire cfg ?now ?b) = Permit"
    | (busy) "snd (try_acquire cfg ?now ?b) = Refused HalfOpenBusy" "br_state ?b = HalfOpen" "0 < rn_probes s"
    | (cool) t where "br_state ?b = Open" "br_opened_at ?b = Some t" "t \<le> ?now" "?now - t < bk_reset_after cfg"
        "snd (try_acquire cfg ?now ?b) = Refused (BreakerOpen (bk_reset_after cfg - (?now - t)))"
    using try_acquire_cases [OF prod.collapse [symmetric] ok] by (elim disjE exE conjE) auto
  then show ?thesis
  proof cases
    case permit
    then show ?thesis by auto
  next
    case busy
    obtain n where n: "rn_probes s = Suc n" using busy(3) by (cases "rn_probes s") auto
    let ?u = "s\<lparr>rn_breaker := record_failure cfg ?now ?b, rn_probes := n\<rparr>"
    let ?t = "?u\<lparr>rn_now := rn_now ?u + bk_reset_after cfg\<rparr>"
    have "br_state (rn_breaker ?t) = Open" "br_opened_at (rn_breaker ?t) = Some ?now"
      using busy(2) by (simp_all add: record_failure_def Let_def)
    then have "snd (try_acquire cfg (rn_now ?t) (rn_breaker ?t)) = Permit" by (subst late) auto
    moreover have "(breaker_step cfg)\<^sup>*\<^sup>* s ?t"
      by (rule rtranclp.rtrancl_into_rtrancl [OF r_into_rtranclp [of "breaker_step cfg", OF bs_probe_fails [OF n]] wait])
    ultimately have "\<exists>t. (breaker_step cfg)\<^sup>*\<^sup>* s t \<and> snd (try_acquire cfg (rn_now t) (rn_breaker t)) = Permit"
      by blast
    then show ?thesis using busy by simp
  next
    case cool
    let ?t = "s\<lparr>rn_now := ?now + bk_reset_after cfg\<rparr>"
    have "snd (try_acquire cfg (rn_now ?t) (rn_breaker ?t)) = Permit"
      using cool(3) late [of ?b t] cool(1,2) by simp
    then have "\<exists>t. (breaker_step cfg)\<^sup>*\<^sup>* s t \<and> snd (try_acquire cfg (rn_now t) (rn_breaker t)) = Permit"
      using wait [of s] by blast
    moreover have "snd (try_acquire cfg (?now + e) ?b) = Permit \<longleftrightarrow> bk_reset_after cfg - (?now - t) \<le> e" for e
      using cool(3) by (simp only: late [OF cool(1,2)]) arith
    ultimately show ?thesis using cool(4,5) by simp
  qed
qed

theorem breaker_refusals_are_temporary_witness:
  "\<exists>t. (breaker_step breaker_config_default)\<^sup>*\<^sup>*
        \<lparr>rn_breaker = breaker_fresh, rn_calls = 0, rn_probes = 0, rn_now = 7\<rparr> t
      \<and> snd (try_acquire breaker_config_default (rn_now t) (rn_breaker t)) = Permit"
  by (rule breaker_refusals_are_temporary [THEN conjunct2, OF reachable_init]) (simp add: breaker_init_def)

text \<open>Callers that settle a permit before they ask for the next one.\<close>

definition seq_step :: "breaker_config \<Rightarrow> breaker_run \<Rightarrow> breaker_run \<Rightarrow> bool" where
  "seq_step cfg s t \<longleftrightarrow> breaker_step cfg s t \<and> rn_calls t + rn_probes t \<le> 1"

definition seq_inv :: "breaker_config \<Rightarrow> breaker_run \<Rightarrow> bool" where
  "seq_inv cfg s \<longleftrightarrow> breaker_inv cfg s \<and> rn_calls s + rn_probes s \<le> 1
     \<and> (0 < rn_calls s \<longrightarrow> br_state (rn_breaker s) = Closed)
     \<and> (0 < rn_probes s \<longrightarrow> br_state (rn_breaker s) = HalfOpen \<and> br_half_open_probe_inflight (rn_breaker s))"

lemma seq_inv_step:
  assumes "seq_inv cfg s" "seq_step cfg s t"
  shows "seq_inv cfg t"
proof -
  have step: "breaker_step cfg s t" and one: "rn_calls t + rn_probes t \<le> 1" using assms(2) by (simp_all add: seq_step_def)
  have inv: "breaker_inv cfg t" using assms(1) step breaker_inv_step by (auto simp: seq_inv_def)
  from step show ?thesis
  proof cases
    case bs_call
    then show ?thesis using inv one assms(1) by (auto simp: seq_inv_def try_acquire_def)
  next
    case bs_probe
    then show ?thesis using inv one assms(1)
      by (cases "br_state (rn_breaker s)")
        (auto simp: seq_inv_def try_acquire_def Let_def split: if_splits option.splits)
  next
    case bs_refused
    then show ?thesis using inv one assms(1)
      by (cases "br_state (rn_breaker s)")
        (auto simp: seq_inv_def try_acquire_def Let_def split: if_splits option.splits)
  qed (use inv one assms(1) in \<open>auto simp: seq_inv_def\<close>)
qed

interpretation sequential: invariant_system breaker_init "seq_step cfg" "seq_inv cfg" for cfg
proof
  show "breaker_init s \<Longrightarrow> seq_inv cfg s" for s
    using breaker.inv_init [of s cfg] by (simp add: seq_inv_def breaker_init_def)
qed (rule seq_inv_step)

definition documented_edge :: "breaker_config \<Rightarrow> breaker_run \<Rightarrow> breaker_run \<Rightarrow> bool" where
  "documented_edge cfg s t \<longleftrightarrow>
     (case (br_state (rn_breaker s), br_state (rn_breaker t)) of
        (Closed, Open) \<Rightarrow> rn_breaker t = record_failure cfg (rn_now s) (rn_breaker s)
          \<and> bk_failure_threshold cfg \<le> br_consecutive_failures (rn_breaker t)
      | (Open, HalfOpen) \<Rightarrow> (\<exists>u. br_opened_at (rn_breaker s) = Some u \<and> bk_reset_after cfg \<le> rn_now s - u)
          \<and> rn_probes t = 1
      | (HalfOpen, Closed) \<Rightarrow> rn_breaker t = record_success cfg (rn_breaker s) \<and> rn_probes s = 1
      | (HalfOpen, Open) \<Rightarrow> rn_breaker t = record_failure cfg (rn_now s) (rn_breaker s) \<and> rn_probes s = 1
      | (a, b) \<Rightarrow> a = b)"

text \<open>
  Sequential callers see the documented automaton. When every permit is settled before the
  next one is asked for, the breaker opens only at the failure threshold, leaves the open state
  only to probe after the cooldown, and leaves the half-open state only by the outcome of its
  single probe.
\<close>

theorem sequential_breaker_follows_diagram:
  assumes "reachable breaker_init (seq_step cfg) s" and "seq_step cfg s t"
  shows "documented_edge cfg s t \<and> rn_probes t \<le> 1"
proof -
  have inv: "seq_inv cfg s" by (rule sequential.reachable_inv [OF assms(1)])
  have step: "breaker_step cfg s t" and one: "rn_calls t + rn_probes t \<le> 1" using assms(2) by (simp_all add: seq_step_def)
  from step have "documented_edge cfg s t"
  proof cases
    case (bs_probe b)
    then show ?thesis using inv one
      by (cases "br_state (rn_breaker s)")
        (auto simp: seq_inv_def documented_edge_def try_acquire_def Let_def split: if_splits option.splits)
  next
    case (bs_call b)
    then show ?thesis by (simp add: documented_edge_def try_acquire_def)
  next
    case (bs_refused b)
    then show ?thesis
      by (cases "br_state (rn_breaker s)")
        (auto simp: documented_edge_def try_acquire_def Let_def split: if_splits option.splits)
  next
    case (bs_tick u)
    then show ?thesis by (cases "br_state (rn_breaker s)") (simp_all add: documented_edge_def)
  qed (use inv in \<open>auto simp: seq_inv_def documented_edge_def breaker_methods\<close>)
  with one show ?thesis by simp
qed

theorem sequential_breaker_follows_diagram_witness:
  "documented_edge breaker_config_default
     \<lparr>rn_breaker = breaker_fresh, rn_calls = 0, rn_probes = 0, rn_now = 7\<rparr>
     \<lparr>rn_breaker = breaker_fresh, rn_calls = 1, rn_probes = 0, rn_now = 7\<rparr>"
proof (rule sequential_breaker_follows_diagram [THEN conjunct1, OF reachable_init])
  let ?s = "\<lparr>rn_breaker = breaker_fresh, rn_calls = 0, rn_probes = 0, rn_now = 7\<rparr>"
  show "seq_step breaker_config_default ?s \<lparr>rn_breaker = breaker_fresh, rn_calls = 1, rn_probes = 0, rn_now = 7\<rparr>"
    using bs_call [of breaker_config_default ?s breaker_fresh] by (simp add: seq_step_def try_acquire_def breaker_fresh_def)
qed (simp add: breaker_init_def)

abbreviation default_reachable :: "breaker_run \<Rightarrow> bool" where
  "default_reachable \<equiv> reachable breaker_init (breaker_step breaker_config_default)"

text \<open>
  A run with one call outstanding, in which five others have just opened the breaker: the state
  of the breaker is \<open>open_breaker t f\<close> at the time \<open>t\<close> after \<open>f\<close> failures.
\<close>

definition open_breaker :: "nat \<Rightarrow> u32 \<Rightarrow> breaker" where
  "open_breaker t f = \<lparr>br_state = Open, br_consecutive_failures = f, br_consecutive_successes = 0, br_opened_at = Some t,
     br_half_open_probe_inflight = False\<rparr>"

definition probing_breaker :: "nat \<Rightarrow> u32 \<Rightarrow> breaker" where
  "probing_breaker t f = (open_breaker t f)\<lparr>br_state := HalfOpen, br_half_open_probe_inflight := True\<rparr>"

lemma calls_outstanding:
  "default_reachable \<lparr>rn_breaker = breaker_fresh, rn_calls = n, rn_probes = 0, rn_now = 0\<rparr>"
proof (induction n)
  case 0
  show ?case by (rule reachable_init) (simp add: breaker_init_def)
next
  case (Suc n)
  from reachable_step [OF Suc bs_call] show ?case by (simp add: try_acquire_def breaker_fresh_def)
qed

lemma five_failures_open:
  "default_reachable \<lparr>rn_breaker = open_breaker 0 5, rn_calls = 1, rn_probes = 0, rn_now = 0\<rparr>"
proof -
  let ?c = breaker_config_default
  let ?at = "\<lambda>b k. \<lparr>rn_breaker = b, rn_calls = k, rn_probes = 0, rn_now = 0\<rparr>"
  let ?b = "\<lambda>f. breaker_fresh\<lparr>br_consecutive_failures := f\<rparr>"
  have fail: "default_reachable (?at b (Suc k)) \<Longrightarrow> default_reachable (?at (record_failure ?c 0 b) k)" for b k
    using bs_call_fails [of "?at b (Suc k)" k ?c] by (auto intro: reachable_step)
  have count: "record_failure ?c 0 (?b f) = ?b (saturating_add f 1)" if "saturating_add f 1 < 5" for f
    using that by (simp add: record_failure_def breaker_fresh_def breaker_config_default_def not_le Let_def)
  have "default_reachable (?at (?b 0) 6)" using calls_outstanding [of 6] by (simp add: breaker_fresh_def)
  then have "default_reachable (?at (?b 1) 5)" using fail [of "?b 0" 5] by (simp add: count saturating_add_def)
  then have "default_reachable (?at (?b 2) 4)" using fail [of "?b 1" 4] by (simp add: count saturating_add_def)
  then have "default_reachable (?at (?b 3) 3)" using fail [of "?b 2" 3] by (simp add: count saturating_add_def)
  then have "default_reachable (?at (?b 4) 2)" using fail [of "?b 3" 2] by (simp add: count saturating_add_def)
  moreover have "record_failure ?c 0 (?b 4) = open_breaker 0 5"
    by (simp add: record_failure_def breaker_fresh_def breaker_config_default_def saturating_add_def Let_def open_breaker_def)
  ultimately show ?thesis using fail [of "?b 4" 1] by (simp add: numeral_2_eq_2)
qed

lemma two_probes_outstanding:
  "\<exists>s. default_reachable s \<and> rn_probes s = 2"
proof -
  let ?c = breaker_config_default and ?w = "bk_reset_after breaker_config_default"
  note shapes = open_breaker_def probing_breaker_def
  have "default_reachable \<lparr>rn_breaker = open_breaker 0 5, rn_calls = 1, rn_probes = 0, rn_now = ?w\<rparr>"
    using reachable_step [OF five_failures_open bs_tick [of _ ?w]] by simp
  from reachable_step [OF this bs_probe]
  have "default_reachable \<lparr>rn_breaker = probing_breaker 0 5, rn_calls = 1, rn_probes = 1, rn_now = ?w\<rparr>"
    by (simp add: try_acquire_def shapes)
  from reachable_step [OF this bs_call_fails [of _ 0]]
  have "default_reachable \<lparr>rn_breaker = open_breaker ?w 6, rn_calls = 0, rn_probes = 1, rn_now = ?w\<rparr>"
    by (simp add: record_failure_def saturating_add_def shapes)
  from reachable_step [OF this bs_tick [of _ "?w + ?w"]]
  have "default_reachable \<lparr>rn_breaker = open_breaker ?w 6, rn_calls = 0, rn_probes = 1, rn_now = ?w + ?w\<rparr>" by simp
  from reachable_step [OF this bs_probe]
  have "default_reachable \<lparr>rn_breaker = probing_breaker ?w 6, rn_calls = 0, rn_probes = 2, rn_now = ?w + ?w\<rparr>"
    by (simp add: try_acquire_def shapes eval_nat_numeral)
  then show ?thesis by (meson breaker_run.select_convs(3))
qed

text \<open>
  C38: concurrent callers can bypass the cooldown. With the default configuration the breaker can
  be closed in the very instant it opened, by the late success of a call admitted before; and two
  probes can be outstanding at once.
\<close>

theorem stale_calls_bypass_the_cooldown:
  "(\<exists>s t. reachable breaker_init (breaker_step breaker_config_default) s \<and> br_state (rn_breaker s) = Open
      \<and> br_opened_at (rn_breaker s) = Some (rn_now s) \<and> breaker_step breaker_config_default s t
      \<and> rn_now t = rn_now s \<and> br_state (rn_breaker t) = Closed)
   \<and> (\<exists>s. reachable breaker_init (breaker_step breaker_config_default) s \<and> rn_probes s = 2)"
proof
  let ?c = breaker_config_default
  let ?s = "\<lparr>rn_breaker = open_breaker 0 5, rn_calls = 1, rn_probes = 0, rn_now = 0\<rparr>"
  let ?t = "\<lparr>rn_breaker = record_success ?c (open_breaker 0 5), rn_calls = 0, rn_probes = 0, rn_now = 0\<rparr>"
  have "breaker_step ?c ?s ?t" using bs_call_ok [of ?s 0 ?c] by simp
  moreover have "br_state (rn_breaker ?t) = Closed" by (simp add: record_success_def open_breaker_def)
  moreover have "br_state (rn_breaker ?s) = Open" "br_opened_at (rn_breaker ?s) = Some (rn_now ?s)" "rn_now ?t = rn_now ?s"
    by (simp_all add: open_breaker_def)
  ultimately show "\<exists>s t. default_reachable s \<and> br_state (rn_breaker s) = Open
      \<and> br_opened_at (rn_breaker s) = Some (rn_now s) \<and> breaker_step ?c s t \<and> rn_now t = rn_now s \<and> br_state (rn_breaker t) = Closed"
    using five_failures_open by blast
qed (rule two_probes_outstanding)

definition stream_completes :: "'e stream_poll list \<Rightarrow> bool" where
  "stream_completes ps \<longleftrightarrow> (\<exists>pre post. ps = pre @ Item True # post \<and> set pre \<subseteq> {Pending, Item False})"

lemma stream_completes_Cons:
  "stream_completes (p # ps) \<longleftrightarrow> p = Item True \<or> p \<in> {Pending, Item False} \<and> stream_completes ps"
  unfolding stream_completes_def
  by (auto simp: Cons_eq_append_conv) (metis insert_subset list.simps(15) insertCI)+

lemma guard_run_settled: "guard_run ps False = []"
proof (induction ps)
  case (Cons p ps)
  then show ?case by (cases p) auto
qed (simp add: guard_drop_def)

lemma guard_run_settles: "guard_run ps True = [if stream_completes ps then Success else Failure]"
proof (induction ps)
  case Nil
  then show ?case by (simp add: guard_drop_def stream_completes_def)
next
  case (Cons p ps)
  show ?case
  proof (cases p)
    case (Item d)
    with Cons show ?thesis by (cases d) (simp_all add: stream_completes_Cons guard_run_settled)
  qed (simp_all add: Cons stream_completes_Cons guard_run_settled)
qed

text \<open>
  A guarded stream counts as one call. However the consumer polls it and whenever it drops
  it, the stream changes the registry exactly as one plain call does, which succeeds precisely
  when a terminal item is the first poll that is neither pending nor an ordinary item.
\<close>

theorem stream_counts_as_one_call:
  "fst (run_stream_with_breaker t0 t1 pid (Ok ps) others r)
   = fst (run_with_breaker t0 t1 pid (if stream_completes ps then Ok () else Err ()) others r)"
  by (simp add: run_stream_with_breaker_def run_with_breaker_def guard_run_settles Let_def
      split: prod.split acquire_result.split)

lemma restore_rows_get:
  assumes "distinct (map rw_provider_id rows)" "\<forall>row \<in> set rows. now - rw_last_seen_ts_unix row \<le> stale"
  shows "restore_rows now stale rows r n = (r', m) \<Longrightarrow> m = n + length rows \<and> rg_config r' = rg_config r
    \<and> btree_get (rg_breakers r') pid =
        (case map_of (map (\<lambda>row. (rw_provider_id row, rw_consecutive_failures row)) rows) pid of
           None \<Rightarrow> btree_get (rg_breakers r) pid
         | Some f \<Rightarrow> Some ((case btree_get (rg_breakers r) pid of None \<Rightarrow> breaker_fresh | Some b \<Rightarrow> b)\<lparr>br_consecutive_failures := f\<rparr>))"
  using assms
proof (induction now stale rows r n rule: restore_rows.induct)
  case (2 now stale row rows r n)
  obtain r1 b where b: "breaker_for (rw_provider_id row) r = (r1, b)" by force
  then have "rg_config r1 = rg_config r"
    "btree_get (rg_breakers r1) p = (if p = rw_provider_id row then Some b else btree_get (rg_breakers r) p)"
    "b = (case btree_get (rg_breakers r) (rw_provider_id row) of None \<Rightarrow> breaker_fresh | Some b \<Rightarrow> b)" for p
    by (auto simp: breaker_for_def btree_get_insert split: option.splits)
  note r1 = this
  have absent: "map_of (map (\<lambda>row. (rw_provider_id row, rw_consecutive_failures row)) rows) (rw_provider_id row) = None"
    using "2.prems"(2) by (force simp: map_of_eq_None_iff)
  show ?case
    using "2.IH"(2) [OF _ b [symmetric]] "2.prems" b r1 absent
    by (auto simp: btree_get_insert split: option.splits if_splits)
qed simp

text \<open>
  A restart keeps the failure counters and nothing else. Restoring the rows of a snapshot
  into a new registry gives every provider that had failures a closed breaker with exactly its
  counter, and no breaker to the others; rows older than the limit are all dropped.
\<close>

theorem restart_keeps_only_counters:
  assumes "btree_ok (rg_breakers r)"
  shows "(now' - now \<le> stale \<longrightarrow>
      (case restore_from_disk (StateRows (snapshot_rows now r)) (Some now') stale (registry_new cfg) of
         (r', res) \<Rightarrow> res = Ok (length (snapshot_rows now r)) \<and> rg_config r' = cfg
           \<and> (\<forall>pid. btree_get (rg_breakers r') pid =
               (case btree_get (rg_breakers r) pid of
                  None \<Rightarrow> None
                | Some b \<Rightarrow> if br_consecutive_failures b = 0 then None
                            else Some (breaker_fresh\<lparr>br_consecutive_failures := br_consecutive_failures b\<rparr>)))))
    \<and> (stale < now' - now \<longrightarrow>
         restore_from_disk (StateRows (snapshot_rows now r)) (Some now') stale (registry_new cfg)
           = (registry_new cfg, Ok 0))"
proof (intro conjI impI)
  let ?rows = "snapshot_rows now r"
  assume fresh: "now' - now \<le> stale"
  obtain r' m where r': "restore_rows now' stale ?rows (registry_new cfg) 0 = (r', m)" by force
  have ids: "map rw_provider_id ?rows = map fst (filter (\<lambda>e. br_consecutive_failures (snd e) > 0) (rg_breakers r))"
    by (simp add: snapshot_rows_def case_prod_beta comp_def)
  have dist: "distinct (map rw_provider_id ?rows)"
    using btree_ok_filter [OF assms] by (simp add: ids btree_ok_def strict_sorted_iff)
  have young: "\<forall>row \<in> set ?rows. now' - rw_last_seen_ts_unix row \<le> stale"
    using fresh by (auto simp: snapshot_rows_def)
  have "map_of (map (\<lambda>e. (fst e, br_consecutive_failures (snd e))) (filter (\<lambda>e. br_consecutive_failures (snd e) > 0) m)) pid =
      (case btree_get m pid of None \<Rightarrow> None
       | Some b \<Rightarrow> if br_consecutive_failures b = 0 then None else Some (br_consecutive_failures b))"
    if "btree_ok m" for m pid
    using that by (induction m) (force simp: word_gt_0 map_of_eq_None_iff split: option.splits)+
  then have look: "map_of (map (\<lambda>row. (rw_provider_id row, rw_consecutive_failures row)) ?rows) pid =
      (case btree_get (rg_breakers r) pid of None \<Rightarrow> None
       | Some b \<Rightarrow> if br_consecutive_failures b = 0 then None else Some (br_consecutive_failures b))" for pid
    using assms by (simp add: snapshot_rows_def case_prod_beta comp_def)
  have empty: "btree_get (rg_breakers (registry_new cfg)) pid = None" "rg_config (registry_new cfg) = cfg" for pid
    by (simp_all add: registry_new_def)
  from restore_rows_get [OF dist young r'] look
  show "case restore_from_disk (StateRows ?rows) (Some now') stale (registry_new cfg) of
         (r', res) \<Rightarrow> res = Ok (length ?rows) \<and> rg_config r' = cfg
           \<and> (\<forall>pid. btree_get (rg_breakers r') pid =
               (case btree_get (rg_breakers r) pid of
                  None \<Rightarrow> None
                | Some b \<Rightarrow> if br_consecutive_failures b = 0 then None
                            else Some (breaker_fresh\<lparr>br_consecutive_failures := br_consecutive_failures b\<rparr>)))"
    by (simp add: restore_from_disk_def r' empty split: option.splits)
next
  assume "stale < now' - now"
  then have "restore_rows now' stale rows q 0 = (q, 0)" if "\<forall>row \<in> set rows. rw_last_seen_ts_unix row = now" for rows q
    using that by (induction rows) auto
  moreover have "\<forall>row \<in> set (snapshot_rows now r). rw_last_seen_ts_unix row = now" by (auto simp: snapshot_rows_def)
  ultimately have "restore_rows now' stale (snapshot_rows now r) q 0 = (q, 0)" for q by blast
  then show "restore_from_disk (StateRows (snapshot_rows now r)) (Some now') stale (registry_new cfg)
      = (registry_new cfg, Ok 0)" by (simp add: restore_from_disk_def)
qed

theorem restart_keeps_only_counters_witness:
  "restore_from_disk (StateRows (snapshot_rows 100
       \<lparr>rg_breakers = [(''a'', breaker_fresh\<lparr>br_consecutive_failures := 3\<rparr>)], rg_config = breaker_config_default\<rparr>))
     (Some 900) 600 (registry_new breaker_config_default) = (registry_new breaker_config_default, Ok 0)"
  using restart_keeps_only_counters
    [of "\<lparr>rg_breakers = [(''a'', breaker_fresh\<lparr>br_consecutive_failures := 3\<rparr>)], rg_config = breaker_config_default\<rparr>"
       900 100 600 breaker_config_default]
  by simp

section \<open>A dead provider\<close>

text \<open>
  Overlapping calls to a provider that fails every one of them: a call asks for a permit when it starts and, if it got one,
  settles it as a failure at any later event, the halves of \<open>run_with_breaker\<close> with other tasks between them. A dropped
  permit settles the same way. The run counts the calls that reached the provider, those in flight and their peak.
\<close>

datatype call_event = CallStarts (event_time: nat) | CallFails (event_time: nat)

record dead_run =
  dn_registry :: breaker_registry
  dn_inflight :: nat
  dn_contacts :: nat
  dn_peak :: nat

fun dead_event :: "string \<Rightarrow> call_event \<Rightarrow> dead_run \<Rightarrow> dead_run" where
  "dead_event pid (CallStarts t) s =
     (case acquire_for t pid (dn_registry s) of
        (r, Permit) \<Rightarrow> s\<lparr>dn_registry := r, dn_inflight := Suc (dn_inflight s), dn_contacts := Suc (dn_contacts s),
                        dn_peak := max (dn_peak s) (Suc (dn_inflight s))\<rparr>
      | (r, _) \<Rightarrow> s\<lparr>dn_registry := r\<rparr>)"
| "dead_event pid (CallFails t) s =
     (if dn_inflight s = 0 then s
      else s\<lparr>dn_registry := settle_for t pid Failure (dn_registry s), dn_inflight := dn_inflight s - 1\<rparr>)"

definition dead_calls :: "string \<Rightarrow> call_event list \<Rightarrow> nat \<Rightarrow> breaker_registry \<Rightarrow> dead_run" where
  "dead_calls pid evs k r =
     fold (dead_event pid) evs \<lparr>dn_registry = r, dn_inflight = k, dn_contacts = 0, dn_peak = k\<rparr>"

text \<open>A call that nothing overlaps is \<open>run_with_breaker\<close>.\<close>

lemma lone_call:
  assumes "dn_inflight s = 0"
  shows "dn_registry (fold (dead_event pid) [CallStarts t, CallFails u] s)
    = fst (run_with_breaker t u pid (Err e :: 'e + 'a) (\<lambda>r. r) (dn_registry s))"
  using assms by (auto simp: run_with_breaker_def split: prod.splits acquire_result.splits)

definition breaker_of :: "string \<Rightarrow> breaker_registry \<Rightarrow> breaker" where
  "breaker_of pid r = snd (breaker_for pid r)"

lemma acquire_for_breaker:
  assumes "acquire_for t pid r = (r', res)" "try_acquire (rg_config r) t (breaker_of pid r) = (b, res')"
  shows "breaker_of pid r' = b" "res = res'" "rg_config r' = rg_config r" "btree_get (rg_breakers r') pid \<noteq> None"
  using assms by (auto simp: acquire_for_def breaker_of_def breaker_for_def btree_get_insert split: option.splits prod.splits)

lemma settle_for_breaker:
  assumes "btree_get (rg_breakers r) pid \<noteq> None"
  shows "breaker_of pid (settle_for t pid Failure r) = record_failure (rg_config r) t (breaker_of pid r)"
    "rg_config (settle_for t pid Failure r) = rg_config r" "btree_get (rg_breakers (settle_for t pid Failure r)) pid \<noteq> None"
  using assms by (auto simp: settle_for_def breaker_of_def breaker_for_def btree_get_insert settle_breaker_def)

text \<open>The failures a closed breaker still lets pass, and the most any does.\<close>

definition failures_left :: "breaker_config \<Rightarrow> breaker \<Rightarrow> nat" where
  "failures_left cfg b = max 1 (unat (bk_failure_threshold cfg) - unat (br_consecutive_failures b))"

definition dead_inv :: "breaker_config \<Rightarrow> string \<Rightarrow> nat \<Rightarrow> nat \<Rightarrow> dead_run \<Rightarrow> bool" where
  "dead_inv cfg pid start k s \<longleftrightarrow>
     rg_config (dn_registry s) = cfg \<and> dn_inflight s \<le> dn_peak s
     \<and> (0 < dn_inflight s \<longrightarrow> btree_get (rg_breakers (dn_registry s)) pid \<noteq> None)
     \<and> dn_contacts s < max 1 (unat (bk_failure_threshold cfg)) + dn_peak s
     \<and> (let b = breaker_of pid (dn_registry s) in
        case br_state b of
          Closed \<Rightarrow> dn_contacts s + k + failures_left cfg b \<le> max 1 (unat (bk_failure_threshold cfg)) + dn_inflight s
        | HalfOpen \<Rightarrow> dn_contacts s = 0 \<or> br_half_open_probe_inflight b
        | Open \<Rightarrow> dn_contacts s = 0 \<or> (\<exists>u \<ge> start. br_opened_at b = Some u))"

lemma dead_inv_starts:
  assumes inv: "dead_inv cfg pid start k s" and t: "start \<le> t" "t < start + bk_reset_after cfg"
  shows "dead_inv cfg pid start k (dead_event pid (CallStarts t) s)"
proof -
  let ?b = "breaker_of pid (dn_registry s)"
  obtain r' res where a: "acquire_for t pid (dn_registry s) = (r', res)" by fastforce
  obtain b res' where y: "try_acquire cfg t ?b = (b, res')" by fastforce
  have cfg: "rg_config (dn_registry s) = cfg" using inv by (simp add: dead_inv_def)
  note q = acquire_for_breaker [OF a, unfolded cfg, OF y]
  have probe: ?thesis if "res = Permit" "br_state b = HalfOpen" "br_half_open_probe_inflight b" "dn_contacts s = 0"
    using inv q that by (simp add: dead_inv_def a max_def)
  show ?thesis
  proof (cases "br_state ?b")
    case Closed
    then have "b = ?b" "res = Permit" using y q(2) by (auto simp: try_acquire_def)
    moreover have "Suc (dn_contacts s) < max 1 (unat (bk_failure_threshold cfg)) + max (dn_peak s) (Suc (dn_inflight s))"
    proof -
      have "dn_contacts s + k + failures_left cfg ?b \<le> max 1 (unat (bk_failure_threshold cfg)) + dn_inflight s"
        using inv Closed by (simp add: dead_inv_def Let_def)
      moreover have "1 \<le> failures_left cfg ?b" by (simp add: failures_left_def)
      ultimately show ?thesis using max.cobounded2 [of "Suc (dn_inflight s)" "dn_peak s"] by linarith
    qed
    ultimately show ?thesis using inv q Closed by (auto simp: dead_inv_def a Let_def)
  next
    case HalfOpen
    show ?thesis
    proof (cases "br_half_open_probe_inflight ?b")
      case True
      then have "b = ?b" "res \<noteq> Permit" using y q(2) HalfOpen by (auto simp: try_acquire_def)
      with inv q HalfOpen True show ?thesis by (cases res) (auto simp: dead_inv_def a Let_def)
    next
      case False
      then have "b = ?b\<lparr>br_half_open_probe_inflight := True\<rparr>" "res = Permit" "dn_contacts s = 0"
        using y q(2) HalfOpen inv by (auto simp: try_acquire_def dead_inv_def)
      then show ?thesis by (intro probe) (simp_all add: HalfOpen)
    qed
  next
    case Open
    show ?thesis
    proof (cases "res = Permit")
      case True
      then have p: "\<exists>u. br_opened_at ?b = Some u \<and> bk_reset_after cfg \<le> t - u" "b = ?b\<lparr>br_state := HalfOpen, br_half_open_probe_inflight := True\<rparr>"
        using y q(2) Open by (auto simp: try_acquire_def Let_def split: if_splits option.splits)
      moreover have "\<not> bk_reset_after cfg \<le> t - u" if "start \<le> u" for u using t that by linarith
      ultimately have "dn_contacts s = 0" using inv Open by (auto simp: dead_inv_def)
      with p(2) True show ?thesis by (intro probe) simp_all
    next
      case False
      then have "b = ?b" using y q(2) Open by (auto simp: try_acquire_def Let_def split: if_splits option.splits)
      with inv q Open False show ?thesis by (cases res) (auto simp: dead_inv_def a Let_def)
    qed
  qed
qed

lemma failures_left_Suc:
  assumes "saturating_add (br_consecutive_failures b) 1 < bk_failure_threshold cfg"
  shows "failures_left cfg b = Suc (failures_left cfg (b\<lparr>br_consecutive_successes := 0,
    br_consecutive_failures := saturating_add (br_consecutive_failures b) 1\<rparr>))"
proof -
  have "unat (saturating_add (br_consecutive_failures b) 1) < unat (bk_failure_threshold cfg)" using assms by (simp add: word_less_nat_alt)
  moreover have "unat (bk_failure_threshold cfg) < 2 ^ 32" using unsigned_less [of "bk_failure_threshold cfg", where ?'a = nat] by simp
  ultimately show ?thesis by (simp add: failures_left_def unat_saturating_add min_def split: if_splits)
qed

lemma dead_inv_fails:
  assumes inv: "dead_inv cfg pid start k s" and t: "start \<le> t"
  shows "dead_inv cfg pid start k (dead_event pid (CallFails t) s)"
proof (cases "dn_inflight s = 0")
  case False
  let ?b = "breaker_of pid (dn_registry s)"
  have cfg: "rg_config (dn_registry s) = cfg" using inv by (simp add: dead_inv_def)
  have "btree_get (rg_breakers (dn_registry s)) pid \<noteq> None" using inv False by (simp add: dead_inv_def)
  note q = settle_for_breaker [OF this, of t, unfolded cfg]
  have left: "1 \<le> failures_left cfg ?b" by (simp add: failures_left_def)
  show ?thesis
  proof (cases "br_state ?b")
    case Closed
    show ?thesis
    proof (cases "saturating_add (br_consecutive_failures ?b) 1 < bk_failure_threshold cfg")
      case True
      with inv q Closed False failures_left_Suc [OF True] show ?thesis
        by (auto simp: dead_inv_def Let_def record_failure_def not_le)
    next
      case over: False
      with inv q Closed False t show ?thesis by (auto simp: dead_inv_def Let_def record_failure_def not_less)
    qed
  qed (use inv q False t in \<open>auto simp: dead_inv_def Let_def record_failure_def\<close>)
qed (use inv in simp)

lemma dead_inv_run:
  assumes "dead_inv cfg pid start k s" "\<forall>e \<in> set evs. start \<le> event_time e \<and> event_time e < start + bk_reset_after cfg"
  shows "dead_inv cfg pid start k (fold (dead_event pid) evs s)"
  using assms
proof (induction evs arbitrary: s)
  case (Cons e evs)
  then have "dead_inv cfg pid start k (dead_event pid e s)" by (cases e) (auto intro: dead_inv_starts dead_inv_fails simp del: dead_event.simps)
  with Cons show ?case by simp
qed simp

lemma dead_inv_start:
  assumes "btree_get (rg_breakers r) pid = None \<longrightarrow> k = 0"
  shows "dead_inv (rg_config r) pid start k \<lparr>dn_registry = r, dn_inflight = k, dn_contacts = 0, dn_peak = k\<rparr>"
  using assms by (auto simp: dead_inv_def Let_def failures_left_def max_def split: breaker_state.split)

text \<open>Calls one after the other.\<close>

definition one_by_one :: "(nat \<times> nat) list \<Rightarrow> call_event list" where
  "one_by_one calls = concat (map (\<lambda>(t, u). [CallStarts t, CallFails u]) calls)"

lemma lone_refused:
  assumes "dn_inflight s = 0" "rg_config (dn_registry s) = cfg" "br_state (breaker_of pid (dn_registry s)) = Open"
    "br_opened_at (breaker_of pid (dn_registry s)) = Some w" "start \<le> w"
    "\<forall>e \<in> set (one_by_one calls). start \<le> event_time e \<and> event_time e < start + bk_reset_after cfg"
  shows "dn_contacts (fold (dead_event pid) (one_by_one calls) s) = dn_contacts s"
  using assms
proof (induction calls arbitrary: s)
  case (Cons c calls)
  obtain t u where c: "c = (t, u)" by fastforce
  let ?b = "breaker_of pid (dn_registry s)"
  obtain r' res where a: "acquire_for t pid (dn_registry s) = (r', res)" by fastforce
  have "try_acquire cfg t ?b = (?b, Refused (BreakerOpen (bk_reset_after cfg - (t - w))))"
    using Cons.prems c by (auto simp: try_acquire_def one_by_one_def Let_def)
  note q = acquire_for_breaker [OF a, unfolded Cons.prems(2), OF this]
  have "dn_contacts (fold (dead_event pid) (one_by_one calls) (s\<lparr>dn_registry := r'\<rparr>)) = dn_contacts (s\<lparr>dn_registry := r'\<rparr>)"
    using Cons.prems q by (intro Cons.IH) (auto simp: one_by_one_def)
  then show ?case using Cons.prems(1) q(2) by (simp add: c one_by_one_def a)
qed (simp add: one_by_one_def)

lemma lone_contacts:
  assumes "dn_inflight s = 0" "rg_config (dn_registry s) = cfg" "br_state (breaker_of pid (dn_registry s)) = Closed"
    "\<forall>e \<in> set (one_by_one calls). start \<le> event_time e \<and> event_time e < start + bk_reset_after cfg"
  shows "dn_contacts (fold (dead_event pid) (one_by_one calls) s)
    = dn_contacts s + min (length calls) (failures_left cfg (breaker_of pid (dn_registry s)))"
  using assms
proof (induction calls arbitrary: s)
  case (Cons c calls)
  obtain t u where c: "c = (t, u)" by fastforce
  let ?b = "breaker_of pid (dn_registry s)"
  obtain r1 res where a: "acquire_for t pid (dn_registry s) = (r1, res)" by fastforce
  have "try_acquire cfg t ?b = (?b, Permit)" using Cons.prems(3) by (simp add: try_acquire_def)
  note q = acquire_for_breaker [OF a, unfolded Cons.prems(2), OF this]
  note z = settle_for_breaker [OF q(4), of u, unfolded q(1) q(3)]
  let ?s = "s\<lparr>dn_contacts := Suc (dn_contacts s), dn_peak := max (dn_peak s) 1,
    dn_registry := settle_for u pid Failure r1, dn_inflight := 0\<rparr>"
  have step: "fold (dead_event pid) (one_by_one (c # calls)) s = fold (dead_event pid) (one_by_one calls) ?s"
    using Cons.prems(1) q(2) by (simp add: c one_by_one_def a)
  have win: "start \<le> u" "\<forall>e \<in> set (one_by_one calls). start \<le> event_time e \<and> event_time e < start + bk_reset_after cfg"
    using Cons.prems(4) c by (auto simp: one_by_one_def)
  show ?case
  proof (cases "saturating_add (br_consecutive_failures ?b) 1 < bk_failure_threshold cfg")
    case True
    then have b: "record_failure cfg u ?b = ?b\<lparr>br_consecutive_successes := 0,
        br_consecutive_failures := saturating_add (br_consecutive_failures ?b) 1\<rparr>"
      using Cons.prems(3) by (simp add: record_failure_def Let_def)
    have "dn_contacts (fold (dead_event pid) (one_by_one calls) ?s)
        = dn_contacts ?s + min (length calls) (failures_left cfg (breaker_of pid (dn_registry ?s)))"
      using z Cons.prems(3) win(2) by (intro Cons.IH) (simp_all add: b)
    with failures_left_Suc [OF True] z show ?thesis unfolding step by (simp add: b)
  next
    case False
    then have op: "br_state (record_failure cfg u ?b) = Open" "br_opened_at (record_failure cfg u ?b) = Some u"
      using Cons.prems(3) by (simp_all add: record_failure_def Let_def not_less)
    have "failures_left cfg ?b = 1"
      using False by (auto simp: failures_left_def not_less word_le_nat_alt unat_saturating_add min_def split: if_splits)
    moreover have "dn_contacts (fold (dead_event pid) (one_by_one calls) ?s) = dn_contacts ?s"
      using z op win by (intro lone_refused [where w = u and cfg = cfg and start = start]) simp_all
    ultimately show ?thesis unfolding step by simp
  qed
qed (simp add: one_by_one_def)

text \<open>
  C33: the breaker bounds the contacts to a dead provider. Whatever the state of its breaker and however calls overlap, within one
  cooldown period of events fewer calls reach a provider that fails them all than the failure threshold (at least one)
  plus the largest number of calls in flight at once; the rest are refused without contacting it. Calls that do not overlap
  reach it exactly as often as a closed breaker has failures left, which is the threshold for a provider not seen before.
\<close>

theorem dead_provider_contacts_are_bounded:
  assumes "\<forall>e \<in> set evs. start \<le> event_time e \<and> event_time e < start + bk_reset_after (rg_config r)"
    "btree_get (rg_breakers r) pid = None \<longrightarrow> k = 0"
  shows "dn_contacts (dead_calls pid evs k r) < max 1 (unat (bk_failure_threshold (rg_config r))) + dn_peak (dead_calls pid evs k r)
    \<and> (evs = one_by_one calls \<and> k = 0 \<and> br_state (breaker_of pid r) = Closed \<longrightarrow>
         dn_contacts (dead_calls pid evs k r) =
           min (length calls) (max 1 (unat (bk_failure_threshold (rg_config r)) - unat (br_consecutive_failures (breaker_of pid r)))))"
proof (intro conjI impI)
  show "dn_contacts (dead_calls pid evs k r) < max 1 (unat (bk_failure_threshold (rg_config r))) + dn_peak (dead_calls pid evs k r)"
    using dead_inv_run [OF dead_inv_start [OF assms(2)] assms(1)] by (simp add: dead_inv_def dead_calls_def)
  assume "evs = one_by_one calls \<and> k = 0 \<and> br_state (breaker_of pid r) = Closed"
  then show "dn_contacts (dead_calls pid evs k r) =
      min (length calls) (max 1 (unat (bk_failure_threshold (rg_config r)) - unat (br_consecutive_failures (breaker_of pid r))))"
    using lone_contacts [where s = "\<lparr>dn_registry = r, dn_inflight = 0, dn_contacts = 0, dn_peak = 0\<rparr>" and calls = calls and start = start
        and pid = pid] assms(1) by (simp add: dead_calls_def failures_left_def)
qed

text \<open>Seven calls to a provider not seen before, with the default threshold of five, one after the other.\<close>

theorem dead_provider_contacts_are_bounded_witness:
  "dn_contacts (dead_calls ''p'' (one_by_one [(0, 5), (10, 15), (20, 25), (30, 35), (40, 45), (50, 55), (60, 65)]) 0
     (registry_new breaker_config_default)) = 5"
  using dead_provider_contacts_are_bounded
    [of "one_by_one [(0, 5), (10, 15), (20, 25), (30, 35), (40, 45), (50, 55), (60, 65)]" 0 "registry_new breaker_config_default" "''p''" 0
       "[(0, 5), (10, 15), (20, 25), (30, 35), (40, 45), (50, 55), (60, 65)]"]
  by (simp add: registry_new_def breaker_config_default_def one_by_one_def breaker_of_def breaker_for_def breaker_fresh_def)

end
