(* ===== verification/Council_Budget.thy ===== *)
theory Council_Budget
  imports Neoth_Prelude
begin

text \<open>
  The call caps of the council: the shared token of one debate and its persisted meter
  (\<open>src/SRC/neothd/src/council/budget.rs\<close>) and the rolling counter of convenes
  (\<open>council/day_counter.rs\<close>). The token is shared by concurrent leaves; its atomic accesses
  are the steps. A convene runs under a file lock from its load to its write, so that one call is
  one step; whether the lock is obtained, the log can be renamed and a write succeeds are
  arguments. A failed atomic write leaves the file as it was. Times are seconds since the epoch as integers; the callers
  pass the non-negative time of the system clock, for which the 64-bit subtraction of the window cannot wrap.
\<close>

section \<open>The token of a debate\<close>

record budget_token =
  bt_used :: u32
  bt_denied :: bool
  bt_cap :: u32

record budget_exhausted =
  ex_used :: u32
  ex_cap :: u32

definition token_new :: "u32 \<Rightarrow> budget_token" where
  "token_new cap = \<lparr>bt_used = 0, bt_denied = False, bt_cap = cap\<rparr>"

definition DEFAULT_MAX_CALLS_PER_USER_MESSAGE :: u32 where
  "DEFAULT_MAX_CALLS_PER_USER_MESSAGE = 15"

definition effective_max_calls :: "u32 option \<Rightarrow> u32" where
  "effective_max_calls max_calls_per_user_message =
     (case max_calls_per_user_message of None \<Rightarrow> DEFAULT_MAX_CALLS_PER_USER_MESSAGE | Some n \<Rightarrow> n)"

definition token_from_council :: "u32 option \<Rightarrow> budget_token" where
  "token_from_council max_calls = token_new (effective_max_calls max_calls)"

definition token_used :: "budget_token \<Rightarrow> u32" where
  "token_used b = min (bt_used b) (bt_cap b)"

definition token_remaining :: "budget_token \<Rightarrow> u32" where
  "token_remaining b = (if token_used b \<le> bt_cap b then bt_cap b - token_used b else 0)"

text \<open>\<open>charge\<close> is three atomic accesses: the counter, and on denial the flag and a load.\<close>

definition charge_fetch :: "budget_token \<Rightarrow> budget_token \<times> u32" where
  "charge_fetch b = (b\<lparr>bt_used := saturating_add (bt_used b) 1\<rparr>, bt_used b)"

definition charge_deny :: "budget_token \<Rightarrow> budget_token" where
  "charge_deny b = b\<lparr>bt_denied := True\<rparr>"

definition charge_report :: "budget_token \<Rightarrow> budget_exhausted" where
  "charge_report b = \<lparr>ex_used = token_used b, ex_cap = bt_cap b\<rparr>"

definition charge :: "budget_token \<Rightarrow> budget_token \<times> (budget_exhausted + u32)" where
  "charge b =
     (case charge_fetch b of (b, prior) \<Rightarrow>
        if prior \<ge> bt_cap b
        then (let b = charge_deny b in (b, Err (charge_report b)))
        else (b, Ok (prior + 1)))"

section \<open>The persisted meter\<close>

record council_budget_snapshot =
  cs_cap :: u32
  cs_used_last_msg :: u32
  cs_exhausted_last_msg :: bool
  cs_exhaustions_rolling :: u64
  cs_updated_ts_unix :: int

definition snapshot_default :: council_budget_snapshot where
  "snapshot_default = \<lparr>cs_cap = 0, cs_used_last_msg = 0, cs_exhausted_last_msg = False,
     cs_exhaustions_rolling = 0, cs_updated_ts_unix = 0\<rparr>"

text \<open>\<open>file\<close> is the snapshot in the file, \<open>None\<close> when it is missing, empty or malformed.\<close>

definition record_budget_outcome ::
    "bool \<Rightarrow> u32 \<Rightarrow> u32 \<Rightarrow> bool \<Rightarrow> int \<Rightarrow> council_budget_snapshot option \<Rightarrow> council_budget_snapshot option" where
  "record_budget_outcome write_ok used cap denied now_unix file =
     (let snap = (case file of None \<Rightarrow> snapshot_default | Some s \<Rightarrow> s);
          snap = snap\<lparr>cs_cap := cap, cs_used_last_msg := used, cs_exhausted_last_msg := denied\<rparr>;
          snap = (if denied then snap\<lparr>cs_exhaustions_rolling := saturating_add (cs_exhaustions_rolling snap) 1\<rparr> else snap);
          snap = snap\<lparr>cs_updated_ts_unix := now_unix\<rparr>
      in if write_ok then Some snap else file)"

section \<open>The rolling counter of convenes\<close>

definition MAX_CONVENES_PER_24H :: nat where "MAX_CONVENES_PER_24H = 500"

definition WINDOW_SECS :: int where "WINDOW_SECS = 24 * 60 * 60"

datatype admit_result = Admitted | Capped | StateInvalid

datatype convene_log = LogMissing | LogUnreadable | LogGarbage "8 word list" | LogTimes "int list"

datatype load_fail = LoadMissing | LoadCorrupt "8 word list"

definition load_strict :: "convene_log \<Rightarrow> int \<Rightarrow> load_fail + int list" where
  "load_strict log now_unix =
     (case log of
        LogMissing \<Rightarrow> Err LoadMissing
      | LogUnreadable \<Rightarrow> Err (LoadCorrupt [])
      | LogGarbage raw \<Rightarrow> Err (LoadCorrupt raw)
      | LogTimes tss \<Rightarrow> (let cutoff = now_unix - WINDOW_SECS in Ok (filter (\<lambda>t. t > cutoff) tss)))"

text \<open>The rename moves the file away; the copy written when it fails leaves the log in place.\<close>

definition quarantine_corrupt :: "bool \<Rightarrow> convene_log \<Rightarrow> convene_log" where
  "quarantine_corrupt rename_ok log = (if rename_ok then LogMissing else log)"

record convene_io =
  io_lock :: bool
  io_rename :: bool
  io_write :: bool

definition try_admit_convene :: "convene_io \<Rightarrow> int \<Rightarrow> convene_log \<Rightarrow> convene_log \<times> admit_result" where
  "try_admit_convene io now_unix log =
     (if \<not> io_lock io then (log, StateInvalid)
      else
        let admit = (\<lambda>timestamps.
          if length timestamps \<ge> MAX_CONVENES_PER_24H then (log, Capped)
          else if io_write io then (LogTimes (timestamps @ [now_unix]), Admitted)
          else (log, StateInvalid))
        in case load_strict log now_unix of
             Ok ts \<Rightarrow> admit ts
           | Err LoadMissing \<Rightarrow> admit []
           | Err (LoadCorrupt raw) \<Rightarrow> (quarantine_corrupt (io_rename io) log, StateInvalid))"

section \<open>Concurrent charges\<close>

text \<open>
  A state of an execution: the token, the positions granted so far, latest first, and the number
  of leaves between a refused fetch and its store of the flag.
\<close>

record charge_run =
  cr_token :: budget_token
  cr_granted :: "u32 list"
  cr_refused :: nat
  cr_denying :: nat

inductive charge_step :: "charge_run \<Rightarrow> charge_run \<Rightarrow> bool" where
  cs_grant: "charge_fetch (cr_token s) = (b, prior) \<Longrightarrow> prior < bt_cap b \<Longrightarrow>
    charge_step s (s\<lparr>cr_token := b, cr_granted := (prior + 1) # cr_granted s\<rparr>)"
| cs_refuse: "charge_fetch (cr_token s) = (b, prior) \<Longrightarrow> bt_cap b \<le> prior \<Longrightarrow>
    charge_step s (s\<lparr>cr_token := b, cr_refused := Suc (cr_refused s), cr_denying := Suc (cr_denying s)\<rparr>)"
| cs_deny: "cr_denying s = Suc n \<Longrightarrow>
    charge_step s (s\<lparr>cr_token := charge_deny (cr_token s), cr_denying := n\<rparr>)"

definition charge_init :: "u32 \<Rightarrow> charge_run \<Rightarrow> bool" where
  "charge_init cap s \<longleftrightarrow> cr_token s = token_new cap \<and> cr_granted s = [] \<and> cr_refused s = 0 \<and> cr_denying s = 0"

text \<open>The positions \<open>k, \<dots>, 1\<close>.\<close>

fun countdown :: "nat \<Rightarrow> u32 list" where
  "countdown 0 = []"
| "countdown (Suc k) = word_of_nat (Suc k) # countdown k"

lemma length_countdown [simp]: "length (countdown k) = k"
  by (induction k) auto

lemma set_countdown: "k < 2 ^ 32 \<Longrightarrow> unat ` set (countdown k) = {1..k}"
proof (induction k)
  case (Suc k)
  then have "unat (word_of_nat (Suc k) :: u32) = Suc k" by (simp add: unat_of_nat del: of_nat_Suc)
  with Suc show ?case by (simp add: atLeastAtMostSuc_conv del: of_nat_Suc)
qed simp

lemma distinct_countdown: "k < 2 ^ 32 \<Longrightarrow> distinct (countdown k)"
proof -
  assume "k < 2 ^ 32"
  then have "card (unat ` set (countdown k)) = k" by (simp only: set_countdown) simp
  moreover have "card (unat ` set (countdown k)) \<le> card (set (countdown k))" by (simp add: card_image_le)
  ultimately have "card (set (countdown k)) = length (countdown k)"
    using card_length [of "countdown k"] by simp
  then show ?thesis by (rule card_distinct)
qed

definition charge_inv :: "u32 \<Rightarrow> charge_run \<Rightarrow> bool" where
  "charge_inv cap s \<longleftrightarrow>
     bt_cap (cr_token s) = cap \<and> cr_granted s = countdown (unat (token_used (cr_token s)))
     \<and> (0 < cr_refused s \<longrightarrow> token_used (cr_token s) = cap)
     \<and> cr_denying s \<le> cr_refused s \<and> (bt_denied (cr_token s) \<longleftrightarrow> cr_denying s < cr_refused s)"

lemma used_after_grant:
  assumes "bt_used b < bt_cap b"
  shows "token_used (b\<lparr>bt_used := saturating_add (bt_used b) 1\<rparr>) = token_used b + 1"
    and "token_used b = bt_used b" and "unat (token_used b + 1) = Suc (unat (token_used b))"
proof -
  have less: "unat (bt_used b) < unat (bt_cap b)" using assms by (simp add: word_less_nat_alt)
  have up: "unat (bt_used b + 1) = Suc (unat (bt_used b))"
    using less unsigned_less [of "bt_cap b", where ?'a = nat] by (simp add: unat_word_ariths)
  have sat: "saturating_add (bt_used b) 1 = bt_used b + 1"
    using less unsigned_less [of "bt_cap b", where ?'a = nat] by (simp add: saturating_add_def)
  show used: "token_used b = bt_used b" using assms by (simp add: token_used_def)
  have "bt_used b + 1 \<le> bt_cap b" using less up by (simp add: word_le_nat_alt)
  then show "token_used (b\<lparr>bt_used := saturating_add (bt_used b) 1\<rparr>) = token_used b + 1"
    by (simp add: sat used) (simp add: token_used_def)
  show "unat (token_used b + 1) = Suc (unat (token_used b))" by (simp add: used up)
qed

lemma used_after_refusal:
  assumes "bt_cap b \<le> bt_used b"
  shows "token_used (b\<lparr>bt_used := saturating_add (bt_used b) 1\<rparr>) = bt_cap b" and "token_used b = bt_cap b"
proof -
  have "bt_used b \<le> saturating_add (bt_used b) 1"
    using unsigned_less [of "bt_used b", where ?'a = nat] by (simp add: word_le_nat_alt unat_saturating_add)
  then show "token_used (b\<lparr>bt_used := saturating_add (bt_used b) 1\<rparr>) = bt_cap b" "token_used b = bt_cap b"
    using assms by (auto simp: token_used_def)
qed

lemma charge_inv_step:
  assumes inv: "charge_inv cap s" and step: "charge_step s t"
  shows "charge_inv cap t"
  using step
proof cases
  case (cs_grant b prior)
  then have b: "b = (cr_token s)\<lparr>bt_used := saturating_add (bt_used (cr_token s)) 1\<rparr>" "prior = bt_used (cr_token s)"
    by (auto simp: charge_fetch_def)
  then have "bt_used (cr_token s) < bt_cap (cr_token s)" using cs_grant by simp
  note used = used_after_grant [OF this]
  have "0 < cr_refused s \<longrightarrow> False" using inv used cs_grant(3) b by (auto simp: charge_inv_def)
  moreover have "word_of_nat (Suc (unat (token_used (cr_token s)))) = prior + 1"
    using used(2) b by (simp add: add.commute)
  ultimately show ?thesis using inv used cs_grant b by (auto simp: charge_inv_def simp del: of_nat_Suc)
next
  case (cs_refuse b prior)
  then have b: "b = (cr_token s)\<lparr>bt_used := saturating_add (bt_used (cr_token s)) 1\<rparr>"
    "bt_cap (cr_token s) \<le> bt_used (cr_token s)"
    by (auto simp: charge_fetch_def)
  show ?thesis using inv used_after_refusal [OF b(2)] cs_refuse b by (auto simp: charge_inv_def)
next
  case (cs_deny n)
  then show ?thesis using inv by (auto simp: charge_inv_def charge_deny_def token_used_def)
qed

interpretation charges: invariant_system "charge_init cap" charge_step "charge_inv cap" for cap
proof
  show "charge_init cap s \<Longrightarrow> charge_inv cap s" for s
    by (simp add: charge_init_def charge_inv_def token_new_def token_used_def)
qed (rule charge_inv_step)

text \<open>
  The cap of a debate holds under every interleaving. The leaves that were granted a call
  hold the positions from one up to the count that the token reports, each exactly once and never
  above the cap; a leaf is refused only when the whole cap has been granted; and the denial flag
  is raised only, and as soon as no leaf is in between always, after a refusal.
\<close>

theorem debate_cap_holds:
  assumes "reachable (charge_init cap) charge_step s"
  shows "distinct (cr_granted s) \<and> unat ` set (cr_granted s) = {1..unat (token_used (cr_token s))}
    \<and> length (cr_granted s) + unat (token_remaining (cr_token s)) = unat cap
    \<and> (0 < cr_refused s \<longrightarrow> length (cr_granted s) = unat cap)
    \<and> (bt_denied (cr_token s) \<longrightarrow> 0 < cr_refused s)
    \<and> (cr_denying s = 0 \<longrightarrow> (bt_denied (cr_token s) \<longleftrightarrow> 0 < cr_refused s))"
proof -
  let ?k = "unat (token_used (cr_token s))"
  have inv: "charge_inv cap s" by (rule charges.reachable_inv [OF assms])
  have k: "?k < 2 ^ 32" using unsigned_less [of "token_used (cr_token s)", where ?'a = nat] by simp
  have le: "token_used (cr_token s) \<le> cap" using inv by (auto simp: charge_inv_def token_used_def)
  have "distinct (cr_granted s)" "unat ` set (cr_granted s) = {1..?k}"
    using inv distinct_countdown [OF k] set_countdown [OF k] by (simp_all add: charge_inv_def)
  moreover have "length (cr_granted s) + unat (token_remaining (cr_token s)) = unat cap"
    using inv le by (simp add: charge_inv_def token_remaining_def unat_sub word_le_nat_alt)
  ultimately show ?thesis using inv by (auto simp: charge_inv_def)
qed

theorem debate_cap_holds_witness:
  "length (cr_granted \<lparr>cr_token = \<lparr>bt_used = 1, bt_denied = False, bt_cap = 2\<rparr>, cr_granted = [1],
     cr_refused = 0, cr_denying = 0\<rparr>) + 1 = 2"
proof -
  let ?s = "\<lparr>cr_token = token_new 2, cr_granted = [], cr_refused = 0, cr_denying = 0\<rparr>"
  let ?t = "\<lparr>cr_token = \<lparr>bt_used = 1, bt_denied = False, bt_cap = 2\<rparr>, cr_granted = [1 :: u32],
     cr_refused = 0, cr_denying = 0\<rparr>"
  have "charge_step ?s ?t"
    using cs_grant [of ?s "\<lparr>bt_used = 1, bt_denied = False, bt_cap = 2\<rparr>" 0]
    by (simp add: charge_fetch_def token_new_def saturating_add_def)
  moreover have "reachable (charge_init 2) charge_step ?s" by (rule reachable_init) (simp add: charge_init_def)
  ultimately have "reachable (charge_init 2) charge_step ?t" by (metis reachable_step)
  from debate_cap_holds [OF this] show ?thesis by (simp add: token_remaining_def token_used_def)
qed

text \<open>The three accesses run without interruption are the function the callers see.\<close>

lemma charge_is_exact:
  "charge b = (if bt_used b < bt_cap b
     then (b\<lparr>bt_used := bt_used b + 1\<rparr>, Ok (token_used b + 1))
     else (b\<lparr>bt_used := saturating_add (bt_used b) 1, bt_denied := True\<rparr>,
       Err \<lparr>ex_used = bt_cap b, ex_cap = bt_cap b\<rparr>))"
proof (cases "bt_used b < bt_cap b")
  case True
  then have "unat (bt_used b) < unat (bt_cap b)" by (simp add: word_less_nat_alt)
  then have "saturating_add (bt_used b) 1 = bt_used b + 1"
    using unsigned_less [of "bt_cap b", where ?'a = nat] by (simp add: saturating_add_def)
  with True used_after_grant(2) [OF True] show ?thesis by (auto simp: charge_def charge_fetch_def)
next
  case False
  then have "bt_cap b \<le> bt_used b" by simp
  from used_after_refusal(1) [OF this] this show ?thesis
    by (simp add: charge_def charge_fetch_def charge_deny_def charge_report_def Let_def token_used_def)
qed

section \<open>Convenes\<close>

text \<open>
  A sequence of calls of any processes: the log, the times of the admitted convenes, latest
  first, and the clock, which does not go back.
\<close>

record convene_run =
  cv_log :: convene_log
  cv_admitted :: "int list"
  cv_now :: int

inductive convene_step :: "convene_run \<Rightarrow> convene_run \<Rightarrow> bool" where
  cv_call: "cv_now s \<le> now \<Longrightarrow> try_admit_convene io now (cv_log s) = (log, res) \<Longrightarrow>
    convene_step s (s\<lparr>cv_log := log, cv_now := now,
      cv_admitted := (if res = Admitted then now # cv_admitted s else cv_admitted s)\<rparr>)"

definition convene_init :: "convene_run \<Rightarrow> bool" where
  "convene_init s \<longleftrightarrow> cv_log s = LogMissing \<and> cv_admitted s = []"

definition in_window :: "int \<Rightarrow> int list \<Rightarrow> nat" where
  "in_window t xs = length (filter (\<lambda>x. t - WINDOW_SECS < x \<and> x \<le> t) xs)"

definition log_times :: "convene_log \<Rightarrow> int list" where
  "log_times log = (case log of LogTimes tss \<Rightarrow> tss | _ \<Rightarrow> [])"

definition after_count :: "int \<Rightarrow> int list \<Rightarrow> nat" where
  "after_count c xs = length (filter (\<lambda>x. c < x) xs)"

lemma after_count_mono: "c \<le> d \<Longrightarrow> after_count d xs \<le> after_count c xs"
  unfolding after_count_def by (induction xs) auto

definition convene_inv :: "convene_run \<Rightarrow> bool" where
  "convene_inv s \<longleftrightarrow> (cv_log s = LogMissing \<or> (\<exists>tss. cv_log s = LogTimes tss))
     \<and> (\<forall>x \<in> set (cv_admitted s). x \<le> cv_now s)
     \<and> (\<forall>c \<ge> cv_now s - WINDOW_SECS. after_count c (cv_admitted s) \<le> after_count c (log_times (cv_log s)))
     \<and> (\<forall>t. in_window t (cv_admitted s) \<le> MAX_CONVENES_PER_24H)"

lemma try_admit_cases:
  assumes "try_admit_convene io now log = (log', res)" "log = LogMissing \<or> (\<exists>tss. log = LogTimes tss)"
  obtains (same) "log' = log" "res \<noteq> Admitted"
  | (admit) "res = Admitted" "log' = LogTimes (filter (\<lambda>t. now - WINDOW_SECS < t) (log_times log) @ [now])"
      "after_count (now - WINDOW_SECS) (log_times log) < MAX_CONVENES_PER_24H"
  using assms by (auto simp: try_admit_convene_def load_strict_def log_times_def after_count_def Let_def
      not_le MAX_CONVENES_PER_24H_def split: if_splits)

lemma window_after_admission:
  assumes "\<forall>x \<in> set xs. x \<le> now" "in_window t xs \<le> n" "after_count (now - WINDOW_SECS) xs < n"
  shows "in_window t (now # xs) \<le> n"
proof (cases "now \<le> t")
  case True
  have "filter (\<lambda>x. t - WINDOW_SECS < x \<and> x \<le> t) xs = filter (\<lambda>x. t - WINDOW_SECS < x) xs"
    using True assms(1) by (intro filter_cong) auto
  then have "in_window t xs = after_count (t - WINDOW_SECS) xs" by (simp add: in_window_def after_count_def)
  also have "\<dots> < n" using after_count_mono [of "now - WINDOW_SECS" "t - WINDOW_SECS" xs] True assms(3) by simp
  finally show ?thesis by (simp add: in_window_def)
qed (use assms(2) in \<open>simp add: in_window_def\<close>)

lemma convene_inv_step:
  assumes inv: "convene_inv s" and step: "convene_step s t"
  shows "convene_inv t"
  using step
proof cases
  case (cv_call now io log res)
  have old: "\<forall>x \<in> set (cv_admitted s). x \<le> now" using inv cv_call(2) by (force simp: convene_inv_def)
  have later: "\<forall>c \<ge> now - WINDOW_SECS. after_count c (cv_admitted s) \<le> after_count c (log_times (cv_log s))"
    using inv cv_call(2) by (auto simp: convene_inv_def)
  have shape: "cv_log s = LogMissing \<or> (\<exists>tss. cv_log s = LogTimes tss)" using inv by (simp add: convene_inv_def)
  from cv_call(3) shape show ?thesis
  proof (cases rule: try_admit_cases)
    case same
    then show ?thesis using inv cv_call old later by (simp add: convene_inv_def)
  next
    case admit
    have "after_count c (filter (\<lambda>t. now - WINDOW_SECS < t) xs) = after_count c xs" if "now - WINDOW_SECS \<le> c" for c xs
      using that unfolding after_count_def by (induction xs) auto
    then have "after_count c (now # cv_admitted s) \<le> after_count c (log_times log)" if "now - WINDOW_SECS \<le> c" for c
      using that later admit(2) by (simp add: log_times_def after_count_def)
    moreover have "in_window t (now # cv_admitted s) \<le> MAX_CONVENES_PER_24H" for t
      using inv old later admit(3)
      by (intro window_after_admission) (auto simp: convene_inv_def intro: le_less_trans)
    ultimately show ?thesis using cv_call(1) admit(1,2) old by (auto simp: convene_inv_def)
  qed
qed

interpretation convenes: invariant_system convene_init convene_step convene_inv
proof
  show "convene_init s \<Longrightarrow> convene_inv s" for s
    by (simp add: convene_init_def convene_inv_def after_count_def in_window_def)
qed (rule convene_inv_step)

text \<open>
  C31: the cap of convenes holds in every rolling day. While the clock does not go back and the
  log is changed by these calls only, whatever locks, renames and writes fail, no window of
  24 hours holds more than 500 admitted convenes.
\<close>

theorem convenes_are_capped:
  assumes "reachable convene_init convene_step s"
  shows "in_window t (cv_admitted s) \<le> MAX_CONVENES_PER_24H"
  using convenes.reachable_inv [OF assms] by (simp add: convene_inv_def)

theorem convenes_are_capped_witness:
  "in_window 5 (cv_admitted \<lparr>cv_log = LogTimes [3], cv_admitted = [3], cv_now = 3\<rparr>) \<le> MAX_CONVENES_PER_24H"
proof (rule convenes_are_capped, rule reachable_step [OF reachable_init])
  let ?s = "\<lparr>cv_log = LogMissing, cv_admitted = [], cv_now = 0\<rparr>"
  show "convene_init ?s" by (simp add: convene_init_def)
  show "convene_step ?s \<lparr>cv_log = LogTimes [3], cv_admitted = [3], cv_now = 3\<rparr>"
    using cv_call [of ?s 3 "\<lparr>io_lock = True, io_rename = True, io_write = True\<rparr>" "LogTimes [3]" Admitted]
    by (simp add: try_admit_convene_def load_strict_def MAX_CONVENES_PER_24H_def)
qed

fun admissions :: "int list \<Rightarrow> convene_log \<Rightarrow> convene_log \<times> admit_result list" where
  "admissions [] log = (log, [])"
| "admissions (t # ts) log =
     (case try_admit_convene \<lparr>io_lock = True, io_rename = True, io_write = True\<rparr> t log of (log', res) \<Rightarrow>
      case admissions ts log' of (log'', rest) \<Rightarrow> (log'', res # rest))"

lemma admissions_fill:
  "n + length tss \<le> MAX_CONVENES_PER_24H \<Longrightarrow> \<forall>x \<in> set tss. t - WINDOW_SECS < x \<Longrightarrow>
   admissions (replicate n t) (LogTimes tss) = (LogTimes (tss @ replicate n t), replicate n Admitted)"
proof (induction n arbitrary: tss)
  case (Suc n)
  have "filter (\<lambda>x. t - WINDOW_SECS < x) tss = tss" using Suc.prems(2) by (simp add: filter_id_conv)
  moreover have "admissions (replicate n t) (LogTimes (tss @ [t])) = (LogTimes ((tss @ [t]) @ replicate n t), replicate n Admitted)"
    using Suc.prems by (intro Suc.IH) (auto simp: WINDOW_SECS_def)
  ultimately show ?case using Suc.prems(1) by (simp add: try_admit_convene_def load_strict_def Let_def)
qed simp

lemma admissions_fresh:
  assumes "n \<le> MAX_CONVENES_PER_24H"
  shows "snd (admissions (replicate n t) LogMissing) = replicate n Admitted"
proof (cases n)
  case (Suc k)
  have "try_admit_convene \<lparr>io_lock = True, io_rename = True, io_write = True\<rparr> t LogMissing = (LogTimes [t], Admitted)"
    by (simp add: try_admit_convene_def load_strict_def MAX_CONVENES_PER_24H_def)
  moreover have "admissions (replicate k t) (LogTimes [t]) = (LogTimes ([t] @ replicate k t), replicate k Admitted)"
    using assms Suc by (intro admissions_fill) (auto simp: WINDOW_SECS_def)
  ultimately show ?thesis using Suc by simp
qed simp

text \<open>
  C39: a corrupted log resets the cap. At a full log the next convene is refused; if the log is
  then corrupted, the next call sets it aside and is refused, and the calls after it admit the
  whole cap once more within the same second.
\<close>

theorem corruption_resets_the_cap:
  "admissions [t] (LogTimes (replicate MAX_CONVENES_PER_24H t)) = (LogTimes (replicate MAX_CONVENES_PER_24H t), [Capped])
   \<and> snd (admissions (t # replicate MAX_CONVENES_PER_24H t) (LogGarbage raw))
       = StateInvalid # replicate MAX_CONVENES_PER_24H Admitted"
proof -
  have "filter (\<lambda>x. t - WINDOW_SECS < x) (replicate MAX_CONVENES_PER_24H t) = replicate MAX_CONVENES_PER_24H t"
    by (simp add: WINDOW_SECS_def)
  moreover have "try_admit_convene \<lparr>io_lock = True, io_rename = True, io_write = True\<rparr> t (LogGarbage raw) = (LogMissing, StateInvalid)"
    by (simp add: try_admit_convene_def load_strict_def quarantine_corrupt_def)
  ultimately show ?thesis
    using admissions_fresh [of MAX_CONVENES_PER_24H t]
    by (auto simp: try_admit_convene_def load_strict_def Let_def split: prod.splits)
qed

end
