(* ===== verification/Council_Daily.thy ===== *)
theory Council_Daily
  imports Neoth_Prelude "HOL-Library.Multiset"
begin

text \<open>
  The daily spending ledger of the council, \<open>src/SRC/neothd/src/council/daily_budget.rs\<close>.
  Every operation holds the process mutex and the file lock from its load to its atomic write,
  so that one operation is one step on the ledger file; whether the lock is obtained and the
  write succeeds are arguments. Amounts given as doubles are values of a datatype of doubles,
  with the product by a thousand million rounded as the hardware does. Paths and messages with
  formatted amounts are left out.
\<close>

section \<open>Amounts\<close>

text \<open>
  \<open>F64 neg m e\<close> is the finite double \<open>m * 2 powr e\<close> with its sign, where \<open>m\<close> has at
  most 53 bits.
\<close>

datatype f64 = F64 bool nat int | F64Inf bool | F64NaN

datatype daily_error =
    UsdInvalid string | UsdTooLarge string
  | LockFailed | ReadMissing | ReadFailed | ParseFailed | UnsupportedSchema u8 | TotalOverflow string
  | FutureDay int int | DuplicateReservation string | CapExceeded u64 u64 u64
  | DayPrecedes int int | Disappeared string | Changed string | WriteFailed

definition validate_usd :: "f64 \<Rightarrow> string \<Rightarrow> daily_error + nat \<times> int" where
  "validate_usd usd what =
     (case usd of
        F64 neg m e \<Rightarrow> if neg \<and> 0 < m then Err (UsdInvalid what) else Ok (m, e)
      | _ \<Rightarrow> Err (UsdInvalid what))"

text \<open>The significand of the product of a double with \<open>USD_NANOS_PER_USD\<close>; the exponent is kept.\<close>

definition scale_nanos :: "nat \<Rightarrow> nat" where
  "scale_nanos m = (let n = m * 10 ^ 9; k = bit_length n - 53 in round_half_even n k * 2 ^ k)"

definition exceeds_u64_max :: "nat \<Rightarrow> int \<Rightarrow> bool" where
  "exceeds_u64_max s e = (if 0 \<le> e then s * 2 ^ nat e > 2 ^ 64 else s > 2 ^ 64 * 2 ^ nat (- e))"

definition as_u64 :: "nat \<Rightarrow> u64" where
  "as_u64 n = word_of_nat (min n (2 ^ 64 - 1))"

definition usd_to_nanos_floor :: "f64 \<Rightarrow> string \<Rightarrow> daily_error + u64" where
  "usd_to_nanos_floor usd what =
     (case validate_usd usd what of
        Err e \<Rightarrow> Err e
      | Ok (m, e) \<Rightarrow>
          (let s = scale_nanos m
           in if exceeds_u64_max s e then Err (UsdTooLarge what)
              else Ok (as_u64 (if 0 \<le> e then s * 2 ^ nat e else s div 2 ^ nat (- e)))))"

definition usd_to_nanos_ceil :: "f64 \<Rightarrow> string \<Rightarrow> daily_error + u64" where
  "usd_to_nanos_ceil usd what =
     (case validate_usd usd what of
        Err e \<Rightarrow> Err e
      | Ok (m, e) \<Rightarrow>
          (let s = scale_nanos m
           in if exceeds_u64_max s e then Err (UsdTooLarge what)
              else Ok (as_u64 (if 0 \<le> e then s * 2 ^ nat e else (s + 2 ^ nat (- e) - 1) div 2 ^ nat (- e)))))"

section \<open>The ledger\<close>

definition LEDGER_SCHEMA_VERSION :: u8 where "LEDGER_SCHEMA_VERSION = 1"
definition SECONDS_PER_UTC_DAY :: int where "SECONDS_PER_UTC_DAY = 86400"

record pending_reservation =
  pd_provider :: string
  pd_model :: string
  pd_reserved_usd_nanos :: u64
  pd_created_at_unix :: int

record daily_ledger =
  dl_schema_version :: u8
  dl_utc_day :: int
  dl_settled_usd_nanos :: u64
  dl_pending :: "(string, pending_reservation) btree"

definition daily_ledger_empty :: "int \<Rightarrow> daily_ledger" where
  "daily_ledger_empty day = \<lparr>dl_schema_version = LEDGER_SCHEMA_VERSION, dl_utc_day = day,
     dl_settled_usd_nanos = 0, dl_pending = []\<rparr>"

fun try_total :: "u64 \<Rightarrow> (string, pending_reservation) btree \<Rightarrow> daily_error + u64" where
  "try_total acc [] = Ok acc"
| "try_total acc ((_, r) # rs) =
     (case checked_add acc (pd_reserved_usd_nanos r) of
        None \<Rightarrow> Err (TotalOverflow ''council daily-budget ledger total overflow'')
      | Some t \<Rightarrow> try_total t rs)"

definition committed_usd_nanos :: "daily_ledger \<Rightarrow> daily_error + u64" where
  "committed_usd_nanos l = try_total (dl_settled_usd_nanos l) (dl_pending l)"

definition daily_ledger_validate :: "daily_ledger \<Rightarrow> daily_error + unit" where
  "daily_ledger_validate l =
     (if dl_schema_version l \<noteq> LEDGER_SCHEMA_VERSION then Err (UnsupportedSchema (dl_schema_version l))
      else case committed_usd_nanos l of Err e \<Rightarrow> Err e | Ok _ \<Rightarrow> Ok ())"

definition utc_day :: "int \<Rightarrow> int" where
  "utc_day now_unix = now_unix div SECONDS_PER_UTC_DAY"

datatype ledger_file = FileMissing | FileUnreadable | FileMalformed | FileLedger daily_ledger

definition load_existing :: "ledger_file \<Rightarrow> daily_error + daily_ledger" where
  "load_existing f =
     (case f of
        FileMissing \<Rightarrow> Err ReadMissing
      | FileUnreadable \<Rightarrow> Err ReadFailed
      | FileMalformed \<Rightarrow> Err ParseFailed
      | FileLedger l \<Rightarrow> (case daily_ledger_validate l of Err e \<Rightarrow> Err e | Ok _ \<Rightarrow> Ok l))"

record daily_io =
  di_lock :: bool
  di_write :: bool

definition load_or_start :: "bool \<Rightarrow> ledger_file \<Rightarrow> daily_error + daily_ledger" where
  "load_or_start allow_missing f =
     (let loaded = load_existing f
      in if loaded = Err ReadMissing \<and> allow_missing then Ok (daily_ledger_empty i64_min) else loaded)"

definition update_ledger_inner ::
    "daily_io \<Rightarrow> bool \<Rightarrow> (daily_ledger \<Rightarrow> daily_error + daily_ledger) \<Rightarrow> ledger_file \<Rightarrow> ledger_file \<times> (daily_error + unit)" where
  "update_ledger_inner io allow_missing mutation f =
     (if \<not> di_lock io then (f, Err LockFailed)
      else case load_or_start allow_missing f of
             Err e \<Rightarrow> (f, Err e)
           | Ok l \<Rightarrow>
               (case mutation l of
                  Err e \<Rightarrow> (f, Err e)
                | Ok l' \<Rightarrow>
                    (case daily_ledger_validate l' of
                       Err e \<Rightarrow> (f, Err e)
                     | Ok _ \<Rightarrow> if di_write io then (FileLedger l', Ok ()) else (f, Err WriteFailed))))"

section \<open>Operations\<close>

record daily_reservation =
  rs_reservation_id :: string
  rs_utc_day :: int
  rs_reserved_usd_nanos :: u64

record reservation_plan =
  pn_cap_usd_nanos :: u64
  pn_reservation_id :: string
  pn_provider :: string
  pn_model :: string
  pn_reserved_usd_nanos :: u64

definition policy_new :: "f64 \<Rightarrow> daily_error + u64" where
  "policy_new cap_usd = usd_to_nanos_floor cap_usd ''daily USD cap''"

definition policy_plan :: "u64 \<Rightarrow> string \<Rightarrow> string \<Rightarrow> string \<Rightarrow> f64 \<Rightarrow> daily_error + reservation_plan" where
  "policy_plan cap rid provider model reserved_usd =
     (case usd_to_nanos_ceil reserved_usd ''provider cost bound'' of
        Err e \<Rightarrow> Err e
      | Ok n \<Rightarrow> Ok \<lparr>pn_cap_usd_nanos = cap, pn_reservation_id = rid, pn_provider = provider, pn_model = model,
                   pn_reserved_usd_nanos = n\<rparr>)"

text \<open>The headroom in nanos; the caller gets it divided to dollars.\<close>

definition remaining_usd :: "bool \<Rightarrow> u64 \<Rightarrow> int \<Rightarrow> ledger_file \<Rightarrow> daily_error + u64" where
  "remaining_usd lock_ok cap now_unix f =
     (if \<not> lock_ok then Err LockFailed
      else case load_existing f of
             Err ReadMissing \<Rightarrow> Ok cap
           | Err e \<Rightarrow> Err e
           | Ok l \<Rightarrow>
               if dl_utc_day l > utc_day now_unix then Err (FutureDay (dl_utc_day l) (utc_day now_unix))
               else if dl_utc_day l < utc_day now_unix then Ok cap
               else case committed_usd_nanos l of
                      Err e \<Rightarrow> Err e
                    | Ok c \<Rightarrow> Ok (if c \<le> cap then cap - c else 0))"

definition reserve_mutation :: "reservation_plan \<Rightarrow> int \<Rightarrow> daily_ledger \<Rightarrow> daily_error + daily_ledger" where
  "reserve_mutation p now_unix l =
     (let day = utc_day now_unix
      in if dl_utc_day l > day then Err (FutureDay (dl_utc_day l) day)
         else
           let l = (if dl_utc_day l < day then daily_ledger_empty day else l)
           in if btree_get (dl_pending l) (pn_reservation_id p) \<noteq> None then Err (DuplicateReservation (pn_reservation_id p))
              else case committed_usd_nanos l of
                     Err e \<Rightarrow> Err e
                   | Ok committed \<Rightarrow>
                       (case checked_add committed (pn_reserved_usd_nanos p) of
                          None \<Rightarrow> Err (TotalOverflow ''council daily-budget reservation overflow'')
                        | Some projected \<Rightarrow>
                            if projected > pn_cap_usd_nanos p
                            then Err (CapExceeded committed (pn_reserved_usd_nanos p) (pn_cap_usd_nanos p))
                            else Ok (l\<lparr>dl_pending := btree_insert (pn_reservation_id p)
                                   \<lparr>pd_provider = pn_provider p, pd_model = pn_model p,
                                    pd_reserved_usd_nanos = pn_reserved_usd_nanos p, pd_created_at_unix = now_unix\<rparr>
                                   (dl_pending l)\<rparr>)))"

definition plan_reserve :: "daily_io \<Rightarrow> reservation_plan \<Rightarrow> int \<Rightarrow> ledger_file \<Rightarrow> ledger_file \<times> (daily_error + daily_reservation)" where
  "plan_reserve io p now_unix f =
     (case update_ledger_inner io True (reserve_mutation p now_unix) f of
        (f', Err e) \<Rightarrow> (f', Err e)
      | (f', Ok _) \<Rightarrow> (f', Ok \<lparr>rs_reservation_id = pn_reservation_id p, rs_utc_day = utc_day now_unix,
                             rs_reserved_usd_nanos = pn_reserved_usd_nanos p\<rparr>))"

definition actual_usd_nanos :: "daily_reservation \<Rightarrow> f64 option \<Rightarrow> daily_error + u64" where
  "actual_usd_nanos r actual_cost_usd =
     (case actual_cost_usd of
        Some actual \<Rightarrow> usd_to_nanos_ceil actual ''actual provider cost''
      | None \<Rightarrow> Ok (rs_reserved_usd_nanos r))"

definition take_pending :: "daily_reservation \<Rightarrow> daily_ledger \<Rightarrow> daily_error + daily_ledger" where
  "take_pending r l =
     (case btree_get (dl_pending l) (rs_reservation_id r) of
        None \<Rightarrow> Err (Disappeared (rs_reservation_id r))
      | Some p \<Rightarrow>
          if pd_reserved_usd_nanos p \<noteq> rs_reserved_usd_nanos r then Err (Changed (rs_reservation_id r))
          else Ok (l\<lparr>dl_pending := btree_remove (rs_reservation_id r) (dl_pending l)\<rparr>))"

definition settle_mutation :: "daily_reservation \<Rightarrow> u64 \<Rightarrow> daily_ledger \<Rightarrow> daily_error + daily_ledger" where
  "settle_mutation r a l =
     (if dl_utc_day l > rs_utc_day r then Ok l
      else if dl_utc_day l < rs_utc_day r then Err (DayPrecedes (dl_utc_day l) (rs_utc_day r))
      else case take_pending r l of
             Err e \<Rightarrow> Err e
           | Ok l \<Rightarrow>
               (case checked_add (dl_settled_usd_nanos l) a of
                  None \<Rightarrow> Err (TotalOverflow ''council daily-budget settled total overflow'')
                | Some s \<Rightarrow> Ok (l\<lparr>dl_settled_usd_nanos := s\<rparr>)))"

definition reservation_settle ::
    "daily_io \<Rightarrow> f64 option \<Rightarrow> daily_reservation \<Rightarrow> ledger_file \<Rightarrow> ledger_file \<times> (daily_error + unit)" where
  "reservation_settle io actual_cost_usd r f =
     (case actual_usd_nanos r actual_cost_usd of
        Err e \<Rightarrow> (f, Err e)
      | Ok a \<Rightarrow> update_ledger_inner io False (settle_mutation r a) f)"

definition release_mutation :: "daily_reservation \<Rightarrow> daily_ledger \<Rightarrow> daily_error + daily_ledger" where
  "release_mutation r l =
     (if dl_utc_day l > rs_utc_day r then Ok l
      else if dl_utc_day l \<noteq> rs_utc_day r then Err (DayPrecedes (dl_utc_day l) (rs_utc_day r))
      else take_pending r l)"

definition release_before_dispatch ::
    "daily_io \<Rightarrow> daily_reservation \<Rightarrow> ledger_file \<Rightarrow> ledger_file \<times> (daily_error + unit)" where
  "release_before_dispatch io r f = update_ledger_inner io False (release_mutation r) f"

section \<open>Totals\<close>

definition pending_sum :: "(string, pending_reservation) btree \<Rightarrow> nat" where
  "pending_sum m = (\<Sum>e \<leftarrow> m. unat (pd_reserved_usd_nanos (snd e)))"

lemma pending_sum_simps [simp]:
  "pending_sum [] = 0" "pending_sum (e # m) = unat (pd_reserved_usd_nanos (snd e)) + pending_sum m"
  by (simp_all add: pending_sum_def)

lemma pending_sum_insert:
  "btree_get m k = None \<Longrightarrow> pending_sum (btree_insert k v m) = unat (pd_reserved_usd_nanos v) + pending_sum m"
  by (induction k v m rule: btree_insert.induct) (auto split: if_splits)

lemma btree_remove_absent: "\<forall>q \<in> set m. fst q \<noteq> k \<Longrightarrow> btree_remove k m = m"
  by (auto simp: btree_remove_def filter_id_conv)

lemma pending_sum_remove:
  "btree_ok m \<Longrightarrow> btree_get m k = Some v \<Longrightarrow>
   unat (pd_reserved_usd_nanos v) + pending_sum (btree_remove k m) = pending_sum m"
proof (induction m k rule: btree_get.induct)
  case (2 a b ps k)
  show ?case
  proof (cases "k = a")
    case True
    then have "btree_remove k ps = ps" using "2.prems"(1) by (intro btree_remove_absent) auto
    with True "2.prems" show ?thesis by (simp add: btree_remove_def)
  next
    case False
    with "2.IH" "2.prems" show ?thesis by (simp add: btree_remove_def)
  qed
qed simp

definition ledger_sum :: "daily_ledger \<Rightarrow> nat" where
  "ledger_sum l = unat (dl_settled_usd_nanos l) + pending_sum (dl_pending l)"

lemma try_total_eq:
  "try_total acc m = (if unat acc + pending_sum m < 2 ^ 64 then Ok (acc + word_of_nat (pending_sum m))
     else Err (TotalOverflow ''council daily-budget ledger total overflow''))"
proof (induction acc m rule: try_total.induct)
  case (2 acc k r rs)
  show ?case
  proof (cases "unat acc + unat (pd_reserved_usd_nanos r) < 2 ^ 64")
    case True
    then have "unat (acc + pd_reserved_usd_nanos r) = unat acc + unat (pd_reserved_usd_nanos r)"
      by (simp add: unat_word_ariths)
    with True "2.IH" [of "acc + pd_reserved_usd_nanos r"] show ?thesis
      by (simp add: checked_add_def add.assoc)
  qed (simp add: checked_add_def)
next
  case (1 acc)
  then show ?case using unsigned_less [of acc, where ?'a = nat] by simp
qed

lemma committed_eq:
  "committed_usd_nanos l = (if ledger_sum l < 2 ^ 64 then Ok (word_of_nat (ledger_sum l))
     else Err (TotalOverflow ''council daily-budget ledger total overflow''))"
  by (simp add: committed_usd_nanos_def try_total_eq ledger_sum_def)

lemma validate_eq:
  "daily_ledger_validate l = Ok () \<longleftrightarrow> dl_schema_version l = LEDGER_SCHEMA_VERSION \<and> ledger_sum l < 2 ^ 64"
  by (simp add: daily_ledger_validate_def committed_eq)

lemma update_ledger_cases:
  assumes "update_ledger_inner io am mut f = (f', res)"
  obtains (failed) e where "f' = f" "res = Err e"
  | (written) l l' where "f = FileLedger l \<and> daily_ledger_validate l = Ok () \<or> f = FileMissing \<and> am \<and> l = daily_ledger_empty i64_min"
      "mut l = Ok l'" "daily_ledger_validate l' = Ok ()" "f' = FileLedger l'" "res = Ok ()"
proof -
  have load: "f = FileLedger l \<and> daily_ledger_validate l = Ok () \<or> f = FileMissing \<and> am \<and> l = daily_ledger_empty i64_min"
    if "load_or_start am f = Ok l" for l
    using that by (cases f) (auto simp: load_or_start_def Let_def load_existing_def daily_ledger_validate_def
        committed_eq split: if_splits)
  show thesis
  proof (cases "\<exists>e. f' = f \<and> res = Err e")
    case False
    then have lock: "di_lock io" using assms by (auto simp: update_ledger_inner_def split: if_splits)
    obtain l where l: "load_or_start am f = Ok l"
      using assms False lock by (cases "load_or_start am f") (auto simp: update_ledger_inner_def)
    obtain l' where l': "mut l = Ok l'"
      using assms False lock l by (cases "mut l") (auto simp: update_ledger_inner_def)
    have ok: "daily_ledger_validate l' = Ok ()"
    proof (cases "daily_ledger_validate l'")
      case (Inl e)
      then have "update_ledger_inner io am mut f = (f, Err e)" using lock l l' by (simp add: update_ledger_inner_def)
      with assms have "f' = f \<and> res = Err e" by simp
      with False show ?thesis by blast
    qed simp
    have "di_write io" using assms False lock l l' ok by (auto simp: update_ledger_inner_def split: if_splits)
    with assms lock l l' ok show thesis by (intro written [OF load [OF l] l' ok]) (simp_all add: update_ledger_inner_def)
  qed (use failed in blast)
qed

section \<open>Executions\<close>

text \<open>
  The ledger file, the reservations that callers hold, those whose cost never reached the ledger
  (the holder died, or its settlement failed), and the settled ones with the costs their providers reported, which may
  be more than the bound reserved. Every plan has a cap of its own, at most \<open>cap\<close>. The file may become unreadable at any time; it is
  not replaced by others.
\<close>

record daily_run =
  dr_file :: ledger_file
  dr_open :: "daily_reservation list"
  dr_lost :: "daily_reservation list"
  dr_paid :: "(daily_reservation \<times> u64) list"

inductive daily_step :: "u64 \<Rightarrow> daily_run \<Rightarrow> daily_run \<Rightarrow> bool" for cap where
  dd_reserved: "is_i64 now \<Longrightarrow> pn_cap_usd_nanos p \<le> cap \<Longrightarrow> plan_reserve io p now (dr_file s) = (f, Ok r) \<Longrightarrow>
    daily_step cap s (s\<lparr>dr_file := f, dr_open := r # dr_open s\<rparr>)"
| dd_refused: "plan_reserve io p now (dr_file s) = (f, Err e) \<Longrightarrow>
    daily_step cap s (s\<lparr>dr_file := f\<rparr>)"
| dd_settled: "dr_open s = xs @ r # ys \<Longrightarrow> actual_usd_nanos r actual = Ok a \<Longrightarrow>
    reservation_settle io actual r (dr_file s) = (f, Ok ()) \<Longrightarrow>
    daily_step cap s (s\<lparr>dr_file := f, dr_open := xs @ ys, dr_paid := (r, a) # dr_paid s\<rparr>)"
| dd_unsettled: "dr_open s = xs @ r # ys \<Longrightarrow> reservation_settle io actual r (dr_file s) = (f, Err e) \<Longrightarrow>
    daily_step cap s (s\<lparr>dr_file := f, dr_open := xs @ ys, dr_lost := r # dr_lost s\<rparr>)"
| dd_released: "dr_open s = xs @ r # ys \<Longrightarrow> release_before_dispatch io r (dr_file s) = (f, res) \<Longrightarrow>
    daily_step cap s (s\<lparr>dr_file := f, dr_open := xs @ ys\<rparr>)"
| dd_dropped: "dr_open s = xs @ r # ys \<Longrightarrow>
    daily_step cap s (s\<lparr>dr_open := xs @ ys, dr_lost := r # dr_lost s\<rparr>)"
| dd_damaged: "f = FileUnreadable \<or> f = FileMalformed \<Longrightarrow> daily_step cap s (s\<lparr>dr_file := f\<rparr>)"

definition daily_init :: "daily_run \<Rightarrow> bool" where
  "daily_init s \<longleftrightarrow> s = \<lparr>dr_file = FileMissing, dr_open = [], dr_lost = [], dr_paid = []\<rparr>"

definition reserved_on :: "int \<Rightarrow> daily_reservation list \<Rightarrow> nat" where
  "reserved_on d rs = (\<Sum>r \<leftarrow> filter (\<lambda>r. rs_utc_day r = d) rs. unat (rs_reserved_usd_nanos r))"

definition paid_on :: "int \<Rightarrow> (daily_reservation \<times> u64) list \<Rightarrow> nat" where
  "paid_on d ps = (\<Sum>p \<leftarrow> filter (\<lambda>p. rs_utc_day (fst p) = d) ps. unat (snd p))"

text \<open>What the providers of the calls of a day reported above the bounds reserved for them.\<close>

definition overshoot_on :: "int \<Rightarrow> (daily_reservation \<times> u64) list \<Rightarrow> nat" where
  "overshoot_on d ps = (\<Sum>p \<leftarrow> filter (\<lambda>p. rs_utc_day (fst p) = d) ps. unat (snd p) - unat (rs_reserved_usd_nanos (fst p)))"

lemma day_sums [simp]:
  "reserved_on d [] = 0" "reserved_on d (xs @ ys) = reserved_on d xs + reserved_on d ys"
  "reserved_on d (r # xs) = (if rs_utc_day r = d then unat (rs_reserved_usd_nanos r) else 0) + reserved_on d xs"
  "paid_on d [] = 0" "paid_on d (q # ps) = (if rs_utc_day (fst q) = d then unat (snd q) else 0) + paid_on d ps"
  "overshoot_on d [] = 0" "overshoot_on d (q # ps) =
    (if rs_utc_day (fst q) = d then unat (snd q) - unat (rs_reserved_usd_nanos (fst q)) else 0) + overshoot_on d ps"
  by (simp_all add: reserved_on_def paid_on_def overshoot_on_def)

definition daily_exposure :: "int \<Rightarrow> daily_run \<Rightarrow> nat" where
  "daily_exposure d s = paid_on d (dr_paid s) + reserved_on d (dr_open s) + reserved_on d (dr_lost s)"

definition backed :: "daily_ledger \<Rightarrow> daily_reservation list \<Rightarrow> bool" where
  "backed l rs \<longleftrightarrow> distinct (map rs_reservation_id (filter (\<lambda>r. rs_utc_day r = dl_utc_day l) rs))
     \<and> (\<forall>r \<in> set rs. rs_utc_day r = dl_utc_day l \<longrightarrow>
          (\<exists>p. btree_get (dl_pending l) (rs_reservation_id r) = Some p \<and> pd_reserved_usd_nanos p = rs_reserved_usd_nanos r))"

definition daily_ledger_inv :: "u64 \<Rightarrow> daily_run \<Rightarrow> daily_ledger \<Rightarrow> bool" where
  "daily_ledger_inv cap s l \<longleftrightarrow>
     dl_schema_version l = LEDGER_SCHEMA_VERSION \<and> btree_ok (dl_pending l) \<and> ledger_sum l < 2 ^ 64
     \<and> ledger_sum l \<le> unat cap + overshoot_on (dl_utc_day l) (dr_paid s)
     \<and> (\<forall>r \<in> set (dr_open s @ dr_lost s). rs_utc_day r \<le> dl_utc_day l) \<and> (\<forall>p \<in> set (dr_paid s). rs_utc_day (fst p) \<le> dl_utc_day l)
     \<and> backed l (dr_open s @ dr_lost s) \<and> paid_on (dl_utc_day l) (dr_paid s) \<le> unat (dl_settled_usd_nanos l)"

definition daily_inv :: "u64 \<Rightarrow> daily_run \<Rightarrow> bool" where
  "daily_inv cap s \<longleftrightarrow> (\<forall>d. daily_exposure d s \<le> unat cap + overshoot_on d (dr_paid s))
     \<and> (case dr_file s of FileMissing \<Rightarrow> dr_open s = [] \<and> dr_lost s = [] \<and> dr_paid s = []
        | FileLedger l \<Rightarrow> daily_ledger_inv cap s l | _ \<Rightarrow> True)"

lemma backed_sum:
  "btree_ok (dl_pending l) \<Longrightarrow> backed l rs \<Longrightarrow> reserved_on (dl_utc_day l) rs \<le> pending_sum (dl_pending l)"
proof (induction rs arbitrary: l)
  case (Cons r rs)
  show ?case
  proof (cases "rs_utc_day r = dl_utc_day l")
    case True
    let ?l = "l\<lparr>dl_pending := btree_remove (rs_reservation_id r) (dl_pending l)\<rparr>"
    obtain p where p: "btree_get (dl_pending l) (rs_reservation_id r) = Some p" "pd_reserved_usd_nanos p = rs_reserved_usd_nanos r"
      using Cons.prems(2) True by (auto simp: backed_def)
    have "backed ?l rs" using Cons.prems(2) True by (auto simp: backed_def image_iff)
    with Cons.IH [of ?l] Cons.prems(1) pending_sum_remove [OF Cons.prems(1) p(1)] p(2) True show ?thesis by simp
  next
    case False
    then have "backed l rs" using Cons.prems(2) by (auto simp: backed_def)
    with Cons.IH [of l] Cons.prems(1) False show ?thesis by simp
  qed
qed simp

lemma exposure_within_ledger:
  assumes "daily_ledger_inv cap s l"
  shows "daily_exposure (dl_utc_day l) s \<le> ledger_sum l"
  using assms backed_sum [of l "dr_open s @ dr_lost s"]
  by (simp add: daily_ledger_inv_def daily_exposure_def ledger_sum_def)

lemma backed_Cons:
  "backed l (r # rs) \<longleftrightarrow> backed l rs
     \<and> (rs_utc_day r = dl_utc_day l \<longrightarrow>
          rs_reservation_id r \<notin> rs_reservation_id ` {q \<in> set rs. rs_utc_day q = dl_utc_day l}
          \<and> (\<exists>p. btree_get (dl_pending l) (rs_reservation_id r) = Some p \<and> pd_reserved_usd_nanos p = rs_reserved_usd_nanos r))"
  by (cases "rs_utc_day r = dl_utc_day l") (simp_all add: backed_def conj_ac)

lemma backed_perm: "mset xs = mset ys \<Longrightarrow> backed l xs \<longleftrightarrow> backed l ys"
proof -
  assume eq: "mset xs = mset ys"
  have "mset (map rs_reservation_id (filter (\<lambda>r. rs_utc_day r = dl_utc_day l) xs))
      = mset (map rs_reservation_id (filter (\<lambda>r. rs_utc_day r = dl_utc_day l) ys))"
    using eq by simp
  from mset_eq_imp_distinct_iff [OF this] show ?thesis
    using mset_eq_setD [OF eq] by (simp add: backed_def)
qed

lemma backed_open: "backed l ((xs @ r # ys) @ zs) \<longleftrightarrow> backed l (r # (xs @ ys) @ zs)"
  by (rule backed_perm) simp

lemma backed_lost: "backed l ((xs @ ys) @ r # zs) \<longleftrightarrow> backed l (r # (xs @ ys) @ zs)"
  by (rule backed_perm) simp

text \<open>A ledger that keeps its day and the entries of the given reservations keeps backing them.\<close>

lemma backed_mono:
  assumes "backed l rs" "dl_utc_day l' = dl_utc_day l"
    "\<And>r. r \<in> set rs \<Longrightarrow> rs_utc_day r = dl_utc_day l \<Longrightarrow>
       btree_get (dl_pending l') (rs_reservation_id r) = btree_get (dl_pending l) (rs_reservation_id r)"
  shows "backed l' rs"
  using assms by (auto simp: backed_def)

lemma backed_other_day: "(\<And>r. r \<in> set rs \<Longrightarrow> rs_utc_day r \<noteq> dl_utc_day l) \<Longrightarrow> backed l rs"
  by (auto simp: backed_def filter_False)

lemma daily_inv_ledger:
  assumes "daily_ledger_inv cap s l" "dr_file s = FileLedger l" "\<And>d. d \<noteq> dl_utc_day l \<Longrightarrow> daily_exposure d s \<le> unat cap + overshoot_on d (dr_paid s)"
  shows "daily_inv cap s"
proof -
  have "daily_exposure d s \<le> unat cap + overshoot_on d (dr_paid s)" for d
    using assms(3) [of d] exposure_within_ledger [OF assms(1)] assms(1)
    by (cases "d = dl_utc_day l") (auto simp: daily_ledger_inv_def)
  with assms show ?thesis by (simp add: daily_inv_def)
qed

lemma utc_day_after_sentinel: "is_i64 now \<Longrightarrow> i64_min < utc_day now"
  using zdiv_mono1 [of i64_min now 86400] by (simp add: is_i64_def i64_min_def utc_day_def SECONDS_PER_UTC_DAY_def)

lemma reserve_mutation_Ok:
  assumes "reserve_mutation p now l = Ok l'"
  obtains l0 where "dl_utc_day l \<le> utc_day now"
    "l0 = (if dl_utc_day l < utc_day now then daily_ledger_empty (utc_day now) else l)"
    "btree_get (dl_pending l0) (pn_reservation_id p) = None"
    "ledger_sum l0 + unat (pn_reserved_usd_nanos p) \<le> unat (pn_cap_usd_nanos p)"
    "l' = l0\<lparr>dl_pending := btree_insert (pn_reservation_id p)
       \<lparr>pd_provider = pn_provider p, pd_model = pn_model p,
        pd_reserved_usd_nanos = pn_reserved_usd_nanos p, pd_created_at_unix = now\<rparr> (dl_pending l0)\<rparr>"
proof -
  let ?l0 = "if dl_utc_day l < utc_day now then daily_ledger_empty (utc_day now) else l"
  have day: "dl_utc_day l \<le> utc_day now" and new: "btree_get (dl_pending ?l0) (pn_reservation_id p) = None"
    using assms by (auto simp: reserve_mutation_def Let_def split: if_splits)
  with assms have small: "ledger_sum ?l0 < 2 ^ 64"
    by (auto simp: reserve_mutation_def Let_def committed_eq split: if_splits)
  then have c: "committed_usd_nanos ?l0 = Ok (word_of_nat (ledger_sum ?l0))" by (simp add: committed_eq)
  have u: "unat (word_of_nat (ledger_sum ?l0) :: u64) = ledger_sum ?l0" using small by (simp add: unat_of_nat)
  from assms day new c obtain t where t: "checked_add (word_of_nat (ledger_sum ?l0)) (pn_reserved_usd_nanos p) = Some t"
    "t \<le> pn_cap_usd_nanos p"
    by (auto simp: reserve_mutation_def Let_def not_less split: if_splits option.splits)
  then have "ledger_sum ?l0 + unat (pn_reserved_usd_nanos p) \<le> unat (pn_cap_usd_nanos p)"
    using u by (simp add: checked_add_Some word_le_nat_alt)
  moreover have "l' = ?l0\<lparr>dl_pending := btree_insert (pn_reservation_id p)
       \<lparr>pd_provider = pn_provider p, pd_model = pn_model p,
        pd_reserved_usd_nanos = pn_reserved_usd_nanos p, pd_created_at_unix = now\<rparr> (dl_pending ?l0)\<rparr>"
    using assms day new c t leD [OF t(2)] by (simp only: reserve_mutation_def Let_def) simp
  ultimately show thesis using that [OF day refl new] by blast
qed

lemma take_pending_Ok:
  assumes "take_pending r l = Ok l'"
  obtains p where "btree_get (dl_pending l) (rs_reservation_id r) = Some p" "pd_reserved_usd_nanos p = rs_reserved_usd_nanos r"
    "l' = l\<lparr>dl_pending := btree_remove (rs_reservation_id r) (dl_pending l)\<rparr>"
  using assms by (auto simp: take_pending_def split: option.splits if_splits)

lemma settle_mutation_Ok:
  assumes "settle_mutation r a l = Ok l'"
  obtains (later) "rs_utc_day r < dl_utc_day l" "l' = l"
  | (recorded) l1 s where "dl_utc_day l = rs_utc_day r" "take_pending r l = Ok l1" "l' = l1\<lparr>dl_settled_usd_nanos := s\<rparr>"
      "unat s = unat (dl_settled_usd_nanos l) + unat a"
  using assms
  by (auto simp: settle_mutation_def take_pending_def checked_add_Some split: if_splits sum.splits option.splits)

lemma release_mutation_Ok:
  assumes "release_mutation r l = Ok l'"
  obtains (later) "rs_utc_day r < dl_utc_day l" "l' = l"
  | (recorded) "dl_utc_day l = rs_utc_day r" "take_pending r l = Ok l'"
  using assms by (auto simp: release_mutation_def split: if_splits)

text \<open>Taking a backed reservation out of the ledger frees its amount and keeps the others.\<close>

lemma take_pending_inv:
  assumes inv: "daily_ledger_inv cap s l" and opn: "dr_open s = xs @ r # ys"
    and take: "take_pending r l = Ok l'" and day: "dl_utc_day l = rs_utc_day r"
  shows "daily_ledger_inv cap (s\<lparr>dr_open := xs @ ys\<rparr>) l'" "ledger_sum l = ledger_sum l' + unat (rs_reserved_usd_nanos r)"
    "dl_settled_usd_nanos l' = dl_settled_usd_nanos l" "dl_utc_day l' = dl_utc_day l"
proof -
  obtain p where p: "btree_get (dl_pending l) (rs_reservation_id r) = Some p" "pd_reserved_usd_nanos p = rs_reserved_usd_nanos r"
    and l': "l' = l\<lparr>dl_pending := btree_remove (rs_reservation_id r) (dl_pending l)\<rparr>"
    using take by (rule take_pending_Ok)
  have ok: "btree_ok (dl_pending l)" using inv by (simp add: daily_ledger_inv_def)
  show total: "ledger_sum l = ledger_sum l' + unat (rs_reserved_usd_nanos r)"
    using pending_sum_remove [OF ok p(1)] p(2) by (simp add: ledger_sum_def l')
  have bk: "backed l (r # (xs @ ys) @ dr_lost s)" using inv opn by (simp only: daily_ledger_inv_def backed_open)
  have "backed l' ((xs @ ys) @ dr_lost s)"
  proof (rule backed_mono [of l])
    fix q assume "q \<in> set ((xs @ ys) @ dr_lost s)" "rs_utc_day q = dl_utc_day l"
    then have "rs_reservation_id q \<noteq> rs_reservation_id r" using bk day unfolding backed_Cons
      by (metis (mono_tags, lifting) image_eqI mem_Collect_eq)
    then show "btree_get (dl_pending l') (rs_reservation_id q) = btree_get (dl_pending l) (rs_reservation_id q)"
      by (simp add: l')
  qed (use bk in \<open>simp_all add: backed_Cons l'\<close>)
  then show "daily_ledger_inv cap (s\<lparr>dr_open := xs @ ys\<rparr>) l'"
    using inv total opn ok by (auto simp: daily_ledger_inv_def l')
  show "dl_settled_usd_nanos l' = dl_settled_usd_nanos l" "dl_utc_day l' = dl_utc_day l" by (simp_all add: l')
qed

text \<open>An admission found everything known of its day in the ledger it wrote to.\<close>

lemma admission_ledger:
  assumes inv: "daily_inv cap s" and now: "is_i64 now" and res: "plan_reserve io p now (dr_file s) = (f, Ok r)"
  obtains l0 where "daily_ledger_inv cap s l0" "dl_utc_day l0 = utc_day now"
    "btree_get (dl_pending l0) (pn_reservation_id p) = None"
    "ledger_sum l0 + unat (pn_reserved_usd_nanos p) \<le> unat (pn_cap_usd_nanos p)"
    "r = \<lparr>rs_reservation_id = pn_reservation_id p, rs_utc_day = utc_day now, rs_reserved_usd_nanos = pn_reserved_usd_nanos p\<rparr>"
    "f = FileLedger (l0\<lparr>dl_pending := btree_insert (pn_reservation_id p)
       \<lparr>pd_provider = pn_provider p, pd_model = pn_model p,
        pd_reserved_usd_nanos = pn_reserved_usd_nanos p, pd_created_at_unix = now\<rparr> (dl_pending l0)\<rparr>)"
proof -
  have r: "r = \<lparr>rs_reservation_id = pn_reservation_id p, rs_utc_day = utc_day now, rs_reserved_usd_nanos = pn_reserved_usd_nanos p\<rparr>"
    and "update_ledger_inner io True (reserve_mutation p now) (dr_file s) = (f, Ok ())"
    using res by (auto simp: plan_reserve_def split: prod.splits sum.splits)
  from this(2) obtain l l' where l: "dr_file s = FileLedger l \<or> dr_file s = FileMissing \<and> l = daily_ledger_empty i64_min"
    and mut: "reserve_mutation p now l = Ok l'" and f: "f = FileLedger l'"
    by (cases rule: update_ledger_cases) auto
  from mut obtain l0 where day: "dl_utc_day l \<le> utc_day now"
    and l0: "l0 = (if dl_utc_day l < utc_day now then daily_ledger_empty (utc_day now) else l)"
    and new: "btree_get (dl_pending l0) (pn_reservation_id p) = None"
    and fits: "ledger_sum l0 + unat (pn_reserved_usd_nanos p) \<le> unat (pn_cap_usd_nanos p)"
    and l': "l' = l0\<lparr>dl_pending := btree_insert (pn_reservation_id p)
       \<lparr>pd_provider = pn_provider p, pd_model = pn_model p,
        pd_reserved_usd_nanos = pn_reserved_usd_nanos p, pd_created_at_unix = now\<rparr> (dl_pending l0)\<rparr>"
    by (rule reserve_mutation_Ok)
  have opened: "daily_ledger_inv cap s l0 \<and> dl_utc_day l0 = utc_day now"
  proof (cases "dl_utc_day l < utc_day now")
    case True
    have old: "\<forall>q \<in> set (dr_open s @ dr_lost s). rs_utc_day q < utc_day now" "\<forall>q \<in> set (dr_paid s). rs_utc_day (fst q) < utc_day now"
      using l inv True by (auto simp: daily_inv_def daily_ledger_inv_def intro!: le_less_trans [where y = "dl_utc_day l"]) fastforce+
    then have "backed l0 (dr_open s @ dr_lost s)"
      using True l0 by (intro backed_other_day) (fastforce simp: daily_ledger_empty_def)
    moreover have "paid_on (utc_day now) (dr_paid s) = 0"
      using old(2) by (auto simp: paid_on_def filter_empty_conv)
    ultimately show ?thesis using old True l0
      by (auto simp: daily_ledger_inv_def daily_ledger_empty_def ledger_sum_def intro: less_imp_le)
  next
    case False
    then have "dr_file s = FileLedger l"
      using l day utc_day_after_sentinel [OF now] by (auto simp: daily_ledger_empty_def)
    with inv False day l0 show ?thesis by (auto simp: daily_inv_def)
  qed
  then show thesis using that [OF _ _ new fits r] f l' by blast
qed

lemma reserve_inv:
  assumes inv: "daily_inv cap s" and now: "is_i64 now" and cap: "pn_cap_usd_nanos p \<le> cap"
    and res: "plan_reserve io p now (dr_file s) = (f, Ok r)"
  shows "daily_inv cap (s\<lparr>dr_file := f, dr_open := r # dr_open s\<rparr>)"
proof -
  obtain l0 where opened: "daily_ledger_inv cap s l0" "dl_utc_day l0 = utc_day now"
    and new: "btree_get (dl_pending l0) (pn_reservation_id p) = None"
    and fit: "ledger_sum l0 + unat (pn_reserved_usd_nanos p) \<le> unat (pn_cap_usd_nanos p)"
    and r: "r = \<lparr>rs_reservation_id = pn_reservation_id p, rs_utc_day = utc_day now, rs_reserved_usd_nanos = pn_reserved_usd_nanos p\<rparr>"
    and f: "f = FileLedger (l0\<lparr>dl_pending := btree_insert (pn_reservation_id p)
       \<lparr>pd_provider = pn_provider p, pd_model = pn_model p,
        pd_reserved_usd_nanos = pn_reserved_usd_nanos p, pd_created_at_unix = now\<rparr> (dl_pending l0)\<rparr>)"
    by (rule admission_ledger [OF inv now res])
  define l' where l': "l' = l0\<lparr>dl_pending := btree_insert (pn_reservation_id p)
       \<lparr>pd_provider = pn_provider p, pd_model = pn_model p,
        pd_reserved_usd_nanos = pn_reserved_usd_nanos p, pd_created_at_unix = now\<rparr> (dl_pending l0)\<rparr>"
  have fits: "ledger_sum l0 + unat (pn_reserved_usd_nanos p) \<le> unat cap" "unat cap < 2 ^ 64"
    using fit cap unsigned_less [of cap, where ?'a = nat] by (simp_all add: word_le_nat_alt)
  have keep: "backed l' (dr_open s @ dr_lost s)"
  proof (rule backed_mono [of l0])
    fix q assume q: "q \<in> set (dr_open s @ dr_lost s)" "rs_utc_day q = dl_utc_day l0"
    then have "btree_get (dl_pending l0) (rs_reservation_id q) \<noteq> None"
      using opened by (auto simp: daily_ledger_inv_def backed_def)
    then show "btree_get (dl_pending l') (rs_reservation_id q) = btree_get (dl_pending l0) (rs_reservation_id q)"
      using new by (auto simp: l' btree_get_insert)
  qed (use opened in \<open>auto simp: daily_ledger_inv_def l'\<close>)
  have "rs_reservation_id r \<notin> rs_reservation_id ` {q \<in> set (dr_open s @ dr_lost s). rs_utc_day q = dl_utc_day l'}"
    using opened new r by (auto simp: daily_ledger_inv_def backed_def l')
  then have "backed l' (r # dr_open s @ dr_lost s)"
    unfolding backed_Cons using keep by (simp add: r l' btree_get_insert)
  then have "daily_ledger_inv cap (s\<lparr>dr_file := f, dr_open := r # dr_open s\<rparr>) l'"
    using opened fits new by (auto simp: daily_ledger_inv_def l' r btree_ok_insert ledger_sum_def pending_sum_insert)
  then show ?thesis
    using inv opened f by (intro daily_inv_ledger [of cap _ l']) (auto simp: daily_inv_def daily_exposure_def r l')
qed

lemma settle_inv:
  assumes inv: "daily_inv cap s" and opn: "dr_open s = xs @ r # ys"
    and act: "actual_usd_nanos r actual = Ok a" and res: "reservation_settle io actual r (dr_file s) = (f, Ok ())"
  shows "daily_inv cap (s\<lparr>dr_file := f, dr_open := xs @ ys, dr_paid := (r, a) # dr_paid s\<rparr>)" (is "daily_inv cap ?t")
proof -
  have exp: "daily_exposure d ?t \<le> unat cap + overshoot_on d (dr_paid ?t)" for d
  proof -
    have "daily_exposure d s \<le> unat cap + overshoot_on d (dr_paid s)" using inv by (simp add: daily_inv_def)
    then show ?thesis by (auto simp: daily_exposure_def opn)
  qed
  from res act have "update_ledger_inner io False (settle_mutation r a) (dr_file s) = (f, Ok ())"
    by (simp add: reservation_settle_def)
  then obtain l l' where l: "dr_file s = FileLedger l" and mut: "settle_mutation r a l = Ok l'"
    and f: "f = FileLedger l'" and valid: "ledger_sum l' < 2 ^ 64"
    by (cases rule: update_ledger_cases) (auto simp: validate_eq)
  have old: "daily_ledger_inv cap s l" using inv l by (simp add: daily_inv_def)
  from mut have "daily_ledger_inv cap ?t l'"
  proof (cases rule: settle_mutation_Ok)
    case later
    have "backed l ((xs @ ys) @ dr_lost s)"
      using old opn unfolding daily_ledger_inv_def opn backed_open backed_Cons by simp
    with later old opn show ?thesis by (auto simp: daily_ledger_inv_def)
  next
    case (recorded l1 u)
    note took = take_pending_inv [OF old opn recorded(2,1)]
    have "ledger_sum l' = ledger_sum l1 + unat a"
      using recorded(3,4) took(3) by (simp add: ledger_sum_def)
    then have "ledger_sum l' \<le> unat cap + overshoot_on (dl_utc_day l) (dr_paid ?t)"
      using took(2) old recorded(1) by (auto simp: daily_ledger_inv_def)
    moreover have "backed l' ((xs @ ys) @ dr_lost s)"
      using took(1) recorded(3) by (simp add: daily_ledger_inv_def backed_def)
    ultimately show ?thesis using took recorded valid by (auto simp: daily_ledger_inv_def)
  qed
  with exp f show ?thesis by (simp add: daily_inv_def)
qed

lemma release_inv:
  assumes inv: "daily_inv cap s" and opn: "dr_open s = xs @ r # ys"
    and res: "release_before_dispatch io r (dr_file s) = (f, res)"
  shows "daily_inv cap (s\<lparr>dr_file := f, dr_open := xs @ ys\<rparr>)" (is "daily_inv cap ?t")
proof -
  have exp: "daily_exposure d ?t \<le> unat cap + overshoot_on d (dr_paid ?t)" for d
  proof -
    have "daily_exposure d s \<le> unat cap + overshoot_on d (dr_paid s)" using inv by (simp add: daily_inv_def)
    then show ?thesis by (simp add: daily_exposure_def opn)
  qed
  have fewer: "daily_ledger_inv cap ?t l" if "daily_ledger_inv cap s l" for l
  proof -
    have "backed l ((xs @ ys) @ dr_lost s)"
      using that unfolding daily_ledger_inv_def opn backed_open backed_Cons by simp
    with that opn show ?thesis by (auto simp: daily_ledger_inv_def)
  qed
  from res have "update_ledger_inner io False (release_mutation r) (dr_file s) = (f, res)"
    by (simp add: release_before_dispatch_def)
  then show ?thesis
  proof (cases rule: update_ledger_cases)
    case (failed e)
    then show ?thesis using inv exp fewer opn by (cases "dr_file s") (auto simp: daily_inv_def)
  next
    case (written l l')
    then have old: "daily_ledger_inv cap s l" and l: "dr_file s = FileLedger l" using inv by (auto simp: daily_inv_def)
    from written(2) have "daily_ledger_inv cap ?t l'"
    proof (cases rule: release_mutation_Ok)
      case later
      then show ?thesis using fewer old by simp
    next
      case recorded
      from take_pending_inv(1) [OF old opn recorded(2,1)] show ?thesis by (simp add: daily_ledger_inv_def)
    qed
    with exp written(4) show ?thesis by (simp add: daily_inv_def)
  qed
qed

lemma lost_inv:
  assumes inv: "daily_inv cap s" and opn: "dr_open s = xs @ r # ys"
  shows "daily_inv cap (s\<lparr>dr_open := xs @ ys, dr_lost := r # dr_lost s\<rparr>)" (is "daily_inv cap ?t")
proof -
  have exp: "daily_exposure d ?t = daily_exposure d s" for d by (simp add: daily_exposure_def opn)
  have "backed l (dr_open ?t @ dr_lost ?t) \<longleftrightarrow> backed l (dr_open s @ dr_lost s)" for l
    using backed_open [of l xs r ys "dr_lost s"] backed_lost [of l xs ys r "dr_lost s"] by (simp add: opn)
  moreover have "set (dr_open ?t @ dr_lost ?t) = set (dr_open s @ dr_lost s)" by (auto simp: opn)
  ultimately have "daily_ledger_inv cap ?t l \<longleftrightarrow> daily_ledger_inv cap s l" for l
    unfolding daily_ledger_inv_def by simp
  with inv exp show ?thesis by (cases "dr_file s") (simp_all add: daily_inv_def opn)
qed

lemma daily_inv_step:
  assumes inv: "daily_inv cap s" and step: "daily_step cap s t"
  shows "daily_inv cap t"
  using step
proof cases
  case dd_reserved
  then show ?thesis using reserve_inv [OF inv] by simp
next
  case (dd_refused p io now f e)
  have "f = dr_file s"
    using dd_refused(2) by (auto simp: plan_reserve_def split: prod.splits sum.splits elim!: update_ledger_cases)
  with dd_refused(1) inv show ?thesis by (simp add: daily_inv_def daily_exposure_def daily_ledger_inv_def cong: ledger_file.case_cong)
next
  case dd_settled
  then show ?thesis using settle_inv [OF inv] by simp
next
  case (dd_unsettled xs r ys actual io f e)
  have "f = dr_file s"
    using dd_unsettled(3) by (auto simp: reservation_settle_def split: sum.splits elim!: update_ledger_cases)
  with dd_unsettled lost_inv [OF inv dd_unsettled(2)] show ?thesis by simp
next
  case dd_released
  then show ?thesis using release_inv [OF inv] by simp
next
  case dd_dropped
  then show ?thesis using lost_inv [OF inv] by simp
next
  case dd_damaged
  with inv show ?thesis by (auto simp: daily_inv_def daily_exposure_def)
qed

interpretation daily: invariant_system daily_init "daily_step cap" "daily_inv cap" for cap
proof
  show "daily_init s \<Longrightarrow> daily_inv cap s" for s by (simp add: daily_init_def daily_inv_def daily_exposure_def)
qed (rule daily_inv_step)

section \<open>Properties\<close>

text \<open>
  C30: a call is admitted only within its cap. Whatever locks, writes and settlements fail, processes die, files are damaged
  and providers report: when a plan is admitted, the reported costs of the calls admitted before it on its day, with the
  bounds of those whose cost never reached the ledger and its own bound, are at most the cap of the plan, and
  while the ledger can be read it accounts for all of them. So for every day these costs and bounds are at most the
  largest cap of all plans plus what providers reported above the bounds reserved for them, which settling does not refuse.
\<close>

theorem daily_spending_within_cap:
  assumes "reachable daily_init (daily_step cap) s"
  shows "daily_exposure d s \<le> unat cap + overshoot_on d (dr_paid s)
    \<and> (\<forall>l. dr_file s = FileLedger l \<longrightarrow> (\<exists>c. committed_usd_nanos l = Ok c \<and> daily_exposure (dl_utc_day l) s \<le> unat c))
    \<and> (\<forall>io p now f r. is_i64 now \<longrightarrow> plan_reserve io p now (dr_file s) = (f, Ok r) \<longrightarrow>
         daily_exposure (utc_day now) s + unat (pn_reserved_usd_nanos p) \<le> unat (pn_cap_usd_nanos p))"
proof (intro conjI allI impI)
  have inv: "daily_inv cap s" by (rule daily.reachable_inv [OF assms])
  then show "daily_exposure d s \<le> unat cap + overshoot_on d (dr_paid s)" by (simp add: daily_inv_def)
  {
    fix l assume "dr_file s = FileLedger l"
    with inv have l: "daily_ledger_inv cap s l" by (simp add: daily_inv_def)
    then have "committed_usd_nanos l = Ok (word_of_nat (ledger_sum l))" "unat (word_of_nat (ledger_sum l) :: u64) = ledger_sum l"
      by (simp_all add: committed_eq unat_of_nat daily_ledger_inv_def)
    with exposure_within_ledger [OF l]
    show "\<exists>c. committed_usd_nanos l = Ok c \<and> daily_exposure (dl_utc_day l) s \<le> unat c" by auto
  next
    fix io p now f r assume "is_i64 now" "plan_reserve io p now (dr_file s) = (f, Ok r)"
    then obtain l0 where "daily_ledger_inv cap s l0" "dl_utc_day l0 = utc_day now"
      "ledger_sum l0 + unat (pn_reserved_usd_nanos p) \<le> unat (pn_cap_usd_nanos p)"
      by (rule admission_ledger [OF inv])
    with exposure_within_ledger [of cap s l0]
    show "daily_exposure (utc_day now) s + unat (pn_reserved_usd_nanos p) \<le> unat (pn_cap_usd_nanos p)" by simp
  }
qed

text \<open>
  A held reservation can always be settled. While the ledger can be locked, read and
  written, settling at a cost within the bound succeeds: on the day of admission it replaces the
  bound by the cost, afterwards it leaves the ledger of the new day as it is.
\<close>

theorem held_reservations_settle:
  assumes "reachable daily_init (daily_step cap) s" and "r \<in> set (dr_open s)" and "dr_file s = FileLedger l"
    and "di_lock io" and "di_write io" and "actual_usd_nanos r actual = Ok a" and "a \<le> rs_reserved_usd_nanos r"
  shows "\<exists>l'. reservation_settle io actual r (dr_file s) = (FileLedger l', Ok ())
    \<and> rs_utc_day r \<le> dl_utc_day l \<and> (rs_utc_day r < dl_utc_day l \<longrightarrow> l' = l)
    \<and> (rs_utc_day r = dl_utc_day l \<longrightarrow>
         btree_get (dl_pending l') (rs_reservation_id r) = None
         \<and> ledger_sum l' + unat (rs_reserved_usd_nanos r) = ledger_sum l + unat a)"
proof -
  have inv: "daily_ledger_inv cap s l" using daily.reachable_inv [OF assms(1)] assms(3) by (simp add: daily_inv_def)
  have day: "rs_utc_day r \<le> dl_utc_day l" using inv assms(2) by (simp add: daily_ledger_inv_def)
  have capped: "ledger_sum l < 2 ^ 64" using inv by (simp add: daily_ledger_inv_def)
  then have valid: "daily_ledger_validate l = Ok ()" using inv by (simp add: validate_eq daily_ledger_inv_def)
  have upd: "reservation_settle io actual r (dr_file s) = (FileLedger l', Ok ())"
    if "settle_mutation r a l = Ok l'" "daily_ledger_validate l' = Ok ()" for l'
    using that assms(3-6) valid
    by (simp add: reservation_settle_def update_ledger_inner_def load_or_start_def load_existing_def)
  show ?thesis
  proof (cases "rs_utc_day r = dl_utc_day l")
    case False
    then have "settle_mutation r a l = Ok l" using day by (simp add: settle_mutation_def)
    from upd [OF this valid] False day show ?thesis by auto
  next
    case True
    obtain p where p: "btree_get (dl_pending l) (rs_reservation_id r) = Some p" "pd_reserved_usd_nanos p = rs_reserved_usd_nanos r"
      using inv assms(2) True by (auto simp: daily_ledger_inv_def backed_def)
    let ?l1 = "l\<lparr>dl_pending := btree_remove (rs_reservation_id r) (dl_pending l)\<rparr>"
    have sum1: "ledger_sum ?l1 + unat (rs_reserved_usd_nanos r) = ledger_sum l"
      using pending_sum_remove [OF _ p(1)] p(2) inv by (simp add: ledger_sum_def daily_ledger_inv_def)
    have a: "unat a \<le> unat (rs_reserved_usd_nanos r)" using assms(7) by (simp add: word_le_nat_alt)
    have "unat (dl_settled_usd_nanos l) \<le> ledger_sum ?l1" by (simp add: ledger_sum_def)
    then have fits: "unat (dl_settled_usd_nanos l) + unat a < 2 ^ 64" using a sum1 capped by simp
    let ?l' = "?l1\<lparr>dl_settled_usd_nanos := dl_settled_usd_nanos l + a\<rparr>"
    have mut: "settle_mutation r a l = Ok ?l'"
      using True p fits by (simp add: settle_mutation_def take_pending_def checked_add_def)
    have sum': "ledger_sum ?l' = ledger_sum ?l1 + unat a"
      using fits by (simp add: ledger_sum_def unat_word_ariths)
    then have "daily_ledger_validate ?l' = Ok ()"
      using inv sum1 a capped by (simp add: validate_eq daily_ledger_inv_def)
    from upd [OF mut this] True sum1 sum' show ?thesis by auto
  qed
qed

text \<open>
  Admission is exact. On a well-formed ledger that can be locked and written, a reservation
  is admitted precisely when the ledger is not from a later day, the id is not pending on this
  day and the committed amount of this day with the bound is at most the cap; a refusal leaves
  the file as it is.
\<close>

theorem reservation_admitted_exactly:
  assumes "daily_ledger_validate l = Ok ()" and "di_lock io" and "di_write io"
  shows "((\<exists>r. snd (plan_reserve io p now (FileLedger l)) = Ok r) \<longleftrightarrow>
      dl_utc_day l \<le> utc_day now
      \<and> (dl_utc_day l = utc_day now \<longrightarrow> btree_get (dl_pending l) (pn_reservation_id p) = None)
      \<and> (if dl_utc_day l = utc_day now then ledger_sum l else 0) + unat (pn_reserved_usd_nanos p) \<le> unat (pn_cap_usd_nanos p))
    \<and> (\<forall>e. snd (plan_reserve io p now (FileLedger l)) = Err e \<longrightarrow> fst (plan_reserve io p now (FileLedger l)) = FileLedger l)"
    (is "(?admitted \<longleftrightarrow> ?cond) \<and> ?kept")
proof (rule conjI, rule iffI)
  show ?kept by (auto simp: plan_reserve_def split: prod.splits sum.splits elim!: update_ledger_cases)
next
  assume ?admitted
  then obtain f where "update_ledger_inner io True (reserve_mutation p now) (FileLedger l) = (f, Ok ())"
    by (auto simp: plan_reserve_def split: prod.splits sum.splits)
  then obtain l' where "reserve_mutation p now l = Ok l'" by (cases rule: update_ledger_cases) auto
  then show ?cond by (rule reserve_mutation_Ok) (auto simp: daily_ledger_empty_def ledger_sum_def split: if_splits)
next
  assume cond: ?cond
  let ?l0 = "if dl_utc_day l < utc_day now then daily_ledger_empty (utc_day now) else l"
  have sum0: "ledger_sum ?l0 = (if dl_utc_day l = utc_day now then ledger_sum l else 0)"
    using cond by (auto simp: daily_ledger_empty_def ledger_sum_def)
  then have fits: "ledger_sum ?l0 + unat (pn_reserved_usd_nanos p) \<le> unat (pn_cap_usd_nanos p)" using cond by simp
  then have small: "ledger_sum ?l0 + unat (pn_reserved_usd_nanos p) < 2 ^ 64"
    using unsigned_less [of "pn_cap_usd_nanos p", where ?'a = nat] by simp
  then have c: "committed_usd_nanos ?l0 = Ok (word_of_nat (ledger_sum ?l0))" by (simp add: committed_eq)
  have u: "unat (word_of_nat (ledger_sum ?l0) :: u64) = ledger_sum ?l0" using small by (simp add: unat_of_nat)
  have new: "btree_get (dl_pending ?l0) (pn_reservation_id p) = None" using cond by (auto simp: daily_ledger_empty_def)
  obtain t where t: "checked_add (word_of_nat (ledger_sum ?l0)) (pn_reserved_usd_nanos p) = Some t"
    using small u by (auto simp: checked_add_def)
  then have "t \<le> pn_cap_usd_nanos p" using u fits by (simp add: checked_add_Some word_le_nat_alt)
  from leD [OF this] cond new c t obtain l' where l': "reserve_mutation p now l = Ok l'"
    by (simp only: reserve_mutation_def Let_def) simp
  then have "daily_ledger_validate l' = Ok ()"
    by (rule reserve_mutation_Ok)
      (use assms(1) small new in \<open>auto simp: validate_eq ledger_sum_def pending_sum_insert daily_ledger_empty_def split: if_splits\<close>)
  with l' assms show ?admitted
    by (simp add: plan_reserve_def update_ledger_inner_def load_or_start_def load_existing_def)
qed

text \<open>
  A damaged ledger blocks without being touched. While the ledger is unreadable, malformed
  or fails its validation, every operation fails and leaves the file as it is.
\<close>

theorem damaged_ledger_blocks:
  assumes "f = FileUnreadable \<or> f = FileMalformed \<or> (\<exists>l. f = FileLedger l \<and> daily_ledger_validate l \<noteq> Ok ())"
  shows "(\<exists>e. plan_reserve io p now f = (f, Err e)) \<and> (\<exists>e. reservation_settle io actual r f = (f, Err e))
    \<and> (\<exists>e. release_before_dispatch io r f = (f, Err e)) \<and> (\<exists>e. remaining_usd lock cap now f = Err e)"
proof -
  obtain e where e: "load_existing f = Err e" "e \<noteq> ReadMissing"
  proof -
    consider "f = FileUnreadable" | "f = FileMalformed" | l e where "f = FileLedger l" "daily_ledger_validate l = Err e"
      using assms by (metis obj_sumE old.unit.exhaust)
    then show thesis
    proof cases
      case 3
      then have "e \<noteq> ReadMissing" by (auto simp: daily_ledger_validate_def committed_eq split: if_splits)
      with 3 that show ?thesis by (simp add: load_existing_def)
    qed (use that in \<open>simp_all add: load_existing_def\<close>)
  qed
  then have upd: "\<exists>e. update_ledger_inner io am mut f = (f, Err e)" for am mut
    by (simp add: update_ledger_inner_def load_or_start_def)
  then have "\<exists>e. plan_reserve io p now f = (f, Err e)" by (metis (mono_tags, lifting) plan_reserve_def case_prod_conv sum.case(1))
  moreover have "\<exists>e. reservation_settle io actual r f = (f, Err e)"
    using upd by (cases "actual_usd_nanos r actual") (simp_all add: reservation_settle_def)
  moreover have "\<exists>e. remaining_usd lock cap now f = Err e"
    using e by (cases e) (simp_all add: remaining_usd_def)
  ultimately show ?thesis using upd by (simp add: release_before_dispatch_def)
qed

section \<open>Witnesses\<close>

definition sample_ledger :: daily_ledger where
  "sample_ledger = \<lparr>dl_schema_version = 1, dl_utc_day = 1, dl_settled_usd_nanos = 0,
     dl_pending = [(''a'', \<lparr>pd_provider = ''p'', pd_model = ''m'', pd_reserved_usd_nanos = 3, pd_created_at_unix = 90000\<rparr>)]\<rparr>"

definition sample_reservation :: daily_reservation where
  "sample_reservation = \<lparr>rs_reservation_id = ''a'', rs_utc_day = 1, rs_reserved_usd_nanos = 3\<rparr>"

lemma daily_sample_reachable:
  "reachable daily_init (daily_step 10)
     \<lparr>dr_file = FileLedger sample_ledger, dr_open = [sample_reservation], dr_lost = [], dr_paid = []\<rparr>"
proof -
  let ?s = "\<lparr>dr_file = FileMissing, dr_open = [], dr_lost = [], dr_paid = []\<rparr>"
  let ?p = "\<lparr>pn_cap_usd_nanos = 10, pn_reservation_id = ''a'', pn_provider = ''p'', pn_model = ''m'', pn_reserved_usd_nanos = 3\<rparr>"
  have "plan_reserve \<lparr>di_lock = True, di_write = True\<rparr> ?p 90000 FileMissing = (FileLedger sample_ledger, Ok sample_reservation)"
    by (simp add: plan_reserve_def update_ledger_inner_def load_or_start_def load_existing_def reserve_mutation_def
        daily_ledger_empty_def utc_day_def SECONDS_PER_UTC_DAY_def i64_min_def committed_usd_nanos_def checked_add_def
        daily_ledger_validate_def LEDGER_SCHEMA_VERSION_def sample_ledger_def sample_reservation_def)
  then have "daily_step 10 ?s (?s\<lparr>dr_file := FileLedger sample_ledger, dr_open := sample_reservation # dr_open ?s\<rparr>)"
    by (intro dd_reserved [of 90000 ?p 10 "\<lparr>di_lock = True, di_write = True\<rparr>"]) (simp_all add: is_i64_def i64_min_def i64_max_def)
  then have step: "daily_step 10 ?s
      \<lparr>dr_file = FileLedger sample_ledger, dr_open = [sample_reservation], dr_lost = [], dr_paid = []\<rparr>" by simp
  have "reachable daily_init (daily_step 10) ?s" by (rule reachable_init) (simp add: daily_init_def)
  from reachable_step [of daily_init "daily_step 10", OF this step] show ?thesis .
qed

text \<open>The second plan of the sample is admitted beside the first one, up to the cap.\<close>

theorem daily_spending_within_cap_witness:
  "\<exists>f r. plan_reserve \<lparr>di_lock = True, di_write = True\<rparr>
      \<lparr>pn_cap_usd_nanos = 10, pn_reservation_id = ''b'', pn_provider = ''p'', pn_model = ''m'', pn_reserved_usd_nanos = 7\<rparr> 90001
      (FileLedger sample_ledger) = (f, Ok r)
    \<and> daily_exposure (utc_day 90001) \<lparr>dr_file = FileLedger sample_ledger, dr_open = [sample_reservation], dr_lost = [], dr_paid = []\<rparr> + 7 \<le> 10"
proof -
  let ?p = "\<lparr>pn_cap_usd_nanos = 10, pn_reservation_id = ''b'', pn_provider = ''p'', pn_model = ''m'', pn_reserved_usd_nanos = 7\<rparr>"
  have "\<exists>f r. plan_reserve \<lparr>di_lock = True, di_write = True\<rparr> ?p 90001 (FileLedger sample_ledger) = (f, Ok r)"
    by (simp add: plan_reserve_def update_ledger_inner_def load_or_start_def load_existing_def reserve_mutation_def
        utc_day_def SECONDS_PER_UTC_DAY_def committed_usd_nanos_def checked_add_def
        daily_ledger_validate_def LEDGER_SCHEMA_VERSION_def sample_ledger_def)
  then obtain f r where r: "plan_reserve \<lparr>di_lock = True, di_write = True\<rparr> ?p 90001 (FileLedger sample_ledger) = (f, Ok r)" by blast
  moreover have "is_i64 90001" by (simp add: is_i64_def i64_min_def i64_max_def)
  ultimately show ?thesis using daily_spending_within_cap [OF daily_sample_reachable, of 0] by fastforce
qed

theorem held_reservations_settle_witness:
  "\<exists>l'. reservation_settle \<lparr>di_lock = True, di_write = True\<rparr> None sample_reservation (FileLedger sample_ledger)
     = (FileLedger l', Ok ()) \<and> btree_get (dl_pending l') ''a'' = None"
  using held_reservations_settle [OF daily_sample_reachable, of sample_reservation sample_ledger "\<lparr>di_lock = True, di_write = True\<rparr>" None 3]
  by (auto simp: actual_usd_nanos_def sample_reservation_def sample_ledger_def)

theorem reservation_admitted_exactly_witness:
  "\<exists>r. snd (plan_reserve \<lparr>di_lock = True, di_write = True\<rparr>
     \<lparr>pn_cap_usd_nanos = 10, pn_reservation_id = ''b'', pn_provider = ''p'', pn_model = ''m'', pn_reserved_usd_nanos = 7\<rparr>
     90001 (FileLedger sample_ledger)) = Ok r"
  by (subst reservation_admitted_exactly [THEN conjunct1])
    (simp_all add: validate_eq sample_ledger_def LEDGER_SCHEMA_VERSION_def ledger_sum_def utc_day_def SECONDS_PER_UTC_DAY_def)

theorem damaged_ledger_blocks_witness:
  "\<exists>e. plan_reserve \<lparr>di_lock = True, di_write = True\<rparr>
     \<lparr>pn_cap_usd_nanos = 10, pn_reservation_id = ''b'', pn_provider = ''p'', pn_model = ''m'', pn_reserved_usd_nanos = 7\<rparr>
     90001 FileMalformed = (FileMalformed, Err e)"
  using damaged_ledger_blocks [of FileMalformed] by blast

end
