(* ===== verification/Spec2Isabelle.thy ===== *)
theory Spec2Isabelle
  imports Wal_Failures Perm_Confirm Perm_Tier Perm_Ifc Perm_Mic Budget_Service Budget_Durable
    Token_Attribution Provider_Breaker Council_Budget Council_Daily
begin

text \<open>
  A verification development of NEOTH, a local-first agent daemon written in Rust. Its
  implementation lives under \<open>src/SRC\<close>; the crate \<open>neothd\<close>
  (\<open>src/SRC/neothd/src\<close>) holds the daemon. All paths below are relative to it.

  \<^bold>\<open>The parts that are modelled and how they interact.\<close> Every event of the daemon
  is a frame of a write-ahead log (\<open>wal/\<close>): a header is stamped by a process-global
  hybrid logical clock, encoded with its payload and a CRC into a segment file, and after
  a crash the tail of the last segment is scanned and cut at the last complete frame; the writer
  authenticates the frames of a segment by HMAC markers and links each segment to its predecessor.
  Every effect of an agent passes the permission gate (\<open>permissions/\<close>): a policy
  table per autonomy level, custom overrides and skill caps decide, capability leases or an
  operator answer turn a question into a permission, and the decision is audited by two
  frames in the log before the effect. Paid provider calls of a cluster draw on one budget
  (\<open>cluster/budget_raft/\<close>): a ledger replicated by OpenRaft among three frozen
  voters, whose identities are re-proved against the membership authority
  (\<open>cluster/membership.rs\<close>).

  \<^bold>\<open>Theories.\<close> \<open>Neoth_Prelude\<close> is the shared vocabulary: Rust integers as
  words, results as sums, byte buffers, UTF-8 strings, the ordered map behind
  \<open>BTreeMap\<close>, and the locales \<open>byte_codec\<close>, \<open>ordered_map\<close> and
  \<open>invariant_system\<close>.

  \<^item> \<open>Wal_Types\<close> (\<open>wal/types.rs\<close>, \<open>wal/error.rs\<close>),
    \<open>Wal_Hlc\<close> (\<open>wal/hlc.rs\<close>), \<open>Wal_Frame\<close> (\<open>wal/header.rs\<close>,
    \<open>wal/frame.rs\<close>), \<open>Wal_Builder\<close> (\<open>wal/builder.rs\<close>),
    \<open>Wal_Segment\<close> (\<open>wal/segment_header.rs\<close>) and \<open>Wal_Recovery\<close>
    (\<open>wal/recovery.rs\<close>). Headers, frames and segment headers are records with exact
    codecs (\<open>byte_codec\<close> is interpreted for each); the process clock is a transition
    system of local stamps and peer merges with an invariant by \<open>invariant_system\<close>;
    the recovery scan refines the longest run of decodable frames (locale
    \<open>framed_log\<close>).
  \<^item> \<open>Wal_Markers\<close> (\<open>wal/compaction.rs\<close>, the verification part of
    \<open>wal/writer.rs\<close>) holds the rolling HMAC window, the marker frames and the recovery of the
    open window, \<open>Wal_Names\<close> the names of segments, and \<open>Wal_Writer\<close>
    (\<open>wal/writer.rs\<close>) the writer task: rotation, append, flush, the barrier of append-once
    requests, shutdown and startup over a map of files, where a failed write leaves any prefix of its
    bytes. \<open>Wal_Inv\<close> has the invariant of a running writer and that its operations keep it,
    \<open>Wal_Restart\<close> startup on what a crash leaves, \<open>Wal_Log\<close> what a request leaves behind
    whatever its outcome, and \<open>Wal_Runs\<close> the runs: the step relation \<open>log_step\<close> over a
    phase, \<open>Serving\<close> or \<open>Down\<close>, with requests of any outcome, crashes, and startups that
    succeed or fail. \<open>Wal_Sample\<close> is a concrete library with markers in the format of serde_json,
    \<open>Wal_Durability\<close> has the properties of the runs and \<open>Wal_Failures\<close> the two outcomes
    after which a run of \<open>log_step\<close> does not go on serving: after a failed write that left bytes, and
    after a failed marker of three of the barriers, the code serves on with a file that its own recovery
    cuts or refuses.
  \<^item> \<open>Perm_Action\<close> (\<open>permissions/mod.rs\<close>), \<open>Perm_Policy\<close>
    (\<open>permissions/policy.rs\<close>), \<open>Perm_Lease\<close> (\<open>permissions/lease.rs\<close>),
    \<open>Perm_Trust\<close> (\<open>permissions/trust_ledger.rs\<close>) and \<open>Perm_Gate\<close>
    (\<open>permissions/gate.rs\<close>). The decision tables are transcribed arm by arm; the gate
    takes its environment (live policies, operator answers, outcomes of the log appends) as
    an argument and returns the audit records it appended.
  \<^item> \<open>Perm_Confirm\<close> (\<open>permissions/confirm.rs\<close>,
    \<open>permissions/confirm_bus.rs\<close>): the handshake of a question with an operator. The
    bus is a step relation over any number of waiters, replies and the drain task, cut at every
    suspension point and lock release; \<open>Perm_Tier\<close>
    (\<open>permissions/tier_classifier.rs\<close>) is the classifier of tool names. \<open>Perm_Ifc\<close>
    (\<open>permissions/ifc.rs\<close>) holds information-flow labels and the single-use release of a
    research topic; \<open>Perm_Mic\<close> (\<open>permissions/microphone.rs\<close>) the consent to open
    a microphone, with a grant file that other processes may replace between any two steps.
  \<^item> \<open>Budget_Types\<close> (\<open>budget_raft/types.rs\<close>), \<open>Budget_Ledger\<close>
    (\<open>budget_raft/state_machine.rs\<close>), \<open>Budget_Run\<close> (runs of the ledger over
    committed logs) and \<open>Budget_Membership\<close> (\<open>budget_raft/membership_validator.rs\<close>,
    the snapshot part of \<open>cluster/membership.rs\<close>).
  \<^item> \<open>Budget_Store\<close> (\<open>budget_raft/store.rs\<close>) holds every operation of the SQLite
    store as a transaction on its tables, and \<open>Budget_Durable\<close> the histories of such
    operations and their invariant. \<open>Budget_Service\<close> (\<open>budget_raft/service.rs\<close>, the
    routes of \<open>network.rs\<close>) is the facade that mints the permits of provider calls; its
    executions interleave the voters, whose writes may be lost before or after their commit.

  \<^item> \<open>Token_Budget\<close> (\<open>tokens/budget.rs\<close>) is the enforcement of the token cap on
    the typed items of a prompt, with its loop as a partial function, and
    \<open>Token_Attribution\<close> (\<open>tokens/prompt_attribution.rs\<close>,
    \<open>tokens/partial_prompt_origin.rs\<close>) the content-free accounting of what was kept.

  \<^item> \<open>Provider_Breaker\<close> (\<open>providers/circuit_breaker.rs\<close>,
    \<open>circuit_breaker_stream.rs\<close>) is the circuit breaker around provider calls and streams,
    with its registry and its persisted counters; executions interleave any number of callers
    that hold permits.

  \<^item> \<open>Council_Budget\<close> (\<open>council/budget.rs\<close>, \<open>council/day_counter.rs\<close>) holds the
    call caps of the council, whose token is shared by concurrent leaves, and
    \<open>Council_Daily\<close> (\<open>council/daily_budget.rs\<close>) its spending ledger, whose executions
    include failing locks and writes, dying holders and damaged files.

  \<^bold>\<open>What the lemmas show.\<close> Codecs: decoding inverts encoding, every accepted
  buffer is the encoding of exactly one valid value, every proper prefix of a frame is
  reported as torn. Recovery: the scan stops at the last complete frame, never outside the
  file, and truncating there makes the segment appendable again. Writer: in every run that does
  not serve on after one of those two outcomes the closed segments verify to their last byte and the HMAC
  state in memory is the one recovery rebuilds, a frame acknowledged with a sync stays through every
  continuation of the run, a restart after a crash comes up, a rotation links the segments by the hash of
  the closed one, a frame of legal size always fits under the recovery
  limit, and a verified segment is signed without a gap. Clock: stamps strictly
  increase under every interleaving while physical time is below the 64-bit maximum, and
  replay order is a total order that agrees with them. Permissions: the gate lets an action
  through exactly in the listed cases, a policy denial is final, five action kinds are never
  allowed silently, raising a level never makes a decision stricter, a skill cap only
  restricts, and a required audit precedes the effect. Budget: the sum of all bounds stays
  within the cap in every reachable ledger, a grant yields at most one executable claim,
  replays return the original receipt, and every command is a step of an abstract budget; the
  store implements that ledger through restarts, purges and snapshots, its log has no holes;
  no two provider permits exist for one grant, all permits together are within the cap, and a
  permit is minted only under current membership. Confirmation: an approval over a channel is
  the one accepted reply to its question, and a waiter can always return. Consent: every
  opening of a microphone goes back to an unexpired consent for that configuration, and a
  revocation is final. Labels: a flow is allowed exactly when no label exceeds the clearance,
  and a release is used at most once. Prompts: the degradation loop ends for every prompt and
  cap, by a panic of \<open>sort_by\<close> at most where an importance is NaN, keeps the protected items, ends within the cap or with nothing degradable left, and the
  accounting of a request adds up to its bound. Breaker: a refusal names exactly the delay after
  which a call is admitted, a dead provider is contacted less often per cooldown than the
  failure threshold plus the calls in flight at once, exactly up to the threshold when calls do not overlap,
  and sequential callers see the documented automaton, while a late reply of an old
  call can close an open breaker. Council: no more calls or convenes are admitted than
  the caps allow, a reservation of costs is admitted only within the cap of its plan, spending exceeds that cap
  by what providers report above their bounds and no more, a held reservation can always be settled, and a damaged ledger blocks; a
  corrupted log of convenes resets its cap.

  \<^bold>\<open>Parameters.\<close> Code of third-party crates is an argument of the definitions that
  call it: CRC-32C (\<open>crc\<close>), XXH3, SHA-256 with hexadecimal encoding (\<open>dg\<close>,
  \<open>dig\<close>), hexadecimal decoding (\<open>hexd\<close>), UUIDs and readings of the clock. The
  writer takes a record of them (\<open>wal_lib\<close>) with HMAC-SHA256 and the JSON of its own frames:
  \<open>hmac_sized\<close> says that a tag has 32 bytes, \<open>marker_json_ok\<close> that a marker whose tag
  is written in 64 lower-case hexadecimal digits is read back from its JSON, \<open>marker_json_small\<close> that
  the frame with the JSON of such a marker has at most 512 bytes, \<open>stamp_ok\<close> that the clock gives a
  time a header can carry; outcomes of writes and syncs are inputs, and so is the outcome of
  \<open>sort_by\<close> where the comparison is not a total order. JSON
  is a record of encoders and decoders (\<open>json_ok\<close>: decoding inverts encoding), a quorum
  write is a function of the command and the ledger (\<open>raft_commits\<close>: a reply is that of
  the committed command, a failed write was committed or was not). What a
  theorem needs of them is a hypothesis of that theorem. Loops over slices and maps are
  structural recursions; the recovery scan recurses with the measure of the bytes left, the
  degradation loop of the prompt budget is a partial function proved to return; no fuel is used
  anywhere.

  \<^bold>\<open>Not modelled.\<close> Of the writer: the request channel, the lookups and quotas of receipts,
  sidecar locks and zstd sealing, whose policy no default start selects; a run does not serve on
  after a failed write that left bytes or a failed marker of the three barriers that are not fatal, and a
  crash point of a run leaves room below the recovery limit for the audit frame of the next startup, at its
  actual size, and a marker. File-system and network I/O, asynchronous scheduling, JSON encodings,
  the SQLite engine, the transport of Raft messages, the command line, the GUI, provider, channel and integration clients, installers
  and media code; the manifest lists every part with the reason.
\<close>

end
